(* ===== verification/Prelude.thy ===== *)
theory Prelude
  imports Main "HOL-Library.Word" "HOL-Library.Monad_Syntax"
begin

text \<open>
  Shared vocabulary of the FrazzOS model: the C integer types, checked array access,
  the two loop shapes the kernel uses, and the word lemmas every component needs.

  Conventions.  A C expression of type \<open>uint64_t\<close> is a \<open>u64\<close>; a C \<open>int\<close> is an
  \<open>s32\<close>, a 32-bit word read with \<open>sint\<close>.  Conversions are the ones the C standard
  prescribes: \<open>scast\<close> from \<open>int\<close> to \<open>uint64_t\<close> (sign extension), \<open>ucast\<close> from a
  wider to a narrower type (truncation).  \<open>None\<close> is the absence of a result: an access
  outside an array, a fault, or a loop that never ends.
\<close>

unbundle bit_operations_syntax

type_synonym u8 = "8 word"
type_synonym u16 = "16 word"
type_synonym u32 = "32 word"
type_synonym u64 = "64 word"
type_synonym s32 = "32 word"
type_synonym s64 = "64 word"

named_theorems frazz_defs \<open>definitions of one-line C helpers\<close>
named_theorems used_simps \<open>what the bitmap operations do to the set of used indices\<close>

section \<open>Status codes (status.h)\<close>

definition ENOMEM :: s32 where "ENOMEM = - 1"
definition EINVAL :: s32 where "EINVAL = - 2"
definition EINVARG :: s32 where "EINVARG = - 3"

lemmas status_defs = ENOMEM_def EINVAL_def EINVARG_def

section \<open>Checked arrays\<close>

definition buf_get :: "'a list \<Rightarrow> int \<Rightarrow> 'a option" where
  "buf_get xs i = (if 0 \<le> i \<and> i < int (length xs) then Some (xs ! nat i) else None)"

definition buf_set :: "'a list \<Rightarrow> int \<Rightarrow> 'a \<Rightarrow> 'a list option" where
  "buf_set xs i v = (if 0 \<le> i \<and> i < int (length xs) then Some (xs[nat i := v]) else None)"

lemma buf_get_in [simp]: "k < length xs \<Longrightarrow> buf_get xs (int k) = Some (xs ! k)"
  by (simp add: buf_get_def)

lemma buf_get_Some: "buf_get xs i = Some x \<longleftrightarrow> (\<exists>k. i = int k \<and> k < length xs \<and> x = xs ! k)"
  by (auto simp: buf_get_def intro: exI [of _ "nat i"])

lemma buf_set_in [simp]: "k < length xs \<Longrightarrow> buf_set xs (int k) v = Some (xs[k := v])"
  by (simp add: buf_set_def)

lemma buf_set_Some:
  "buf_set xs i v = Some ys \<longleftrightarrow> (\<exists>k. i = int k \<and> k < length xs \<and> ys = xs[k := v])"
  by (auto simp: buf_set_def intro: exI [of _ "nat i"])

section \<open>Loops\<close>

text \<open>
  \<open>for_range f i n s\<close> is \<open>for (k = i; k < n; k++) s = f(k, s)\<close>, stopping at a fault.
  The kernel's counters are unsigned and bounded by \<open>n\<close>, so they never wrap and a
  natural number stands for them.
\<close>

function for_range :: "(nat \<Rightarrow> 's \<Rightarrow> 's option) \<Rightarrow> nat \<Rightarrow> nat \<Rightarrow> 's \<Rightarrow> 's option" where
  "for_range f i n s =
     (if i < n then (case f i s of None \<Rightarrow> None | Some s' \<Rightarrow> for_range f (Suc i) n s')
      else Some s)"
  by pat_completeness auto
termination
  by (relation "measure (\<lambda>(f, i, n, s). n - i)") auto

declare for_range.simps [simp del]

lemma for_range_stop [simp]: "n \<le> i \<Longrightarrow> for_range f i n s = Some s"
  by (simp add: for_range.simps)

lemma for_range_step:
  "i < n \<Longrightarrow> for_range f i n s = Option.bind (f i s) (for_range f (Suc i) n)"
  by (subst for_range.simps) (auto split: option.splits)

text \<open>An invariant over the indices done so far, with progress.\<close>

lemma for_range_total:
  assumes "i \<le> n" and "P i s"
    and "\<And>k t. i \<le> k \<Longrightarrow> k < n \<Longrightarrow> P k t \<Longrightarrow> \<exists>t'. f k t = Some t' \<and> P (Suc k) t'"
  shows "\<exists>s'. for_range f i n s = Some s' \<and> P n s'"
  using assms
proof (induction "n - i" arbitrary: i s)
  case 0
  then show ?case by auto
next
  case (Suc d)
  then have lt: "i < n" by simp
  with Suc.prems obtain t where t: "f i s = Some t" "P (Suc i) t"
    by blast
  have "\<exists>s'. for_range f (Suc i) n t = Some s' \<and> P n s'"
    by (rule Suc.hyps(1)) (use Suc.hyps(2) Suc.prems t lt in auto)
  with t lt show ?case by (simp add: for_range_step)
qed

lemma for_range_inv:
  assumes "for_range f i n s = Some s'" and "i \<le> n" and "P i s"
    and "\<And>k t t'. i \<le> k \<Longrightarrow> k < n \<Longrightarrow> P k t \<Longrightarrow> f k t = Some t' \<Longrightarrow> P (Suc k) t'"
  shows "P n s'"
  using assms
proof (induction "n - i" arbitrary: i s)
  case 0
  then show ?case by auto
next
  case (Suc d)
  then have lt: "i < n" by simp
  with Suc.prems(1) obtain t where t: "f i s = Some t" "for_range f (Suc i) n t = Some s'"
    by (auto simp: for_range_step Option.bind_eq_Some_conv)
  show ?case
    by (rule Suc.hyps(1) [OF _ t(2)]) (use Suc.hyps(2) Suc.prems t lt in auto)
qed

text \<open>
  \<open>for_find f i n\<close> is \<open>for (k = i; k < n; k++) if (f(k)) return k;\<close>: \<open>None\<close> if a test
  faults, \<open>Some None\<close> if the loop runs out.
\<close>

function for_find :: "(nat \<Rightarrow> bool option) \<Rightarrow> nat \<Rightarrow> nat \<Rightarrow> nat option option" where
  "for_find f i n =
     (if i < n then
        (case f i of None \<Rightarrow> None
         | Some True \<Rightarrow> Some (Some i)
         | Some False \<Rightarrow> for_find f (Suc i) n)
      else Some None)"
  by pat_completeness auto
termination
  by (relation "measure (\<lambda>(f, i, n). n - i)") auto

declare for_find.simps [simp del]

lemma for_find_hit:
  assumes "i \<le> k" "k < n" "f k = Some True" "\<And>j. i \<le> j \<Longrightarrow> j < k \<Longrightarrow> f j = Some False"
  shows "for_find f i n = Some (Some k)"
  using assms
proof (induction "k - i" arbitrary: i)
  case 0
  then show ?case by (subst for_find.simps) auto
next
  case (Suc d)
  then have "for_find f (Suc i) n = Some (Some k)" by auto
  with Suc show ?case by (subst for_find.simps) auto
qed

lemma for_find_fault:
  assumes "i \<le> k" "k < n" "f k = None" "\<And>j. i \<le> j \<Longrightarrow> j < k \<Longrightarrow> f j = Some False"
  shows "for_find f i n = None"
  using assms
proof (induction "k - i" arbitrary: i)
  case 0
  then show ?case by (subst for_find.simps) auto
next
  case (Suc d)
  then have "for_find f (Suc i) n = None" by auto
  with Suc show ?case by (subst for_find.simps) auto
qed

lemma for_find_none:
  assumes "\<And>j. i \<le> j \<Longrightarrow> j < n \<Longrightarrow> f j = Some False"
  shows "for_find f i n = Some None"
  using assms
proof (induction "n - i" arbitrary: i)
  case 0
  then show ?case by (subst for_find.simps) auto
next
  case (Suc d)
  then have "for_find f (Suc i) n = Some None" by auto
  with Suc show ?case by (subst for_find.simps) auto
qed

lemma for_find_cases:
  assumes "for_find f i n = Some r"
  shows "case r of
           Some k \<Rightarrow> i \<le> k \<and> k < n \<and> f k = Some True \<and> (\<forall>j. i \<le> j \<and> j < k \<longrightarrow> f j = Some False)
         | None \<Rightarrow> (\<forall>j. i \<le> j \<and> j < n \<longrightarrow> f j = Some False)"
  using assms
proof (induction "n - i" arbitrary: i)
  case 0
  then show ?case by (subst (asm) for_find.simps) auto
next
  case (Suc d)
  then have lt: "i < n" by simp
  show ?case
  proof (cases "f i")
    case None
    with Suc.prems lt show ?thesis by (simp add: for_find.simps)
  next
    case (Some b)
    show ?thesis
    proof (cases b)
      case True
      with Some Suc.prems lt have "r = Some i" by (simp add: for_find.simps)
      with Some True lt show ?thesis by auto
    next
      case False
      with Some Suc.prems lt have "for_find f (Suc i) n = Some r"
        by (simp add: for_find.simps)
      then have IH: "case r of
           Some k \<Rightarrow> Suc i \<le> k \<and> k < n \<and> f k = Some True \<and> (\<forall>j. Suc i \<le> j \<and> j < k \<longrightarrow> f j = Some False)
         | None \<Rightarrow> (\<forall>j. Suc i \<le> j \<and> j < n \<longrightarrow> f j = Some False)"
        using Suc.hyps by simp
      show ?thesis
      proof (cases r)
        case None
        with IH Some False show ?thesis
          by simp (metis Suc_leI le_neq_implies_less)
      next
        case (Some k)
        with IH \<open>f i = Some b\<close> False show ?thesis
          by simp (metis Suc_leI Suc_leD le_neq_implies_less)
      qed
    qed
  qed
qed

section \<open>Words\<close>

lemma unat_of_nat64: "n < 2 ^ 64 \<Longrightarrow> unat (of_nat n :: u64) = n"
  by (simp add: unat_of_nat take_bit_nat_eq_self)

lemma unat_of_nat32: "n < 2 ^ 32 \<Longrightarrow> unat (of_nat n :: u32) = n"
  by (simp add: unat_of_nat take_bit_nat_eq_self)

lemma unat_u64_bound: "unat (x :: u64) < 2 ^ 64"
  using unsigned_less [of x, where ?'a = nat] by simp

lemma word_and_nonzero_iff: "w AND v \<noteq> 0 \<longleftrightarrow> (\<exists>k. bit w k \<and> bit v k)"
  for w v :: "'a::len word"
  by (auto simp: bit_eq_iff [of "w AND v" 0] bit_and_iff dest: bit_imp_le_length)

text \<open>A small index survives the trip through \<open>int\<close>.\<close>

lemma scast_of_nat32:
  assumes "n < 2 ^ 31"
  shows "(scast (of_nat n :: s32) :: u64) = of_nat n"
proof -
  have "sint (of_nat n :: s32) = int n"
    using assms by (simp add: signed_of_nat signed_take_bit_int_eq_self)
  then show ?thesis
    by (metis of_int_of_nat_eq of_int_sint scast_eq)
qed

lemma ucast_of_nat64: "n < 2 ^ 64 \<Longrightarrow> (ucast (of_nat n :: u64) :: u32) = of_nat n"
  by (simp add: unsigned_of_nat take_bit_nat_eq_self)

lemma sint_of_nat32: "n < 2 ^ 31 \<Longrightarrow> sint (of_nat n :: s32) = int n"
  by (simp add: signed_of_nat signed_take_bit_int_eq_self)

lemma of_nat_div64: "n < 2 ^ 64 \<Longrightarrow> m < 2 ^ 64 \<Longrightarrow> (of_nat n :: u64) div of_nat m = of_nat (n div m)"
  by (simp add: word_arith_nat_div unat_of_nat64)

lemma of_nat_mod64: "n < 2 ^ 64 \<Longrightarrow> m < 2 ^ 64 \<Longrightarrow> (of_nat n :: u64) mod of_nat m = of_nat (n mod m)"
  by (simp add: word_arith_nat_mod unat_of_nat64)

end
