(* ===== verification/Bitmap.thy ===== *)
theory Bitmap
  imports Prelude
begin

text \<open>
  The bitmap routines of klibc/bitmap.c, shared in shape by mm/pmm.c: a bitmap is an array
  of 64-bit words, index \<open>i\<close> lives in word \<open>i / 64\<close>.

  The code builds its masks as \<open>1 << (idx % 64)\<close>, where \<open>1\<close> is an \<open>int\<close>.  For a shift
  count of 31 or more the C standard leaves the result undefined; the kernel is built for
  x86_64 only, whose 32-bit shift instruction takes the count modulo 32, and that value,
  sign-extended to 64 bits, is what the model computes.  So bit \<open>b\<close> and bit \<open>b + 32\<close> of a
  word share one mask (\<open>aliased\<close> below), and the mask for bit 31 is the whole upper half
  with bit 31.
\<close>

section \<open>Masks\<close>

definition BITS_PER_BLOCK :: nat where "BITS_PER_BLOCK = 64"

definition int_shl1 :: "nat \<Rightarrow> s32" where
  \<comment> \<open>\<open>1 << n\<close> on \<open>int\<close>, as x86 computes it\<close>
  "int_shl1 n = push_bit (n mod 32) 1"

definition c_mask :: "nat \<Rightarrow> u64" where
  "c_mask n = scast (int_shl1 n)"

definition c_not_mask :: "nat \<Rightarrow> u64" where
  "c_not_mask n = scast (NOT (int_shl1 n))"

lemma bit_int_shl1: "bit (int_shl1 n) k \<longleftrightarrow> k = n mod 32"
  by (auto simp: int_shl1_def bit_exp_iff)

lemma bit_c_mask:
  "bit (c_mask n) k \<longleftrightarrow> k < 64 \<and> (if n mod 32 = 31 then 31 \<le> k else k = n mod 32)"
proof -
  have "n mod 32 < 32" by simp
  then show ?thesis
    unfolding c_mask_def bit_signed_iff bit_int_shl1 by (auto simp: min_def)
qed

lemma c_not_mask: "c_not_mask n = NOT (c_mask n)"
  by (rule bit_word_eqI)
     (auto simp: c_not_mask_def c_mask_def bit_signed_iff bit_not_iff min_def)

definition bit_used :: "u64 \<Rightarrow> nat \<Rightarrow> bool" where
  "bit_used w n \<longleftrightarrow> w AND c_mask n \<noteq> 0"

lemma bit_used_iff:
  "bit_used w n \<longleftrightarrow> (if n mod 32 = 31 then \<exists>k\<in>{31..<64}. bit w k else bit w (n mod 32))"
proof -
  have "n mod 32 < 32" by simp
  then show ?thesis
    unfolding bit_used_def word_and_nonzero_iff bit_c_mask by auto
qed

lemma bit_used_mod [simp]: "bit_used w (n mod 64) = bit_used w n"
  by (simp add: bit_used_iff mod_mod_cancel)

lemma bit_used_full [simp]: "bit_used (- 1) n"
proof -
  have "n mod 32 < 32" by simp
  then show ?thesis by (auto simp: bit_used_iff intro!: bexI [of _ 31])
qed

lemma bit_used_zero [simp]: "\<not> bit_used 0 n"
  by (simp add: bit_used_def)

lemma bit_used_or: "bit_used (w OR c_mask i) j \<longleftrightarrow> bit_used w j \<or> i mod 32 = j mod 32"
proof -
  have "i mod 32 < 32" "j mod 32 < 32" by simp_all
  then show ?thesis
    by (auto simp: bit_used_iff bit_or_iff bit_c_mask)
qed

lemma bit_used_clear:
  "bit_used (w AND c_not_mask i) j \<longleftrightarrow> bit_used w j \<and> i mod 32 \<noteq> j mod 32"
proof -
  have lt: "i mod 32 < 32" "j mod 32 < 32" by simp_all
  then have low: "i mod 32 \<noteq> 31 \<Longrightarrow> 31 \<le> k \<Longrightarrow> k \<noteq> i mod 32" for k by linarith
  show ?thesis
    using lt low by (auto simp: bit_used_iff bit_and_iff bit_not_iff bit_c_mask c_not_mask)
qed

section \<open>The operations of klibc/bitmap.c\<close>

definition bitmap_set_bit :: "u64 \<Rightarrow> u64 list \<Rightarrow> u64 list option" where
  "bitmap_set_bit idx buffer =
     Option.bind (buf_get buffer (uint (idx div 64)))
       (\<lambda>w. buf_set buffer (uint (idx div 64)) (w OR c_mask (unat (idx mod 64))))"

definition bitmap_test_bit :: "u64 \<Rightarrow> u64 list \<Rightarrow> bool option" where
  "bitmap_test_bit idx buffer =
     map_option (\<lambda>w. w AND c_mask (unat (idx mod 64)) \<noteq> 0) (buf_get buffer (uint (idx div 64)))"

definition is_free_region_big_enough :: "s32 \<Rightarrow> u64 list \<Rightarrow> u64 \<Rightarrow> s32 option" where
  "is_free_region_big_enough start buffer num_blocks =
     map_option (\<lambda>r. case r of Some i \<Rightarrow> ucast (scast start + of_nat i :: u64) | None \<Rightarrow> 0)
       (for_find (\<lambda>i. bitmap_test_bit (scast start + of_nat i) buffer) 0 (unat num_blocks))"

text \<open>The scan of one word from bit \<open>from\<close> on; the word is fetched in every round.\<close>

definition scan_word :: "u64 list \<Rightarrow> int \<Rightarrow> nat \<Rightarrow> nat option option" where
  "scan_word buffer b from =
     for_find (\<lambda>j. map_option (\<lambda>w. w AND c_mask j = 0) (buf_get buffer b)) from BITS_PER_BLOCK"

text \<open>The scan over whole words, from word \<open>i\<close> up to word \<open>n\<close>.\<close>

function scan_words :: "u64 list \<Rightarrow> nat \<Rightarrow> nat \<Rightarrow> (nat \<times> nat) option option" where
  "scan_words buffer i n =
     (if i < n then
        (case buf_get buffer (int i) of
           None \<Rightarrow> None
         | Some w \<Rightarrow>
             if w \<noteq> 0xFFFFFFFFFFFFFFFF then
               (case scan_word buffer (int i) 0 of
                  None \<Rightarrow> None
                | Some (Some j) \<Rightarrow> Some (Some (i, j))
                | Some None \<Rightarrow> scan_words buffer (Suc i) n)
             else scan_words buffer (Suc i) n)
      else Some None)"
  by pat_completeness auto
termination
  by (relation "measure (\<lambda>(b, i, n). n - i)") auto

declare scan_words.simps [simp del]

definition find_in_words :: "s32 \<Rightarrow> u64 list \<Rightarrow> u64 \<Rightarrow> s32 option" where
  "find_in_words start_block buffer buffer_size =
     map_option (\<lambda>r. case r of Some (i, j) \<Rightarrow> ucast (of_nat i * 64 + of_nat j :: u64)
                             | None \<Rightarrow> ENOMEM)
       (scan_words buffer (unat (scast start_block :: u64)) (unat buffer_size))"

definition find_first_free :: "u64 \<Rightarrow> u64 list \<Rightarrow> u64 \<Rightarrow> s32 option" where
  "find_first_free start buffer buffer_size =
     (let start_block = ucast (start div 64) :: s32 in
      if start mod 64 \<noteq> 0 then
        (case scan_word buffer (sint start_block) (unat (start mod 64)) of
           None \<Rightarrow> None
         | Some (Some i) \<Rightarrow> Some (start_block * 64 + of_nat i)
         | Some None \<Rightarrow> find_in_words (start_block + 1) buffer buffer_size)
      else find_in_words start_block buffer buffer_size)"

section \<open>The set of used indices\<close>

text \<open>
  What a bitmap means: \<open>used buf i\<close> is what \<open>bitmap_test_bit\<close> answers for \<open>i\<close>.
  Setting an index uses its whole alias class, clearing it frees the class.
\<close>

definition used :: "u64 list \<Rightarrow> nat \<Rightarrow> bool" where
  "used buf i \<longleftrightarrow> i div 64 < length buf \<and> bit_used (buf ! (i div 64)) i"

definition capacity :: "u64 list \<Rightarrow> nat" where
  "capacity buf = 64 * length buf"

definition aliased :: "nat \<Rightarrow> nat \<Rightarrow> bool" where
  "aliased i j \<longleftrightarrow> i div 64 = j div 64 \<and> i mod 32 = j mod 32"

lemma aliased_refl [simp]: "aliased i i"
  by (simp add: aliased_def)

lemma aliased_sym: "aliased i j = aliased j i"
  by (auto simp: aliased_def)

lemma used_replicate_full: "used (replicate n (- 1)) i \<longleftrightarrow> i < 64 * n"
  by (auto simp: used_def)

lemma used_replicate_zero: "\<not> used (replicate n 0) i"
  by (auto simp: used_def)

section \<open>Reading and writing one index\<close>

lemma bit_used_shift [simp]: "bit_used w (64 * b + j) = bit_used w j"
proof -
  have "(64 * b + j) mod 32 = j mod 32"
    by (metis mod_mult_self4 mult.assoc mult_2_right numeral_Bit0)
  then show ?thesis by (simp add: bit_used_iff)
qed

lemma used_block: "b < length buf \<Longrightarrow> j < 64 \<Longrightarrow> used buf (64 * b + j) = bit_used (buf ! b) j"
  by (simp add: used_def)

lemma used_capacity: "used buf i \<Longrightarrow> i < capacity buf"
  by (auto simp: used_def capacity_def)

lemma div64_less_iff: "i div 64 < length buf \<longleftrightarrow> i < capacity buf"
  by (auto simp: capacity_def)

lemma uint_div64: "uint ((x :: u64) div 64) = int (unat x div 64)"
  by (simp add: uint_div zdiv_int)

lemma bitmap_test_bit_eq:
  "bitmap_test_bit x buf = (if unat x < capacity buf then Some (used buf (unat x)) else None)"
  by (simp add: bitmap_test_bit_def buf_get_def used_def bit_used_def [symmetric] uint_div64
      unat_mod_distrib div64_less_iff)

lemma bitmap_set_bit_in:
  assumes "unat x < capacity buf"
  shows "\<exists>buf'. bitmap_set_bit x buf = Some buf' \<and> capacity buf' = capacity buf \<and>
           (\<forall>j. used buf' j = (if aliased (unat x) j then True else used buf j))"
proof -
  let ?b = "unat x div 64"
  from assms have b: "?b < length buf" by (simp add: div64_less_iff)
  then have "bitmap_set_bit x buf = Some (buf[?b := buf ! ?b OR c_mask (unat x mod 64)])"
    by (simp add: bitmap_set_bit_def uint_div64 unat_mod_distrib)
  moreover have "used (buf[?b := buf ! ?b OR c_mask (unat x mod 64)]) j =
      (if aliased (unat x) j then True else used buf j)" for j
    using b by (auto simp: used_def nth_list_update bit_used_or aliased_def mod_mod_cancel)
  ultimately show ?thesis by (simp add: capacity_def)
qed

lemma bitmap_set_bit_out: "capacity buf \<le> unat x \<Longrightarrow> bitmap_set_bit x buf = None"
  by (simp add: bitmap_set_bit_def buf_get_def uint_div64 div64_less_iff)

section \<open>Interface: writing a run of indices\<close>

text \<open>
  The page allocator and the heap both mark runs of indices with one write per index, and
  the page allocator clears runs.  The contract of such a writer: writing index \<open>x\<close>
  gives every index of its class the value \<open>v\<close>, and writing past the end faults.
\<close>

locale bit_writer =
  fixes member :: "'b \<Rightarrow> nat \<Rightarrow> bool"
    and cap :: "'b \<Rightarrow> nat"
    and wr :: "u64 \<Rightarrow> 'b \<Rightarrow> 'b option"
    and v :: bool
    and same :: "nat \<Rightarrow> nat \<Rightarrow> bool"
  assumes wr_in: "unat x < cap b \<Longrightarrow>
      \<exists>b'. wr x b = Some b' \<and> cap b' = cap b \<and>
        (\<forall>j. member b' j = (if same (unat x) j then v else member b j))"
    and wr_out: "cap b \<le> unat x \<Longrightarrow> wr x b = None"
begin

definition written :: "nat \<Rightarrow> nat \<Rightarrow> 'b \<Rightarrow> 'b \<Rightarrow> bool" where
  "written lo hi b b' \<longleftrightarrow> cap b' = cap b \<and>
     (\<forall>j. member b' j = (if \<exists>i. lo \<le> i \<and> i < hi \<and> same i j then v else member b j))"

lemma written_refl: "written lo lo b b"
  by (auto simp: written_def)

lemma wr_step:
  assumes "written lo k b t" "lo \<le> k" "k < 2 ^ 64" "wr (of_nat k) t = Some t'"
  shows "written lo (Suc k) b t'"
proof -
  have u: "unat (of_nat k :: u64) = k" using assms(3) by (simp add: unat_of_nat64)
  with assms(4) wr_out [of t "of_nat k"] have "k < cap t" by force
  with u wr_in [of "of_nat k" t] assms(4)
  have "cap t' = cap t" "\<And>j. member t' j = (if same k j then v else member t j)" by auto
  with assms(1,2) show ?thesis
    unfolding written_def by (auto simp: less_Suc_eq)
qed

lemma wr_range_ordered:
  assumes "lo \<le> hi" "hi \<le> cap b" "hi \<le> 2 ^ 64"
  shows "\<exists>b'. for_range (\<lambda>i. wr (of_nat i)) lo hi b = Some b' \<and> written lo hi b b'"
proof (rule for_range_total [where P = "\<lambda>k. written lo k b"])
  show "lo \<le> hi" by (rule assms)
  show "written lo lo b b" by (rule written_refl)
next
  fix k t assume k: "lo \<le> k" "k < hi" "written lo k b t"
  with assms have u: "unat (of_nat k :: u64) = k" by (simp add: unat_of_nat64)
  from k assms(2) have "k < cap t" by (simp add: written_def)
  with u wr_in [of "of_nat k" t] obtain t' where "wr (of_nat k) t = Some t'" by auto
  with wr_step k assms(3) show "\<exists>t'. wr (of_nat k) t = Some t' \<and> written lo (Suc k) b t'"
    by (meson order_less_le_trans)
qed

lemma wr_range_total:
  assumes "hi \<le> cap b" "hi \<le> 2 ^ 64"
  shows "\<exists>b'. for_range (\<lambda>i. wr (of_nat i)) lo hi b = Some b' \<and> written lo hi b b'"
proof (cases "lo \<le> hi")
  case True
  with wr_range_ordered assms show ?thesis by blast
next
  case False
  then show ?thesis by (auto simp: written_def)
qed

lemma wr_range_Some:
  assumes "for_range (\<lambda>i. wr (of_nat i)) lo hi b = Some b'" "hi \<le> 2 ^ 64"
  shows "written lo hi b b'"
proof (cases "lo \<le> hi")
  case True
  show ?thesis
  proof (rule for_range_inv [where P = "\<lambda>k. written lo k b", OF assms(1) True written_refl])
    fix k t t' assume "lo \<le> k" "k < hi" "written lo k b t" "wr (of_nat k) t = Some t'"
    with assms(2) show "written lo (Suc k) b t'" by (meson wr_step order_less_le_trans)
  qed
next
  case False
  with assms(1) show ?thesis by (auto simp: written_def)
qed

end

interpretation set_bit: bit_writer used capacity bitmap_set_bit True aliased
  by unfold_locales (simp_all add: bitmap_set_bit_in bitmap_set_bit_out)

section \<open>The scans\<close>

lemma buf_get_block: "b < length buf \<Longrightarrow> buf_get buf (int b) = Some (buf ! b)"
  by simp

lemma scan_word_eq:
  "b < length buf \<Longrightarrow>
   scan_word buf (int b) i = for_find (\<lambda>j. Some (\<not> bit_used (buf ! b) j)) i 64"
  by (simp add: scan_word_def BITS_PER_BLOCK_def bit_used_def)

lemma scan_word_hit:
  assumes "b < length buf" "i \<le> j" "j < 64" "\<not> used buf (64 * b + j)"
    and "\<And>l. i \<le> l \<Longrightarrow> l < j \<Longrightarrow> used buf (64 * b + l)"
  shows "scan_word buf (int b) i = Some (Some j)"
  unfolding scan_word_eq [OF assms(1)]
  by (rule for_find_hit) (use assms in \<open>auto simp: used_block\<close>)

lemma scan_word_none:
  assumes "b < length buf" and "\<And>l. i \<le> l \<Longrightarrow> l < 64 \<Longrightarrow> used buf (64 * b + l)"
  shows "scan_word buf (int b) i = Some None"
  unfolding scan_word_eq [OF assms(1)]
  by (rule for_find_none) (use assms in \<open>auto simp: used_block\<close>)

lemma full_word_used: "b < length buf \<Longrightarrow> buf ! b = - 1 \<Longrightarrow> j < 64 \<Longrightarrow> used buf (64 * b + j)"
  by (simp add: used_block)

lemma all_ones: "(0xFFFFFFFFFFFFFFFF :: u64) = - 1"
  by simp

lemma scan_words_skip:
  assumes "i < n" "i < length buf" "\<And>j. j < 64 \<Longrightarrow> used buf (64 * i + j)"
  shows "scan_words buf i n = scan_words buf (Suc i) n"
  using assms scan_word_none [of i buf 0]
  by (subst scan_words.simps) simp

lemma scan_words_hit:
  assumes "64 * i \<le> k" "k < 64 * n" "k < capacity buf" "\<not> used buf k"
    and "\<And>j. 64 * i \<le> j \<Longrightarrow> j < k \<Longrightarrow> used buf j"
  shows "scan_words buf i n = Some (Some (k div 64, k mod 64))"
  using assms
proof (induction "k div 64 - i" arbitrary: i)
  case 0
  then have i: "i = k div 64" by simp
  have k: "64 * i + k mod 64 = k" using i by simp
  from 0 have b: "i < length buf" "i < n" by (auto simp: i capacity_def)
  have "buf ! i \<noteq> - 1"
    using full_word_used [OF b(1), of "k mod 64"] 0 k by auto
  moreover have "scan_word buf (int i) 0 = Some (Some (k mod 64))"
    by (rule scan_word_hit) (use b 0 k in auto)
  ultimately show ?case using b i by (subst scan_words.simps) (simp add: all_ones)
next
  case (Suc d)
  then have lt: "i < k div 64" by simp
  have "scan_words buf i n = scan_words buf (Suc i) n"
    by (rule scan_words_skip) (use lt Suc.prems in \<open>auto simp: capacity_def\<close>)
  also have "\<dots> = Some (Some (k div 64, k mod 64))"
    by (rule Suc.hyps(1)) (use Suc lt in auto)
  finally show ?case .
qed

lemma scan_words_all_used:
  assumes "\<And>j. 64 * i \<le> j \<Longrightarrow> j < 64 * n \<Longrightarrow> j < capacity buf \<Longrightarrow> used buf j"
  shows "scan_words buf i n = (if n \<le> i \<or> n \<le> length buf then Some None else None)"
  using assms
proof (induction "n - i" arbitrary: i)
  case 0
  then show ?case by (subst scan_words.simps) auto
next
  case (Suc d)
  then have lt: "i < n" by simp
  show ?case
  proof (cases "i < length buf")
    case True
    have "scan_words buf i n = scan_words buf (Suc i) n"
      by (rule scan_words_skip) (use True lt Suc.prems in \<open>auto simp: capacity_def\<close>)
    also have "\<dots> = (if n \<le> Suc i \<or> n \<le> length buf then Some None else None)"
      by (rule Suc.hyps(1)) (use Suc in auto)
    finally show ?thesis using True lt by auto
  next
    case False
    with lt show ?thesis by (subst scan_words.simps) (simp add: buf_get_def)
  qed
qed

text \<open>The word-level result of a scan, for indices an \<open>int\<close> can hold.\<close>

lemma find_in_words_eq:
  assumes "b < 2 ^ 31"
  shows "find_in_words (of_nat b) buf n =
     map_option (\<lambda>r. case r of Some (i, j) \<Rightarrow> ucast (of_nat i * 64 + of_nat j :: u64)
                             | None \<Rightarrow> ENOMEM) (scan_words buf b (unat n))"
  using assms by (simp add: find_in_words_def scast_of_nat32 unat_of_nat64)

lemma ucast_block_index:
  assumes "k < 2 ^ 31"
  shows "ucast (of_nat (k div 64) * 64 + of_nat (k mod 64) :: u64) = (of_nat k :: s32)"
proof -
  have "(of_nat (k div 64) * 64 + of_nat (k mod 64) :: u64) = of_nat (k div 64 * 64 + k mod 64)"
    by (simp only: of_nat_add of_nat_mult of_nat_numeral)
  then show ?thesis using assms by (simp add: ucast_of_nat64)
qed

lemma find_in_words_hit:
  assumes "64 * b \<le> k" "k < 64 * unat n" "k < capacity buf" "\<not> used buf k" "k < 2 ^ 31"
    and "\<And>j. 64 * b \<le> j \<Longrightarrow> j < k \<Longrightarrow> used buf j"
  shows "find_in_words (of_nat b) buf n = Some (of_nat k)"
proof -
  have "b < 2 ^ 31" using assms by simp
  moreover have "scan_words buf b (unat n) = Some (Some (k div 64, k mod 64))"
    by (rule scan_words_hit) (use assms in auto)
  ultimately show ?thesis
    using assms(5) by (simp only: find_in_words_eq option.map option.case prod.case ucast_block_index)
qed

lemma find_in_words_all_used:
  assumes "\<And>j. 64 * b \<le> j \<Longrightarrow> j < 64 * unat n \<Longrightarrow> j < capacity buf \<Longrightarrow> used buf j" "b < 2 ^ 31"
  shows "find_in_words (of_nat b) buf n =
    (if unat n \<le> b \<or> unat n \<le> length buf then Some ENOMEM else None)"
  using assms scan_words_all_used [of b "unat n" buf]
  by (auto simp: find_in_words_eq)

text \<open>
  The specification of \<open>find_first_free\<close>: for a start below the scanned bound it returns
  the least free index from there on; if there is none it returns \<open>ENOMEM\<close>, except that
  a bound larger than the buffer makes it read past the end.
\<close>

definition first_free :: "u64 list \<Rightarrow> nat \<Rightarrow> nat \<Rightarrow> bool" where
  "first_free buf start k \<longleftrightarrow>
     start \<le> k \<and> \<not> used buf k \<and> (\<forall>j. start \<le> j \<and> j < k \<longrightarrow> used buf j)"

lemma find_first_free_of_nat:
  assumes "start < 2 ^ 31"
  shows "find_first_free (of_nat start) buf n =
     (if start mod 64 \<noteq> 0 then
        (case scan_word buf (int (start div 64)) (start mod 64) of
           None \<Rightarrow> None
         | Some (Some i) \<Rightarrow> Some (of_nat (start div 64) * 64 + of_nat i)
         | Some None \<Rightarrow> find_in_words (of_nat (Suc (start div 64))) buf n)
      else find_in_words (of_nat (start div 64)) buf n)"
proof -
  have "(of_nat start :: u64) div 64 = of_nat (start div 64)"
    using of_nat_div64 [of start 64] assms by simp
  moreover have "unat ((of_nat start :: u64) mod 64) = start mod 64"
    using assms by (simp add: unat_mod_distrib unat_of_nat64)
  moreover have "(of_nat start :: u64) mod 64 \<noteq> 0 \<longleftrightarrow> start mod 64 \<noteq> 0"
    using calculation(2) by (metis unat_eq_zero)
  ultimately show ?thesis using assms
    by (simp add: find_first_free_def Let_def ucast_of_nat64 sint_of_nat32 add.commute
        del: of_nat_div split: option.split)
qed

lemma find_first_free_hit:
  assumes k: "first_free buf start k" "k < 64 * unat n" "k < capacity buf" "k < 2 ^ 31"
  shows "find_first_free (of_nat start) buf n = Some (of_nat k)"
proof -
  let ?b = "start div 64"
  from k have start: "start < 2 ^ 31" "start \<le> k" by (auto simp: first_free_def)
  from k start have b: "?b < length buf" by (simp add: div64_less_iff)
  have before: "\<And>j. start \<le> j \<Longrightarrow> j < k \<Longrightarrow> used buf j" and free: "\<not> used buf k"
    using k by (auto simp: first_free_def)
  have blk: "64 * ?b + start mod 64 = start" by simp
  consider "start mod 64 = 0" | "start mod 64 \<noteq> 0" "k < 64 * ?b + 64"
    | "start mod 64 \<noteq> 0" "64 * ?b + 64 \<le> k" by linarith
  then show ?thesis
  proof cases
    case 1
    with blk have "64 * ?b = start" by simp
    with find_in_words_hit [of ?b k n buf] k free before start 1 show ?thesis
      by (simp add: find_first_free_of_nat)
  next
    case 2
    define j where "j = k - 64 * ?b"
    have j: "k = 64 * ?b + j" "j < 64" "start mod 64 \<le> j"
      using 2 start blk unfolding j_def by linarith+
    have "used buf (64 * ?b + l)" if "start mod 64 \<le> l" "l < j" for l
      by (rule before) (use that j blk in linarith)+
    then have "scan_word buf (int ?b) (start mod 64) = Some (Some j)"
      by (intro scan_word_hit) (use b j free in auto)
    moreover have "(of_nat ?b * 64 + of_nat j :: s32) = of_nat k"
      unfolding j(1) by (simp add: mult.commute del: of_nat_div)
    ultimately show ?thesis using start 2 by (simp add: find_first_free_of_nat del: of_nat_div)
  next
    case 3
    have "used buf (64 * ?b + l)" if "start mod 64 \<le> l" "l < 64" for l
      by (rule before) (use that 3 blk in linarith)+
    then have "scan_word buf (int ?b) (start mod 64) = Some None"
      by (intro scan_word_none) (use b in auto)
    moreover have "find_in_words (of_nat (Suc ?b)) buf n = Some (of_nat k)"
      by (rule find_in_words_hit) (use k 3 free before blk in auto)
    ultimately show ?thesis using start 3
      by (simp add: find_first_free_of_nat del: of_nat_div of_nat_Suc)
  qed
qed

lemma find_first_free_all_used:
  assumes "start < capacity buf" "start < 64 * unat n" "start < 2 ^ 31"
    and all: "\<And>j. start \<le> j \<Longrightarrow> j < 64 * unat n \<Longrightarrow> j < capacity buf \<Longrightarrow> used buf j"
  shows "find_first_free (of_nat start) buf n =
    (if unat n \<le> Suc (start div 64) \<or> unat n \<le> length buf then Some ENOMEM else None)"
proof -
  let ?b = "start div 64"
  from assms have b: "?b < length buf" by (simp add: div64_less_iff)
  have blk: "64 * ?b + start mod 64 = start" by simp
  show ?thesis
  proof (cases "start mod 64 = 0")
    case True
    with blk have "64 * ?b = start" by simp
    with find_in_words_all_used [of ?b n buf] assms True b show ?thesis
      by (auto simp: find_first_free_of_nat simp del: of_nat_div)
  next
    case False
    have "?b < unat n" using assms(2) by (simp add: less_mult_imp_div_less mult.commute)
    with b have inb: "64 * ?b + l < 64 * unat n" "64 * ?b + l < capacity buf" if "l < 64" for l
      using that unfolding capacity_def by linarith+
    have "used buf (64 * ?b + l)" if "start mod 64 \<le> l" "l < 64" for l
      by (rule all) (use that inb [of l] blk in linarith)+
    then have "scan_word buf (int ?b) (start mod 64) = Some None"
      by (intro scan_word_none) (use b in auto)
    moreover have "find_in_words (of_nat (Suc ?b)) buf n =
        (if unat n \<le> Suc ?b \<or> unat n \<le> length buf then Some ENOMEM else None)"
      by (rule find_in_words_all_used) (use assms all blk in \<open>auto simp: Suc_le_eq\<close>)
    ultimately show ?thesis using assms False
      by (simp add: find_first_free_of_nat del: of_nat_div of_nat_Suc)
  qed
qed

text \<open>The region check: the first used index of the run, or 0 when there is none.\<close>

lemma region_test:
  assumes "s + i < capacity buf" "capacity buf \<le> 2 ^ 31"
  shows "bitmap_test_bit (scast (of_nat s :: s32) + of_nat i) buf = Some (used buf (s + i))"
proof -
  have "(scast (of_nat s :: s32) + of_nat i :: u64) = of_nat (s + i)"
    using assms by (simp add: scast_of_nat32)
  moreover have "unat (of_nat (s + i) :: u64) = s + i"
    using assms by (intro unat_of_nat64) simp
  ultimately show ?thesis using assms by (simp only: bitmap_test_bit_eq) simp
qed

lemma region_free:
  assumes "s + unat n \<le> capacity buf" "capacity buf \<le> 2 ^ 31"
    and "\<And>i. i < unat n \<Longrightarrow> \<not> used buf (s + i)"
  shows "is_free_region_big_enough (of_nat s) buf n = Some 0"
proof -
  have "for_find (\<lambda>i. bitmap_test_bit (scast (of_nat s :: s32) + of_nat i) buf) 0 (unat n) = Some None"
    by (rule for_find_none) (use assms in \<open>simp add: region_test\<close>)
  then show ?thesis by (simp add: is_free_region_big_enough_def)
qed

lemma region_busy:
  assumes "s + i < capacity buf" "capacity buf \<le> 2 ^ 31" "i < unat n" "used buf (s + i)"
    and "\<And>j. j < i \<Longrightarrow> \<not> used buf (s + j)"
  shows "is_free_region_big_enough (of_nat s) buf n = Some (of_nat (s + i))"
proof -
  have "for_find (\<lambda>i. bitmap_test_bit (scast (of_nat s :: s32) + of_nat i) buf) 0 (unat n)
      = Some (Some i)"
    by (rule for_find_hit) (use assms in \<open>auto simp: region_test\<close>)
  moreover have "(scast (of_nat s :: s32) + of_nat i :: u64) = of_nat (s + i)"
    using assms by (simp add: scast_of_nat32)
  moreover have "(ucast (of_nat (s + i) :: u64) :: s32) = of_nat (s + i)"
    using assms by (intro ucast_of_nat64) simp
  ultimately show ?thesis by (simp only: is_free_region_big_enough_def option.map option.case)
qed

lemma region_overrun:
  assumes "s < capacity buf" "capacity buf \<le> 2 ^ 31" "capacity buf < s + unat n"
    and "\<And>j. s + j < capacity buf \<Longrightarrow> \<not> used buf (s + j)"
  shows "is_free_region_big_enough (of_nat s) buf n = None"
proof -
  let ?f = "\<lambda>i. bitmap_test_bit (scast (of_nat s :: s32) + of_nat i) buf"
  let ?k = "capacity buf - s"
  have "(scast (of_nat s :: s32) + of_nat ?k :: u64) = of_nat (capacity buf)"
    using assms by (simp add: scast_of_nat32)
  then have "?f ?k = None"
    using assms by (simp add: bitmap_test_bit_eq unat_of_nat64)
  have "for_find ?f 0 (unat n) = None"
    by (rule for_find_fault [of _ ?k]) (use assms \<open>?f ?k = None\<close> in \<open>auto simp: region_test\<close>)
  then show ?thesis by (simp add: is_free_region_big_enough_def)
qed

end
