(* ===== verification/First_Fit.thy ===== *)
theory First_Fit
  imports Prelude
begin

text \<open>
  The contract behind the region search that \<open>pmm_alloc\<close> (mm/pmm.c) and \<open>malloc\<close>
  (klibc/alloc.c) both perform: from a free index, check a run of \<open>n\<close> indices; if the
  check reports a busy index, continue from the next free index after it.

  The provider states what one round of its loop does (the four laws); the client gets
  first fit: the loop returns the least free run, and only free runs.
\<close>

locale first_fit =
  fixes ok :: "'st \<Rightarrow> bool"
    and busy :: "'st \<Rightarrow> nat \<Rightarrow> bool"
    and lim :: "'st \<Rightarrow> nat"
    and search :: "'st \<Rightarrow> nat \<Rightarrow> 'p \<Rightarrow> 'p option"
    and enc :: "nat \<Rightarrow> 'p"
    and full :: "'p option"
  assumes search_done: "\<lbrakk>ok st; n < 2 ^ 31; s < lim st; s + n \<le> lim st;
        \<And>i. i < n \<Longrightarrow> \<not> busy st (s + i)\<rbrakk> \<Longrightarrow> search st n (enc s) = Some (enc s)"
    and search_next: "\<lbrakk>ok st; n < 2 ^ 31; 0 < i; i < n; s + i < lim st; busy st (s + i);
        \<And>j. j < i \<Longrightarrow> \<not> busy st (s + j);
        s + i \<le> k; k < lim st; \<not> busy st k; \<And>j. s + i \<le> j \<Longrightarrow> j < k \<Longrightarrow> busy st j\<rbrakk>
      \<Longrightarrow> search st n (enc s) = search st n (enc k)"
    and search_full: "\<lbrakk>ok st; n < 2 ^ 31; 0 < i; i < n; s + i < lim st; busy st (s + i);
        \<And>j. j < i \<Longrightarrow> \<not> busy st (s + j); \<And>j. s + i \<le> j \<Longrightarrow> j < lim st \<Longrightarrow> busy st j\<rbrakk>
      \<Longrightarrow> search st n (enc s) = full"
    and search_overrun: "\<lbrakk>ok st; n < 2 ^ 31; s < lim st; lim st < s + n;
        \<And>j. s + j < lim st \<Longrightarrow> \<not> busy st (s + j)\<rbrakk> \<Longrightarrow> search st n (enc s) = None"
begin

definition run :: "'st \<Rightarrow> nat \<Rightarrow> nat \<Rightarrow> bool" where
  "run st n r \<longleftrightarrow> r + n \<le> lim st \<and> (\<forall>i<n. \<not> busy st (r + i))"

definition first_run :: "'st \<Rightarrow> nat \<Rightarrow> nat \<Rightarrow> nat \<Rightarrow> bool" where
  "first_run st n s r \<longleftrightarrow> s \<le> r \<and> run st n r \<and> (\<forall>r'. s \<le> r' \<and> r' < r \<longrightarrow> \<not> run st n r')"

lemma least_busy:
  assumes "\<not> busy st s" "busy st (s + i)"
  obtains m where "0 < m" "m \<le> i" "busy st (s + m)" "\<And>j. j < m \<Longrightarrow> \<not> busy st (s + j)"
proof -
  let ?m = "LEAST m. busy st (s + m)"
  have "busy st (s + ?m)" using assms(2) by (rule LeastI)
  moreover have "?m \<le> i" using assms(2) by (rule Least_le)
  moreover have "\<not> busy st (s + j)" if "j < ?m" for j using that by (rule not_less_Least)
  moreover from calculation(1) assms(1) have "0 < ?m" by (metis add_0_right gr0I)
  ultimately show thesis by (intro that [of ?m]) auto
qed

lemma least_free:
  assumes "a \<le> k" "\<not> busy st k"
  obtains m where "a \<le> m" "m \<le> k" "\<not> busy st m" "\<And>j. a \<le> j \<Longrightarrow> j < m \<Longrightarrow> busy st j"
proof -
  let ?P = "\<lambda>m. a \<le> m \<and> \<not> busy st m"
  have "?P (LEAST m. ?P m)" using assms by (intro LeastI [of ?P k]) simp
  moreover have "(LEAST m. ?P m) \<le> k" using assms by (intro Least_le) simp
  moreover have "busy st j" if "a \<le> j" "j < (LEAST m. ?P m)" for j
    using not_less_Least [OF that(2)] that(1) by simp
  ultimately show thesis by (intro that) auto
qed

text \<open>
  A run that starts at or after \<open>s\<close> cannot start at or before a busy index inside the
  first \<open>n\<close> indices from \<open>s\<close>.
\<close>

lemma run_after_busy:
  assumes "run st n r" "s \<le> r" "m < n" "busy st (s + m)"
  shows "s + m < r"
proof (rule ccontr)
  assume "\<not> s + m < r"
  then have "busy st (r + (s + m - r))" "s + m - r < n" using assms(2-4) by auto
  with assms(1) show False by (auto simp: run_def)
qed

lemma run_exists_search:
  assumes "ok st" "n < 2 ^ 31" "s < lim st" "\<not> busy st s" "first_run st n s r"
  shows "search st n (enc s) = Some (enc r)"
  using assms(3-5)
proof (induction "r - s" arbitrary: s rule: less_induct)
  case less
  from less.prems(3) have r: "s \<le> r" "run st n r" by (auto simp: first_run_def)
  show ?case
  proof (cases "run st n s")
    case True
    with less.prems(3) have "r = s" by (auto simp: first_run_def le_less)
    with True search_done [OF assms(1,2) less.prems(1)] show ?thesis by (simp add: run_def)
  next
    case False
    with r obtain i where i: "i < n" "busy st (s + i)" by (auto simp: run_def)
    obtain m where "0 < m" "m \<le> i" and m3: "busy st (s + m)"
      and m4: "\<And>j. j < m \<Longrightarrow> \<not> busy st (s + j)"
      using least_busy [OF less.prems(2) i(2)] by blast
    with i have m: "0 < m" "m < n" by simp_all
    have after: "s + m < r" by (rule run_after_busy [OF r(2,1) m(2) m3])
    from r m(1,2) have "\<not> busy st (r + 0)" by (auto simp: run_def simp del: add_0_right)
    then have "\<not> busy st r" by simp
    obtain k where k: "s + m \<le> k" "k \<le> r" "\<not> busy st k"
        and k4: "\<And>j. s + m \<le> j \<Longrightarrow> j < k \<Longrightarrow> busy st j"
      using least_free [OF less_imp_le [OF after] \<open>\<not> busy st r\<close>] by blast
    have "r < lim st" using r m by (simp add: run_def)
    then have lims: "s + m < lim st" "k < lim st" using after k(2) by simp_all
    have "search st n (enc s) = search st n (enc k)"
      by (rule search_next [OF assms(1,2) m lims(1) m3 m4 k(1) lims(2) k(3) k4])
    also have "\<dots> = Some (enc r)"
    proof (rule less.hyps)
      show "r - k < r - s" using m(1) k(1) after by linarith
      show "k < lim st" "\<not> busy st k" by (fact lims k)+
      show "first_run st n k r" using less.prems(3) k m(1) by (auto simp: first_run_def)
    qed
    finally show ?thesis .
  qed
qed

lemma search_no_run:
  assumes "ok st" "n < 2 ^ 31" "s < lim st" "\<not> busy st s" "\<And>r. s \<le> r \<Longrightarrow> \<not> run st n r"
  shows "search st n (enc s) = full \<or> search st n (enc s) = None"
  using assms(3-5)
proof (induction "lim st - s" arbitrary: s rule: less_induct)
  case less
  show ?case
  proof (cases "\<exists>i<n. s + i < lim st \<and> busy st (s + i)")
    case False
    have "\<not> run st n s" using less.prems(3) by blast
    with False have "lim st < s + n" by (force simp: run_def)
    with False show ?thesis
      by (intro disjI2 search_overrun [OF assms(1,2) less.prems(1)]) force+
  next
    case True
    then obtain i where i: "i < n" "s + i < lim st" "busy st (s + i)" by blast
    obtain m where m': "0 < m" "m \<le> i" and m3: "busy st (s + m)"
      and m4: "\<And>j. j < m \<Longrightarrow> \<not> busy st (s + j)"
      using least_busy [OF less.prems(2) i(3)] by blast
    with i have m: "0 < m" "m < n" and lm: "s + m < lim st" by simp_all
    show ?thesis
    proof (cases "\<exists>k. s + m \<le> k \<and> k < lim st \<and> \<not> busy st k")
      case False
      then have "search st n (enc s) = full"
        by (intro search_full [OF assms(1,2) m lm m3 m4]) auto
      then show ?thesis ..
    next
      case True
      then obtain k0 where k0: "s + m \<le> k0" "k0 < lim st" "\<not> busy st k0" by blast
      obtain k where k1: "s + m \<le> k" and "k \<le> k0" and k3: "\<not> busy st k"
          and k4: "\<And>j. s + m \<le> j \<Longrightarrow> j < k \<Longrightarrow> busy st j"
        using least_free [OF k0(1,3)] by blast
      with k0 have k2: "k < lim st" by simp
      have "search st n (enc s) = search st n (enc k)"
        by (rule search_next [OF assms(1,2) m lm m3 m4 k1 k2 k3 k4])
      moreover have "search st n (enc k) = full \<or> search st n (enc k) = None"
        by (rule less.hyps) (use k1 k2 k3 m less.prems in auto)
      ultimately show ?thesis by simp
    qed
  qed
qed

lemma first_run_exists:
  assumes "run st n r" "s \<le> r"
  obtains r0 where "first_run st n s r0"
proof -
  from assms have "\<exists>r. s \<le> r \<and> run st n r" by blast
  then obtain r0 where "s \<le> r0 \<and> run st n r0" "\<forall>m<r0. \<not> (s \<le> m \<and> run st n m)"
    by (subst (asm) exists_least_iff) blast
  then show thesis by (intro that [of r0]) (simp add: first_run_def)
qed

text \<open>The loop's result, in all cases.\<close>

lemma search_spec:
  assumes "ok st" "n < 2 ^ 31" "s < lim st" "\<not> busy st s"
  shows "(\<exists>r. first_run st n s r \<and> search st n (enc s) = Some (enc r)) \<or>
         ((\<forall>r\<ge>s. \<not> run st n r) \<and> (search st n (enc s) = full \<or> search st n (enc s) = None))"
proof (cases "\<exists>r\<ge>s. run st n r")
  case True
  then obtain r where "first_run st n s r" using first_run_exists by blast
  with run_exists_search [OF assms] show ?thesis by blast
next
  case False
  then have none: "\<And>r. s \<le> r \<Longrightarrow> \<not> run st n r" by blast
  have "search st n (enc s) = full \<or> search st n (enc s) = None"
    by (rule search_no_run [OF assms none])
  with none show ?thesis by blast
qed

end

end
