(* ===== verification/Allocator.thy ===== *)
theory Allocator
  imports Prelude
begin

text \<open>
  The contract every allocator of the kernel is used under, whatever it hands out (page
  frames for \<open>pmm_alloc\<close>, bytes of the heap for \<open>malloc\<close>): a successful request takes
  only units that were free, and no request frees a unit.  A client that makes a sequence
  of requests then never gets the same unit twice.
\<close>

fun alloc_seq :: "(u64 \<Rightarrow> 'st \<Rightarrow> (u64 \<times> 'st) option) \<Rightarrow> u64 list \<Rightarrow> 'st \<Rightarrow> (u64 list \<times> 'st) option" where
  "alloc_seq alloc [] st = Some ([], st)"
| "alloc_seq alloc (sz # szs) st =
     Option.bind (alloc sz st) (\<lambda>(p, st').
       map_option (\<lambda>(ps, st''). (p # ps, st'')) (alloc_seq alloc szs st'))"

locale allocator =
  fixes alloc :: "u64 \<Rightarrow> 'st \<Rightarrow> (u64 \<times> 'st) option"
    and wf :: "'st \<Rightarrow> bool"
    and sane :: "u64 \<Rightarrow> bool"
    and taken :: "'st \<Rightarrow> nat \<Rightarrow> bool"
    and block :: "u64 \<Rightarrow> u64 \<Rightarrow> nat set"
  assumes alloc_step: "\<lbrakk>wf st; sane sz; alloc sz st = Some (p, st')\<rbrakk> \<Longrightarrow>
      wf st' \<and> (\<forall>x. taken st x \<longrightarrow> taken st' x) \<and>
      (p \<noteq> - 1 \<longrightarrow> (\<forall>x \<in> block p sz. \<not> taken st x \<and> taken st' x))"
begin

lemma seq_blocks:
  assumes "wf st" "\<forall>sz \<in> set szs. sane sz" "alloc_seq alloc szs st = Some (ps, st')"
  shows "length ps = length szs \<and>
     (\<forall>i < length szs. ps ! i \<noteq> - 1 \<longrightarrow> (\<forall>x \<in> block (ps ! i) (szs ! i). \<not> taken st x)) \<and>
     (\<forall>i k. i < k \<and> k < length szs \<and> ps ! i \<noteq> - 1 \<and> ps ! k \<noteq> - 1 \<longrightarrow>
        block (ps ! i) (szs ! i) \<inter> block (ps ! k) (szs ! k) = {})"
  using assms
proof (induction szs arbitrary: st ps)
  case Nil
  then show ?case by simp
next
  case (Cons sz szs)
  from Cons.prems(3) obtain p st1 qs where a: "alloc sz st = Some (p, st1)"
    and q: "alloc_seq alloc szs st1 = Some (qs, st')" and ps: "ps = p # qs"
    by (auto simp: Option.bind_eq_Some_conv)
  from Cons.prems have "sane sz" by simp
  note one = alloc_step [OF Cons.prems(1) this a]
  have "wf st1" "\<forall>sz \<in> set szs. sane sz" using one Cons.prems(2) by auto
  note IH = Cons.IH [OF this q]
  have len: "length qs = length szs" using IH by blast
  have fresh: "\<And>i x. i < length szs \<Longrightarrow> qs ! i \<noteq> - 1 \<Longrightarrow> x \<in> block (qs ! i) (szs ! i) \<Longrightarrow> \<not> taken st1 x"
    using IH by blast
  have apart: "\<And>i k. i < k \<Longrightarrow> k < length szs \<Longrightarrow> qs ! i \<noteq> - 1 \<Longrightarrow> qs ! k \<noteq> - 1 \<Longrightarrow>
      block (qs ! i) (szs ! i) \<inter> block (qs ! k) (szs ! k) = {}"
    using IH by blast
  show ?case
  proof (intro conjI allI impI)
    show "length ps = length (sz # szs)" using len ps by simp
  next
    fix i assume "i < length (sz # szs)" "ps ! i \<noteq> - 1"
    then show "\<forall>x \<in> block (ps ! i) ((sz # szs) ! i). \<not> taken st x"
      using fresh one ps by (cases i) auto
  next
    fix i k assume ik: "i < k \<and> k < length (sz # szs) \<and> ps ! i \<noteq> - 1 \<and> ps ! k \<noteq> - 1"
    then obtain k' where k: "k = Suc k'" by (cases k) auto
    with ik ps have k': "k' < length szs" "qs ! k' \<noteq> - 1" by auto
    show "block (ps ! i) ((sz # szs) ! i) \<inter> block (ps ! k) ((sz # szs) ! k) = {}"
    proof (cases i)
      case 0
      with ik one ps have "\<forall>x \<in> block p sz. taken st1 x" by simp
      with fresh [OF k'] have "block p sz \<inter> block (qs ! k') (szs ! k') = {}" by blast
      with 0 k ps show ?thesis by simp
    next
      case (Suc i')
      with ik k ps k' apart [of i' k'] show ?thesis by simp
    qed
  qed
qed

end

end
