(* ===== verification/Mm.thy ===== *)
theory Mm
  imports Prelude
begin

text \<open>
  mm/mm.c and mm/mm.h: page alignment and the fixed address translations.
\<close>

definition PAGE_SIZE :: u64 where "PAGE_SIZE = 0x1000"
definition KERNEL_VIRT_BASE_ADDR :: u64 where "KERNEL_VIRT_BASE_ADDR = 0xffff800000000000"
definition KERNEL_VIRT_TOP_ADDR :: u64 where "KERNEL_VIRT_TOP_ADDR = 0xffffffff80000000"

definition align_up :: "u64 \<Rightarrow> u64" where
  "align_up addr =
     (if addr mod PAGE_SIZE = 0 then addr else addr + (PAGE_SIZE - (addr mod PAGE_SIZE)))"

definition align_down :: "u64 \<Rightarrow> u64" where
  "align_down addr =
     (if addr mod PAGE_SIZE = 0 then addr else addr - (addr mod PAGE_SIZE))"

definition phys_to_hh :: "u64 \<Rightarrow> u64" where
  "phys_to_hh addr = addr + KERNEL_VIRT_BASE_ADDR"

definition hh_to_phys :: "u64 \<Rightarrow> u64" where
  "hh_to_phys addr = addr - KERNEL_VIRT_BASE_ADDR"

definition phys_to_hh_code :: "u64 \<Rightarrow> u64" where
  "phys_to_hh_code addr = addr + KERNEL_VIRT_TOP_ADDR"

lemmas [frazz_defs] = PAGE_SIZE_def phys_to_hh_def hh_to_phys_def phys_to_hh_code_def
  KERNEL_VIRT_BASE_ADDR_def KERNEL_VIRT_TOP_ADDR_def

lemma unat_page_mod: "unat (a mod PAGE_SIZE) = unat a mod 4096"
  by (simp add: PAGE_SIZE_def unat_mod_distrib)

lemma page_mod_zero: "a mod PAGE_SIZE = 0 \<longleftrightarrow> unat a mod 4096 = 0"
  by (metis unat_page_mod unat_eq_zero)

lemma unat_page_div: "unat (a div PAGE_SIZE) = unat a div 4096"
  by (simp add: PAGE_SIZE_def unat_div_distrib)

lemma round_up_page:
  fixes n q r :: nat
  assumes "n = 4096 * q + r" "r < 4096" "0 < r"
  shows "4096 * ((n + 4095) div 4096) = n + (4096 - r)"
proof -
  have "(n + 4095) div 4096 = q + 1"
    by (rule div_nat_eqI) (use assms in simp_all)
  with assms show ?thesis by simp
qed

text \<open>Alignment on the unsigned value: rounding up wraps at the top of the address space.\<close>

lemma unat_align_up: "unat (align_up a) = 4096 * ((unat a + 4095) div 4096) mod 2 ^ 64"
proof (cases "unat a mod 4096 = 0")
  case True
  then obtain q where q: "unat a = 4096 * q" by auto
  then have "4096 * ((unat a + 4095) div 4096) = unat a" by simp
  with True unat_u64_bound [of a] show ?thesis by (simp add: align_up_def page_mod_zero)
next
  case False
  let ?r = "unat a mod 4096"
  have r: "?r < 4096" by simp
  have p: "unat (PAGE_SIZE - a mod PAGE_SIZE) = 4096 - ?r"
  proof -
    have "a mod PAGE_SIZE \<le> PAGE_SIZE"
      using r by (simp add: word_le_nat_alt unat_page_mod) (simp add: PAGE_SIZE_def)
    then show ?thesis by (simp add: unat_sub unat_page_mod) (simp add: PAGE_SIZE_def)
  qed
  have "4096 * ((unat a + 4095) div 4096) = unat a + (4096 - ?r)"
    by (rule round_up_page [of _ "unat a div 4096"]) (use False in simp_all)
  with False p show ?thesis
    by (simp add: align_up_def page_mod_zero unat_word_ariths)
qed

lemma unat_align_down: "unat (align_down a) = 4096 * (unat a div 4096)"
proof (cases "unat a mod 4096 = 0")
  case True
  then show ?thesis by (auto simp: align_down_def page_mod_zero)
next
  case False
  have "a mod PAGE_SIZE \<le> a" by (simp add: word_le_nat_alt unat_page_mod)
  then have "unat (a - a mod PAGE_SIZE) = unat a - unat a mod 4096"
    by (simp add: unat_sub unat_page_mod)
  with False show ?thesis by (simp add: align_down_def page_mod_zero minus_mod_eq_mult_div)
qed

end
