(* ===== verification/Pmm.thy ===== *)
theory Pmm
  imports Bitmap First_Fit Allocator Mm
begin

text \<open>
  mm/pmm.c: the physical page allocator.  Its state is the global \<open>bitmap\<close> (the pointer,
  the size in words, and the words it points to) and the global \<open>pmm_info\<close>.  A frame is
  free when its bit is clear; the frame number is the physical address divided by 4096.
  What the initialisation prints is modelled in \<open>Pmm_Report\<close>.
\<close>

section \<open>State\<close>

record pmm_info =
  total_memory :: u64
  total_available_memory :: u64
  total_reserved_memory :: u64
  total_pages :: u64
  used_pages :: u64
  available_pages :: u64

record pmm =
  bm_map :: u64
  bm_words :: "u64 list"
  bm_size :: u64
  info :: pmm_info

text \<open>The boot loader's memory map entry (type 0 is usable memory).\<close>

record memmap_entry =
  base :: u64
  len :: u64
  mtype :: u64

definition LIMINE_MEMMAP_USABLE :: u64 where "LIMINE_MEMMAP_USABLE = 0"

definition info0 :: pmm_info where
  "info0 = \<lparr>total_memory = 0, total_available_memory = 0, total_reserved_memory = 0,
            total_pages = 0, used_pages = 0, available_pages = 0\<rparr>"

definition pmm0 :: pmm where
  "pmm0 = \<lparr>bm_map = 0, bm_words = [], bm_size = 0, info = info0\<rparr>"

section \<open>Accounting\<close>

fun get_total_memory :: "memmap_entry list \<Rightarrow> int \<Rightarrow> u64" where
  "get_total_memory [] ty = 0"
| "get_total_memory (e # es) ty =
     (if ty = 0 then (if mtype e = LIMINE_MEMMAP_USABLE then len e else 0)
      else (if mtype e \<noteq> LIMINE_MEMMAP_USABLE then len e else 0)) + get_total_memory es ty"

definition print_memory_stats :: "memmap_entry list \<Rightarrow> pmm_info" where
  "print_memory_stats entries =
     (let tot = get_total_memory entries 0 + get_total_memory entries 1;
          avail = get_total_memory entries 0;
          reserved = get_total_memory entries 1
      in \<lparr>total_memory = tot, total_available_memory = avail, total_reserved_memory = reserved,
          total_pages = tot div PAGE_SIZE, used_pages = reserved div PAGE_SIZE,
          available_pages = avail div PAGE_SIZE\<rparr>)"

section \<open>One frame\<close>

definition pmm_bitmap_clear_bit :: "u64 \<Rightarrow> u64 list \<Rightarrow> u64 list option" where
  "pmm_bitmap_clear_bit idx words =
     Option.bind (buf_get words (uint (idx div 64)))
       (\<lambda>w. buf_set words (uint (idx div 64)) (w AND c_not_mask (unat (idx mod 64))))"

definition pmm_bitmap_set_bit :: "u64 \<Rightarrow> u64 list \<Rightarrow> u64 list option" where
  "pmm_bitmap_set_bit idx words =
     Option.bind (buf_get words (uint (idx div 64)))
       (\<lambda>w. buf_set words (uint (idx div 64)) (w OR c_mask (unat (idx mod 64))))"

definition pmm_bitmap_test_bit :: "u64 \<Rightarrow> u64 list \<Rightarrow> bool option" where
  "pmm_bitmap_test_bit idx words =
     map_option (\<lambda>w. w AND c_mask (unat (idx mod 64)) \<noteq> 0) (buf_get words (uint (idx div 64)))"

section \<open>Ranges of frames\<close>

text \<open>First and last-plus-one frame of the loops in \<open>pmm_free\<close> and \<open>pmm_reserve\<close>.\<close>

definition frame_lo :: "u64 \<Rightarrow> nat" where
  "frame_lo addr = unat (addr div PAGE_SIZE)"

definition frame_hi :: "u64 \<Rightarrow> u64 \<Rightarrow> nat" where
  "frame_hi addr n = unat ((addr + n) div PAGE_SIZE + (if n mod PAGE_SIZE \<noteq> 0 then 1 else 0))"

definition pmm_free :: "u64 \<Rightarrow> u64 \<Rightarrow> u64 list \<Rightarrow> u64 list option" where
  "pmm_free addr n words =
     for_range (\<lambda>i. pmm_bitmap_clear_bit (of_nat i)) (frame_lo addr) (frame_hi addr n) words"

definition pmm_reserve :: "u64 \<Rightarrow> u64 \<Rightarrow> u64 list \<Rightarrow> u64 list option" where
  "pmm_reserve addr n words =
     for_range (\<lambda>i. pmm_bitmap_set_bit (of_nat i)) (frame_lo addr) (frame_hi addr n) words"

definition pmm_free_page :: "u64 \<Rightarrow> pmm \<Rightarrow> pmm option" where
  "pmm_free_page addr st =
     map_option (\<lambda>w. st\<lparr>bm_words := w,
         info := (info st)\<lparr>available_pages := available_pages (info st) + 1,
                           used_pages := used_pages (info st) - 1\<rparr>\<rparr>)
       (pmm_bitmap_clear_bit (addr div PAGE_SIZE) (bm_words st))"

section \<open>Allocation\<close>

definition pmm_first_free :: "u64 \<Rightarrow> pmm \<Rightarrow> s32 option" where
  "pmm_first_free start st =
     (let start_block = ucast (start div 64) :: s32 in
      if start mod 64 \<noteq> 0 then
        (case scan_word (bm_words st) (sint start_block) (unat (start mod 64)) of
           None \<Rightarrow> None
         | Some (Some i) \<Rightarrow> Some (start_block * 64 + of_nat i)
         | Some None \<Rightarrow>
             find_in_words (start_block + 1) (bm_words st) (total_pages (info st) div 64))
      else find_in_words start_block (bm_words st) (total_pages (info st) div 64))"

definition check_region_size :: "u64 \<Rightarrow> s32 \<Rightarrow> pmm \<Rightarrow> s32 option" where
  "check_region_size start count st =
     map_option (\<lambda>r. case r of Some i \<Rightarrow> ucast (start + of_nat i) | None \<Rightarrow> 0)
       (for_find (\<lambda>i. pmm_bitmap_test_bit (start + of_nat i) (bm_words st)) 0
          (unat (scast count :: u64)))"

partial_function (option) pmm_search :: "pmm \<Rightarrow> s32 \<Rightarrow> s64 \<Rightarrow> s64 option" where
  "pmm_search st num_pages page_frame =
     Option.bind (check_region_size page_frame num_pages st) (\<lambda>start_idx.
       if start_idx \<noteq> 0 then
         Option.bind (pmm_first_free (scast start_idx) st) (\<lambda>f.
           if 0 \<le> sint (scast f :: s64) then pmm_search st num_pages (scast f)
           else Some (scast f))
       else Some page_frame)"

declare pmm_search.simps [code]

definition pmm_alloc :: "u64 \<Rightarrow> pmm \<Rightarrow> (u64 \<times> pmm) option" where
  "pmm_alloc sz st =
     (if available_pages (info st) = 0 then Some (scast ENOMEM, st)
      else
        let num_pages = ucast (align_up sz div PAGE_SIZE) :: s32 in
        Option.bind (pmm_first_free 0 st) (\<lambda>f.
        Option.bind (pmm_search st num_pages (scast f)) (\<lambda>page_frame.
          if (ucast page_frame :: s32) = - 1 then Some (scast ENOMEM, st)
          else
            map_option
              (\<lambda>w. (page_frame * PAGE_SIZE,
                    st\<lparr>bm_words := w,
                       info := (info st)\<lparr>
                         available_pages := available_pages (info st) - scast num_pages,
                         used_pages := used_pages (info st) + scast num_pages\<rparr>\<rparr>))
              (for_range (\<lambda>i. pmm_bitmap_set_bit (of_nat i)) (unat page_frame)
                 (unat ((scast num_pages :: u64) + page_frame)) (bm_words st)))))"

section \<open>Initialisation\<close>

text \<open>The last usable entry that is long enough holds the bitmap.\<close>

fun bitmap_home :: "memmap_entry list \<Rightarrow> u64 \<Rightarrow> u64 \<Rightarrow> u64" where
  "bitmap_home [] sz m = m"
| "bitmap_home (e # es) sz m =
     bitmap_home es sz
       (if mtype e = LIMINE_MEMMAP_USABLE \<and> sz \<le> len e then phys_to_hh (base e) else m)"

fun free_usable :: "memmap_entry list \<Rightarrow> u64 list \<Rightarrow> u64 list option" where
  "free_usable [] words = Some words"
| "free_usable (e # es) words =
     Option.bind (if mtype e = LIMINE_MEMMAP_USABLE then pmm_free (base e) (len e) words
                  else Some words) (free_usable es)"

definition pmm_init :: "memmap_entry list \<Rightarrow> pmm option" where
  "pmm_init entries =
     (let inf = print_memory_stats entries;
          sz = total_memory inf div PAGE_SIZE div 64;
          home = bitmap_home entries sz 0
      in if home = 0 then None
         else
           Option.bind (free_usable entries (replicate (unat sz) 0xFFFFFFFFFFFFFFFF)) (\<lambda>w1.
           Option.bind (buf_get w1 0) (\<lambda>w0.
           Option.bind (pmm_reserve w0 (sz * 8) w1) (\<lambda>w2.
           map_option (\<lambda>w3. \<lparr>bm_map = home, bm_words = w3, bm_size = sz, info = inf\<rparr>)
             (pmm_reserve 0 0x100000 w2)))))"

section \<open>The bitmap writers of the allocator\<close>

lemma pmm_set_eq: "pmm_bitmap_set_bit = bitmap_set_bit"
  by (simp add: fun_eq_iff pmm_bitmap_set_bit_def bitmap_set_bit_def)

lemma pmm_test_eq: "pmm_bitmap_test_bit = bitmap_test_bit"
  by (simp add: fun_eq_iff pmm_bitmap_test_bit_def bitmap_test_bit_def)

lemma pmm_clear_in:
  assumes "unat x < capacity w"
  shows "\<exists>w'. pmm_bitmap_clear_bit x w = Some w' \<and> capacity w' = capacity w \<and>
           (\<forall>j. used w' j = (if aliased (unat x) j then False else used w j))"
proof -
  let ?b = "unat x div 64"
  from assms have b: "?b < length w" by (simp add: div64_less_iff)
  then have "pmm_bitmap_clear_bit x w = Some (w[?b := w ! ?b AND c_not_mask (unat x mod 64)])"
    by (simp add: pmm_bitmap_clear_bit_def uint_div64 unat_mod_distrib)
  moreover have "used (w[?b := w ! ?b AND c_not_mask (unat x mod 64)]) j =
      (if aliased (unat x) j then False else used w j)" for j
    using b by (auto simp: used_def nth_list_update bit_used_clear aliased_def mod_mod_cancel)
  ultimately show ?thesis by (simp add: capacity_def)
qed

lemma pmm_clear_out: "capacity w \<le> unat x \<Longrightarrow> pmm_bitmap_clear_bit x w = None"
  by (simp add: pmm_bitmap_clear_bit_def buf_get_def uint_div64 div64_less_iff)

interpretation clear_bit: bit_writer used capacity pmm_bitmap_clear_bit False aliased
  by unfold_locales (simp_all add: pmm_clear_in pmm_clear_out)

section \<open>The search of pmm_alloc is first fit\<close>

text \<open>
  The state \<open>pmm_init\<close> builds: the words cover exactly the counted pages, and a frame
  number fits an \<open>int\<close> (less than 8 TiB of memory).
\<close>

definition pmm_wf :: "pmm \<Rightarrow> bool" where
  "pmm_wf st \<longleftrightarrow> length (bm_words st) = unat (total_pages (info st) div 64) \<and>
     capacity (bm_words st) \<le> 2 ^ 31"

abbreviation busy_frame :: "pmm \<Rightarrow> nat \<Rightarrow> bool" where
  "busy_frame st \<equiv> used (bm_words st)"

abbreviation frames :: "pmm \<Rightarrow> nat" where
  "frames st \<equiv> capacity (bm_words st)"

lemma pmm_first_free_eq:
  "pmm_first_free start st = find_first_free start (bm_words st) (total_pages (info st) div 64)"
  by (simp add: pmm_first_free_def find_first_free_def)

lemma pmm_first_free_hit:
  assumes "pmm_wf st" "first_free (bm_words st) s k" "k < frames st"
  shows "pmm_first_free (of_nat s) st = Some (of_nat k)"
  unfolding pmm_first_free_eq
  by (rule find_first_free_hit) (use assms in \<open>auto simp: pmm_wf_def capacity_def\<close>)

lemma pmm_first_free_all_used:
  assumes "pmm_wf st" "s < frames st" "\<And>j. s \<le> j \<Longrightarrow> j < frames st \<Longrightarrow> busy_frame st j"
  shows "pmm_first_free (of_nat s) st = Some ENOMEM"
proof -
  from assms(1) have len: "length (bm_words st) = unat (total_pages (info st) div 64)"
    and lim: "frames st \<le> 2 ^ 31" by (auto simp: pmm_wf_def)
  have "pmm_first_free (of_nat s) st =
      (if unat (total_pages (info st) div 64) \<le> Suc (s div 64) \<or>
          unat (total_pages (info st) div 64) \<le> length (bm_words st) then Some ENOMEM else None)"
    unfolding pmm_first_free_eq
    by (rule find_first_free_all_used) (use assms len lim in \<open>auto simp: capacity_def\<close>)
  then show ?thesis using len by simp
qed

lemma check_region_size_eq:
  assumes "s < 2 ^ 31"
  shows "check_region_size (of_nat s) count st =
    is_free_region_big_enough (of_nat s) (bm_words st) (scast count)"
  by (simp only: check_region_size_def is_free_region_big_enough_def pmm_test_eq
      scast_of_nat32 [OF assms])

lemma unat_scast_count: "n < 2 ^ 31 \<Longrightarrow> unat (scast (of_nat n :: s32) :: u64) = n"
  by (simp add: scast_of_nat32 unat_of_nat64)

lemma index_nonzero:
  assumes "0 < k" "k < 2 ^ 31"
  shows "(of_nat k :: s32) \<noteq> 0"
proof
  assume "(of_nat k :: s32) = 0"
  then have "unat (of_nat k :: s32) = 0" by simp
  with assms show False by (simp add: unat_of_nat32)
qed

lemma sint_of_nat64: "k < 2 ^ 31 \<Longrightarrow> sint (of_nat k :: s64) = int k"
  by (simp add: signed_of_nat signed_take_bit_int_eq_self)

lemma pmm_search_hit:
  assumes "pmm_wf st" "n < 2 ^ 31" "s < frames st" "s + n \<le> frames st"
    "\<And>i. i < n \<Longrightarrow> \<not> busy_frame st (s + i)"
  shows "pmm_search st (of_nat n) (of_nat s) = Some (of_nat s)"
proof -
  have "is_free_region_big_enough (of_nat s) (bm_words st) (scast (of_nat n :: s32)) = Some 0"
    by (rule region_free) (use assms in \<open>auto simp: pmm_wf_def unat_scast_count\<close>)
  with assms show ?thesis
    by (subst pmm_search.simps) (simp add: check_region_size_eq pmm_wf_def)
qed

lemma pmm_search_busy:
  assumes "pmm_wf st" "n < 2 ^ 31" "0 < i" "i < n" "s + i < frames st" "busy_frame st (s + i)"
    "\<And>j. j < i \<Longrightarrow> \<not> busy_frame st (s + j)"
  shows "pmm_search st (of_nat n) (of_nat s) =
    Option.bind (pmm_first_free (of_nat (s + i)) st) (\<lambda>f.
      if 0 \<le> sint (scast f :: s64) then pmm_search st (of_nat n) (scast f) else Some (scast f))"
proof -
  from assms have lim: "s + i < 2 ^ 31" by (simp add: pmm_wf_def)
  have "is_free_region_big_enough (of_nat s) (bm_words st) (scast (of_nat n :: s32))
      = Some (of_nat (s + i))"
    by (rule region_busy) (use assms in \<open>auto simp: pmm_wf_def unat_scast_count\<close>)
  moreover have "(of_nat (s + i) :: s32) \<noteq> 0"
    using assms(3) lim by (intro index_nonzero) simp_all
  ultimately show ?thesis using lim
    by (subst pmm_search.simps) (simp add: check_region_size_eq scast_of_nat32 del: of_nat_add)
qed

lemma pmm_search_overrun:
  assumes "pmm_wf st" "n < 2 ^ 31" "s < frames st" "frames st < s + n"
    "\<And>j. s + j < frames st \<Longrightarrow> \<not> busy_frame st (s + j)"
  shows "pmm_search st (of_nat n) (of_nat s) = None"
proof -
  have "is_free_region_big_enough (of_nat s) (bm_words st) (scast (of_nat n :: s32)) = None"
    by (rule region_overrun) (use assms in \<open>auto simp: pmm_wf_def unat_scast_count\<close>)
  with assms show ?thesis
    by (subst pmm_search.simps) (simp add: check_region_size_eq pmm_wf_def)
qed

lemma scast_ENOMEM: "(scast ENOMEM :: u64) = - 1"
  by (simp add: ENOMEM_def)

interpretation pmm_fit: first_fit pmm_wf busy_frame frames
  "\<lambda>st n. pmm_search st (of_nat n)" "of_nat :: nat \<Rightarrow> s64" "Some (- 1)"
proof (unfold_locales, goal_cases)
  case (1 st n s)
  then show ?case by (rule pmm_search_hit)
next
  case (2 st n i s k)
  then have k: "k < 2 ^ 31" by (simp add: pmm_wf_def)
  have "pmm_first_free (of_nat (s + i)) st = Some (of_nat k)"
    by (rule pmm_first_free_hit) (use 2 in \<open>auto simp: first_free_def\<close>)
  with 2 k show ?case
    by (simp add: pmm_search_busy scast_of_nat32 sint_of_nat64 del: of_nat_add)
next
  case (3 st n i s)
  have "pmm_first_free (of_nat (s + i)) st = Some ENOMEM"
    by (rule pmm_first_free_all_used) (use 3 in auto)
  with 3 show ?case by (simp add: pmm_search_busy scast_ENOMEM del: of_nat_add)
next
  case (4 st n s)
  then show ?case by (rule pmm_search_overrun)
qed

section \<open>What pmm_alloc does\<close>

definition pages_of :: "u64 \<Rightarrow> nat" where
  "pages_of sz = (unat sz + 4095) div 4096"

text \<open>A request whose page count fits an \<open>int\<close>: what the code's conversions preserve.\<close>

definition sane_size :: "u64 \<Rightarrow> bool" where
  "sane_size sz \<longleftrightarrow> 0 < sz \<and> pages_of sz < 2 ^ 31"

definition free_run :: "pmm \<Rightarrow> nat \<Rightarrow> nat \<Rightarrow> bool" where
  "free_run st n r \<longleftrightarrow> r + n \<le> frames st \<and> (\<forall>i<n. \<not> busy_frame st (r + i))"

definition first_free_run :: "pmm \<Rightarrow> nat \<Rightarrow> nat \<Rightarrow> bool" where
  "first_free_run st n r \<longleftrightarrow> free_run st n r \<and> (\<forall>r'<r. \<not> free_run st n r')"

text \<open>The state after frames \<open>r, \<dots>, r + n - 1\<close> were handed out.\<close>

definition take_run :: "pmm \<Rightarrow> nat \<Rightarrow> nat \<Rightarrow> pmm \<Rightarrow> bool" where
  "take_run st n r st' \<longleftrightarrow>
     frames st' = frames st \<and>
     (\<forall>j. busy_frame st' j \<longleftrightarrow> busy_frame st j \<or> (\<exists>i. r \<le> i \<and> i < r + n \<and> aliased i j)) \<and>
     info st' = (info st)\<lparr>available_pages := available_pages (info st) - of_nat n,
                           used_pages := used_pages (info st) + of_nat n\<rparr>"

lemma sane_size_pos: "sane_size sz \<Longrightarrow> 0 < pages_of sz"
  by (simp add: sane_size_def pages_of_def word_less_nat_alt div_greater_zero_iff)

lemma num_pages:
  assumes "sane_size sz"
  shows "(ucast (align_up sz div PAGE_SIZE) :: s32) = of_nat (pages_of sz)"
proof -
  have "pages_of sz < 2 ^ 31" using assms by (simp add: sane_size_def)
  then have "unat (align_up sz div PAGE_SIZE) = pages_of sz"
    by (simp add: unat_page_div unat_align_up pages_of_def)
  then have "align_up sz div PAGE_SIZE = of_nat (pages_of sz)"
    using \<open>pages_of sz < 2 ^ 31\<close> by (simp add: word_unat_eq_iff unat_of_nat64)
  then show ?thesis
    using \<open>pages_of sz < 2 ^ 31\<close> by (simp add: ucast_of_nat64)
qed

lemma index_not_minus1:
  assumes "k < 2 ^ 31"
  shows "(of_nat k :: s32) \<noteq> - 1"
proof
  assume "(of_nat k :: s32) = - 1"
  then have "sint (of_nat k :: s32) = - 1" by simp
  with sint_of_nat32 [OF assms] show False by simp
qed

lemma page_addr: "(of_nat r :: u64) * PAGE_SIZE = of_nat (4096 * r)"
  by (simp add: PAGE_SIZE_def)

lemma unat_minus1: "unat (- 1 :: u64) = 2 ^ 64 - 1"
  unfolding all_ones [symmetric] by simp

lemma ucast_minus1: "(ucast (- 1 :: u64) :: s32) = - 1"
  by (rule bit_word_eqI) (simp add: bit_unsigned_iff bit_minus_1_iff)

lemma first_run_iff: "pmm_fit.first_run st n 0 r \<longleftrightarrow> first_free_run st n r"
  by (auto simp: pmm_fit.first_run_def pmm_fit.run_def first_free_run_def free_run_def)

text \<open>The search starts at the first free frame, which loses no run.\<close>

lemma first_run_from_free:
  assumes "first_free (bm_words st) 0 f" "first_free_run st n r" "0 < n"
  shows "pmm_fit.first_run st n f r"
proof -
  from assms(2,3) have "\<not> busy_frame st r"
    unfolding first_free_run_def free_run_def by (metis add_0_right)
  with assms(1) have "f \<le> r" unfolding first_free_def by (metis leI zero_le)
  with assms(2) show ?thesis
    by (auto simp: pmm_fit.first_run_def pmm_fit.run_def first_free_run_def free_run_def)
qed

lemma pmm_first_free_start:
  assumes "pmm_wf st" "f < frames st" "first_free (bm_words st) 0 f"
  shows "pmm_first_free 0 st = Some (of_nat f)"
  using pmm_first_free_hit [OF assms(1,3,2)] by simp

lemma free_frame_first:
  assumes "\<not> busy_frame st k" "k < frames st"
  obtains f where "first_free (bm_words st) 0 f" "f \<le> k"
proof -
  obtain f where "f \<le> k" "\<not> busy_frame st f" "\<And>j. 0 \<le> j \<Longrightarrow> j < f \<Longrightarrow> busy_frame st j"
    using pmm_fit.least_free [of 0 k st] assms by blast
  then show thesis by (intro that [of f]) (auto simp: first_free_def)
qed

lemma pmm_alloc_success:
  assumes wf: "pmm_wf st" and av: "available_pages (info st) \<noteq> 0" and sz: "sane_size sz"
    and r: "first_free_run st (pages_of sz) r"
  shows "\<exists>st'. pmm_alloc sz st = Some (of_nat (4096 * r), st') \<and>
           take_run st (pages_of sz) r st' \<and> pmm_wf st'"
proof -
  let ?n = "pages_of sz"
  have n: "0 < ?n" "?n < 2 ^ 31" using sz sane_size_pos by (auto simp: sane_size_def)
  have run: "r + ?n \<le> frames st" "\<not> busy_frame st r"
    using r n(1) unfolding first_free_run_def free_run_def by (auto dest: spec [of _ 0])
  have lim: "frames st \<le> 2 ^ 31" using wf by (simp add: pmm_wf_def)
  obtain f where f: "first_free (bm_words st) 0 f" "f \<le> r"
    using free_frame_first [of st r] run n by auto
  have ff: "pmm_first_free 0 st = Some (of_nat f)"
    by (rule pmm_first_free_start [OF wf _ f(1)]) (use f run n in simp)
  have f31: "f < 2 ^ 31" "r < 2 ^ 31" using f run n lim by simp_all
  have search: "pmm_search st (of_nat ?n) (of_nat f) = Some (of_nat r)"
    by (rule pmm_fit.run_exists_search [OF wf n(2)])
       (use f run n first_run_from_free [OF f(1) r n(1)] in \<open>auto simp: first_free_def\<close>)
  obtain w where w: "for_range (\<lambda>i. pmm_bitmap_set_bit (of_nat i)) r (r + ?n) (bm_words st) = Some w"
    and wr: "set_bit.written r (r + ?n) (bm_words st) w"
    using set_bit.wr_range_total [of "r + ?n" "bm_words st" r] run lim by (auto simp: pmm_set_eq)
  have bounds: "unat (of_nat r :: s64) = r" "unat (of_nat ?n + of_nat r :: u64) = r + ?n"
    using unat_of_nat64 [of r] unat_of_nat64 [of "r + ?n"] f31 n by (simp_all add: add.commute)
  let ?st = "st\<lparr>bm_words := w, info := (info st)\<lparr>
      available_pages := available_pages (info st) - of_nat ?n,
      used_pages := used_pages (info st) + of_nat ?n\<rparr>\<rparr>"
  have "pmm_alloc sz st = Some (of_nat (4096 * r), ?st)"
    using av ff search w bounds f31 n
    by (simp add: pmm_alloc_def num_pages [OF sz] scast_of_nat32 ucast_of_nat64
        index_not_minus1 page_addr del: of_nat_mult)
  moreover have "take_run st ?n r ?st"
    using wr by (auto simp: take_run_def set_bit.written_def)
  moreover have "pmm_wf ?st"
    using wf wr by (auto simp: pmm_wf_def set_bit.written_def capacity_def)
  ultimately show ?thesis by blast
qed

lemma check_region_size_minus1:
  assumes "frames st \<le> 2 ^ 31" "0 < n" "n < 2 ^ 31"
  shows "check_region_size (- 1) (of_nat n) st = None"
proof -
  have "for_find (\<lambda>i. pmm_bitmap_test_bit (- 1 + of_nat i) (bm_words st)) 0
          (unat (scast (of_nat n :: s32) :: u64)) = None"
    by (rule for_find_fault [of _ 0])
       (use assms in \<open>auto simp: unat_scast_count pmm_test_eq bitmap_test_bit_eq unat_minus1\<close>)
  then show ?thesis by (simp add: check_region_size_def)
qed

text \<open>No free frame at all: the failed scan's -1 is used as a frame number.\<close>

lemma pmm_alloc_no_frame:
  assumes wf: "pmm_wf st" and av: "available_pages (info st) \<noteq> 0" and sz: "sane_size sz"
    and full: "\<And>j. j < frames st \<Longrightarrow> busy_frame st j" and "0 < frames st"
  shows "pmm_alloc sz st = None"
proof -
  have "pmm_first_free 0 st = Some ENOMEM"
    using pmm_first_free_all_used [OF wf, of 0] full \<open>0 < frames st\<close> by simp
  moreover have "pmm_search st (of_nat (pages_of sz)) (- 1) = None"
    using check_region_size_minus1 [of st "pages_of sz"] wf sz sane_size_pos [OF sz]
    by (subst pmm_search.simps) (simp add: pmm_wf_def sane_size_def)
  ultimately show ?thesis
    using av by (simp add: pmm_alloc_def num_pages [OF sz] scast_ENOMEM)
qed

lemma pmm_alloc_no_run:
  assumes wf: "pmm_wf st" and av: "available_pages (info st) \<noteq> 0" and sz: "sane_size sz"
    and no: "\<And>r. \<not> free_run st (pages_of sz) r" and pos: "0 < frames st"
  shows "pmm_alloc sz st = Some (scast ENOMEM, st) \<or> pmm_alloc sz st = None"
proof (cases "\<exists>k<frames st. \<not> busy_frame st k")
  case False
  then have "pmm_alloc sz st = None"
    by (intro pmm_alloc_no_frame [OF wf av sz _ pos]) blast
  then show ?thesis ..
next
  case True
  then obtain k where k: "k < frames st" "\<not> busy_frame st k" by blast
  then obtain f where f: "first_free (bm_words st) 0 f" "f \<le> k" by (metis free_frame_first)
  with k have ff: "f < frames st" "f < 2 ^ 31" "\<not> busy_frame st f"
    using wf by (auto simp: pmm_wf_def first_free_def)
  have "pmm_search st (of_nat (pages_of sz)) (of_nat f) = Some (- 1) \<or>
        pmm_search st (of_nat (pages_of sz)) (of_nat f) = None"
    by (rule pmm_fit.search_no_run [OF wf _ ff(1,3)])
       (use sz no in \<open>auto simp: sane_size_def pmm_fit.run_def free_run_def\<close>)
  with av ff pmm_first_free_start [OF wf ff(1) f(1)] show ?thesis
    by (auto simp: pmm_alloc_def num_pages [OF sz] scast_of_nat32 ucast_minus1)
qed

lemma first_free_run_exists:
  assumes "free_run st n r"
  obtains r0 where "first_free_run st n r0"
proof -
  from assms have "\<exists>r. free_run st n r" by blast
  then show thesis using that by (subst (asm) exists_least_iff) (auto simp: first_free_run_def)
qed

text \<open>Whatever \<open>pmm_alloc\<close> returns, it is \<open>ENOMEM\<close> with the state unchanged or the first run.\<close>

lemma pmm_alloc_result:
  assumes "pmm_wf st" "sane_size sz" "0 < frames st" "pmm_alloc sz st = Some (p, st')"
  shows "p = scast ENOMEM \<and> st' = st \<or>
    (\<exists>r. first_free_run st (pages_of sz) r \<and> p = of_nat (4096 * r) \<and>
         take_run st (pages_of sz) r st' \<and> pmm_wf st')"
proof (cases "available_pages (info st) = 0")
  case True
  with assms(4) show ?thesis by (simp add: pmm_alloc_def)
next
  case False
  show ?thesis
  proof (cases "\<exists>r. free_run st (pages_of sz) r")
    case True
    then obtain r where "first_free_run st (pages_of sz) r" by (metis first_free_run_exists)
    with pmm_alloc_success [OF assms(1) False assms(2)] assms(4) show ?thesis by fastforce
  next
    case no: False
    with pmm_alloc_no_run [OF assms(1) False assms(2) _ assms(3)] assms(4) show ?thesis by auto
  qed
qed

section \<open>A client's sequence of allocations\<close>

definition pmm_allocs :: "u64 list \<Rightarrow> pmm \<Rightarrow> (u64 list \<times> pmm) option" where
  "pmm_allocs = alloc_seq pmm_alloc"

text \<open>The frames of the block at physical address \<open>p\<close> for a request of \<open>sz\<close> bytes.\<close>

definition block_frames :: "u64 \<Rightarrow> u64 \<Rightarrow> nat set" where
  "block_frames p sz = {unat p div 4096 ..< unat p div 4096 + pages_of sz}"

lemma frame_of_addr:
  assumes "r < 2 ^ 31"
  shows "unat (of_nat (4096 * r) :: u64) div 4096 = r" "(of_nat (4096 * r) :: u64) \<noteq> - 1"
proof -
  have u: "unat (of_nat (4096 * r) :: u64) = 4096 * r"
    using assms by (intro unat_of_nat64) simp
  then show "unat (of_nat (4096 * r) :: u64) div 4096 = r" by simp
  show "(of_nat (4096 * r) :: u64) \<noteq> - 1"
  proof
    assume "(of_nat (4096 * r) :: u64) = - 1"
    with u have "4096 * r = 2 ^ 64 - 1" by (metis unat_minus1)
    with assms show False by simp
  qed
qed

text \<open>One allocation: it takes frames that were free and leaves no frame it found busy free.\<close>

lemma pmm_alloc_block:
  assumes "pmm_wf st" "sane_size sz" "0 < frames st" "pmm_alloc sz st = Some (p, st')"
  shows "pmm_wf st' \<and> frames st' = frames st \<and> (\<forall>j. busy_frame st j \<longrightarrow> busy_frame st' j) \<and>
     (p \<noteq> - 1 \<longrightarrow> p mod PAGE_SIZE = 0 \<and>
       (\<forall>j \<in> block_frames p sz. \<not> busy_frame st j \<and> busy_frame st' j))"
  using pmm_alloc_result [OF assms]
proof
  assume "p = scast ENOMEM \<and> st' = st"
  with assms show ?thesis by (simp add: scast_ENOMEM)
next
  assume "\<exists>r. first_free_run st (pages_of sz) r \<and> p = of_nat (4096 * r) \<and>
         take_run st (pages_of sz) r st' \<and> pmm_wf st'"
  then obtain r where r: "first_free_run st (pages_of sz) r" "p = of_nat (4096 * r)"
    "take_run st (pages_of sz) r st'" "pmm_wf st'" by blast
  have run: "r + pages_of sz \<le> frames st" "\<And>i. i < pages_of sz \<Longrightarrow> \<not> busy_frame st (r + i)"
    using r(1) by (auto simp: first_free_run_def free_run_def)
  have r31: "r < 2 ^ 31"
    using run(1) assms(1) sane_size_pos [OF assms(2)] by (simp add: pmm_wf_def)
  have blk: "block_frames p sz = {r ..< r + pages_of sz}"
    by (simp only: block_frames_def r(2) frame_of_addr [OF r31])
  have free: "\<not> busy_frame st j" if "j \<in> {r ..< r + pages_of sz}" for j
  proof -
    from that have "j = r + (j - r)" "j - r < pages_of sz" by auto
    with run(2) show ?thesis by metis
  qed
  have "unat (of_nat (4096 * r) :: u64) = 4096 * r" using r31 by (intro unat_of_nat64) simp
  then have "p mod PAGE_SIZE = 0" using r(2) by (simp only: page_mod_zero) simp
  moreover have "busy_frame st' j" if "j \<in> {r ..< r + pages_of sz}" for j
    using r(3) that aliased_refl by (auto simp: take_run_def)
  ultimately show ?thesis
    using r(3,4) free unfolding blk by (auto simp: take_run_def)
qed

interpretation pmm_seq: allocator pmm_alloc "\<lambda>st. pmm_wf st \<and> 0 < frames st" sane_size busy_frame block_frames
  using pmm_alloc_block by unfold_locales (metis (no_types, lifting))

section \<open>Freeing a page\<close>

lemma pmm_free_page_result:
  assumes "unat addr div 4096 < frames st"
  shows "\<exists>st'. pmm_free_page addr st = Some st' \<and> frames st' = frames st \<and>
     (\<forall>j. busy_frame st' j \<longleftrightarrow> busy_frame st j \<and> \<not> aliased (unat addr div 4096) j) \<and>
     info st' = (info st)\<lparr>available_pages := available_pages (info st) + 1,
                          used_pages := used_pages (info st) - 1\<rparr> \<and> bm_map st' = bm_map st"
  using pmm_clear_in [of "addr div PAGE_SIZE" "bm_words st"] assms
  by (auto simp: pmm_free_page_def unat_page_div)

lemma upper_half: "r < 32 \<Longrightarrow> (64 * q + (r + 32)) div 64 = (q :: nat)"
  by (rule div_nat_eqI) simp_all

lemma aliased_busy: "aliased i j \<Longrightarrow> used w i = used w j"
  by (auto simp: aliased_def used_def bit_used_iff)

section \<open>Initialisation: which frames are free\<close>

definition usable :: "memmap_entry \<Rightarrow> bool" where
  "usable e \<longleftrightarrow> mtype e = LIMINE_MEMMAP_USABLE"

text \<open>Frame \<open>j\<close> shares its bit with a frame of a usable region.\<close>

definition usable_frame :: "memmap_entry list \<Rightarrow> nat \<Rightarrow> bool" where
  "usable_frame es j \<longleftrightarrow> (\<exists>e \<in> set es. usable e \<and>
     (\<exists>i. frame_lo (base e) \<le> i \<and> i < frame_hi (base e) (len e) \<and> aliased i j))"

lemma frame_hi_bound: "frame_hi a n \<le> 2 ^ 64"
  using unat_u64_bound by (simp add: frame_hi_def less_imp_le)

lemma pmm_free_Some:
  "pmm_free a n w = Some w' \<Longrightarrow> clear_bit.written (frame_lo a) (frame_hi a n) w w'"
  unfolding pmm_free_def by (erule clear_bit.wr_range_Some) (rule frame_hi_bound)

lemma pmm_reserve_Some:
  "pmm_reserve a n w = Some w' \<Longrightarrow> set_bit.written (frame_lo a) (frame_hi a n) w w'"
  unfolding pmm_reserve_def pmm_set_eq by (erule set_bit.wr_range_Some) (rule frame_hi_bound)

lemma pmm_free_total: "frame_hi a n \<le> capacity w \<Longrightarrow> \<exists>w'. pmm_free a n w = Some w'"
  unfolding pmm_free_def using clear_bit.wr_range_total [OF _ frame_hi_bound] by blast

lemma pmm_reserve_total: "frame_hi a n \<le> capacity w \<Longrightarrow> \<exists>w'. pmm_reserve a n w = Some w'"
  unfolding pmm_reserve_def pmm_set_eq using set_bit.wr_range_total [OF _ frame_hi_bound] by blast

lemma free_usable_Some:
  assumes "free_usable es w = Some w'"
  shows "capacity w' = capacity w \<and> (\<forall>j. used w' j \<longleftrightarrow> used w j \<and> \<not> usable_frame es j)"
  using assms
proof (induction es arbitrary: w)
  case Nil
  then show ?case by (simp add: usable_frame_def)
next
  case (Cons e es)
  from Cons.prems obtain w1 where
    w1: "(if usable e then pmm_free (base e) (len e) w else Some w) = Some w1"
    and w': "free_usable es w1 = Some w'"
    by (auto simp: Option.bind_eq_Some_conv usable_def)
  have "capacity w1 = capacity w \<and> (\<forall>j. used w1 j \<longleftrightarrow> used w j \<and> \<not> usable_frame [e] j)"
    using w1 pmm_free_Some [of "base e" "len e" w w1]
    by (auto simp: usable_frame_def clear_bit.written_def split: if_splits)
  with Cons.IH [OF w'] show ?case by (auto simp: usable_frame_def)
qed

lemma free_usable_total:
  assumes "\<And>e. e \<in> set es \<Longrightarrow> usable e \<Longrightarrow> frame_hi (base e) (len e) \<le> capacity w"
  shows "\<exists>w'. free_usable es w = Some w'"
  using assms
proof (induction es arbitrary: w)
  case Nil
  then show ?case by simp
next
  case (Cons e es)
  obtain w1 where w1: "(if usable e then pmm_free (base e) (len e) w else Some w) = Some w1"
    using pmm_free_total [of "base e" "len e" w] Cons.prems [of e] by (cases "usable e") auto
  then have "capacity w1 = capacity w"
    using pmm_free_Some [of "base e" "len e" w w1]
    by (auto simp: clear_bit.written_def split: if_splits)
  with Cons.IH [of w1] Cons.prems obtain w' where "free_usable es w1 = Some w'" by auto
  with w1 show ?case by (auto simp: usable_def split: if_splits)
qed

text \<open>The frames a call of \<open>pmm_reserve\<close> takes back, up to sharing.\<close>

definition reserved_by :: "u64 \<Rightarrow> u64 \<Rightarrow> nat \<Rightarrow> bool" where
  "reserved_by a n j \<longleftrightarrow> (\<exists>i. frame_lo a \<le> i \<and> i < frame_hi a n \<and> aliased i j)"

lemma low_range: "frame_lo 0 = 0" "frame_hi 0 0x100000 = 256"
  by (simp_all add: frame_lo_def frame_hi_def PAGE_SIZE_def)

lemma reserved_low: "reserved_by 0 0x100000 j \<longleftrightarrow> j < 256"
proof
  assume "j < 256"
  then show "reserved_by 0 0x100000 j"
    unfolding reserved_by_def low_range by (intro exI [of _ j]) simp
next
  assume "reserved_by 0 0x100000 j"
  then obtain i where "i < 256" "i div 64 = j div 64"
    by (auto simp: reserved_by_def low_range aliased_def)
  then have "j div 64 < 4" by simp
  then show "j < 256" by simp
qed

lemma length_capacity: "capacity w = capacity v \<longleftrightarrow> length w = length v"
  by (simp add: capacity_def)

lemma word_all_free:
  assumes "0 < length w" "\<And>j. j < 64 \<Longrightarrow> \<not> used w j"
  shows "w ! 0 = 0"
proof -
  have nb: "\<not> bit_used (w ! 0) j" if "j < 64" for j
    using assms that used_block [of 0 w j] by auto
  have "\<not> bit (w ! 0) k" if "k < 64" for k
  proof (cases "k < 31")
    case True
    with nb [of k] show ?thesis by (simp add: bit_used_iff)
  next
    case False
    with nb [of 31] that show ?thesis by (auto simp: bit_used_iff)
  qed
  then show ?thesis by (intro bit_word_eqI) simp
qed

text \<open>
  \<open>init_words\<close> is the bitmap after the usable regions were cleared; its first word is what
  \<open>pmm_init\<close> passes to \<open>pmm_reserve\<close> as the address to reserve.
\<close>

definition init_words :: "memmap_entry list \<Rightarrow> u64 list option" where
  "init_words es = free_usable es
     (replicate (unat (total_memory (print_memory_stats es) div PAGE_SIZE div 64)) (- 1))"

lemma pmm_init_exact:
  assumes "pmm_init es = Some st"
  obtains w1 where
    "init_words es = Some w1" "0 < length w1" "info st = print_memory_stats es"
    "bm_size st = total_pages (info st) div 64"
    "bm_map st = bitmap_home es (bm_size st) 0" "bm_map st \<noteq> 0"
    "length (bm_words st) = unat (bm_size st)" "0 < frames st"
    "\<And>j. j < frames st \<Longrightarrow> busy_frame st j \<longleftrightarrow>
       \<not> usable_frame es j \<or> reserved_by (w1 ! 0) (bm_size st * 8) j \<or> j < 256"
proof -
  let ?sz = "total_memory (print_memory_stats es) div PAGE_SIZE div 64"
  from assms obtain w1 w0 w2 w3 where
    w1: "free_usable es (replicate (unat ?sz) (- 1)) = Some w1" and w0: "buf_get w1 0 = Some w0"
    and w2: "pmm_reserve w0 (?sz * 8) w1 = Some w2" and w3: "pmm_reserve 0 0x100000 w2 = Some w3"
    and st: "st = \<lparr>bm_map = bitmap_home es ?sz 0, bm_words = w3, bm_size = ?sz,
                   info = print_memory_stats es\<rparr>"
    and home: "bitmap_home es ?sz 0 \<noteq> 0"
    by (auto simp: pmm_init_def Let_def Option.bind_eq_Some_conv all_ones split: if_splits)
  have pages: "total_pages (info st) = total_memory (info st) div PAGE_SIZE"
    by (simp add: st print_memory_stats_def Let_def)
  note f1 = free_usable_Some [OF w1]
  note f2 = pmm_reserve_Some [OF w2, unfolded set_bit.written_def, folded reserved_by_def]
  note f3 = pmm_reserve_Some [OF w3, unfolded set_bit.written_def, folded reserved_by_def]
  from w0 have pos: "0 < length w1" and w0e: "w0 = w1 ! 0" by (auto simp: buf_get_def split: if_splits)
  have cap: "capacity w3 = capacity (replicate (unat ?sz) (- 1 :: u64))"
    using f1 f2 f3 by simp
  have busy: "used w3 j \<longleftrightarrow> \<not> usable_frame es j \<or> reserved_by (w1 ! 0) (?sz * 8) j \<or> j < 256"
    if "j < capacity w3" for j
    using f1 f2 f3 that cap w0e by (auto simp: reserved_low used_replicate_full capacity_def)
  show thesis
  proof (rule that [of w1])
    show "0 < frames st" using pos f2 f3 by (simp add: st capacity_def)
    show "length (bm_words st) = unat (bm_size st)" using cap by (simp add: st length_capacity)
    show "bm_size st = total_pages (info st) div 64" using pages by (simp add: st)
    show "init_words es = Some w1" using w1 by (simp add: init_words_def)
  qed (use st home busy pos in auto)
qed

lemma pmm_init_wf:
  assumes "pmm_init es = Some st" "unat (total_pages (info st)) \<le> 2 ^ 31"
  shows "pmm_wf st"
proof (rule pmm_init_exact [OF assms(1)])
  assume "bm_size st = total_pages (info st) div 64" "length (bm_words st) = unat (bm_size st)"
  with assms(2) show ?thesis by (simp add: pmm_wf_def capacity_def unat_div_distrib)
qed

lemma init_words_first_zero:
  assumes "init_words es = Some w1" "0 < length w1" "\<And>j. j < 64 \<Longrightarrow> usable_frame es j"
  shows "w1 ! 0 = 0"
proof (rule word_all_free)
  show "0 < length w1" by (rule assms)
  fix j :: nat assume "j < 64"
  with assms show "\<not> used w1 j"
    using free_usable_Some by (fastforce simp: init_words_def)
qed

lemma frame_hi_reserve:
  assumes "unat n < 2 ^ 60"
  shows "frame_hi 0 (n * 8) \<le> 8 * unat n div 4096 + 1"
proof -
  have "unat (n * 8) = 8 * unat n"
    using assms by (simp add: unat_word_ariths mult.commute)
  then have "unat ((n * 8) div PAGE_SIZE) = 8 * unat n div 4096" by (simp add: unat_page_div)
  then show ?thesis
    by (simp add: frame_hi_def unat_word_ariths)
qed

lemma pmm_init_total_lemma:
  assumes fits: "\<And>e. e \<in> set es \<Longrightarrow> usable e \<Longrightarrow>
       frame_hi (base e) (len e) \<le> 64 * unat (total_pages (print_memory_stats es) div 64)"
    and home: "bitmap_home es (total_pages (print_memory_stats es) div 64) 0 \<noteq> 0"
    and low: "\<And>j. j < 64 \<Longrightarrow> usable_frame es j"
    and big: "4 \<le> unat (total_pages (print_memory_stats es) div 64)"
  shows "\<exists>st. pmm_init es = Some st"
proof -
  let ?sz = "total_memory (print_memory_stats es) div PAGE_SIZE div 64"
  have sz: "total_pages (print_memory_stats es) div 64 = ?sz"
    by (simp add: print_memory_stats_def Let_def)
  have cap: "capacity (replicate (unat ?sz) (- 1 :: u64)) = 64 * unat ?sz"
    by (simp add: capacity_def)
  obtain w1 where w1: "free_usable es (replicate (unat ?sz) (- 1)) = Some w1"
    using free_usable_total [of es "replicate (unat ?sz) (- 1)"] fits unfolding sz cap by blast
  then have c1: "length w1 = unat ?sz" using free_usable_Some [OF w1] by (simp add: capacity_def)
  have four: "4 \<le> unat ?sz" using big unfolding sz .
  have w0: "w1 ! 0 = 0"
    by (rule init_words_first_zero [of es]) (use w1 c1 four low in \<open>auto simp: init_words_def\<close>)
  have get: "buf_get w1 0 = Some 0"
    using buf_get_in [of 0 w1] c1 four w0 by simp
  have "unat ?sz < 2 ^ 60"
    using unat_u64_bound [of "total_memory (print_memory_stats es)"]
    by (simp add: unat_div_distrib PAGE_SIZE_def)
  then have "frame_hi 0 (?sz * 8) \<le> 8 * unat ?sz div 4096 + 1" by (rule frame_hi_reserve)
  also have "\<dots> \<le> 64 * unat ?sz" using four by linarith
  finally have "frame_hi 0 (?sz * 8) \<le> capacity w1" using c1 by (simp add: capacity_def)
  then obtain w2 where w2: "pmm_reserve 0 (?sz * 8) w1 = Some w2"
    using pmm_reserve_total by blast
  then have "length w2 = unat ?sz"
    using pmm_reserve_Some [OF w2] c1 by (simp add: set_bit.written_def capacity_def)
  then obtain w3 where w3: "pmm_reserve 0 0x100000 w2 = Some w3"
    using pmm_reserve_total [of 0 "0x100000" w2] four by (auto simp: low_range capacity_def)
  show ?thesis
    using w1 get w2 w3 home unfolding sz by (simp add: pmm_init_def Let_def all_ones)
qed

section \<open>Properties\<close>

text \<open>Concrete states for the witnesses: 128 free frames, and a small memory map.\<close>

definition pmm_ex :: pmm where
  "pmm_ex = \<lparr>bm_map = 0xffff800000100000, bm_words = [0, 0], bm_size = 2,
     info = \<lparr>total_memory = 0x80000, total_available_memory = 0x80000,
       total_reserved_memory = 0, total_pages = 128, used_pages = 0, available_pages = 128\<rparr>\<rparr>"

definition memmap_ex :: "memmap_entry list" where
  "memmap_ex = [\<lparr>base = 0, len = 0x80000, mtype = 0\<rparr>,
                \<lparr>base = 0x80000, len = 0x80000, mtype = 1\<rparr>,
                \<lparr>base = 0x100000, len = 0x100000, mtype = 0\<rparr>]"

lemma pmm_ex_facts [simp]:
  "pmm_wf pmm_ex" "available_pages (info pmm_ex) \<noteq> 0" "frames pmm_ex = 128"
  "\<not> busy_frame pmm_ex j"
proof -
  have "bm_words pmm_ex = replicate 2 0" by (simp add: pmm_ex_def numeral_2_eq_2)
  then show "\<not> busy_frame pmm_ex j" by (simp only: used_replicate_zero) simp
qed (simp_all add: pmm_wf_def pmm_ex_def capacity_def)

lemma sane_ex [simp]: "sane_size 0x1000" "sane_size 0x2000" "pages_of 0x1000 = 1" "pages_of 0x2000 = 2"
  by (simp_all add: sane_size_def pages_of_def)

lemma take_run_frames:
  assumes "take_run st n r st'" and "j < frames st"
  shows "busy_frame st' j \<longleftrightarrow> busy_frame st j \<or> (\<exists>i \<in> {r..<r + n}. i div 64 = j div 64 \<and> i mod 32 = j mod 32)"
  using assms by (auto simp: take_run_def aliased_def)

text \<open>
  C1 First fit: from a well-formed state, if some run of enough free frames exists,
  \<open>pmm_alloc\<close> returns the physical address of the least one and moves that many pages from the available
  to the used counter.  The frames that become used are those of the run and, since the mask is an \<open>int\<close>
  shift, those that share a mask with one of them: the frame 32 away in the same word of the bitmap.  These are
  used without being counted or handed out.  In particular the search loop ends and never reads past the bitmap.
\<close>

theorem pmm_alloc_first_fit:
  assumes "pmm_wf st" and "available_pages (info st) \<noteq> 0" and "sane_size sz"
    and "free_run st (pages_of sz) k"
  shows "\<exists>r st'. pmm_alloc sz st = Some (of_nat (4096 * r), st') \<and>
     first_free_run st (pages_of sz) r \<and> pmm_wf st' \<and> frames st' = frames st \<and>
     (\<forall>j < frames st. busy_frame st' j \<longleftrightarrow> busy_frame st j \<or>
        (\<exists>i \<in> {r..<r + pages_of sz}. i div 64 = j div 64 \<and> i mod 32 = j mod 32)) \<and>
     info st' = (info st)\<lparr>available_pages := available_pages (info st) - of_nat (pages_of sz),
                           used_pages := used_pages (info st) + of_nat (pages_of sz)\<rparr>"
proof -
  obtain r where "first_free_run st (pages_of sz) r" using first_free_run_exists assms(4) .
  with pmm_alloc_success [OF assms(1-3)] obtain st' where s: "pmm_alloc sz st = Some (of_nat (4096 * r), st')"
    "first_free_run st (pages_of sz) r" "take_run st (pages_of sz) r st'" "pmm_wf st'" by blast
  have "frames st' = frames st" "info st' = (info st)\<lparr>available_pages := available_pages (info st) - of_nat (pages_of sz),
      used_pages := used_pages (info st) + of_nat (pages_of sz)\<rparr>" using s(3) by (simp_all add: take_run_def)
  with s(1,2,4) take_run_frames [OF s(3)] show ?thesis by blast
qed

theorem pmm_alloc_first_fit_witness:
  "\<exists>st'. pmm_alloc 0x2000 pmm_ex = Some (0, st') \<and> busy_frame st' 1 \<and> busy_frame st' 33 \<and> \<not> busy_frame st' 2 \<and>
     available_pages (info st') = 126"
proof -
  have f: "free_run pmm_ex (pages_of 0x2000) 0" by (simp add: free_run_def)
  obtain r st' where s: "pmm_alloc 0x2000 pmm_ex = Some (of_nat (4096 * r), st')" "first_free_run pmm_ex (pages_of 0x2000) r"
    "\<forall>j < frames pmm_ex. busy_frame st' j \<longleftrightarrow> busy_frame pmm_ex j \<or>
        (\<exists>i \<in> {r..<r + pages_of 0x2000}. i div 64 = j div 64 \<and> i mod 32 = j mod 32)"
    "info st' = (info pmm_ex)\<lparr>available_pages := available_pages (info pmm_ex) - of_nat (pages_of 0x2000),
       used_pages := used_pages (info pmm_ex) + of_nat (pages_of 0x2000)\<rparr>"
    using pmm_alloc_first_fit [OF pmm_ex_facts(1,2) sane_ex(2) f] by blast
  have "r = 0" using s(2) f by (auto simp: first_free_run_def)
  moreover have "available_pages (info st') = 126" unfolding s(4) by (simp add: pmm_ex_def)
  moreover have "{0..<2 :: nat} = {0, 1}" by auto
  ultimately show ?thesis using s(1,3) by auto
qed

text \<open>
  C11 No frame is handed out twice: in any sequence of allocations that returns, the blocks
  of two different successful requests share no frame.
\<close>

theorem pmm_allocs_disjoint:
  assumes "pmm_wf st" and "0 < frames st" and "\<forall>sz \<in> set szs. sane_size sz"
    and "pmm_allocs szs st = Some (ps, st')"
    and "i < k" and "k < length szs" and "ps ! i \<noteq> scast ENOMEM" and "ps ! k \<noteq> scast ENOMEM"
  shows "block_frames (ps ! i) (szs ! i) \<inter> block_frames (ps ! k) (szs ! k) = {}"
  using pmm_seq.seq_blocks [of st szs ps st'] assms by (auto simp: scast_ENOMEM pmm_allocs_def)

theorem pmm_allocs_disjoint_witness:
  "\<exists>ps st'. pmm_allocs [0x1000, 0x2000] pmm_ex = Some (ps, st') \<and>
     ps ! 0 \<noteq> scast ENOMEM \<and> ps ! 1 \<noteq> scast ENOMEM \<and>
     block_frames (ps ! 0) 0x1000 \<inter> block_frames (ps ! 1) 0x2000 = {}"
proof -
  have "pmm_allocs [0x1000, 0x2000] pmm_ex \<noteq> None \<and>
      (case pmm_allocs [0x1000, 0x2000] pmm_ex of Some (ps, st') \<Rightarrow> ps = [0, 0x1000])"
    by code_simp
  then obtain st' where st': "pmm_allocs [0x1000, 0x2000] pmm_ex = Some ([0, 0x1000], st')"
    by auto
  have "block_frames ([0, 0x1000] ! 0) ([0x1000, 0x2000] ! 0) \<inter>
        block_frames ([0, 0x1000] ! 1) ([0x1000, 0x2000] ! 1) = {}"
    by (rule pmm_allocs_disjoint [OF _ _ _ st']) (simp_all add: scast_ENOMEM)
  then show ?thesis using st' by (intro exI [of _ "[0, 0x1000]"] exI [of _ st']) (simp add: scast_ENOMEM)
qed

text \<open>
  Exhaustion is not reported: with every frame taken and the available counter not zero
  (which counts the reserved low memory too), \<open>pmm_alloc\<close> does not return \<open>ENOMEM\<close>: it
  uses the failed scan's -1 as a frame number and tests a bit far outside the bitmap.
\<close>

theorem pmm_alloc_exhausted_faults:
  assumes "pmm_wf st" and "available_pages (info st) \<noteq> 0" and "sane_size sz"
    and "0 < frames st" and "\<forall>j < frames st. busy_frame st j"
  shows "pmm_first_free 0 st = Some ENOMEM \<and> pmm_alloc sz st = None"
  using pmm_first_free_all_used [of st 0] pmm_alloc_no_frame assms by auto

text \<open>
  A page allocated alone can be given back: \<open>pmm_free_page\<close> on the address a one-page
  \<open>pmm_alloc\<close> returned restores the set of used frames and both counters.
\<close>

theorem pmm_alloc_free_roundtrip:
  assumes "pmm_wf st" and "0 < frames st" and "sane_size sz" and "pages_of sz = 1"
    and "pmm_alloc sz st = Some (p, st1)" and "p \<noteq> scast ENOMEM"
  shows "\<exists>st2. pmm_free_page p st1 = Some st2 \<and> info st2 = info st \<and>
           (\<forall>j. busy_frame st2 j = busy_frame st j)"
proof -
  obtain r where r: "first_free_run st 1 r" "p = of_nat (4096 * r)" "take_run st 1 r st1"
    using pmm_alloc_result [OF assms(1,3,2,5)] assms(4,6) by auto
  have free: "\<not> busy_frame st r" "r < frames st"
    using r(1) by (auto simp: first_free_run_def free_run_def)
  with assms(1) have p: "unat p div 4096 = r"
    unfolding r(2) by (intro frame_of_addr) (simp add: pmm_wf_def)
  have tk: "busy_frame st1 j \<longleftrightarrow> busy_frame st j \<or> aliased r j" for j
    using r(3) by (auto simp: take_run_def le_less_Suc_eq)
  from free r(3) have "unat p div 4096 < frames st1" by (simp add: p take_run_def)
  from pmm_free_page_result [OF this] obtain st2 where st2: "pmm_free_page p st1 = Some st2"
    "\<And>j. busy_frame st2 j \<longleftrightarrow> busy_frame st1 j \<and> \<not> aliased r j"
    "info st2 = (info st1)\<lparr>available_pages := available_pages (info st1) + 1,
                           used_pages := used_pages (info st1) - 1\<rparr>"
    unfolding p by blast
  have "busy_frame st2 j = busy_frame st j" for j
    using tk st2(2) free(1) aliased_busy [of r j "bm_words st"] by blast
  moreover have "info st2 = info st"
    using st2(3) r(3) by (simp add: take_run_def)
  ultimately show ?thesis using st2(1) by blast
qed

definition pmm_full_ex :: pmm where
  "pmm_full_ex = pmm_ex\<lparr>bm_words := [- 1, - 1]\<rparr>"

lemma pmm_full_ex_facts [simp]:
  "pmm_wf pmm_full_ex" "available_pages (info pmm_full_ex) \<noteq> 0" "frames pmm_full_ex = 128"
  "busy_frame pmm_full_ex j \<longleftrightarrow> j < 128"
proof -
  have "bm_words pmm_full_ex = replicate 2 (- 1)"
    by (simp add: pmm_full_ex_def numeral_2_eq_2)
  then show "busy_frame pmm_full_ex j \<longleftrightarrow> j < 128" by (simp only: used_replicate_full) simp
qed (simp_all add: pmm_full_ex_def pmm_wf_def pmm_ex_def capacity_def)

theorem pmm_alloc_exhausted_faults_witness:
  "pmm_first_free 0 pmm_full_ex = Some ENOMEM \<and> pmm_alloc 0x1000 pmm_full_ex = None"
  by (rule pmm_alloc_exhausted_faults) simp_all

theorem pmm_alloc_free_roundtrip_witness:
  "\<exists>st1 st2. pmm_alloc 0x1000 pmm_ex = Some (0, st1) \<and> pmm_free_page 0 st1 = Some st2 \<and>
     info st2 = info pmm_ex"
proof -
  have "pmm_alloc 0x1000 pmm_ex \<noteq> None \<and>
      (case pmm_alloc 0x1000 pmm_ex of Some (p, st1) \<Rightarrow> p = 0)"
    by code_simp
  then obtain st1 where a: "pmm_alloc 0x1000 pmm_ex = Some (0, st1)" by auto
  have "\<exists>st2. pmm_free_page 0 st1 = Some st2 \<and> info st2 = info pmm_ex \<and>
      (\<forall>j. busy_frame st2 j = busy_frame pmm_ex j)"
    by (rule pmm_alloc_free_roundtrip [OF _ _ _ _ a]) (simp_all add: scast_ENOMEM)
  with a show ?thesis by blast
qed

text \<open>
  Freeing one page can free another: the clear mask of a frame in the upper half of its
  64-frame word is that of the frame 32 below, so \<open>pmm_free_page\<close> on frame \<open>a + 32\<close> also
  frees frame \<open>a\<close>, whoever holds it.
\<close>

theorem pmm_free_page_frees_neighbour:
  assumes "unat addr div 4096 = a + 32" and "a mod 64 < 32" and "a + 32 < frames st"
  shows "\<exists>st'. pmm_free_page addr st = Some st' \<and> \<not> busy_frame st' a"
proof -
  from assms(2) have "(64 * (a div 64) + (a mod 64 + 32)) div 64 = a div 64" by (rule upper_half)
  moreover have "64 * (a div 64) + (a mod 64 + 32) = a + 32" by simp
  ultimately have "(a + 32) div 64 = a div 64" by (simp only:)
  moreover have "(a + 32) mod 32 = a mod 32" by simp
  ultimately have "aliased (a + 32) a" by (simp add: aliased_def)
  with pmm_free_page_result [of addr st] assms show ?thesis by auto
qed

theorem pmm_free_page_frees_neighbour_witness:
  "busy_frame pmm_full_ex 3 \<and>
   (\<exists>st'. pmm_free_page (35 * 4096) pmm_full_ex = Some st' \<and> \<not> busy_frame st' 3)"
  using pmm_free_page_frees_neighbour [of "35 * 4096" 3 pmm_full_ex] by simp

text \<open>
  Initialisation completes: if every usable region ends within the counted memory, some
  region can hold the bitmap, the first 64 frames are usable and there is at least a
  megabyte of memory, \<open>pmm_init\<close> returns, with no access outside the bitmap; and when a
  frame number fits an \<open>int\<close> the state it builds is well-formed.
\<close>

theorem pmm_init_total:
  assumes "\<forall>e \<in> set es. usable e \<longrightarrow>
       frame_hi (base e) (len e) \<le> 64 * unat (total_pages (print_memory_stats es) div 64)"
    and "bitmap_home es (total_pages (print_memory_stats es) div 64) 0 \<noteq> 0"
    and "\<forall>j < 64. usable_frame es j"
    and "4 \<le> unat (total_pages (print_memory_stats es) div 64)"
    and "unat (total_pages (print_memory_stats es)) \<le> 2 ^ 31"
  shows "\<exists>st. pmm_init es = Some st \<and> pmm_wf st"
proof -
  obtain st where st: "pmm_init es = Some st"
    using pmm_init_total_lemma [of es] assms(1-4) by blast
  have "info st = print_memory_stats es" by (rule pmm_init_exact [OF st])
  with st pmm_init_wf [OF st] assms(5) show ?thesis by auto
qed

lemma memmap_ex_pages [simp]: "total_pages (print_memory_stats memmap_ex) = 512"
  by (simp add: memmap_ex_def print_memory_stats_def Let_def LIMINE_MEMMAP_USABLE_def PAGE_SIZE_def)

lemma memmap_ex_home [simp]: "bitmap_home memmap_ex 8 0 = phys_to_hh 0x100000"
  by (simp add: memmap_ex_def LIMINE_MEMMAP_USABLE_def)

lemma memmap_ex_usable: "usable_frame memmap_ex j" if "j < 128 \<or> 256 \<le> j \<and> j < 512"
  using that unfolding usable_frame_def
  by (auto simp: memmap_ex_def usable_def LIMINE_MEMMAP_USABLE_def frame_lo_def frame_hi_def
      PAGE_SIZE_def intro: exI [of _ j])

lemma memmap_ex_fits:
  "\<forall>e \<in> set memmap_ex. usable e \<longrightarrow> frame_hi (base e) (len e) \<le> 512"
  by (simp add: memmap_ex_def usable_def LIMINE_MEMMAP_USABLE_def frame_hi_def PAGE_SIZE_def)

lemma memmap_ex_init: "\<exists>st. pmm_init memmap_ex = Some st"
  by (rule pmm_init_total_lemma)
     (use memmap_ex_fits in \<open>auto simp: memmap_ex_usable phys_to_hh_def KERNEL_VIRT_BASE_ADDR_def\<close>)

theorem pmm_init_total_witness: "\<exists>st. pmm_init memmap_ex = Some st \<and> pmm_wf st"
  by (rule pmm_init_total)
     (use memmap_ex_fits in \<open>auto simp: memmap_ex_usable phys_to_hh_def KERNEL_VIRT_BASE_ADDR_def\<close>)



lemma memmap_ex_state:
  assumes "pmm_init memmap_ex = Some st"
  shows "bm_size st = 8 \<and> bm_map st = phys_to_hh 0x100000 \<and> frames st = 512"
  by (rule pmm_init_exact [OF assms]) (simp add: capacity_def)


text \<open>
  The bitmap does not protect itself: \<open>pmm_init\<close> passes the first word of the bitmap,
  not its address, to \<open>pmm_reserve\<close>.  When the first 64 frames are usable that word is 0,
  and the frame that holds the bitmap stays free if it lies in a usable region above the
  low megabyte.
\<close>

theorem pmm_init_bitmap_unprotected:
  assumes "pmm_init es = Some st" and "\<forall>j < 64. usable_frame es j"
    and "unat (hh_to_phys (bm_map st)) div 4096 = b" and "usable_frame es b"
    and "256 \<le> b" and "b < frames st" and "unat (bm_size st) \<le> 2 ^ 16"
  shows "\<not> busy_frame st b"
proof (rule pmm_init_exact [OF assms(1)])
  fix w1 assume w1: "init_words es = Some w1" "0 < length w1"
    and busy: "\<And>j. j < frames st \<Longrightarrow> busy_frame st j \<longleftrightarrow>
       \<not> usable_frame es j \<or> reserved_by (w1 ! 0) (bm_size st * 8) j \<or> j < 256"
  have w0: "w1 ! 0 = 0" by (rule init_words_first_zero [OF w1]) (use assms(2) in blast)
  have "frame_hi 0 (bm_size st * 8) \<le> 8 * unat (bm_size st) div 4096 + 1"
    by (rule frame_hi_reserve) (use assms(7) in simp)
  also have "\<dots> \<le> 129" using assms(7) by simp
  finally have hi: "frame_hi 0 (bm_size st * 8) \<le> 129" .
  have "\<not> reserved_by 0 (bm_size st * 8) b"
  proof
    assume "reserved_by 0 (bm_size st * 8) b"
    then obtain i where "i < frame_hi 0 (bm_size st * 8)" "i div 64 = b div 64"
      by (auto simp: reserved_by_def aliased_def)
    with hi have "i div 64 < 3" "i div 64 = b div 64" by simp_all
    then have "b div 64 < 3" by simp
    with assms(5) show False by simp
  qed
  with busy [OF assms(6)] w0 assms(4,5) show ?thesis by simp
qed

theorem pmm_init_bitmap_unprotected_witness:
  "\<exists>st. pmm_init memmap_ex = Some st \<and> bm_map st = phys_to_hh 0x100000 \<and> \<not> busy_frame st 256"
proof -
  obtain st where st: "pmm_init memmap_ex = Some st" using memmap_ex_init by blast
  note ex = memmap_ex_state [OF st]
  have "\<not> busy_frame st 256"
    by (rule pmm_init_bitmap_unprotected [OF st])
       (simp_all add: ex memmap_ex_usable hh_to_phys_def phys_to_hh_def)
  with st ex show ?thesis by blast
qed

end
