(* ===== verification/Memory.thy ===== *)
theory Memory
  imports Prelude
begin

text \<open>
  klibc/memory.c over a byte-addressed memory, and the little-endian accesses the other
  components make through pointers to wider integers.  The memory is total: addresses the
  machine would fault on are the caller's concern.
\<close>

type_synonym mem = "u64 \<Rightarrow> u8"

section \<open>Operations\<close>

definition copy_byte :: "u64 \<Rightarrow> u64 \<Rightarrow> nat \<Rightarrow> mem \<Rightarrow> mem" where
  "copy_byte pdest psrc i m = m(pdest + of_nat i := m (psrc + of_nat i))"

definition memcpy :: "u64 \<Rightarrow> u64 \<Rightarrow> u64 \<Rightarrow> mem \<Rightarrow> mem" where
  "memcpy dest src n m = fold (copy_byte dest src) [0..<unat n] m"

definition memset :: "u64 \<Rightarrow> s32 \<Rightarrow> u64 \<Rightarrow> mem \<Rightarrow> mem" where
  "memset s c n m = fold (\<lambda>i m. m(s + of_nat i := ucast c)) [0..<unat n] m"

definition memmove :: "u64 \<Rightarrow> u64 \<Rightarrow> u64 \<Rightarrow> mem \<Rightarrow> mem" where
  "memmove dest src n m =
     (if dest < src then fold (copy_byte dest src) [0..<unat n] m
      else if src < dest then fold (copy_byte dest src) (rev [0..<unat n]) m
      else m)"

fun memcmp_from :: "u64 \<Rightarrow> u64 \<Rightarrow> nat list \<Rightarrow> mem \<Rightarrow> s32" where
  "memcmp_from p1 p2 [] m = 0"
| "memcmp_from p1 p2 (i # is) m =
     (if m (p1 + of_nat i) \<noteq> m (p2 + of_nat i)
      then (if m (p1 + of_nat i) < m (p2 + of_nat i) then - 1 else 1)
      else memcmp_from p1 p2 is m)"

definition memcmp :: "u64 \<Rightarrow> u64 \<Rightarrow> u64 \<Rightarrow> mem \<Rightarrow> s32" where
  "memcmp s1 s2 n m = memcmp_from s1 s2 [0..<unat n] m"

section \<open>Little-endian accesses\<close>

fun read_le :: "nat \<Rightarrow> mem \<Rightarrow> u64 \<Rightarrow> u64" where
  "read_le 0 m a = 0"
| "read_le (Suc k) m a = ucast (m a) OR push_bit 8 (read_le k m (a + 1))"

definition read64 :: "mem \<Rightarrow> u64 \<Rightarrow> u64" where "read64 m a = read_le 8 m a"
definition read32 :: "mem \<Rightarrow> u64 \<Rightarrow> u32" where "read32 m a = ucast (read_le 4 m a)"
definition read16 :: "mem \<Rightarrow> u64 \<Rightarrow> u16" where "read16 m a = ucast (read_le 2 m a)"

definition write64 :: "u64 \<Rightarrow> u64 \<Rightarrow> mem \<Rightarrow> mem" where
  "write64 a v m = (\<lambda>x. if x - a < 8 then ucast (drop_bit (8 * unat (x - a)) v) else m x)"

lemma bit_read_le:
  "bit (read_le k m a) b \<longleftrightarrow> b < 64 \<and> b < 8 * k \<and> bit (m (a + of_nat (b div 8))) (b mod 8)"
proof (induction k arbitrary: a b)
  case 0
  then show ?case by simp
next
  case (Suc k)
  show ?case
  proof (cases "b < 8")
    case True
    then show ?thesis by (simp add: bit_or_iff bit_push_bit_iff bit_ucast_iff)
  next
    case False
    then have "b div 8 = Suc ((b - 8) div 8)" "b mod 8 = (b - 8) mod 8"
      by (simp_all add: le_div_geq le_mod_geq)
    moreover from False have "\<not> bit (m a) b" using bit_imp_le_length by fastforce
    ultimately show ?thesis
      using False Suc.IH [of "a + 1" "b - 8"]
      by (auto simp: bit_or_iff bit_push_bit_iff bit_ucast_iff algebra_simps)
  qed
qed

lemma byte_offset: "i < 2 ^ 64 \<Longrightarrow> (a + of_nat i) - (a :: u64) < n \<longleftrightarrow> i < unat n"
  by (simp add: word_less_nat_alt unat_of_nat64)

text \<open>What was written is read back, and the eight bytes at \<open>a\<close> are all that changes.\<close>

lemma read64_write64_same [simp]: "read64 (write64 a v m) a = v"
proof (rule bit_word_eqI)
  fix b :: nat
  assume b: "b < LENGTH(64)"
  then have "b div 8 < 8" by simp
  then have u: "unat (of_nat (b div 8) :: u64) = b div 8" "(of_nat (b div 8) :: u64) < 8"
    by (simp_all add: unat_of_nat64 word_less_nat_alt)
  have "bit (ucast (drop_bit (8 * (b div 8)) v) :: u8) (b mod 8) \<longleftrightarrow> bit v b"
    by (simp add: bit_ucast_iff bit_drop_bit_eq)
  with b u show "bit (read64 (write64 a v m) a) b \<longleftrightarrow> bit v b"
    by (simp add: read64_def bit_read_le write64_def)
qed

definition aligned8 :: "u64 \<Rightarrow> bool" where
  "aligned8 a \<longleftrightarrow> unat a mod 8 = 0"

lemma aligned8_add: "aligned8 a \<Longrightarrow> i < 8 \<Longrightarrow> unat (a + of_nat i) = unat a + i"
proof -
  assume a: "aligned8 a" "i < 8"
  then obtain q where q: "unat a = 8 * q" by (auto simp: aligned8_def)
  moreover from q unat_u64_bound [of a] have "8 * q + i < 2 ^ 64" using a(2) by simp
  ultimately show ?thesis
    using a(2) by (subst unat_add_lem [THEN iffD1]) (simp_all add: unat_of_nat64)
qed

lemma aligned8_apart:
  assumes "aligned8 a" "aligned8 b" "a \<noteq> b" "i < 8"
  shows "\<not> b + of_nat i - a < 8"
proof
  assume "b + of_nat i - a < 8"
  then obtain j where j: "j < 8" "b + of_nat i - a = of_nat j"
    using that [of "unat (b + of_nat i - a)"] by (simp add: word_less_nat_alt)
  then have "b + of_nat i = a + of_nat j" by (simp add: algebra_simps)
  then have "unat b + i = unat a + j" using assms j(1) aligned8_add by metis
  moreover obtain x y where "unat a = 8 * x" "unat b = 8 * y"
    using assms(1,2) by (auto simp: aligned8_def elim!: dvdE)
  ultimately have "unat b = unat a" using assms(4) j(1) by presburger
  with assms(3) show False by (metis word_unat_eq_iff)
qed

lemma read64_write64_other [simp]:
  assumes "aligned8 a" "aligned8 b" "a \<noteq> b"
  shows "read64 (write64 a v m) b = read64 m b"
proof (rule bit_word_eqI)
  fix k :: nat
  assume "k < LENGTH(64)"
  then have "k div 8 < 8" by simp
  from aligned8_apart [OF assms this]
  show "bit (read64 (write64 a v m) b) k \<longleftrightarrow> bit (read64 m b) k"
    by (simp add: read64_def bit_read_le write64_def)
qed

section \<open>Copying and filling\<close>

lemma offset_eq: "i < 2 ^ 64 \<Longrightarrow> j < 2 ^ 64 \<Longrightarrow> (a :: u64) + of_nat i = a + of_nat j \<longleftrightarrow> i = j"
proof -
  assume *: "i < 2 ^ 64" "j < 2 ^ 64"
  have "(of_nat i :: u64) = of_nat j \<longleftrightarrow> i = j"
    using * unat_of_nat64 [of i] unat_of_nat64 [of j] by metis
  then show ?thesis by simp
qed

text \<open>
  A copy loop, in either direction, moves the old contents when no source byte is
  overwritten before it is read.
\<close>

lemma copy_loop:
  assumes "distinct is" and "\<forall>i \<in> set is. i < 2 ^ 64"
    and "\<And>xs i ys j. is = xs @ i # ys \<Longrightarrow> j \<in> set xs \<Longrightarrow> s + of_nat i \<noteq> d + of_nat j"
  shows "fold (copy_byte d s) is m =
    (\<lambda>x. if \<exists>i \<in> set is. x = d + of_nat i then m (s + (x - d)) else m x)"
  using assms
proof (induction "is" rule: rev_induct)
  case Nil
  then show ?case by simp
next
  case (snoc k ks)
  have IH: "fold (copy_byte d s) ks m =
    (\<lambda>x. if \<exists>i \<in> set ks. x = d + of_nat i then m (s + (x - d)) else m x)"
    using snoc.prems(1,2) snoc.prems(3) [of _ _ "_ @ [k]"] by (intro snoc.IH) auto
  have "\<And>j. j \<in> set ks \<Longrightarrow> s + of_nat k \<noteq> d + of_nat j"
    using snoc.prems(3) [of ks k "[]"] by simp
  then have new: "fold (copy_byte d s) ks m (s + of_nat k) = m (s + of_nat k)" by (auto simp: IH)
  have "fold (copy_byte d s) (ks @ [k]) m =
    (fold (copy_byte d s) ks m)(d + of_nat k := fold (copy_byte d s) ks m (s + of_nat k))"
    by (simp add: copy_byte_def)
  then show ?case unfolding new by (auto simp: IH fun_eq_iff)
qed

lemma offsets_iff:
  assumes "n \<le> 2 ^ 64" shows "(\<exists>i \<in> set [0..<n]. x = d + of_nat i) \<longleftrightarrow> unat (x - (d :: u64)) < n"
proof
  assume "\<exists>i \<in> set [0..<n]. x = d + of_nat i"
  with assms show "unat (x - d) < n" by (auto simp: unat_of_nat64)
next
  assume "unat (x - d) < n"
  then show "\<exists>i \<in> set [0..<n]. x = d + of_nat i"
    by (intro bexI [of _ "unat (x - d)"]) simp_all
qed

text \<open>The effect of a correct copy: the old bytes of the source, shifted to the target.\<close>

definition copied :: "u64 \<Rightarrow> u64 \<Rightarrow> u64 \<Rightarrow> mem \<Rightarrow> mem" where
  "copied d s n m = (\<lambda>x. if unat (x - d) < unat n then m (s + (x - d)) else m x)"

lemma split_upt:
  assumes "[0..<n] = xs @ i # ys" "j \<in> set xs" shows "j < i"
proof -
  have "sorted_wrt (<) (xs @ i # ys)" using sorted_wrt_upt [of 0 n] assms(1) by simp
  with assms(2) show ?thesis by (simp add: sorted_wrt_append)
qed

lemma split_rev_upt:
  assumes "rev [0..<n] = xs @ i # ys" "j \<in> set xs" shows "i < j"
proof -
  have "[0..<n] = rev ys @ i # rev xs" using assms(1) by (simp add: rev_swap)
  then have "sorted_wrt (<) (rev ys @ i # rev xs)" using sorted_wrt_upt [of 0 n] by simp
  with assms(2) show ?thesis by (simp add: sorted_wrt_append)
qed

text \<open>A region that does not wrap around the end of the address space.\<close>

definition no_wrap :: "u64 \<Rightarrow> u64 \<Rightarrow> bool" where
  "no_wrap a n \<longleftrightarrow> unat a + unat n \<le> 2 ^ 64"

lemma no_wrap_add: "no_wrap a n \<Longrightarrow> i < unat n \<Longrightarrow> unat (a + of_nat i) = unat a + i"
  using unat_u64_bound [of n]
  by (subst unat_add_lem [THEN iffD1]) (simp_all add: unat_of_nat64 no_wrap_def)

lemma no_wrap_collide:
  assumes "no_wrap s n" "no_wrap d n" "i < unat n" "j < unat n" "s + of_nat i = d + of_nat j"
  shows "unat s + i = unat d + j"
  using assms no_wrap_add by metis

lemma copy_up:
  assumes "no_wrap s n" "no_wrap d n" "d \<le> s \<or> unat s + unat n \<le> unat d"
  shows "fold (copy_byte d s) [0..<unat n] m = copied d s n m"
proof -
  have "fold (copy_byte d s) [0..<unat n] m =
    (\<lambda>x. if \<exists>i \<in> set [0..<unat n]. x = d + of_nat i then m (s + (x - d)) else m x)"
  proof (rule copy_loop)
    fix xs i ys j
    assume *: "[0..<unat n] = xs @ i # ys" "j \<in> set xs"
    then have "j < i" "i \<in> set [0..<unat n]" using split_upt by (blast, simp)
    then show "s + of_nat i \<noteq> d + of_nat j"
      using no_wrap_collide [OF assms(1,2), of i j] assms(3) by (auto simp: word_le_nat_alt)
  qed (use unat_u64_bound [of n] in auto)
  then show ?thesis
    using offsets_iff [of "unat n" _ d] unat_u64_bound [of n] by (simp add: copied_def less_imp_le)
qed

lemma copy_down:
  assumes "no_wrap s n" "no_wrap d n" "s \<le> d"
  shows "fold (copy_byte d s) (rev [0..<unat n]) m = copied d s n m"
proof -
  have "fold (copy_byte d s) (rev [0..<unat n]) m =
    (\<lambda>x. if \<exists>i \<in> set (rev [0..<unat n]). x = d + of_nat i then m (s + (x - d)) else m x)"
  proof (rule copy_loop)
    fix xs i ys j
    assume *: "rev [0..<unat n] = xs @ i # ys" "j \<in> set xs"
    then have "i < j" using split_rev_upt by blast
    moreover have "set (rev [0..<unat n]) = set (xs @ i # ys)" using *(1) by (simp only:)
    with *(2) have "i < unat n" "j < unat n" by auto
    ultimately show "s + of_nat i \<noteq> d + of_nat j"
      using no_wrap_collide [OF assms(1,2), of i j] assms(3) by (auto simp: word_le_nat_alt)
  qed (use unat_u64_bound [of n] in auto)
  then show ?thesis
    using offsets_iff [of "unat n" _ d] unat_u64_bound [of n] by (simp add: copied_def less_imp_le)
qed

lemma memset_eq:
  "memset s c n m = (\<lambda>x. if unat (x - s) < unat n then ucast c else m x)"
proof -
  have "fold (\<lambda>i m. m(s + of_nat i := ucast c)) is m =
    (\<lambda>x. if \<exists>i \<in> set is. x = s + of_nat i then ucast c else m x)" for "is" :: "nat list"
    by (induction "is" rule: rev_induct) auto
  then show ?thesis
    using offsets_iff [of "unat n" _ s] unat_u64_bound [of n] by (simp add: memset_def less_imp_le)
qed

lemma memcmp_first_difference:
  assumes "k < unat n" "m (p + of_nat k) \<noteq> m (q + of_nat k)"
    "\<And>i. i < k \<Longrightarrow> m (p + of_nat i) = m (q + of_nat i)"
  shows "memcmp p q n m = (if m (p + of_nat k) < m (q + of_nat k) then - 1 else 1)"
proof -
  have "memcmp_from p q [j..<unat n] m = memcmp_from p q [k..<unat n] m" if "j \<le> k" for j
    using that
  proof (induction rule: inc_induct)
    case (step j)
    then show ?case using assms(1) assms(3) [of j] by (subst upt_conv_Cons) simp_all
  qed simp
  from this [of 0] have "memcmp p q n m = memcmp_from p q [k..<unat n] m" by (simp add: memcmp_def)
  also have "\<dots> = (if m (p + of_nat k) < m (q + of_nat k) then - 1 else 1)"
    using assms(1,2) by (subst upt_conv_Cons) simp_all
  finally show ?thesis .
qed

lemma memcmp_equal:
  assumes "\<And>i. i < unat n \<Longrightarrow> m (p + of_nat i) = m (q + of_nat i)"
  shows "memcmp p q n m = 0"
proof -
  have "memcmp_from p q is m = 0" if "\<And>i. i \<in> set is \<Longrightarrow> i < unat n" for "is"
    using that assms by (induction "is") auto
  from this [of "[0..<unat n]"] show ?thesis by (simp add: memcmp_def)
qed

section \<open>Properties\<close>

text \<open>
  \<open>memmove\<close> is correct for every overlap: for two regions that do not wrap around the
  address space, the target holds the old bytes of the source and nothing else changes;
  \<open>memcpy\<close> has the same effect exactly as long as the target does not start inside the
  source.
\<close>

theorem memmove_overlap:
  assumes "no_wrap src n" and "no_wrap dest n"
  shows "memmove dest src n m = copied dest src n m \<and>
     (dest \<le> src \<or> unat src + unat n \<le> unat dest \<longrightarrow> memcpy dest src n m = copied dest src n m)"
proof -
  consider "dest < src" | "src < dest" | "src = dest" by fastforce
  then have "memmove dest src n m = copied dest src n m"
    by cases (use assms copy_up copy_down in \<open>auto simp: memmove_def copied_def less_imp_le\<close>)
  with assms copy_up show ?thesis by (simp add: memcpy_def)
qed

theorem memmove_overlap_witness:
  "memmove 2 0 4 (\<lambda>x. ucast x) 5 = 3 \<and> memcpy 0 2 4 (\<lambda>x. ucast x) 3 = 5 \<and>
   memcpy 2 0 4 (\<lambda>x. ucast x) 5 = 1"
proof -
  have "[0..<unat (4 :: u64)] = [0, 1, 2, 3]" by (simp add: upt_conv_Cons)
  then have "memcpy 2 0 4 (\<lambda>x. ucast x) 5 = 1"
    by (simp add: memcpy_def copy_byte_def)
  then show ?thesis
    using memmove_overlap [of 0 4 2 "\<lambda>x. ucast x"] memmove_overlap [of 2 4 0 "\<lambda>x. ucast x"]
    by (simp add: no_wrap_def copied_def)
qed

text \<open>
  \<open>memcmp\<close> compares lexicographically as unsigned bytes: it answers 0 for equal regions,
  and otherwise -1 or 1 by the first differing byte.
\<close>

theorem memcmp_lexicographic:
  "(memcmp p q n m = 0 \<longleftrightarrow> (\<forall>i<unat n. m (p + of_nat i) = m (q + of_nat i))) \<and>
   (memcmp p q n m = - 1 \<longleftrightarrow> (\<exists>k<unat n. m (p + of_nat k) < m (q + of_nat k) \<and>
      (\<forall>i<k. m (p + of_nat i) = m (q + of_nat i))))"
proof (cases "\<exists>k<unat n. m (p + of_nat k) \<noteq> m (q + of_nat k)")
  case True
  then obtain k where k: "k < unat n" "m (p + of_nat k) \<noteq> m (q + of_nat k)"
    "\<And>i. i < k \<Longrightarrow> m (p + of_nat i) = m (q + of_nat i)"
    by (subst (asm) exists_least_iff) (auto dest: order.strict_trans)
  have "j = k" if "m (p + of_nat j) < m (q + of_nat j)"
    "\<forall>i<j. m (p + of_nat i) = m (q + of_nat i)" for j
    using that k(2) k(3) [of j] by (metis linorder_neqE_nat order_less_irrefl)
  then have "(\<exists>j<unat n. m (p + of_nat j) < m (q + of_nat j) \<and>
      (\<forall>i<j. m (p + of_nat i) = m (q + of_nat i))) \<longleftrightarrow> m (p + of_nat k) < m (q + of_nat k)"
    using k(1,3) by blast
  moreover have "\<not> (\<forall>i<unat n. m (p + of_nat i) = m (q + of_nat i))" using k(1,2) by blast
  ultimately show ?thesis using memcmp_first_difference [OF k] by simp
next
  case False
  then have "memcmp p q n m = 0" by (intro memcmp_equal) blast
  with False show ?thesis by force
qed

theorem memcmp_lexicographic_witness:
  "memcmp 0 4 4 (\<lambda>x. if x = 6 then 9 else 7) = - 1"
proof -
  let ?m = "\<lambda>x :: u64. if x = 6 then 9 else (7 :: u8)"
  have four: "i < 4 \<longleftrightarrow> i = 0 \<or> i = 1 \<or> i = 2 \<or> i = 3" for i :: nat by auto
  have "2 < unat (4 :: u64)" "?m (0 + of_nat 2) < ?m (4 + of_nat 2)" by simp_all
  moreover have "?m (0 + of_nat i) = ?m (4 + of_nat i)" if "i < 2" for i
    using that by (auto simp: less_2_cases_iff)
  ultimately have "\<exists>k<unat (4 :: u64). ?m (0 + of_nat k) < ?m (4 + of_nat k) \<and>
      (\<forall>i<k. ?m (0 + of_nat i) = ?m (4 + of_nat i))" by blast
  then show ?thesis using memcmp_lexicographic [of 0 4 4 ?m] by blast
qed

end
