(* ===== verification/Vmm.thy ===== *)
theory Vmm
  imports Pmm Memory
begin

text \<open>
  mm/vmm.c: four-level page tables in memory.  The state is the memory, the page allocator,
  the addresses flushed from the TLB (newest first) and \<open>cr3\<close>.

  Every access of this code goes through the address translation in force while it runs,
  the boot loader's: the parameter \<open>tr\<close> maps a virtual address to the physical one.
  A new table is not cleared: it starts with the words its frame held.
\<close>

section \<open>State and operations\<close>

record vm =
  vmem :: mem
  vpmm :: pmm
  flushed :: "u64 list"
  cr3 :: u64

definition PTE_PRESENT :: s32 where "PTE_PRESENT = 0x01"
definition PTE_READ_WRITE :: s32 where "PTE_READ_WRITE = 0x02"
definition GIGABYTE :: u64 where "GIGABYTE = 0x40000000"
definition INDEX_MASK :: u64 where "INDEX_MASK = 511"

definition load :: "(u64 \<Rightarrow> u64) \<Rightarrow> u64 \<Rightarrow> vm \<Rightarrow> u64" where
  "load tr a st = read64 (vmem st) (tr a)"

definition store :: "(u64 \<Rightarrow> u64) \<Rightarrow> u64 \<Rightarrow> u64 \<Rightarrow> vm \<Rightarrow> vm" where
  "store tr a v st = st\<lparr>vmem := write64 (tr a) v (vmem st)\<rparr>"

definition vmm_get_next_map_level ::
  "(u64 \<Rightarrow> u64) \<Rightarrow> u64 \<Rightarrow> u64 \<Rightarrow> s32 \<Rightarrow> vm \<Rightarrow> (u64 \<times> vm) option" where
  "vmm_get_next_map_level tr page_directory index flags st =
     (let slot = page_directory + 8 * index in
      if load tr slot st AND 1 \<noteq> 0 then Some (load tr slot st AND NOT INDEX_MASK, st)
      else
        map_option
          (\<lambda>(p, pm).
             let st' = store tr slot (p OR scast flags) (st\<lparr>vpmm := pm\<rparr>)
             in (load tr slot st' AND NOT INDEX_MASK, st'))
          (pmm_alloc PAGE_SIZE (vpmm st)))"

definition vmm_flush_tlb :: "u64 \<Rightarrow> vm \<Rightarrow> vm" where
  "vmm_flush_tlb address st = st\<lparr>flushed := address # flushed st\<rparr>"

definition table_index :: "nat \<Rightarrow> u64 \<Rightarrow> u64" where
  "table_index shift virt_addr = drop_bit shift (virt_addr AND push_bit shift INDEX_MASK)"

text \<open>The three lookups both operations start with: from the root to the lowest table.\<close>

definition lowest_table ::
  "(u64 \<Rightarrow> u64) \<Rightarrow> u64 \<Rightarrow> u64 \<Rightarrow> s32 \<Rightarrow> vm \<Rightarrow> (u64 \<times> vm) option" where
  "lowest_table tr root virt_addr flags st =
     Option.bind (vmm_get_next_map_level tr root (table_index 39 virt_addr) flags st) (\<lambda>(level_3, st).
     Option.bind (vmm_get_next_map_level tr level_3 (table_index 30 virt_addr) flags st) (\<lambda>(level_2, st).
       vmm_get_next_map_level tr level_2 (table_index 21 virt_addr) flags st))"

definition vmm_map_page :: "(u64 \<Rightarrow> u64) \<Rightarrow> u64 \<Rightarrow> u64 \<Rightarrow> u64 \<Rightarrow> s32 \<Rightarrow> vm \<Rightarrow> vm option" where
  "vmm_map_page tr root phys_addr virt_addr flags st =
     map_option
       (\<lambda>(level_1, st). vmm_flush_tlb virt_addr
          (store tr (level_1 + 8 * table_index 12 virt_addr) (phys_addr OR scast flags) st))
       (lowest_table tr root virt_addr flags st)"

definition vmm_unmap_page :: "(u64 \<Rightarrow> u64) \<Rightarrow> u64 \<Rightarrow> u64 \<Rightarrow> vm \<Rightarrow> vm option" where
  "vmm_unmap_page tr root virt_addr st =
     map_option
       (\<lambda>(level_1, st). vmm_flush_tlb virt_addr
          (store tr (level_1 + 8 * table_index 12 virt_addr) 0 st))
       (lowest_table tr root virt_addr 0 st)"

text \<open>\<open>memset\<close> goes byte by byte through the translation.\<close>

definition vmm_new_page_dir :: "(u64 \<Rightarrow> u64) \<Rightarrow> vm \<Rightarrow> (u64 \<times> vm) option" where
  "vmm_new_page_dir tr st =
     map_option
       (\<lambda>(p, pm). let new_page_dir = phys_to_hh p in
          (new_page_dir,
           st\<lparr>vpmm := pm,
              vmem := fold (\<lambda>i m. m(tr (hh_to_phys new_page_dir + of_nat i) := 0))
                        [0..<unat PAGE_SIZE] (vmem st)\<rparr>))
       (pmm_alloc PAGE_SIZE (vpmm st))"

definition vmm_activate_page_directory :: "u64 \<Rightarrow> vm \<Rightarrow> vm" where
  "vmm_activate_page_directory current_page_directory st =
     st\<lparr>cr3 := hh_to_phys current_page_directory\<rparr>"

text \<open>One of the three loops: 4 GiB from \<open>phys_base\<close> at \<open>virt_base\<close>, page by page.\<close>

definition map_4gb :: "(u64 \<Rightarrow> u64) \<Rightarrow> u64 \<Rightarrow> u64 \<Rightarrow> u64 \<Rightarrow> vm \<Rightarrow> vm option" where
  "map_4gb tr root phys_base virt_base =
     for_range (\<lambda>k. let i = of_nat k * PAGE_SIZE in
         vmm_map_page tr root (phys_base + i) (virt_base + i) (PTE_PRESENT OR PTE_READ_WRITE))
       0 (unat (4 * GIGABYTE div PAGE_SIZE))"

definition vmm_init :: "(u64 \<Rightarrow> u64) \<Rightarrow> u64 \<Rightarrow> vm \<Rightarrow> (u64 \<times> vm) option" where
  "vmm_init tr physical_base st =
     Option.bind (vmm_new_page_dir tr st) (\<lambda>(root, st).
     Option.bind (map_4gb tr root 0 0 st) (\<lambda>st.
     Option.bind (map_4gb tr root 0 KERNEL_VIRT_BASE_ADDR st) (\<lambda>st.
     Option.bind (map_4gb tr root physical_base KERNEL_VIRT_TOP_ADDR st) (\<lambda>st.
       Some (root, vmm_activate_page_directory root st)))))"

text \<open>klibc/alloc.c: \<open>mmap\<close>, whose loop counts pages in steps of \<open>PAGE_SIZE\<close>.\<close>

definition mmap_pages :: "u64 \<Rightarrow> nat list" where
  "mmap_pages pages = map (\<lambda>k. k * unat PAGE_SIZE)
     [0..<(unat pages + unat PAGE_SIZE - 1) div unat PAGE_SIZE]"

definition mmap :: "(u64 \<Rightarrow> u64) \<Rightarrow> u64 \<Rightarrow> u64 \<Rightarrow> u64 \<Rightarrow> s32 \<Rightarrow> vm \<Rightarrow> (u64 \<times> vm) option" where
  "mmap tr root addr sz flags st =
     (let sz = (if sz mod PAGE_SIZE \<noteq> 0 then align_up sz else sz) in
      Option.bind (pmm_alloc sz (vpmm st)) (\<lambda>(ptr, pm).
      map_option (Pair addr)
        (fold (\<lambda>i r. Option.bind r
            (vmm_map_page tr root (ptr + of_nat i) (addr + of_nat i) flags))
          (mmap_pages (sz div PAGE_SIZE)) (Some (st\<lparr>vpmm := pm\<rparr>)))))"

section \<open>The hardware's view\<close>

text \<open>
  The page walk of the processor for 4 KiB pages: bit 0 of an entry is Present, bit 7 in the
  upper levels a large page (which this code never builds; the walk refuses it).
\<close>

definition PTE_ADDR :: u64 where "PTE_ADDR = 0x000ffffffffff000"

definition hw_next :: "mem \<Rightarrow> u64 \<Rightarrow> nat \<Rightarrow> u64 \<Rightarrow> u64 option" where
  "hw_next m t shift va =
     (let e = read64 m (t + 8 * table_index shift va)
      in if bit e 0 \<and> \<not> bit e 7 then Some (e AND PTE_ADDR) else None)"

definition walk :: "mem \<Rightarrow> u64 \<Rightarrow> u64 \<Rightarrow> u64 option" where
  "walk m root va =
     Option.bind (hw_next m root 39 va) (\<lambda>t3.
     Option.bind (hw_next m t3 30 va) (\<lambda>t2.
     Option.bind (hw_next m t2 21 va) (\<lambda>t1.
       let e = read64 m (t1 + 8 * table_index 12 va)
       in if bit e 0 then Some ((e AND PTE_ADDR) OR (va AND 0xfff)) else None)))"

section \<open>Words and frames\<close>

definition ix :: "nat \<Rightarrow> u64 \<Rightarrow> nat" where
  "ix shift va = unat va div 2 ^ shift mod 512"

definition addr :: "nat \<Rightarrow> u64" where "addr f = of_nat (4096 * f)"
definition slot :: "nat \<Rightarrow> nat \<Rightarrow> u64" where "slot f i = addr f + 8 * of_nat i"
definition entry :: "mem \<Rightarrow> nat \<Rightarrow> nat \<Rightarrow> u64" where "entry m f i = read64 m (slot f i)"

lemma mask511: "(511 :: u64) = mask 9"
  by (simp add: mask_eq_exp_minus_1)

lemma table_index_ix: "shift \<le> 39 \<Longrightarrow> table_index shift va = of_nat (ix shift va)"
proof -
  assume s: "shift \<le> 39"
  have "table_index shift va = take_bit 9 (drop_bit shift va)"
    unfolding table_index_def INDEX_MASK_def mask511
    by (rule bit_word_eqI) (use s in \<open>auto simp: bit_drop_bit_eq bit_and_iff bit_push_bit_iff
        bit_mask_iff bit_take_bit_iff dest: bit_imp_le_length\<close>)
  moreover have "unat (take_bit 9 w) = unat w mod 512" for w :: u64
    by (simp add: take_bit_eq_mod unat_mod_distrib)
  moreover have "unat (drop_bit shift va) = unat va div 2 ^ shift"
    unfolding unat_drop_bit_eq by (rule drop_bit_eq_div)
  ultimately have "unat (table_index shift va) = ix shift va" by (simp only: ix_def)
  moreover have "of_nat (unat (table_index shift va)) = table_index shift va" by simp
  ultimately show ?thesis by (simp only:)
qed

lemma ix_less [simp]: "ix shift va < 512"
  by (simp add: ix_def)

lemma unat_addr: "f < 2 ^ 31 \<Longrightarrow> unat (addr f) = 4096 * f"
  unfolding addr_def by (intro unat_of_nat64) simp

lemma unat_slot: "f < 2 ^ 31 \<Longrightarrow> i < 512 \<Longrightarrow> unat (slot f i) = 4096 * f + 8 * i"
proof -
  assume *: "f < 2 ^ 31" "i < 512"
  have "slot f i = of_nat (4096 * f + 8 * i)" by (simp add: slot_def addr_def)
  also have "unat (of_nat (4096 * f + 8 * i) :: u64) = 4096 * f + 8 * i"
    using * by (intro unat_of_nat64) simp
  finally show ?thesis .
qed

lemma slot_inj:
  assumes "f < 2 ^ 31" "g < 2 ^ 31" "i < 512" "j < 512"
  shows "slot f i = slot g j \<longleftrightarrow> f = g \<and> i = j"
proof
  assume "slot f i = slot g j"
  then have eq: "512 * f + i = 512 * g + j" using assms unat_slot [of f i] unat_slot [of g j] by simp
  have "f = (512 * f + i) div 512" "i = (512 * f + i) mod 512" using assms(3) by simp_all
  moreover have "g = (512 * g + j) div 512" "j = (512 * g + j) mod 512" using assms(4) by simp_all
  ultimately show "f = g \<and> i = j" unfolding eq by simp
qed simp

lemma aligned8_slot: "f < 2 ^ 31 \<Longrightarrow> i < 512 \<Longrightarrow> aligned8 (slot f i)"
  by (simp add: aligned8_def unat_slot)

lemma entry_write:
  assumes "f < 2 ^ 31" "g < 2 ^ 31" "i < 512" "j < 512"
  shows "entry (write64 (slot f i) v m) g j = (if g = f \<and> j = i then v else entry m g j)"
  using assms slot_inj [of f g i j] aligned8_slot by (auto simp: entry_def)

lemma bit_addr: "f < 2 ^ 31 \<Longrightarrow> bit (addr f) b \<Longrightarrow> 12 \<le> b \<and> b < 43"
proof -
  assume f: "f < 2 ^ 31" and b: "bit (addr f) b"
  have u: "unat (addr f) = push_bit 12 f" using f by (simp add: unat_addr push_bit_eq_mult)
  have "bit (unat (addr f)) b" using b by (simp add: bit_unsigned_iff)
  then have b12: "12 \<le> b" "bit f (b - 12)" by (simp_all add: u bit_push_bit_iff)
  have "take_bit 31 f = f" using f by (simp add: take_bit_nat_eq_self)
  then have "b - 12 < 31" using b12(2) by (metis bit_take_bit_iff)
  with b12 show ?thesis by simp
qed

text \<open>What a link to a table looks like: the address of its frame and low flag bits.\<close>

definition link_flags :: "u64 \<Rightarrow> bool" where
  "link_flags fl \<longleftrightarrow> bit fl 0 \<and> \<not> bit fl 7 \<and> (\<forall>b. bit fl b \<longrightarrow> b < 9)"

lemma link_bits:
  assumes "f < 2 ^ 31" "link_flags fl"
  shows "(addr f OR fl) AND NOT INDEX_MASK = addr f" "bit (addr f OR fl) 0" "\<not> bit (addr f OR fl) 7"
proof -
  show "(addr f OR fl) AND NOT INDEX_MASK = addr f"
    unfolding INDEX_MASK_def mask511
    by (rule bit_word_eqI)
       (use assms in \<open>auto simp: link_flags_def bit_and_iff bit_or_iff bit_not_iff bit_mask_iff
          dest: bit_addr [OF assms(1)]\<close>)
  show "bit (addr f OR fl) 0" "\<not> bit (addr f OR fl) 7"
    using assms bit_addr [of f 7] by (auto simp: link_flags_def bit_or_iff)
qed

lemma link_addr:
  assumes "f < 2 ^ 31" "e AND NOT INDEX_MASK = addr f"
  shows "e AND PTE_ADDR = addr f"
proof -
  have "PTE_ADDR = mask 52 AND NOT (mask 12)" by (simp add: PTE_ADDR_def mask_eq_exp_minus_1)
  then have pte: "bit PTE_ADDR b \<longleftrightarrow> 12 \<le> b \<and> b < 52" for b
    unfolding \<open>PTE_ADDR = _\<close> by (auto simp: bit_and_iff bit_not_iff bit_mask_iff)
  have low: "bit e b \<and> \<not> b < 9 \<longleftrightarrow> bit (addr f) b" if "b < 64" for b
    using arg_cong [OF assms(2), of "\<lambda>w. bit w b"] that
    by (simp add: INDEX_MASK_def mask511 bit_and_iff bit_not_iff bit_mask_iff)
  show ?thesis
  proof (intro bit_word_eqI)
    fix n :: nat
    assume "n < LENGTH(64)"
    then have "bit e n \<and> \<not> n < 9 \<longleftrightarrow> bit (addr f) n" using low by simp
    then show "bit (e AND PTE_ADDR) n \<longleftrightarrow> bit (addr f) n"
      using bit_addr [OF assms(1), of n] by (auto simp: bit_and_iff pte)
  qed
qed

lemma and_one: "(e :: u64) AND 1 \<noteq> 0 \<longleftrightarrow> bit e 0"
  by (simp add: and_one_eq bit_0 odd_iff_mod_2_eq_one)

section \<open>The tree of tables\<close>

text \<open>
  \<open>tbl\<close> gives the frame of the table at a path of indices: \<open>[]\<close> is the root, a path of
  length 3 a lowest table.  All tables lie in different frames that the page allocator
  counts as used, and the upper three levels link exactly to the tables of \<open>tbl\<close>.  What the free frames
  hold is not part of it.
\<close>

fun linked :: "u64 \<Rightarrow> nat option \<Rightarrow> bool" where
  "linked e None \<longleftrightarrow> \<not> bit e 0"
| "linked e (Some g) \<longleftrightarrow> e AND NOT INDEX_MASK = addr g \<and> bit e 0 \<and> \<not> bit e 7"

definition tables_ok :: "(nat list \<Rightarrow> nat option) \<Rightarrow> vm \<Rightarrow> bool" where
  "tables_ok tbl st \<longleftrightarrow>
     pmm_wf (vpmm st) \<and> tbl [] \<noteq> None \<and>
     (\<forall>p q f. tbl p = Some f \<longrightarrow> tbl q = Some f \<longrightarrow> p = q) \<and>
     (\<forall>p f. tbl p = Some f \<longrightarrow> busy_frame (vpmm st) f) \<and>
     (\<forall>p i. tbl p = None \<longrightarrow> tbl (p @ [i]) = None) \<and>
     (\<forall>p f i. tbl p = Some f \<longrightarrow> length p < 3 \<longrightarrow> i < 512 \<longrightarrow>
        linked (entry (vmem st) f i) (tbl (p @ [i])))"

lemma tables_okD:
  assumes "tables_ok tbl st"
  shows "pmm_wf (vpmm st)" and "tbl [] \<noteq> None"
    and "tbl p = Some f \<Longrightarrow> tbl q = Some f \<Longrightarrow> p = q"
    and "tbl p = Some f \<Longrightarrow> busy_frame (vpmm st) f"
    and "tbl p = None \<Longrightarrow> tbl (p @ [i]) = None"
    and "tbl p = Some f \<Longrightarrow> length p < 3 \<Longrightarrow> i < 512 \<Longrightarrow>
      linked (entry (vmem st) f i) (tbl (p @ [i]))"
  using assms unfolding tables_ok_def by blast+

lemma table_frame:
  assumes "tables_ok tbl st" "tbl p = Some f" shows "f < frames (vpmm st)" "f < 2 ^ 31"
  using used_capacity [OF tables_okD(4) [OF assms]] tables_okD(1) [OF assms(1)]
  by (simp_all add: pmm_wf_def)

text \<open>The lowest-level entries, a missing table counting as empty.\<close>

definition leaf :: "(nat list \<Rightarrow> nat option) \<Rightarrow> mem \<Rightarrow> nat list \<Rightarrow> nat \<Rightarrow> u64" where
  "leaf tbl m p i = (case tbl p of None \<Rightarrow> 0 | Some f \<Rightarrow> entry m f i)"

text \<open>Counted pages, and free frames below \<open>B\<close>, for \<open>n\<close> more tables; one page takes up to two
  frames, because of the shared bits.\<close>

definition free_below :: "nat \<Rightarrow> pmm \<Rightarrow> nat set" where
  "free_below B pm = {j. j < B \<and> j < frames pm \<and> \<not> busy_frame pm j}"

definition room :: "nat \<Rightarrow> pmm \<Rightarrow> nat \<Rightarrow> bool" where
  "room B pm n \<longleftrightarrow> n \<le> unat (available_pages (info pm)) \<and> 2 * n \<le> card (free_below B pm)"

text \<open>The free frames below \<open>B\<close> hold zeros: what the code relies on for the tables it makes, since it clears none
  but the root.  \<open>pmm_alloc\<close> takes the lowest frame, so those above \<open>B\<close> do not matter.\<close>

definition zero_below :: "nat \<Rightarrow> vm \<Rightarrow> bool" where
  "zero_below B st \<longleftrightarrow> (\<forall>f \<in> free_below B (vpmm st). \<forall>i < 512. entry (vmem st) f i = 0)"

lemma zero_belowD: "zero_below B st \<Longrightarrow> f \<in> free_below B (vpmm st) \<Longrightarrow> i < 512 \<Longrightarrow> entry (vmem st) f i = 0"
  by (simp add: zero_below_def)

lemma aliased_two: "{j. aliased r j} \<subseteq> {64 * (r div 64) + r mod 32, 64 * (r div 64) + r mod 32 + 32}"
proof (rule subsetI)
  fix j
  assume "j \<in> {j. aliased r j}"
  then have j: "j div 64 = r div 64" "j mod 32 = r mod 32" by (simp_all add: aliased_def)
  have "j = 64 * (r div 64) + j mod 64" unfolding j(1) [symmetric] by simp
  moreover have "j mod 64 = 32 * (j mod 64 div 32) + r mod 32"
    using mult_div_mod_eq [of 32 "j mod 64"] j(2) by (simp add: mod_mod_cancel)
  moreover have "j mod 64 div 32 = 0 \<or> j mod 64 div 32 = 1"
    using less_mult_imp_div_less [of "j mod 64" 2 32] by (auto simp: less_2_cases_iff)
  ultimately have "j = 64 * (r div 64) + r mod 32 \<or> j = 64 * (r div 64) + (r mod 32 + 32)"
    by (elim disjE) simp_all
  then show "j \<in> {64 * (r div 64) + r mod 32, 64 * (r div 64) + r mod 32 + 32}"
    by (simp add: add.assoc)
qed

lemma card_aliased: "finite {j. aliased r j}" "card {j. aliased r j} \<le> 2"
proof -
  have "card {64 * (r div 64) + r mod 32, 64 * (r div 64) + r mod 32 + 32} \<le> 2"
    by (simp add: card_insert_if)
  then show "card {j. aliased r j} \<le> 2"
    using card_mono [OF _ aliased_two [of r]] by simp
qed (rule finite_subset [OF aliased_two], simp)

lemma room_free: "room B pm (Suc n) \<Longrightarrow> \<exists>j. j \<in> free_below B pm"
  by (rule ccontr) (auto simp: room_def)

lemma free_below_take:
  assumes "take_run pm 1 r pm'"
  shows "free_below B pm' = free_below B pm - {j. aliased r j}"
proof -
  have "(\<exists>i. r \<le> i \<and> i < r + 1 \<and> aliased i j) \<longleftrightarrow> aliased r j" for j
    by (metis Suc_eq_plus1 le_antisym less_Suc_eq_le order_refl)
  then show ?thesis using assms unfolding take_run_def free_below_def by auto
qed

lemma room_take:
  assumes "room B pm (Suc n)" "take_run pm 1 r pm'" shows "room B pm' n"
proof -
  have "card (free_below B pm) - card {j. aliased r j} \<le> card (free_below B pm')"
    unfolding free_below_take [OF assms(2)] by (rule diff_card_le_card_Diff [OF card_aliased(1)])
  moreover have "2 * Suc n \<le> card (free_below B pm)" using assms(1) by (simp add: room_def)
  ultimately have "2 * n \<le> card (free_below B pm')" using card_aliased(2) [of r] by simp
  moreover have "Suc n \<le> unat (available_pages (info pm))" using assms(1) by (simp add: room_def)
  then have "unat (available_pages (info pm) - 1) = unat (available_pages (info pm)) - 1"
    by (intro unat_minus_one) auto
  then have "n \<le> unat (available_pages (info pm'))"
    using assms(2) \<open>Suc n \<le> _\<close> by (simp add: take_run_def)
  ultimately show ?thesis by (simp add: room_def)
qed

text \<open>A page is the lowest free frame.\<close>

lemma alloc_one:
  assumes "pmm_wf pm" "available_pages (info pm) \<noteq> 0" "j < frames pm" "\<not> busy_frame pm j"
  obtains r pm' where "pmm_alloc PAGE_SIZE pm = Some (addr r, pm')" "first_free_run pm 1 r" "r \<le> j"
    "r < frames pm" "\<not> busy_frame pm r" "take_run pm 1 r pm'" "pmm_wf pm'"
proof -
  have size: "sane_size PAGE_SIZE" "pages_of PAGE_SIZE = 1"
    by (simp_all add: PAGE_SIZE_def)
  have j: "free_run pm 1 j" using assms(3,4) by (simp add: free_run_def)
  then obtain r where r: "first_free_run pm 1 r" using first_free_run_exists by metis
  then have "r \<le> j" using j by (meson first_free_run_def leI)
  moreover obtain pm' where "pmm_alloc PAGE_SIZE pm = Some (addr r, pm')" "take_run pm 1 r pm'" "pmm_wf pm'"
    using pmm_alloc_success [OF assms(1,2) size(1), of r] r size(2) by (auto simp: addr_def)
  ultimately show thesis using r by (intro that) (auto simp: first_free_run_def free_run_def)
qed

lemma alloc_page:
  assumes "pmm_wf pm" "room B pm (Suc n)"
  obtains r pm' where "pmm_alloc PAGE_SIZE pm = Some (addr r, pm')" "r < frames pm"
    "\<not> busy_frame pm r" "r \<in> free_below B pm" "take_run pm 1 r pm'" "pmm_wf pm'" "room B pm' n"
proof -
  obtain j where j: "j \<in> free_below B pm" using room_free [OF assms(2)] by blast
  have av: "available_pages (info pm) \<noteq> 0" using assms(2) by (auto simp: room_def)
  obtain r pm' where r: "pmm_alloc PAGE_SIZE pm = Some (addr r, pm')" "r \<le> j" "r < frames pm"
    "\<not> busy_frame pm r" "take_run pm 1 r pm'" "pmm_wf pm'"
    by (rule alloc_one [OF assms(1) av, of j]) (use j in \<open>auto simp: free_below_def\<close>)
  show thesis
    using r j room_take [OF assms(2) r(5)] by (intro that) (auto simp: free_below_def)
qed

text \<open>A write into a frame in use, and taking a frame, leave the free frames as they were.\<close>

lemma zero_below_write:
  assumes "zero_below B st" "pmm_wf (vpmm st)" "busy_frame (vpmm st) f" "i < 512"
    and "free_below B (vpmm st') \<subseteq> free_below B (vpmm st)" "vmem st' = write64 (slot f i) v (vmem st)"
  shows "zero_below B st'"
  unfolding zero_below_def
proof (intro ballI allI impI)
  fix g j :: nat assume g: "g \<in> free_below B (vpmm st')" "j < 512"
  then have g': "g \<in> free_below B (vpmm st)" using assms(5) by blast
  then have "g < 2 ^ 31" "f < 2 ^ 31" "g \<noteq> f"
    using assms(2,3) used_capacity [OF assms(3)] by (auto simp: free_below_def pmm_wf_def)
  then show "entry (vmem st') g j = 0"
    using entry_write [of f g i j v "vmem st"] assms(1,4,6) g(2) g' by (simp add: zero_below_def)
qed

section \<open>One lookup\<close>

text \<open>
  The direct map the code relies on: the boot loader maps the physical frames the page
  allocator hands out at their own addresses, and again in the higher half.
\<close>

definition direct_map :: "(u64 \<Rightarrow> u64) \<Rightarrow> bool" where
  "direct_map tr \<longleftrightarrow> (\<forall>a. unat a < 2 ^ 43 \<longrightarrow> tr a = a \<and> tr (phys_to_hh a) = a)"

lemma direct_map_slot:
  assumes "direct_map tr" "f < 2 ^ 31" "i < 512"
  shows "tr (slot f i) = slot f i" "tr (phys_to_hh (addr f) + 8 * of_nat i) = slot f i"
proof -
  have "unat (slot f i) < 2 ^ 43" using assms(2,3) by (simp add: unat_slot)
  then have *: "tr (slot f i) = slot f i \<and> tr (phys_to_hh (slot f i)) = slot f i"
    using assms(1) by (simp add: direct_map_def)
  then show "tr (slot f i) = slot f i" by simp
  have "phys_to_hh (slot f i) = phys_to_hh (addr f) + 8 * of_nat i"
    by (simp add: phys_to_hh_def slot_def algebra_simps)
  with * show "tr (phys_to_hh (addr f) + 8 * of_nat i) = slot f i" by simp
qed

lemma linked_nonroot: "linked e (Some g) \<Longrightarrow> bit e 0 \<and> e AND NOT INDEX_MASK = addr g"
  by simp

text \<open>Growing the tree by a fresh table keeps it well formed, if what its frame held does not look like links; a lowest
  table may hold anything.\<close>

lemma tables_ok_grow:
  assumes ok: "tables_ok tbl st" and f: "tbl p = Some f" "length p < 3" "i < 512"
    and none: "tbl (p @ [i]) = None" and fl: "link_flags fl"
    and r: "r < frames (vpmm st)" "\<not> busy_frame (vpmm st) r"
    and pm: "take_run (vpmm st) 1 r pm" "pmm_wf pm"
    and stale: "\<And>j. length p < 2 \<Longrightarrow> j < 512 \<Longrightarrow> \<not> bit (entry (vmem st) r j) 0"
  shows "tables_ok (tbl(p @ [i] \<mapsto> r))
     (st\<lparr>vpmm := pm, vmem := write64 (slot f i) (addr r OR fl) (vmem st)\<rparr>)" (is "tables_ok ?tbl ?st")
proof -
  note D = tables_okD [OF ok]
  have busy: "busy_frame pm j" if "busy_frame (vpmm st) j \<or> j = r" for j
    using that pm(1) aliased_refl [of r] by (auto simp: take_run_def)
  have fr: "frames pm = frames (vpmm st)" using pm(1) by (simp add: take_run_def)
  have r31: "r < 2 ^ 31" using r(1) D(1) by (simp add: pmm_wf_def)
  have f31: "f < 2 ^ 31" by (rule table_frame(2) [OF ok f(1)])
  have "r \<noteq> f" using r(2) D(4) [OF f(1)] by blast
  have entry: "entry (write64 (slot f i) v (vmem st)) g j =
      (if g = f \<and> j = i then v else entry (vmem st) g j)" if "g < 2 ^ 31" "j < 512" for g j v
    using entry_write [OF f31 that(1) f(3) that(2)] .
  have link: "linked (entry (vmem ?st) g j) (?tbl (q @ [j]))"
    if q: "?tbl q = Some g" "length q < 3" "j < 512" for q g j
  proof (cases "q = p @ [i]")
    case True
    then have g: "g = r" using q(1) by simp
    have "tbl (q @ [j]) = None" using D(5) [OF none] True by simp
    moreover have "\<not> bit (entry (vmem st) r j) 0" using stale [OF _ q(3)] q(2) True by simp
    ultimately show ?thesis using entry [OF r31 q(3)] True g \<open>r \<noteq> f\<close> by simp
  next
    case False
    then have q': "tbl q = Some g" using q(1) by (simp split: if_splits)
    note g31 = table_frame(2) [OF ok q']
    show ?thesis
    proof (cases "q = p \<and> j = i")
      case True
      then show ?thesis using q' f(1) entry [OF g31 q(3)] link_bits [OF r31 fl] by simp
    next
      case other: False
      then have "\<not> (g = f \<and> j = i)" using D(3) [OF q'] f(1) by blast
      then show ?thesis using entry [OF g31 q(3)] D(6) [OF q' q(2,3)] other False by auto
    qed
  qed
  show ?thesis
    unfolding tables_ok_def
  proof (intro conjI allI impI, goal_cases)
    case (3 a b g)
    then show ?case using D(3) D(4) r(2) by (auto split: if_splits)
  next
    case (4 a g)
    then show ?case using D(4) busy by (auto split: if_splits)
  next
    case (5 a k)
    then show ?case using D(5) f(1) by (auto split: if_splits)
  next
    case (6 q g j)
    then show ?case by (rule link)
  qed (use D pm in auto)
qed

text \<open>A table that is there is followed; one that is not is made from the frame the allocator gives.\<close>

lemma next_level_present:
  assumes ok: "tables_ok tbl st" and p: "tbl p = Some f" "length p < 3" "i < 512"
    and g: "tbl (p @ [i]) = Some g" and slot: "tr (d + 8 * of_nat i) = slot f i"
  shows "vmm_get_next_map_level tr d (of_nat i) flags st = Some (addr g, st)"
proof -
  have "bit (entry (vmem st) f i) 0" "entry (vmem st) f i AND NOT INDEX_MASK = addr g"
    using tables_okD(6) [OF ok p] g by simp_all
  then show ?thesis
    using and_one by (simp add: vmm_get_next_map_level_def load_def slot entry_def)
qed

lemma next_level_made:
  assumes ok: "tables_ok tbl st" and p: "tbl p = Some f" "length p < 3" "i < 512"
    and none: "tbl (p @ [i]) = None" and fl: "link_flags (scast flags)"
    and slot: "tr (d + 8 * of_nat i) = slot f i"
    and r: "pmm_alloc PAGE_SIZE (vpmm st) = Some (addr r, pm)" "r < frames (vpmm st)"
    "\<not> busy_frame (vpmm st) r" "take_run (vpmm st) 1 r pm" "pmm_wf pm"
    and stale: "\<And>j. length p < 2 \<Longrightarrow> j < 512 \<Longrightarrow> \<not> bit (entry (vmem st) r j) 0"
  defines "st' \<equiv> st\<lparr>vpmm := pm, vmem := write64 (slot f i) (addr r OR scast flags) (vmem st)\<rparr>"
  shows "vmm_get_next_map_level tr d (of_nat i) flags st = Some (addr r, st')"
    and "tables_ok (tbl(p @ [i] \<mapsto> r)) st'"
    and "length q = 3 \<Longrightarrow> j < 512 \<Longrightarrow> leaf (tbl(p @ [i] \<mapsto> r)) (vmem st') q j =
      (if q = p @ [i] then entry (vmem st) r j else leaf tbl (vmem st) q j)"
proof -
  let ?v = "addr r OR scast flags"
  have r31: "r < 2 ^ 31" using r(2) tables_okD(1) [OF ok] by (simp add: pmm_wf_def)
  have f31: "f < 2 ^ 31" by (rule table_frame(2) [OF ok p(1)])
  have rf: "r \<noteq> f" using r(3) tables_okD(4) [OF ok p(1)] by blast
  have "\<not> bit (entry (vmem st) f i) 0" using tables_okD(6) [OF ok p] none by simp
  then show "vmm_get_next_map_level tr d (of_nat i) flags st = Some (addr r, st')"
    using and_one link_bits(1) [OF r31 fl] r(1)
    by (simp add: vmm_get_next_map_level_def load_def store_def slot entry_def st'_def)
  show "tables_ok (tbl(p @ [i] \<mapsto> r)) st'"
    unfolding st'_def by (rule tables_ok_grow [OF ok p none fl r(2-5) stale])
  assume q: "length q = 3" "j < 512"
  show "leaf (tbl(p @ [i] \<mapsto> r)) (vmem st') q j = (if q = p @ [i] then entry (vmem st) r j else leaf tbl (vmem st) q j)"
  proof (cases "q = p @ [i]")
    case True
    then show ?thesis using entry_write [OF f31 r31 p(3) q(2)] rf by (simp add: leaf_def st'_def)
  next
    case False
    have "g \<noteq> f" if "tbl q = Some g" for g
      using tables_okD(3) [OF ok that, of p] p(1,2) q(1) by auto
    then show ?thesis
      using False entry_write [OF f31 table_frame(2) [OF ok] p(3) q(2)]
      by (auto simp: leaf_def st'_def split: option.splits)
  qed
qed

lemma next_level:
  assumes ok: "tables_ok tbl st" and zero: "zero_below B st" and p: "tbl p = Some f" "length p < 3" "i < 512"
    and fl: "link_flags (scast flags)" and S: "finite S" "p @ [i] \<in> S"
    and room: "room B (vpmm st) (card (S - dom tbl))"
    and slot: "tr (d + 8 * of_nat i) = slot f i"
  obtains g st' tbl' where
    "vmm_get_next_map_level tr d (of_nat i) flags st = Some (addr g, st')"
    "tables_ok tbl' st'" "zero_below B st'" "tbl' (p @ [i]) = Some g" "room B (vpmm st') (card (S - dom tbl'))"
    "\<And>q j. length q = 3 \<Longrightarrow> j < 512 \<Longrightarrow> leaf tbl' (vmem st') q j = leaf tbl (vmem st) q j"
    "\<And>q. length q \<le> length p \<Longrightarrow> tbl' q = tbl q"
    "flushed st' = flushed st" "cr3 st' = cr3 st"
proof (cases "tbl (p @ [i])")
  case (Some g)
  show thesis by (rule that [OF next_level_present [where tr = tr and d = d and flags = flags, OF ok p Some slot] ok zero Some room]) simp_all
next
  case None
  let ?n = "card (S - dom (tbl(p @ [i] \<mapsto> f)))"
  have "S - dom (tbl(p @ [i] \<mapsto> f)) = (S - dom tbl) - {p @ [i]}" by auto
  moreover have "Suc (card ((S - dom tbl) - {p @ [i]})) = card (S - dom tbl)"
    using S None by (intro card_Suc_Diff1) auto
  ultimately have "card (S - dom tbl) = Suc ?n" by (simp only:)
  with room have room': "room B (vpmm st) (Suc ?n)" by simp
  obtain r pm where r: "pmm_alloc PAGE_SIZE (vpmm st) = Some (addr r, pm)" "r < frames (vpmm st)"
    "\<not> busy_frame (vpmm st) r" "take_run (vpmm st) 1 r pm" "pmm_wf pm"
    and rB: "r \<in> free_below B (vpmm st)" "room B pm ?n"
    by (rule alloc_page [OF tables_okD(1) [OF ok] room']) auto
  have z: "entry (vmem st) r j = 0" if "j < 512" for j by (rule zero_belowD [OF zero rB(1) that])
  note made = next_level_made [where tr = tr and d = d, OF ok p None fl slot r]
  let ?st = "st\<lparr>vpmm := pm, vmem := write64 (slot f i) (addr r OR scast flags) (vmem st)\<rparr>"
  have zero': "zero_below B ?st"
    by (rule zero_below_write [OF zero tables_okD(1,4) [OF ok] p(3)])
       (use p(1) r(4) in \<open>auto simp: free_below_take\<close>)
  have leaf: "leaf (tbl(p @ [i] \<mapsto> r)) (vmem ?st) q j = leaf tbl (vmem st) q j" if "length q = 3" "j < 512" for q j
    using made(3) [OF _ that] z that None by (auto simp: leaf_def)
  show thesis by (rule that [OF made(1) made(2) zero' _ _ leaf]) (use rB(2) z in auto)
qed

section \<open>Mapping a page refines a map update\<close>

text \<open>
  The abstract view of the tables: from a page number (48-bit addresses) to the physical
  address of its frame.
\<close>

definition path :: "u64 \<Rightarrow> nat list" where
  "path va = [ix 39 va, ix 30 va, ix 21 va]"

definition page48 :: "u64 \<Rightarrow> nat" where
  "page48 va = unat va div 4096 mod 2 ^ 36"

lemma page48_indices:
  "page48 va = ((ix 39 va * 512 + ix 30 va) * 512 + ix 21 va) * 512 + ix 12 va"
proof -
  define n where "n = unat va div 4096"
  have split: "m mod (512 * k) = 512 * (m div 512 mod k) + m mod 512" for m k :: nat
    by (rule mod_mult2_eq)
  have "page48 va = n mod (512 * (512 * (512 * 512)))" by (simp add: page48_def n_def)
  also have "\<dots> = 512 * (512 * (512 * (n div 512 div 512 div 512 mod 512) + n div 512 div 512 mod 512)
      + n div 512 mod 512) + n mod 512" unfolding split by simp
  also have "\<dots> = ((ix 39 va * 512 + ix 30 va) * 512 + ix 21 va) * 512 + ix 12 va"
    by (simp add: ix_def n_def div_mult2_eq [symmetric])
  finally show ?thesis .
qed

lemma mixed_radix: "a < 512 \<Longrightarrow> b < 512 \<Longrightarrow> x * 512 + a = y * 512 + b \<longleftrightarrow> x = y \<and> a = (b :: nat)"
proof
  assume "a < 512" "b < 512" "x * 512 + a = y * 512 + b"
  moreover have "x = (x * 512 + a) div 512" "y = (y * 512 + b) div 512"
    "a = (x * 512 + a) mod 512" "b = (y * 512 + b) mod 512"
    using \<open>a < 512\<close> \<open>b < 512\<close> by simp_all
  ultimately show "x = y \<and> a = b" by simp
qed simp

lemma same_page: "page48 va = page48 va' \<longleftrightarrow> path va = path va' \<and> ix 12 va = ix 12 va'"
  by (simp only: page48_indices mixed_radix ix_less path_def list.inject) blast

lemma walk_leaf:
  assumes ok: "tables_ok tbl st" and root: "tbl [] = Some f0"
  shows "walk (vmem st) (addr f0) va =
    (let e = leaf tbl (vmem st) (path va) (ix 12 va)
     in if bit e 0 then Some ((e AND PTE_ADDR) OR (va AND 0xfff)) else None)"
proof -
  have step: "hw_next (vmem st) (addr f) sh va = map_option addr (tbl (p @ [ix sh va]))"
    if "tbl p = Some f" "length p < 3" "sh \<le> 39" for p f sh
  proof (cases "tbl (p @ [ix sh va])")
    case None
    then show ?thesis using tables_okD(6) [OF ok that(1,2) ix_less, of sh va] that(3)
      by (simp add: hw_next_def table_index_ix entry_def slot_def)
  next
    case (Some g)
    then show ?thesis
      using tables_okD(6) [OF ok that(1,2) ix_less, of sh va] that(3)
        link_addr [OF table_frame(2) [OF ok Some]]
      by (simp add: hw_next_def table_index_ix entry_def slot_def)
  qed
  have path: "path va = [ix 39 va] @ [ix 30 va] @ [ix 21 va]" by (simp add: path_def)
  have none: "tbl (q @ [i]) = None" if "tbl q = None" for q i using tables_okD(5) [OF ok that] .
  show ?thesis
  proof (cases "tbl [ix 39 va]")
    case None
    then have "leaf tbl (vmem st) (path va) (ix 12 va) = 0"
      using none [OF none [OF None, of "ix 30 va"], of "ix 21 va"] by (simp add: leaf_def path_def)
    with step [OF root, of 39] None show ?thesis by (simp add: walk_def)
  next
    case g3: (Some g3)
    show ?thesis
    proof (cases "tbl [ix 39 va, ix 30 va]")
      case None
      then have "leaf tbl (vmem st) (path va) (ix 12 va) = 0"
        using none [OF None, of "ix 21 va"] by (simp add: leaf_def path_def)
      with step [OF root, of 39] step [OF g3, of 30] g3 None show ?thesis by (simp add: walk_def)
    next
      case g2: (Some g2)
      then show ?thesis
        using step [OF root, of 39] step [OF g3, of 30] step [OF g2, of 21] g3
        by (cases "tbl (path va)")
           (simp_all add: walk_def path_def leaf_def table_index_ix entry_def slot_def Let_def)
    qed
  qed
qed

text \<open>\<open>points_to tr d f\<close>: the table in frame \<open>f\<close> is reached through the pointer \<open>d\<close>.\<close>

definition points_to :: "(u64 \<Rightarrow> u64) \<Rightarrow> u64 \<Rightarrow> nat \<Rightarrow> bool" where
  "points_to tr d f \<longleftrightarrow> (\<forall>i<512. tr (d + 8 * of_nat i) = slot f i)"

lemma points_to_addr: "direct_map tr \<Longrightarrow> f < 2 ^ 31 \<Longrightarrow> points_to tr (addr f) f"
  using direct_map_slot(1) by (simp add: points_to_def slot_def)

lemma points_to_hh: "direct_map tr \<Longrightarrow> f < 2 ^ 31 \<Longrightarrow> points_to tr (phys_to_hh (addr f)) f"
  using direct_map_slot(2) by (simp add: points_to_def)

definition path_tables :: "u64 \<Rightarrow> nat list set" where
  "path_tables va = {[ix 39 va], [ix 39 va, ix 30 va], path va}"

lemma lowest_table_ok:
  assumes ok: "tables_ok tbl st" and zero: "zero_below B st" and root: "tbl [] = Some f0" "points_to tr d f0"
    and tr: "direct_map tr" and fl: "link_flags (scast flags)"
    and S: "finite S" "path_tables va \<subseteq> S" and room: "room B (vpmm st) (card (S - dom tbl))"
  obtains g st' tbl' where "lowest_table tr d va flags st = Some (addr g, st')"
    "tables_ok tbl' st'" "zero_below B st'" "tbl' (path va) = Some g" "tbl' [] = Some f0"
    "room B (vpmm st') (card (S - dom tbl'))"
    "\<And>q j. length q = 3 \<Longrightarrow> j < 512 \<Longrightarrow> leaf tbl' (vmem st') q j = leaf tbl (vmem st) q j"
    "flushed st' = flushed st" "cr3 st' = cr3 st"
proof -
  have in_S: "[] @ [ix 39 va] \<in> S" "[ix 39 va] @ [ix 30 va] \<in> S" "[ix 39 va, ix 30 va] @ [ix 21 va] \<in> S"
    using S(2) by (auto simp: path_tables_def path_def)
  have slot: "tr (addr f + 8 * of_nat (ix sh va)) = slot f (ix sh va)"
    if "tables_ok t s" "t q = Some f" for t s q f sh
    using points_to_addr [OF tr table_frame(2) [OF that]] by (simp add: points_to_def)
  have slot0: "tr (d + 8 * of_nat (ix 39 va)) = slot f0 (ix 39 va)"
    using root(2) by (simp add: points_to_def)
  obtain g3 s3 t3 where 3: "vmm_get_next_map_level tr d (of_nat (ix 39 va)) flags st = Some (addr g3, s3)"
    "tables_ok t3 s3" "t3 [ix 39 va] = Some g3" "room B (vpmm s3) (card (S - dom t3))"
    "\<And>q j. length q = 3 \<Longrightarrow> j < 512 \<Longrightarrow> leaf t3 (vmem s3) q j = leaf tbl (vmem st) q j"
    "t3 [] = Some f0" "flushed s3 = flushed st" "cr3 s3 = cr3 st" "zero_below B s3"
    by (rule next_level [where p = "[]" and f = f0 and i = "ix 39 va" and d = d and tr = tr,
          OF ok zero root(1) _ ix_less fl S(1) in_S(1) room slot0])
       (use root(1) in auto)
  obtain g2 s2 t2 where 2:
    "vmm_get_next_map_level tr (addr g3) (of_nat (ix 30 va)) flags s3 = Some (addr g2, s2)"
    "tables_ok t2 s2" "t2 [ix 39 va, ix 30 va] = Some g2" "room B (vpmm s2) (card (S - dom t2))"
    "\<And>q j. length q = 3 \<Longrightarrow> j < 512 \<Longrightarrow> leaf t2 (vmem s2) q j = leaf t3 (vmem s3) q j"
    "t2 [] = Some f0" "flushed s2 = flushed s3" "cr3 s2 = cr3 s3" "zero_below B s2"
    by (rule next_level [where p = "[ix 39 va]" and i = "ix 30 va"
          and d = "addr g3" and tr = tr, OF 3(2,9,3) _ ix_less fl S(1) in_S(2) 3(4) slot [OF 3(2,3), where sh = 30]])
       (use 3(6) in auto)
  obtain g1 s1 t1 where 1:
    "vmm_get_next_map_level tr (addr g2) (of_nat (ix 21 va)) flags s2 = Some (addr g1, s1)"
    "tables_ok t1 s1" "t1 (path va) = Some g1" "room B (vpmm s1) (card (S - dom t1))"
    "\<And>q j. length q = 3 \<Longrightarrow> j < 512 \<Longrightarrow> leaf t1 (vmem s1) q j = leaf t2 (vmem s2) q j"
    "t1 [] = Some f0" "flushed s1 = flushed s2" "cr3 s1 = cr3 s2" "zero_below B s1"
    by (rule next_level [where p = "[ix 39 va, ix 30 va]" and i = "ix 21 va"
          and d = "addr g2" and tr = tr, OF 2(2,9,3) _ ix_less fl S(1) in_S(3) 2(4) slot [OF 2(2,3), where sh = 21]])
       (use 2(6) in \<open>auto simp: path_def\<close>)
  have "lowest_table tr d va flags st = Some (addr g1, s1)"
    using 1(1) 2(1) 3(1) by (simp add: lowest_table_def table_index_ix)
  then show thesis by (rule that [OF _ 1(2,9,3,6,4)]) (use 1 2 3 in auto)
qed

text \<open>Storing into a lowest table.\<close>

lemma leaf_store:
  assumes ok: "tables_ok tbl st" and g: "tbl p = Some g" "length p = 3" and i: "i < 512"
    and m_def: "m = write64 (slot g i) v (vmem st)"
  shows "tables_ok tbl (st\<lparr>vmem := m, flushed := fs\<rparr>)"
    and "length q = 3 \<Longrightarrow> j < 512 \<Longrightarrow>
      leaf tbl m q j = (if q = p \<and> j = i then v else leaf tbl (vmem st) q j)"
proof -
  note D = tables_okD [OF ok]
  note g31 = table_frame(2) [OF ok g(1)]
  have entry: "entry m f j = entry (vmem st) f j" if "f < 2 ^ 31" "j < 512" "f \<noteq> g" for f j
    using that entry_write [OF g31 that(1) i that(2)] by (simp add: m_def)
  show "tables_ok tbl (st\<lparr>vmem := m, flushed := fs\<rparr>)"
    unfolding tables_ok_def
  proof (intro conjI allI impI, goal_cases)
    case (3 q q' f)
    then show ?case using D(3) by blast
  next
    case (4 q f)
    then show ?case using D(4) by simp
  next
    case (5 q j)
    then show ?case by (rule D(5))
  next
    case (6 q f j)
    then have "f \<noteq> g" using D(3) [OF 6(1), of p] g by auto
    with entry [OF table_frame(2) [OF ok 6(1)] 6(3)] D(6) [OF 6] show ?case by simp
  qed (simp_all add: D(1,2))
  assume q: "length q = 3" "j < 512"
  show "leaf tbl m q j = (if q = p \<and> j = i then v else leaf tbl (vmem st) q j)"
  proof (cases "tbl q")
    case None
    with g show ?thesis by (auto simp: leaf_def)
  next
    case (Some f)
    have "f = g \<longleftrightarrow> q = p" using D(3) [OF Some, of p] Some g(1) by auto
    then show ?thesis
      using Some entry_write [OF g31 table_frame(2) [OF ok Some] i q(2)] by (simp add: leaf_def m_def)
  qed
qed

end
