(* ===== verification/Vmm_Correct.thy ===== *)
theory Vmm_Correct
  imports Vmm
begin

text \<open>
  What the operations of mm/vmm.c do to the translation the hardware computes: mapping and
  unmapping refine updates of an abstract page map, a lowest table that is made on the way keeps what its frame
  held, and the three loops of \<open>vmm_init\<close> build exactly the map given at the end if the frames they take hold zeros.
\<close>

section \<open>Mapping and unmapping\<close>

definition leaf_translation :: "u64 \<Rightarrow> u64 \<Rightarrow> u64 option" where
  "leaf_translation v va = (if bit v 0 then Some ((v AND PTE_ADDR) OR (va AND 0xfff)) else None)"

lemma walk_leaf':
  "tables_ok tbl st \<Longrightarrow> tbl [] = Some f0 \<Longrightarrow>
     walk (vmem st) (addr f0) va = leaf_translation (leaf tbl (vmem st) (path va) (ix 12 va)) va"
  by (simp add: walk_leaf leaf_translation_def Let_def)

lemma length_path [simp]: "length (path va) = 3"
  by (simp add: path_def)

text \<open>A store into the lowest table of an address changes one page of the walk.\<close>

lemma store_page:
  fixes v :: u64
  assumes ok: "tables_ok tbl st" and root: "tbl [] = Some f0" and tr: "direct_map tr" and g: "tbl (path va) = Some g"
  defines "st' \<equiv> vmm_flush_tlb va (store tr (addr g + 8 * table_index 12 va) v st)"
  shows "tables_ok tbl st'"
    and "walk (vmem st') (addr f0) va' =
       (if page48 va' = page48 va then leaf_translation v va' else walk (vmem st) (addr f0) va')"
    and "vpmm st' = vpmm st" "flushed st' = va # flushed st" "cr3 st' = cr3 st"
    and "zero_below B st \<Longrightarrow> zero_below B st'"
proof -
  let ?m = "write64 (slot g (ix 12 va)) v (vmem st)"
  have "tr (addr g + 8 * of_nat (ix 12 va)) = slot g (ix 12 va)"
    using points_to_addr [OF tr table_frame(2) [OF ok g]] by (simp add: points_to_def)
  then have st': "st' = st\<lparr>vmem := ?m, flushed := va # flushed st\<rparr>"
    by (simp add: st'_def vmm_flush_tlb_def store_def table_index_ix)
  show ok': "tables_ok tbl st'"
    unfolding st' by (rule leaf_store(1) [OF ok g _ ix_less refl]) simp
  show "walk (vmem st') (addr f0) va' =
     (if page48 va' = page48 va then leaf_translation v va' else walk (vmem st) (addr f0) va')"
    using leaf_store(2) [OF ok g _ ix_less [of 12 va] refl, of "path va'" "ix 12 va'" v]
    unfolding same_page walk_leaf' [OF ok' root] walk_leaf' [OF ok root]
    by (auto simp: st')
  show "vpmm st' = vpmm st" "flushed st' = va # flushed st" "cr3 st' = cr3 st" by (simp_all add: st')
  assume "zero_below B st"
  then show "zero_below B st'"
    by (rule zero_below_write [OF _ tables_okD(1,4) [OF ok] ix_less]) (use g in \<open>simp_all add: st'\<close>)
qed

text \<open>And through \<open>lowest_table\<close>, with tables made from frames of zeros.\<close>

lemma lowest_store:
  assumes ok: "tables_ok tbl st" and zero: "zero_below B st" and root: "tbl [] = Some f0" "points_to tr d f0"
    and tr: "direct_map tr" and fl: "link_flags (scast flags)"
    and S: "finite S" "path_tables va \<subseteq> S" and room: "room B (vpmm st) (card (S - dom tbl))"
  obtains g st1 tbl' st' where "lowest_table tr d va flags st = Some (addr g, st1)"
    "st' = vmm_flush_tlb va (store tr (addr g + 8 * table_index 12 va) v st1)"
    "tables_ok tbl' st'" "zero_below B st'" "tbl' [] = Some f0" "room B (vpmm st') (card (S - dom tbl'))"
    "\<And>va'. walk (vmem st') (addr f0) va' =
       (if page48 va' = page48 va then leaf_translation v va' else walk (vmem st) (addr f0) va')"
    "flushed st' = va # flushed st" "cr3 st' = cr3 st"
proof -
  obtain g st1 tbl' where low: "lowest_table tr d va flags st = Some (addr g, st1)"
    "tables_ok tbl' st1" "zero_below B st1" "tbl' (path va) = Some g" "tbl' [] = Some f0"
    "room B (vpmm st1) (card (S - dom tbl'))"
    "\<And>q j. length q = 3 \<Longrightarrow> j < 512 \<Longrightarrow> leaf tbl' (vmem st1) q j = leaf tbl (vmem st) q j"
    "flushed st1 = flushed st" "cr3 st1 = cr3 st"
    by (rule lowest_table_ok [OF ok zero root tr fl S room]) auto
  note sp = store_page [OF low(2,5) tr low(4), where v = v]
  let ?st' = "vmm_flush_tlb va (store tr (addr g + 8 * table_index 12 va) v st1)"
  have walk: "walk (vmem ?st') (addr f0) va' =
     (if page48 va' = page48 va then leaf_translation v va' else walk (vmem st) (addr f0) va')" for va'
    using low(7) [of "path va'" "ix 12 va'"] unfolding sp(2) walk_leaf' [OF low(2,5)] walk_leaf' [OF ok root(1)] by simp
  show thesis
    by (rule that [OF low(1) refl sp(1) sp(6) [OF low(3)] low(5) _ walk]) (use low(6,8,9) sp(3-5) in simp_all)
qed

definition page_aligned :: "u64 \<Rightarrow> bool" where
  "page_aligned a \<longleftrightarrow> unat a mod 4096 = 0"

lemma page_aligned_bits: "page_aligned a \<longleftrightarrow> (\<forall>b<12. \<not> bit a b)"
proof -
  have "page_aligned a \<longleftrightarrow> take_bit 12 (unat a) = 0" by (simp add: page_aligned_def take_bit_eq_mod)
  also have "\<dots> \<longleftrightarrow> (\<forall>b. \<not> (b < 12 \<and> bit (unat a) b))"
    by (simp only: bit_eq_iff bit_take_bit_iff) simp
  also have "\<dots> \<longleftrightarrow> (\<forall>b<12. \<not> bit a b)"
    by (auto simp: bit_unsigned_iff dest: bit_imp_le_length)
  finally show ?thesis .
qed

lemma bit_lt: "unat (a :: u64) < 2 ^ n \<Longrightarrow> bit a b \<Longrightarrow> b < n"
proof -
  assume *: "unat a < 2 ^ n" "bit a b"
  then have "take_bit n (unat a) = unat a" by (simp add: take_bit_nat_eq_self)
  moreover have "bit (unat a) b" using *(2) bit_imp_le_length by (auto simp: bit_unsigned_iff)
  ultimately show "b < n" by (metis bit_take_bit_iff)
qed

lemma bit_PTE_ADDR: "bit PTE_ADDR b \<longleftrightarrow> 12 \<le> b \<and> b < 52"
proof -
  have "PTE_ADDR = mask 52 AND NOT (mask 12)" by (simp add: PTE_ADDR_def mask_eq_exp_minus_1)
  then show ?thesis unfolding \<open>PTE_ADDR = _\<close> by (auto simp: bit_and_iff bit_not_iff bit_mask_iff)
qed

text \<open>An entry for a page-aligned physical address below \<open>2\<^sup>5\<^sup>2\<close>.\<close>

lemma leaf_present:
  assumes "page_aligned pa" "unat pa < 2 ^ 52" "bit fl 0" "\<And>b. bit fl b \<Longrightarrow> b < 12"
  shows "leaf_translation (pa OR fl) va = Some (pa OR (va AND 0xfff))"
proof -
  have "(pa OR fl) AND PTE_ADDR = pa"
    by (rule bit_word_eqI)
       (use assms(1) assms(4) in \<open>auto simp: bit_and_iff bit_or_iff bit_PTE_ADDR page_aligned_bits
          not_less [symmetric] dest: bit_lt [OF assms(2)]\<close>)
  then show ?thesis using assms(3) by (simp add: leaf_translation_def bit_or_iff)
qed

lemma card_path_tables: "finite (path_tables va)" "card (path_tables va - dom tbl) \<le> 3"
proof -
  show fin: "finite (path_tables va)" by (simp add: path_tables_def)
  have "card (path_tables va - dom tbl) \<le> card (path_tables va)" by (rule card_mono [OF fin]) blast
  also have "\<dots> \<le> 3" by (simp add: path_tables_def card_insert_if)
  finally show "card (path_tables va - dom tbl) \<le> 3" .
qed

lemma room_mono: "room B pm n \<Longrightarrow> k \<le> n \<Longrightarrow> room B pm k"
  by (simp add: room_def)

definition root_of :: "(nat list \<Rightarrow> nat option) \<Rightarrow> u64" where
  "root_of tbl = addr (the (tbl []))"

section \<open>Unmapping what was never mapped\<close>

lemma unlinked_level:
  assumes wf: "pmm_wf (vpmm st)" "zero_below B st" and room: "room B (vpmm st) (Suc n)"
    and f: "f < 2 ^ 31" "busy_frame (vpmm st) f" "i < 512" "\<not> bit (entry (vmem st) f i) 0"
    and slot: "tr (d + 8 * of_nat i) = slot f i"
  obtains g st' where "vmm_get_next_map_level tr d (of_nat i) 0 st = Some (addr g, st')"
    "pmm_wf (vpmm st')" "zero_below B st'" "room B (vpmm st') n"
    "g < 2 ^ 31" "busy_frame (vpmm st') g" "\<And>j. j < 512 \<Longrightarrow> entry (vmem st') g j = 0"
    "available_pages (info (vpmm st')) = available_pages (info (vpmm st)) - 1"
proof -
  obtain r pm where r: "pmm_alloc PAGE_SIZE (vpmm st) = Some (addr r, pm)" "r < frames (vpmm st)"
    "\<not> busy_frame (vpmm st) r" "r \<in> free_below B (vpmm st)" "take_run (vpmm st) 1 r pm" "pmm_wf pm" "room B pm n"
    using alloc_page [OF wf(1) room] .
  let ?st = "st\<lparr>vpmm := pm, vmem := write64 (slot f i) (addr r) (vmem st)\<rparr>"
  have r31: "r < 2 ^ 31" using r(2) wf(1) by (simp add: pmm_wf_def)
  have mask: "addr r AND NOT INDEX_MASK = addr r"
    unfolding INDEX_MASK_def mask511
    by (rule bit_word_eqI) (auto simp: bit_and_iff bit_not_iff bit_mask_iff dest: bit_addr [OF r31])
  have get: "vmm_get_next_map_level tr d (of_nat i) 0 st = Some (addr r, ?st)"
    using f(4) and_one mask r(1)
    by (simp add: vmm_get_next_map_level_def load_def store_def slot entry_def)
  have "zero_below B ?st"
    by (rule zero_below_write [OF wf(2,1) f(2,3)]) (use r(5) in \<open>auto simp: free_below_take\<close>)
  moreover have "entry (vmem ?st) r j = 0" if "j < 512" for j :: nat
  proof -
    have "r \<noteq> f" using r(3) f(2) by blast
    then show ?thesis using entry_write [OF f(1) r31 f(3) that] zero_belowD [OF wf(2) r(4) that] by simp
  qed
  moreover have "busy_frame pm r" using r(5) aliased_refl [of r] by (auto simp: take_run_def)
  ultimately show thesis
    using r(5-7) r31 by (intro that [OF get]) (simp_all add: take_run_def)
qed

section \<open>The three loops of vmm_init\<close>

text \<open>Page number \<open>k\<close> of a region of up to \<open>2\<^sup>2\<^sup>0\<close> pages starting at \<open>vb\<close>, in 48 bits.\<close>

definition page_off :: "u64 \<Rightarrow> u64 \<Rightarrow> nat" where
  "page_off vb va = unat (va - vb) mod 2 ^ 48 div 4096"

lemma unat_mod48: "unat (a + b :: u64) mod 2 ^ 48 = (unat a mod 2 ^ 48 + unat b mod 2 ^ 48) mod 2 ^ 48"
proof -
  have "unat (a + b) = (unat a + unat b) mod 2 ^ 64" by (simp add: unat_word_ariths)
  then have "unat (a + b) mod 2 ^ 48 = (unat a + unat b) mod 2 ^ 48"
    by (simp add: mod_mod_cancel)
  then show ?thesis by (simp only: mod_add_eq)
qed

lemma page48_alt: "page48 va = unat va mod 2 ^ 48 div 4096"
proof -
  have "unat va mod (4096 * 2 ^ 36) = 4096 * (unat va div 4096 mod 2 ^ 36) + unat va mod 4096"
    by (rule mod_mult2_eq)
  then show ?thesis by (simp add: page48_def)
qed

lemma div_of_mod48: "(4096 * n + c) mod 2 ^ 48 div 4096 = n mod 2 ^ 36" if "c < 4096" for n c :: nat
proof -
  have "(4096 * n + c) mod (4096 * 2 ^ 36) =
      4096 * ((4096 * n + c) div 4096 mod 2 ^ 36) + (4096 * n + c) mod 4096"
    by (rule mod_mult2_eq)
  with that show ?thesis by simp
qed

lemma add_mod_cancel:
  fixes q b k m :: nat
  assumes "b < m" "k < m" shows "(q + b) mod m = (q + k) mod m \<longleftrightarrow> b = k"
proof
  assume "(q + b) mod m = (q + k) mod m"
  then have "(int q + int b) mod int m = (int q + int k) mod int m"
    by (metis of_nat_add of_nat_mod)
  then have "int b mod int m = int k mod int m" by (metis add_diff_cancel_left' mod_diff_cong)
  with assms show "b = k" by simp
qed simp

lemma page48_off:
  assumes vb: "page_aligned vb" and k: "k < 2 ^ 36"
  shows "page48 va = page48 (vb + of_nat k * PAGE_SIZE) \<longleftrightarrow> page_off vb va = k"
proof -
  define x y where "x = unat vb mod 2 ^ 48" and "y = unat (va - vb) mod 2 ^ 48"
  have "x mod 4096 = 0" using vb by (simp add: x_def page_aligned_def mod_mod_cancel)
  then obtain q where q: "x = 4096 * q" by (auto elim: dvdE simp: mod_eq_0_iff_dvd)
  have va: "unat va mod 2 ^ 48 = (x + y) mod 2 ^ 48"
    using unat_mod48 [of vb "va - vb"] by (simp add: x_def y_def)
  have "unat (of_nat k * PAGE_SIZE :: u64) = 4096 * k"
    using k unat_of_nat64 [of "4096 * k"] by (simp add: PAGE_SIZE_def mult.commute)
  then have pg: "unat (vb + of_nat k * PAGE_SIZE) mod 2 ^ 48 = (x + 4096 * k) mod 2 ^ 48"
    using unat_mod48 [of vb "of_nat k * PAGE_SIZE"] k by (simp add: x_def)
  have y: "y = 4096 * (y div 4096) + y mod 4096" "y div 4096 < 2 ^ 36"
    using less_mult_imp_div_less [of y "2 ^ 36" 4096] by (simp_all add: y_def)
  have "page48 va = (4096 * (q + y div 4096) + y mod 4096) mod 2 ^ 48 div 4096"
    unfolding page48_alt va q by (simp add: distrib_left add.commute)
  also have "\<dots> = (q + y div 4096) mod 2 ^ 36" by (rule div_of_mod48) simp
  finally have "page48 va = (q + page_off vb va) mod 2 ^ 36" by (simp add: page_off_def y_def)
  moreover have "page48 (vb + of_nat k * PAGE_SIZE) = (q + k) mod 2 ^ 36"
    using div_of_mod48 [of 0 "q + k"] unfolding page48_alt pg q by (simp add: distrib_left)
  moreover have "page_off vb va < 2 ^ 36" using y(2) by (simp add: page_off_def y_def)
  ultimately show ?thesis using add_mod_cancel [OF _ k] by simp
qed

definition map_flags :: s32 where "map_flags = PTE_PRESENT OR PTE_READ_WRITE"

lemma map_flags: "(scast (PTE_PRESENT OR PTE_READ_WRITE) :: u64) = 3" "link_flags 3"
  "bit (3 :: u64) 0" "bit (3 :: u64) b \<Longrightarrow> b < 12"
proof -
  show "(scast (PTE_PRESENT OR PTE_READ_WRITE) :: u64) = 3"
    by (simp add: PTE_PRESENT_def PTE_READ_WRITE_def)
  have three: "b < 2" if "bit (3 :: u64) b" for b
    by (rule bit_lt [OF _ that]) simp
  then show "link_flags 3" by (fastforce simp: link_flags_def bit_0)
  show "bit (3 :: u64) 0" by simp
  show "bit (3 :: u64) b \<Longrightarrow> b < 12" using three [of b] by simp
qed

lemma page_aligned_add: "page_aligned a \<Longrightarrow> page_aligned (a + of_nat k * PAGE_SIZE)"
proof -
  assume a: "page_aligned a"
  have "(unat a + unat (of_nat k * PAGE_SIZE :: u64)) mod 2 ^ 64 mod 4096 =
      (unat a + unat (of_nat k * PAGE_SIZE :: u64)) mod 4096" by (simp add: mod_mod_cancel)
  moreover have "unat (of_nat k * PAGE_SIZE :: u64) mod 4096 = 0"
    by (simp add: unat_word_ariths PAGE_SIZE_def mod_mod_cancel)
  moreover have "(x + y) mod 4096 = 0" if "x mod 4096 = 0" "y mod 4096 = 0" for x y :: nat
    using mod_add_eq [of x 4096 y] that by simp
  ultimately show ?thesis using a by (simp add: page_aligned_def unat_word_ariths(1))
qed

text \<open>The map after the first \<open>n\<close> pages of a region went to consecutive frames from \<open>pb\<close>.\<close>

definition region_map ::
  "u64 \<Rightarrow> u64 \<Rightarrow> nat \<Rightarrow> (u64 \<Rightarrow> u64 option) \<Rightarrow> u64 \<Rightarrow> u64 option" where
  "region_map pb vb n M va =
     (if page_off vb va < n
      then Some ((pb + of_nat (page_off vb va) * PAGE_SIZE) OR (va AND 0xfff)) else M va)"

definition vm_inv ::
  "nat \<Rightarrow> nat \<Rightarrow> nat list set \<Rightarrow> (u64 \<Rightarrow> u64 option) \<Rightarrow> (nat list \<Rightarrow> nat option) \<Rightarrow> vm \<Rightarrow> bool" where
  "vm_inv B f0 S M tbl st \<longleftrightarrow> tables_ok tbl st \<and> zero_below B st \<and> tbl [] = Some f0 \<and>
     room B (vpmm st) (card (S - dom tbl)) \<and> walk (vmem st) (addr f0) = M"

lemma map_page_step:
  assumes inv: "vm_inv B f0 S M tbl st" and root: "points_to tr d f0" and tr: "direct_map tr"
    and S: "finite S" "path_tables va \<subseteq> S" and fl: "link_flags (scast flags)"
    and pa: "page_aligned pa" "unat pa < 2 ^ 52"
  shows "\<exists>st' tbl'. vmm_map_page tr d pa va flags st = Some st' \<and>
     vm_inv B f0 S (\<lambda>va'. if page48 va' = page48 va then Some (pa OR (va' AND 0xfff)) else M va') tbl' st' \<and>
     flushed st' = va # flushed st \<and> cr3 st' = cr3 st"
proof -
  have inv': "tables_ok tbl st" "tbl [] = Some f0" "room B (vpmm st) (card (S - dom tbl))"
    "walk (vmem st) (addr f0) = M" "zero_below B st" using inv by (simp_all add: vm_inv_def)
  obtain g st1 tbl' st' where low: "lowest_table tr d va flags st = Some (addr g, st1)"
    "st' = vmm_flush_tlb va (store tr (addr g + 8 * table_index 12 va) (pa OR scast flags) st1)"
    "tables_ok tbl' st'" "tbl' [] = Some f0" "room B (vpmm st') (card (S - dom tbl'))"
    "\<And>va'. walk (vmem st') (addr f0) va' =
       (if page48 va' = page48 va then leaf_translation (pa OR scast flags) va'
        else walk (vmem st) (addr f0) va')"
    "flushed st' = va # flushed st" "cr3 st' = cr3 st" "zero_below B st'"
    by (rule lowest_store [OF inv'(1,5,2) root tr fl S inv'(3)]) auto
  have "leaf_translation (pa OR scast flags) va' = Some (pa OR (va' AND 0xfff))" for va'
    by (rule leaf_present [OF pa]) (use fl in \<open>auto simp: link_flags_def\<close>)
  then have "walk (vmem st') (addr f0) =
      (\<lambda>va'. if page48 va' = page48 va then Some (pa OR (va' AND 0xfff)) else M va')"
    using low(6) inv'(4) by (auto simp: fun_eq_iff)
  with low show ?thesis by (auto simp: vm_inv_def vmm_map_page_def)
qed

lemma map_4gb_inv:
  assumes inv: "vm_inv B f0 S M tbl st" and root: "points_to tr d f0" and tr: "direct_map tr"
    and vb: "page_aligned vb" and pb: "page_aligned pb" "unat pb < 2 ^ 51"
    and S: "finite S" "\<And>k. k < 2 ^ 20 \<Longrightarrow> path_tables (vb + of_nat k * PAGE_SIZE) \<subseteq> S"
  shows "\<exists>st' tbl'. map_4gb tr d pb vb st = Some st' \<and>
     vm_inv B f0 S (region_map pb vb (2 ^ 20) M) tbl' st' \<and> cr3 st' = cr3 st"
proof -
  let ?P = "\<lambda>k s. (\<exists>t. vm_inv B f0 S (region_map pb vb k M) t s) \<and> cr3 s = cr3 st"
  let ?f = "\<lambda>k. let i = of_nat k * PAGE_SIZE in
         vmm_map_page tr d (pb + i) (vb + i) (PTE_PRESENT OR PTE_READ_WRITE)"
  have step: "\<exists>s'. ?f k s = Some s' \<and> ?P (Suc k) s'" if k: "k < 2 ^ 20" and P: "?P k s" for k s
  proof -
    obtain t where t: "vm_inv B f0 S (region_map pb vb k M) t s" using P by blast
    let ?i = "of_nat k * PAGE_SIZE :: u64"
    have "unat ?i = 4096 * k"
      using k unat_of_nat64 [of "4096 * k"] by (simp add: PAGE_SIZE_def mult.commute)
    then have pa: "unat (pb + ?i) < 2 ^ 52"
      using pb(2) k by (subst unat_add_lem [THEN iffD1]) simp_all
    have "link_flags (scast (PTE_PRESENT OR PTE_READ_WRITE))" by (simp add: map_flags)
    from map_page_step [OF t root tr S(1) S(2) [OF k] this page_aligned_add [OF pb(1)] pa]
    obtain s' t' where s': "?f k s = Some s'" "cr3 s' = cr3 s"
      "vm_inv B f0 S (\<lambda>va'. if page48 va' = page48 (vb + ?i) then Some ((pb + ?i) OR (va' AND 0xfff))
         else region_map pb vb k M va') t' s'" by (auto simp: Let_def)
    have "page48 va' = page48 (vb + ?i) \<longleftrightarrow> page_off vb va' = k" for va'
      using k by (intro page48_off [OF vb]) simp
    then have "(\<lambda>va'. if page48 va' = page48 (vb + ?i) then Some ((pb + ?i) OR (va' AND 0xfff))
         else region_map pb vb k M va') = region_map pb vb (Suc k) M"
      by (auto simp: region_map_def fun_eq_iff)
    with s' P show ?thesis by auto
  qed
  have "\<exists>s'. for_range ?f 0 (2 ^ 20) st = Some s' \<and> ?P (2 ^ 20) s'"
  proof (rule for_range_total)
    have "region_map pb vb 0 M = M" by (simp add: region_map_def fun_eq_iff)
    with inv show "?P 0 st" by auto
  qed (use step in auto)
  moreover have "unat (4 * GIGABYTE div PAGE_SIZE) = 2 ^ 20"
    by (simp add: GIGABYTE_def PAGE_SIZE_def unat_div_distrib)
  ultimately show ?thesis unfolding map_4gb_def by auto
qed

section \<open>vmm_init\<close>

text \<open>The tables of the three regions: 1 root and 3 + 10 + 5120 others.\<close>

definition init_dirs :: "(nat \<times> nat) set" where
  "init_dirs = {0} \<times> {0..<4} \<union> {256} \<times> {0..<4} \<union> {511} \<times> {510..<512}"

definition init_tables :: "nat list set" where
  "init_tables = {[]} \<union> (\<lambda>a. [a]) ` fst ` init_dirs \<union> (\<lambda>(a, b). [a, b]) ` init_dirs \<union>
     (\<lambda>((a, b), c). [a, b, c]) ` (init_dirs \<times> {0..<512})"

lemma card_init_dirs: "finite init_dirs" "card init_dirs \<le> 10"
proof -
  show fin: "finite init_dirs" by (simp add: init_dirs_def)
  show "card init_dirs \<le> 10"
    unfolding init_dirs_def
    by (rule order_trans [OF card_Un_le], rule order_trans [OF add_mono [OF card_Un_le order_refl]])
       (simp add: card_cartesian_product)
qed

lemma init_tables_card: "finite init_tables" "card init_tables \<le> 5134"
proof -
  note fin = card_init_dirs(1)
  show "finite init_tables" by (simp add: init_tables_def fin)
  have "fst ` init_dirs = {0, 256, 511}" by (force simp: init_dirs_def)
  then have "card ((\<lambda>a. [a]) ` fst ` init_dirs) \<le> 3"
    using card_image_le [of "{0, 256, 511 :: nat}" "\<lambda>a. [a]"] by simp
  moreover have "card ((\<lambda>(a, b). [a, b]) ` init_dirs) \<le> 10"
    using card_image_le [OF fin] card_init_dirs(2) by (rule order_trans)
  moreover have "card ((\<lambda>((a, b), c). [a, b, c]) ` (init_dirs \<times> {0..<512})) \<le> 5120"
    using card_image_le [of "init_dirs \<times> {0..<512 :: nat}" "\<lambda>((a, b), c). [a, b, c]"]
      card_init_dirs by (simp add: card_cartesian_product)
  moreover have "card {[] :: nat list} = 1" by simp
  ultimately show "card init_tables \<le> 5134"
    unfolding init_tables_def
    using card_Un_le [of "{[]}" "(\<lambda>a. [a]) ` fst ` init_dirs"]
      card_Un_le [of "{[]} \<union> (\<lambda>a. [a]) ` fst ` init_dirs" "(\<lambda>(a, b). [a, b]) ` init_dirs"]
      card_Un_le [of "{[]} \<union> (\<lambda>a. [a]) ` fst ` init_dirs \<union> (\<lambda>(a, b). [a, b]) ` init_dirs"
        "(\<lambda>((a, b), c). [a, b, c]) ` (init_dirs \<times> {0..<512})"]
    by linarith
qed

lemma path_in_init: "(ix 39 va, ix 30 va) \<in> init_dirs \<Longrightarrow> path_tables va \<subseteq> init_tables"
  by (force simp: path_tables_def init_tables_def path_def)

lemma unat_page_offset: "k < 2 ^ 20 \<Longrightarrow> unat (of_nat k * PAGE_SIZE :: u64) = 4096 * k"
  using unat_of_nat64 [of "4096 * k"] by (simp add: PAGE_SIZE_def mult.commute)

text \<open>The two top indices of an address \<open>k\<close> pages above a multiple of 1 GiB.\<close>

lemma top_indices:
  assumes "unat va = 2 ^ 30 * c + 4096 * k"
  shows "ix 30 va = (c + k div 2 ^ 18) mod 512" "ix 39 va = (c + k div 2 ^ 18) div 512 mod 512"
proof -
  have "4096 * (262144 * q + r) = 2 ^ 30 * q + 4096 * r" for q r :: nat by simp
  from this [of "k div 2 ^ 18" "k mod 2 ^ 18"]
  have "4096 * k = 2 ^ 30 * (k div 2 ^ 18) + 4096 * (k mod 2 ^ 18)"
    using mult_div_mod_eq [of "2 ^ 18" k] by simp
  then have "unat va = 2 ^ 30 * (c + k div 2 ^ 18) + 4096 * (k mod 2 ^ 18)"
    using assms by (simp add: distrib_left)
  moreover have "4096 * (k mod 2 ^ 18) < 2 ^ 30"
    using mod_less_divisor [of "2 ^ 18" k] by simp
  ultimately have 30: "unat va div 2 ^ 30 = c + k div 2 ^ 18" by simp
  then show "ix 30 va = (c + k div 2 ^ 18) mod 512" by (simp add: ix_def)
  have "unat va div 2 ^ 39 = unat va div 2 ^ 30 div 512" by (simp add: div_mult2_eq [symmetric])
  with 30 show "ix 39 va = (c + k div 2 ^ 18) div 512 mod 512" by (simp add: ix_def)
qed

lemma quarter_cases:
  assumes "k < 2 ^ 20" obtains "k div 2 ^ 18 = 0" | "k div 2 ^ 18 = 1" | "k div 2 ^ 18 = 2" | "k div 2 ^ 18 = (3 :: nat)"
proof -
  have "k div 2 ^ 18 < 4" using assms by (intro less_mult_imp_div_less) simp
  then have "k div 2 ^ 18 = 0 \<or> k div 2 ^ 18 = 1 \<or> k div 2 ^ 18 = 2 \<or> k div 2 ^ 18 = 3" by auto
  then show thesis by (elim disjE) (erule that)+
qed

lemma init_dirs_identity: "k < 2 ^ 20 \<Longrightarrow> path_tables (0 + of_nat k * PAGE_SIZE) \<subseteq> init_tables"
proof (rule path_in_init)
  assume k: "k < 2 ^ 20"
  then have "unat (0 + of_nat k * PAGE_SIZE :: u64) = 2 ^ 30 * 0 + 4096 * k"
    using unat_page_offset by simp
  note ix = top_indices [OF this]
  show "(ix 39 (0 + of_nat k * PAGE_SIZE), ix 30 (0 + of_nat k * PAGE_SIZE)) \<in> init_dirs"
    unfolding ix by (rule quarter_cases [OF k]) (simp_all add: init_dirs_def)
qed

lemma init_dirs_direct:
  "k < 2 ^ 20 \<Longrightarrow> path_tables (KERNEL_VIRT_BASE_ADDR + of_nat k * PAGE_SIZE) \<subseteq> init_tables"
proof (rule path_in_init)
  assume k: "k < 2 ^ 20"
  then have "unat (KERNEL_VIRT_BASE_ADDR + of_nat k * PAGE_SIZE) = 0xffff800000000000 + 4096 * k"
    by (subst unat_add_lem [THEN iffD1])
       (simp_all add: unat_page_offset KERNEL_VIRT_BASE_ADDR_def)
  then have "unat (KERNEL_VIRT_BASE_ADDR + of_nat k * PAGE_SIZE) = 2 ^ 30 * 17179738112 + 4096 * k"
    by simp
  note ix = top_indices [OF this]
  show "(ix 39 (KERNEL_VIRT_BASE_ADDR + of_nat k * PAGE_SIZE),
      ix 30 (KERNEL_VIRT_BASE_ADDR + of_nat k * PAGE_SIZE)) \<in> init_dirs"
    unfolding ix by (rule quarter_cases [OF k]) (simp_all add: init_dirs_def)
qed

lemma init_dirs_kernel:
  "k < 2 ^ 20 \<Longrightarrow> path_tables (KERNEL_VIRT_TOP_ADDR + of_nat k * PAGE_SIZE) \<subseteq> init_tables"
proof (rule path_in_init)
  assume k: "k < 2 ^ 20"
  have u: "unat (KERNEL_VIRT_TOP_ADDR + of_nat k * PAGE_SIZE) =
     (0xffffffff80000000 + 4096 * k) mod 2 ^ 64"
    by (simp add: unat_word_ariths(1) unat_page_offset [OF k] KERNEL_VIRT_TOP_ADDR_def)
  show "(ix 39 (KERNEL_VIRT_TOP_ADDR + of_nat k * PAGE_SIZE),
      ix 30 (KERNEL_VIRT_TOP_ADDR + of_nat k * PAGE_SIZE)) \<in> init_dirs"
  proof (cases "k < 2 ^ 19")
    case True
    then have "unat (KERNEL_VIRT_TOP_ADDR + of_nat k * PAGE_SIZE) =
        2 ^ 30 * 17179869182 + 4096 * k"
      by (simp add: u)
    note ix = top_indices [OF this]
    have "k div 2 ^ 18 < 2" using True by (intro less_mult_imp_div_less) simp
    then have "k div 2 ^ 18 = 0 \<or> k div 2 ^ 18 = 1" by (simp add: less_2_cases_iff)
    then show ?thesis unfolding ix by (elim disjE) (simp_all add: init_dirs_def)
  next
    case False
    then have "unat (KERNEL_VIRT_TOP_ADDR + of_nat k * PAGE_SIZE) = 4096 * k - 2 ^ 31"
      using k unfolding u by (simp add: le_mod_geq)
    then have "unat (KERNEL_VIRT_TOP_ADDR + of_nat k * PAGE_SIZE) = 2 ^ 30 * 0 + 4096 * (k - 2 ^ 19)"
      by (simp add: diff_mult_distrib2)
    note ix = top_indices [OF this]
    have "k - 2 ^ 19 < 2 ^ 20" using k by simp
    then show ?thesis unfolding ix by (rule quarter_cases) (simp_all add: init_dirs_def)
  qed
qed

definition init_map :: "u64 \<Rightarrow> u64 \<Rightarrow> u64 option" where
  "init_map physical_base =
     region_map physical_base KERNEL_VIRT_TOP_ADDR (2 ^ 20)
       (region_map 0 KERNEL_VIRT_BASE_ADDR (2 ^ 20)
         (region_map 0 0 (2 ^ 20) (\<lambda>va. None)))"

lemma no_wrap_page:
  assumes "r < 2 ^ 31" "d < 4096" shows "unat (addr r + of_nat d) = 4096 * r + d"
  using assms by (subst unat_add_lem [THEN iffD1]) (simp_all add: unat_addr unat_of_nat64)

lemma fold_zero:
  assumes "direct_map tr" "r < 2 ^ 31"
  shows "fold (\<lambda>i m. m(tr (hh_to_phys (phys_to_hh (addr r)) + of_nat i) := 0)) [0..<unat PAGE_SIZE] m =
    memset (addr r) 0 PAGE_SIZE m"
proof -
  have "tr (hh_to_phys (phys_to_hh (addr r)) + of_nat i) = addr r + of_nat i" if "i < 4096" for i
  proof -
    have "unat (addr r + of_nat i) < 2 ^ 43"
      using no_wrap_page [OF assms(2) that] assms(2) that by simp
    then show ?thesis using assms(1) by (simp add: direct_map_def hh_to_phys_def phys_to_hh_def)
  qed
  then show ?thesis
    unfolding memset_def by (intro fold_cong) (auto simp: PAGE_SIZE_def fun_eq_iff)
qed

lemma entry_memset:
  assumes "r < 2 ^ 31" "g < 2 ^ 31" "i < 512"
  shows "entry (memset (addr r) 0 PAGE_SIZE m) g i = (if g = r then 0 else entry m g i)"
proof -
  have off: "unat (slot g i + of_nat b - addr r) < 4096 \<longleftrightarrow> g = r" if "b < 8" for b
  proof -
    have u: "unat (slot g i + of_nat b) = 4096 * g + (8 * i + b)"
      using aligned8_add [OF aligned8_slot [OF assms(2,3)] that] assms by (simp add: unat_slot)
    show ?thesis
    proof
      assume *: "unat (slot g i + of_nat b - addr r) < 4096"
      have "slot g i + of_nat b = addr r + of_nat (unat (slot g i + of_nat b - addr r))" by simp
      then have "unat (slot g i + of_nat b) = 4096 * r + unat (slot g i + of_nat b - addr r)"
        using no_wrap_page [OF assms(1) *] by simp
      with u * have "(4096 * g + (8 * i + b)) div 4096 = (4096 * r + unat (slot g i + of_nat b - addr r)) div 4096"
        by simp
      with * that assms(3) show "g = r" by simp
    next
      assume "g = r"
      then have "slot g i + of_nat b - addr r = of_nat (8 * i + b)" by (simp add: slot_def)
      moreover have "unat (of_nat (8 * i + b) :: u64) < 4096"
        using assms(3) that by (subst unat_of_nat64) simp_all
      ultimately show "unat (slot g i + of_nat b - addr r) < 4096" by (simp only:)
    qed
  qed
  show ?thesis
    by (rule bit_word_eqI)
       (use off in \<open>auto simp: entry_def read64_def bit_read_le memset_eq PAGE_SIZE_def\<close>)
qed

text \<open>The new root: its frame is taken and zeroed, and the tree has just this table.\<close>

lemma new_page_dir:
  assumes tr: "direct_map tr" and wf: "pmm_wf (vpmm st)"
    and r: "pmm_alloc PAGE_SIZE (vpmm st) = Some (addr r, pm)" "r < frames (vpmm st)"
    "\<not> busy_frame (vpmm st) r" "take_run (vpmm st) 1 r pm" "pmm_wf pm"
  obtains st' where "vmm_new_page_dir tr st = Some (phys_to_hh (addr r), st')"
    "tables_ok [[] \<mapsto> r] st'" "vpmm st' = pm" "walk (vmem st') (addr r) = (\<lambda>va. None)"
    "cr3 st' = cr3 st" "\<And>B. zero_below B st \<Longrightarrow> zero_below B st'"
    "\<And>g i. g < 2 ^ 31 \<Longrightarrow> g \<noteq> r \<Longrightarrow> i < 512 \<Longrightarrow> entry (vmem st') g i = entry (vmem st) g i"
proof -
  let ?m = "memset (addr r) 0 PAGE_SIZE (vmem st)"
  let ?st = "st\<lparr>vpmm := pm, vmem := ?m\<rparr>"
  have r31: "r < 2 ^ 31" using r(2) wf by (simp add: pmm_wf_def)
  have new: "vmm_new_page_dir tr st = Some (phys_to_hh (addr r), ?st)"
    by (simp add: vmm_new_page_dir_def r(1) Let_def fold_zero [OF tr r31])
  have busy: "busy_frame pm j" if "busy_frame (vpmm st) j \<or> j = r" for j
    using that r(4) aliased_refl [of r] by (auto simp: take_run_def)
  have fr: "frames pm = frames (vpmm st)" using r(4) by (simp add: take_run_def)
  have ok: "tables_ok [[] \<mapsto> r] ?st"
    unfolding tables_ok_def
  proof (intro conjI allI impI, goal_cases)
    case (6 q f i)
    then have "q = []" "f = r" by (simp_all split: if_splits)
    then show ?case using entry_memset [OF r31 r31 6(3)] by simp
  qed (use r(5) busy in \<open>auto split: if_splits\<close>)
  have "walk (vmem ?st) (addr r) = (\<lambda>va. None)"
    using walk_leaf' [OF ok, of r] by (simp add: fun_eq_iff leaf_def leaf_translation_def path_def)
  moreover have "zero_below B ?st" if z: "zero_below B st" for B
    unfolding zero_below_def
  proof (intro ballI allI impI)
    fix f i :: nat assume f: "f \<in> free_below B (vpmm ?st)" "i < 512"
    then have f': "f \<in> free_below B (vpmm st)" using free_below_take [OF r(4)] by simp
    then have "f < 2 ^ 31" using wf by (simp add: free_below_def pmm_wf_def)
    then show "entry (vmem ?st) f i = 0"
      using entry_memset [OF r31 _ f(2)] zero_belowD [OF z f' f(2)] by simp
  qed
  moreover have "entry (vmem ?st) g i = entry (vmem st) g i" if "g < 2 ^ 31" "g \<noteq> r" "i < 512" for g i
    using entry_memset [OF r31 that(1,3)] that(2) by simp
  ultimately show thesis using ok by (intro that [OF new]) simp_all
qed

lemma vmm_init_establishes:
  assumes tr: "direct_map tr" and wf: "pmm_wf (vpmm st)" "zero_below B st"
    and room: "room B (vpmm st) 5134"
    and pb: "page_aligned physical_base" "unat physical_base < 2 ^ 51"
  obtains f0 st' tbl where "vmm_init tr physical_base st = Some (phys_to_hh (addr f0), st')"
    "tables_ok tbl st'" "tbl [] = Some f0" "cr3 st' = addr f0"
    "walk (vmem st') (addr f0) = init_map physical_base"
proof -
  note S = init_tables_card(1)
  have "room B (vpmm st) (Suc 5133)" using room by simp
  then obtain f0 pm where a: "pmm_alloc PAGE_SIZE (vpmm st) = Some (addr f0, pm)" "f0 < frames (vpmm st)"
    "\<not> busy_frame (vpmm st) f0" "take_run (vpmm st) 1 f0 pm" "pmm_wf pm" "room B pm 5133"
    by (rule alloc_page [OF wf(1)]) auto
  have f31: "f0 < 2 ^ 31" using a(2) wf(1) by (simp add: pmm_wf_def)
  obtain s0 where 0: "vmm_new_page_dir tr st = Some (phys_to_hh (addr f0), s0)"
    "tables_ok [[] \<mapsto> f0] s0" "room B (vpmm s0) 5133"
    "walk (vmem s0) (addr f0) = (\<lambda>va. None)" "zero_below B s0"
    by (rule new_page_dir [OF tr wf(1) a(1-5)]) (use wf(2) a(6) in auto)
  have "card (init_tables - dom [[] \<mapsto> f0]) \<le> 5133"
  proof -
    have "[] \<in> init_tables" by (simp add: init_tables_def)
    then have "Suc (card (init_tables - {[]})) = card init_tables" by (rule card_Suc_Diff1 [OF S])
    then show ?thesis using init_tables_card(2) by simp
  qed
  then have inv0: "vm_inv B f0 init_tables (\<lambda>va. None) [[] \<mapsto> f0] s0"
    using 0 room_mono by (simp add: vm_inv_def)
  note root = points_to_hh [OF tr f31]
  have zero: "page_aligned 0" by (simp add: page_aligned_def)
  obtain s1 t1 where 1: "map_4gb tr (phys_to_hh (addr f0)) 0 0 s0 = Some s1"
    "vm_inv B f0 init_tables (region_map 0 0 (2 ^ 20) (\<lambda>va. None)) t1 s1"
    using map_4gb_inv [OF inv0 root tr zero zero _ S init_dirs_identity] by auto
  have base: "page_aligned KERNEL_VIRT_BASE_ADDR" "page_aligned KERNEL_VIRT_TOP_ADDR"
    by (simp_all add: page_aligned_def KERNEL_VIRT_BASE_ADDR_def KERNEL_VIRT_TOP_ADDR_def)
  obtain s2 t2 where 2: "map_4gb tr (phys_to_hh (addr f0)) 0 KERNEL_VIRT_BASE_ADDR s1 = Some s2"
    "vm_inv B f0 init_tables (region_map 0 KERNEL_VIRT_BASE_ADDR (2 ^ 20)
       (region_map 0 0 (2 ^ 20) (\<lambda>va. None))) t2 s2"
    using map_4gb_inv [OF 1(2) root tr base(1) zero _ S init_dirs_direct] by auto
  obtain s3 t3 where 3: "map_4gb tr (phys_to_hh (addr f0)) physical_base KERNEL_VIRT_TOP_ADDR s2 = Some s3"
    "vm_inv B f0 init_tables (init_map physical_base) t3 s3"
    using map_4gb_inv [OF 2(2) root tr base(2) pb S init_dirs_kernel] by (auto simp: init_map_def)
  let ?s = "vmm_activate_page_directory (phys_to_hh (addr f0)) s3"
  have "vmm_init tr physical_base st = Some (phys_to_hh (addr f0), ?s)"
    by (simp add: vmm_init_def 0(1) 1(1) 2(1) 3(1))
  moreover have "tables_ok t3 ?s" "t3 [] = Some f0" "walk (vmem ?s) (addr f0) = init_map physical_base"
    using 3(2) by (simp_all add: vm_inv_def vmm_activate_page_directory_def tables_ok_def)
  moreover have "cr3 ?s = addr f0"
    by (simp add: vmm_activate_page_directory_def hh_to_phys_def phys_to_hh_def)
  ultimately show thesis using that by blast
qed

section \<open>Lookups of an existing path\<close>

lemma tables_prefix: "tables_ok tbl st \<Longrightarrow> tbl (p @ [i]) = Some g \<Longrightarrow> \<exists>f. tbl p = Some f"
  using tables_okD(5) by fastforce

lemma lowest_present:
  assumes ok: "tables_ok tbl st" and root: "tbl [] = Some f0" "points_to tr d f0"
    and tr: "direct_map tr" and g: "tbl (path va) = Some g"
  shows "lowest_table tr d va flags st = Some (addr g, st)"
proof -
  have g': "tbl (([ix 39 va, ix 30 va]) @ [ix 21 va]) = Some g" using g by (simp add: path_def)
  obtain f2 where "tbl ([ix 39 va, ix 30 va]) = Some f2" using tables_prefix [OF ok g'] by blast
  then have f2: "tbl ([ix 39 va] @ [ix 30 va]) = Some f2" by simp
  obtain f3 where f3: "tbl ([] @ [ix 39 va]) = Some f3" using tables_prefix [OF ok f2] by auto
  have slot: "tr (addr f + 8 * of_nat (ix sh va)) = slot f (ix sh va)" if "tbl q = Some f" for q f sh
    using points_to_addr [OF tr table_frame(2) [OF ok that]] by (simp add: points_to_def)
  have "tr (d + 8 * of_nat (ix 39 va)) = slot f0 (ix 39 va)"
    using root(2) by (simp add: points_to_def)
  then have "vmm_get_next_map_level tr d (of_nat (ix 39 va)) flags st = Some (addr f3, st)"
    by (intro next_level_present [OF ok root(1) _ ix_less f3]) simp_all
  moreover have "vmm_get_next_map_level tr (addr f3) (of_nat (ix 30 va)) flags st = Some (addr f2, st)"
    by (intro next_level_present [OF ok _ _ ix_less f2]) (use f3 slot in simp_all)
  moreover have "vmm_get_next_map_level tr (addr f2) (of_nat (ix 21 va)) flags st = Some (addr g, st)"
    by (intro next_level_present [OF ok _ _ ix_less g']) (use f2 slot in simp_all)
  ultimately show ?thesis by (simp add: lowest_table_def table_index_ix)
qed

lemma walk_path:
  assumes "tables_ok tbl st" "tbl [] = Some f0" "walk (vmem st) (addr f0) va \<noteq> None"
  obtains g where "tbl (path va) = Some g"
  using assms(3) that unfolding walk_leaf' [OF assms(1,2)]
  by (cases "tbl (path va)") (auto simp: leaf_def leaf_translation_def)

lemma unmap_mapped:
  assumes ok: "tables_ok tbl st" and root: "tbl [] = Some f0" "points_to tr d f0"
    and tr: "direct_map tr" and mapped: "walk (vmem st) (addr f0) va \<noteq> None"
  shows "\<exists>st'. vmm_unmap_page tr d va st = Some st' \<and> tables_ok tbl st' \<and>
     walk (vmem st') (addr f0) =
       (\<lambda>va'. if page48 va' = page48 va then None else walk (vmem st) (addr f0) va') \<and>
     vpmm st' = vpmm st \<and> flushed st' = va # flushed st \<and> (\<forall>B. zero_below B st \<longrightarrow> zero_below B st')"
proof -
  obtain g where g: "tbl (path va) = Some g" using walk_path [OF ok root(1) mapped] .
  note sp = store_page [OF ok root(1) tr g, where v = 0]
  let ?st = "vmm_flush_tlb va (store tr (addr g + 8 * table_index 12 va) 0 st)"
  have "vmm_unmap_page tr d va st = Some ?st"
    by (simp add: vmm_unmap_page_def lowest_present [OF ok root tr g])
  moreover have "walk (vmem ?st) (addr f0) = (\<lambda>va'. if page48 va' = page48 va then None else walk (vmem st) (addr f0) va')"
    by (simp add: fun_eq_iff sp(2) leaf_translation_def)
  ultimately show ?thesis using sp by auto
qed

lemma unmap_leak:
  assumes ok: "tables_ok tbl st" and root: "tbl [] = Some f0" "points_to tr d f0"
    and tr: "direct_map tr" and none: "tbl [ix 39 va] = None" and zero: "zero_below B st" and room: "room B (vpmm st) 3"
  shows "\<exists>st'. vmm_unmap_page tr d va st = Some st' \<and>
     available_pages (info (vpmm st')) = available_pages (info (vpmm st)) - 3"
proof -
  have e0: "\<not> bit (entry (vmem st) f0 (ix 39 va)) 0"
    using tables_okD(6) [OF ok root(1), of "ix 39 va"] none by simp
  have slot0: "tr (d + 8 * of_nat (ix 39 va)) = slot f0 (ix 39 va)"
    using root(2) by (simp add: points_to_def)
  have slot: "tr (addr f + 8 * of_nat (ix sh va)) = slot f (ix sh va)" if "f < 2 ^ 31" for f sh
    using points_to_addr [OF tr that] by (simp add: points_to_def)
  have room3: "room B (vpmm st) (Suc (Suc (Suc 0)))" using room by (simp add: numeral_3_eq_3)
  obtain g3 s3 where 3: "vmm_get_next_map_level tr d (of_nat (ix 39 va)) 0 st = Some (addr g3, s3)"
    "pmm_wf (vpmm s3)" "zero_below B s3" "room B (vpmm s3) (Suc (Suc 0))" "g3 < 2 ^ 31" "busy_frame (vpmm s3) g3"
    "\<not> bit (entry (vmem s3) g3 (ix 30 va)) 0"
    "available_pages (info (vpmm s3)) = available_pages (info (vpmm st)) - 1"
    by (rule unlinked_level [where tr = tr and d = d and i = "ix 39 va", OF tables_okD(1) [OF ok] zero room3 table_frame(2) [OF ok root(1)]
          tables_okD(4) [OF ok root(1)] ix_less e0 slot0]) auto
  obtain g2 s2 where 2: "vmm_get_next_map_level tr (addr g3) (of_nat (ix 30 va)) 0 s3 = Some (addr g2, s2)"
    "pmm_wf (vpmm s2)" "zero_below B s2" "room B (vpmm s2) (Suc 0)" "g2 < 2 ^ 31" "busy_frame (vpmm s2) g2"
    "\<not> bit (entry (vmem s2) g2 (ix 21 va)) 0"
    "available_pages (info (vpmm s2)) = available_pages (info (vpmm s3)) - 1"
    by (rule unlinked_level [where tr = tr and d = "addr g3" and i = "ix 30 va",
          OF 3(2-6) ix_less 3(7) slot [OF 3(5)]]) auto
  obtain g1 s1 where 1: "vmm_get_next_map_level tr (addr g2) (of_nat (ix 21 va)) 0 s2 = Some (addr g1, s1)"
    "available_pages (info (vpmm s1)) = available_pages (info (vpmm s2)) - 1"
    by (rule unlinked_level [where tr = tr and d = "addr g2" and i = "ix 21 va",
          OF 2(2-6) ix_less 2(7) slot [OF 2(5)]]) auto
  have "lowest_table tr d va 0 st = Some (addr g1, s1)"
    using 1(1) 2(1) 3(1) by (simp add: lowest_table_def table_index_ix)
  then show ?thesis
    using 1(2) 2(8) 3(8) by (simp add: vmm_unmap_page_def vmm_flush_tlb_def store_def)
qed

section \<open>Properties\<close>

text \<open>Concrete states: 64 of 128 frames free, frame 0 an empty root; and an empty machine.\<close>

definition vm_ex :: vm where
  "vm_ex = \<lparr>vmem = (\<lambda>a. 0), vpmm = pmm_ex\<lparr>bm_words := [- 1, 0]\<rparr>, flushed = [], cr3 = 0\<rparr>"

definition tbl_ex :: "nat list \<Rightarrow> nat option" where "tbl_ex = [[] \<mapsto> 0]"

definition tr_ex :: "u64 \<Rightarrow> u64" where
  "tr_ex a = (if KERNEL_VIRT_BASE_ADDR \<le> a then hh_to_phys a else a)"

lemma direct_map_tr_ex: "direct_map tr_ex"
  unfolding direct_map_def
proof (intro allI impI)
  fix a :: u64
  assume a: "unat a < 2 ^ 43"
  have "unat (a + KERNEL_VIRT_BASE_ADDR) = unat a + unat KERNEL_VIRT_BASE_ADDR"
    using a by (subst unat_add_lem [THEN iffD1]) (simp_all add: KERNEL_VIRT_BASE_ADDR_def)
  then have "KERNEL_VIRT_BASE_ADDR \<le> phys_to_hh a" by (simp add: word_le_nat_alt phys_to_hh_def)
  moreover have "\<not> KERNEL_VIRT_BASE_ADDR \<le> a"
    using a by (simp add: word_le_nat_alt KERNEL_VIRT_BASE_ADDR_def)
  ultimately show "tr_ex a = a \<and> tr_ex (phys_to_hh a) = a"
    by (simp add: tr_ex_def hh_to_phys_def phys_to_hh_def)
qed

lemma entry_zero: "entry (\<lambda>a. 0) f i = 0"
  by (rule bit_word_eqI) (simp add: entry_def read64_def bit_read_le)

lemma vm_ex_busy: "busy_frame (vpmm vm_ex) j \<longleftrightarrow> j < 64"
  by (auto simp: vm_ex_def pmm_ex_def used_def less_Suc_eq_0_disj nth_Cons' div_less_iff_less_mult)

lemma vm_ex_ok: "tables_ok tbl_ex vm_ex" "tbl_ex [] = Some 0" "zero_below 128 vm_ex" "room 128 (vpmm vm_ex) 3"
  "frames (vpmm vm_ex) = 128"
proof -
  show fr: "frames (vpmm vm_ex) = 128" by (simp add: vm_ex_def pmm_ex_def capacity_def)
  have wf: "pmm_wf (vpmm vm_ex)" by (simp add: vm_ex_def pmm_ex_def pmm_wf_def capacity_def)
  have mem: "vmem vm_ex = (\<lambda>a. 0)" by (simp add: vm_ex_def)
  show "tables_ok tbl_ex vm_ex"
    by (auto simp: tables_ok_def wf tbl_ex_def mem entry_zero vm_ex_busy split: if_splits)
  show "tbl_ex [] = Some 0" by (simp add: tbl_ex_def)
  have "free_below 128 (vpmm vm_ex) = {64..<128}" by (auto simp: free_below_def fr vm_ex_busy)
  then show "room 128 (vpmm vm_ex) 3" by (simp add: room_def) (simp add: vm_ex_def pmm_ex_def)
  show "zero_below 128 vm_ex" by (simp add: zero_below_def mem entry_zero)
qed

lemma ok_root: "tables_ok tbl st \<Longrightarrow> direct_map tr \<Longrightarrow>
   tbl [] = Some (the (tbl [])) \<and> points_to tr (phys_to_hh (root_of tbl)) (the (tbl []))"
proof -
  assume ok: "tables_ok tbl st" and tr: "direct_map tr"
  obtain f where f: "tbl [] = Some f" using tables_okD(2) [OF ok] by blast
  with points_to_hh [OF tr table_frame(2) [OF ok f]] show ?thesis by (simp add: root_of_def)
qed

lemma walk_to_middle:
  assumes ok: "tables_ok tbl st" and root: "tbl [] = Some f0" "points_to tr d f0" and tr: "direct_map tr"
    and g2: "tbl [ix 39 va, ix 30 va] = Some g2"
  shows "lowest_table tr d va flags st = vmm_get_next_map_level tr (addr g2) (of_nat (ix 21 va)) flags st"
    and "tr (addr g2 + 8 * of_nat (ix 21 va)) = slot g2 (ix 21 va)"
proof -
  have g2': "tbl ([ix 39 va] @ [ix 30 va]) = Some g2" using g2 by simp
  obtain g3 where g3: "tbl ([] @ [ix 39 va]) = Some g3" using tables_prefix [OF ok g2'] by auto
  have slot: "tr (addr f + 8 * of_nat (ix sh va)) = slot f (ix sh va)" if "tbl q = Some f" for q f sh
    using points_to_addr [OF tr table_frame(2) [OF ok that]] by (simp add: points_to_def)
  then show "tr (addr g2 + 8 * of_nat (ix 21 va)) = slot g2 (ix 21 va)" using g2 by blast
  have "tr (d + 8 * of_nat (ix 39 va)) = slot f0 (ix 39 va)"
    using root(2) by (simp add: points_to_def)
  then have "vmm_get_next_map_level tr d (of_nat (ix 39 va)) flags st = Some (addr g3, st)"
    by (intro next_level_present [OF ok root(1) _ ix_less g3]) simp_all
  moreover have "vmm_get_next_map_level tr (addr g3) (of_nat (ix 30 va)) flags st = Some (addr g2, st)"
    by (intro next_level_present [OF ok _ _ ix_less g2']) (use g3 slot in simp_all)
  ultimately show "lowest_table tr d va flags st = vmm_get_next_map_level tr (addr g2) (of_nat (ix 21 va)) flags st"
    by (simp add: lowest_table_def table_index_ix)
qed

text \<open>
  C2 \<open>vmm_map_page\<close> refines an update of the translation, for an address whose upper two tables are there.  If the
  lowest one is there too, the hardware then translates the page to the given frame and every other address as before,
  and the allocator is not asked.  If not, the lowest table is the first free frame, as it was found: nothing
  clears it, so the other pages of the 2 MiB the table stands for are translated by the words the frame held.  All
  other addresses are translated as before.  In both cases the tree stays well formed under its root and the page is
  flushed from the TLB.
\<close>

theorem vmm_map_page_refines:
  assumes "direct_map tr" and "tables_ok tbl st" and "tbl [ix 39 va, ix 30 va] \<noteq> None"
    and "available_pages (info (vpmm st)) \<noteq> 0" and "\<exists>j < frames (vpmm st). \<not> busy_frame (vpmm st) j"
    and "page_aligned pa" and "unat pa < 2 ^ 52" and "link_flags (scast flags)"
  shows "\<exists>st' tbl'. vmm_map_page tr (phys_to_hh (root_of tbl)) pa va flags st = Some st' \<and>
     tables_ok tbl' st' \<and> root_of tbl' = root_of tbl \<and> flushed st' = va # flushed st \<and>
     (if tbl (path va) \<noteq> None
      then vpmm st' = vpmm st \<and>
        walk (vmem st') (root_of tbl) =
          (\<lambda>va'. if page48 va' = page48 va then Some (pa OR (va' AND 0xfff)) else walk (vmem st) (root_of tbl) va')
      else \<exists>r. first_free_run (vpmm st) 1 r \<and> take_run (vpmm st) 1 r (vpmm st') \<and>
        walk (vmem st') (root_of tbl) =
          (\<lambda>va'. if page48 va' = page48 va then Some (pa OR (va' AND 0xfff))
                 else if path va' = path va then leaf_translation (entry (vmem st) r (ix 12 va')) va'
                 else walk (vmem st) (root_of tbl) va'))"
proof -
  note root = ok_root [OF assms(2,1)]
  then have f0: "tbl [] = Some (the (tbl []))" and pt: "points_to tr (phys_to_hh (root_of tbl)) (the (tbl []))" by auto
  have leaf: "leaf_translation (pa OR scast flags) va' = Some (pa OR (va' AND 0xfff))" for va'
    by (rule leaf_present [OF assms(6,7)]) (use assms(8) in \<open>auto simp: link_flags_def\<close>)
  have ra: "root_of tbl = addr (the (tbl []))" by (simp add: root_of_def)
  show ?thesis
  proof (cases "tbl (path va)")
    case (Some g)
    note sp = store_page [OF assms(2) f0 assms(1) Some, where v = "pa OR scast flags", unfolded leaf]
    show ?thesis
      using sp lowest_present [OF assms(2) f0 pt assms(1) Some] Some
      by (auto simp: vmm_map_page_def ra fun_eq_iff intro!: exI [of _ tbl])
  next
    case None
    obtain g2 where g2: "tbl [ix 39 va, ix 30 va] = Some g2" using assms(3) by blast
    have p: "[ix 39 va, ix 30 va] @ [ix 21 va] = path va" by (simp add: path_def)
    obtain j where "j < frames (vpmm st)" "\<not> busy_frame (vpmm st) j" using assms(5) by blast
    then obtain r pm where r: "pmm_alloc PAGE_SIZE (vpmm st) = Some (addr r, pm)" "first_free_run (vpmm st) 1 r"
      "r < frames (vpmm st)" "\<not> busy_frame (vpmm st) r" "take_run (vpmm st) 1 r pm" "pmm_wf pm"
      by (rule alloc_one [OF tables_okD(1) [OF assms(2)] assms(4)]) auto
    let ?s = "st\<lparr>vpmm := pm, vmem := write64 (slot g2 (ix 21 va)) (addr r OR scast flags) (vmem st)\<rparr>"
    let ?t = "tbl(path va \<mapsto> r)"
    note mid = walk_to_middle [OF assms(2) f0 pt assms(1) g2]
    note made = next_level_made [where tr = tr and d = "addr g2", OF assms(2) g2 _ ix_less None [folded p] assms(8) mid(2) r(1,3-6), unfolded p, simplified]
    have t0: "?t [] = Some (the (tbl []))" using f0 by (simp add: path_def)
    have tg: "?t (path va) = Some r" by simp
    note sp = store_page [OF made(2) t0 assms(1) tg, where v = "pa OR scast flags", unfolded leaf]
    have old: "walk (vmem ?s) (addr (the (tbl []))) va' =
        (if path va' = path va then leaf_translation (entry (vmem st) r (ix 12 va')) va' else walk (vmem st) (addr (the (tbl []))) va')" for va'
      using made(3) [of "path va'" "ix 12 va'"] unfolding walk_leaf' [OF made(2) t0] walk_leaf' [OF assms(2) f0] by simp
    let ?u = "vmm_flush_tlb va (store tr (addr r + 8 * table_index 12 va) (pa OR scast flags) ?s)"
    have map: "vmm_map_page tr (phys_to_hh (root_of tbl)) pa va flags st = Some ?u"
      by (simp add: vmm_map_page_def mid(1) made(1))
    have walk: "walk (vmem ?u) (root_of tbl) =
        (\<lambda>va'. if page48 va' = page48 va then Some (pa OR (va' AND 0xfff))
               else if path va' = path va then leaf_translation (entry (vmem st) r (ix 12 va')) va'
               else walk (vmem st) (root_of tbl) va')"
      by (rule ext) (simp only: ra sp(2) old)
    have take: "take_run (vpmm st) 1 r (vpmm ?u)" using r(5) sp(3) by simp
    have rt: "root_of ?t = root_of tbl" by (simp add: root_of_def path_def)
    have fl: "flushed ?u = va # flushed st" using sp(4) by simp
    have n: "(tbl (path va) \<noteq> None) = False" using None by simp
    show ?thesis unfolding n if_False
      by (rule exI [of _ ?u], rule exI [of _ ?t]) (intro conjI map sp(1) rt fl exI [of _ r] r(2) take walk)
  qed
qed

text \<open>A directory with two tables, and a first free frame that was used before: it holds a word for page 1.\<close>

definition vm_stale :: vm where
  "vm_stale = vm_ex\<lparr>vmem := write64 (slot 64 1) 0x7001 (write64 (slot 1 0) 0x2003 (write64 (slot 0 0) 0x1003 (\<lambda>a. 0)))\<rparr>"

definition tbl_stale :: "nat list \<Rightarrow> nat option" where "tbl_stale = [[] \<mapsto> 0, [0] \<mapsto> 1, [0, 0] \<mapsto> 2]"

lemma vm_stale_entry:
  "f < 2 ^ 31 \<Longrightarrow> i < 512 \<Longrightarrow> entry (vmem vm_stale) f i =
     (if f = 64 \<and> i = 1 then 0x7001 else if f = 1 \<and> i = 0 then 0x2003 else if f = 0 \<and> i = 0 then 0x1003 else 0)"
  by (simp add: vm_stale_def entry_write entry_zero)

lemma vm_stale_ok: "tables_ok tbl_stale vm_stale" "root_of tbl_stale = 0"
proof -
  have pm: "vpmm vm_stale = vpmm vm_ex" by (simp add: vm_stale_def)
  have link: "linked 0x1003 (Some 1)" "linked 0x2003 (Some 2)"
    by (simp_all add: addr_def INDEX_MASK_def bit_numeral_rec)
  show "tables_ok tbl_stale vm_stale"
    unfolding tables_ok_def pm
  proof (intro conjI allI impI, goal_cases)
    case (6 p f i)
    then show ?case using link by (auto simp: tbl_stale_def vm_stale_entry split: if_splits)
  qed (use tables_okD(1) [OF vm_ex_ok(1)] in \<open>auto simp: tbl_stale_def vm_ex_busy split: if_splits\<close>)
  show "root_of tbl_stale = 0" by (simp add: root_of_def tbl_stale_def addr_def)
qed

theorem vmm_map_page_refines_witness:
  "\<exists>st'. vmm_map_page tr_ex 0xffff800000000000 0x5000 0 3 vm_stale = Some st' \<and>
     walk (vmem st') 0 0x123 = Some 0x5123 \<and> walk (vmem vm_stale) 0 0x1123 = None \<and> walk (vmem st') 0 0x1123 = Some 0x7123"
proof -
  have ix: "ix 39 0 = 0" "ix 30 0 = 0" "path 0 = [0, 0, 0]" "path 0x1123 = [0, 0, 0]" "ix 12 0x1123 = 1"
    by (simp_all add: ix_def path_def)
  have none: "tbl_stale (path 0) = None" "tbl_stale (path 0x1123) = None" by (simp_all add: ix tbl_stale_def)
  have free: "first_free_run (vpmm vm_stale) 1 r \<Longrightarrow> r = 64" for r
    using vm_ex_ok(5) by (auto simp: first_free_run_def free_run_def vm_stale_def vm_ex_busy dest!: spec [of _ 64])
  have "walk (vmem vm_stale) (addr 0) 0x1123 = None"
    using walk_leaf' [OF vm_stale_ok(1), of 0 "0x1123"] none by (simp add: tbl_stale_def leaf_def leaf_translation_def)
  moreover obtain st' r where st': "vmm_map_page tr_ex 0xffff800000000000 0x5000 0 3 vm_stale = Some st'"
    "first_free_run (vpmm vm_stale) 1 r"
    "walk (vmem st') 0 = (\<lambda>va'. if page48 va' = page48 0 then Some (0x5000 OR (va' AND 0xfff))
       else if path va' = path 0 then leaf_translation (entry (vmem vm_stale) r (ix 12 va')) va'
       else walk (vmem vm_stale) 0 va')"
  proof -
    have av: "available_pages (info (vpmm vm_stale)) \<noteq> 0" by (simp add: vm_stale_def vm_ex_def pmm_ex_def)
    have fr: "\<exists>j < frames (vpmm vm_stale). \<not> busy_frame (vpmm vm_stale) j"
      using vm_ex_ok(5) vm_ex_busy [of 64] by (intro exI [of _ 64]) (simp add: vm_stale_def)
    have up: "tbl_stale [ix 39 0, ix 30 0] \<noteq> None" by (simp add: ix tbl_stale_def)
    have pa: "page_aligned 0x5000" "unat (0x5000 :: u64) < 2 ^ 52" "link_flags (scast (3 :: s32))"
      by (simp_all add: page_aligned_def map_flags)
    have hh: "phys_to_hh 0 = 0xffff800000000000" by (simp add: phys_to_hh_def KERNEL_VIRT_BASE_ADDR_def)
    have n: "(tbl_stale (path 0) \<noteq> None) = False" using none(1) by simp
    from vmm_map_page_refines [OF direct_map_tr_ex vm_stale_ok(1) up av fr pa, unfolded n if_False vm_stale_ok(2) hh]
    show thesis using that by blast
  qed
  moreover have "r = 64" by (rule free [OF st'(2)])
  moreover have "entry (vmem vm_stale) 64 1 = 0x7001" by (simp add: vm_stale_entry)
  moreover have "leaf_translation 0x7001 0x1123 = Some 0x7123" by (simp add: leaf_translation_def PTE_ADDR_def bit_numeral_rec)
  moreover have "page48 0x123 = page48 0" "page48 0x1123 \<noteq> page48 0" by (simp_all add: page48_def)
  ultimately show ?thesis using ix by (intro exI [of _ st']) (simp add: addr_def)
qed

text \<open>
  C33 \<open>vmm_unmap_page\<close> of a mapped page removes exactly that page from the translation,
  flushes it, and leaves the tree and the page allocator alone.
\<close>

theorem vmm_unmap_page_refines:
  assumes "direct_map tr" and "tables_ok tbl st" and "walk (vmem st) (root_of tbl) va \<noteq> None"
  shows "\<exists>st'. vmm_unmap_page tr (phys_to_hh (root_of tbl)) va st = Some st' \<and> tables_ok tbl st' \<and>
     walk (vmem st') (root_of tbl) =
       (\<lambda>va'. if page48 va' = page48 va then None else walk (vmem st) (root_of tbl) va') \<and>
     vpmm st' = vpmm st \<and> flushed st' = va # flushed st \<and> (\<forall>B. zero_below B st \<longrightarrow> zero_below B st')"
  using ok_root [OF assms(2,1)] unmap_mapped [OF assms(2) _ _ assms(1)] assms(3)
  unfolding root_of_def by blast

lemma vm_ex_mapped:
  obtains tbl st where "tables_ok tbl st" "root_of tbl = 0" "walk (vmem st) 0 0x400000 = Some 0x5000"
proof -
  have "vm_inv 128 0 (path_tables 0x400000) (walk (vmem vm_ex) (addr 0)) tbl_ex vm_ex"
    using vm_ex_ok room_mono [OF vm_ex_ok(4) card_path_tables(2)] by (simp add: vm_inv_def)
  moreover have "page_aligned 0x5000" "unat (0x5000 :: u64) < 2 ^ 52" by (simp_all add: page_aligned_def)
  moreover have "link_flags (scast (3 :: s32))" by (simp add: map_flags)
  ultimately obtain st tbl where "vm_inv 128 0 (path_tables 0x400000) (\<lambda>va'. if page48 va' = page48 0x400000
      then Some (0x5000 OR (va' AND 0xfff)) else walk (vmem vm_ex) (addr 0) va') tbl st"
    using map_page_step [where va = "0x400000" and flags = 3 and pa = "0x5000",
        OF _ points_to_addr [OF direct_map_tr_ex] direct_map_tr_ex card_path_tables(1) order_refl]
    by force
  then show thesis by (intro that [of tbl st]) (auto simp: vm_inv_def root_of_def addr_def)
qed

theorem vmm_unmap_page_refines_witness:
  "\<exists>st st' root. walk (vmem st) root 0x400000 = Some 0x5000 \<and>
     vmm_unmap_page tr_ex (phys_to_hh root) 0x400000 st = Some st' \<and>
     walk (vmem st') root 0x400000 = None"
proof -
  obtain tbl st where "tables_ok tbl st" "root_of tbl = 0" "walk (vmem st) 0 0x400000 = Some 0x5000"
    using vm_ex_mapped .
  with vmm_unmap_page_refines [OF direct_map_tr_ex, of tbl st "0x400000"] show ?thesis by fastforce
qed

text \<open>
  Unmapping an address whose top-level entry is empty allocates three page tables: the
  address was not mapped, and three pages are gone from the allocator.
\<close>

theorem vmm_unmap_page_leaks:
  assumes "direct_map tr" and "tables_ok tbl st" and "zero_below B st" and "room B (vpmm st) 3" and "tbl [ix 39 va] = None"
  shows "walk (vmem st) (root_of tbl) va = None \<and>
     (\<exists>st'. vmm_unmap_page tr (phys_to_hh (root_of tbl)) va st = Some st' \<and>
        available_pages (info (vpmm st')) = available_pages (info (vpmm st)) - 3)"
proof -
  note root = ok_root [OF assms(2,1)]
  have "tbl [ix 39 va, ix 30 va] = None" using tables_okD(5) [OF assms(2,5), of "ix 30 va"] by simp
  then have "tbl (path va) = None"
    using tables_okD(5) [OF assms(2), of "[ix 39 va, ix 30 va]" "ix 21 va"] by (simp add: path_def)
  then have "walk (vmem st) (root_of tbl) va = None"
    using walk_leaf' [OF assms(2), of "the (tbl [])" va] root
    by (simp add: leaf_def leaf_translation_def root_of_def)
  with root unmap_leak [OF assms(2) _ _ assms(1,5,3,4)] show ?thesis by blast
qed

theorem vmm_unmap_page_leaks_witness:
  "\<exists>st'. vmm_unmap_page tr_ex 0xffff800000000000 0x400000 vm_ex = Some st' \<and>
     available_pages (info (vpmm vm_ex)) = 128 \<and> available_pages (info (vpmm st')) = 125"
proof -
  have "root_of tbl_ex = 0" using vm_ex_ok(2) by (simp add: root_of_def addr_def)
  moreover have "tbl_ex [ix 39 0x400000] = None" by (simp add: tbl_ex_def)
  moreover have "available_pages (info (vpmm vm_ex)) = 128" by (simp add: vm_ex_def pmm_ex_def)
  ultimately show ?thesis
    using vmm_unmap_page_leaks [OF direct_map_tr_ex vm_ex_ok(1,3,4), of "0x400000"]
    by (auto simp: phys_to_hh_def KERNEL_VIRT_BASE_ADDR_def)
qed

text \<open>
  The allocator's error is not looked at: with no page left, the lookup of a missing table
  installs an entry of all ones and goes on with a table at the top of the address space.
\<close>

theorem vmm_level_ignores_exhaustion:
  assumes "available_pages (info (vpmm st)) = 0"
    and "\<not> bit (load tr (page_directory + 8 * index) st) 0"
  shows "\<exists>st'. vmm_get_next_map_level tr page_directory index flags st =
       Some (0xfffffffffffffe00, st') \<and>
     load tr (page_directory + 8 * index) st' = - 1"
proof -
  let ?a = "page_directory + 8 * index"
  have "(- 1 OR scast flags :: u64) = - 1" by simp
  moreover have "(- 1 :: u64) AND NOT INDEX_MASK = 0xfffffffffffffe00" by (simp add: INDEX_MASK_def)
  ultimately show ?thesis
    using assms and_one
    by (simp add: vmm_get_next_map_level_def pmm_alloc_def scast_ENOMEM load_def store_def Let_def)
qed

theorem vmm_level_ignores_exhaustion_witness:
  "\<exists>st st'. vmm_get_next_map_level tr_ex 0x1000 5 3 st = Some (0xfffffffffffffe00, st')"
proof -
  let ?st = "vm_ex\<lparr>vpmm := pmm_ex\<lparr>info := info0\<rparr>\<rparr>"
  have "load tr_ex a ?st = 0" for a
    using bit_word_eqI [of "read64 (\<lambda>a. 0) (tr_ex a)" 0]
    by (simp add: load_def vm_ex_def read64_def bit_read_le)
  with vmm_level_ignores_exhaustion [of ?st tr_ex "0x1000" 5 3] show ?thesis
    by (auto simp: info0_def)
qed

lemma page_off_low:
  assumes "unat va < 2 ^ 32"
  shows "page_off KERNEL_VIRT_TOP_ADDR va = (unat va + 2 ^ 31) div 4096"
    and "2 ^ 20 \<le> page_off KERNEL_VIRT_BASE_ADDR va" and "page_off 0 va = unat va div 4096"
proof -
  have top: "va - KERNEL_VIRT_TOP_ADDR = va + 0x80000000" by (simp add: KERNEL_VIRT_TOP_ADDR_def)
  have "unat (va + 0x80000000) = unat va + 2 ^ 31"
    using assms by (subst unat_add_lem [THEN iffD1]) simp_all
  then show "page_off KERNEL_VIRT_TOP_ADDR va = (unat va + 2 ^ 31) div 4096"
    using assms unfolding page_off_def top by simp
  have base: "va - KERNEL_VIRT_BASE_ADDR = va + 0x800000000000" by (simp add: KERNEL_VIRT_BASE_ADDR_def)
  have "unat (va + 0x800000000000) = unat va + 2 ^ 47"
    using assms by (subst unat_add_lem [THEN iffD1]) simp_all
  then have "page_off KERNEL_VIRT_BASE_ADDR va = (unat va + 2 ^ 47) div 4096"
    using assms unfolding page_off_def base by simp
  also have "2 ^ 20 \<le> (unat va + 2 ^ 47) div 4096"
    by (rule order_trans [OF _ div_le_mono [of "2 ^ 47"]]) simp_all
  finally show "2 ^ 20 \<le> page_off KERNEL_VIRT_BASE_ADDR va" .
  show "page_off 0 va = unat va div 4096" using assms by (simp add: page_off_def)
qed

lemma init_map_low:
  assumes "page_aligned va"
  shows "unat va < 2 ^ 31 \<Longrightarrow> init_map pb va = Some (pb + 0x80000000 + va)"
    and "2 ^ 31 \<le> unat va \<Longrightarrow> unat va < 2 ^ 32 \<Longrightarrow> init_map pb va = Some va"
proof -
  have "bit (0xfff :: u64) b \<Longrightarrow> b < 12" for b by (rule bit_lt [of "0xfff"]) simp_all
  then have low: "va AND 0xfff = 0"
    using assms by (intro bit_word_eqI) (auto simp: bit_and_iff page_aligned_bits)
  have pages: "of_nat (n div 4096) * PAGE_SIZE = (of_nat n :: u64)" if "n mod 4096 = 0" for n
  proof -
    have "of_nat (n div 4096) * PAGE_SIZE = (of_nat (n div 4096 * 4096) :: u64)"
      unfolding PAGE_SIZE_def by simp
    also have "n div 4096 * 4096 = n" using div_mult_mod_eq [of n 4096] unfolding that by simp
    finally show ?thesis .
  qed
  obtain q where q: "unat va = 4096 * q" using assms by (auto simp: page_aligned_def)
  {
    assume *: "unat va < 2 ^ 31"
    then have "(unat va + 2 ^ 31) div 4096 < 2 ^ 20" by (intro less_mult_imp_div_less) simp
    moreover have "of_nat ((unat va + 2 ^ 31) div 4096) * PAGE_SIZE = (of_nat (unat va + 2 ^ 31) :: u64)"
      by (rule pages) (simp add: q)
    moreover have "(of_nat (unat va + 2 ^ 31) :: u64) = 0x80000000 + va" by simp
    ultimately show "init_map pb va = Some (pb + 0x80000000 + va)"
      using page_off_low(1) [of va] * low by (simp add: init_map_def region_map_def add.assoc)
  next
    assume *: "2 ^ 31 \<le> unat va" "unat va < 2 ^ 32"
    then have "\<not> (unat va + 2 ^ 31) div 4096 < 2 ^ 20"
      using div_le_mono [of "2 ^ 32" "unat va + 2 ^ 31" 4096] by simp
    moreover have "unat va div 4096 < 2 ^ 20" using *(2) by (intro less_mult_imp_div_less) simp
    moreover have "of_nat (unat va div 4096) * PAGE_SIZE = va"
      using pages [of "unat va"] assms unfolding page_aligned_def by simp
    ultimately show "init_map pb va = Some va"
      using page_off_low [OF *(2)] low by (simp add: init_map_def region_map_def)
  }
qed

text \<open>
  C29 \<open>vmm_init\<close>, if the frames it takes hold zeros: below some \<open>B\<close> there are free frames for the 5134 tables, and
  those below \<open>B\<close> are zero.  (The code relies on it: it clears the root and no other table.  What the free frames above
  hold, the bitmap of the allocator for one, does not matter.)  It then returns, \<open>cr3\<close> holds the physical address of the
  root it returns, and the hardware translates exactly by \<open>init_map\<close>: first the window of the kernel, then the direct
  map, then the identity map, and nothing else.  The window of the kernel runs past the top of the address space, so
  the pages below 2 GiB are not identity mapped: they are translated to the memory 2 GiB above the
  kernel's physical base.  Those from 2 to 4 GiB are identity mapped.
\<close>

theorem vmm_init_maps:
  assumes "direct_map tr" and "pmm_wf (vpmm st)" and "zero_below B st" and "room B (vpmm st) 5134"
    and "page_aligned physical_base" and "unat physical_base < 2 ^ 51"
  shows "\<exists>st' tbl. vmm_init tr physical_base st = Some (phys_to_hh (cr3 st'), st') \<and>
     tables_ok tbl st' \<and> root_of tbl = cr3 st' \<and> walk (vmem st') (cr3 st') = init_map physical_base \<and>
     (\<forall>va. page_aligned va \<and> unat va < 2 ^ 31 \<longrightarrow>
        walk (vmem st') (cr3 st') va = Some (physical_base + 0x80000000 + va)) \<and>
     (\<forall>va. page_aligned va \<and> 2 ^ 31 \<le> unat va \<and> unat va < 2 ^ 32 \<longrightarrow> walk (vmem st') (cr3 st') va = Some va)"
proof -
  obtain f0 st' tbl where "vmm_init tr physical_base st = Some (phys_to_hh (addr f0), st')"
    "tables_ok tbl st'" "tbl [] = Some f0" "cr3 st' = addr f0"
    "walk (vmem st') (addr f0) = init_map physical_base"
    by (rule vmm_init_establishes [OF assms]) auto
  then show ?thesis using init_map_low by (auto simp: root_of_def)
qed

text \<open>A machine with 65536 free frames, of which those from 20000 on were used before.\<close>

definition vm_big_ex :: vm where
  "vm_big_ex = \<lparr>vmem = (\<lambda>a. if a < 0x4e20000 then 0 else 0xff), vpmm = pmm_ex\<lparr>bm_words := replicate 1024 0,
     info := (info pmm_ex)\<lparr>total_pages := 65536, available_pages := 65536\<rparr>\<rparr>, flushed = [], cr3 = 0\<rparr>"

lemma vm_big_ex_facts:
  "pmm_wf (vpmm vm_big_ex)" "zero_below 20000 vm_big_ex" "room 20000 (vpmm vm_big_ex) 5134"
proof -
  have fr: "frames (vpmm vm_big_ex) = 65536" "\<not> busy_frame (vpmm vm_big_ex) j" for j
    by (simp_all add: vm_big_ex_def capacity_def used_replicate_zero)
  show "pmm_wf (vpmm vm_big_ex)" by (simp add: vm_big_ex_def pmm_wf_def capacity_def)
  have free: "free_below 20000 (vpmm vm_big_ex) = {..<20000}" by (auto simp: free_below_def fr)
  have "entry (vmem vm_big_ex) f i = 0" if "f < 20000" "i < 512" for f i
  proof -
    have "slot f i + of_nat b < 0x4e20000" if "b < 8" for b
    proof -
      have "unat (slot f i + of_nat b) = 4096 * f + 8 * i + b"
        using aligned8_add [OF aligned8_slot that] unat_slot \<open>f < 20000\<close> \<open>i < 512\<close> by simp
      then show ?thesis using \<open>f < 20000\<close> \<open>i < 512\<close> \<open>b < 8\<close> by (simp add: word_less_nat_alt)
    qed
    then show ?thesis
      by (intro bit_word_eqI) (simp add: entry_def read64_def bit_read_le vm_big_ex_def)
  qed
  then show "zero_below 20000 vm_big_ex" by (simp add: zero_below_def free)
  show "room 20000 (vpmm vm_big_ex) 5134" by (simp add: room_def free) (simp add: vm_big_ex_def)
qed

theorem vmm_init_maps_witness:
  "\<exists>st'. vmm_init tr_ex 0x1000000 vm_big_ex = Some (phys_to_hh (cr3 st'), st') \<and>
     walk (vmem st') (cr3 st') = init_map 0x1000000 \<and> walk (vmem st') (cr3 st') 0x400000 = Some 0x81400000"
proof -
  have "page_aligned 0x1000000" "page_aligned 0x400000" by (simp_all add: page_aligned_def)
  with vmm_init_maps [OF direct_map_tr_ex vm_big_ex_facts, of "0x1000000"] show ?thesis by force
qed

text \<open>
  \<open>mmap\<close> of up to 16 MiB maps one page: however many pages were asked for and allocated,
  only the first is entered into the tables.
\<close>

theorem mmap_maps_one_page:
  assumes "0 < unat sz" and "pages_of sz \<le> 4096"
  shows "mmap tr root vaddr sz flags st =
     Option.bind (pmm_alloc (align_up sz) (vpmm st)) (\<lambda>(ptr, pm).
       map_option (Pair vaddr) (vmm_map_page tr root ptr vaddr flags (st\<lparr>vpmm := pm\<rparr>)))"
proof -
  have up: "(if sz mod PAGE_SIZE \<noteq> 0 then align_up sz else sz) = align_up sz"
    by (simp add: align_up_def)
  have "unat (align_up sz) = 4096 * pages_of sz"
    using assms(2) by (simp add: unat_align_up pages_of_def)
  then have pages: "unat (align_up sz div PAGE_SIZE) = pages_of sz" by (simp add: unat_page_div)
  moreover have "0 < pages_of sz" using assms(1) by (simp add: pages_of_def div_greater_zero_iff)
  then have "(pages_of sz + 4095) div 4096 = 1"
    using assms(2) by (intro div_nat_eqI) simp_all
  moreover have "unat PAGE_SIZE = 4096" by (simp add: PAGE_SIZE_def)
  moreover have "pages_of sz + 4096 - 1 = pages_of sz + 4095" by simp
  ultimately have "mmap_pages (align_up sz div PAGE_SIZE) = [0]"
    unfolding mmap_pages_def by (simp only:) simp
  then show ?thesis
    by (simp add: mmap_def Let_def up bind_map_option comp_def split_def)
qed

theorem mmap_maps_one_page_witness:
  "mmap tr_ex 0xffff800000000000 0x400000 0x3000 3 vm_ex =
     Option.bind (pmm_alloc 0x3000 (vpmm vm_ex)) (\<lambda>(ptr, pm).
       map_option (Pair 0x400000)
         (vmm_map_page tr_ex 0xffff800000000000 ptr 0x400000 3 (vm_ex\<lparr>vpmm := pm\<rparr>)))"
proof -
  have "align_up 0x3000 = 0x3000" by (simp add: align_up_def PAGE_SIZE_def)
  then show ?thesis
    using mmap_maps_one_page [of "0x3000" tr_ex "0xffff800000000000" "0x400000" 3 vm_ex]
    by (simp add: pages_of_def)
qed

end
