(* ===== verification/Heap.thy ===== *)
theory Heap
  imports Pmm
begin

text \<open>
  mm/heap.c and \<open>malloc\<close> of klibc/alloc.c: the kernel heap, a bitmap of 16-byte blocks over
  a region obtained from the page allocator.  The state is the global \<open>heap\<close>.
\<close>

section \<open>State and operations\<close>

definition FRAZZOS_HEAP_SIZE :: u64 where "FRAZZOS_HEAP_SIZE = 104857600"
definition BLOCK_SIZE :: u64 where "BLOCK_SIZE = 16"

record heap =
  heap_addr :: u64
  used_blocks :: u64
  free_blocks :: u64
  hbitmap :: "u64 list"

definition heap_words :: nat where
  "heap_words = unat (FRAZZOS_HEAP_SIZE div BLOCK_SIZE div 64)"

definition heap_init :: "pmm \<Rightarrow> (heap \<times> pmm) option" where
  "heap_init st =
     map_option (\<lambda>(p, st'). (\<lparr>heap_addr = phys_to_hh p, used_blocks = 0,
         free_blocks = FRAZZOS_HEAP_SIZE div BLOCK_SIZE, hbitmap = replicate heap_words 0\<rparr>, st'))
       (pmm_alloc FRAZZOS_HEAP_SIZE st)"

text \<open>
  \<open>buffer_long_size\<close> is the size of the bitmap in bytes; \<open>find_first_free\<close> takes it as a
  number of words.
\<close>

definition buffer_long_size :: u64 where
  "buffer_long_size = FRAZZOS_HEAP_SIZE div BLOCK_SIZE div 64 * 8"

partial_function (option) malloc_search :: "u64 list \<Rightarrow> u64 \<Rightarrow> s32 \<Rightarrow> s32 option" where
  "malloc_search bitmap n start =
     Option.bind (is_free_region_big_enough start bitmap n) (\<lambda>next_start.
       if next_start \<noteq> 0 then
         Option.bind (find_first_free (scast next_start) bitmap buffer_long_size) (\<lambda>start'.
           if 0 \<le> sint start' then malloc_search bitmap n start' else Some start')
       else Some start)"

declare malloc_search.simps [code]

definition malloc :: "u64 \<Rightarrow> heap \<Rightarrow> (u64 \<times> heap) option" where
  "malloc sz h =
     (if free_blocks h < sz div BLOCK_SIZE then Some (scast ENOMEM, h)
      else
        Option.bind (find_first_free 0 (hbitmap h) buffer_long_size) (\<lambda>start0.
        Option.bind (malloc_search (hbitmap h) (sz div BLOCK_SIZE) start0) (\<lambda>start.
          if start = - 1 then Some (scast ENOMEM, h)
          else
            map_option
              (\<lambda>w. (heap_addr h + 8 * scast (start * 16),
                    h\<lparr>hbitmap := w, free_blocks := free_blocks h - sz div BLOCK_SIZE,
                      used_blocks := used_blocks h + sz div BLOCK_SIZE\<rparr>))
              (for_range (\<lambda>i. bitmap_set_bit (of_nat i)) (unat (scast start :: u64))
                 (unat (scast start + sz div BLOCK_SIZE)) (hbitmap h)))))"

section \<open>The search of malloc is first fit\<close>

definition heap_ok :: "u64 list \<Rightarrow> bool" where
  "heap_ok w \<longleftrightarrow> length w = 102400"

lemma heap_words_eq: "heap_words = 102400"
  by (simp add: heap_words_def FRAZZOS_HEAP_SIZE_def BLOCK_SIZE_def)

lemma buffer_long_size_eq: "buffer_long_size = 819200"
  by (simp add: buffer_long_size_def FRAZZOS_HEAP_SIZE_def BLOCK_SIZE_def)

lemma heap_capacity: "heap_ok w \<Longrightarrow> capacity w = 6553600"
  by (simp add: heap_ok_def capacity_def)

lemma heap_find_hit:
  assumes "heap_ok w" "first_free w s k" "k < capacity w"
  shows "find_first_free (of_nat s) w buffer_long_size = Some (of_nat k)"
  by (rule find_first_free_hit) (use assms in \<open>auto simp: heap_capacity buffer_long_size_eq\<close>)

text \<open>With no free block left the scan runs past the bitmap.\<close>

lemma heap_find_none:
  assumes "heap_ok w" "s < capacity w" "\<And>j. s \<le> j \<Longrightarrow> j < capacity w \<Longrightarrow> used w j"
  shows "find_first_free (of_nat s) w buffer_long_size = None"
proof -
  have "find_first_free (of_nat s) w buffer_long_size =
    (if unat buffer_long_size \<le> Suc (s div 64) \<or> unat buffer_long_size \<le> length w
     then Some ENOMEM else None)"
    by (rule find_first_free_all_used)
       (use assms in \<open>auto simp: heap_capacity buffer_long_size_eq\<close>)
  with assms show ?thesis by (simp add: heap_ok_def capacity_def buffer_long_size_eq)
qed

lemma malloc_search_hit:
  assumes "heap_ok w" "n < 2 ^ 31" "s + n \<le> capacity w" "\<And>i. i < n \<Longrightarrow> \<not> used w (s + i)"
  shows "malloc_search w (of_nat n) (of_nat s) = Some (of_nat s)"
proof -
  have "is_free_region_big_enough (of_nat s) w (of_nat n) = Some 0"
    by (rule region_free) (use assms in \<open>auto simp: heap_capacity unat_of_nat64\<close>)
  then show ?thesis by (subst malloc_search.simps) simp
qed

lemma malloc_search_busy:
  assumes "heap_ok w" "n < 2 ^ 31" "0 < i" "i < n" "s + i < capacity w" "used w (s + i)"
    "\<And>j. j < i \<Longrightarrow> \<not> used w (s + j)"
  shows "malloc_search w (of_nat n) (of_nat s) =
    Option.bind (find_first_free (of_nat (s + i)) w buffer_long_size) (\<lambda>f.
      if 0 \<le> sint f then malloc_search w (of_nat n) f else Some f)"
proof -
  from assms have lim: "s + i < 2 ^ 31" by (simp add: heap_capacity)
  have "is_free_region_big_enough (of_nat s) w (of_nat n) = Some (of_nat (s + i))"
    by (rule region_busy) (use assms in \<open>auto simp: heap_capacity unat_of_nat64\<close>)
  moreover have "(of_nat (s + i) :: s32) \<noteq> 0"
    using assms(3) lim by (intro index_nonzero) simp_all
  ultimately show ?thesis using lim
    by (subst malloc_search.simps) (simp add: scast_of_nat32 del: of_nat_add)
qed

interpretation heap_fit: first_fit heap_ok used capacity
  "\<lambda>w n. malloc_search w (of_nat n)" "of_nat :: nat \<Rightarrow> s32" None
proof (unfold_locales, goal_cases)
  case (1 w n s)
  then show ?case by (intro malloc_search_hit)
next
  case (2 w n i s k)
  then have k: "k < 2 ^ 31" by (simp add: heap_capacity)
  have "find_first_free (of_nat (s + i)) w buffer_long_size = Some (of_nat k)"
    by (rule heap_find_hit) (use 2 in \<open>auto simp: first_free_def\<close>)
  with 2 k show ?case by (simp add: malloc_search_busy sint_of_nat32 del: of_nat_add)
next
  case (3 w n i s)
  have "find_first_free (of_nat (s + i)) w buffer_long_size = None"
    by (rule heap_find_none) (use 3 in auto)
  with 3 show ?case by (simp add: malloc_search_busy del: of_nat_add)
next
  case (4 w n s)
  have "is_free_region_big_enough (of_nat s) w (of_nat n) = None"
    by (rule region_overrun) (use 4 in \<open>auto simp: heap_capacity unat_of_nat64\<close>)
  then show ?case by (subst malloc_search.simps) simp
qed

section \<open>What malloc does\<close>

text \<open>Blocks a request takes: the size divided by 16, rounded down.\<close>

definition blocks_of :: "u64 \<Rightarrow> nat" where
  "blocks_of sz = unat sz div 16"

definition heap_wf :: "heap \<Rightarrow> bool" where
  "heap_wf h \<longleftrightarrow> heap_ok (hbitmap h) \<and> unat (heap_addr h) + 128 * 6553600 \<le> 2 ^ 64"

abbreviation busy_block :: "heap \<Rightarrow> nat \<Rightarrow> bool" where
  "busy_block h \<equiv> used (hbitmap h)"

definition block_run :: "heap \<Rightarrow> nat \<Rightarrow> nat \<Rightarrow> bool" where
  "block_run h n s \<longleftrightarrow> s + n \<le> 6553600 \<and> (\<forall>i<n. \<not> busy_block h (s + i))"

definition first_block_run :: "heap \<Rightarrow> nat \<Rightarrow> nat \<Rightarrow> bool" where
  "first_block_run h n s \<longleftrightarrow> block_run h n s \<and> (\<forall>t < s. \<not> block_run h n t)"

definition take_blocks :: "heap \<Rightarrow> nat \<Rightarrow> nat \<Rightarrow> heap \<Rightarrow> bool" where
  "take_blocks h n s h' \<longleftrightarrow>
     heap_addr h' = heap_addr h \<and>
     (\<forall>j. busy_block h' j \<longleftrightarrow> busy_block h j \<or> (\<exists>i. s \<le> i \<and> i < s + n \<and> aliased i j)) \<and>
     free_blocks h' = free_blocks h - of_nat n \<and> used_blocks h' = used_blocks h + of_nat n"

lemma blocks_word: "sz div BLOCK_SIZE = of_nat (blocks_of sz)"
proof -
  have "unat sz div 16 < 2 ^ 64" using unat_u64_bound [of sz] by simp
  then show ?thesis
    by (simp add: blocks_of_def BLOCK_SIZE_def word_unat_eq_iff unat_div_distrib unat_of_nat64)
qed

text \<open>The address of a block: the code scales the block number by 16 and then by 8.\<close>

lemma block_addr:
  assumes "s < 6553600"
  shows "(a :: u64) + 8 * scast ((of_nat s :: s32) * 16) = a + of_nat (128 * s)"
proof -
  have "(of_nat s :: s32) * 16 = of_nat (s * 16)" by simp
  moreover have "(scast (of_nat (s * 16) :: s32) :: u64) = of_nat (s * 16)"
    using assms by (intro scast_of_nat32) simp
  ultimately have "(8 :: u64) * scast ((of_nat s :: s32) * 16) = 8 * of_nat (s * 16)" by (simp only:)
  also have "\<dots> = of_nat (128 * s)" by simp
  finally show ?thesis by simp
qed

lemma heap_first_free:
  assumes "heap_ok w" "\<not> used w k" "k < capacity w"
  obtains f where "first_free w 0 f" "f \<le> k" "find_first_free 0 w buffer_long_size = Some (of_nat f)"
proof -
  obtain f where f: "f \<le> k" "\<not> used w f" "\<And>j. 0 \<le> j \<Longrightarrow> j < f \<Longrightarrow> used w j"
    using heap_fit.least_free [of 0 k w] assms by blast
  then have "first_free w 0 f" by (auto simp: first_free_def)
  moreover from this f(1) assms have "find_first_free (of_nat 0) w buffer_long_size = Some (of_nat f)"
    by (intro heap_find_hit) simp_all
  ultimately show thesis using f(1) by (intro that) simp_all
qed

lemma malloc_run:
  assumes wf: "heap_wf h" and av: "\<not> free_blocks h < sz div BLOCK_SIZE"
    and n: "0 < blocks_of sz" and s: "first_block_run h (blocks_of sz) s"
  shows "\<exists>h'. malloc sz h = Some (heap_addr h + of_nat (128 * s), h') \<and>
     take_blocks h (blocks_of sz) s h' \<and> heap_wf h'"
proof -
  let ?n = "blocks_of sz" and ?w = "hbitmap h"
  have ok: "heap_ok ?w" "capacity ?w = 6553600" using wf heap_capacity by (auto simp: heap_wf_def)
  have run: "s + ?n \<le> 6553600" "\<not> used ?w s"
    using s n unfolding first_block_run_def block_run_def by (auto dest: spec [of _ 0])
  then have lt: "s < 6553600" "?n < 2 ^ 31" using n by simp_all
  obtain f where f: "first_free ?w 0 f" "f \<le> s" "find_first_free 0 ?w buffer_long_size = Some (of_nat f)"
    using heap_first_free [OF ok(1) run(2)] lt ok(2) by auto
  have "heap_fit.first_run ?w ?n f s"
    using s f(2) ok(2)
    by (auto simp: heap_fit.first_run_def heap_fit.run_def first_block_run_def block_run_def)
  then have search: "malloc_search ?w (of_nat ?n) (of_nat f) = Some (of_nat s)"
    by (intro heap_fit.run_exists_search [OF ok(1) lt(2)])
       (use f lt ok(2) in \<open>auto simp: first_free_def\<close>)
  obtain w where w: "for_range (\<lambda>i. bitmap_set_bit (of_nat i)) s (s + ?n) ?w = Some w"
    and wr: "set_bit.written s (s + ?n) ?w w"
    using set_bit.wr_range_total [of "s + ?n" ?w s] run ok(2) by auto
  have bounds: "(scast (of_nat s :: s32) :: u64) = of_nat s" "unat (of_nat s :: u64) = s"
    "unat (of_nat s + of_nat ?n :: u64) = s + ?n" "(of_nat s :: s32) \<noteq> - 1"
    using lt run unat_of_nat64 [of "s + ?n"]
    by (simp_all add: scast_of_nat32 unat_of_nat64 index_not_minus1)
  let ?h = "h\<lparr>hbitmap := w, free_blocks := free_blocks h - of_nat ?n,
              used_blocks := used_blocks h + of_nat ?n\<rparr>"
  have "malloc sz h = Some (heap_addr h + of_nat (128 * s), ?h)"
    using av f(3) search w bounds block_addr [OF lt(1)]
    by (simp add: malloc_def blocks_word del: of_nat_mult)
  moreover have "take_blocks h ?n s ?h"
    using wr by (auto simp: take_blocks_def set_bit.written_def)
  moreover have "heap_wf ?h"
    using wf wr by (auto simp: heap_wf_def heap_ok_def set_bit.written_def capacity_def)
  ultimately show ?thesis by blast
qed

lemma malloc_no_run:
  assumes wf: "heap_wf h" and av: "\<not> free_blocks h < sz div BLOCK_SIZE"
    and n: "0 < blocks_of sz" "blocks_of sz < 2 ^ 31" and no: "\<And>s. \<not> block_run h (blocks_of sz) s"
  shows "malloc sz h = None"
proof (cases "\<exists>k<6553600. \<not> busy_block h k")
  case False
  have ok: "heap_ok (hbitmap h)" "capacity (hbitmap h) = 6553600"
    using wf heap_capacity by (auto simp: heap_wf_def)
  have "find_first_free (of_nat 0) (hbitmap h) buffer_long_size = None"
    by (rule heap_find_none [OF ok(1)]) (use False ok in auto)
  with av show ?thesis by (simp add: malloc_def)
next
  case True
  then obtain k where k: "k < 6553600" "\<not> busy_block h k" by blast
  have ok: "heap_ok (hbitmap h)" "capacity (hbitmap h) = 6553600"
    using wf heap_capacity by (auto simp: heap_wf_def)
  obtain f where f: "first_free (hbitmap h) 0 f" "f \<le> k"
    "find_first_free 0 (hbitmap h) buffer_long_size = Some (of_nat f)"
    using heap_first_free [OF ok(1) k(2)] k(1) ok(2) by auto
  have "malloc_search (hbitmap h) (of_nat (blocks_of sz)) (of_nat f) = None \<or>
        malloc_search (hbitmap h) (of_nat (blocks_of sz)) (of_nat f) = None"
    by (rule heap_fit.search_no_run [OF ok(1) n(2)])
       (use f k ok(2) no in \<open>auto simp: first_free_def heap_fit.run_def block_run_def\<close>)
  with av f(3) show ?thesis by (simp add: malloc_def blocks_word)
qed

lemma block_run_first:
  assumes "block_run h n s"
  obtains s0 where "first_block_run h n s0"
proof -
  from assms have "\<exists>s. block_run h n s" by blast
  then show thesis using that by (subst (asm) exists_least_iff) (auto simp: first_block_run_def)
qed

text \<open>A heap whose upper part is free serves small requests from its first free blocks.\<close>

definition clear_from :: "heap \<Rightarrow> nat \<Rightarrow> bool" where
  "clear_from h b \<longleftrightarrow> (\<forall>j. b \<le> j \<and> j < 6553600 \<longrightarrow> \<not> busy_block h j)"

lemma malloc_clear:
  assumes wf: "heap_wf h" and clear: "clear_from h (64 * w)" and w: "64 * w + 64 \<le> 6553600"
    and n: "0 < blocks_of sz" "blocks_of sz \<le> 64" and av: "blocks_of sz \<le> unat (free_blocks h)"
  shows "\<exists>s h'. malloc sz h = Some (heap_addr h + of_nat (128 * s), h') \<and> s \<le> 64 * w \<and> heap_wf h' \<and>
     clear_from h' (64 * (w + 1)) \<and> heap_addr h' = heap_addr h \<and>
     unat (free_blocks h') = unat (free_blocks h) - blocks_of sz"
proof -
  let ?n = "blocks_of sz"
  have "block_run h ?n (64 * w)"
    using clear w n(2) by (auto simp: block_run_def clear_from_def)
  then obtain s where s: "first_block_run h ?n s" "s \<le> 64 * w"
    using block_run_first [of h ?n "64 * w"] by (metis first_block_run_def not_le)
  have "\<not> free_blocks h < sz div BLOCK_SIZE"
    using av by (simp add: word_less_nat_alt BLOCK_SIZE_def unat_div_distrib blocks_of_def)
  from malloc_run [OF wf this n(1) s(1)] obtain h' where h': "malloc sz h = Some (heap_addr h + of_nat (128 * s), h')"
    "take_blocks h ?n s h'" "heap_wf h'" by blast
  have "clear_from h' (64 * (w + 1))"
    unfolding clear_from_def
  proof (intro allI impI)
    fix j assume j: "64 * (w + 1) \<le> j \<and> j < 6553600"
    have "\<not> aliased i j" if "s \<le> i" "i < s + ?n" for i
    proof -
      have "i div 64 < w + 1" using that s(2) n(2) by (simp add: less_mult_imp_div_less)
      moreover have "w + 1 \<le> j div 64" using j div_le_mono [of "64 * (w + 1)" j 64] by simp
      ultimately show ?thesis by (auto simp: aliased_def)
    qed
    moreover have "\<not> busy_block h j" using clear j by (auto simp: clear_from_def)
    ultimately show "\<not> busy_block h' j" using h'(2) by (auto simp: take_blocks_def)
  qed
  moreover have "heap_addr h' = heap_addr h" "free_blocks h' = free_blocks h - of_nat ?n"
    using h'(2) by (auto simp: take_blocks_def)
  moreover have "unat (free_blocks h - of_nat ?n) = unat (free_blocks h) - ?n"
    using av n(2) by (subst unat_sub) (simp_all add: word_le_nat_alt unat_of_nat64)
  ultimately show ?thesis using h' s(2) by auto
qed

definition sane_request :: "u64 \<Rightarrow> bool" where
  "sane_request sz \<longleftrightarrow> 16 \<le> unat sz \<and> blocks_of sz < 2 ^ 31"

lemma malloc_result:
  assumes "heap_wf h" "sane_request sz" "malloc sz h = Some (p, h')"
  shows "p = - 1 \<and> h' = h \<or>
    (\<exists>s. first_block_run h (blocks_of sz) s \<and> p = heap_addr h + of_nat (128 * s) \<and>
         take_blocks h (blocks_of sz) s h' \<and> heap_wf h')"
proof (cases "free_blocks h < sz div BLOCK_SIZE")
  case True
  with assms(3) show ?thesis by (simp add: malloc_def scast_ENOMEM)
next
  case av: False
  have n: "0 < blocks_of sz" "blocks_of sz < 2 ^ 31"
    using assms(2) by (auto simp: sane_request_def blocks_of_def div_greater_zero_iff)
  show ?thesis
  proof (cases "\<exists>s. block_run h (blocks_of sz) s")
    case True
    then obtain s where "first_block_run h (blocks_of sz) s" by (metis block_run_first)
    with malloc_run [OF assms(1) av n(1)] assms(3) show ?thesis by fastforce
  next
    case False
    with malloc_no_run [OF assms(1) av n] assms(3) show ?thesis by auto
  qed
qed

text \<open>The bytes of a block of \<open>sz\<close> bytes at \<open>p\<close>, and the bytes the used blocks stand for.\<close>

definition byte_block :: "u64 \<Rightarrow> u64 \<Rightarrow> nat set" where
  "byte_block p sz = {unat p ..< unat p + unat sz}"

definition byte_taken :: "heap \<Rightarrow> nat \<Rightarrow> bool" where
  "byte_taken h x \<longleftrightarrow> unat (heap_addr h) \<le> x \<and> busy_block h ((x - unat (heap_addr h)) div 128)"

lemma malloc_bytes:
  assumes "heap_wf h" "sane_request sz" "malloc sz h = Some (p, h')"
  shows "heap_wf h' \<and> (\<forall>x. byte_taken h x \<longrightarrow> byte_taken h' x) \<and>
     (p \<noteq> - 1 \<longrightarrow> (\<forall>x \<in> byte_block p sz. \<not> byte_taken h x \<and> byte_taken h' x))"
  using malloc_result [OF assms]
proof
  assume "p = - 1 \<and> h' = h"
  with assms(1) show ?thesis by simp
next
  let ?n = "blocks_of sz" and ?a = "unat (heap_addr h)"
  assume "\<exists>s. first_block_run h ?n s \<and> p = heap_addr h + of_nat (128 * s) \<and>
         take_blocks h ?n s h' \<and> heap_wf h'"
  then obtain s where s: "first_block_run h ?n s" and p: "p = heap_addr h + of_nat (128 * s)"
    and h': "take_blocks h ?n s h'" "heap_wf h'" by blast
  have run: "s + ?n \<le> 6553600" "\<And>i. i < ?n \<Longrightarrow> \<not> busy_block h (s + i)"
    using s by (auto simp: first_block_run_def block_run_def)
  have "?a + 128 * s < 2 ^ 64" and n: "0 < ?n"
    using assms(1,2) run(1)
    by (auto simp: heap_wf_def sane_request_def blocks_of_def div_greater_zero_iff)
  then have pa: "unat p = ?a + 128 * s"
    unfolding p by (subst unat_add_lem [THEN iffD1]) (simp_all add: unat_of_nat64 del: of_nat_mult)
  have "unat sz < 16 * (?n + 1)" by (simp add: blocks_of_def)
  with n have sz: "unat sz \<le> 128 * ?n" by simp
  have inside: "?a \<le> x \<and> (\<exists>i<?n. (x - ?a) div 128 = s + i)" if "x \<in> byte_block p sz" for x
  proof -
    from that have x: "?a + 128 * s \<le> x" "x < ?a + 128 * (s + ?n)"
      using sz by (auto simp: byte_block_def pa)
    define y where "y = x - ?a"
    have "128 * s \<le> y" "y < 128 * (s + ?n)" using x by (simp_all add: y_def)
    then have "s \<le> y div 128" "y div 128 < s + ?n" by simp_all
    then have "s \<le> (x - ?a) div 128" "(x - ?a) div 128 < s + ?n" by (simp_all add: y_def)
    then have "(x - ?a) div 128 = s + ((x - ?a) div 128 - s)" "(x - ?a) div 128 - s < ?n" by auto
    with x(1) show ?thesis by auto
  qed
  have "\<not> byte_taken h x \<and> byte_taken h' x" if "x \<in> byte_block p sz" for x
  proof -
    from inside [OF that] obtain i where i: "?a \<le> x" "i < ?n" "(x - ?a) div 128 = s + i" by blast
    then have "\<not> busy_block h ((x - ?a) div 128)" using run(2) by simp
    moreover have "busy_block h' (s + i)"
      using h'(1) i(2) aliased_refl [of "s + i"] unfolding take_blocks_def by (metis le_add1 add_less_cancel_left)
    moreover have "heap_addr h' = heap_addr h" using h'(1) by (simp add: take_blocks_def)
    ultimately show ?thesis using i by (simp add: byte_taken_def)
  qed
  with h' show ?thesis by (auto simp: byte_taken_def take_blocks_def)
qed

text \<open>A request of fewer than 16 bytes takes no block: it leaves the heap as it is, whatever address it gets.\<close>

lemma malloc_small:
  assumes "heap_wf h" "unat sz < 16" "malloc sz h = Some (p, h')"
  shows "h' = h"
proof -
  have ok: "heap_ok (hbitmap h)" "capacity (hbitmap h) = 6553600"
    using assms(1) heap_capacity by (auto simp: heap_wf_def)
  have z: "sz div BLOCK_SIZE = 0" using assms(2) by (simp add: blocks_word blocks_of_def)
  show ?thesis
  proof (cases "\<exists>k < 6553600. \<not> busy_block h k")
    case False
    then have "find_first_free (of_nat 0) (hbitmap h) buffer_long_size = None"
      using ok by (intro heap_find_none) auto
    with assms(3) z show ?thesis by (simp add: malloc_def)
  next
    case True
    then obtain k where k: "k < 6553600" "\<not> busy_block h k" by blast
    obtain f where f: "f \<le> k" "find_first_free 0 (hbitmap h) buffer_long_size = Some (of_nat f)"
      using heap_first_free [OF ok(1) k(2)] k(1) ok(2) by auto
    have "malloc_search (hbitmap h) 0 (of_nat f) = Some (of_nat f)"
      using malloc_search_hit [of "hbitmap h" 0 f] ok f(1) k(1) by simp
    with assms(3) z f(2) show ?thesis by (auto simp: malloc_def split: if_splits)
  qed
qed

text \<open>The bytes a request is given blocks for: none below 16.\<close>

definition given_block :: "u64 \<Rightarrow> u64 \<Rightarrow> nat set" where
  "given_block p sz = (if unat sz < 16 then {} else byte_block p sz)"

lemma malloc_given:
  assumes "heap_wf h" "blocks_of sz < 2 ^ 31" "malloc sz h = Some (p, h')"
  shows "heap_wf h' \<and> (\<forall>x. byte_taken h x \<longrightarrow> byte_taken h' x) \<and>
     (p \<noteq> - 1 \<longrightarrow> (\<forall>x \<in> given_block p sz. \<not> byte_taken h x \<and> byte_taken h' x))"
proof (cases "unat sz < 16")
  case True
  then show ?thesis using malloc_small [OF assms(1) True assms(3)] assms(1) by (simp add: given_block_def)
next
  case False
  then show ?thesis using malloc_bytes [OF assms(1) _ assms(3)] assms(2) by (simp add: given_block_def sane_request_def)
qed

interpretation heap_seq: allocator malloc heap_wf "\<lambda>sz. blocks_of sz < 2 ^ 31" byte_taken given_block
  using malloc_given by unfold_locales blast

section \<open>Properties\<close>

definition heap_ex :: heap where
  "heap_ex = \<lparr>heap_addr = 0xffff800000200000, used_blocks = 0, free_blocks = 6553600,
              hbitmap = replicate 102400 0\<rparr>"

lemma heap_ex_facts [simp]:
  "heap_wf heap_ex" "free_blocks heap_ex = 6553600" "\<not> busy_block heap_ex j"
  by (simp_all add: heap_ex_def heap_wf_def heap_ok_def used_replicate_zero)

text \<open>
  C16 \<open>malloc\<close> is first fit: if enough blocks are counted free and some run of free blocks
  exists, a request of at least 16 bytes gets the least such run; exactly its blocks (and
  those sharing their bits) become used and the two counters move by its length, so their
  sum never changes.
\<close>

theorem malloc_first_fit:
  assumes "heap_wf h" and "sane_request sz" and "blocks_of sz \<le> unat (free_blocks h)"
    and "block_run h (blocks_of sz) k"
  shows "\<exists>s h'. malloc sz h = Some (heap_addr h + of_nat (128 * s), h') \<and>
     first_block_run h (blocks_of sz) s \<and> take_blocks h (blocks_of sz) s h' \<and> heap_wf h' \<and>
     free_blocks h' + used_blocks h' = free_blocks h + used_blocks h"
proof -
  obtain s where s: "first_block_run h (blocks_of sz) s" using block_run_first assms(4) .
  have "\<not> free_blocks h < sz div BLOCK_SIZE"
    using assms(3) by (simp add: word_less_nat_alt BLOCK_SIZE_def unat_div_distrib blocks_of_def)
  moreover have "0 < blocks_of sz"
    using assms(2) by (simp add: sane_request_def blocks_of_def div_greater_zero_iff)
  ultimately obtain h' where "malloc sz h = Some (heap_addr h + of_nat (128 * s), h')"
    "take_blocks h (blocks_of sz) s h'" "heap_wf h'"
    using malloc_run [OF assms(1) _ _ s] by blast
  with s show ?thesis by (auto simp: take_blocks_def)
qed

theorem malloc_first_fit_witness:
  "\<exists>s h'. malloc 4096 heap_ex = Some (heap_addr heap_ex + of_nat (128 * s), h') \<and>
     first_block_run heap_ex (blocks_of 4096) s \<and> take_blocks heap_ex (blocks_of 4096) s h' \<and>
     heap_wf h' \<and> free_blocks h' + used_blocks h' = free_blocks heap_ex + used_blocks heap_ex"
  by (rule malloc_first_fit [where k = 0]) (simp_all add: sane_request_def blocks_of_def block_run_def)

text \<open>
  C30 Heap blocks of at least 16 bytes never overlap: in any sequence of requests of any sizes (up to 32 GiB) that
  returns, the byte ranges of two different successful requests of at least 16 bytes are disjoint.  (Rounding
  the size down to blocks is harmless there, because the returned addresses are 128 bytes
  apart per block.  Smaller requests take no block at all, see \<open>malloc_small_shares\<close>: nothing is claimed for them, except
  that they do not disturb the others.)
\<close>

theorem malloc_blocks_disjoint:
  assumes "heap_wf h" and "\<forall>sz \<in> set szs. blocks_of sz < 2 ^ 31"
    and "alloc_seq malloc szs h = Some (ps, h')"
    and "i < k" and "k < length szs" and "16 \<le> unat (szs ! i)" and "16 \<le> unat (szs ! k)"
    and "ps ! i \<noteq> scast ENOMEM" and "ps ! k \<noteq> scast ENOMEM"
  shows "byte_block (ps ! i) (szs ! i) \<inter> byte_block (ps ! k) (szs ! k) = {}"
proof -
  have "ps ! i \<noteq> - 1" "ps ! k \<noteq> - 1" using assms(8,9) by (simp_all add: scast_ENOMEM)
  then have "given_block (ps ! i) (szs ! i) \<inter> given_block (ps ! k) (szs ! k) = {}"
    using heap_seq.seq_blocks [OF assms(1-3)] assms(4,5) by blast
  then show ?thesis using assms(6,7) by (simp add: given_block_def)
qed

lemma malloc_ex_two:
  "\<exists>ps h'. alloc_seq malloc [32, 100] heap_ex = Some (ps, h') \<and> length ps = 2 \<and>
     ps ! 0 \<noteq> - 1 \<and> ps ! 1 \<noteq> - 1"
proof -
  have "first_block_run heap_ex (blocks_of 32) 0"
    by (simp add: first_block_run_def block_run_def blocks_of_def)
  with malloc_run [of heap_ex 32 0] obtain h1 where
    h1: "malloc 32 heap_ex = Some (heap_addr heap_ex, h1)" "take_blocks heap_ex 2 0 h1" "heap_wf h1"
    by (auto simp: blocks_of_def BLOCK_SIZE_def)
  have busy: "busy_block h1 j \<longleftrightarrow> (\<exists>i<2. aliased i j)" for j
    using h1(2) by (auto simp: take_blocks_def numeral_2_eq_2)
  have "block_run h1 (blocks_of 100) 2"
    by (auto simp: block_run_def blocks_of_def busy aliased_def)
  moreover have "\<not> block_run h1 (blocks_of 100) s" if "s < 2" for s
    proof -
    from that have "busy_block h1 s" using busy [of s] aliased_refl [of s] by blast
    then show ?thesis by (auto simp: block_run_def blocks_of_def intro!: exI [of _ 0])
  qed
  ultimately have "first_block_run h1 (blocks_of 100) 2" by (simp add: first_block_run_def)
  with malloc_run [OF h1(3), of 100 2] obtain h2 where
    h2: "malloc 100 h1 = Some (heap_addr h1 + 256, h2)"
    using h1(2) by (auto simp: blocks_of_def BLOCK_SIZE_def take_blocks_def)
  have "heap_addr h1 = heap_addr heap_ex" using h1(2) by (simp add: take_blocks_def)
  with h1(1) h2 show ?thesis by (simp add: heap_ex_def)
qed

theorem malloc_blocks_disjoint_witness:
  "\<exists>ps h'. alloc_seq malloc [32, 100] heap_ex = Some (ps, h') \<and>
     byte_block (ps ! 0) 32 \<inter> byte_block (ps ! 1) 100 = {}"
proof -
  obtain ps h' where ps: "alloc_seq malloc [32, 100] heap_ex = Some (ps, h')"
    "ps ! 0 \<noteq> - 1" "ps ! 1 \<noteq> - 1" using malloc_ex_two by blast
  have "byte_block (ps ! 0) ([32, 100] ! 0) \<inter> byte_block (ps ! 1) ([32, 100] ! 1) = {}"
    by (rule malloc_blocks_disjoint [OF _ _ ps(1)])
       (use ps in \<open>auto simp: scast_ENOMEM blocks_of_def\<close>)
  with ps(1) show ?thesis by auto
qed

text \<open>
  A request of fewer than 16 bytes takes no block: it is answered with the address of
  the first free block and leaves the heap as it was, so a second request gets the very
  same address (here for requests that find a free block).
\<close>

theorem malloc_small_shares:
  assumes "heap_wf h" and "unat sz < 16" and "unat sz' < 16"
    and "k < 6553600" and "\<not> busy_block h k"
  shows "\<exists>p. malloc sz h = Some (p, h) \<and> malloc sz' h = Some (p, h) \<and>
     (\<exists>f \<le> k. p = heap_addr h + of_nat (128 * f) \<and> \<not> busy_block h f)"
proof -
  have ok: "heap_ok (hbitmap h)" "capacity (hbitmap h) = 6553600"
    using assms(1) heap_capacity by (auto simp: heap_wf_def)
  obtain f where f: "first_free (hbitmap h) 0 f" "f \<le> k"
    "find_first_free 0 (hbitmap h) buffer_long_size = Some (of_nat f)"
    using heap_first_free [OF ok(1) assms(5)] assms(4) ok(2) by auto
  have search: "malloc_search (hbitmap h) 0 (of_nat f) = Some (of_nat f)"
    using malloc_search_hit [of "hbitmap h" 0 f] ok f(2) assms(4) by simp
  have zero: "z div BLOCK_SIZE = 0" if "unat z < 16" for z
    using that by (simp add: blocks_word blocks_of_def)
  have lt: "f < 6553600" using f(2) assms(4) by simp
  have "malloc z h = Some (heap_addr h + of_nat (128 * f), h)" if "unat z < 16" for z
    using f(3) search zero [OF that] block_addr [OF lt, of "heap_addr h"] index_not_minus1 [of f] lt
    by (simp add: malloc_def del: of_nat_mult)
  with assms f show ?thesis by (fastforce simp: first_free_def)
qed

theorem malloc_small_shares_witness:
  "\<exists>p. malloc 8 heap_ex = Some (p, heap_ex) \<and> malloc 15 heap_ex = Some (p, heap_ex)"
  using malloc_small_shares [of heap_ex 8 15 0] by auto

text \<open>
  The counters do not protect the search: when enough blocks are counted free but no run
  is long enough, \<open>malloc\<close> does not answer \<open>ENOMEM\<close>; its search reads past the end of
  the bitmap, because it passes the size of the bitmap in bytes as a number of words.
\<close>

theorem malloc_fragmented_faults:
  assumes "heap_wf h" and "sane_request sz" and "blocks_of sz \<le> unat (free_blocks h)"
    and "\<not> (\<exists>s. block_run h (blocks_of sz) s)"
  shows "malloc sz h = None"
proof (rule malloc_no_run [OF assms(1)])
  show "\<not> free_blocks h < sz div BLOCK_SIZE"
    using assms(3) by (simp add: word_less_nat_alt BLOCK_SIZE_def unat_div_distrib blocks_of_def)
qed (use assms in \<open>auto simp: sane_request_def blocks_of_def div_greater_zero_iff\<close>)

definition heap_full_ex :: heap where
  "heap_full_ex = heap_ex\<lparr>hbitmap := replicate 102400 (- 1)\<rparr>"

lemma heap_full_ex_facts:
  "heap_wf heap_full_ex" "free_blocks heap_full_ex = 6553600"
  "j < 6553600 \<Longrightarrow> busy_block heap_full_ex j"
proof -
  show "heap_wf heap_full_ex" "free_blocks heap_full_ex = 6553600"
    by (simp_all add: heap_full_ex_def heap_ex_def heap_wf_def heap_ok_def)
  assume "j < 6553600"
  then have "j div 64 < 102400" by simp
  then show "busy_block heap_full_ex j"
    by (simp add: heap_full_ex_def heap_ex_def used_def)
qed

theorem malloc_fragmented_faults_witness: "malloc 64 heap_full_ex = None"
  by (rule malloc_fragmented_faults)
     (auto simp: heap_full_ex_facts sane_request_def blocks_of_def block_run_def
        intro!: exI [of _ 0])

text \<open>
  The heap region has 100 MiB but \<open>malloc\<close> hands out memory beyond it: a first-fit run
  that starts at block 819200 or later lies entirely above the region the page allocator
  gave to the heap, because the byte offset is added to a \<open>uint64_t *\<close>.
\<close>

theorem malloc_outside_region:
  assumes "heap_wf h" and "sane_request sz" and "blocks_of sz \<le> unat (free_blocks h)"
    and "first_block_run h (blocks_of sz) s" and "819200 \<le> s"
  shows "\<exists>p h'. malloc sz h = Some (p, h') \<and>
     unat (heap_addr h) + unat FRAZZOS_HEAP_SIZE \<le> unat p"
proof -
  have "\<not> free_blocks h < sz div BLOCK_SIZE"
    using assms(3) by (simp add: word_less_nat_alt BLOCK_SIZE_def unat_div_distrib blocks_of_def)
  moreover have n: "0 < blocks_of sz"
    using assms(2) by (simp add: sane_request_def blocks_of_def div_greater_zero_iff)
  ultimately obtain h' where h': "malloc sz h = Some (heap_addr h + of_nat (128 * s), h')"
    using malloc_run [OF assms(1) _ _ assms(4)] by blast
  have "s + blocks_of sz \<le> 6553600" using assms(4) by (simp add: first_block_run_def block_run_def)
  then have "unat (heap_addr h) + 128 * s < 2 ^ 64" using assms(1) n by (auto simp: heap_wf_def)
  then have "unat (heap_addr h + of_nat (128 * s)) = unat (heap_addr h) + 128 * s"
    by (subst unat_add_lem [THEN iffD1]) (simp_all add: unat_of_nat64 del: of_nat_mult)
  moreover have "unat FRAZZOS_HEAP_SIZE \<le> 128 * s" using assms(5) by (simp add: FRAZZOS_HEAP_SIZE_def)
  ultimately show ?thesis using h' by auto
qed

definition heap_low_ex :: heap where
  "heap_low_ex = heap_ex\<lparr>hbitmap := replicate 12800 (- 1) @ replicate 89600 0\<rparr>"

lemma heap_low_ex_facts:
  "heap_wf heap_low_ex" "free_blocks heap_low_ex = 6553600"
  "j < 6553600 \<Longrightarrow> busy_block heap_low_ex j \<longleftrightarrow> j < 819200"
proof -
  show "heap_wf heap_low_ex" "free_blocks heap_low_ex = 6553600"
    by (simp_all add: heap_low_ex_def heap_ex_def heap_wf_def heap_ok_def)
  assume "j < 6553600"
  then have "j div 64 < 102400" by simp
  moreover have "j div 64 < 12800 \<longleftrightarrow> j < 819200" by (simp add: div_less_iff_less_mult)
  ultimately show "busy_block heap_low_ex j \<longleftrightarrow> j < 819200"
    by (simp add: heap_low_ex_def heap_ex_def used_def nth_append)
qed

theorem malloc_outside_region_witness:
  "\<exists>p h'. malloc 64 heap_low_ex = Some (p, h') \<and>
     unat (heap_addr heap_low_ex) + unat FRAZZOS_HEAP_SIZE \<le> unat p"
proof (rule malloc_outside_region)
  show "first_block_run heap_low_ex (blocks_of 64) 819200"
    by (auto simp: first_block_run_def block_run_def blocks_of_def heap_low_ex_facts
        intro!: exI [of _ 0])
qed (simp_all add: heap_low_ex_facts sane_request_def blocks_of_def)

text \<open>
  \<open>heap_init\<close> yields an empty, well-formed heap with all 6553600 blocks free.  Its region
  is the higher-half address of the first run of 25600 free frames, or, when the page
  allocator reports exhaustion, the address one byte below the higher half: the error code
  is not looked at.
\<close>

theorem heap_init_ready:
  assumes "pmm_wf st" and "0 < frames st" and "heap_init st = Some (h, st')"
  shows "heap_wf h \<and> free_blocks h = 6553600 \<and> used_blocks h = 0 \<and> (\<forall>j. \<not> busy_block h j) \<and>
     (heap_addr h = KERNEL_VIRT_BASE_ADDR - 1 \<and> st' = st \<or>
      (\<exists>r. first_free_run st 25600 r \<and> heap_addr h = phys_to_hh (of_nat (4096 * r)) \<and>
           take_run st 25600 r st' \<and> pmm_wf st'))"
proof -
  have size: "sane_size FRAZZOS_HEAP_SIZE" "pages_of FRAZZOS_HEAP_SIZE = 25600"
    by (simp_all add: sane_size_def pages_of_def FRAZZOS_HEAP_SIZE_def)
  obtain p where p: "pmm_alloc FRAZZOS_HEAP_SIZE st = Some (p, st')"
    and h: "h = \<lparr>heap_addr = phys_to_hh p, used_blocks = 0,
         free_blocks = FRAZZOS_HEAP_SIZE div BLOCK_SIZE, hbitmap = replicate heap_words 0\<rparr>"
    using assms(3) by (auto simp: heap_init_def)
  have "unat (phys_to_hh p) + 128 * 6553600 \<le> 2 ^ 64 \<and>
     (heap_addr h = KERNEL_VIRT_BASE_ADDR - 1 \<and> st' = st \<or>
      (\<exists>r. first_free_run st 25600 r \<and> heap_addr h = phys_to_hh (of_nat (4096 * r)) \<and>
           take_run st 25600 r st' \<and> pmm_wf st'))"
    using pmm_alloc_result [OF assms(1) size(1) assms(2) p]
  proof
    assume "p = scast ENOMEM \<and> st' = st"
    then show ?thesis by (simp add: h phys_to_hh_def KERNEL_VIRT_BASE_ADDR_def scast_ENOMEM)
  next
    assume "\<exists>r. first_free_run st (pages_of FRAZZOS_HEAP_SIZE) r \<and> p = of_nat (4096 * r) \<and>
         take_run st (pages_of FRAZZOS_HEAP_SIZE) r st' \<and> pmm_wf st'"
    then obtain r where r: "first_free_run st 25600 r" "p = of_nat (4096 * r)"
      "take_run st 25600 r st'" "pmm_wf st'" by (auto simp: size)
    then have "r < 2 ^ 31" using assms(1) by (auto simp: first_free_run_def free_run_def pmm_wf_def)
    then have "unat p = 4096 * r" unfolding r(2) by (intro unat_of_nat64) simp
    with \<open>r < 2 ^ 31\<close> have "unat (phys_to_hh p) = unat KERNEL_VIRT_BASE_ADDR + 4096 * r"
      unfolding phys_to_hh_def
      by (subst add.commute, subst unat_add_lem [THEN iffD1]) (simp_all add: KERNEL_VIRT_BASE_ADDR_def)
    then show ?thesis using r \<open>r < 2 ^ 31\<close> by (auto simp: h KERNEL_VIRT_BASE_ADDR_def)
  qed
  then show ?thesis
    by (auto simp: h heap_wf_def heap_ok_def heap_words_eq used_replicate_zero
        FRAZZOS_HEAP_SIZE_def BLOCK_SIZE_def)
qed

definition pmm_big_ex :: pmm where
  "pmm_big_ex = \<lparr>bm_map = 0xffff800000100000, bm_words = replicate 1024 0, bm_size = 1024,
     info = \<lparr>total_memory = 0x10000000, total_available_memory = 0x10000000,
       total_reserved_memory = 0, total_pages = 65536, used_pages = 0, available_pages = 65536\<rparr>\<rparr>"

lemma pmm_big_ex_facts [simp]:
  "pmm_wf pmm_big_ex" "available_pages (info pmm_big_ex) \<noteq> 0" "frames pmm_big_ex = 65536"
  "\<not> busy_frame pmm_big_ex j"
  by (simp_all add: pmm_big_ex_def pmm_wf_def capacity_def used_replicate_zero)

theorem heap_init_ready_witness:
  "\<exists>h st'. heap_init pmm_big_ex = Some (h, st') \<and> heap_wf h \<and> free_blocks h = 6553600"
proof -
  have "first_free_run pmm_big_ex (pages_of FRAZZOS_HEAP_SIZE) 0" "sane_size FRAZZOS_HEAP_SIZE"
    by (simp_all add: first_free_run_def free_run_def sane_size_def pages_of_def FRAZZOS_HEAP_SIZE_def)
  with pmm_alloc_success [of pmm_big_ex FRAZZOS_HEAP_SIZE 0] obtain h st' where
    "heap_init pmm_big_ex = Some (h, st')" by (auto simp: heap_init_def)
  with heap_init_ready [OF _ _ this] show ?thesis by auto
qed

end
