(* ===== verification/Sched.thy ===== *)
theory Sched
  imports Heap Memory
begin

text \<open>
  proc/process.c, proc/schedule.c, proc/switch.asm and the timer interrupt of idt/isr.c:
  the circular list of tasks, the choice of the next one, the context switch and the time
  slices.  The part of memory that holds task control blocks is kept apart as a function
  from pointers to records; stacks are in the byte memory.
\<close>

section \<open>State\<close>

datatype task_status = READY | WAITING | RUNNING

record tcb =
  kernel_top :: u64
  tcr3 :: u64
  next_task :: u64
  status :: task_status
  time_slice :: s32

datatype reg = RAX | RBX | RCX | RDX | RDI | RSI | R8 | R9 | R10 | R11 | R12 | R13 | R14 | R15 | RBP

record machine =
  tcbs :: "u64 \<Rightarrow> tcb"
  current_task :: u64
  kheap :: heap
  kmem :: mem
  regs :: "reg \<Rightarrow> u64"
  rsp :: u64
  rip :: u64
  mcr3 :: u64
  eois :: nat

definition QUANTUM :: s32 where "QUANTUM = 5"
definition KERNEL_STACK_SIZE :: u64 where "KERNEL_STACK_SIZE = 0x1000"

definition sizeof_tcb :: u64 where "sizeof_tcb = 32"

abbreviation cur :: "machine \<Rightarrow> tcb" where "cur st \<equiv> tcbs st (current_task st)"

definition upd_tcb :: "u64 \<Rightarrow> (tcb \<Rightarrow> tcb) \<Rightarrow> machine \<Rightarrow> machine" where
  "upd_tcb p f st = st\<lparr>tcbs := (tcbs st)(p := f (tcbs st p))\<rparr>"

lemma upd_tcb_simps [simp]:
  "tcbs (upd_tcb p f st) = (tcbs st)(p := f (tcbs st p))"
  "current_task (upd_tcb p f st) = current_task st" "kheap (upd_tcb p f st) = kheap st"
  "kmem (upd_tcb p f st) = kmem st" "regs (upd_tcb p f st) = regs st" "rsp (upd_tcb p f st) = rsp st"
  "rip (upd_tcb p f st) = rip st" "mcr3 (upd_tcb p f st) = mcr3 st" "eois (upd_tcb p f st) = eois st"
  by (simp_all add: upd_tcb_def)

section \<open>Creating processes\<close>

definition process_init_info :: "u64 \<Rightarrow> u64 \<Rightarrow> machine \<Rightarrow> machine" where
  "process_init_info new_proc main st =
     (let st = st\<lparr>kmem := write64 (kernel_top (tcbs st new_proc)) main (kmem st)\<rparr>;
          st = upd_tcb new_proc (\<lambda>t. t\<lparr>kernel_top := kernel_top t - 120\<rparr>) st;
          st = upd_tcb new_proc (\<lambda>t. t\<lparr>tcr3 := tcr3 (cur st)\<rparr>) st
      in upd_tcb new_proc (\<lambda>t. t\<lparr>status := READY, time_slice := QUANTUM\<rparr>) st)"

definition process_init_stack :: "u64 \<Rightarrow> machine \<Rightarrow> (s32 \<times> machine) option" where
  "process_init_stack new_proc st =
     map_option
       (\<lambda>(k, h). let st = upd_tcb new_proc (\<lambda>t. t\<lparr>kernel_top := k\<rparr>) (st\<lparr>kheap := h\<rparr>) in
          if k = - 1 then (ENOMEM, st)
          else (0, upd_tcb new_proc (\<lambda>t. t\<lparr>kernel_top := kernel_top t + KERNEL_STACK_SIZE\<rparr>)
                     (st\<lparr>kmem := memset k 0 KERNEL_STACK_SIZE (kmem st)\<rparr>)))
       (malloc KERNEL_STACK_SIZE (kheap st))"

text \<open>\<open>Inl\<close> is the halted machine after the panic message.\<close>

definition create_process :: "u64 \<Rightarrow> machine \<Rightarrow> (machine + u64 \<times> machine) option" where
  "create_process main st =
     Option.bind (malloc sizeof_tcb (kheap st)) (\<lambda>(new_proc, h).
     map_option
       (\<lambda>(res, st). if sint res < 0 then Inl st
          else Inr (new_proc, process_init_info new_proc main st))
       (process_init_stack new_proc (st\<lparr>kheap := h\<rparr>)))"

text \<open>Unmasking the timer interrupt is the last step; it is not part of this state.\<close>

definition init_multitasking :: "machine \<Rightarrow> (machine + machine) option" where
  "init_multitasking st =
     map_option
       (\<lambda>(p, h). let st = st\<lparr>kheap := h, current_task := p\<rparr> in
          if p = - 1 then Inl st
          else Inr (upd_tcb p (\<lambda>t. t\<lparr>kernel_top := rsp st, tcr3 := mcr3 st, next_task := p,
                                      status := RUNNING, time_slice := QUANTUM\<rparr>) st))
       (malloc sizeof_tcb (kheap st))"

definition add_process :: "u64 \<Rightarrow> machine \<Rightarrow> machine" where
  "add_process process st =
     (let tmp = next_task (cur st);
          st = upd_tcb (current_task st) (\<lambda>t. t\<lparr>next_task := process\<rparr>) st
      in upd_tcb process (\<lambda>t. t\<lparr>next_task := tmp\<rparr>) st)"

section \<open>Choosing the next task\<close>

partial_function (option) find_ready :: "(u64 \<Rightarrow> tcb) \<Rightarrow> u64 \<Rightarrow> u64 \<Rightarrow> u64 option" where
  "find_ready t current tmp =
     (if status (t tmp) \<noteq> READY then
        (if tmp = current then Some tmp else find_ready t current (next_task (t tmp)))
      else Some tmp)"

declare find_ready.simps [code]

text \<open>The early return when no task is ready skips the two status updates.\<close>

definition get_next_task :: "machine \<Rightarrow> (u64 \<times> machine) option" where
  "get_next_task st =
     map_option
       (\<lambda>tmp. if status (tcbs st tmp) \<noteq> READY then (tmp, st)
          else (tmp, upd_tcb tmp (\<lambda>t. t\<lparr>status := RUNNING\<rparr>)
                       (upd_tcb (current_task st) (\<lambda>t. t\<lparr>status := READY\<rparr>) st)))
       (find_ready (tcbs st) (current_task st) (next_task (cur st)))"

section \<open>The context switch (switch.asm)\<close>

definition push :: "u64 \<Rightarrow> machine \<Rightarrow> machine" where
  "push v st = st\<lparr>rsp := rsp st - 8, kmem := write64 (rsp st - 8) v (kmem st)\<rparr>"

definition pop_reg :: "reg \<Rightarrow> machine \<Rightarrow> machine" where
  "pop_reg r st = st\<lparr>regs := (regs st)(r := read64 (kmem st) (rsp st)), rsp := rsp st + 8\<rparr>"

definition ret :: "machine \<Rightarrow> machine" where
  "ret st = st\<lparr>rip := read64 (kmem st) (rsp st), rsp := rsp st + 8\<rparr>"

definition save_order :: "reg list" where
  "save_order = [RAX, RBX, RCX, RDX, RDI, RSI, R8, R9, R10, R11, R12, R13, R14, R15, RBP]"

text \<open>\<open>rsi\<close> holds the address of the current task's block, so \<open>[rsi + 16]\<close> is its \<open>next\<close>.\<close>

definition switch_to_task_asm :: "u64 \<Rightarrow> machine \<Rightarrow> machine" where
  "switch_to_task_asm next st =
     (let rsi = current_task st;
          st = fold (\<lambda>r st. push (regs st r) st) save_order st;
          st = st\<lparr>current_task := next_task (tcbs st rsi)\<rparr>;
          st = upd_tcb rsi (\<lambda>t. t\<lparr>kernel_top := rsp st\<rparr>) st;
          st = st\<lparr>rsp := kernel_top (tcbs st next)\<rparr>;
          st = st\<lparr>mcr3 := tcr3 (tcbs st next)\<rparr>
      in ret (fold pop_reg (rev save_order) st))"

definition switch_to_task :: "u64 \<Rightarrow> machine \<Rightarrow> s32 \<times> machine" where
  "switch_to_task next st =
     (if next = 0 then (EINVARG, st) else (0, switch_to_task_asm next st))"

definition schedule :: "machine \<Rightarrow> machine option" where
  "schedule st = map_option (\<lambda>(next, st). snd (switch_to_task next st)) (get_next_task st)"

definition timer_irq_handler :: "machine \<Rightarrow> machine option" where
  "timer_irq_handler st =
     (let st = st\<lparr>eois := Suc (eois st)\<rparr> in
      if time_slice (cur st) = 0 then
        schedule (upd_tcb (current_task st) (\<lambda>t. t\<lparr>time_slice := QUANTUM\<rparr>) st)
      else Some (upd_tcb (current_task st) (\<lambda>t. t\<lparr>time_slice := time_slice t - 1\<rparr>) st))"

end
