(* ===== verification/Sched_Correct.thy ===== *)
theory Sched_Correct
  imports Sched
begin

text \<open>
  The scheduler's properties: the ring of tasks, round robin under any interleaving of timer
  interrupts with the tasks' own work, and the context switch as a save and a restore of
  the same frame.
\<close>

section \<open>The ring of tasks\<close>

fun chain :: "(u64 \<Rightarrow> tcb) \<Rightarrow> u64 \<Rightarrow> u64 list \<Rightarrow> u64 \<Rightarrow> bool" where
  "chain t a [] z \<longleftrightarrow> next_task (t a) = z"
| "chain t a (y # ys) z \<longleftrightarrow> next_task (t a) = y \<and> chain t y ys z"

definition ring :: "machine \<Rightarrow> u64 list \<Rightarrow> bool" where
  "ring st L \<longleftrightarrow> (\<exists>xs. L = current_task st # xs \<and> distinct L \<and> 0 \<notin> set L \<and>
     chain (tcbs st) (current_task st) xs (current_task st))"

lemma chain_cong:
  "\<forall>x \<in> set (a # ys). next_task (t x) = next_task (t' x) \<Longrightarrow> chain t a ys z = chain t' a ys z"
  by (induction ys arbitrary: a) simp_all

lemma chain_snoc: "chain t a (ys @ [y]) z \<longleftrightarrow> chain t a ys y \<and> next_task (t y) = z"
  by (induction ys arbitrary: a) auto

text \<open>The search ends at the current task at the latest.\<close>

lemma find_ready_chain:
  assumes "chain t a ys c" "c \<notin> set ys"
  shows "find_ready t c (next_task (t a)) =
    Some (case find (\<lambda>x. status (t x) = READY) ys of Some x \<Rightarrow> x | None \<Rightarrow> c)"
  using assms
proof (induction ys arbitrary: a)
  case Nil
  then show ?case by (subst find_ready.simps) simp
next
  case (Cons y ys)
  then show ?case by (subst find_ready.simps) auto
qed

definition chosen :: "machine \<Rightarrow> u64 list \<Rightarrow> u64" where
  "chosen st xs = (case find (\<lambda>x. status (tcbs st x) = READY) xs of Some x \<Rightarrow> x | None \<Rightarrow> current_task st)"

lemma ring_find:
  assumes "ring st (c # xs)"
  shows "find_ready (tcbs st) (current_task st) (next_task (cur st)) = Some (chosen st xs)"
  using assms find_ready_chain unfolding ring_def chosen_def by auto

text \<open>All tasks but the current one are ready: the state the scheduler keeps.\<close>

definition running_ring :: "machine \<Rightarrow> u64 list \<Rightarrow> bool" where
  "running_ring st L \<longleftrightarrow> ring st L \<and> status (cur st) = RUNNING \<and>
     (\<forall>x \<in> set (tl L). status (tcbs st x) = READY)"

section \<open>The switch on the task blocks\<close>

lemma push_fields [simp]:
  "tcbs (push v st) = tcbs st" "current_task (push v st) = current_task st"
  "kheap (push v st) = kheap st" "regs (push v st) = regs st" "eois (push v st) = eois st"
  by (simp_all add: push_def)

lemma pop_reg_fields [simp]:
  "tcbs (pop_reg r st) = tcbs st" "current_task (pop_reg r st) = current_task st"
  "mcr3 (pop_reg r st) = mcr3 st" "kmem (pop_reg r st) = kmem st" "eois (pop_reg r st) = eois st"
  by (simp_all add: pop_reg_def)

lemma ret_fields [simp]:
  "tcbs (ret st) = tcbs st" "current_task (ret st) = current_task st" "mcr3 (ret st) = mcr3 st"
  "kmem (ret st) = kmem st" "regs (ret st) = regs st" "eois (ret st) = eois st"
  by (simp_all add: ret_def)

lemma fold_push_fields [simp]:
  "tcbs (fold (\<lambda>r st. push (regs st r) st) rs st) = tcbs st"
  "current_task (fold (\<lambda>r st. push (regs st r) st) rs st) = current_task st"
  "eois (fold (\<lambda>r st. push (regs st r) st) rs st) = eois st"
  "regs (fold (\<lambda>r st. push (regs st r) st) rs st) = regs st"
  by (induction rs arbitrary: st) simp_all

lemma fold_pop_fields [simp]:
  "tcbs (fold pop_reg rs st) = tcbs st" "current_task (fold pop_reg rs st) = current_task st"
  "mcr3 (fold pop_reg rs st) = mcr3 st" "kmem (fold pop_reg rs st) = kmem st"
  "eois (fold pop_reg rs st) = eois st"
  by (induction rs arbitrary: st) simp_all

lemma switch_blocks:
  "current_task (switch_to_task_asm n st) = next_task (cur st)"
  "next_task (tcbs (switch_to_task_asm n st) x) = next_task (tcbs st x)"
  "status (tcbs (switch_to_task_asm n st) x) = status (tcbs st x)"
  "time_slice (tcbs (switch_to_task_asm n st) x) = time_slice (tcbs st x)"
  "tcr3 (tcbs (switch_to_task_asm n st) x) = tcr3 (tcbs st x)"
  "mcr3 (switch_to_task_asm n st) = tcr3 (tcbs st n)"
  "eois (switch_to_task_asm n st) = eois st"
  by (simp_all add: switch_to_task_asm_def Let_def)

section \<open>One round of the scheduler\<close>

lemma schedule_rotates:
  assumes "running_ring st (c # xs)"
  shows "\<exists>st'. schedule st = Some st' \<and> running_ring st' (xs @ [c]) \<and>
    (\<forall>x. time_slice (tcbs st' x) = time_slice (tcbs st x))"
proof -
  have ring: "c = current_task st" "distinct (c # xs)" "0 \<notin> set (c # xs)" "chain (tcbs st) c xs c"
    using assms by (auto simp: running_ring_def ring_def)
  have ready: "status (tcbs st c) = RUNNING" "\<And>x. x \<in> set xs \<Longrightarrow> status (tcbs st x) = READY"
    using assms ring(1) by (auto simp: running_ring_def)
  note find = ring_find [of st c xs]
  show ?thesis
  proof (cases xs)
    case Nil
    then have ch: "chosen st xs = c" using ring(1) by (simp add: chosen_def)
    let ?s = "switch_to_task_asm c st"
    have "schedule st = Some ?s"
      using find assms ch ready(1) ring(3)
      by (simp add: schedule_def get_next_task_def switch_to_task_def running_ring_def)
    moreover have "running_ring ?s (xs @ [c])"
      using ring ready Nil by (simp add: running_ring_def ring_def switch_blocks)
    ultimately show ?thesis by (auto simp: switch_blocks)
  next
    case (Cons y ys)
    then have ch: "chosen st xs = y" using ready(2) by (simp add: chosen_def)
    let ?u = "upd_tcb y (\<lambda>t. t\<lparr>status := RUNNING\<rparr>) (upd_tcb c (\<lambda>t. t\<lparr>status := READY\<rparr>) st)"
    let ?s = "switch_to_task_asm y ?u"
    have y: "y \<noteq> 0" "y \<noteq> c" "next_task (tcbs st c) = y" using ring Cons by auto
    have "schedule st = Some ?s"
      using find assms ch ready y ring(1) Cons
      by (simp add: schedule_def get_next_task_def switch_to_task_def running_ring_def)
    moreover have next_eq: "next_task (tcbs ?s x) = next_task (tcbs st x)" for x
      by (simp add: switch_blocks)
    have "chain (tcbs st) y (ys @ [c]) y"
      using ring(4) y(3) Cons by (simp add: chain_snoc)
    then have "chain (tcbs ?s) y (ys @ [c]) y" using next_eq chain_cong by metis
    then have "running_ring ?s (xs @ [c])"
      using ring ready y Cons by (auto simp: running_ring_def ring_def switch_blocks)
    ultimately show ?thesis by (auto simp: switch_blocks)
  qed
qed

lemma running_ring_cong:
  assumes "current_task st' = current_task st"
    and "\<And>x. next_task (tcbs st' x) = next_task (tcbs st x) \<and> status (tcbs st' x) = status (tcbs st x)"
  shows "running_ring st' L = running_ring st L"
proof -
  have "chain (tcbs st') a xs z = chain (tcbs st) a xs z" for a xs z
    by (rule chain_cong) (use assms(2) in blast)
  then show ?thesis using assms by (simp add: running_ring_def ring_def)
qed

lemma timer_tick:
  assumes "running_ring st (c # xs)" and "time_slice (tcbs st c) = of_nat k" and "k \<le> 5"
  shows "\<exists>st'. timer_irq_handler st = Some st' \<and>
    (if k = 0 then running_ring st' (xs @ [c]) \<and> time_slice (tcbs st' c) = QUANTUM
     else running_ring st' (c # xs) \<and> time_slice (tcbs st' c) = of_nat (k - 1)) \<and>
    (\<forall>x. x \<noteq> c \<longrightarrow> time_slice (tcbs st' x) = time_slice (tcbs st x))"
proof -
  have c: "current_task st = c" using assms(1) by (auto simp: running_ring_def ring_def)
  show ?thesis
  proof (cases "k = 0")
    case True
    let ?u = "upd_tcb c (\<lambda>t. t\<lparr>time_slice := QUANTUM\<rparr>) (st\<lparr>eois := Suc (eois st)\<rparr>)"
    have "running_ring ?u (c # xs)"
      using assms(1) running_ring_cong [of ?u st "c # xs"] by simp
    from schedule_rotates [OF this] obtain st' where "schedule ?u = Some st'"
      "running_ring st' (xs @ [c])" "\<And>x. time_slice (tcbs st' x) = time_slice (tcbs ?u x)" by blast
    then show ?thesis using True assms(2) c by (auto simp: timer_irq_handler_def Let_def)
  next
    case False
    let ?u = "upd_tcb c (\<lambda>t. t\<lparr>time_slice := time_slice t - 1\<rparr>) (st\<lparr>eois := Suc (eois st)\<rparr>)"
    have "running_ring ?u (c # xs)"
      using assms(1) running_ring_cong [of ?u st "c # xs"] by simp
    moreover have "(of_nat k :: s32) \<noteq> 0"
      using False assms(3) by (auto simp: word_unat_eq_iff unat_of_nat32)
    moreover have "(of_nat k :: s32) - 1 = of_nat (k - 1)" using False by (simp add: of_nat_diff)
    ultimately show ?thesis using False assms(2) c by (auto simp: timer_irq_handler_def Let_def)
  qed
qed

section \<open>Executions\<close>

text \<open>
  \<open>exec st n st'\<close>: from \<open>st\<close> to \<open>st'\<close> with \<open>n\<close> timer interrupts and, between them, any work
  of the tasks that leaves the task blocks alone.
\<close>

inductive exec :: "machine \<Rightarrow> nat \<Rightarrow> machine \<Rightarrow> bool" where
  start: "exec st 0 st"
| tick: "exec st n s \<Longrightarrow> timer_irq_handler s = Some s' \<Longrightarrow> exec st (Suc n) s'"
| work: "exec st n s \<Longrightarrow> tcbs s' = tcbs s \<Longrightarrow> current_task s' = current_task s \<Longrightarrow> exec st n s'"

inductive_cases exec_SucE: "exec st (Suc n) s"

definition fair :: "u64 list \<Rightarrow> nat \<Rightarrow> machine \<Rightarrow> bool" where
  "fair L n s \<longleftrightarrow> running_ring s (rotate (n div 6) L) \<and>
     time_slice (cur s) = of_nat (5 - n mod 6) \<and>
     (\<forall>x \<in> set L - {current_task s}. time_slice (tcbs s x) = QUANTUM)"

lemma fair_tick:
  assumes "fair L n s" "L \<noteq> []"
  shows "\<exists>s'. timer_irq_handler s = Some s' \<and> fair L (Suc n) s'"
proof -
  obtain c xs where rot: "rotate (n div 6) L = c # xs"
    using assms(2) by (cases "rotate (n div 6) L") auto
  have set: "set L = insert c (set xs)" using rot by (metis list.simps(15) set_rotate)
  have s: "running_ring s (c # xs)" "current_task s = c" "time_slice (tcbs s c) = of_nat (5 - n mod 6)"
    using assms(1) rot by (auto simp: fair_def running_ring_def ring_def)
  have dist: "c \<notin> set xs" using s(1) by (auto simp: running_ring_def ring_def)
  obtain s' where s': "timer_irq_handler s = Some s'"
    "if 5 - n mod 6 = 0 then running_ring s' (xs @ [c]) \<and> time_slice (tcbs s' c) = QUANTUM
     else running_ring s' (c # xs) \<and> time_slice (tcbs s' c) = of_nat (5 - n mod 6 - 1)"
    "\<And>x. x \<noteq> c \<Longrightarrow> time_slice (tcbs s' x) = time_slice (tcbs s x)"
    using timer_tick [OF s(1,3)] by auto
  have others: "time_slice (tcbs s x) = QUANTUM" if "x \<in> set xs" for x
    using assms(1) that dist s(2) set by (auto simp: fair_def)
  have "fair L (Suc n) s'"
  proof (cases "n mod 6 = 5")
    case True
    then have n: "Suc n div 6 = Suc (n div 6)" "Suc n mod 6 = 0" by (simp_all add: div_Suc mod_Suc)
    then have rot': "rotate (Suc n div 6) L = xs @ [c]" using rot by simp
    have r: "running_ring s' (xs @ [c])" "time_slice (tcbs s' c) = QUANTUM" using s'(2) True by simp_all
    then have "time_slice (cur s') = QUANTUM"
      using s'(3) others by (cases xs) (auto simp: running_ring_def ring_def)
    moreover have "time_slice (tcbs s' x) = QUANTUM" if "x \<in> set L" for x
      using that r(2) s'(3) others set dist by (cases "x = c") auto
    ultimately show ?thesis using r rot' n by (simp add: fair_def QUANTUM_def)
  next
    case False
    moreover have "n mod 6 < 6" by simp
    ultimately have "n mod 6 < 5" by linarith
    then have n: "Suc n div 6 = n div 6" "5 - Suc n mod 6 = 5 - n mod 6 - 1" "5 - n mod 6 \<noteq> 0"
      by (simp_all add: div_Suc mod_Suc)
    have r: "running_ring s' (c # xs)" "time_slice (tcbs s' c) = of_nat (5 - n mod 6 - 1)"
      using s'(2) n(3) by simp_all
    then have "current_task s' = c" by (auto simp: running_ring_def ring_def)
    moreover have "time_slice (tcbs s' x) = QUANTUM" if "x \<in> set L - {c}" for x
      using that s'(3) others set by auto
    ultimately show ?thesis using r rot n by (simp add: fair_def)
  qed
  with s'(1) show ?thesis by blast
qed

lemma fair_cong:
  assumes "fair L n s" "tcbs s' = tcbs s" "current_task s' = current_task s"
  shows "fair L n s'"
  using assms running_ring_cong [of s' s] by (simp add: fair_def)

lemma exec_fair:
  assumes "exec st n s" "fair L 0 st" "L \<noteq> []" shows "fair L n s"
  using assms
proof (induction rule: exec.induct)
  case (tick st n s s')
  then show ?case using fair_tick [of L n s] by simp
next
  case (work st n s s')
  then show ?case using fair_cong by blast
qed simp

lemma exec_exists: "fair L 0 st \<Longrightarrow> L \<noteq> [] \<Longrightarrow> \<exists>s. exec st n s"
proof (induction n)
  case 0
  then show ?case using exec.start by blast
next
  case (Suc n)
  then obtain s where "exec st n s" by blast
  then show ?case using Suc.prems fair_tick [of L n s] exec_fair exec.tick by blast
qed

section \<open>Saved frames\<close>

text \<open>A saved frame: 15 registers, last pushed first, and above them the return address.\<close>

definition frame_at :: "mem \<Rightarrow> u64 \<Rightarrow> (reg \<Rightarrow> u64) \<Rightarrow> u64 \<Rightarrow> bool" where
  "frame_at m sp R ra \<longleftrightarrow>
     (\<forall>i<15. read64 m (sp + of_nat (8 * i)) = R (rev save_order ! i)) \<and> read64 m (sp + of_nat 120) = ra"

lemma aligned8_plus: "aligned8 a \<Longrightarrow> aligned8 (a + of_nat (8 * k))"
proof -
  assume "aligned8 a"
  moreover have "unat (of_nat (8 * k) :: u64) mod 8 = 0"
    by (simp add: unat_of_nat take_bit_eq_mod mod_mod_cancel del: of_nat_mult)
  moreover have "(x + y) mod 2 ^ 64 mod 8 = 0" if "x mod 8 = 0" "y mod 8 = 0" for x y :: nat
    using mod_add_eq [of x 8 y] that by (simp add: mod_mod_cancel)
  ultimately show ?thesis by (simp add: aligned8_def unat_word_ariths(1) del: of_nat_mult)
qed

lemma aligned8_minus: "aligned8 a \<Longrightarrow> k < 2 ^ 60 \<Longrightarrow> aligned8 (a - of_nat (8 * k))"
proof -
  assume a: "aligned8 a" "k < 2 ^ 60"
  have "a - of_nat (8 * k) = a + of_nat (8 * (2 ^ 61 - k))"
  proof -
    have "8 * (2 ^ 61 - k) = 2 ^ 64 - 8 * k" by simp
    then have "(of_nat (8 * (2 ^ 61 - k)) :: u64) = of_nat (2 ^ 64) - of_nat (8 * k)"
      using a(2) by (simp only: of_nat_diff) simp
    then show ?thesis by simp
  qed
  then show ?thesis using aligned8_plus [OF a(1)] by (simp only:)
qed

lemma stack_slot_neq: "i < 2 ^ 60 \<Longrightarrow> j < 2 ^ 60 \<Longrightarrow> a - of_nat (8 * i) = (a :: u64) - of_nat (8 * j) \<longleftrightarrow> i = j"
proof
  assume *: "i < 2 ^ 60" "j < 2 ^ 60" "a - of_nat (8 * i) = a - of_nat (8 * j)"
  then have "(of_nat (8 * i) :: u64) = of_nat (8 * j)" by (simp del: of_nat_mult)
  moreover have "unat (of_nat (8 * i) :: u64) = 8 * i" "unat (of_nat (8 * j) :: u64) = 8 * j"
    by (rule unat_of_nat64; use * in simp)+
  ultimately show "i = j" by simp
qed simp

abbreviation pushes :: "reg list \<Rightarrow> machine \<Rightarrow> machine" where
  "pushes rs st \<equiv> fold (\<lambda>r st. push (regs st r) st) rs st"

lemma rsp_pushes: "rsp (pushes rs st) = rsp st - of_nat (8 * length rs)"
  by (induction rs arbitrary: st) (simp_all add: push_def algebra_simps)

lemma pushes_other:
  assumes "aligned8 a" "aligned8 (rsp st)" "length rs < 2 ^ 59"
    and "\<And>i. i < length rs \<Longrightarrow> a \<noteq> rsp st - of_nat (8 * Suc i)"
  shows "read64 (kmem (pushes rs st)) a = read64 (kmem st) a"
  using assms
proof (induction rs arbitrary: st)
  case (Cons r rs)
  have al: "aligned8 (rsp st - 8)" using aligned8_minus [OF Cons.prems(2), of 1] by simp
  have "read64 (kmem (pushes rs (push (regs st r) st))) a = read64 (kmem (push (regs st r) st)) a"
  proof (rule Cons.IH)
    show "a \<noteq> rsp (push (regs st r) st) - of_nat (8 * Suc i)" if "i < length rs" for i
      using Cons.prems(4) [of "Suc i"] that by (simp add: push_def algebra_simps)
  qed (use Cons.prems al in \<open>simp_all add: push_def\<close>)
  also have "\<dots> = read64 (kmem st) a"
    using Cons.prems(1) Cons.prems(4) [of 0] al by (simp add: push_def)
  finally show ?case by simp
qed simp

lemma pushes_slot:
  assumes "aligned8 (rsp st)" "length rs < 2 ^ 59" "i < length rs"
  shows "read64 (kmem (pushes rs st)) (rsp st - of_nat (8 * Suc i)) = regs st (rs ! i)"
  using assms
proof (induction rs arbitrary: st i)
  case (Cons r rs)
  let ?st = "push (regs st r) st"
  have al: "aligned8 (rsp ?st)" using aligned8_minus [OF Cons.prems(1), of 1] by (simp add: push_def)
  show ?case
  proof (cases i)
    case 0
    have "read64 (kmem (pushes rs ?st)) (rsp ?st) = read64 (kmem ?st) (rsp ?st)"
    proof (rule pushes_other [OF al al])
      show "rsp ?st \<noteq> rsp ?st - of_nat (8 * Suc j)" if "j < length rs" for j
        using stack_slot_neq [of 0 "Suc j" "rsp ?st"] that Cons.prems(2) by simp
    qed (use Cons.prems in simp)
    then show ?thesis using 0 by (simp add: push_def)
  next
    case (Suc k)
    have "read64 (kmem (pushes rs ?st)) (rsp ?st - of_nat (8 * Suc k)) = regs ?st (rs ! k)"
      by (rule Cons.IH [OF al]) (use Cons.prems Suc in simp_all)
    moreover have "rsp ?st - of_nat (8 * Suc k) = rsp st - of_nat (8 * Suc i)"
      using Suc by (simp add: push_def algebra_simps)
    ultimately have "read64 (kmem (pushes rs ?st)) (rsp st - of_nat (8 * Suc i)) = regs st (rs ! k)"
      by (simp only: push_fields)
    then show ?thesis by (simp add: Suc)
  qed
qed simp

lemma rsp_pops: "rsp (fold pop_reg rs st) = rsp st + of_nat (8 * length rs)"
  by (induction rs arbitrary: st) (simp_all add: pop_reg_def algebra_simps)

lemma pops_other: "r \<notin> set rs \<Longrightarrow> regs (fold pop_reg rs st) r = regs st r"
  by (induction rs arbitrary: st) (auto simp: pop_reg_def)

lemma pops_slot:
  assumes "distinct rs" "i < length rs"
  shows "regs (fold pop_reg rs st) (rs ! i) = read64 (kmem st) (rsp st + of_nat (8 * i))"
  using assms
proof (induction rs arbitrary: st i)
  case (Cons r rs)
  show ?case
  proof (cases i)
    case 0
    then show ?thesis using Cons.prems(1) by (simp add: pops_other) (simp add: pop_reg_def)
  next
    case (Suc k)
    then show ?thesis
      using Cons.IH [of k "pop_reg r st"] Cons.prems by (simp add: pop_reg_def algebra_simps)
  qed
qed simp

lemma save_order_facts:
  "distinct save_order" "length save_order = 15" "r \<in> set save_order"
  by (simp_all add: save_order_def) (cases r; simp)

lemma pops_frame:
  assumes "frame_at (kmem st) (rsp st) R ra"
  shows "regs (fold pop_reg (rev save_order) st) = R"
    and "read64 (kmem st) (rsp (fold pop_reg (rev save_order) st)) = ra"
proof -
  show "regs (fold pop_reg (rev save_order) st) = R"
  proof
    fix r
    have "r \<in> set (rev save_order)" by (simp add: save_order_facts)
    then obtain i where i: "i < 15" "r = rev save_order ! i"
      by (metis in_set_conv_nth length_rev save_order_facts(2))
    have "regs (fold pop_reg (rev save_order) st) (rev save_order ! i) = read64 (kmem st) (rsp st + of_nat (8 * i))"
      by (rule pops_slot) (use i in \<open>simp_all add: save_order_facts\<close>)
    with assms i show "regs (fold pop_reg (rev save_order) st) r = R r"
      by (simp add: frame_at_def del: of_nat_mult)
  qed
  show "read64 (kmem st) (rsp (fold pop_reg (rev save_order) st)) = ra"
    using assms by (simp add: rsp_pops save_order_facts frame_at_def)
qed

lemma pushes_frame:
  assumes "aligned8 (rsp st)"
  shows "frame_at (kmem (pushes save_order st)) (rsp st - of_nat 120) (regs st) (read64 (kmem st) (rsp st))"
  unfolding frame_at_def
proof (intro conjI allI impI)
  fix i :: nat
  assume i: "i < 15"
  have "rsp st - of_nat 120 + of_nat (8 * i) = rsp st - of_nat (8 * Suc (14 - i))"
  proof -
    have "(of_nat (8 * Suc (14 - i)) :: u64) = of_nat (120 - 8 * i)"
      using i by (intro arg_cong [of _ _ of_nat]) simp
    also have "\<dots> = of_nat 120 - of_nat (8 * i)" using i by (intro of_nat_diff) simp
    finally show ?thesis by simp
  qed
  moreover have "read64 (kmem (pushes save_order st)) (rsp st - of_nat (8 * Suc (14 - i))) =
      regs st (save_order ! (14 - i))"
    by (rule pushes_slot [OF assms]) (simp_all add: save_order_facts)
  moreover have "rev save_order ! i = save_order ! (14 - i)"
    using i by (simp add: rev_nth save_order_facts)
  ultimately show "read64 (kmem (pushes save_order st)) (rsp st - of_nat 120 + of_nat (8 * i)) =
      regs st (rev save_order ! i)" by (simp only:)
next
  have "read64 (kmem (pushes save_order st)) (rsp st) = read64 (kmem st) (rsp st)"
  proof (rule pushes_other [OF assms assms])
    show "rsp st \<noteq> rsp st - of_nat (8 * Suc i)" if "i < length save_order" for i
      using stack_slot_neq [of 0 "Suc i" "rsp st"] that by (simp add: save_order_facts)
  qed (simp add: save_order_facts)
  then show "read64 (kmem (pushes save_order st)) (rsp st - of_nat 120 + of_nat 120) =
      read64 (kmem st) (rsp st)" by simp
qed

text \<open>The 15 words a switch pushes below \<open>sp\<close>.\<close>

definition push_area :: "u64 \<Rightarrow> u64 set" where
  "push_area sp = {sp - of_nat (8 * Suc i) | i. i < 15}"

definition frame_area :: "u64 \<Rightarrow> u64 set" where
  "frame_area sp = {sp + of_nat (8 * i) | i. i < 16}"

lemma frame_at_pushes:
  assumes "frame_at (kmem st) sp R ra" "aligned8 sp" "aligned8 (rsp st)"
    and "frame_area sp \<inter> push_area (rsp st) = {}"
  shows "frame_at (kmem (pushes save_order st)) sp R ra"
proof -
  have same: "read64 (kmem (pushes save_order st)) (sp + of_nat (8 * i)) = read64 (kmem st) (sp + of_nat (8 * i))"
    if "i < 16" for i
  proof (rule pushes_other [OF aligned8_plus [OF assms(2)] assms(3)])
    show "sp + of_nat (8 * i) \<noteq> rsp st - of_nat (8 * Suc j)" if "j < length save_order" for j
      using assms(4) that \<open>i < 16\<close> unfolding frame_area_def push_area_def save_order_facts by blast
  qed (simp add: save_order_facts)
  then show ?thesis
    using assms(1) same [of 15] unfolding frame_at_def by auto
qed

lemma switch_fields:
  assumes frame: "frame_at (kmem st) (kernel_top (tcbs st n)) R ra" and n: "n \<noteq> current_task st"
    and al: "aligned8 (kernel_top (tcbs st n))" "aligned8 (rsp st)"
    and dis: "frame_area (kernel_top (tcbs st n)) \<inter> push_area (rsp st) = {}"
  shows "regs (switch_to_task_asm n st) = R" "rip (switch_to_task_asm n st) = ra"
    "rsp (switch_to_task_asm n st) = kernel_top (tcbs st n) + 128"
    "kmem (switch_to_task_asm n st) = kmem (pushes save_order st)"
    "kernel_top (tcbs (switch_to_task_asm n st) (current_task st)) = rsp st - 120"
    "kernel_top (tcbs (switch_to_task_asm n st) n) = kernel_top (tcbs st n)"
proof -
  let ?p = "pushes save_order st"
  define s where "s = (upd_tcb (current_task st) (\<lambda>t. t\<lparr>kernel_top := rsp ?p\<rparr>)
      (?p\<lparr>current_task := next_task (cur st)\<rparr>))\<lparr>rsp := kernel_top (tcbs st n), mcr3 := tcr3 (tcbs st n)\<rparr>"
  have sw: "switch_to_task_asm n st = ret (fold pop_reg (rev save_order) s)"
    using n by (simp add: switch_to_task_asm_def Let_def s_def)
  have s: "kmem s = kmem ?p" "rsp s = kernel_top (tcbs st n)"
    "tcbs s = (tcbs st)(current_task st := (cur st)\<lparr>kernel_top := rsp ?p\<rparr>)"
    by (simp_all add: s_def)
  have "frame_at (kmem s) (rsp s) R ra"
    unfolding s by (rule frame_at_pushes [OF frame al dis])
  from pops_frame [OF this] show "regs (switch_to_task_asm n st) = R" "rip (switch_to_task_asm n st) = ra"
    by (simp_all add: sw) (simp add: ret_def)
  show "rsp (switch_to_task_asm n st) = kernel_top (tcbs st n) + 128"
    by (simp add: sw ret_def rsp_pops save_order_facts s)
  show "kmem (switch_to_task_asm n st) = kmem ?p" by (simp add: sw s)
  show "kernel_top (tcbs (switch_to_task_asm n st) (current_task st)) = rsp st - 120"
    by (simp add: sw s rsp_pushes save_order_facts)
  show "kernel_top (tcbs (switch_to_task_asm n st) n) = kernel_top (tcbs st n)"
    using n by (simp add: sw s)
qed

section \<open>Properties\<close>

definition tcb_ex :: "u64 \<Rightarrow> task_status \<Rightarrow> u64 \<Rightarrow> tcb" where
  "tcb_ex sp s n = \<lparr>kernel_top = sp, tcr3 = 0x1000, next_task = n, status = s, time_slice = 5\<rparr>"

definition machine_ex :: "(u64 \<Rightarrow> tcb) \<Rightarrow> machine" where
  "machine_ex t = \<lparr>tcbs = t, current_task = 0x100, kheap = heap_ex, kmem = (\<lambda>a. 0),
     regs = (\<lambda>r. 7), rsp = 0x8000, rip = 0, mcr3 = 0x1000, eois = 0\<rparr>"

definition two_tasks :: machine where
  "two_tasks = machine_ex (\<lambda>p. if p = 0x100 then tcb_ex 0 RUNNING 0x200 else tcb_ex 0x9000 READY 0x100)"

lemma two_tasks_fair: "fair [0x100, 0x200] 0 two_tasks"
  by (auto simp: fair_def running_ring_def ring_def two_tasks_def machine_ex_def tcb_ex_def QUANTUM_def)

text \<open>
  C3 Round robin: if all tasks of the ring but the running one are ready and have a full time
  slice, then after \<open>n\<close> timer interrupts, whatever the tasks do between them, the current task
  is number \<open>n div 6\<close> of the ring, it has \<open>5 - n mod 6\<close> ticks left, and the next interrupt is
  handled: no task runs for more than six ticks while another is ready.
\<close>

theorem round_robin:
  assumes "fair L 0 st" and "L \<noteq> []" and "exec st n s"
  shows "current_task s = L ! ((n div 6) mod length L) \<and>
     time_slice (cur s) = of_nat (5 - n mod 6) \<and> running_ring s (rotate (n div 6) L) \<and>
     (\<exists>s'. timer_irq_handler s = Some s')"
proof -
  have f: "fair L n s" by (rule exec_fair [OF assms(3,1,2)])
  then have "current_task s = hd (rotate (n div 6) L)"
    by (auto simp: fair_def running_ring_def ring_def)
  also have "\<dots> = L ! ((n div 6) mod length L)" using assms(2) by (simp add: hd_rotate_conv_nth)
  finally show ?thesis using f fair_tick [OF f assms(2)] by (auto simp: fair_def)
qed

theorem round_robin_witness:
  "\<exists>s. exec two_tasks 9 s \<and> current_task s = 0x200 \<and> time_slice (cur s) = 2"
proof -
  obtain s where "exec two_tasks 9 s" using exec_exists [OF two_tasks_fair] by blast
  with round_robin [OF two_tasks_fair _ this] show ?thesis by auto
qed

text \<open>
  C34 \<open>get_next_task\<close> always returns on a ring: it picks the first ready task after the current
  one and exchanges the two states, or, if none is ready, the current task unchanged.
\<close>

theorem get_next_task_total:
  assumes "ring st (c # xs)"
  shows "\<exists>st'. get_next_task st = Some (chosen st xs, st') \<and>
     (status (tcbs st (chosen st xs)) = READY \<longrightarrow>
        status (tcbs st' (chosen st xs)) = RUNNING \<and> (chosen st xs \<noteq> c \<longrightarrow> status (tcbs st' c) = READY)) \<and>
     (status (tcbs st (chosen st xs)) \<noteq> READY \<longrightarrow> chosen st xs = c \<and> st' = st) \<and>
     (\<forall>x. x \<noteq> c \<longrightarrow> x \<noteq> chosen st xs \<longrightarrow> tcbs st' x = tcbs st x)"
proof -
  have c: "current_task st = c" using assms by (auto simp: ring_def)
  have "chosen st xs = c \<or> status (tcbs st (chosen st xs)) = READY"
    using c by (auto simp: chosen_def find_Some_iff split: option.splits)
  then show ?thesis
    using ring_find [OF assms] c by (auto simp: get_next_task_def)
qed

theorem get_next_task_total_witness:
  "\<exists>st'. get_next_task two_tasks = Some (0x200, st') \<and> status (tcbs st' 0x100) = READY"
proof -
  have "ring two_tasks [0x100, 0x200]" using two_tasks_fair by (simp add: fair_def running_ring_def)
  moreover have "chosen two_tasks [0x200] = 0x200" "status (tcbs two_tasks 0x200) = READY"
    by (simp_all add: chosen_def two_tasks_def machine_ex_def tcb_ex_def)
  ultimately show ?thesis using get_next_task_total [of two_tasks "0x100" "[0x200]"] by auto
qed

text \<open>
  \<open>add_process\<close> keeps the ring: a new task is inserted right after the current one, and
  all others keep their places.
\<close>

theorem add_process_ring:
  assumes "ring st (c # xs)" and "p \<notin> set (c # xs)" and "p \<noteq> 0"
  shows "ring (add_process p st) (c # p # xs)"
proof -
  have r: "c = current_task st" "distinct (c # xs)" "0 \<notin> set (c # xs)" "chain (tcbs st) c xs c"
    using assms(1) by (auto simp: ring_def)
  let ?t = "tcbs (add_process p st)"
  have t: "next_task (?t c) = p" "next_task (?t p) = next_task (tcbs st c)"
    "\<And>x. x \<noteq> c \<Longrightarrow> x \<noteq> p \<Longrightarrow> next_task (?t x) = next_task (tcbs st x)"
    using assms(2) r(1) by (auto simp: add_process_def Let_def)
  have "chain ?t p xs c"
  proof (cases xs)
    case Nil
    then show ?thesis using r(4) t(2) by simp
  next
    case (Cons y ys)
    have "chain ?t y ys c = chain (tcbs st) y ys c"
    proof (rule chain_cong, intro ballI)
      fix x assume "x \<in> set (y # ys)"
      then have "x \<noteq> c" "x \<noteq> p" using r(2) assms(2) Cons by auto
      then show "next_task (?t x) = next_task (tcbs st x)" by (rule t(3))
    qed
    then show ?thesis using r(4) t(2) Cons by simp
  qed
  moreover have "current_task (add_process p st) = current_task st" by (simp add: add_process_def Let_def)
  ultimately show ?thesis using r assms t(1) by (auto simp: ring_def)
qed

theorem add_process_ring_witness: "ring (add_process 0x300 two_tasks) [0x100, 0x300, 0x200]"
proof -
  have "ring two_tasks [0x100, 0x200]" using two_tasks_fair by (simp add: fair_def running_ring_def)
  then show ?thesis using add_process_ring [of two_tasks "0x100" "[0x200]" "0x300"] by simp
qed

text \<open>
  The context switch saves and restores: it loads the registers, the return address and
  the stack pointer of the frame the next task left, switches to that task's page tables,
  and leaves on the old stack a frame with the old registers and the old return address,
  which the old task's block points to.
\<close>

theorem switch_saves_and_restores:
  assumes "frame_at (kmem st) (kernel_top (tcbs st n)) R ra" and "n \<noteq> current_task st"
    and "aligned8 (kernel_top (tcbs st n))" and "aligned8 (rsp st)"
    and "frame_area (kernel_top (tcbs st n)) \<inter> push_area (rsp st) = {}"
    and "switch_to_task_asm n st = st'"
  shows "regs st' = R \<and> rip st' = ra \<and> rsp st' = kernel_top (tcbs st n) + 128 \<and>
     mcr3 st' = tcr3 (tcbs st n) \<and>
     kernel_top (tcbs st' (current_task st)) = rsp st - 120 \<and>
     frame_at (kmem st') (kernel_top (tcbs st' (current_task st))) (regs st) (read64 (kmem st) (rsp st))"
  using switch_fields [OF assms(1-5)] pushes_frame [OF assms(4)] assms(6) switch_blocks(6)
  by auto

lemma areas_apart:
  assumes "unat sp < 2 ^ 63" "120 \<le> unat q" "unat q \<le> unat sp \<or> unat sp + 248 \<le> unat q"
  shows "frame_area sp \<inter> push_area q = {}"
proof -
  have up: "unat (sp + of_nat n) = unat sp + n" if "n < 128" for n
    using that assms(1) by (subst unat_add_lem [THEN iffD1]) (simp_all add: unat_of_nat64)
  have down: "unat (q - of_nat n) = unat q - n" if "n \<le> 120" for n
    using that assms(2) by (subst unat_sub) (simp_all add: unat_of_nat64 word_le_nat_alt)
  have "sp + of_nat (8 * i) \<noteq> q - of_nat (8 * Suc j)" if "i < 16" "j < 15" for i j
  proof
    assume "sp + of_nat (8 * i) = q - of_nat (8 * Suc j)"
    then have "unat sp + 8 * i = unat q - 8 * Suc j" using up [of "8 * i"] down [of "8 * Suc j"] that by simp
    with assms(2,3) that show False by auto
  qed
  then show ?thesis unfolding frame_area_def push_area_def by blast
qed

lemma read_zero: "read64 (\<lambda>a. 0) a = 0"
  by (rule bit_word_eqI) (simp add: read64_def bit_read_le)

lemma two_tasks_frame:
  "frame_at (kmem two_tasks) (kernel_top (tcbs two_tasks 0x200)) (\<lambda>r. 0) 0"
  "kernel_top (tcbs two_tasks 0x200) = 0x9000" "rsp two_tasks = 0x8000" "regs two_tasks = (\<lambda>r. 7)"
  "current_task two_tasks = 0x100"
  by (simp_all add: two_tasks_def machine_ex_def tcb_ex_def frame_at_def read_zero)

lemma two_tasks_switch:
  "frame_area (kernel_top (tcbs two_tasks 0x200)) \<inter> push_area (rsp two_tasks) = {}"
  "aligned8 (kernel_top (tcbs two_tasks 0x200))" "aligned8 (rsp two_tasks)"
  "0x200 \<noteq> current_task two_tasks"
  by (simp_all add: two_tasks_frame aligned8_def areas_apart)

theorem switch_saves_and_restores_witness:
  "regs (switch_to_task_asm 0x200 two_tasks) = (\<lambda>r. 0) \<and>
   kernel_top (tcbs (switch_to_task_asm 0x200 two_tasks) 0x100) = 0x7f88"
  using switch_saves_and_restores [OF two_tasks_frame(1) two_tasks_switch(4,2,3,1) refl]
  by (simp add: two_tasks_frame)

text \<open>
  C12 A task resumes where it stopped: if it is switched away and, some time later, switched
  back to while its saved frame is intact, it continues with the registers it had, at the
  address the switch was called from, with the stack pointer the call would have returned.
\<close>

theorem switch_round_trip:
  assumes "a = current_task st" and "n \<noteq> a" and "aligned8 (rsp st)"
    and "frame_at (kmem st) (kernel_top (tcbs st n)) R ra" and "aligned8 (kernel_top (tcbs st n))"
    and "frame_area (kernel_top (tcbs st n)) \<inter> push_area (rsp st) = {}"
    and "st1 = switch_to_task_asm n st"
    and "kernel_top (tcbs st2 a) = kernel_top (tcbs st1 a)" and "current_task st2 \<noteq> a"
    and "\<forall>x \<in> frame_area (kernel_top (tcbs st1 a)). read64 (kmem st2) x = read64 (kmem st1) x"
    and "aligned8 (rsp st2)" and "frame_area (kernel_top (tcbs st1 a)) \<inter> push_area (rsp st2) = {}"
  shows "regs (switch_to_task_asm a st2) = regs st \<and>
     rip (switch_to_task_asm a st2) = read64 (kmem st) (rsp st) \<and>
     rsp (switch_to_task_asm a st2) = rsp st + 8"
proof -
  let ?sp = "rsp st - of_nat 120"
  have sp: "kernel_top (tcbs st1 a) = ?sp"
    using switch_fields(5) [OF assms(4) _ assms(5,3,6)] assms(1,2,7) by simp
  have al: "aligned8 ?sp" using aligned8_minus [OF assms(3), of 15] by simp
  have fr: "frame_at (kmem st1) ?sp (regs st) (read64 (kmem st) (rsp st))"
    using pushes_frame [OF assms(3)] switch_fields(4) [OF assms(4) _ assms(5,3,6)] assms(1,2,7) by simp
  have "read64 (kmem st2) (?sp + of_nat (8 * i)) = read64 (kmem st1) (?sp + of_nat (8 * i))"
    if "i < 16" for i
    using assms(10) that unfolding sp frame_area_def by blast
  from this [of 15] this have "frame_at (kmem st2) ?sp (regs st) (read64 (kmem st) (rsp st))"
    using fr unfolding frame_at_def by auto
  then have "frame_at (kmem st2) (kernel_top (tcbs st2 a)) (regs st) (read64 (kmem st) (rsp st))"
    using sp assms(8) by simp
  from switch_fields(1-3) [OF this _ _ assms(11)] show ?thesis
    using assms(8,9,12) al sp by simp
qed

theorem switch_round_trip_witness:
  "regs (switch_to_task_asm 0x100 (switch_to_task_asm 0x200 two_tasks)) = (\<lambda>r. 7) \<and>
   rsp (switch_to_task_asm 0x100 (switch_to_task_asm 0x200 two_tasks)) = 0x8008"
proof -
  let ?s1 = "switch_to_task_asm 0x200 two_tasks"
  note frame = two_tasks_frame(1) and sw = two_tasks_switch
  have top: "kernel_top (tcbs ?s1 0x100) = 0x7f88" "rsp ?s1 = 0x9080"
    using switch_fields(3,5) [OF frame sw(4,2,3,1)] by (simp_all add: two_tasks_frame)
  have cur: "current_task ?s1 = 0x200"
    by (simp add: switch_blocks two_tasks_def machine_ex_def tcb_ex_def)
  have "frame_area (kernel_top (tcbs ?s1 0x100)) \<inter> push_area (rsp ?s1) = {}"
    by (simp add: top areas_apart)
  with switch_round_trip [of "0x100" two_tasks "0x200" "\<lambda>r. 0" 0 ?s1 ?s1] sw frame show ?thesis
    by (simp add: top(2) cur two_tasks_frame(3-5) aligned8_def)
qed

text \<open>
  The task pointer and the running task come apart when the next task of the ring is not
  ready: the switch sets \<open>current_task\<close> to the next of the old task, not to the task it
  switches to.
\<close>

theorem schedule_wrong_current:
  assumes "ring st (c # w # xs)" and "status (tcbs st w) \<noteq> READY"
    and "status (tcbs st (chosen st (w # xs))) = READY" and "chosen st (w # xs) \<noteq> c"
  shows "\<exists>st'. schedule st = Some st' \<and> current_task st' = w \<and> chosen st (w # xs) \<noteq> w \<and>
     status (tcbs st' (chosen st (w # xs))) = RUNNING \<and> mcr3 st' = tcr3 (tcbs st (chosen st (w # xs)))"
proof -
  let ?n = "chosen st (w # xs)"
  have c: "current_task st = c" "0 \<notin> set (c # w # xs)" "next_task (tcbs st c) = w" "c \<notin> set (w # xs)"
    using assms(1) by (auto simp: ring_def)
  have "?n \<noteq> w" using assms(2,3) by auto
  moreover have "?n \<in> set (c # w # xs)"
    using c(1) by (auto simp: chosen_def find_Some_iff split: option.splits)
  then have "?n \<noteq> 0" using c(2) by auto
  moreover have "get_next_task st = Some (?n, upd_tcb ?n (\<lambda>t. t\<lparr>status := RUNNING\<rparr>)
      (upd_tcb c (\<lambda>t. t\<lparr>status := READY\<rparr>) st))"
    using ring_find [OF assms(1)] assms(3) c(1) by (simp add: get_next_task_def)
  ultimately show ?thesis
    using c assms(4) by (simp add: schedule_def switch_to_task_def switch_blocks)
qed

definition three_tasks :: machine where
  "three_tasks = machine_ex (\<lambda>p. if p = 0x100 then tcb_ex 0 RUNNING 0x200
     else if p = 0x200 then tcb_ex 0x9000 WAITING 0x300 else tcb_ex 0xa000 READY 0x100)"

theorem schedule_wrong_current_witness:
  "\<exists>st'. schedule three_tasks = Some st' \<and> current_task st' = 0x200 \<and>
     status (tcbs st' 0x300) = RUNNING"
proof -
  have "ring three_tasks [0x100, 0x200, 0x300]" "status (tcbs three_tasks 0x200) \<noteq> READY"
    "chosen three_tasks [0x200, 0x300] = 0x300" "status (tcbs three_tasks 0x300) = READY"
    by (simp_all add: ring_def chosen_def three_tasks_def machine_ex_def tcb_ex_def)
  then show ?thesis using schedule_wrong_current [of three_tasks "0x100" "0x200" "[0x300]"] by auto
qed

lemma read_memset:
  assumes "8 * j + 8 \<le> unat n" "unat n \<le> 2 ^ 63"
  shows "read64 (memset k 0 n m) (k + of_nat (8 * j)) = 0"
proof (rule bit_word_eqI)
  fix b :: nat
  assume "b < LENGTH(64)"
  then have b: "b div 8 < 8" by simp
  have "k + of_nat (8 * j) + of_nat (b div 8) - k = of_nat (8 * j + b div 8)" by simp
  moreover have "unat (of_nat (8 * j + b div 8) :: u64) = 8 * j + b div 8"
    using assms b by (intro unat_of_nat64) simp
  ultimately have "unat (k + of_nat (8 * j) + of_nat (b div 8) - k) < unat n"
    using assms b by simp
  then show "bit (read64 (memset k 0 n m) (k + of_nat (8 * j))) b = bit 0 b"
    by (simp add: read64_def bit_read_le memset_eq)
qed

lemma fresh_stack_frame:
  assumes "aligned8 k"
  shows "frame_at (write64 (k + 4096) main (memset k 0 KERNEL_STACK_SIZE m)) (k + 3976) (\<lambda>r. 0) main"
  unfolding frame_at_def
proof (intro conjI allI impI)
  fix i :: nat
  assume i: "i < 15"
  let ?m = "memset k 0 KERNEL_STACK_SIZE m"
  have eq: "k + 3976 + of_nat (8 * i) = k + of_nat (8 * (497 + i))" by simp
  have "aligned8 (k + 4096)" using aligned8_plus [OF assms, of 512] by simp
  moreover have "k + 4096 \<noteq> k + of_nat (8 * (497 + i))"
  proof
    assume "k + 4096 = k + of_nat (8 * (497 + i))"
    then have "unat (of_nat 4096 :: u64) = unat (of_nat (8 * (497 + i)) :: u64)" by simp
    with i show False by (simp add: unat_of_nat64 del: of_nat_mult of_nat_add)
  qed
  ultimately have "read64 (write64 (k + 4096) main ?m) (k + of_nat (8 * (497 + i))) =
      read64 ?m (k + of_nat (8 * (497 + i)))"
    by (intro read64_write64_other aligned8_plus [OF assms]) simp_all
  also have "\<dots> = 0" using i by (intro read_memset) (simp_all add: KERNEL_STACK_SIZE_def)
  finally show "read64 (write64 (k + 4096) main ?m) (k + 3976 + of_nat (8 * i)) = 0" by (simp only: eq)
next
  have "k + 3976 + of_nat 120 = k + 4096" by simp
  then show "read64 (write64 (k + 4096) main (memset k 0 KERNEL_STACK_SIZE m)) (k + 3976 + of_nat 120) = main"
    by (simp only: read64_write64_same)
qed

text \<open>
  A created process is ready to be switched to: its saved frame has all registers zero
  and \<open>main\<close> as the address to return to, it is \<open>READY\<close>, has a full time slice and the
  creator's page tables.  The word holding \<open>main\<close> is the one just above the 4096 bytes that
  were allocated for the stack.
\<close>

theorem create_process_ready:
  assumes "heap_wf (kheap st)" and "aligned8 (heap_addr (kheap st))"
    and "create_process main st = Some (Inr (p, st'))"
  shows "\<exists>k. frame_at (kmem st') (kernel_top (tcbs st' p)) (\<lambda>r. 0) main \<and>
     kernel_top (tcbs st' p) + of_nat 120 = k + KERNEL_STACK_SIZE \<and>
     unat k + unat KERNEL_STACK_SIZE \<notin> byte_block k KERNEL_STACK_SIZE \<and>
     status (tcbs st' p) = READY \<and> time_slice (tcbs st' p) = QUANTUM \<and>
     tcr3 (tcbs st' p) = tcr3 (cur st) \<and> current_task st' = current_task st"
proof -
  obtain h s0 where p: "malloc sizeof_tcb (kheap st) = Some (p, h)"
    and s0: "process_init_stack p (st\<lparr>kheap := h\<rparr>) = Some (0, s0)" "st' = process_init_info p main s0"
    using assms(3) by (auto simp: create_process_def process_init_stack_def status_defs
        Option.bind_eq_Some_conv Let_def split: if_splits prod.splits)
  obtain k h' where k: "malloc KERNEL_STACK_SIZE h = Some (k, h')" "k \<noteq> - 1"
    and s0': "s0 = upd_tcb p (\<lambda>t. t\<lparr>kernel_top := kernel_top t + KERNEL_STACK_SIZE\<rparr>)
        ((upd_tcb p (\<lambda>t. t\<lparr>kernel_top := k\<rparr>) (st\<lparr>kheap := h'\<rparr>))
          \<lparr>kmem := memset k 0 KERNEL_STACK_SIZE (kmem st)\<rparr>)"
    using s0(1) by (auto simp: process_init_stack_def status_defs Let_def split: if_splits)
  have "sane_request sizeof_tcb" "sane_request KERNEL_STACK_SIZE"
    by (simp_all add: sane_request_def sizeof_tcb_def KERNEL_STACK_SIZE_def blocks_of_def)
  note sane = this
  have h: "heap_wf h" "heap_addr h = heap_addr (kheap st)"
    using malloc_result [OF assms(1) sane(1) p] assms(1) by (auto simp: take_blocks_def)
  obtain s where "k = heap_addr h + of_nat (128 * s)"
    using malloc_result [OF h(1) sane(2) k(1)] k(2) by auto
  then have al: "aligned8 k" using aligned8_plus [OF assms(2), of "16 * s"] h(2) by simp
  have "frame_at (write64 (k + 4096) main (memset k 0 KERNEL_STACK_SIZE (kmem st))) (3976 + k) (\<lambda>r. 0) main"
    using fresh_stack_frame [OF al] by (simp only: add.commute [of 3976 k])
  then show ?thesis
    by (intro exI [of _ k])
       (simp add: s0(2) s0' process_init_info_def Let_def KERNEL_STACK_SIZE_def byte_block_def)
qed

lemma create_process_ex: "\<exists>p st'. create_process 0x4000 two_tasks = Some (Inr (p, st'))"
proof -
  have "kheap two_tasks = heap_ex" by (simp add: two_tasks_def machine_ex_def)
  moreover have "first_block_run heap_ex (blocks_of sizeof_tcb) 0" by (simp add: first_block_run_def block_run_def blocks_of_def sizeof_tcb_def)
  with malloc_run [of heap_ex sizeof_tcb 0] obtain h where
    h: "malloc sizeof_tcb heap_ex = Some (heap_addr heap_ex, h)" "take_blocks heap_ex 2 0 h" "heap_wf h"
    by (auto simp: blocks_of_def BLOCK_SIZE_def sizeof_tcb_def)
  have "busy_block h j \<longleftrightarrow> (\<exists>i<2. aliased i j)" for j
    using h(2) by (auto simp: take_blocks_def numeral_2_eq_2)
  then have "block_run h (blocks_of KERNEL_STACK_SIZE) 64"
    by (auto simp: block_run_def blocks_of_def KERNEL_STACK_SIZE_def aliased_def div_add1_eq)
  then obtain s where "first_block_run h (blocks_of KERNEL_STACK_SIZE) s" using block_run_first by metis
  moreover have "heap_addr h = 0xffff800000200000" "unat (free_blocks h) = 6553598"
    using h(2) by (simp_all add: take_blocks_def heap_ex_def)
  moreover from this(2) have "\<not> free_blocks h < KERNEL_STACK_SIZE div BLOCK_SIZE"
    by (simp add: word_less_nat_alt KERNEL_STACK_SIZE_def BLOCK_SIZE_def unat_div_distrib)
  ultimately obtain h' where h': "malloc KERNEL_STACK_SIZE h = Some (heap_addr h + of_nat (128 * s), h')"
    using malloc_run [OF h(3), of KERNEL_STACK_SIZE s] by (auto simp: blocks_of_def KERNEL_STACK_SIZE_def)
  have "aligned8 (heap_addr h + of_nat (8 * (16 * s)))"
    using \<open>heap_addr h = _\<close> by (intro aligned8_plus) (simp add: aligned8_def)
  then have "heap_addr h + of_nat (128 * s) \<noteq> - 1" by (auto simp: aligned8_def unat_minus1)
  then show ?thesis
    using h(1) h' \<open>kheap two_tasks = heap_ex\<close>
    by (simp add: create_process_def process_init_stack_def Let_def)
qed

theorem create_process_ready_witness:
  "\<exists>p st'. create_process 0x4000 two_tasks = Some (Inr (p, st')) \<and>
     frame_at (kmem st') (kernel_top (tcbs st' p)) (\<lambda>r. 0) 0x4000 \<and> status (tcbs st' p) = READY"
proof -
  have "kheap two_tasks = heap_ex" by (simp add: two_tasks_def machine_ex_def)
  then have "heap_wf (kheap two_tasks)" "aligned8 (heap_addr (kheap two_tasks))"
    by (simp_all add: aligned8_def) (simp add: heap_ex_def)
  then show ?thesis using create_process_ex create_process_ready by blast
qed

end
