(* ===== verification/Lock.thy ===== *)
theory Lock
  imports Prelude
begin

text \<open>
  klibc/lock.c and \<open>kprint\<close> of klibc/io.c as a step relation over any number of processors:
  the spinlock, the interrupt flag of each processor and the characters on the screen.
\<close>

section \<open>State and steps\<close>

datatype pc =
    Idle
  | Locking string
  | Printing string
  | Unlocked

record 'cpu console =
  spinlock :: bool
  iflag :: "'cpu \<Rightarrow> bool"
  pc :: "'cpu \<Rightarrow> pc"
  out :: string

text \<open>\<open>atomic_flag_test_and_set\<close>: the old value, and the flag set.\<close>

definition test_and_set :: "bool \<Rightarrow> bool \<times> bool" where
  "test_and_set flag = (flag, True)"

text \<open>One round of the loop of \<open>lock\<close>: the flag afterwards and whether the lock was taken.\<close>

definition try_lock :: "bool \<Rightarrow> bool \<times> bool" where
  "try_lock flag = (let (old, flag') = test_and_set flag in (flag', \<not> old))"

definition unlock :: "bool \<Rightarrow> bool" where
  "unlock flag = False"

text \<open>The label of a step is the string whose printing it begins, if any.\<close>

inductive kprint_step :: "'cpu console \<Rightarrow> string option \<Rightarrow> 'cpu console \<Rightarrow> bool" where
  cli: "pc s c = Idle \<Longrightarrow>
     kprint_step s None (s\<lparr>iflag := (iflag s)(c := False), pc := (pc s)(c := Locking str)\<rparr>)"
| spin: "pc s c = Locking str \<Longrightarrow> try_lock (spinlock s) = (flag, False) \<Longrightarrow>
     kprint_step s None (s\<lparr>spinlock := flag\<rparr>)"
| acquire: "pc s c = Locking str \<Longrightarrow> try_lock (spinlock s) = (flag, True) \<Longrightarrow>
     kprint_step s (Some str) (s\<lparr>spinlock := flag, pc := (pc s)(c := Printing str)\<rparr>)"
| put: "pc s c = Printing (ch # str) \<Longrightarrow>
     kprint_step s None (s\<lparr>out := out s @ [ch], pc := (pc s)(c := Printing str)\<rparr>)"
| release: "pc s c = Printing [] \<Longrightarrow>
     kprint_step s None (s\<lparr>spinlock := unlock (spinlock s), pc := (pc s)(c := Unlocked)\<rparr>)"
| sti: "pc s c = Unlocked \<Longrightarrow>
     kprint_step s None (s\<lparr>iflag := (iflag s)(c := True), pc := (pc s)(c := Idle)\<rparr>)"

definition boot :: "'cpu console" where
  "boot = \<lparr>spinlock = False, iflag = (\<lambda>c. False), pc = (\<lambda>c. Idle), out = []\<rparr>"

text \<open>\<open>runs strs s\<close>: \<open>s\<close> is reachable from \<open>boot\<close> and \<open>strs\<close> are the strings whose printing
  was begun on the way, in order.\<close>

inductive runs :: "string list \<Rightarrow> 'cpu console \<Rightarrow> bool" where
  boot: "runs [] boot"
| step: "runs strs s \<Longrightarrow> kprint_step s l s' \<Longrightarrow>
     runs (strs @ (case l of None \<Rightarrow> [] | Some str \<Rightarrow> [str])) s'"

section \<open>Mutual exclusion\<close>

definition holds :: "'cpu console \<Rightarrow> 'cpu \<Rightarrow> bool" where
  "holds s c \<longleftrightarrow> (\<exists>str. pc s c = Printing str)"

text \<open>The flag is set exactly while one processor is inside, and whoever is inside or waits
  has interrupts off.\<close>

definition lock_inv :: "'cpu console \<Rightarrow> bool" where
  "lock_inv s \<longleftrightarrow> (spinlock s \<longleftrightarrow> (\<exists>c. holds s c)) \<and>
     (\<forall>c d. holds s c \<longrightarrow> holds s d \<longrightarrow> c = d) \<and>
     (\<forall>c. pc s c \<noteq> Idle \<longrightarrow> \<not> iflag s c)"

lemma try_lock_eq [simp]: "try_lock flag = (True, \<not> flag)"
  by (simp add: try_lock_def test_and_set_def)

lemma holds_upd [simp]:
  "holds (s\<lparr>pc := (pc s)(c := p)\<rparr>) d \<longleftrightarrow> (if d = c then \<exists>str. p = Printing str else holds s d)"
  "holds (s\<lparr>spinlock := b\<rparr>) d \<longleftrightarrow> holds s d" "holds (s\<lparr>iflag := i\<rparr>) d \<longleftrightarrow> holds s d"
  "holds (s\<lparr>out := os\<rparr>) d \<longleftrightarrow> holds s d"
  by (simp_all add: holds_def)

lemma lock_inv_step:
  assumes "kprint_step s l s'" "lock_inv s" shows "lock_inv s'"
  using assms
proof (cases rule: kprint_step.cases)
  case (cli c str)
  then have "\<not> holds s c" by (simp add: holds_def)
  then have "holds s' d \<longleftrightarrow> holds s d" for d using cli by (auto simp: holds_def)
  with cli assms(2) show ?thesis by (auto simp: lock_inv_def)
next
  case (spin c str flag)
  then have "holds s' d \<longleftrightarrow> holds s d" for d by (auto simp: holds_def)
  with spin assms(2) show ?thesis by (auto simp: lock_inv_def)
next
  case (acquire c str flag)
  then have "holds s' d \<longleftrightarrow> d = c" for d using assms(2) by (auto simp: holds_def lock_inv_def)
  with acquire assms(2) show ?thesis by (auto simp: lock_inv_def)
next
  case (put c ch str)
  then have "holds s' d \<longleftrightarrow> holds s d" for d by (auto simp: holds_def)
  with put assms(2) show ?thesis by (auto simp: lock_inv_def)
next
  case (release c)
  then have "holds s d \<longleftrightarrow> d = c" for d using assms(2) by (auto simp: holds_def lock_inv_def)
  then have "\<not> holds s' d" for d using release by (auto simp: holds_def)
  with release assms(2) show ?thesis by (auto simp: lock_inv_def unlock_def)
next
  case (sti c)
  then have "\<not> holds s c" by (simp add: holds_def)
  then have "holds s' d \<longleftrightarrow> holds s d" for d using sti by (auto simp: holds_def)
  with sti assms(2) show ?thesis by (auto simp: lock_inv_def)
qed

lemma lock_inv_runs: "runs strs s \<Longrightarrow> lock_inv s"
proof (induction rule: runs.induct)
  case boot
  then show ?case by (simp add: lock_inv_def holds_def boot_def)
qed (rule lock_inv_step)

section \<open>Strings come out whole\<close>

text \<open>What is still to be printed: the holder's rest.\<close>

definition rest_of :: "'cpu console \<Rightarrow> string \<Rightarrow> bool" where
  "rest_of s rest \<longleftrightarrow> (\<forall>c str. pc s c = Printing str \<longrightarrow> str = rest) \<and> (rest \<noteq> [] \<longrightarrow> (\<exists>c. holds s c))"

lemma out_step:
  assumes "kprint_step s l s'" "lock_inv s" "out s @ rest = concat strs" "rest_of s rest"
  shows "\<exists>rest'. out s' @ rest' = concat (strs @ (case l of None \<Rightarrow> [] | Some str \<Rightarrow> [str])) \<and>
    rest_of s' rest'"
  using assms(1)
proof (cases rule: kprint_step.cases)
  case (cli c str)
  then have "\<not> holds s c" by (simp add: holds_def)
  then have "holds s' d \<longleftrightarrow> holds s d" for d using cli by (auto simp: holds_def)
  then have "rest_of s' rest"
    using assms(4) cli by (auto simp: rest_of_def split: if_splits)
  with cli assms(3) show ?thesis by auto
next
  case (spin c str flag)
  then have "rest_of s' rest" using assms(4) by (auto simp: rest_of_def holds_def)
  with spin assms(3) show ?thesis by auto
next
  case (acquire c str flag)
  then have "\<not> holds s d" for d using assms(2) by (auto simp: lock_inv_def)
  then have "rest = []" "rest_of s' str"
    using assms(4) acquire by (auto simp: rest_of_def holds_def)
  with acquire assms(3) show ?thesis by auto
next
  case (put c ch str)
  then have "rest = ch # str" using assms(4) by (auto simp: rest_of_def)
  moreover have "holds s d \<Longrightarrow> d = c" for d using put assms(2) by (auto simp: lock_inv_def holds_def)
  then have "rest_of s' str" using put by (auto simp: rest_of_def holds_def)
  ultimately show ?thesis using put assms(3) by auto
next
  case (release c)
  then have "rest = []" using assms(4) by (auto simp: rest_of_def)
  moreover have "rest_of s' []" using release assms(4) \<open>rest = []\<close> by (auto simp: rest_of_def)
  ultimately show ?thesis using release assms(3) by auto
next
  case (sti c)
  then have "\<not> holds s c" by (simp add: holds_def)
  then have "holds s' d \<longleftrightarrow> holds s d" for d using sti by (auto simp: holds_def)
  then have "rest_of s' rest"
    using assms(4) sti by (auto simp: rest_of_def split: if_splits)
  with sti assms(3) show ?thesis by auto
qed

lemma out_runs: "runs strs s \<Longrightarrow> \<exists>rest. out s @ rest = concat strs \<and> rest_of s rest"
proof (induction rule: runs.induct)
  case boot
  then show ?case by (auto simp: rest_of_def boot_def)
next
  case (step strs s l s')
  then show ?case using out_step [OF step(2) lock_inv_runs [OF step(1)]] by blast
qed

section \<open>Properties\<close>

text \<open>
  C13 Mutual exclusion: in every reachable state at most one processor is between \<open>lock\<close> and
  \<open>unlock\<close>, the flag is set exactly then, and its interrupts are off, so it cannot be
  interrupted by a handler that prints.
\<close>

theorem kprint_mutual_exclusion:
  assumes "runs strs s" and "holds s c"
  shows "spinlock s \<and> \<not> iflag s c \<and> (\<forall>d. holds s d \<longrightarrow> d = c)"
  using lock_inv_runs [OF assms(1)] assms(2) by (auto simp: lock_inv_def holds_def)

lemma runs_two:
  obtains s :: "bool console" where "runs [''ok'']  s" "holds s True" "pc s False = Locking ''no''"
    "out s = ''o''"
proof -
  define s1 :: "bool console" where
    "s1 = boot\<lparr>iflag := (iflag boot)(False := False), pc := (pc boot)(False := Locking ''no'')\<rparr>"
  define s2 where "s2 = s1\<lparr>iflag := (iflag s1)(True := False), pc := (pc s1)(True := Locking ''ok'')\<rparr>"
  define s3 where "s3 = s2\<lparr>spinlock := True, pc := (pc s2)(True := Printing ''ok'')\<rparr>"
  define s4 where "s4 = s3\<lparr>out := out s3 @ ''o'', pc := (pc s3)(True := Printing ''k'')\<rparr>"
  have "kprint_step boot None s1" unfolding s1_def by (rule cli) (simp add: boot_def)
  with runs.boot have "runs ([] @ (case None of None \<Rightarrow> [] | Some str \<Rightarrow> [str])) s1" by (rule step)
  moreover have "kprint_step s1 None s2" unfolding s2_def by (rule cli) (simp add: s1_def boot_def)
  ultimately have "runs ([] @ (case None of None \<Rightarrow> [] | Some str \<Rightarrow> [str])) s2"
    using step by fastforce
  moreover have "kprint_step s2 (Some ''ok'') s3"
    unfolding s3_def by (rule acquire) (simp_all add: s2_def s1_def boot_def)
  ultimately have "runs [''ok''] s3" using step by fastforce
  moreover have "kprint_step s3 None s4" unfolding s4_def by (rule put) (simp add: s3_def)
  ultimately have "runs [''ok''] s4" using step by fastforce
  then show thesis
    by (rule that) (simp_all add: s4_def s3_def s2_def s1_def holds_def boot_def)
qed

theorem kprint_mutual_exclusion_witness:
  "\<exists>s :: bool console. runs [''ok''] s \<and> spinlock s \<and> \<not> iflag s True \<and> \<not> holds s False"
proof -
  obtain s :: "bool console" where "runs [''ok''] s" "holds s True" using runs_two by blast
  with kprint_mutual_exclusion [OF this] show ?thesis by fastforce
qed

text \<open>
  Strings do not interleave: the screen always shows the strings in the order their
  printers got the lock, all whole but the last, of which the holder has printed a prefix;
  when nobody is inside, all are whole.
\<close>

theorem kprint_strings_whole:
  assumes "runs strs s"
  shows "\<exists>rest. out s @ rest = concat strs \<and> ((\<exists>c. holds s c) \<longleftrightarrow> (\<exists>c. pc s c = Printing rest)) \<and>
     (\<not> (\<exists>c. holds s c) \<longrightarrow> out s = concat strs)"
proof -
  obtain rest where "out s @ rest = concat strs" "rest_of s rest" using out_runs [OF assms] by blast
  then show ?thesis by (intro exI [of _ rest]) (auto simp: rest_of_def holds_def)
qed

theorem kprint_strings_whole_witness:
  "\<exists>s :: bool console. runs [''ok''] s \<and> out s @ ''k'' = ''ok''"
proof -
  obtain s :: "bool console" where s: "runs [''ok''] s" "out s = ''o''" using runs_two by blast
  obtain rest where "out s @ rest = concat [''ok'']" using kprint_strings_whole [OF s(1)] by blast
  with s show ?thesis by auto
qed

text \<open>
  \<open>kprint\<close> leaves interrupts on: whatever the flag was when it was called, the last step
  of a call enables them.
\<close>

theorem kprint_enables_interrupts:
  assumes "kprint_step s l s'" and "pc s c \<noteq> Idle" and "pc s' c = Idle"
  shows "iflag s' c"
  using assms by (cases rule: kprint_step.cases) (auto split: if_splits)

theorem kprint_enables_interrupts_witness:
  "iflag (boot\<lparr>iflag := (\<lambda>c :: bool. False)(True := True), pc := (\<lambda>c. Idle)(True := Idle)\<rparr>) True"
proof -
  let ?s = "boot\<lparr>pc := (\<lambda>c :: bool. Idle)(True := Unlocked)\<rparr>"
  have "kprint_step ?s None (?s\<lparr>iflag := (iflag ?s)(True := True), pc := (pc ?s)(True := Idle)\<rparr>)"
    by (rule sti) simp
  from kprint_enables_interrupts [OF this, of True] show ?thesis by (simp add: boot_def)
qed

end
