(* ===== verification/Kstring.thy ===== *)
theory Kstring
  imports Prelude
begin

text \<open>
  klibc/string.c over character arrays: a buffer is the list of its bytes, and a pointer into
  it is an index.  An access outside the array has no result.
\<close>

section \<open>Operations\<close>

definition HEX_STRING_MAX :: nat where "HEX_STRING_MAX = 18"
definition MAX_NUM_STRING_LEN :: nat where "MAX_NUM_STRING_LEN = 50"

definition strncpy :: "u8 list \<Rightarrow> u8 list \<Rightarrow> u64 \<Rightarrow> (s32 \<times> u8 list) option" where
  "strncpy dst src sz =
     map_option (\<lambda>(res, dst). (of_nat res, dst))
       (for_range (\<lambda>i (res, dst). Option.bind (buf_get src (int i)) (\<lambda>c.
            if c \<noteq> 0 then map_option (Pair (Suc res)) (buf_set dst (int i) c) else Some (res, dst)))
          0 (unat sz) (0, dst))"

fun strlen_from :: "u8 list \<Rightarrow> s32 \<Rightarrow> s32 option" where
  "strlen_from [] res = None"
| "strlen_from (c # cs) res = (if c \<noteq> 0 then strlen_from cs (res + 1) else Some res)"

definition strlen :: "u8 list \<Rightarrow> s32 option" where
  "strlen str = strlen_from str 0"

text \<open>\<open>while (num) { *--str = alpha[num % base]; num /= base; }\<close>, for the bases 16 and 10.\<close>

function put_digits :: "nat \<Rightarrow> (nat \<Rightarrow> u8) \<Rightarrow> u8 list \<Rightarrow> int \<Rightarrow> nat \<Rightarrow> (u8 list \<times> int) option" where
  "put_digits base alpha buf str num =
     (if num = 0 \<or> base < 2 then Some (buf, str)
      else Option.bind (buf_set buf (str - 1) (alpha (num mod base)))
             (\<lambda>buf. put_digits base alpha buf (str - 1) (num div base)))"
  by pat_completeness auto
termination by (relation "measure (\<lambda>(base, alpha, buf, str, num). num)") auto

declare put_digits.simps [simp del]

definition alpha_numeric :: "nat \<Rightarrow> u8" where
  "alpha_numeric d = of_nat (if d < 10 then 48 + d else 87 + d)"

definition memset_buf :: "u8 list \<Rightarrow> nat \<Rightarrow> u8 \<Rightarrow> nat \<Rightarrow> u8 list option" where
  "memset_buf buf start c n =
     for_range (\<lambda>i buf. buf_set buf (int (start + i)) c) 0 n buf"

definition ull_to_hex :: "u8 list \<Rightarrow> u64 \<Rightarrow> (u8 list \<times> int) option" where
  "ull_to_hex buf num =
     Option.bind (memset_buf buf 0 48 HEX_STRING_MAX) (\<lambda>buf.
     Option.bind (buf_set buf 0 48) (\<lambda>buf.
     Option.bind (buf_set buf 1 120) (\<lambda>buf.
     Option.bind (buf_set buf (int HEX_STRING_MAX) 0) (\<lambda>buf.
       map_option (\<lambda>(buf, str). (buf, 0))
         (put_digits 16 alpha_numeric buf (int HEX_STRING_MAX) (unat num))))))"

definition itoa :: "u8 list \<Rightarrow> u64 \<Rightarrow> (u8 list \<times> int) option" where
  "itoa buf num =
     Option.bind (buf_set buf (int MAX_NUM_STRING_LEN) 0) (\<lambda>buf.
       put_digits 10 alpha_numeric buf (int MAX_NUM_STRING_LEN - 1) (unat num))"

section \<open>Digits\<close>

function digits :: "nat \<Rightarrow> nat \<Rightarrow> nat list" where
  "digits b n = (if n = 0 \<or> b < 2 then [] else digits b (n div b) @ [n mod b])"
  by pat_completeness auto
termination by (relation "measure snd") auto

declare digits.simps [simp del]

definition value_of :: "nat \<Rightarrow> nat list \<Rightarrow> nat" where
  "value_of b = foldl (\<lambda>v d. v * b + d) 0"

lemma value_digits: "2 \<le> b \<Longrightarrow> value_of b (digits b n) = n"
proof (induction b n rule: digits.induct)
  case (1 b n)
  then show ?case by (subst digits.simps) (auto simp: value_of_def)
qed

lemma length_digits: "2 \<le> b \<Longrightarrow> n < b ^ k \<Longrightarrow> length (digits b n) \<le> k"
proof (induction k arbitrary: n)
  case 0
  then show ?case by (simp add: digits.simps)
next
  case (Suc k)
  then have "n div b < b ^ k" by (intro less_mult_imp_div_less) (simp add: mult.commute)
  with Suc show ?case by (subst digits.simps) simp
qed

lemma digits_less: "2 \<le> b \<Longrightarrow> d \<in> set (digits b n) \<Longrightarrow> d < b"
proof (induction b n rule: digits.induct)
  case (1 b n)
  then show ?case by (subst (asm) digits.simps) (auto split: if_splits)
qed

text \<open>The loop writes the digits right-aligned and leaves the rest of the buffer.\<close>

lemma put_digits_eq:
  assumes "2 \<le> base" "length (digits base n) \<le> s" "s \<le> length buf"
  shows "put_digits base alpha buf (int s) n =
    Some (take (s - length (digits base n)) buf @ map alpha (digits base n) @ drop s buf,
          int (s - length (digits base n)))"
  using assms
proof (induction base n arbitrary: s buf rule: digits.induct)
  case (1 base n)
  show ?case
  proof (cases "n = 0")
    case True
    then show ?thesis by (simp add: put_digits.simps digits.simps)
  next
    case False
    let ?d = "digits base (n div base)"
    have dig: "digits base n = ?d @ [n mod base]" using False "1.prems"(1) by (subst digits.simps) simp
    then have s: "Suc (length ?d) \<le> s" "s \<le> length buf" using "1.prems" by simp_all
    then have pred: "int s - 1 = int (s - 1)" by simp
    let ?buf = "buf[s - 1 := alpha (n mod base)]"
    have "put_digits base alpha ?buf (int s - 1) (n div base) =
      Some (take (s - 1 - length ?d) ?buf @ map alpha ?d @ drop (s - 1) ?buf, int (s - 1 - length ?d))"
      unfolding pred by (rule "1.IH") (use False "1.prems"(1) s in simp_all)
    moreover have "drop (s - 1) ?buf = alpha (n mod base) # drop s buf"
      using s by (subst Cons_nth_drop_Suc [symmetric]) (simp_all add: drop_update_cancel)
    moreover have "buf_set buf (int s - 1) (alpha (n mod base)) = Some ?buf"
      unfolding pred by (rule buf_set_in) (use s in simp)
    ultimately show ?thesis
      using False "1.prems"(1) dig by (subst put_digits.simps) simp
  qed
qed

lemma memset_buf_eq:
  assumes "n \<le> length buf"
  shows "memset_buf buf 0 c n = Some (replicate n c @ drop n buf)"
proof -
  have "\<exists>b. for_range (\<lambda>i buf. buf_set buf (int (0 + i)) c) 0 n buf = Some b \<and>
     (\<lambda>k b. b = replicate k c @ drop k buf) n b"
  proof (rule for_range_total)
    fix k b
    assume "k < n" "b = replicate k c @ drop k buf"
    with assms show "\<exists>b'. buf_set b (int (0 + k)) c = Some b' \<and> b' = replicate (Suc k) c @ drop (Suc k) buf"
      by (simp add: list_update_append Cons_nth_drop_Suc [symmetric] replicate_append_same [symmetric])
  qed simp_all
  then show ?thesis by (simp add: memset_buf_def)
qed

text \<open>The number a string of hexadecimal or decimal digits stands for.\<close>

definition digit_of :: "u8 \<Rightarrow> nat" where
  "digit_of c = (if unat c < 58 then unat c - 48 else unat c - 87)"

definition number_of :: "nat \<Rightarrow> u8 list \<Rightarrow> nat" where
  "number_of b cs = value_of b (map digit_of cs)"

lemma digit_of_alpha: "d < 36 \<Longrightarrow> digit_of (alpha_numeric d) = d"
  by (simp add: digit_of_def alpha_numeric_def unat_of_nat take_bit_eq_mod)

lemma number_of_digits:
  assumes "2 \<le> b" "b \<le> 36" shows "number_of b (map alpha_numeric (digits b n)) = n"
proof -
  have "map (digit_of \<circ> alpha_numeric) (digits b n) = digits b n"
    by (intro map_idI) (use digits_less [OF assms(1)] assms(2) digit_of_alpha in fastforce)
  then show ?thesis by (simp add: number_of_def value_digits assms)
qed

lemma number_of_zeros: "number_of b (replicate k 48 @ cs) = number_of b cs"
  by (induction k) (simp_all add: number_of_def value_of_def digit_of_def)

section \<open>Properties\<close>

lemma hex_start:
  assumes "19 \<le> length buf"
  shows "ull_to_hex buf num =
    map_option (\<lambda>(buf, str). (buf, 0))
      (put_digits 16 alpha_numeric (48 # 120 # replicate 16 48 @ 0 # drop 19 buf) 18 (unat num))"
proof -
  have "memset_buf buf 0 48 18 = Some (replicate 18 48 @ drop 18 buf)"
    using assms by (intro memset_buf_eq) simp
  moreover have "drop 18 buf = buf ! 18 # drop 19 buf"
    using assms Cons_nth_drop_Suc [of 18 buf] by simp
  moreover have "replicate 18 (48 :: u8) = 48 # 48 # replicate 16 48" by (simp add: numeral_eq_Suc)
  ultimately show ?thesis
    by (simp add: ull_to_hex_def HEX_STRING_MAX_def buf_set_def list_update_append)
qed

text \<open>The text of a number: \<open>0x\<close> and sixteen digits.\<close>

definition hex_text :: "u64 \<Rightarrow> u8 list" where
  "hex_text num = [48, 120] @ replicate (16 - length (digits 16 (unat num))) 48 @ map alpha_numeric (digits 16 (unat num))"

lemma hex_digits_fit: "length (digits 16 (unat (num :: u64))) \<le> 16"
proof -
  have "unat num < 16 ^ 16" using unat_u64_bound [of num] by simp
  then show ?thesis by (rule length_digits [rotated]) simp
qed

lemma length_hex_text: "length (hex_text num) = 18"
  using hex_digits_fit [of num] by (simp add: hex_text_def)

lemma ull_to_hex_value:
  assumes "19 \<le> length buf"
  shows "ull_to_hex buf num = Some (hex_text num @ 0 # drop 19 buf, 0)"
proof -
  let ?d = "digits 16 (unat num)"
  let ?b = "48 # 120 # replicate 16 48 @ 0 # drop 19 buf :: u8 list"
  note len = hex_digits_fit [of num]
  have "put_digits 16 alpha_numeric ?b (int 18) (unat num) =
      Some (take (18 - length ?d) ?b @ map alpha_numeric ?d @ drop 18 ?b, int (18 - length ?d))"
    by (rule put_digits_eq) (use len in simp_all)
  moreover have "take (18 - length ?d) ?b = [48, 120] @ replicate (16 - length ?d) 48"
    using len by (simp add: take_Cons' Suc_diff_le)
  moreover have "drop 18 ?b = 0 # drop 19 buf" by simp
  ultimately show ?thesis using hex_start [OF assms] by (simp add: hex_text_def)
qed

text \<open>
  \<open>ull_to_hex\<close> prints the number: in a buffer of at least 19 bytes it returns the string
  \<open>0x\<close>, 16 digits and a terminating zero, leaves the bytes after that alone, and the digits
  read back as the number.
\<close>

theorem ull_to_hex_roundtrip:
  assumes "19 \<le> length buf"
  shows "\<exists>hex. ull_to_hex buf num = Some ([48, 120] @ hex @ [0] @ drop 19 buf, 0) \<and>
     length hex = 16 \<and> number_of 16 hex = unat num"
  using ull_to_hex_value [OF assms] hex_digits_fit [of num]
  by (intro exI [of _ "replicate (16 - length (digits 16 (unat num))) 48 @ map alpha_numeric (digits 16 (unat num))"])
    (simp add: hex_text_def number_of_zeros number_of_digits)

theorem ull_to_hex_roundtrip_witness:
  "\<exists>hex. ull_to_hex (replicate 50 7) 0xbeef = Some ([48, 120] @ hex @ [0] @ replicate 31 7, 0) \<and>
     number_of 16 hex = 0xbeef"
  using ull_to_hex_roundtrip [of "replicate 50 7" "0xbeef"] by auto

text \<open>
  The buffers of the length the constants name are one byte too short: with a buffer of
  \<open>HEX_STRING_MAX\<close> (or \<open>MAX_NUM_STRING_LEN\<close>) bytes the terminating zero goes just past the
  end.
\<close>

theorem conversion_buffer_overrun:
  "(length buf = HEX_STRING_MAX \<longrightarrow> ull_to_hex buf num = None) \<and>
   (length buf = MAX_NUM_STRING_LEN \<longrightarrow> itoa buf num = None)"
proof (intro conjI impI)
  assume len: "length buf = HEX_STRING_MAX"
  then have "memset_buf buf 0 48 18 = Some (replicate 18 48 @ drop 18 buf)"
    by (intro memset_buf_eq) (simp add: HEX_STRING_MAX_def)
  with len show "ull_to_hex buf num = None"
    by (simp add: ull_to_hex_def HEX_STRING_MAX_def buf_set_def)
next
  assume "length buf = MAX_NUM_STRING_LEN"
  then show "itoa buf num = None" by (simp add: itoa_def buf_set_def)
qed

theorem conversion_buffer_overrun_witness:
  "ull_to_hex (replicate 18 0) 1 = None \<and> itoa (replicate 50 0) 1 = None"
  using conversion_buffer_overrun [of "replicate 18 0" 1] conversion_buffer_overrun [of "replicate 50 0" 1]
  by (simp add: HEX_STRING_MAX_def MAX_NUM_STRING_LEN_def)

definition dec_text :: "u64 \<Rightarrow> u8 list" where
  "dec_text num = map alpha_numeric (digits 10 (unat num))"

lemma dec_digits_fit: "length (digits 10 (unat (num :: u64))) \<le> 20"
proof -
  have "unat num < 10 ^ 20" using unat_u64_bound [of num] by simp
  then show ?thesis by (rule length_digits [rotated]) simp
qed

lemma itoa_value:
  assumes "50 < length buf"
  shows "itoa buf num = Some (take (49 - length (dec_text num)) buf @ dec_text num @ buf ! 49 # 0 # drop 51 buf, int (49 - length (dec_text num)))"
proof -
  let ?d = "digits 10 (unat num)" and ?b = "buf[50 := 0]"
  note len = dec_digits_fit [of num]
  have "buf_set buf 50 0 = Some ?b" using assms buf_set_in [of 50 buf 0] by simp
  then have "itoa buf num = put_digits 10 alpha_numeric ?b (int 49) (unat num)"
    by (simp add: itoa_def MAX_NUM_STRING_LEN_def)
  also have "\<dots> = Some (take (49 - length ?d) ?b @ map alpha_numeric ?d @ drop 49 ?b, int (49 - length ?d))"
    by (rule put_digits_eq) (use len assms in simp_all)
  also have "drop 49 ?b = buf ! 49 # 0 # drop 51 buf"
    using assms by (intro nth_equalityI) (auto simp: nth_Cons' nth_list_update)
  finally show ?thesis by (simp add: dec_text_def)
qed

text \<open>
  \<open>itoa\<close> in a buffer of more than 50 bytes returns a pointer to the decimal digits of the
  number, which end at index 49; the byte there is the one the buffer had before, and the
  terminating zero is one further.  For 0 there are no digits at all.
\<close>

theorem itoa_digits:
  assumes "50 < length buf"
  shows "\<exists>buf' p. itoa buf num = Some (buf', int p) \<and> p \<le> 49 \<and>
     number_of 10 (take (49 - p) (drop p buf')) = unat num \<and>
     buf' ! 49 = buf ! 49 \<and> buf' ! 50 = 0 \<and> (num = 0 \<longrightarrow> p = 49)"
proof -
  let ?t = "dec_text num" and ?n = "49 - length (dec_text num)"
  have len: "length ?t \<le> 20" using dec_digits_fit [of num] by (simp add: dec_text_def)
  let ?b = "take ?n buf @ ?t @ buf ! 49 # 0 # drop 51 buf"
  have l: "length (take ?n buf) = ?n" using assms len by simp
  have "\<not> 49 < ?n" "\<not> 50 < ?n" by arith+
  then have "?b ! 49 = buf ! 49" "?b ! 50 = 0" using len l by (simp_all add: nth_append)
  moreover have "take (49 - ?n) (drop ?n ?b) = ?t" using len l by simp
  moreover have "number_of 10 ?t = unat num" by (simp add: dec_text_def number_of_digits)
  moreover have "num = 0 \<Longrightarrow> ?n = 49" by (simp add: dec_text_def digits.simps)
  ultimately show ?thesis using itoa_value [OF assms] by (intro exI [of _ ?b] exI [of _ ?n]) simp
qed

theorem itoa_digits_witness:
  "\<exists>buf' p. itoa (replicate 60 0) 4096 = Some (buf', int p) \<and>
     number_of 10 (take (49 - p) (drop p buf')) = 4096"
proof -
  have "50 < length (replicate 60 (0 :: u8))" by simp
  from itoa_digits [OF this, of 4096] show ?thesis by auto
qed

text \<open>
  \<open>strncpy\<close> does not stop at the end of the source string: over the whole given length it
  copies the bytes that are not zero, leaves the target's byte where the source has a zero
  (so no terminator is written), and returns how many it copied.
\<close>

theorem strncpy_copies_nonzero:
  assumes "unat sz \<le> length src" and "unat sz \<le> length dst"
  shows "\<exists>dst'. strncpy dst src sz = Some (of_nat (length (filter (\<lambda>c. c \<noteq> 0) (take (unat sz) src))), dst') \<and>
     length dst' = length dst \<and>
     (\<forall>i<length dst. dst' ! i = (if i < unat sz \<and> src ! i \<noteq> 0 then src ! i else dst ! i))"
proof -
  let ?f = "\<lambda>i (res, dst). Option.bind (buf_get src (int i)) (\<lambda>c.
      if c \<noteq> 0 then map_option (Pair (Suc res)) (buf_set dst (int i) c) else Some (res, dst))"
  let ?P = "\<lambda>k (res, d). res = length (filter (\<lambda>c. c \<noteq> 0) (take k src)) \<and> length d = length dst \<and>
      (\<forall>i<length dst. d ! i = (if i < k \<and> src ! i \<noteq> 0 then src ! i else dst ! i))"
  have "\<exists>r. for_range ?f 0 (unat sz) (0, dst) = Some r \<and> ?P (unat sz) r"
  proof (rule for_range_total)
    fix k t
    assume k: "k < unat sz" and P: "?P k t"
    obtain res d where t: "t = (res, d)" by (cases t)
    show "\<exists>t'. ?f k t = Some t' \<and> ?P (Suc k) t'"
      using k P assms unfolding t
      by (auto simp: take_Suc_conv_app_nth nth_list_update less_Suc_eq)
  qed simp_all
  then show ?thesis by (auto simp: strncpy_def)
qed

theorem strncpy_copies_nonzero_witness:
  "strncpy [9, 9, 9, 9] [72, 0, 73, 0] 4 = Some (2, [72, 9, 73, 9])"
proof -
  obtain d where d: "strncpy [9, 9, 9, 9] [72, 0, 73, 0] 4 = Some (2, d)" "length d = 4"
    "\<forall>i<4. d ! i = (if [72, 0, 73, 0] ! i \<noteq> (0 :: u8) then [72, 0, 73, 0] ! i else [9, 9, 9, 9] ! i)"
    using strncpy_copies_nonzero [of 4 "[72, 0, 73, 0]" "[9, 9, 9, 9]"] by auto
  have "length d = Suc (Suc (Suc (Suc 0)))" using d(2) by simp
  then obtain a b c e where abce: "d = [a, b, c, e]" unfolding length_Suc_conv by auto
  have "a = 72" "b = 9" "c = 73" "e = 9"
    using d(3) [rule_format, of 0] d(3) [rule_format, of 1] d(3) [rule_format, of 2]
      d(3) [rule_format, of 3] unfolding abce by simp_all
  with d(1) abce show ?thesis by simp
qed

text \<open>\<open>strlen\<close> returns the position of the first zero.\<close>

lemma strlen_first_zero:
  "k < length str \<Longrightarrow> str ! k = 0 \<Longrightarrow> (\<And>i. i < k \<Longrightarrow> str ! i \<noteq> 0) \<Longrightarrow> strlen str = Some (of_nat k)"
proof -
  have "strlen_from str r = Some (r + of_nat k)"
    if "k < length str" "str ! k = 0" "\<And>i. i < k \<Longrightarrow> str ! i \<noteq> 0" for r
    using that
  proof (induction k arbitrary: str r)
    case 0
    then show ?case by (cases str) auto
  next
    case (Suc k)
    then obtain c cs where str: "str = c # cs" by (cases str) auto
    have "strlen_from cs (r + 1) = Some (r + 1 + of_nat k)"
      by (rule Suc.IH) (use Suc.prems str in force)+
    moreover have "c \<noteq> 0" using Suc.prems(3) [of 0] str by simp
    ultimately show ?case using str by (simp add: algebra_simps)
  qed
  then show "k < length str \<Longrightarrow> str ! k = 0 \<Longrightarrow> (\<And>i. i < k \<Longrightarrow> str ! i \<noteq> 0) \<Longrightarrow>
    strlen str = Some (of_nat k)" by (simp add: strlen_def)
qed

end
