(* ===== verification/Descriptors.thy ===== *)
theory Descriptors
  imports Prelude
begin

text \<open>
  gdt/gdt.c, idt/idt.c and tss/tss.c: the descriptor tables, field by field as the code fills
  them, and read back as the processor decodes them.
\<close>

section \<open>The global descriptor table\<close>

record gdt_structured =
  access_byte :: u8
  gflags :: u8

definition FRAZZOS_TOTAL_SEGMENTS :: nat where "FRAZZOS_TOTAL_SEGMENTS = 7"
definition KERNEL_CS :: u16 where "KERNEL_CS = 0x08"
definition FRAZZOS_TOTAL_IDT_ENTRIES :: nat where "FRAZZOS_TOTAL_IDT_ENTRIES = 256"
definition sizeof_gdt_entry :: nat where "sizeof_gdt_entry = 8"

definition gdt_structured_init :: "gdt_structured list" where
  "gdt_structured_init =
     [\<lparr>access_byte = 0x00, gflags = 0x00\<rparr>, \<lparr>access_byte = 0x9A, gflags = 0xA\<rparr>,
      \<lparr>access_byte = 0x92, gflags = 0xC\<rparr>, \<lparr>access_byte = 0xFA, gflags = 0xA\<rparr>,
      \<lparr>access_byte = 0xF2, gflags = 0xC\<rparr>, \<lparr>access_byte = 0x89, gflags = 0x00\<rparr>,
      \<lparr>access_byte = 0x00, gflags = 0x00\<rparr>]"

text \<open>The table is its bytes; \<open>target\<close> is the index of the entry's first byte.\<close>

definition encode_gdt_entry :: "int \<Rightarrow> gdt_structured \<Rightarrow> u8 list \<Rightarrow> u8 list option" where
  "encode_gdt_entry target source gdt =
     Option.bind (buf_set gdt (target + 5) (access_byte source)) (\<lambda>gdt.
     Option.bind (buf_get gdt (target + 6)) (\<lambda>b.
       buf_set gdt (target + 6) (b OR push_bit 4 (gflags source))))"

definition gdt_init :: "u8 list option" where
  "gdt_init =
     for_range (\<lambda>i gdt. encode_gdt_entry (int (i * sizeof_gdt_entry)) (gdt_structured_init ! i) gdt)
       0 (FRAZZOS_TOTAL_SEGMENTS - 1) (replicate (FRAZZOS_TOTAL_SEGMENTS * sizeof_gdt_entry) 0)"

section \<open>The interrupt descriptor table\<close>

record idt_entry =
  isr_low :: u16
  kernel_cs :: u16
  ist :: u8
  attributes :: u8
  isr_mid :: u16
  isr_high :: u32
  idt_reserved :: u32

record idt_reg =
  idt_limit :: u16
  idt_base :: u32

definition IDT_GATE_INTERRUPT :: u8 where "IDT_GATE_INTERRUPT = 0b10001110"

definition sizeof_idt_entry :: nat where "sizeof_idt_entry = 16"

definition idt_set_entry :: "u8 \<Rightarrow> u64 \<Rightarrow> u8 \<Rightarrow> idt_entry list \<Rightarrow> idt_entry list option" where
  "idt_set_entry interrupt_code interrupt_routine flags idt =
     buf_set idt (uint interrupt_code)
       \<lparr>isr_low = ucast (interrupt_routine AND 0xFFFF), kernel_cs = KERNEL_CS, ist = 0,
        attributes = flags,
        isr_mid = ucast (drop_bit 16 (interrupt_routine AND 0xFFFF0000)),
        isr_high = ucast (drop_bit 32 (interrupt_routine AND 0xFFFFFFFF00000000)),
        idt_reserved = 0\<rparr>"

text \<open>
  The stub table and the three named handlers are assembly labels, and the address of the
  table is the linker's: parameters.
\<close>

definition idt_init ::
  "u64 \<Rightarrow> u64 list \<Rightarrow> u64 \<Rightarrow> u64 \<Rightarrow> u64 \<Rightarrow> idt_entry list \<Rightarrow> (idt_reg \<times> idt_entry list) option" where
  "idt_init idt_addr isr_stub_table divide_zero_exception timer_irq keyboard_irq idt =
     map_option
       (Pair \<lparr>idt_limit = of_nat (FRAZZOS_TOTAL_IDT_ENTRIES * sizeof_idt_entry - 1),
              idt_base = ucast idt_addr\<rparr>)
       (Option.bind
          (for_range (\<lambda>i idt. Option.bind (buf_get isr_stub_table (int i)) (\<lambda>stub.
               idt_set_entry (of_nat i) stub IDT_GATE_INTERRUPT idt))
             0 FRAZZOS_TOTAL_IDT_ENTRIES idt) (\<lambda>idt.
        Option.bind (idt_set_entry 0 divide_zero_exception IDT_GATE_INTERRUPT idt) (\<lambda>idt.
        Option.bind (idt_set_entry 32 timer_irq IDT_GATE_INTERRUPT idt) (\<lambda>idt.
          idt_set_entry 33 keyboard_irq IDT_GATE_INTERRUPT idt))))"

section \<open>The task state segment\<close>

record tss_descriptor =
  segment_limit_0_15 :: u16
  base_addr_0_15 :: u16
  base_addr_16_23 :: u8
  tss_flags :: u16
  base_addr_24_31 :: u8
  base_addr_32_63 :: u32

definition TSS_OFFSET :: nat where "TSS_OFFSET = 0x28"
definition TSS_SIZE :: u16 where "TSS_SIZE = 0x67"
definition sizeof_tss_descriptor :: nat where "sizeof_tss_descriptor = 16"

text \<open>A cast binds tighter than a shift: \<open>(uint8_t) x >> 16\<close> truncates first.\<close>

definition tss_fields :: "u64 \<Rightarrow> tss_descriptor" where
  "tss_fields tss_ptr =
     \<lparr>segment_limit_0_15 = TSS_SIZE,
      base_addr_0_15 = ucast (tss_ptr AND 0xFFFF),
      base_addr_16_23 = drop_bit 16 (ucast (tss_ptr AND 0xFF0000)),
      tss_flags = 0b1001 OR push_bit 7 1,
      base_addr_24_31 = drop_bit 24 (ucast (tss_ptr AND 0xFF000000)),
      base_addr_32_63 = ucast (drop_bit 32 (tss_ptr AND 0xFFFFFFFF00000000))\<rparr>"

definition word_bytes :: "nat \<Rightarrow> u64 \<Rightarrow> u8 list" where
  "word_bytes n w = map (\<lambda>i. ucast (drop_bit (8 * i) w)) [0..<n]"

text \<open>The packed bytes the assignments write; the last field, \<open>reserved\<close>, is left alone.\<close>

definition tss_bytes :: "tss_descriptor \<Rightarrow> u8 list" where
  "tss_bytes d = word_bytes 2 (ucast (segment_limit_0_15 d)) @ word_bytes 2 (ucast (base_addr_0_15 d)) @
     [base_addr_16_23 d] @ word_bytes 2 (ucast (tss_flags d)) @ [base_addr_24_31 d] @
     word_bytes 4 (ucast (base_addr_32_63 d))"

definition put_bytes :: "nat \<Rightarrow> u8 list \<Rightarrow> u8 list \<Rightarrow> u8 list option" where
  "put_bytes at bs buf = for_range (\<lambda>i buf. buf_set buf (int (at + i)) (bs ! i)) 0 (length bs) buf"

text \<open>\<open>(struct tss_descriptor * )&gdt + TSS_OFFSET\<close>: the offset counts descriptors, not bytes.\<close>

definition init_tss :: "u64 \<Rightarrow> u8 list \<Rightarrow> u8 list option" where
  "init_tss tss_ptr gdt = put_bytes (TSS_OFFSET * sizeof_tss_descriptor) (tss_bytes (tss_fields tss_ptr)) gdt"

section \<open>How the processor reads them\<close>

text \<open>The address of a gate's handler.\<close>

definition gate_handler :: "idt_entry \<Rightarrow> u64" where
  "gate_handler e =
     ucast (isr_low e) OR push_bit 16 (ucast (isr_mid e)) OR push_bit 32 (ucast (isr_high e))"

text \<open>The base of a TSS descriptor.\<close>

definition tss_base :: "tss_descriptor \<Rightarrow> u64" where
  "tss_base d = ucast (base_addr_0_15 d) OR push_bit 16 (ucast (base_addr_16_23 d)) OR
     push_bit 24 (ucast (base_addr_24_31 d)) OR push_bit 32 (ucast (base_addr_32_63 d))"

text \<open>Present bit, privilege level, code bit and long-mode bit of the segment a selector names.\<close>

definition segment :: "u8 list \<Rightarrow> u16 \<Rightarrow> (bool \<times> nat \<times> bool \<times> bool) option" where
  "segment gdt selector =
     (let e = int (unat selector div 8 * 8) in
      Option.bind (buf_get gdt (e + 5)) (\<lambda>access.
      map_option (\<lambda>flags.
          (bit access 7, unat (drop_bit 5 access AND 3), bit access 4 \<and> bit access 3, bit flags 5))
        (buf_get gdt (e + 6))))"

section \<open>Properties\<close>

lemma gate_fields:
  "ucast ((a :: u64) AND 0xFFFF) = (ucast a :: u16)"
  "ucast (drop_bit 16 ((a :: u64) AND 0xFFFF0000)) = (ucast (drop_bit 16 a) :: u16)"
  "ucast (drop_bit 32 ((a :: u64) AND 0xFFFFFFFF00000000)) = (ucast (drop_bit 32 a) :: u32)"
proof -
  have m: "(0xFFFF :: u64) = mask 16" "(0xFFFF0000 :: u64) = push_bit 16 (mask 16)"
    "(0xFFFFFFFF00000000 :: u64) = push_bit 32 (mask 32)" by (simp_all add: mask_eq_exp_minus_1 push_bit_eq_mult)
  show "ucast (a AND 0xFFFF) = (ucast a :: u16)"
    unfolding m by (rule bit_word_eqI) (simp add: bit_ucast_iff bit_and_iff bit_mask_iff)
  show "ucast (drop_bit 16 (a AND 0xFFFF0000)) = (ucast (drop_bit 16 a) :: u16)"
    unfolding m by (rule bit_word_eqI)
      (auto simp: bit_ucast_iff bit_and_iff bit_mask_iff bit_drop_bit_eq bit_push_bit_iff)
  show "ucast (drop_bit 32 (a AND 0xFFFFFFFF00000000)) = (ucast (drop_bit 32 a) :: u32)"
    unfolding m by (rule bit_word_eqI)
      (auto simp: bit_ucast_iff bit_and_iff bit_mask_iff bit_drop_bit_eq bit_push_bit_iff)
qed

definition gate :: "u64 \<Rightarrow> u8 \<Rightarrow> idt_entry" where
  "gate routine flags =
     \<lparr>isr_low = ucast routine, kernel_cs = KERNEL_CS, ist = 0, attributes = flags,
      isr_mid = ucast (drop_bit 16 routine), isr_high = ucast (drop_bit 32 routine), idt_reserved = 0\<rparr>"

lemma gate_handler_gate [simp]: "gate_handler (gate routine flags) = routine"
proof (rule bit_word_eqI)
  fix n :: nat
  assume "n < LENGTH(64)"
  then show "bit (gate_handler (gate routine flags)) n = bit routine n"
    by (cases "n < 16"; cases "n < 32")
       (auto simp: gate_handler_def gate_def bit_or_iff bit_push_bit_iff bit_drop_bit_eq bit_ucast_iff)
qed

lemma idt_set_entry_eq:
  "unat code < length idt \<Longrightarrow> idt_set_entry code routine flags idt = Some (idt[unat code := gate routine flags])"
proof -
  assume "unat code < length idt"
  moreover have "uint code = int (unat code)" by simp
  ultimately show ?thesis
    unfolding idt_set_entry_def gate_fields gate_def [symmetric] by (simp only: buf_set_in)
qed

text \<open>
  A gate leads to its handler: after \<open>idt_set_entry\<close> the processor decodes entry
  \<open>interrupt_code\<close> to the full 64-bit address given, with the kernel code selector and the
  given attributes, and all other entries are unchanged.
\<close>

theorem idt_set_entry_roundtrip:
  assumes "length idt = FRAZZOS_TOTAL_IDT_ENTRIES"
  shows "\<exists>idt'. idt_set_entry code routine flags idt = Some idt' \<and> length idt' = length idt \<and>
     gate_handler (idt' ! unat code) = routine \<and> kernel_cs (idt' ! unat code) = KERNEL_CS \<and>
     attributes (idt' ! unat code) = flags \<and> (\<forall>i. i \<noteq> unat code \<longrightarrow> idt' ! i = idt ! i)"
proof -
  have "unat code < 256" using unsigned_less [of code] by simp
  then have lt: "unat code < length idt" using assms by (simp add: FRAZZOS_TOTAL_IDT_ENTRIES_def)
  show ?thesis
    using lt by (simp add: idt_set_entry_eq [OF lt]) (simp add: gate_def)
qed

definition idt_ex :: "idt_entry list" where
  "idt_ex = replicate 256 \<lparr>isr_low = 0, kernel_cs = 0, ist = 0, attributes = 0, isr_mid = 0,
     isr_high = 0, idt_reserved = 0\<rparr>"

theorem idt_set_entry_roundtrip_witness:
  "\<exists>idt'. idt_set_entry 33 0xffffffff80012345 IDT_GATE_INTERRUPT idt_ex = Some idt' \<and>
     gate_handler (idt' ! 33) = 0xffffffff80012345"
  using idt_set_entry_roundtrip [of idt_ex 33 "0xffffffff80012345" IDT_GATE_INTERRUPT]
  by (auto simp: idt_ex_def FRAZZOS_TOTAL_IDT_ENTRIES_def)

text \<open>
  \<open>idt_init\<close> reads past the stub table: with fewer than 256 stubs (the assembly defines 32)
  its loop leaves the array; with 256 it returns and every gate leads to its stub, but for
  the three installed by name.
\<close>

theorem idt_init_needs_all_stubs:
  assumes "length idt = FRAZZOS_TOTAL_IDT_ENTRIES"
  shows "(length stubs < FRAZZOS_TOTAL_IDT_ENTRIES \<longrightarrow> idt_init a stubs d t k idt = None) \<and>
     (length stubs = FRAZZOS_TOTAL_IDT_ENTRIES \<longrightarrow>
        (\<exists>r idt'. idt_init a stubs d t k idt = Some (r, idt') \<and>
           (\<forall>i<256. gate_handler (idt' ! i) =
              (if i = 0 then d else if i = 32 then t else if i = 33 then k else stubs ! i))))"
proof (intro conjI impI)
  let ?f = "\<lambda>i idt. Option.bind (buf_get stubs (int i)) (\<lambda>stub.
      idt_set_entry (of_nat i) stub IDT_GATE_INTERRUPT idt)"
  assume short: "length stubs < FRAZZOS_TOTAL_IDT_ENTRIES"
  have "for_range ?f 0 FRAZZOS_TOTAL_IDT_ENTRIES idt = None"
  proof (rule ccontr)
    assume "for_range ?f 0 FRAZZOS_TOTAL_IDT_ENTRIES idt \<noteq> None"
    then obtain idt' where "for_range ?f 0 FRAZZOS_TOTAL_IDT_ENTRIES idt = Some idt'" by blast
    then have "(\<lambda>n (_ :: idt_entry list). n \<le> length stubs) FRAZZOS_TOTAL_IDT_ENTRIES idt'"
      by (rule for_range_inv) (auto simp: Option.bind_eq_Some_conv buf_get_Some)
    with short show False by simp
  qed
  then show "idt_init a stubs d t k idt = None" by (simp add: idt_init_def)
next
  let ?f = "\<lambda>i idt. Option.bind (buf_get stubs (int i)) (\<lambda>stub.
      idt_set_entry (of_nat i) stub IDT_GATE_INTERRUPT idt)"
  let ?P = "\<lambda>n x. length x = 256 \<and> (\<forall>i<n. gate_handler (x ! i) = stubs ! i)"
  assume stubs: "length stubs = FRAZZOS_TOTAL_IDT_ENTRIES"
  have "\<exists>x. for_range ?f 0 256 idt = Some x \<and> ?P 256 x"
  proof (rule for_range_total [where P = ?P])
    fix i x
    assume i: "i < 256" and P: "?P i x"
    then have u: "unat (of_nat i :: u8) = i" by (simp add: unat_of_nat take_bit_eq_mod)
    show "\<exists>x'. ?f i x = Some x' \<and> ?P (Suc i) x'"
      using i P stubs idt_set_entry_eq [of "of_nat i" x] unfolding u
      by (auto simp: FRAZZOS_TOTAL_IDT_ENTRIES_def nth_list_update less_Suc_eq)
  qed (use assms in \<open>auto simp: FRAZZOS_TOTAL_IDT_ENTRIES_def\<close>)
  then obtain x where x: "for_range ?f 0 256 idt = Some x" "?P 256 x" by blast
  let ?y = "x[0 := gate d IDT_GATE_INTERRUPT, 32 := gate t IDT_GATE_INTERRUPT, 33 := gate k IDT_GATE_INTERRUPT]"
  have "\<exists>r. idt_init a stubs d t k idt = Some (r, ?y)"
    using x by (simp add: idt_init_def FRAZZOS_TOTAL_IDT_ENTRIES_def idt_set_entry_eq)
  moreover have "gate_handler (?y ! i) = (if i = 0 then d else if i = 32 then t else if i = 33 then k else stubs ! i)"
    if "i < 256" for i
    using x(2) that by (simp add: nth_list_update)
  ultimately show "\<exists>r idt'. idt_init a stubs d t k idt = Some (r, idt') \<and>
      (\<forall>i<256. gate_handler (idt' ! i) =
         (if i = 0 then d else if i = 32 then t else if i = 33 then k else stubs ! i))" by blast
qed

theorem idt_init_needs_all_stubs_witness:
  "idt_init 0 (replicate 32 0x1000) 1 2 3 idt_ex = None \<and>
   (\<exists>r idt'. idt_init 0 (replicate 256 0x1000) 1 2 3 idt_ex = Some (r, idt') \<and>
      gate_handler (idt' ! 33) = 3 \<and> gate_handler (idt' ! 14) = 0x1000)"
proof -
  have len: "length idt_ex = FRAZZOS_TOTAL_IDT_ENTRIES" by (simp add: idt_ex_def FRAZZOS_TOTAL_IDT_ENTRIES_def)
  show ?thesis
    using idt_init_needs_all_stubs [OF len, of "replicate 32 0x1000" 0 1 2 3]
      idt_init_needs_all_stubs [OF len, of "replicate 256 0x1000" 0 1 2 3]
    by (auto simp: FRAZZOS_TOTAL_IDT_ENTRIES_def)
qed

text \<open>
  \<open>gdt_init\<close> returns and builds the segments the rest relies on: the selector the gates use
  names a present ring-0 code segment in long mode, the next one ring-0 data, then user code
  and user data in ring 3.
\<close>

theorem gdt_init_segments:
  "\<exists>gdt. gdt_init = Some gdt \<and> length gdt = FRAZZOS_TOTAL_SEGMENTS * sizeof_gdt_entry \<and>
     segment gdt KERNEL_CS = Some (True, 0, True, True) \<and>
     segment gdt 0x10 = Some (True, 0, False, False) \<and>
     segment gdt 0x18 = Some (True, 3, True, True) \<and> segment gdt 0x20 = Some (True, 3, False, False)"
proof -
  have "case gdt_init of None \<Rightarrow> False | Some gdt \<Rightarrow>
      length gdt = FRAZZOS_TOTAL_SEGMENTS * sizeof_gdt_entry \<and>
      segment gdt KERNEL_CS = Some (True, 0, True, True) \<and>
      segment gdt 0x10 = Some (True, 0, False, False) \<and>
      segment gdt 0x18 = Some (True, 3, True, True) \<and> segment gdt 0x20 = Some (True, 3, False, False)"
    by code_simp
  then show ?thesis by (auto split: option.splits)
qed

lemma tss_field_words:
  "(drop_bit 16 (ucast ((p :: u64) AND 0xFF0000)) :: u8) = 0"
  "(drop_bit 24 (ucast ((p :: u64) AND 0xFF000000)) :: u8) = 0"
  by (rule bit_word_eqI, simp add: bit_drop_bit_eq bit_ucast_iff)+

lemma tss_base_bits: "tss_base (tss_fields p) = p AND NOT 0xFFFF0000"
proof -
  have "(0xFFFF0000 :: u64) = push_bit 16 (mask 16)" by (simp add: mask_eq_exp_minus_1 push_bit_eq_mult)
  then have m: "bit (0xFFFF0000 :: u64) n \<longleftrightarrow> 16 \<le> n \<and> n < 32" for n
    by (simp only: bit_push_bit_iff bit_mask_iff) auto
  have "tss_base (tss_fields p) = ucast (ucast p :: u16) OR push_bit 32 (ucast (ucast (drop_bit 32 p) :: u32))"
    by (simp only: tss_base_def tss_fields_def tss_descriptor.simps gate_fields tss_field_words) simp
  also have "\<dots> = p AND NOT 0xFFFF0000"
  proof (rule bit_word_eqI)
    fix n :: nat
    assume "n < LENGTH(64)"
    then show "bit (ucast (ucast p :: u16) OR push_bit 32 (ucast (ucast (drop_bit 32 p) :: u32)) :: u64) n =
        bit (p AND NOT 0xFFFF0000) n"
      unfolding bit_and_iff bit_not_iff m
      by (cases "n < 16"; cases "n < 32")
         (auto simp: bit_or_iff bit_push_bit_iff bit_drop_bit_eq bit_ucast_iff)
  qed
  finally show ?thesis .
qed

lemma put_bytes_out:
  assumes "length buf \<le> at" "bs \<noteq> []" shows "put_bytes at bs buf = None"
  using assms by (cases bs) (simp_all add: put_bytes_def for_range_step buf_set_def)

text \<open>
  \<open>init_tss\<close> does not describe the TSS: the descriptor it fills has bits 16 to 31 of the
  base cleared, and it is written 640 bytes into a table of 56, so the descriptor that the
  task register is loaded from keeps its base of 0.
\<close>

theorem init_tss_wrong:
  "tss_base (tss_fields p) = p AND NOT 0xFFFF0000 \<and>
   (length gdt = FRAZZOS_TOTAL_SEGMENTS * sizeof_gdt_entry \<longrightarrow> init_tss p gdt = None)"
proof (intro conjI impI)
  assume "length gdt = FRAZZOS_TOTAL_SEGMENTS * sizeof_gdt_entry"
  then show "init_tss p gdt = None"
    unfolding init_tss_def
    by (intro put_bytes_out) (simp_all add: FRAZZOS_TOTAL_SEGMENTS_def sizeof_gdt_entry_def
        TSS_OFFSET_def sizeof_tss_descriptor_def tss_bytes_def)
qed (rule tss_base_bits)

theorem init_tss_wrong_witness:
  "tss_base (tss_fields 0xffff800012345678) = 0xffff800000005678 \<and>
   init_tss 0xffff800012345678 (replicate 56 0) = None"
  using init_tss_wrong [of "0xffff800012345678" "replicate 56 0"]
  by (simp add: FRAZZOS_TOTAL_SEGMENTS_def sizeof_gdt_entry_def)

end
