(* ===== verification/Ioapic.thy ===== *)
theory Ioapic
  imports Prelude
begin

text \<open>
  devices/ioapic.c: the redirection table of the I/O APIC, reached through a select and a
  window register.  The chip is the array of its registers: a register reads back what was
  last written to it.
\<close>

section \<open>State and register access\<close>

record ioso_apic =
  ioso_irq :: u8
  ioso_gsi :: u32

record ioapic =
  io_reg_sel :: u32
  io_regs :: "u32 \<Rightarrow> u32"
  lvt_timer_reg :: u32
  max_redirection_entry :: u8
  irq_map :: "nat list"
  gsi_base :: u32
  ioapic_base :: u64

definition NUM_OF_IRQ :: nat where "NUM_OF_IRQ = 16"
definition IOAPICVER :: u32 where "IOAPICVER = 0x01"
definition IDT_EXCEPTIONS :: nat where "IDT_EXCEPTIONS = 32"

definition calc_redtbl_offset :: "u8 \<Rightarrow> u8" where
  "calc_redtbl_offset entry_num = 0x10 + (entry_num * 2)"

definition read_ioapic_reg :: "u32 \<Rightarrow> ioapic \<Rightarrow> u32 \<times> ioapic" where
  "read_ioapic_reg reg st = (let st = st\<lparr>io_reg_sel := reg\<rparr> in (io_regs st (io_reg_sel st), st))"

definition write_ioapic_reg :: "u32 \<Rightarrow> u32 \<Rightarrow> ioapic \<Rightarrow> ioapic" where
  "write_ioapic_reg reg data st =
     (let st = st\<lparr>io_reg_sel := reg\<rparr> in st\<lparr>io_regs := (io_regs st)(io_reg_sel st := data)\<rparr>)"

text \<open>The upper half is shifted left by 31 as a 32-bit value before it is widened.\<close>

definition read_redtbl_entry :: "u8 \<Rightarrow> ioapic \<Rightarrow> u64 \<times> ioapic" where
  "read_redtbl_entry e st =
     (let offset = calc_redtbl_offset e;
          (lo, st) = read_ioapic_reg (ucast offset) st;
          (hi, st) = read_ioapic_reg (ucast offset + 1) st
      in (ucast lo OR ucast (push_bit 31 hi), st))"

definition mask_gsi :: "u8 \<Rightarrow> ioapic \<Rightarrow> s32 \<times> ioapic" where
  "mask_gsi idx st =
     (let (data, st) = read_redtbl_entry idx st in
      if max_redirection_entry st < idx then (EINVAL, st)
      else (0, write_ioapic_reg (ucast (calc_redtbl_offset idx)) (ucast (data OR push_bit 16 1)) st))"

definition unmask_gsi :: "u8 \<Rightarrow> ioapic \<Rightarrow> s32 \<times> ioapic" where
  "unmask_gsi idx st =
     (let (data, st) = read_redtbl_entry idx st in
      if max_redirection_entry st < idx then (EINVAL, st)
      else (0, write_ioapic_reg (ucast (calc_redtbl_offset idx))
                 (ucast (data AND NOT (push_bit 16 1))) st))"

text \<open>Bit fields of \<open>union redirection_entry_t\<close>: vector 0-7, mask 16, destination 56-63.\<close>

definition set_field :: "nat \<Rightarrow> nat \<Rightarrow> u64 \<Rightarrow> u64 \<Rightarrow> u64" where
  "set_field pos width v raw =
     (raw AND NOT (push_bit pos (mask width))) OR push_bit pos (v AND mask width)"

definition map_redtbl_entry :: "u8 \<Rightarrow> u8 \<Rightarrow> ioapic \<Rightarrow> ioapic" where
  "map_redtbl_entry e vector st =
     (let (raw, st) = read_redtbl_entry e st;
          raw = set_field 0 8 (ucast vector + of_nat IDT_EXCEPTIONS) raw;
          raw = set_field 16 1 1 raw;
          raw = set_field 56 8 0 raw;
          offset = calc_redtbl_offset e;
          st = write_ioapic_reg (ucast offset) (ucast raw) st
      in write_ioapic_reg (ucast offset + 1) (ucast (drop_bit 32 raw)) st)"

section \<open>Interrupt lines\<close>

text \<open>The loop over the source overrides returns at the first one for the line.\<close>

definition override_of :: "u8 \<Rightarrow> ioso_apic list \<Rightarrow> u32 option" where
  "override_of irq tbl = map_option ioso_gsi (find (\<lambda>x. ioso_irq x = irq) tbl)"

text \<open>Line 0 does both: the local timer entry and redirection entry 0.\<close>

definition mask_irq :: "ioso_apic list \<Rightarrow> u8 \<Rightarrow> ioapic \<Rightarrow> ioapic" where
  "mask_irq ioso_apic_tbl irq st =
     (if irq = 0 then
        snd (mask_gsi irq (st\<lparr>lvt_timer_reg := lvt_timer_reg st OR push_bit 16 1\<rparr>))
      else case override_of irq ioso_apic_tbl of
          Some gsi \<Rightarrow> snd (mask_gsi (ucast gsi) st)
        | None \<Rightarrow> snd (mask_gsi irq st))"

definition unmask_irq :: "ioso_apic list \<Rightarrow> u8 \<Rightarrow> ioapic \<Rightarrow> ioapic" where
  "unmask_irq ioso_apic_tbl irq st =
     (if irq = 0 then
        snd (unmask_gsi irq (st\<lparr>lvt_timer_reg := lvt_timer_reg st AND NOT (push_bit 16 1)\<rparr>))
      else case override_of irq ioso_apic_tbl of
          Some gsi \<Rightarrow> snd (unmask_gsi (ucast gsi) st)
        | None \<Rightarrow> snd (unmask_gsi irq st))"

definition mask_all_irq :: "ioso_apic list \<Rightarrow> ioapic \<Rightarrow> ioapic" where
  "mask_all_irq tbl st =
     fold (\<lambda>i. mask_irq tbl (of_nat i)) [IDT_EXCEPTIONS..<IDT_EXCEPTIONS + NUM_OF_IRQ] st"

definition unmask_all_irq :: "ioso_apic list \<Rightarrow> ioapic \<Rightarrow> ioapic" where
  "unmask_all_irq tbl st =
     fold (\<lambda>i. unmask_irq tbl (of_nat i)) [IDT_EXCEPTIONS..<IDT_EXCEPTIONS + NUM_OF_IRQ] st"

section \<open>Initialisation\<close>

text \<open>The base address and the first interrupt of the chip come from the firmware's table.\<close>

definition map_override :: "ioso_apic \<Rightarrow> ioapic \<Rightarrow> ioapic" where
  "map_override x st =
     (let st = map_redtbl_entry (ucast (ioso_gsi x)) (ioso_irq x) st
      in if ioso_gsi x < 16 then st\<lparr>irq_map := (irq_map st)[unat (ioso_gsi x) := 1]\<rparr> else st)"

definition ioapic_init :: "u64 \<Rightarrow> u32 \<Rightarrow> ioso_apic list \<Rightarrow> ioapic \<Rightarrow> ioapic" where
  "ioapic_init io_apic_addr gsib ioso_apic_tbl st =
     (let st = st\<lparr>ioapic_base := io_apic_addr, gsi_base := gsib\<rparr>;
          (ver, st) = read_ioapic_reg IOAPICVER st;
          st = st\<lparr>max_redirection_entry := ucast (drop_bit 16 ver AND 0xff AND NOT (push_bit 7 1))\<rparr>;
          st = fold (\<lambda>i st. snd (mask_gsi (of_nat i) st))
                 [0..<unat (max_redirection_entry st) + 1] st;
          st = fold map_override ioso_apic_tbl st
      in fold (\<lambda>i st. if irq_map st ! i = 0 then map_redtbl_entry (of_nat i) (of_nat i) st else st)
           [0..<NUM_OF_IRQ] st)"

section \<open>What an entry says\<close>

definition lo_reg :: "nat \<Rightarrow> u32" where "lo_reg e = of_nat (16 + 2 * e)"
definition hi_reg :: "nat \<Rightarrow> u32" where "hi_reg e = of_nat (17 + 2 * e)"

definition entry_vector :: "ioapic \<Rightarrow> nat \<Rightarrow> u8" where
  "entry_vector st e = ucast (io_regs st (lo_reg e))"

definition entry_masked :: "ioapic \<Rightarrow> nat \<Rightarrow> bool" where
  "entry_masked st e \<longleftrightarrow> bit (io_regs st (lo_reg e)) 16"

lemma offset_regs:
  assumes "unat e < 120"
  shows "ucast (calc_redtbl_offset e) = lo_reg (unat e)" "ucast (calc_redtbl_offset e) + 1 = hi_reg (unat e)"
proof -
  have "unat (calc_redtbl_offset e) = 16 + 2 * unat e"
    using assms by (simp add: calc_redtbl_offset_def unat_word_ariths)
  then have "(ucast (calc_redtbl_offset e) :: u32) = of_nat (16 + 2 * unat e)"
    by (metis of_nat_unat)
  then show "ucast (calc_redtbl_offset e) = lo_reg (unat e)"
    "ucast (calc_redtbl_offset e) + 1 = hi_reg (unat e)"
    by (simp_all add: lo_reg_def hi_reg_def)
qed

lemma reg_neq [simp]:
  assumes "e < 120" "f < 120"
  shows "lo_reg e = lo_reg f \<longleftrightarrow> e = f" "hi_reg e = hi_reg f \<longleftrightarrow> e = f" "lo_reg e \<noteq> hi_reg f" "hi_reg e \<noteq> lo_reg f"
proof -
  have u: "unat (lo_reg e) = 16 + 2 * e" "unat (lo_reg f) = 16 + 2 * f" "unat (hi_reg e) = 17 + 2 * e"
    "unat (hi_reg f) = 17 + 2 * f"
    unfolding lo_reg_def hi_reg_def by (rule unat_of_nat32; use assms in simp)+
  show "lo_reg e = lo_reg f \<longleftrightarrow> e = f" "hi_reg e = hi_reg f \<longleftrightarrow> e = f"
    using arg_cong [of "lo_reg e" "lo_reg f" unat] arg_cong [of "hi_reg e" "hi_reg f" unat]
    unfolding u by auto
  have "16 + 2 * i \<noteq> 17 + 2 * j" for i j :: nat by presburger
  then show "lo_reg e \<noteq> hi_reg f" "hi_reg e \<noteq> lo_reg f"
    using arg_cong [of "lo_reg e" "hi_reg f" unat] arg_cong [of "hi_reg e" "lo_reg f" unat]
    unfolding u by (blast, metis)
qed

lemma lo_reg_Suc [simp]: "lo_reg e + 1 = hi_reg e"
  by (simp add: lo_reg_def hi_reg_def)

lemma bit_mask16 [simp]: "bit (65536 :: u64) b \<longleftrightarrow> b = 16" "bit (65536 :: u32) b \<longleftrightarrow> b = 16"
proof -
  have "(65536 :: u64) = push_bit 16 1" "(65536 :: u32) = push_bit 16 1" by simp_all
  then show "bit (65536 :: u64) b \<longleftrightarrow> b = 16" "bit (65536 :: u32) b \<longleftrightarrow> b = 16"
    by (simp_all only: bit_push_bit_iff bit_1_iff) auto
qed

lemma bit_set_field:
  "bit (set_field pos width v raw) b \<longleftrightarrow>
     b < 64 \<and> (if pos \<le> b \<and> b < pos + width then bit v (b - pos) else bit raw b)"
  by (auto simp: set_field_def bit_or_iff bit_and_iff bit_not_iff bit_push_bit_iff bit_mask_iff
      dest: bit_imp_le_length)

text \<open>The value \<open>read_redtbl_entry\<close> returns.\<close>

definition raw_entry :: "ioapic \<Rightarrow> nat \<Rightarrow> u64" where
  "raw_entry st e = ucast (io_regs st (lo_reg e)) OR ucast (push_bit 31 (io_regs st (hi_reg e)))"

lemma bit_raw_entry:
  "bit (raw_entry st e) b \<longleftrightarrow> b < 32 \<and> (bit (io_regs st (lo_reg e)) b \<or> b = 31 \<and> bit (io_regs st (hi_reg e)) 0)"
  by (auto simp: raw_entry_def bit_or_iff bit_ucast_iff bit_push_bit_iff dest: bit_imp_le_length)

lemma read_entry:
  assumes "unat e < 120"
  shows "fst (read_redtbl_entry e st) = raw_entry st (unat e)"
    "io_regs (snd (read_redtbl_entry e st)) = io_regs st"
    "irq_map (snd (read_redtbl_entry e st)) = irq_map st"
    "max_redirection_entry (snd (read_redtbl_entry e st)) = max_redirection_entry st"
    "lvt_timer_reg (snd (read_redtbl_entry e st)) = lvt_timer_reg st"
  by (simp_all add: read_redtbl_entry_def read_ioapic_reg_def Let_def offset_regs [OF assms] raw_entry_def)

lemma mask_gsi_regs:
  assumes "unat e < 120" "e \<le> max_redirection_entry st"
  shows "fst (mask_gsi e st) = 0"
    "io_regs (snd (mask_gsi e st)) =
      (io_regs st)(lo_reg (unat e) := ucast (raw_entry st (unat e) OR push_bit 16 1))"
    "irq_map (snd (mask_gsi e st)) = irq_map st"
    "max_redirection_entry (snd (mask_gsi e st)) = max_redirection_entry st"
    "lvt_timer_reg (snd (mask_gsi e st)) = lvt_timer_reg st"
  using leD [OF assms(2)] read_entry [OF assms(1), of st]
  by (simp_all add: mask_gsi_def write_ioapic_reg_def Let_def split_def offset_regs [OF assms(1)])

lemma mask_gsi_EINVAL:
  assumes "max_redirection_entry st < e"
  shows "fst (mask_gsi e st) = EINVAL" "io_regs (snd (mask_gsi e st)) = io_regs st"
    "irq_map (snd (mask_gsi e st)) = irq_map st"
    "max_redirection_entry (snd (mask_gsi e st)) = max_redirection_entry st"
    "lvt_timer_reg (snd (mask_gsi e st)) = lvt_timer_reg st"
  using assms
  by (simp_all add: mask_gsi_def Let_def split_def read_redtbl_entry_def read_ioapic_reg_def)

lemma ucast_entry_bits:
  "bit (ucast (raw_entry st e OR push_bit 16 1) :: u32) b \<longleftrightarrow>
     b = 16 \<or> bit (io_regs st (lo_reg e)) b \<or> b = 31 \<and> bit (io_regs st (hi_reg e)) 0"
  unfolding bit_ucast_iff bit_or_iff bit_push_bit_iff bit_1_iff bit_raw_entry
  by (auto dest: bit_imp_le_length)

definition mapped :: "ioapic \<Rightarrow> nat \<Rightarrow> u8 \<Rightarrow> bool" where
  "mapped st e v \<longleftrightarrow> entry_vector st e = v \<and> entry_masked st e \<and> io_regs st (hi_reg e) = 0"

definition same_entry :: "nat \<Rightarrow> ioapic \<Rightarrow> ioapic \<Rightarrow> bool" where
  "same_entry f st st' \<longleftrightarrow> io_regs st' (lo_reg f) = io_regs st (lo_reg f) \<and>
     io_regs st' (hi_reg f) = io_regs st (hi_reg f)"

lemma map_entry:
  assumes "unat e < 120"
  shows "mapped (map_redtbl_entry e v st) (unat e) (v + 32)"
    "f < 120 \<Longrightarrow> f \<noteq> unat e \<Longrightarrow> same_entry f st (map_redtbl_entry e v st)"
    "irq_map (map_redtbl_entry e v st) = irq_map st"
    "max_redirection_entry (map_redtbl_entry e v st) = max_redirection_entry st"
proof -
  let ?r = "set_field 56 8 0 (set_field 16 1 1 (set_field 0 8 (ucast v + of_nat IDT_EXCEPTIONS) (raw_entry st (unat e))))"
  have regs: "io_regs (map_redtbl_entry e v st) =
      (io_regs st)(lo_reg (unat e) := ucast ?r, hi_reg (unat e) := ucast (drop_bit 32 ?r))"
    "irq_map (map_redtbl_entry e v st) = irq_map st"
    "max_redirection_entry (map_redtbl_entry e v st) = max_redirection_entry st"
    using read_entry [OF assms, of st]
    by (simp_all add: map_redtbl_entry_def write_ioapic_reg_def Let_def split_def offset_regs [OF assms])
  show "irq_map (map_redtbl_entry e v st) = irq_map st"
    "max_redirection_entry (map_redtbl_entry e v st) = max_redirection_entry st"
    by (fact regs)+
  show "f < 120 \<Longrightarrow> f \<noteq> unat e \<Longrightarrow> same_entry f st (map_redtbl_entry e v st)"
    using assms by (simp add: same_entry_def regs)
  have "(ucast (drop_bit 32 ?r) :: u32) = 0"
    by (rule bit_word_eqI) (auto simp: bit_ucast_iff bit_drop_bit_eq bit_set_field bit_raw_entry)
  moreover have "bit (ucast ?r :: u32) 16"
    by (simp add: bit_ucast_iff bit_set_field)
  moreover have "(ucast (ucast ?r :: u32) :: u8) = v + 32"
  proof -
    have "(ucast (ucast ?r :: u32) :: u8) = ucast (ucast v + of_nat IDT_EXCEPTIONS :: u64)"
      by (rule bit_word_eqI) (auto simp: bit_ucast_iff bit_set_field)
    also have "\<dots> = v + 32"
      by (simp add: word_unat_eq_iff unat_word_ariths IDT_EXCEPTIONS_def unsigned_ucast_eq take_bit_eq_mod
          mod_mod_cancel mod_add_left_eq)
    finally show ?thesis .
  qed
  ultimately show "mapped (map_redtbl_entry e v st) (unat e) (v + 32)"
    using assms by (simp add: mapped_def entry_vector_def entry_masked_def regs)
qed

section \<open>The loops of ioapic_init\<close>

lemma mask_loop:
  assumes "m < 120" "m \<le> unat (max_redirection_entry st)"
  defines "st' \<equiv> fold (\<lambda>i st. snd (mask_gsi (of_nat i) st)) [0..<m + 1] st"
  shows "(\<forall>e\<le>m. entry_masked st' e) \<and> irq_map st' = irq_map st \<and>
    max_redirection_entry st' = max_redirection_entry st"
proof -
  have "(\<forall>e<n. entry_masked s e) \<and> irq_map s = irq_map st \<and> max_redirection_entry s = max_redirection_entry st"
    if "n \<le> m + 1" "s = fold (\<lambda>i st. snd (mask_gsi (of_nat i) st)) [0..<n] st" for n s
    using that
  proof (induction n arbitrary: s)
    case (Suc n)
    define t where "t = fold (\<lambda>i st. snd (mask_gsi (of_nat i) st)) [0..<n] st"
    have t: "\<forall>e<n. entry_masked t e" "irq_map t = irq_map st"
      "max_redirection_entry t = max_redirection_entry st"
      using Suc.IH [of t] Suc.prems(1) t_def by auto
    have n: "unat (of_nat n :: u8) = n"
      using Suc.prems(1) assms(1) by (simp add: unat_of_nat take_bit_eq_mod)
    then have le: "of_nat n \<le> max_redirection_entry t" "n < 120"
      using Suc.prems(1) assms t(3) by (simp_all add: word_le_nat_alt)
    note mask = mask_gsi_regs [where e = "of_nat n" and st = t, unfolded n, OF le(2,1)]
    have s: "s = snd (mask_gsi (of_nat n) t)" using Suc.prems(2) by (simp add: t_def)
    have "entry_masked s e" if "e < Suc n" for e
    proof (cases "e = n")
      case True
      then show ?thesis
        unfolding entry_masked_def s mask by (simp only: fun_upd_same ucast_entry_bits) simp
    next
      case False
      then show ?thesis using that le(2) t(1) by (simp add: entry_masked_def s mask)
    qed
    then show ?case using t mask by (simp add: s)
  qed simp
  from this [of "m + 1" st'] show ?thesis by (simp add: st'_def less_Suc_eq_le)
qed

definition gsi_nat :: "ioso_apic \<Rightarrow> nat" where "gsi_nat x = unat (ioso_gsi x)"

lemma map_override_effect:
  assumes "gsi_nat x < 120" "length (irq_map st) = 16"
  shows "mapped (map_override x st) (gsi_nat x) (ioso_irq x + 32)"
    "f < 120 \<Longrightarrow> f \<noteq> gsi_nat x \<Longrightarrow> same_entry f st (map_override x st)"
    "length (irq_map (map_override x st)) = 16"
    "k < 16 \<Longrightarrow> irq_map (map_override x st) ! k = (if k = gsi_nat x then 1 else irq_map st ! k)"
    "max_redirection_entry (map_override x st) = max_redirection_entry st"
proof -
  have u: "unat (ucast (ioso_gsi x) :: u8) = gsi_nat x"
    using assms(1) by (simp add: gsi_nat_def unsigned_ucast_eq take_bit_eq_mod)
  note m = map_entry [where e = "ucast (ioso_gsi x)" and st = st, unfolded u, OF assms(1)]
  have lt: "ioso_gsi x < 16 \<longleftrightarrow> gsi_nat x < 16" by (simp add: gsi_nat_def word_less_nat_alt)
  have regs: "io_regs (map_override x st) = io_regs (map_redtbl_entry (ucast (ioso_gsi x)) (ioso_irq x) st)"
    by (simp add: map_override_def Let_def)
  show "mapped (map_override x st) (gsi_nat x) (ioso_irq x + 32)"
    using m(1) by (simp add: mapped_def entry_vector_def entry_masked_def regs)
  show "f < 120 \<Longrightarrow> f \<noteq> gsi_nat x \<Longrightarrow> same_entry f st (map_override x st)"
    using m(2) by (simp add: same_entry_def regs)
  show "length (irq_map (map_override x st)) = 16" "max_redirection_entry (map_override x st) = max_redirection_entry st"
    using m(3,4) assms(2) by (simp_all add: map_override_def Let_def)
  show "k < 16 \<Longrightarrow> irq_map (map_override x st) ! k = (if k = gsi_nat x then 1 else irq_map st ! k)"
    using m(3) lt assms(2) by (simp add: map_override_def Let_def gsi_nat_def [symmetric] nth_list_update)
qed

lemma mapped_same: "same_entry e st st' \<Longrightarrow> mapped st' e v = mapped st e v"
  by (simp add: same_entry_def mapped_def entry_vector_def entry_masked_def)

lemma masked_same: "same_entry e st st' \<Longrightarrow> entry_masked st' e = entry_masked st e"
  by (simp add: same_entry_def entry_masked_def)

lemma override_loop:
  assumes "\<forall>x \<in> set tbl. gsi_nat x < 120" "distinct (map gsi_nat tbl)" "length (irq_map st) = 16"
  defines "st' \<equiv> fold map_override tbl st"
  shows "(\<forall>x \<in> set tbl. mapped st' (gsi_nat x) (ioso_irq x + 32)) \<and>
     (\<forall>f<120. f \<notin> gsi_nat ` set tbl \<longrightarrow> same_entry f st st') \<and> length (irq_map st') = 16 \<and>
     (\<forall>k<16. irq_map st' ! k = (if k \<in> gsi_nat ` set tbl then 1 else irq_map st ! k)) \<and>
     max_redirection_entry st' = max_redirection_entry st"
  unfolding st'_def using assms(1-3)
proof (induction tbl rule: rev_induct)
  case (snoc x xs)
  let ?s = "fold map_override xs st"
  have IH: "\<forall>y \<in> set xs. mapped ?s (gsi_nat y) (ioso_irq y + 32)"
    "\<forall>f<120. f \<notin> gsi_nat ` set xs \<longrightarrow> same_entry f st ?s" "length (irq_map ?s) = 16"
    "\<forall>k<16. irq_map ?s ! k = (if k \<in> gsi_nat ` set xs then 1 else irq_map st ! k)"
    "max_redirection_entry ?s = max_redirection_entry st"
    using snoc by auto
  have x: "gsi_nat x < 120" using snoc.prems(1) by simp
  note e = map_override_effect [OF x IH(3)]
  have "mapped (map_override x ?s) (gsi_nat y) (ioso_irq y + 32)" if "y \<in> set xs" for y
  proof -
    have "gsi_nat x \<notin> gsi_nat ` set xs" "gsi_nat y < 120" using snoc.prems that by auto
    then have "gsi_nat y \<noteq> gsi_nat x" using that by (metis image_eqI)
    with \<open>gsi_nat y < 120\<close> show ?thesis using mapped_same [OF e(2)] IH(1) that by blast
  qed
  moreover have "same_entry f st (map_override x ?s)" if "f < 120" "f \<notin> gsi_nat ` set (xs @ [x])" for f
    using e(2) [of f] IH(2) that by (auto simp: same_entry_def)
  ultimately show ?case using e IH by auto
qed (simp add: same_entry_def)

lemma rest_loop:
  assumes "length (irq_map st) = 16"
  defines "step \<equiv> \<lambda>i st. if irq_map st ! i = 0 then map_redtbl_entry (of_nat i) (of_nat i) st else st"
  shows "n \<le> 16 \<Longrightarrow> (\<forall>k<n. irq_map st ! k = 0 \<longrightarrow> mapped (fold step [0..<n] st) k (of_nat k + 32)) \<and>
     (\<forall>f<120. n \<le> f \<or> irq_map st ! f \<noteq> 0 \<longrightarrow> same_entry f st (fold step [0..<n] st)) \<and>
     irq_map (fold step [0..<n] st) = irq_map st \<and>
     max_redirection_entry (fold step [0..<n] st) = max_redirection_entry st"
proof (induction n)
  case 0
  then show ?case by (simp add: same_entry_def)
next
  case (Suc n)
  let ?s = "fold step [0..<n] st"
  have n: "unat (of_nat n :: u8) = n" using Suc.prems by (simp add: unat_of_nat take_bit_eq_mod)
  then have n120: "unat (of_nat n :: u8) < 120" using Suc.prems by simp
  note m = map_entry [OF n120, where v = "of_nat n" and st = ?s, unfolded n]
  have IH: "\<forall>k<n. irq_map st ! k = 0 \<longrightarrow> mapped ?s k (of_nat k + 32)"
    "\<forall>f<120. n \<le> f \<or> irq_map st ! f \<noteq> 0 \<longrightarrow> same_entry f st ?s" "irq_map ?s = irq_map st"
    "max_redirection_entry ?s = max_redirection_entry st"
    using Suc by auto
  show ?case
  proof (cases "irq_map st ! n = 0")
    case True
    then have s: "fold step [0..<Suc n] st = map_redtbl_entry (of_nat n) (of_nat n) ?s"
      using IH(3) by (simp add: step_def)
    have "mapped (map_redtbl_entry (of_nat n) (of_nat n) ?s) k (of_nat k + 32)"
      if "k < n" "irq_map st ! k = 0" for k
    proof -
      have "same_entry k ?s (map_redtbl_entry (of_nat n) (of_nat n) ?s)"
        using m(2) [of k] that(1) Suc.prems by simp
      from mapped_same [OF this] show ?thesis using that IH(1) by blast
    qed
    moreover have "same_entry f st (map_redtbl_entry (of_nat n) (of_nat n) ?s)"
      if "f < 120" "Suc n \<le> f \<or> irq_map st ! f \<noteq> 0" for f
    proof -
      have "f \<noteq> n" using that True by auto
      moreover have "same_entry f st ?s" using IH(2) that by (auto simp: Suc_le_eq less_imp_le)
      ultimately show ?thesis using m(2) [of f] that(1) by (simp add: same_entry_def)
    qed
    ultimately show ?thesis using m(1,3,4) IH(3,4) unfolding s by (auto simp: less_Suc_eq)
  next
    case False
    then have "fold step [0..<Suc n] st = ?s" using IH(3) by (simp add: step_def)
    then show ?thesis using IH False by (auto simp: less_Suc_eq)
  qed
qed

section \<open>Properties\<close>

definition ioapic_ex :: ioapic where
  "ioapic_ex = \<lparr>io_reg_sel = 0, io_regs = (\<lambda>r. if r = 1 then 0x00170011 else 0x10000),
     lvt_timer_reg = 0, max_redirection_entry = 0, irq_map = replicate 16 0, gsi_base = 0,
     ioapic_base = 0\<rparr>"

definition ioso_ex :: "ioso_apic list" where
  "ioso_ex = [\<lparr>ioso_irq = 0, ioso_gsi = 2\<rparr>, \<lparr>ioso_irq = 9, ioso_gsi = 9\<rparr>]"

definition version_max :: "ioapic \<Rightarrow> nat" where
  "version_max st = unat (io_regs st IOAPICVER) div 2 ^ 16 mod 128"

lemma version_max_eq:
  "unat (ucast (drop_bit 16 (v :: u32) AND 0xff AND NOT (push_bit 7 1)) :: u8) = unat v div 2 ^ 16 mod 128"
proof -
  have m: "bit (0xff :: u32) b \<longleftrightarrow> b < 8" for b
  proof -
    have "(0xff :: u32) = mask 8" by (simp add: mask_eq_exp_minus_1)
    then show ?thesis by (simp only: bit_mask_iff) auto
  qed
  have "(ucast (drop_bit 16 v AND 0xff AND NOT (push_bit 7 1)) :: u8) = ucast (take_bit 7 (drop_bit 16 v))"
    by (rule bit_word_eqI, unfold bit_ucast_iff bit_and_iff bit_not_iff bit_push_bit_iff bit_1_iff
        bit_take_bit_iff m) auto
  moreover have "unat (drop_bit 16 v) = unat v div 2 ^ 16"
    by (simp only: drop_bit_eq_div unat_div_distrib) simp
  then have "unat (take_bit 7 (drop_bit 16 v)) = unat v div 2 ^ 16 mod 128"
    by (simp add: take_bit_eq_mod unat_mod_distrib)
  ultimately show ?thesis by (simp add: unsigned_ucast_eq take_bit_eq_mod)
qed

text \<open>
  C35 \<open>ioapic_init\<close> programs every interrupt line: afterwards all entries of the chip are masked;
  an entry named by a source override carries vector 32 plus the overridden line, every
  other of the first 16 vector 32 plus its own number, and all are directed to processor 0.
\<close>

theorem ioapic_init_maps:
  assumes "15 \<le> version_max st" and "version_max st < 120" and "irq_map st = replicate 16 0"
    and "\<forall>x \<in> set tbl. gsi_nat x \<le> version_max st" and "distinct (map gsi_nat tbl)"
  shows "(\<forall>e \<le> version_max st. entry_masked (ioapic_init a g tbl st) e) \<and>
     (\<forall>x \<in> set tbl. mapped (ioapic_init a g tbl st) (gsi_nat x) (ioso_irq x + 32)) \<and>
     (\<forall>e<16. e \<notin> gsi_nat ` set tbl \<longrightarrow> mapped (ioapic_init a g tbl st) e (of_nat e + 32))"
proof -
  define m where "m = version_max st"
  define s0 where "s0 = st\<lparr>ioapic_base := a, gsi_base := g, io_reg_sel := IOAPICVER,
    max_redirection_entry := ucast (drop_bit 16 (io_regs st IOAPICVER) AND 0xff AND NOT (push_bit 7 1))\<rparr>"
  define s1 where "s1 = fold (\<lambda>i st. snd (mask_gsi (of_nat i) st)) [0..<m + 1] s0"
  define s2 where "s2 = fold map_override tbl s1"
  define s3 where "s3 = fold (\<lambda>i st. if irq_map st ! i = 0 then map_redtbl_entry (of_nat i) (of_nat i) st else st)
      [0..<16] s2"
  have sel: "max_redirection_entry (r\<lparr>max_redirection_entry := x\<rparr>) = x" for r :: ioapic and x by simp
  have m: "unat (max_redirection_entry s0) = m" "m < 120" "15 \<le> m"
    using assms(1,2) unfolding s0_def m_def version_max_def sel version_max_eq by blast+
  have "read_ioapic_reg IOAPICVER (st\<lparr>ioapic_base := a, gsi_base := g\<rparr>) =
      (io_regs st IOAPICVER, st\<lparr>ioapic_base := a, gsi_base := g, io_reg_sel := IOAPICVER\<rparr>)"
    by (simp add: read_ioapic_reg_def Let_def)
  then have init: "ioapic_init a g tbl st = s3"
    unfolding ioapic_init_def s3_def s2_def s1_def m(1) [symmetric] s0_def NUM_OF_IRQ_def
    by (simp only: Let_def prod.case)
  have map0: "irq_map s0 = replicate 16 0" by (simp add: s0_def assms(3))
  have 1: "\<forall>e\<le>m. entry_masked s1 e" "irq_map s1 = replicate 16 0"
    using mask_loop [of m s0] m map0 by (simp_all add: s1_def)
  have g: "\<forall>x \<in> set tbl. gsi_nat x < 120" using assms(2,4) by fastforce
  have 2: "\<forall>x \<in> set tbl. mapped s2 (gsi_nat x) (ioso_irq x + 32)"
    "\<forall>f<120. f \<notin> gsi_nat ` set tbl \<longrightarrow> same_entry f s1 s2" "length (irq_map s2) = 16"
    "\<forall>k<16. irq_map s2 ! k = (if k \<in> gsi_nat ` set tbl then 1 else 0)"
    using override_loop [OF g assms(5), of s1] 1(2) by (simp_all add: s2_def)
  have 3: "\<forall>k<16. irq_map s2 ! k = 0 \<longrightarrow> mapped s3 k (of_nat k + 32)"
    "\<forall>f<120. 16 \<le> f \<or> irq_map s2 ! f \<noteq> 0 \<longrightarrow> same_entry f s2 s3"
    using rest_loop [OF 2(3), of 16] by (simp_all add: s3_def)
  have over: "mapped s3 (gsi_nat x) (ioso_irq x + 32)" if "x \<in> set tbl" for x
  proof -
    have "16 \<le> gsi_nat x \<or> irq_map s2 ! gsi_nat x \<noteq> 0" using 2(4) that by (cases "gsi_nat x < 16") auto
    then have "same_entry (gsi_nat x) s2 s3" using 3(2) g that by blast
    from mapped_same [OF this] show ?thesis using 2(1) that by blast
  qed
  have low: "mapped s3 e (of_nat e + 32)" if "e < 16" "e \<notin> gsi_nat ` set tbl" for e
    using 3(1) 2(4) that by simp
  have "entry_masked s3 e" if "e \<le> m" for e
  proof -
    consider "e \<in> gsi_nat ` set tbl" | "e < 16" "e \<notin> gsi_nat ` set tbl" | "16 \<le> e" "e \<notin> gsi_nat ` set tbl"
      by (meson not_le)
    then show ?thesis
    proof cases
      case 3
      then have "same_entry e s1 s3" using 2(2) \<open>\<forall>f<120. 16 \<le> f \<or> _ f \<longrightarrow> _ f\<close> that m(2)
        by (simp add: same_entry_def)
      from masked_same [OF this] show ?thesis using 1(1) that by blast
    qed (use over low in \<open>auto simp: mapped_def\<close>)
  qed
  with over low show ?thesis unfolding init m_def by blast
qed

theorem ioapic_init_maps_witness:
  "mapped (ioapic_init 0xfec00000 0 ioso_ex ioapic_ex) 1 33 \<and>
   mapped (ioapic_init 0xfec00000 0 ioso_ex ioapic_ex) 2 32"
proof -
  have v: "version_max ioapic_ex = 23" by (simp add: version_max_def ioapic_ex_def IOAPICVER_def)
  have "irq_map ioapic_ex = replicate 16 0" by (simp add: ioapic_ex_def)
  then have "(\<forall>x \<in> set ioso_ex. mapped (ioapic_init 0xfec00000 0 ioso_ex ioapic_ex) (gsi_nat x) (ioso_irq x + 32)) \<and>
     (\<forall>e<16. e \<notin> gsi_nat ` set ioso_ex \<longrightarrow> mapped (ioapic_init 0xfec00000 0 ioso_ex ioapic_ex) e (of_nat e + 32))"
    using ioapic_init_maps [of ioapic_ex ioso_ex "0xfec00000" 0] v
    by (simp add: ioso_ex_def gsi_nat_def)
  then show ?thesis by (auto simp: ioso_ex_def gsi_nat_def dest: spec [of _ 1])
qed

text \<open>
  \<open>mask_gsi\<close> sets the mask bit and changes no other bit of its entry or of any other, as
  long as bit 0 of the entry's upper half is clear; past the last entry it reports
  \<open>EINVAL\<close> and writes nothing.  (Otherwise bit 31 of the lower half gets set too, because
  the upper half is shifted by 31 instead of 32.)
\<close>

theorem mask_gsi_effect:
  assumes "unat idx < 120"
  shows "(idx \<le> max_redirection_entry st \<longrightarrow> fst (mask_gsi idx st) = 0 \<and>
       io_regs (snd (mask_gsi idx st)) = (io_regs st)(lo_reg (unat idx) :=
          io_regs st (lo_reg (unat idx)) OR push_bit 16 1 OR
          (if bit (io_regs st (hi_reg (unat idx))) 0 then push_bit 31 1 else 0))) \<and>
     (max_redirection_entry st < idx \<longrightarrow> fst (mask_gsi idx st) = EINVAL \<and>
       io_regs (snd (mask_gsi idx st)) = io_regs st)"
proof (intro conjI impI)
  let ?e = "unat idx"
  assume le: "idx \<le> max_redirection_entry st"
  show "fst (mask_gsi idx st) = 0" by (rule mask_gsi_regs(1) [OF assms le])
  have "(ucast (raw_entry st ?e OR push_bit 16 1) :: u32) =
      io_regs st (lo_reg ?e) OR push_bit 16 1 OR (if bit (io_regs st (hi_reg ?e)) 0 then push_bit 31 1 else 0)"
    by (rule bit_word_eqI, unfold ucast_entry_bits bit_or_iff bit_push_bit_iff bit_1_iff)
       (auto simp: bit_push_bit_iff bit_1_iff simp del: push_bit_of_1)
  then show "io_regs (snd (mask_gsi idx st)) = (io_regs st)(lo_reg ?e :=
          io_regs st (lo_reg ?e) OR push_bit 16 1 OR
          (if bit (io_regs st (hi_reg ?e)) 0 then push_bit 31 1 else 0))"
    using mask_gsi_regs(2) [OF assms le] by (simp only:)
qed (use mask_gsi_EINVAL in auto)

theorem mask_gsi_effect_witness:
  "io_regs (snd (mask_gsi 3 (ioapic_ex\<lparr>max_redirection_entry := 23, io_regs := \<lambda>r. 0x21\<rparr>))) (lo_reg 3) = 0x80010021"
  using mask_gsi_effect [of 3 "ioapic_ex\<lparr>max_redirection_entry := 23, io_regs := \<lambda>r. 0x21\<rparr>"]
  by simp

text \<open>
  \<open>mask_all_irq\<close> masks nothing: it asks for lines 32 to 47, which a chip of at most 32
  entries does not have and no source override (of an ISA line) names, so every request is
  turned away with \<open>EINVAL\<close> and no register changes.
\<close>

theorem mask_all_irq_noop:
  assumes "unat (max_redirection_entry st) < 32" and "\<forall>x \<in> set tbl. unat (ioso_irq x) < 16"
  shows "io_regs (mask_all_irq tbl st) = io_regs st \<and> lvt_timer_reg (mask_all_irq tbl st) = lvt_timer_reg st"
proof -
  let ?f = "\<lambda>i. mask_irq tbl (of_nat i)"
  have step: "io_regs (?f i s) = io_regs s \<and> lvt_timer_reg (?f i s) = lvt_timer_reg s \<and>
      max_redirection_entry (?f i s) = max_redirection_entry s"
    if "32 \<le> i" "i < 48" "unat (max_redirection_entry s) < 32" for i s
  proof -
    have u: "unat (of_nat i :: u8) = i" using that by (simp add: unat_of_nat take_bit_eq_mod)
    then have "override_of (of_nat i) tbl = None"
      using assms(2) that by (force simp: override_of_def find_None_iff)
    moreover have "max_redirection_entry s < of_nat i" using u that by (simp add: word_less_nat_alt)
    moreover have "(of_nat i :: u8) \<noteq> 0" using u that by auto
    ultimately show ?thesis using mask_gsi_EINVAL [of s "of_nat i"] by (simp add: mask_irq_def)
  qed
  have "io_regs (fold ?f is s) = io_regs s \<and> lvt_timer_reg (fold ?f is s) = lvt_timer_reg s"
    if "set is \<subseteq> {32..<48}" "unat (max_redirection_entry s) < 32" for "is" s
    using that by (induction "is" arbitrary: s) (auto simp: step)
  from this [of "[32..<48]" st] show ?thesis
    using assms(1) by (simp add: mask_all_irq_def IDT_EXCEPTIONS_def NUM_OF_IRQ_def)
qed

theorem mask_all_irq_noop_witness:
  "io_regs (mask_all_irq ioso_ex (ioapic_ex\<lparr>max_redirection_entry := 23\<rparr>)) = io_regs ioapic_ex"
  using mask_all_irq_noop [of "ioapic_ex\<lparr>max_redirection_entry := 23\<rparr>" ioso_ex]
  by (simp add: ioso_ex_def)

end
