(* ===== verification/Ports.thy ===== *)
theory Ports
  imports Prelude
begin

text \<open>
  Port input and output (devices/cpu.h, devices/cpu.asm) and the legacy interrupt
  controllers (devices/pic.c).  The hardware behind the ports is a parameter: a record of
  what reading and writing a port does to a state of any type.  Theorems about a driver
  assume that this hardware follows a small reference model of the documented chip.
\<close>

section \<open>Ports\<close>

record 'd device =
  port_in :: "u16 \<Rightarrow> 'd \<Rightarrow> u8 \<times> 'd"
  port_inw :: "u16 \<Rightarrow> 'd \<Rightarrow> u16 \<times> 'd"
  port_out :: "u16 \<Rightarrow> u8 \<Rightarrow> 'd \<Rightarrow> 'd"

definition outb :: "'d device \<Rightarrow> u16 \<Rightarrow> u8 \<Rightarrow> 'd \<Rightarrow> 'd" where
  "outb dev port val st = port_out dev port val st"

definition inb :: "'d device \<Rightarrow> u16 \<Rightarrow> 'd \<Rightarrow> u8 \<times> 'd" where
  "inb dev port st = port_in dev port st"

text \<open>\<open>inw\<close> is assembly.  The compiler passes \<open>port\<close> in another register than \<open>dx\<close>, the one the instruction
  takes the port from, and the function does not move it there: \<open>dx\<close> is what that register holds at the call.\<close>

definition inw :: "u16 \<Rightarrow> 'd device \<Rightarrow> u16 \<Rightarrow> 'd \<Rightarrow> u16 \<times> 'd" where
  "inw dx dev port st = port_inw dev dx st"

text \<open>The port and the word that \<open>outw\<close> sends, with the same defect; it has no caller.\<close>

definition outw :: "u16 \<Rightarrow> u16 \<Rightarrow> u16 \<Rightarrow> u16 \<times> u16" where
  "outw dx port val = (dx, val)"

lemma inw_ignores_port: "inw dx dev port st = inw dx dev port' st"
  by (simp add: inw_def)

definition io_wait :: "'d device \<Rightarrow> 'd \<Rightarrow> 'd" where
  "io_wait dev st = outb dev 0x80 0 st"

text \<open>\<open>follows view dev hw\<close>: seen through \<open>view\<close>, the device does what \<open>hw\<close> does.\<close>

definition follows :: "('d \<Rightarrow> 'h) \<Rightarrow> 'd device \<Rightarrow> 'h device \<Rightarrow> bool" where
  "follows view dev hw \<longleftrightarrow>
     (\<forall>p v s. view (port_out dev p v s) = port_out hw p v (view s)) \<and>
     (\<forall>p s. map_prod id view (port_in dev p s) = port_in hw p (view s)) \<and>
     (\<forall>p s. map_prod id view (port_inw dev p s) = port_inw hw p (view s))"

lemma follows_outb: "follows view dev hw \<Longrightarrow> view (outb dev p v s) = outb hw p v (view s)"
  by (simp add: follows_def outb_def)

lemma follows_inb:
  assumes "follows view dev hw"
  shows "fst (inb dev p s) = fst (inb hw p (view s))" "view (snd (inb dev p s)) = snd (inb hw p (view s))"
proof -
  have "map_prod id view (port_in dev p s) = port_in hw p (view s)" using assms by (simp add: follows_def)
  then show "fst (inb dev p s) = fst (inb hw p (view s))" "view (snd (inb dev p s)) = snd (inb hw p (view s))"
    by (cases "port_in dev p s"; cases "port_in hw p (view s)"; simp add: inb_def)+
qed

lemma follows_inw:
  assumes "follows view dev hw"
  shows "fst (inw dx dev p s) = fst (inw dx hw p (view s))" "view (snd (inw dx dev p s)) = snd (inw dx hw p (view s))"
proof -
  have "map_prod id view (port_inw dev dx s) = port_inw hw dx (view s)" using assms by (simp add: follows_def)
  then show "fst (inw dx dev p s) = fst (inw dx hw p (view s))" "view (snd (inw dx dev p s)) = snd (inw dx hw p (view s))"
    by (cases "port_inw dev dx s"; cases "port_inw hw dx (view s)"; simp add: inw_def)+
qed

lemmas follows_ports = follows_outb follows_inb follows_inw

lemma follows_self: "follows id hw hw"
  by (simp add: follows_def map_prod.id)

section \<open>The legacy interrupt controllers (pic.c)\<close>

definition PIC1_COMMAND :: u16 where "PIC1_COMMAND = 0x20"
definition PIC1_DATA :: u16 where "PIC1_DATA = PIC1_COMMAND + 1"
definition PIC2_COMMAND :: u16 where "PIC2_COMMAND = 0xa0"
definition PIC2_DATA :: u16 where "PIC2_DATA = PIC2_COMMAND + 1"
definition PIC_EOI :: u8 where "PIC_EOI = 0x20"
definition ICW1_ICW4 :: u8 where "ICW1_ICW4 = 0x01"
definition ICW1_INIT :: u8 where "ICW1_INIT = 0x10"
definition ICW4_8086 :: u8 where "ICW4_8086 = 0x01"

lemmas pic_consts = PIC1_COMMAND_def PIC1_DATA_def PIC2_COMMAND_def PIC2_DATA_def PIC_EOI_def
  ICW1_ICW4_def ICW1_INIT_def ICW4_8086_def

definition end_of_interrupt :: "'d device \<Rightarrow> u8 \<Rightarrow> 'd \<Rightarrow> 'd" where
  "end_of_interrupt dev irq st =
     (let st = if 8 < irq then outb dev PIC2_COMMAND PIC_EOI st else st
      in outb dev PIC1_COMMAND PIC_EOI st)"

definition remap_pic :: "'d device \<Rightarrow> 'd \<Rightarrow> 'd" where
  "remap_pic dev st =
     (let (a1, st) = inb dev PIC1_DATA st;
          (a2, st) = inb dev PIC2_DATA st;
          st = io_wait dev (outb dev PIC1_COMMAND (ICW1_INIT OR ICW1_ICW4) st);
          st = io_wait dev (outb dev PIC2_COMMAND (ICW1_INIT OR ICW1_ICW4) st);
          st = io_wait dev (outb dev PIC1_DATA 0x20 st);
          st = io_wait dev (outb dev PIC2_DATA 0x28 st);
          st = io_wait dev (outb dev PIC1_DATA 4 st);
          st = io_wait dev (outb dev PIC2_DATA 2 st);
          st = io_wait dev (outb dev PIC1_DATA ICW4_8086 st);
          st = io_wait dev (outb dev PIC2_DATA ICW4_8086 st);
          st = outb dev PIC1_DATA a1 st
      in outb dev PIC2_DATA a2 st)"

definition disable_pic :: "'d device \<Rightarrow> 'd \<Rightarrow> 'd" where
  "disable_pic dev st = outb dev 0x21 0xff (outb dev 0xa1 0xff st)"

section \<open>The chip: an 8259 as its data sheet describes it\<close>

text \<open>\<open>icw\<close> counts the initialisation words seen: after the first (on the command port, with
  bit 4 set), the data port takes the vector base, the cascade wiring and, if announced, the
  mode; otherwise it takes the interrupt mask.  A non-specific end of interrupt clears the
  lowest bit in service.\<close>

record i8259 =
  icw :: nat
  need4 :: bool
  vbase :: u8
  cascade :: u8
  pmode :: u8
  imr :: u8
  in_service :: u8

record pic_pair =
  master :: i8259
  slave :: i8259

definition i8259_command :: "u8 \<Rightarrow> i8259 \<Rightarrow> i8259" where
  "i8259_command v c =
     (if bit v 4 then c\<lparr>icw := 1, need4 := bit v 0, imr := 0, in_service := 0\<rparr>
      else if v = 0x20 then c\<lparr>in_service := in_service c AND (in_service c - 1)\<rparr>
      else c)"

definition i8259_data :: "u8 \<Rightarrow> i8259 \<Rightarrow> i8259" where
  "i8259_data v c =
     (if icw c = 1 then c\<lparr>icw := 2, vbase := v AND 0xf8\<rparr>
      else if icw c = 2 then c\<lparr>icw := (if need4 c then 3 else 0), cascade := v\<rparr>
      else if icw c = 3 then c\<lparr>icw := 0, pmode := v\<rparr>
      else c\<lparr>imr := v\<rparr>)"

definition pic_hw :: "pic_pair device" where
  "pic_hw = \<lparr>
     port_in = (\<lambda>p st. (if p = 0x21 then imr (master st) else if p = 0xa1 then imr (slave st) else 0, st)),
     port_inw = (\<lambda>p st. (0, st)),
     port_out = (\<lambda>p v st.
        if p = 0x20 then st\<lparr>master := i8259_command v (master st)\<rparr>
        else if p = 0x21 then st\<lparr>master := i8259_data v (master st)\<rparr>
        else if p = 0xa0 then st\<lparr>slave := i8259_command v (slave st)\<rparr>
        else if p = 0xa1 then st\<lparr>slave := i8259_data v (slave st)\<rparr>
        else st)\<rparr>"

lemma pic_hw_simps:
  "inb pic_hw 0x21 \<lparr>master = m, slave = s\<rparr> = (imr m, \<lparr>master = m, slave = s\<rparr>)"
  "inb pic_hw 0xa1 \<lparr>master = m, slave = s\<rparr> = (imr s, \<lparr>master = m, slave = s\<rparr>)"
  "outb pic_hw 0x20 v \<lparr>master = m, slave = s\<rparr> = \<lparr>master = i8259_command v m, slave = s\<rparr>"
  "outb pic_hw 0x21 v \<lparr>master = m, slave = s\<rparr> = \<lparr>master = i8259_data v m, slave = s\<rparr>"
  "outb pic_hw 0xa0 v \<lparr>master = m, slave = s\<rparr> = \<lparr>master = m, slave = i8259_command v s\<rparr>"
  "outb pic_hw 0xa1 v \<lparr>master = m, slave = s\<rparr> = \<lparr>master = m, slave = i8259_data v s\<rparr>"
  "io_wait pic_hw st = st"
  by (simp_all add: pic_hw_def inb_def outb_def io_wait_def)

lemma init_sequence:
  "i8259_data im (i8259_data 1 (i8259_data w (i8259_data v (i8259_command 0x11 c)))) =
     \<lparr>icw = 0, need4 = True, vbase = v AND 0xf8, cascade = w, pmode = 1, imr = im, in_service = 0\<rparr>"
  by (cases c) (simp add: i8259_command_def i8259_data_def)

lemma pic_pair_eta: "\<lparr>master = master st, slave = slave st\<rparr> = (st :: pic_pair)"
  by (cases st) simp

text \<open>What the two drivers together do to the pair.\<close>

lemma silenced_hw:
  "disable_pic pic_hw (remap_pic pic_hw \<lparr>master = m, slave = s\<rparr>) =
     \<lparr>master = \<lparr>icw = 0, need4 = True, vbase = 32, cascade = 4, pmode = 1, imr = 0xff, in_service = 0\<rparr>,
      slave = \<lparr>icw = 0, need4 = True, vbase = 40, cascade = 2, pmode = 1, imr = 0xff, in_service = 0\<rparr>\<rparr>"
  by (simp add: remap_pic_def disable_pic_def pic_consts pic_hw_simps init_sequence i8259_data_def [of "0xff"]
      del: One_nat_def)

lemma follows_pic:
  assumes "follows view dev hw"
  shows "view (remap_pic dev st) = remap_pic hw (view st)"
    and "view (disable_pic dev st) = disable_pic hw (view st)"
    and "view (end_of_interrupt dev irq st) = end_of_interrupt hw irq (view st)"
proof -
  note f = follows_ports [OF assms]
  show "view (remap_pic dev st) = remap_pic hw (view st)"
    unfolding remap_pic_def io_wait_def by (simp add: Let_def split_beta f)
  show "view (disable_pic dev st) = disable_pic hw (view st)"
    by (simp add: disable_pic_def f)
  show "view (end_of_interrupt dev irq st) = end_of_interrupt hw irq (view st)"
    by (simp add: end_of_interrupt_def Let_def f)
qed

text \<open>
  Remapping and disabling the legacy controllers works from any state they may be in: both
  end initialised in 8086 mode, cascaded over line 2, with vectors from 32 and 40, nothing in
  service, and every line masked.
\<close>

theorem legacy_pic_silenced:
  assumes "follows view dev pic_hw"
  shows "view (disable_pic dev (remap_pic dev st)) =
     \<lparr>master = \<lparr>icw = 0, need4 = True, vbase = 32, cascade = 4, pmode = 1, imr = 0xff, in_service = 0\<rparr>,
      slave = \<lparr>icw = 0, need4 = True, vbase = 40, cascade = 2, pmode = 1, imr = 0xff, in_service = 0\<rparr>\<rparr>"
  using silenced_hw [of "master (view st)" "slave (view st)"]
  by (simp only: follows_pic [OF assms] pic_pair_eta)

definition pics_ex :: pic_pair where
  "pics_ex = \<lparr>master = \<lparr>icw = 2, need4 = False, vbase = 8, cascade = 0, pmode = 0, imr = 3, in_service = 4\<rparr>,
     slave = \<lparr>icw = 0, need4 = False, vbase = 0x70, cascade = 0, pmode = 0, imr = 5, in_service = 1\<rparr>\<rparr>"

theorem legacy_pic_silenced_witness:
  "imr (slave (id (disable_pic pic_hw (remap_pic pic_hw pics_ex)))) = 0xff"
  unfolding legacy_pic_silenced [OF follows_self] by simp

text \<open>
  The end of an interrupt is acknowledged at both controllers for lines 9 to 15 but only at
  the first for line 8, which the second one serves too.
\<close>

theorem eoi_line_8:
  assumes "follows view dev pic_hw"
  shows "slave (view (end_of_interrupt dev irq st)) =
     (if 8 < irq then i8259_command PIC_EOI (slave (view st)) else slave (view st)) \<and>
   master (view (end_of_interrupt dev irq st)) = i8259_command PIC_EOI (master (view st))"
proof -
  have "end_of_interrupt pic_hw irq \<lparr>master = m, slave = s\<rparr> =
     \<lparr>master = i8259_command PIC_EOI m, slave = if 8 < irq then i8259_command PIC_EOI s else s\<rparr>" for m s
    by (simp add: end_of_interrupt_def pic_consts pic_hw_simps)
  from this [of "master (view st)" "slave (view st)"] show ?thesis
    by (simp add: follows_pic(3) [OF assms] pic_pair_eta)
qed

theorem eoi_line_8_witness:
  "in_service (slave (id (end_of_interrupt pic_hw 8 pics_ex))) = 1"
  using eoi_line_8 [OF follows_self, of 8 pics_ex] by (simp add: pics_ex_def)

end
