(* ===== verification/Disk.thy ===== *)
theory Disk
  imports Ports
begin

text \<open>
  The disk driver (disk/disk.c): reading sectors of a drive through the ports, by polling.
  The buffer is a checked array of 16-bit words.  \<open>None\<close> stands for a poll that never ends
  and for a write past the buffer.  \<open>dx\<close> says what the register \<open>dx\<close> holds when word number \<open>k\<close> is read, see \<open>inw\<close>:
  it depends on the compiled code, which nothing in the source makes put the port there.
\<close>

section \<open>The driver\<close>

record disk =
  dtype :: u32
  sector_size :: s32

definition FRAZZOS_DISK_TYPE_REAL :: u32 where "FRAZZOS_DISK_TYPE_REAL = 0"
definition FRAZZOS_SECTOR_SIZE :: s32 where "FRAZZOS_SECTOR_SIZE = 512"

partial_function (option) wait_drq :: "'d device \<Rightarrow> 'd \<Rightarrow> 'd option" where
  "wait_drq dev st =
     (let (c, st) = inb dev 0x1f7 st
      in if c AND 0x08 = 0 then wait_drq dev st else Some st)"

declare wait_drq.simps [code]

definition read_words :: "(nat \<Rightarrow> u16) \<Rightarrow> 'd device \<Rightarrow> nat \<times> u16 list \<times> 'd \<Rightarrow> (nat \<times> u16 list \<times> 'd) option" where
  "read_words dx dev =
     for_range (\<lambda>i (ptr, buf, st).
        let (w, st) = inw (dx ptr) dev 0x1f0 st
        in map_option (\<lambda>buf. (Suc ptr, buf, st)) (buf_set buf (int ptr) w)) 0 256"

definition disk_read_sector ::
  "(nat \<Rightarrow> u16) \<Rightarrow> 'd device \<Rightarrow> s32 \<Rightarrow> s32 \<Rightarrow> u16 list \<Rightarrow> 'd \<Rightarrow> (s32 \<times> u16 list \<times> 'd) option" where
  "disk_read_sector dx dev lba ntotal buf st =
     (let st = outb dev 0x1f6 (ucast (signed_drop_bit 24 lba OR 0xe0)) st;
          st = outb dev 0x1f2 (ucast ntotal) st;
          st = outb dev 0x1f3 (ucast (lba AND 0xff)) st;
          st = outb dev 0x1f4 (ucast (signed_drop_bit 8 lba)) st;
          st = outb dev 0x1f5 (ucast (signed_drop_bit 16 lba)) st;
          st = outb dev 0x1f7 0x20 st
      in map_option (\<lambda>(ptr, buf, st). (0, buf, st))
           (for_range (\<lambda>i (ptr, buf, st).
               Option.bind (wait_drq dev st) (\<lambda>st. read_words dx dev (ptr, buf, st)))
              0 (nat (sint ntotal)) (0, buf, st)))"

text \<open>The one disk is named by the address \<open>disk_addr\<close>.\<close>

definition disk_get :: "u64 \<Rightarrow> s32 \<Rightarrow> u64" where
  "disk_get disk_addr index = (if index \<noteq> 0 then 0 else disk_addr)"

definition disk_search_and_init :: "disk \<Rightarrow> disk" where
  "disk_search_and_init d =
     (let d = \<lparr>dtype = 0, sector_size = 0\<rparr>;
          d = d\<lparr>dtype := FRAZZOS_DISK_TYPE_REAL\<rparr>
      in d\<lparr>sector_size := FRAZZOS_SECTOR_SIZE\<rparr>)"

definition disk_read_block ::
  "(nat \<Rightarrow> u16) \<Rightarrow> 'd device \<Rightarrow> u64 \<Rightarrow> u64 \<Rightarrow> u32 \<Rightarrow> s32 \<Rightarrow> u16 list \<Rightarrow> 'd \<Rightarrow> (s32 \<times> u16 list \<times> 'd) option" where
  "disk_read_block dx dev disk_addr idisk lba ntotal buf st =
     (if idisk \<noteq> disk_addr then Some (EINVARG, buf, st)
      else disk_read_sector dx dev lba ntotal buf st)"

section \<open>The drive, as the ATA specification describes it\<close>

text \<open>
  \<open>sectors\<close> is the medium; \<open>pending\<close> the sectors still to be transferred, the first one
  possibly in part; \<open>busy\<close> how often the status still reads busy before the next one is
  ready, for which \<open>delay\<close> gives any number.  \<open>other_word p\<close> is what reading a word from a port \<open>p\<close> other than the data
  port gives, any word; it transfers nothing.
\<close>

record ata =
  sectors :: "nat \<Rightarrow> u16 list"
  sel :: u8
  cnt :: u8
  lba0 :: u8
  lba1 :: u8
  lba2 :: u8
  delay :: "nat \<Rightarrow> nat"
  busy :: nat
  pending :: "u16 list list"
  other_word :: "u16 \<Rightarrow> u16"

definition ata_lba :: "ata \<Rightarrow> nat" where
  "ata_lba d = unat (lba0 d) + 2 ^ 8 * unat (lba1 d) + 2 ^ 16 * unat (lba2 d) + 2 ^ 24 * (unat (sel d) mod 16)"

definition ata_count :: "ata \<Rightarrow> nat" where
  "ata_count d = (if cnt d = 0 then 256 else unat (cnt d))"

definition ata_start :: "ata \<Rightarrow> ata" where
  "ata_start d = d\<lparr>pending := map (sectors d) [ata_lba d..<ata_lba d + ata_count d],
                   busy := delay d (ata_count d)\<rparr>"

fun ata_take :: "u16 list list \<Rightarrow> ata \<Rightarrow> u16 \<times> ata" where
  "ata_take ((w # ws) # rest) d =
     (w, if ws = [] then d\<lparr>pending := rest, busy := delay d (length rest)\<rparr> else d\<lparr>pending := ws # rest\<rparr>)"
| "ata_take _ d = (0, d)"

definition ata_status :: "ata \<Rightarrow> u8 \<times> ata" where
  "ata_status d =
     (if pending d = [] then (0x50, d)
      else if busy d = 0 then (0x58, d)
      else (0x80, d\<lparr>busy := busy d - 1\<rparr>))"

definition ata_hw :: "ata device" where
  "ata_hw = \<lparr>
     port_in = (\<lambda>p d. if p = 0x1f7 then ata_status d else (0, d)),
     port_inw = (\<lambda>p d. if p = 0x1f0 then ata_take (pending d) d else (other_word d p, d)),
     port_out = (\<lambda>p v d.
        if p = 0x1f6 then d\<lparr>sel := v\<rparr>
        else if p = 0x1f2 then d\<lparr>cnt := v\<rparr>
        else if p = 0x1f3 then d\<lparr>lba0 := v\<rparr>
        else if p = 0x1f4 then d\<lparr>lba1 := v\<rparr>
        else if p = 0x1f5 then d\<lparr>lba2 := v\<rparr>
        else if p = 0x1f7 \<and> v = 0x20 then ata_start d
        else d)\<rparr>"

lemma ata_hw_simps:
  "inb ata_hw 0x1f7 d = ata_status d" "inw 0x1f0 ata_hw p d = ata_take (pending d) d"
  "q \<noteq> 0x1f0 \<Longrightarrow> inw q ata_hw p d = (other_word d q, d)"
  "outb ata_hw 0x1f6 v d = d\<lparr>sel := v\<rparr>" "outb ata_hw 0x1f2 v d = d\<lparr>cnt := v\<rparr>"
  "outb ata_hw 0x1f3 v d = d\<lparr>lba0 := v\<rparr>" "outb ata_hw 0x1f4 v d = d\<lparr>lba1 := v\<rparr>"
  "outb ata_hw 0x1f5 v d = d\<lparr>lba2 := v\<rparr>" "outb ata_hw 0x1f7 0x20 d = ata_start d"
  by (simp_all add: ata_hw_def inb_def inw_def outb_def)

section \<open>Polling and transfer\<close>

text \<open>The poll ends, because the drive is busy only finitely often.\<close>

lemma wait_drq_returns:
  assumes "follows view dev ata_hw" and "pending (view s) \<noteq> []"
  shows "\<exists>s'. wait_drq dev s = Some s' \<and> view s' = (view s)\<lparr>busy := 0\<rparr>"
  using assms(2)
proof (induction "busy (view s)" arbitrary: s)
  case 0
  have i: "fst (inb dev 0x1f7 s) = 0x58" "view (snd (inb dev 0x1f7 s)) = view s"
    using 0 by (simp_all add: follows_inb [OF assms(1)] ata_hw_simps ata_status_def)
  have "view s = (view s)\<lparr>busy := 0\<rparr>" using 0 by simp
  then show ?case
    using i by (subst wait_drq.simps) (simp add: split_beta)
next
  case (Suc n)
  let ?s = "snd (inb dev 0x1f7 s)"
  have i: "fst (inb dev 0x1f7 s) = 0x80" "view ?s = (view s)\<lparr>busy := n\<rparr>"
    using Suc.hyps(2) Suc.prems
    by (simp_all add: follows_inb [OF assms(1)] ata_hw_simps ata_status_def)
  then have "\<exists>s'. wait_drq dev ?s = Some s' \<and> view s' = (view ?s)\<lparr>busy := 0\<rparr>"
    by (intro Suc.hyps(1)) (simp_all add: Suc.prems)
  then show ?case
    using i by (subst wait_drq.simps) (simp add: split_beta)
qed

text \<open>One word of the current sector, and the whole of it.\<close>

lemma inw_word:
  assumes "follows view dev ata_hw" and "pending (view s) = drop k ws # rest" and "k < length ws"
  shows "fst (inw 0x1f0 dev p s) = ws ! k"
    and "view (snd (inw 0x1f0 dev p s)) =
      (if Suc k = length ws then (view s)\<lparr>pending := rest, busy := delay (view s) (length rest)\<rparr>
       else (view s)\<lparr>pending := drop (Suc k) ws # rest\<rparr>)"
proof -
  have "drop k ws = ws ! k # drop (Suc k) ws" using assms(3) by (simp add: Cons_nth_drop_Suc)
  then have "ata_take (pending (view s)) (view s) =
      (ws ! k, if drop (Suc k) ws = [] then (view s)\<lparr>pending := rest, busy := delay (view s) (length rest)\<rparr>
               else (view s)\<lparr>pending := drop (Suc k) ws # rest\<rparr>)"
    using assms(2) by simp
  moreover have "drop (Suc k) ws = [] \<longleftrightarrow> Suc k = length ws" using assms(3) by auto
  ultimately show "fst (inw 0x1f0 dev p s) = ws ! k"
    "view (snd (inw 0x1f0 dev p s)) =
      (if Suc k = length ws then (view s)\<lparr>pending := rest, busy := delay (view s) (length rest)\<rparr>
       else (view s)\<lparr>pending := drop (Suc k) ws # rest\<rparr>)"
    by (simp_all only: follows_inw [OF assms(1)] ata_hw_simps fst_conv snd_conv)
qed

lemma splice_set:
  assumes "k < length ws" and "ptr + k < length buf"
  shows "(take ptr buf @ take k ws @ drop (ptr + k) buf)[ptr + k := ws ! k] =
     take ptr buf @ take (Suc k) ws @ drop (Suc (ptr + k)) buf"
proof -
  have "drop (ptr + k) buf = buf ! (ptr + k) # drop (Suc (ptr + k)) buf"
    using assms(2) by (simp add: Cons_nth_drop_Suc)
  then show ?thesis using assms by (simp add: list_update_append take_Suc_conv_app_nth)
qed

lemma read_words_sector:
  assumes f: "follows view dev ata_hw" and dx: "\<And>k. k < 256 \<Longrightarrow> dx (ptr + k) = 0x1f0" and p: "pending (view s) = ws # rest" and len: "length ws = 256"
    and room: "ptr + 256 \<le> length buf"
  shows "\<exists>s'. read_words dx dev (ptr, buf, s) = Some (ptr + 256, take ptr buf @ ws @ drop (ptr + 256) buf, s') \<and>
     view s' = (view s)\<lparr>pending := rest, busy := delay (view s) (length rest)\<rparr>"
proof -
  define inv where "inv = (\<lambda>k (q, b, t). q = ptr + k \<and> b = take ptr buf @ take k ws @ drop (ptr + k) buf \<and>
      view t = (if k = 256 then (view s)\<lparr>pending := rest, busy := delay (view s) (length rest)\<rparr>
                else (view s)\<lparr>pending := drop k ws # rest\<rparr>))"
  have "\<exists>r. read_words dx dev (ptr, buf, s) = Some r \<and> inv 256 r"
    unfolding read_words_def
  proof (rule for_range_total)
    have "view s = (view s)\<lparr>pending := ws # rest\<rparr>" using p by simp
    then show "inv 0 (ptr, buf, s)" by (simp add: inv_def)
  next
    fix k t assume "0 \<le> k" "k < 256" and i: "inv k t"
    obtain b t' where t: "t = (ptr + k, b, t')" "b = take ptr buf @ take k ws @ drop (ptr + k) buf"
      "view t' = (view s)\<lparr>pending := drop k ws # rest\<rparr>"
      using i \<open>k < 256\<close> by (cases t) (auto simp: inv_def)
    have w: "fst (inw 0x1f0 dev 0x1f0 t') = ws ! k"
      "view (snd (inw 0x1f0 dev 0x1f0 t')) = (if Suc k = 256 then (view s)\<lparr>pending := rest, busy := delay (view s) (length rest)\<rparr>
        else (view s)\<lparr>pending := drop (Suc k) ws # rest\<rparr>)"
      using inw_word [OF f, of t' k ws rest] t(3) len \<open>k < 256\<close> by (simp_all split: if_splits)
    have "buf_set b (int (ptr + k)) (ws ! k) = Some (take ptr buf @ take (Suc k) ws @ drop (Suc (ptr + k)) buf)"
      using room len \<open>k < 256\<close> splice_set [of k ws ptr buf] unfolding t(2) by (subst buf_set_in) auto
    then show "\<exists>t''. (case t of (ptr, buf, st) \<Rightarrow> let (w, st) = inw (dx ptr) dev 0x1f0 st
        in map_option (\<lambda>buf. (Suc ptr, buf, st)) (buf_set buf (int ptr) w)) = Some t'' \<and> inv (Suc k) t''"
      using w dx [OF \<open>k < 256\<close>] unfolding t(1) by (simp add: split_beta inv_def)
  qed simp
  then show ?thesis using len by (auto simp: inv_def)
qed

text \<open>The loop over the sectors.\<close>

lemma sectors_loop:
  assumes f: "follows view dev ata_hw" and dx: "\<forall>k < 256 * n. dx k = 0x1f0" and p: "pending (view s) = map (sectors (view s)) [a..<a + n]"
    and len: "\<forall>k. length (sectors (view s) k) = 256" and room: "256 * n \<le> length buf"
  shows "\<exists>s'. for_range (\<lambda>i (ptr, buf, st). Option.bind (wait_drq dev st) (\<lambda>st. read_words dx dev (ptr, buf, st)))
        0 n (0, buf, s) =
      Some (256 * n, concat (map (sectors (view s)) [a..<a + n]) @ drop (256 * n) buf, s')"
proof -
  define sec where "sec = sectors (view s)"
  have lc: "length (concat (map sec [a..<a + k])) = 256 * k" for k
    using len by (induction k) (simp_all add: sec_def)
  define inv where "inv = (\<lambda>k (q, b, t). q = 256 * k \<and> b = concat (map sec [a..<a + k]) @ drop (256 * k) buf \<and>
      pending (view t) = map sec [a + k..<a + n])"
  have "\<exists>r. for_range (\<lambda>i (ptr, buf, st). Option.bind (wait_drq dev st) (\<lambda>st. read_words dx dev (ptr, buf, st)))
      0 n (0, buf, s) = Some r \<and> inv n r"
  proof (rule for_range_total)
    show "inv 0 (0, buf, s)" using p by (simp add: inv_def sec_def)
  next
    fix k t assume "0 \<le> k" "k < n" and i: "inv k t"
    obtain b t' where t: "t = (256 * k, b, t')" "b = concat (map sec [a..<a + k]) @ drop (256 * k) buf"
      "pending (view t') = map sec [a + k..<a + n]"
      using i by (cases t) (auto simp: inv_def)
    have "pending (view t') = sec (a + k) # map sec [a + Suc k..<a + n]"
      using t(3) \<open>k < n\<close> by (simp add: upt_conv_Cons)
    moreover obtain u where u: "wait_drq dev t' = Some u" "view u = (view t')\<lparr>busy := 0\<rparr>"
      using wait_drq_returns [OF f, of t'] calculation by auto
    ultimately have pu: "pending (view u) = sec (a + k) # map sec [a + Suc k..<a + n]" by simp
    have "256 * k + 256 \<le> length b" using room lc [of k] \<open>k < n\<close> by (simp add: t(2))
    then obtain v where v: "read_words dx dev (256 * k, b, u) =
        Some (256 * k + 256, take (256 * k) b @ sec (a + k) @ drop (256 * k + 256) b, v)"
      "pending (view v) = map sec [a + Suc k..<a + n]"
      using read_words_sector [OF f _ pu _ \<open>256 * k + 256 \<le> length b\<close>, of dx] dx len \<open>k < n\<close> by (auto simp: sec_def)
    have "take (256 * k) b @ sec (a + k) @ drop (256 * k + 256) b =
        concat (map sec [a..<a + Suc k]) @ drop (256 * Suc k) buf"
      using lc [of k] by (simp add: t(2) algebra_simps)
    then show "\<exists>t''. (case t of (ptr, buf, st) \<Rightarrow>
        Option.bind (wait_drq dev st) (\<lambda>st. read_words dx dev (ptr, buf, st))) = Some t'' \<and> inv (Suc k) t''"
      using u(1) v unfolding t(1) by (simp add: inv_def)
  qed simp
  then show ?thesis by (auto simp: inv_def sec_def)
qed

section \<open>The transfer from another port\<close>

text \<open>Words read from any other port than the data port are the words of that port, and the drive still holds the
  sectors.\<close>

lemma read_words_elsewhere:
  assumes f: "follows view dev ata_hw" and dx: "\<And>k. k < 256 \<Longrightarrow> dx (ptr + k) \<noteq> 0x1f0" and room: "ptr + 256 \<le> length buf"
  shows "\<exists>s'. read_words dx dev (ptr, buf, s) = Some (ptr + 256,
      take ptr buf @ map (\<lambda>k. other_word (view s) (dx k)) [ptr..<ptr + 256] @ drop (ptr + 256) buf, s') \<and> view s' = view s"
proof -
  let ?w = "\<lambda>k. other_word (view s) (dx k)"
  let ?ws = "map ?w [ptr..<ptr + 256]"
  define inv where "inv = (\<lambda>k (q, b, t). q = ptr + k \<and> b = take ptr buf @ take k ?ws @ drop (ptr + k) buf \<and> view t = view s)"
  have "\<exists>r. read_words dx dev (ptr, buf, s) = Some r \<and> inv 256 r"
    unfolding read_words_def
  proof (rule for_range_total)
    show "inv 0 (ptr, buf, s)" by (simp add: inv_def)
  next
    fix k t assume "0 \<le> k" "k < 256" and i: "inv k t"
    obtain b t' where t: "t = (ptr + k, b, t')" "b = take ptr buf @ take k ?ws @ drop (ptr + k) buf" "view t' = view s"
      using i by (cases t) (auto simp: inv_def)
    have w: "fst (inw (dx (ptr + k)) dev 0x1f0 t') = ?ws ! k" "view (snd (inw (dx (ptr + k)) dev 0x1f0 t')) = view s"
      using dx [OF \<open>k < 256\<close>] \<open>k < 256\<close> t(3) by (simp_all add: follows_inw [OF f] ata_hw_simps)
    have "buf_set b (int (ptr + k)) (?ws ! k) = Some (take ptr buf @ take (Suc k) ?ws @ drop (Suc (ptr + k)) buf)"
      using room \<open>k < 256\<close> splice_set [of k ?ws ptr buf] unfolding t(2) by (subst buf_set_in) auto
    then show "\<exists>t''. (case t of (ptr, buf, st) \<Rightarrow> let (w, st) = inw (dx ptr) dev 0x1f0 st
        in map_option (\<lambda>buf. (Suc ptr, buf, st)) (buf_set buf (int ptr) w)) = Some t'' \<and> inv (Suc k) t''"
      using w unfolding t(1) by (simp add: split_beta inv_def)
  qed simp
  then show ?thesis by (auto simp: inv_def)
qed

lemma sectors_elsewhere:
  assumes f: "follows view dev ata_hw" and dx: "\<forall>k < 256 * n. dx k \<noteq> 0x1f0" and p: "n = 0 \<or> pending (view s) \<noteq> []"
    and room: "256 * n \<le> length buf"
  shows "\<exists>s'. for_range (\<lambda>i (ptr, buf, st). Option.bind (wait_drq dev st) (\<lambda>st. read_words dx dev (ptr, buf, st)))
        0 n (0, buf, s) =
      Some (256 * n, map (\<lambda>k. other_word (view s) (dx k)) [0..<256 * n] @ drop (256 * n) buf, s') \<and> pending (view s') = pending (view s)"
proof -
  let ?w = "\<lambda>k. other_word (view s) (dx k)"
  define inv where "inv = (\<lambda>k (q, b, t). q = 256 * k \<and> b = map ?w [0..<256 * k] @ drop (256 * k) buf \<and>
      pending (view t) = pending (view s) \<and> other_word (view t) = other_word (view s))"
  have "\<exists>r. for_range (\<lambda>i (ptr, buf, st). Option.bind (wait_drq dev st) (\<lambda>st. read_words dx dev (ptr, buf, st)))
      0 n (0, buf, s) = Some r \<and> inv n r"
  proof (rule for_range_total)
    show "inv 0 (0, buf, s)" by (simp add: inv_def)
  next
    fix k t assume "0 \<le> k" "k < n" and i: "inv k t"
    obtain b t' where t: "t = (256 * k, b, t')" "b = map ?w [0..<256 * k] @ drop (256 * k) buf"
      "pending (view t') = pending (view s)" "other_word (view t') = other_word (view s)"
      using i by (cases t) (auto simp: inv_def)
    have ne: "pending (view t') \<noteq> []" using p t(3) \<open>k < n\<close> by auto
    obtain u where u: "wait_drq dev t' = Some u" "view u = (view t')\<lparr>busy := 0\<rparr>"
      using wait_drq_returns [OF f ne] by auto
    have l: "256 * k + 256 \<le> length b" using room \<open>k < n\<close> by (simp add: t(2))
    obtain v where v: "read_words dx dev (256 * k, b, u) = Some (256 * k + 256,
        take (256 * k) b @ map (\<lambda>k. other_word (view u) (dx k)) [256 * k..<256 * k + 256] @ drop (256 * k + 256) b, v)" "view v = view u"
      using read_words_elsewhere [OF f _ l, of dx u] dx \<open>k < n\<close> by auto
    have "[0..<256 * Suc k] = [0..<256 * k] @ [256 * k..<256 * k + 256]"
      using upt_add_eq_append [of 0 "256 * k" 256] by (simp add: add.commute)
    then have "take (256 * k) b @ map (\<lambda>k. other_word (view u) (dx k)) [256 * k..<256 * k + 256] @ drop (256 * k + 256) b =
        map ?w [0..<256 * Suc k] @ drop (256 * Suc k) buf"
      using u(2) t(4) by (simp add: t(2) add.commute)
    then show "\<exists>t''. (case t of (ptr, buf, st) \<Rightarrow>
        Option.bind (wait_drq dev st) (\<lambda>st. read_words dx dev (ptr, buf, st))) = Some t'' \<and> inv (Suc k) t''"
      using u t(3,4) v unfolding t(1) by (simp add: inv_def)
  qed simp
  then show ?thesis by (auto simp: inv_def)
qed

section \<open>The block number in the registers\<close>

lemma low_byte: "unat (ucast (w :: 32 word) :: u8) = unat w mod 256"
  by (simp add: unsigned_ucast_eq take_bit_eq_mod)

lemma shift_byte:
  assumes "n < 2 ^ 31"
  shows "unat (ucast (signed_drop_bit k (of_nat n :: s32)) :: u8) = n div 2 ^ k mod 256"
proof -
  have "sint (signed_drop_bit k (of_nat n :: s32)) = int n div 2 ^ k"
    using assms by (simp add: sint_signed_drop_bit_eq sint_of_nat32 drop_bit_eq_div)
  then have "of_int (sint (signed_drop_bit k (of_nat n :: s32))) = (of_int (int (n div 2 ^ k)) :: s32)"
    by (simp only: zdiv_int of_nat_power of_nat_numeral)
  then have "signed_drop_bit k (of_nat n :: s32) = of_nat (n div 2 ^ k)" by simp
  moreover have "n div 2 ^ k < 2 ^ 32"
    using le_less_trans [OF div_le_dividend, of n "2 ^ 32" "2 ^ k"] assms by simp
  ultimately show ?thesis by (simp add: low_byte unat_of_nat32)
qed

lemma select_bits:
  assumes "n < 2 ^ 28"
  shows "unat (ucast (signed_drop_bit 24 (of_nat n :: s32) OR 0xe0) :: u8) mod 16 = n div 2 ^ 24"
proof -
  have "unat (ucast (w OR 0xe0 :: s32) :: u8) mod 16 = unat (ucast w :: u8) mod 16" for w :: s32
  proof -
    have "take_bit 4 (ucast (w OR 0xe0 :: s32) :: u8) = take_bit 4 (ucast w)"
      by (rule bit_word_eqI) (auto simp: bit_simps bit_numeral_rec numeral_eq_Suc elim!: less_SucE)
    then have "unat (take_bit 4 (ucast (w OR 0xe0 :: s32) :: u8)) = unat (take_bit 4 (ucast w :: u8))" by simp
    then show ?thesis by (simp add: take_bit_eq_mod unat_mod_distrib)
  qed
  then have "unat (ucast (signed_drop_bit 24 (of_nat n :: s32) OR 0xe0) :: u8) mod 16 = n div 2 ^ 24 mod 256 mod 16"
    using shift_byte [of n 24] assms by simp
  also have "n div 2 ^ 24 < 16" using assms by simp
  then have "n div 2 ^ 24 mod 256 mod 16 = n div 2 ^ 24" by simp
  finally show ?thesis .
qed

text \<open>The four registers together hold the block number.\<close>

lemma bytes_of_lba: "n mod 256 + 2 ^ 8 * (n div 2 ^ 8 mod 256) + 2 ^ 16 * (n div 2 ^ 16 mod 256) + 2 ^ 24 * (n div 2 ^ 24) = n"
  for n :: nat
proof -
  have n: "n mod 256 + 256 * (n div 256) = n" by simp
  have a: "n div 256 mod 256 + 256 * (n div 256 div 256) = n div 256"
    and b: "n div 256 div 256 mod 256 + 256 * (n div 256 div 256 div 256) = n div 256 div 256"
    by (simp_all only: mod_mult_div_eq)
  have d: "n div 2 ^ 8 = n div 256" "n div 2 ^ 16 = n div 256 div 256" "n div 2 ^ 24 = n div 256 div 256 div 256"
    by (simp_all add: div_mult2_eq [symmetric])
  have p: "(2 :: nat) ^ 8 = 256" "(2 :: nat) ^ 16 = 65536" "(2 :: nat) ^ 24 = 16777216" by simp_all
  have "m0 + 256 * m1 + 65536 * m2 + 16777216 * q3 = n"
    if "m0 + 256 * q1 = n" "m1 + 256 * q2 = q1" "m2 + 256 * q3 = q2" for m0 m1 m2 q1 q2 q3 :: nat
    using that by simp
  from this [OF n a b] show ?thesis unfolding d unfolding p .
qed

definition ata_command :: "nat \<Rightarrow> nat \<Rightarrow> ata \<Rightarrow> ata" where
  "ata_command n k d =
     ata_start (d\<lparr>sel := ucast (signed_drop_bit 24 (of_nat n :: s32) OR 0xe0), cnt := ucast (of_nat k :: s32),
       lba0 := ucast (of_nat n AND 0xff :: s32), lba1 := ucast (signed_drop_bit 8 (of_nat n :: s32)),
       lba2 := ucast (signed_drop_bit 16 (of_nat n :: s32))\<rparr>)"

lemma command_pending:
  assumes "n < 2 ^ 28" and "1 \<le> k" and "k \<le> 256"
  shows "pending (ata_command n k d) = map (sectors d) [n..<n + k]" "sectors (ata_command n k d) = sectors d" "other_word (ata_command n k d) = other_word d"
proof -
  let ?d = "d\<lparr>sel := ucast (signed_drop_bit 24 (of_nat n :: s32) OR 0xe0), cnt := ucast (of_nat k :: s32),
       lba0 := ucast (of_nat n AND 0xff :: s32), lba1 := ucast (signed_drop_bit 8 (of_nat n :: s32)),
       lba2 := ucast (signed_drop_bit 16 (of_nat n :: s32))\<rparr>"
  have "(of_nat n AND 0xff :: s32) = take_bit 8 (of_nat n)"
    by (simp add: take_bit_eq_mask mask_eq_exp_minus_1)
  then have "unat (ucast (of_nat n AND 0xff :: s32) :: u8) = n mod 256"
    using assms(1) by (simp add: low_byte take_bit_eq_mod unat_mod_distrib unat_of_nat32)
  moreover have "n < 2 ^ 31" using assms(1) by simp
  ultimately have lba: "ata_lba ?d = n"
    using assms(1) bytes_of_lba [of n] by (simp add: ata_lba_def shift_byte select_bits)
  have c: "unat (ucast (of_nat k :: s32) :: u8) = k mod 256"
    using assms(3) by (simp add: low_byte unat_of_nat32)
  have "ata_count ?d = k"
  proof (cases "k = 256")
    case True
    then have "unat (ucast (of_nat k :: s32) :: u8) = 0" using c by simp
    then show ?thesis using True by (simp add: ata_count_def unat_eq_0)
  next
    case False
    then have "unat (ucast (of_nat k :: s32) :: u8) = k" using c assms(3) by simp
    moreover then have "(ucast (of_nat k :: s32) :: u8) \<noteq> 0" using assms(2) by auto
    ultimately show ?thesis by (simp add: ata_count_def)
  qed
  with lba show "pending (ata_command n k d) = map (sectors d) [n..<n + k]" "sectors (ata_command n k d) = sectors d" "other_word (ata_command n k d) = other_word d"
    by (simp_all add: ata_command_def ata_start_def)
qed

text \<open>
  C28 What \<open>disk_read_block\<close> asks the drive for, and what it stores, whatever \<open>dx\<close> holds at the calls of \<open>inw\<close>, which does not load
  it: for 1 to 256 sectors, a block number below \<open>2^28\<close> and a buffer that is large enough, it commands the drive to read exactly the
  sectors from \<open>lba\<close> on.  If \<open>dx\<close> is the data port at every word, it returns 0 with the words of the sectors in order at the start of
  the buffer, however long the drive stays busy.  If it never is (\<open>inb(0x1f7)\<close> before has left the status port in it), it returns 0
  as well, but the buffer holds words of other ports and the drive still has all the sectors.  The rest of the buffer is
  unchanged.
\<close>

theorem disk_read_block_reads:
  assumes "follows view dev ata_hw" and "\<forall>k. length (sectors (view st) k) = 256"
    and "lba < 2 ^ 28" and "1 \<le> n" and "n \<le> 256" and "256 * n \<le> length buf"
  shows "((\<forall>k < 256 * n. dx k = 0x1f0) \<longrightarrow>
      (\<exists>st'. disk_read_block dx dev d d (of_nat lba) (of_nat n) buf st =
        Some (0, concat (map (sectors (view st)) [lba..<lba + n]) @ drop (256 * n) buf, st'))) \<and>
    ((\<forall>k < 256 * n. dx k \<noteq> 0x1f0) \<longrightarrow>
      (\<exists>st'. disk_read_block dx dev d d (of_nat lba) (of_nat n) buf st =
        Some (0, map (\<lambda>k. other_word (view st) (dx k)) [0..<256 * n] @ drop (256 * n) buf, st') \<and>
        pending (view st') = map (sectors (view st)) [lba..<lba + n]))"
proof -
  define s where "s = outb dev 0x1f7 0x20 (outb dev 0x1f5 (ucast (signed_drop_bit 16 (of_nat lba :: s32)))
     (outb dev 0x1f4 (ucast (signed_drop_bit 8 (of_nat lba :: s32)))
     (outb dev 0x1f3 (ucast (of_nat lba AND 0xff :: s32)) (outb dev 0x1f2 (ucast (of_nat n :: s32))
     (outb dev 0x1f6 (ucast (signed_drop_bit 24 (of_nat lba :: s32) OR 0xe0)) st)))))"
  let ?loop = "for_range (\<lambda>i (ptr, buf, st). Option.bind (wait_drq dev st) (\<lambda>st. read_words dx dev (ptr, buf, st))) 0 n (0, buf, s)"
  have v: "view s = ata_command lba n (view st)"
    by (simp add: s_def follows_outb [OF assms(1)] ata_hw_simps ata_command_def)
  have c: "pending (view s) = map (sectors (view s)) [lba..<lba + n]"
    "sectors (view s) = sectors (view st)" "other_word (view s) = other_word (view st)"
    using command_pending [OF assms(3-5)] unfolding v by simp_all
  have n: "nat (sint (of_nat n :: s32)) = n" using assms(5) by (simp add: sint_of_nat32)
  have run: "disk_read_block dx dev d d (of_nat lba) (of_nat n) buf st = map_option (\<lambda>(ptr, buf, st). (0, buf, st)) ?loop"
    unfolding disk_read_block_def disk_read_sector_def Let_def n s_def by (simp only: refl not_True_eq_False if_False)
  show ?thesis
  proof (intro conjI impI)
    assume "\<forall>k < 256 * n. dx k = 0x1f0"
    then obtain s' where "?loop = Some (256 * n, concat (map (sectors (view s)) [lba..<lba + n]) @ drop (256 * n) buf, s')"
      using sectors_loop [OF assms(1) _ c(1), of dx buf] c(2) assms(2,6) by auto
    then show "\<exists>st'. disk_read_block dx dev d d (of_nat lba) (of_nat n) buf st =
        Some (0, concat (map (sectors (view st)) [lba..<lba + n]) @ drop (256 * n) buf, st')"
      unfolding run c(2) by simp
  next
    assume "\<forall>k < 256 * n. dx k \<noteq> 0x1f0"
    moreover have "n = 0 \<or> pending (view s) \<noteq> []" using c(1) assms(4) by simp
    ultimately obtain s' where "?loop = Some (256 * n, map (\<lambda>k. other_word (view s) (dx k)) [0..<256 * n] @ drop (256 * n) buf, s')"
      "pending (view s') = pending (view s)"
      using sectors_elsewhere [OF assms(1), of n dx s buf] assms(6) by blast
    then show "\<exists>st'. disk_read_block dx dev d d (of_nat lba) (of_nat n) buf st =
        Some (0, map (\<lambda>k. other_word (view st) (dx k)) [0..<256 * n] @ drop (256 * n) buf, st') \<and>
        pending (view st') = map (sectors (view st)) [lba..<lba + n]"
      unfolding run c by simp
  qed
qed

definition ata_ex :: ata where
  "ata_ex = \<lparr>sectors = (\<lambda>k. replicate 256 (of_nat k)), sel = 0, cnt = 0, lba0 = 0, lba1 = 0, lba2 = 0,
     delay = (\<lambda>k. 3), busy = 0, pending = [], other_word = (\<lambda>p. 0x5858)\<rparr>"

theorem disk_read_block_reads_witness:
  "(\<exists>st'. disk_read_block (\<lambda>k. 0x1f0) ata_hw 0x1000 0x1000 7 2 (replicate 600 1) ata_ex =
     Some (0, replicate 256 7 @ replicate 256 8 @ replicate 88 1, st')) \<and>
   (\<exists>st'. disk_read_block (\<lambda>k. 0x1f7) ata_hw 0x1000 0x1000 7 2 (replicate 600 1) ata_ex =
     Some (0, replicate 512 0x5858 @ replicate 88 1, st') \<and> pending st' = [replicate 256 7, replicate 256 8])"
proof -
  have len: "\<forall>k. length (sectors (id ata_ex) k) = 256" "256 * 2 \<le> length (replicate 600 (1 :: u16))" by (simp_all add: ata_ex_def)
  have eq: "map (sectors ata_ex) [7..<7 + 2] = [replicate 256 7, replicate 256 8]"
    by (simp add: ata_ex_def upt_rec)
  have w: "map (\<lambda>k. other_word ata_ex 0x1f7) [0..<256 * 2] = replicate 512 (0x5858 :: u16)"
    unfolding map_replicate_const by (simp add: ata_ex_def)
  have rest: "drop (256 * 2) (replicate 600 1) = replicate 88 (1 :: u16)" by simp
  have lba: "(7 :: nat) < 2 ^ 28" "1 \<le> (2 :: nat)" "(2 :: nat) \<le> 256" by simp_all
  have d: "((\<forall>k < 256 * 2. dx k = 0x1f0) \<longrightarrow>
      (\<exists>st'. disk_read_block dx ata_hw c c (of_nat 7) (of_nat 2) (replicate 600 1) ata_ex =
        Some (0, concat (map (sectors (id ata_ex)) [7..<7 + 2]) @ drop (256 * 2) (replicate 600 1), st'))) \<and>
    ((\<forall>k < 256 * 2. dx k \<noteq> 0x1f0) \<longrightarrow>
      (\<exists>st'. disk_read_block dx ata_hw c c (of_nat 7) (of_nat 2) (replicate 600 1) ata_ex =
        Some (0, map (\<lambda>k. other_word (id ata_ex) (dx k)) [0..<256 * 2] @ drop (256 * 2) (replicate 600 1), st') \<and>
        pending (id st') = map (sectors (id ata_ex)) [7..<7 + 2]))" for dx c
    by (rule disk_read_block_reads [OF follows_self len(1) lba len(2)])
  have port: "\<forall>k :: nat < 256 * 2. (0x1f0 :: u16) = 0x1f0" "\<forall>k :: nat < 256 * 2. (0x1f7 :: u16) \<noteq> 0x1f0" by simp_all
  show ?thesis
    using d [of "\<lambda>k. 0x1f0" "0x1000", THEN conjunct1, THEN mp, OF port(1)]
      d [of "\<lambda>k. 0x1f7" "0x1000", THEN conjunct2, THEN mp, OF port(2)]
    unfolding of_nat_numeral id_apply eq concat.simps append_Nil2 rest append_assoc w by (rule conjI)
qed

end
