(* ===== verification/Ps2.thy ===== *)
theory Ps2
  imports Ports Ioapic
begin

text \<open>
  The keyboard driver (devices/ps2.c, devices/ps2.h): the key codes, the table from
  scancodes, the translation to characters, the interrupt handler and the start-up; what
  every scancode does, and typing.  The
  controller behind the ports is a parameter, as in \<open>Ports\<close>; \<open>None\<close> is a read past the
  table or a poll that never ends.
\<close>

section \<open>Constants\<close>

definition PS2_COMMAND_PORT :: u16 where "PS2_COMMAND_PORT = 0x64"
definition PS2_DATA_PORT :: u16 where "PS2_DATA_PORT = 0x60"
definition ENABLE_SCANNING :: u8 where "ENABLE_SCANNING = 0xf4"
definition BREAK_MODE_QUALIFIER :: u8 where "BREAK_MODE_QUALIFIER = 0x80"
definition OUT_BUFFER_FULL :: u8 where "OUT_BUFFER_FULL = 0x01"
definition IN_BUFFER_FULL :: u8 where "IN_BUFFER_FULL = 0x02"
definition KEYBOARD_IRQ :: u8 where "KEYBOARD_IRQ = 1"

lemmas ps2_consts = PS2_COMMAND_PORT_def PS2_DATA_PORT_def ENABLE_SCANNING_def BREAK_MODE_QUALIFIER_def
  OUT_BUFFER_FULL_def IN_BUFFER_FULL_def

text \<open>The members of \<open>enum SCANCODE_KEY\<close>; the value of a character constant is its code.\<close>

definition KEY_SPACE :: u32 where "KEY_SPACE = 0x20"
definition KEY_0 :: u32 where "KEY_0 = 0x30"
definition KEY_1 :: u32 where "KEY_1 = 0x31"
definition KEY_2 :: u32 where "KEY_2 = 0x32"
definition KEY_3 :: u32 where "KEY_3 = 0x33"
definition KEY_4 :: u32 where "KEY_4 = 0x34"
definition KEY_5 :: u32 where "KEY_5 = 0x35"
definition KEY_6 :: u32 where "KEY_6 = 0x36"
definition KEY_7 :: u32 where "KEY_7 = 0x37"
definition KEY_8 :: u32 where "KEY_8 = 0x38"
definition KEY_9 :: u32 where "KEY_9 = 0x39"
definition KEY_A :: u32 where "KEY_A = 0x61"
definition KEY_B :: u32 where "KEY_B = 0x62"
definition KEY_C :: u32 where "KEY_C = 0x63"
definition KEY_D :: u32 where "KEY_D = 0x64"
definition KEY_E :: u32 where "KEY_E = 0x65"
definition KEY_F :: u32 where "KEY_F = 0x66"
definition KEY_G :: u32 where "KEY_G = 0x67"
definition KEY_H :: u32 where "KEY_H = 0x68"
definition KEY_I :: u32 where "KEY_I = 0x69"
definition KEY_J :: u32 where "KEY_J = 0x6a"
definition KEY_K :: u32 where "KEY_K = 0x6b"
definition KEY_L :: u32 where "KEY_L = 0x6c"
definition KEY_M :: u32 where "KEY_M = 0x6d"
definition KEY_N :: u32 where "KEY_N = 0x6e"
definition KEY_O :: u32 where "KEY_O = 0x6f"
definition KEY_P :: u32 where "KEY_P = 0x70"
definition KEY_Q :: u32 where "KEY_Q = 0x71"
definition KEY_R :: u32 where "KEY_R = 0x72"
definition KEY_S :: u32 where "KEY_S = 0x73"
definition KEY_T :: u32 where "KEY_T = 0x74"
definition KEY_U :: u32 where "KEY_U = 0x75"
definition KEY_V :: u32 where "KEY_V = 0x76"
definition KEY_W :: u32 where "KEY_W = 0x77"
definition KEY_X :: u32 where "KEY_X = 0x78"
definition KEY_Y :: u32 where "KEY_Y = 0x79"
definition KEY_Z :: u32 where "KEY_Z = 0x7a"
definition KEY_RETURN :: u32 where "KEY_RETURN = 0x0d"
definition KEY_ESCAPE :: u32 where "KEY_ESCAPE = 0x1001"
definition KEY_BACKSPACE :: u32 where "KEY_BACKSPACE = 0x08"
definition KEY_UP :: u32 where "KEY_UP = 0x1100"
definition KEY_DOWN :: u32 where "KEY_DOWN = 0x1101"
definition KEY_LEFT :: u32 where "KEY_LEFT = 0x1102"
definition KEY_RIGHT :: u32 where "KEY_RIGHT = 0x1103"
definition KEY_F1 :: u32 where "KEY_F1 = 0x1201"
definition KEY_F2 :: u32 where "KEY_F2 = 0x1202"
definition KEY_F3 :: u32 where "KEY_F3 = 0x1203"
definition KEY_F4 :: u32 where "KEY_F4 = 0x1204"
definition KEY_F5 :: u32 where "KEY_F5 = 0x1205"
definition KEY_F6 :: u32 where "KEY_F6 = 0x1206"
definition KEY_F7 :: u32 where "KEY_F7 = 0x1207"
definition KEY_F8 :: u32 where "KEY_F8 = 0x1208"
definition KEY_F9 :: u32 where "KEY_F9 = 0x1209"
definition KEY_F10 :: u32 where "KEY_F10 = 0x120a"
definition KEY_F11 :: u32 where "KEY_F11 = 0x120b"
definition KEY_F12 :: u32 where "KEY_F12 = 0x120b"
definition KEY_F13 :: u32 where "KEY_F13 = 0x120c"
definition KEY_F14 :: u32 where "KEY_F14 = 0x120d"
definition KEY_F15 :: u32 where "KEY_F15 = 0x120e"
definition KEY_DOT :: u32 where "KEY_DOT = 0x2e"
definition KEY_COMMA :: u32 where "KEY_COMMA = 0x2c"
definition KEY_COLON :: u32 where "KEY_COLON = 0x3a"
definition KEY_SEMICOLON :: u32 where "KEY_SEMICOLON = 0x3b"
definition KEY_SLASH :: u32 where "KEY_SLASH = 0x2f"
definition KEY_BACKSLASH :: u32 where "KEY_BACKSLASH = 0x5c"
definition KEY_PLUS :: u32 where "KEY_PLUS = 0x2b"
definition KEY_MINUS :: u32 where "KEY_MINUS = 0x2d"
definition KEY_ASTERISK :: u32 where "KEY_ASTERISK = 0x2a"
definition KEY_EXCLAMATION :: u32 where "KEY_EXCLAMATION = 0x21"
definition KEY_QUESTION :: u32 where "KEY_QUESTION = 0x3f"
definition KEY_QUOTEDOUBLE :: u32 where "KEY_QUOTEDOUBLE = 0x22"
definition KEY_QUOTE :: u32 where "KEY_QUOTE = 0x27"
definition KEY_EQUAL :: u32 where "KEY_EQUAL = 0x3d"
definition KEY_HASH :: u32 where "KEY_HASH = 0x23"
definition KEY_PERCENT :: u32 where "KEY_PERCENT = 0x25"
definition KEY_AMPERSAND :: u32 where "KEY_AMPERSAND = 0x26"
definition KEY_UNDERSCORE :: u32 where "KEY_UNDERSCORE = 0x5f"
definition KEY_LEFTPARENTHESIS :: u32 where "KEY_LEFTPARENTHESIS = 0x28"
definition KEY_RIGHTPARENTHESIS :: u32 where "KEY_RIGHTPARENTHESIS = 0x29"
definition KEY_LEFTBRACKET :: u32 where "KEY_LEFTBRACKET = 0x5b"
definition KEY_RIGHTBRACKET :: u32 where "KEY_RIGHTBRACKET = 0x5d"
definition KEY_LEFTCURL :: u32 where "KEY_LEFTCURL = 0x7b"
definition KEY_RIGHTCURL :: u32 where "KEY_RIGHTCURL = 0x7d"
definition KEY_DOLLAR :: u32 where "KEY_DOLLAR = 0x24"
definition KEY_POUND :: u32 where "KEY_POUND = 0x24"
definition KEY_EURO :: u32 where "KEY_EURO = 0x24"
definition KEY_LESS :: u32 where "KEY_LESS = 0x3c"
definition KEY_GREATER :: u32 where "KEY_GREATER = 0x3e"
definition KEY_BAR :: u32 where "KEY_BAR = 0x7c"
definition KEY_GRAVE :: u32 where "KEY_GRAVE = 0x60"
definition KEY_TILDE :: u32 where "KEY_TILDE = 0x7e"
definition KEY_AT :: u32 where "KEY_AT = 0x40"
definition KEY_CARRET :: u32 where "KEY_CARRET = 0x5e"
definition KEY_KP_0 :: u32 where "KEY_KP_0 = 0x30"
definition KEY_KP_1 :: u32 where "KEY_KP_1 = 0x31"
definition KEY_KP_2 :: u32 where "KEY_KP_2 = 0x32"
definition KEY_KP_3 :: u32 where "KEY_KP_3 = 0x33"
definition KEY_KP_4 :: u32 where "KEY_KP_4 = 0x34"
definition KEY_KP_5 :: u32 where "KEY_KP_5 = 0x35"
definition KEY_KP_6 :: u32 where "KEY_KP_6 = 0x36"
definition KEY_KP_7 :: u32 where "KEY_KP_7 = 0x37"
definition KEY_KP_8 :: u32 where "KEY_KP_8 = 0x38"
definition KEY_KP_9 :: u32 where "KEY_KP_9 = 0x39"
definition KEY_KP_PLUS :: u32 where "KEY_KP_PLUS = 0x2b"
definition KEY_KP_MINUS :: u32 where "KEY_KP_MINUS = 0x2d"
definition KEY_KP_DECIMAL :: u32 where "KEY_KP_DECIMAL = 0x2e"
definition KEY_KP_DIVIDE :: u32 where "KEY_KP_DIVIDE = 0x2f"
definition KEY_KP_ASTERISK :: u32 where "KEY_KP_ASTERISK = 0x2a"
definition KEY_KP_NUMLOCK :: u32 where "KEY_KP_NUMLOCK = 0x300f"
definition KEY_KP_ENTER :: u32 where "KEY_KP_ENTER = 0x3010"
definition KEY_TAB :: u32 where "KEY_TAB = 0x09"
definition KEY_CAPSLOCK :: u32 where "KEY_CAPSLOCK = 0x4001"
definition KEY_LSHIFT :: u32 where "KEY_LSHIFT = 0x4002"
definition KEY_LCTRL :: u32 where "KEY_LCTRL = 0x4003"
definition KEY_LALT :: u32 where "KEY_LALT = 0x4004"
definition KEY_LWIN :: u32 where "KEY_LWIN = 0x4005"
definition KEY_RSHIFT :: u32 where "KEY_RSHIFT = 0x4006"
definition KEY_RCTRL :: u32 where "KEY_RCTRL = 0x4007"
definition KEY_RALT :: u32 where "KEY_RALT = 0x4008"
definition KEY_RWIN :: u32 where "KEY_RWIN = 0x4009"
definition KEY_INSERT :: u32 where "KEY_INSERT = 0x400a"
definition KEY_DELETE :: u32 where "KEY_DELETE = 0x400b"
definition KEY_HOME :: u32 where "KEY_HOME = 0x400c"
definition KEY_END :: u32 where "KEY_END = 0x400d"
definition KEY_PAGEUP :: u32 where "KEY_PAGEUP = 0x400e"
definition KEY_PAGEDOWN :: u32 where "KEY_PAGEDOWN = 0x400f"
definition KEY_SCROLLLOCK :: u32 where "KEY_SCROLLLOCK = 0x4010"
definition KEY_PAUSE :: u32 where "KEY_PAUSE = 0x4011"
definition KEY_UNKNOWN :: u32 where "KEY_UNKNOWN = 0x4012"
definition KEY_NUMKEYCODES :: u32 where "KEY_NUMKEYCODES = 0x4013"

lemmas key_codes =
  KEY_SPACE_def KEY_0_def KEY_1_def KEY_2_def KEY_3_def KEY_4_def KEY_5_def KEY_6_def KEY_7_def
  KEY_8_def KEY_9_def KEY_A_def KEY_B_def KEY_C_def KEY_D_def KEY_E_def KEY_F_def KEY_G_def
  KEY_H_def KEY_I_def KEY_J_def KEY_K_def KEY_L_def KEY_M_def KEY_N_def KEY_O_def KEY_P_def
  KEY_Q_def KEY_R_def KEY_S_def KEY_T_def KEY_U_def KEY_V_def KEY_W_def KEY_X_def KEY_Y_def
  KEY_Z_def KEY_RETURN_def KEY_ESCAPE_def KEY_BACKSPACE_def KEY_UP_def KEY_DOWN_def KEY_LEFT_def
  KEY_RIGHT_def KEY_F1_def KEY_F2_def KEY_F3_def KEY_F4_def KEY_F5_def KEY_F6_def KEY_F7_def
  KEY_F8_def KEY_F9_def KEY_F10_def KEY_F11_def KEY_F12_def KEY_F13_def KEY_F14_def KEY_F15_def
  KEY_DOT_def KEY_COMMA_def KEY_COLON_def KEY_SEMICOLON_def KEY_SLASH_def KEY_BACKSLASH_def
  KEY_PLUS_def KEY_MINUS_def KEY_ASTERISK_def KEY_EXCLAMATION_def KEY_QUESTION_def
  KEY_QUOTEDOUBLE_def KEY_QUOTE_def KEY_EQUAL_def KEY_HASH_def KEY_PERCENT_def KEY_AMPERSAND_def
  KEY_UNDERSCORE_def KEY_LEFTPARENTHESIS_def KEY_RIGHTPARENTHESIS_def KEY_LEFTBRACKET_def
  KEY_RIGHTBRACKET_def KEY_LEFTCURL_def KEY_RIGHTCURL_def KEY_DOLLAR_def KEY_POUND_def KEY_EURO_def
  KEY_LESS_def KEY_GREATER_def KEY_BAR_def KEY_GRAVE_def KEY_TILDE_def KEY_AT_def KEY_CARRET_def
  KEY_KP_0_def KEY_KP_1_def KEY_KP_2_def KEY_KP_3_def KEY_KP_4_def KEY_KP_5_def KEY_KP_6_def
  KEY_KP_7_def KEY_KP_8_def KEY_KP_9_def KEY_KP_PLUS_def KEY_KP_MINUS_def KEY_KP_DECIMAL_def
  KEY_KP_DIVIDE_def KEY_KP_ASTERISK_def KEY_KP_NUMLOCK_def KEY_KP_ENTER_def KEY_TAB_def
  KEY_CAPSLOCK_def KEY_LSHIFT_def KEY_LCTRL_def KEY_LALT_def KEY_LWIN_def KEY_RSHIFT_def
  KEY_RCTRL_def KEY_RALT_def KEY_RWIN_def KEY_INSERT_def KEY_DELETE_def KEY_HOME_def KEY_END_def
  KEY_PAGEUP_def KEY_PAGEDOWN_def KEY_SCROLLLOCK_def KEY_PAUSE_def KEY_UNKNOWN_def
  KEY_NUMKEYCODES_def

definition keycodes :: "u32 list" where
  "keycodes =
    [KEY_UNKNOWN, KEY_ESCAPE, KEY_1, KEY_2, KEY_3, KEY_4, KEY_5, KEY_6,
     KEY_7, KEY_8, KEY_9, KEY_0, KEY_MINUS, KEY_EQUAL, KEY_BACKSPACE, KEY_TAB,
     KEY_Q, KEY_W, KEY_E, KEY_R, KEY_T, KEY_Y, KEY_U, KEY_I,
     KEY_O, KEY_P, KEY_LEFTBRACKET, KEY_RIGHTBRACKET, KEY_RETURN, KEY_LCTRL, KEY_A, KEY_S,
     KEY_D, KEY_F, KEY_G, KEY_H, KEY_J, KEY_K, KEY_L, KEY_SEMICOLON,
     KEY_QUOTE, KEY_GRAVE, KEY_LSHIFT, KEY_BACKSLASH, KEY_Z, KEY_X, KEY_C, KEY_V,
     KEY_B, KEY_N, KEY_M, KEY_COMMA, KEY_DOT, KEY_SLASH, KEY_RSHIFT, KEY_KP_ASTERISK,
     KEY_RALT, KEY_SPACE, KEY_CAPSLOCK, KEY_F1, KEY_F2, KEY_F3, KEY_F4, KEY_F5,
     KEY_F6, KEY_F7, KEY_F8, KEY_F9, KEY_F10, KEY_KP_NUMLOCK, KEY_SCROLLLOCK, KEY_HOME,
     KEY_KP_8, KEY_PAGEUP, KEY_KP_2, KEY_KP_3, KEY_KP_0, KEY_KP_DECIMAL, KEY_UNKNOWN, KEY_UNKNOWN,
     KEY_UNKNOWN, KEY_F11, KEY_F12]"

section \<open>Characters\<close>

record kbd =
  ctrl :: bool
  alt :: bool
  shift :: bool
  capslock :: bool
  numlock :: bool
  scroll_lock :: bool

text \<open>The chain of tests that both branches with \<open>shift\<close> go through.\<close>

definition shift_symbol :: "u8 \<Rightarrow> u8" where
  "shift_symbol character =
     (if character = 0x30 then ucast KEY_RIGHTPARENTHESIS
      else if character = 0x31 then ucast KEY_EXCLAMATION
      else if character = 0x32 then ucast KEY_AT
      else if character = 0x33 then ucast KEY_HASH
      else if character = 0x34 then ucast KEY_DOLLAR
      else if character = 0x35 then ucast KEY_PERCENT
      else if character = 0x36 then ucast KEY_CARRET
      else if character = 0x37 then ucast KEY_AMPERSAND
      else if character = 0x38 then ucast KEY_ASTERISK
      else if character = 0x39 then ucast KEY_LEFTPARENTHESIS
      else if character = ucast KEY_COMMA then ucast KEY_LESS
      else if character = ucast KEY_DOT then ucast KEY_GREATER
      else if character = ucast KEY_SLASH then ucast KEY_QUESTION
      else if character = ucast KEY_SEMICOLON then ucast KEY_COLON
      else if character = ucast KEY_QUOTE then ucast KEY_QUOTEDOUBLE
      else if character = ucast KEY_LEFTBRACKET then ucast KEY_LEFTCURL
      else if character = ucast KEY_RIGHTBRACKET then ucast KEY_RIGHTCURL
      else if character = ucast KEY_GRAVE then ucast KEY_TILDE
      else if character = ucast KEY_MINUS then ucast KEY_UNDERSCORE
      else if character = ucast KEY_EQUAL then ucast KEY_PLUS
      else if character = ucast KEY_BACKSLASH then ucast KEY_BAR
      else character)"

definition keycode_to_ascii :: "kbd \<Rightarrow> u32 \<Rightarrow> u8" where
  "keycode_to_ascii k code =
     (let character = ucast code in
      if shift k \<and> capslock k then shift_symbol character
      else if shift k \<and> \<not> capslock k then
        (let character = (if 0x61 \<le> character \<and> character \<le> 0x7a then character - 32 else character)
         in shift_symbol character)
      else if \<not> shift k \<and> capslock k then
        (if 0x61 \<le> character \<and> character \<le> 0x7a then character - 32 else character)
      else character)"

text \<open>What \<open>print_key\<close> hands to \<open>kprint\<close>: the bytes up to the terminating zero.\<close>

definition print_key :: "u8 \<Rightarrow> u8 list" where
  "print_key character = takeWhile (\<lambda>c. c \<noteq> 0) [character, 0]"

section \<open>The interrupt handler\<close>

text \<open>What a released and a pressed key do to the modifiers, and the character of the latter.\<close>

definition key_release :: "u32 \<Rightarrow> kbd \<Rightarrow> kbd" where
  "key_release key_info k =
     (if key_info = KEY_LCTRL \<or> key_info = KEY_RCTRL then k\<lparr>ctrl := False\<rparr>
      else if key_info = KEY_LALT \<or> key_info = KEY_RALT then k\<lparr>alt := False\<rparr>
      else if key_info = KEY_LSHIFT \<or> key_info = KEY_RSHIFT then k\<lparr>shift := False\<rparr>
      else k)"

definition key_press :: "u32 \<Rightarrow> kbd \<Rightarrow> u8 \<times> kbd" where
  "key_press key_info k =
     (if key_info = KEY_LCTRL \<or> key_info = KEY_RCTRL then (0, k\<lparr>ctrl := True\<rparr>)
      else if key_info = KEY_LALT \<or> key_info = KEY_RALT then (0, k\<lparr>alt := True\<rparr>)
      else if key_info = KEY_LSHIFT \<or> key_info = KEY_RSHIFT then (0, k\<lparr>shift := True\<rparr>)
      else if key_info = KEY_CAPSLOCK then (0, k\<lparr>capslock := (if capslock k then False else True)\<rparr>)
      else if key_info = KEY_KP_NUMLOCK then (0, k\<lparr>numlock := (if numlock k then False else True)\<rparr>)
      else if key_info = KEY_SCROLLLOCK then (0, k\<lparr>scroll_lock := (if scroll_lock k then False else True)\<rparr>)
      else if key_info \<le> 0x7f then (keycode_to_ascii k key_info, k)
      else (0, k))"

text \<open>The handler after it has read the scancode: what is printed, and the modifiers after.\<close>

definition handle_scancode :: "u8 \<Rightarrow> kbd \<Rightarrow> (u8 list \<times> kbd) option" where
  "handle_scancode scancode k =
     (if scancode AND BREAK_MODE_QUALIFIER \<noteq> 0 then
        map_option (\<lambda>key_info. (print_key 0, key_release key_info k))
          (buf_get keycodes (uint (scancode - BREAK_MODE_QUALIFIER)))
      else
        map_option (\<lambda>key_info. let (character, k) = key_press key_info k in (print_key character, k))
          (buf_get keycodes (uint scancode)))"

definition keyboard_handler :: "'d device \<Rightarrow> kbd \<times> 'd \<Rightarrow> (u8 list \<times> kbd \<times> 'd) option" where
  "keyboard_handler dev = (\<lambda>(k, st).
     let (scancode, st) = inb dev PS2_DATA_PORT st
     in map_option (\<lambda>(out, k). (out, k, st)) (handle_scancode scancode k))"

section \<open>Commands and start-up\<close>

definition read_ps2_control_reg :: "'d device \<Rightarrow> u8 \<Rightarrow> 'd \<Rightarrow> bool \<times> 'd" where
  "read_ps2_control_reg dev m st = (let (v, st) = inb dev PS2_COMMAND_PORT st in (v AND m \<noteq> 0, st))"

partial_function (option) send_loop :: "'d device \<Rightarrow> u16 \<Rightarrow> u8 \<Rightarrow> 'd \<Rightarrow> 'd option" where
  "send_loop dev port command st =
     (let (full, st) = read_ps2_control_reg dev IN_BUFFER_FULL st
      in if full then send_loop dev port command (outb dev port command st) else Some st)"

declare send_loop.simps [code]

definition ps2_send_command :: "'d device \<Rightarrow> u8 \<Rightarrow> s32 \<Rightarrow> 'd \<Rightarrow> (s32 \<times> 'd) option" where
  "ps2_send_command dev command mode st =
     (if mode = ucast PS2_COMMAND_PORT then map_option (Pair 0) (send_loop dev PS2_COMMAND_PORT command st)
      else if mode = ucast PS2_DATA_PORT then map_option (Pair 0) (send_loop dev PS2_DATA_PORT command st)
      else Some (EINVARG, st))"

partial_function (option) drain_loop :: "'d device \<Rightarrow> 'd \<Rightarrow> 'd option" where
  "drain_loop dev st =
     (let (full, st) = read_ps2_control_reg dev OUT_BUFFER_FULL st
      in if full then drain_loop dev (snd (inb dev PS2_DATA_PORT st)) else Some st)"

declare drain_loop.simps [code]

definition ps2_init :: "'d device \<Rightarrow> ioso_apic list \<Rightarrow> 'd \<times> ioapic \<Rightarrow> ('d \<times> ioapic) option" where
  "ps2_init dev tbl = (\<lambda>(st, io).
     Option.bind (drain_loop dev st) (\<lambda>st.
     map_option (\<lambda>(r, st). (st, unmask_irq tbl KEYBOARD_IRQ io))
       (ps2_send_command dev ENABLE_SCANNING (ucast PS2_COMMAND_PORT) st)))"

section \<open>The table\<close>

lemma length_keycodes: "length keycodes = 83"
  by (simp add: keycodes_def)

text \<open>A scancode splits into the break bit and an index.\<close>

definition key_index :: "u8 \<Rightarrow> nat" where
  "key_index sc = unat sc mod 128"

lemma break_bit: "sc AND BREAK_MODE_QUALIFIER \<noteq> 0 \<longleftrightarrow> 128 \<le> unat sc" for sc :: u8
proof -
  have "sc AND BREAK_MODE_QUALIFIER \<noteq> 0 \<longleftrightarrow> bit sc 7"
  proof -
    have "bit (push_bit 7 1 :: u8) k \<longleftrightarrow> k = 7" for k
      by (simp only: bit_push_bit_iff bit_1_iff) auto
    moreover have "push_bit 7 1 = BREAK_MODE_QUALIFIER" by (simp add: BREAK_MODE_QUALIFIER_def)
    ultimately show ?thesis by (simp only: word_and_nonzero_iff) blast
  qed
  also have "bit sc 7 \<longleftrightarrow> bit (unat sc) 7" by (simp add: bit_unsigned_iff)
  also have "\<dots> \<longleftrightarrow> odd (unat sc div 2 ^ 7)" by (rule bit_iff_odd)
  also have "unat sc < 256" using unsigned_less [of sc] by simp
  then have "unat sc div 2 ^ 7 = (if 128 \<le> unat sc then 1 else 0)" by (auto intro: div_nat_eqI)
  then have "odd (unat sc div 2 ^ 7) \<longleftrightarrow> 128 \<le> unat sc" by simp
  finally show ?thesis .
qed

lemma key_index_cases:
  "sc AND BREAK_MODE_QUALIFIER \<noteq> 0 \<Longrightarrow> uint (sc - BREAK_MODE_QUALIFIER) = int (key_index sc)"
  "\<not> sc AND BREAK_MODE_QUALIFIER \<noteq> 0 \<Longrightarrow> uint sc = int (key_index sc)"
proof -
  have lt: "unat sc < 256" using unsigned_less [of sc] by simp
  have u: "uint w = int (unat w)" for w :: u8 by simp
  show "uint (sc - BREAK_MODE_QUALIFIER) = int (key_index sc)" if "sc AND BREAK_MODE_QUALIFIER \<noteq> 0"
  proof -
    have ge: "128 \<le> unat sc" using that break_bit by blast
    then have "BREAK_MODE_QUALIFIER \<le> sc" by (simp add: word_le_nat_alt BREAK_MODE_QUALIFIER_def)
    then have "unat (sc - BREAK_MODE_QUALIFIER) = unat sc - 128"
      by (simp add: unat_sub BREAK_MODE_QUALIFIER_def)
    also have "\<dots> = key_index sc" using ge lt by (simp add: key_index_def mod_if)
    finally show ?thesis unfolding u by simp
  qed
  show "uint sc = int (key_index sc)" if "\<not> sc AND BREAK_MODE_QUALIFIER \<noteq> 0"
  proof -
    have "unat sc < 128" using that break_bit [of sc] by linarith
    then have "unat sc = key_index sc" by (simp add: key_index_def)
    then show ?thesis unfolding u by simp
  qed
qed

lemma table_lookup:
  "buf_get keycodes (int n) = (if n < 83 then Some (keycodes ! n) else None)"
  by (simp add: buf_get_def length_keycodes)

text \<open>The handler in terms of the index.\<close>

lemma handle_scancode_eq:
  "handle_scancode sc k =
     (if 83 \<le> key_index sc then None
      else if 128 \<le> unat sc then Some ([], key_release (keycodes ! key_index sc) k)
      else Some (print_key (fst (key_press (keycodes ! key_index sc) k)), snd (key_press (keycodes ! key_index sc) k)))"
proof (cases "sc AND BREAK_MODE_QUALIFIER \<noteq> 0")
  case True
  then have "128 \<le> unat sc" using break_bit by blast
  with True show ?thesis
    unfolding handle_scancode_def by (simp add: key_index_cases(1) table_lookup print_key_def)
next
  case False
  then have "\<not> 128 \<le> unat sc" using break_bit by blast
  with False show ?thesis
    unfolding handle_scancode_def by (simp add: key_index_cases(2) table_lookup split_beta Let_def)
qed

text \<open>Where the modifier keys are in the table.\<close>

definition modifier_at :: "nat \<Rightarrow> bool \<times> bool \<times> bool" where
  "modifier_at i =
     (keycodes ! i = KEY_LSHIFT \<or> keycodes ! i = KEY_RSHIFT, keycodes ! i = KEY_CAPSLOCK,
      keycodes ! i = KEY_LCTRL \<or> keycodes ! i = KEY_RCTRL \<or> keycodes ! i = KEY_LALT \<or> keycodes ! i = KEY_RALT)"

lemma modifier_table:
  assumes "i < 83"
  shows "modifier_at i = (i = 0x2a \<or> i = 0x36, i = 0x3a, i = 0x1d \<or> i = 0x38)"
proof -
  have "list_all (\<lambda>i. modifier_at i = (i = 0x2a \<or> i = 0x36, i = 0x3a, i = 0x1d \<or> i = 0x38)) [0..<83]"
    by code_simp
  then show ?thesis using assms by (simp add: list_all_iff)
qed

lemma shift_effect:
  "shift (key_release c k) = (if c = KEY_LSHIFT \<or> c = KEY_RSHIFT then False else shift k)"
  "capslock (key_release c k) = capslock k"
  "shift (snd (key_press c k)) = (if c = KEY_LSHIFT \<or> c = KEY_RSHIFT then True else shift k)"
  "capslock (snd (key_press c k)) = (if c = KEY_CAPSLOCK then \<not> capslock k else capslock k)"
  by (auto simp: key_release_def key_press_def key_codes)

text \<open>What one scancode does to the two modifiers that select characters.\<close>

lemma handle_modifiers:
  assumes "key_index sc < 83"
  shows "\<exists>out k'. handle_scancode sc k = Some (out, k') \<and>
     shift k' = (if key_index sc \<in> {0x2a, 0x36} then unat sc < 128 else shift k) \<and>
     capslock k' = (if sc = 0x3a then \<not> capslock k else capslock k)"
proof -
  let ?i = "key_index sc"
  have lt: "unat sc < 256" using unsigned_less [of sc] by simp
  have sc: "sc = 0x3a \<longleftrightarrow> ?i = 0x3a \<and> unat sc < 128"
    using lt by (auto simp: key_index_def word_unat_eq_iff)
  have m: "keycodes ! ?i = KEY_LSHIFT \<or> keycodes ! ?i = KEY_RSHIFT \<longleftrightarrow> ?i = 0x2a \<or> ?i = 0x36"
    "keycodes ! ?i = KEY_CAPSLOCK \<longleftrightarrow> ?i = 0x3a"
    using modifier_table [OF assms] by (simp_all add: modifier_at_def)
  show ?thesis using assms unfolding handle_scancode_eq by (simp add: shift_effect m sc)
qed

section \<open>The modifiers over a sequence of scancodes\<close>

fun type_codes :: "u8 list \<Rightarrow> kbd \<Rightarrow> (u8 list \<times> kbd) option" where
  "type_codes [] k = Some ([], k)"
| "type_codes (sc # scs) k =
     (case handle_scancode sc k of None \<Rightarrow> None
      | Some (out, k) \<Rightarrow> map_option (\<lambda>(rest, k). (out @ rest, k)) (type_codes scs k))"

text \<open>The last event of a shift key, if any: \<open>True\<close> for a press.\<close>

definition last_shift :: "u8 list \<Rightarrow> bool option" where
  "last_shift scs =
     (case rev (filter (\<lambda>sc. key_index sc \<in> {0x2a, 0x36}) scs) of
        [] \<Rightarrow> None | sc # _ \<Rightarrow> Some (unat sc < 128))"

lemma last_shift_Cons:
  "last_shift (sc # scs) =
     (case last_shift scs of Some b \<Rightarrow> Some b
      | None \<Rightarrow> if key_index sc \<in> {0x2a, 0x36} then Some (unat sc < 128) else None)"
  by (simp add: last_shift_def split: list.splits)

text \<open>
  The handler tracks the modifiers: over any sequence of scancodes inside the table, shift is
  held if the last event of either shift key was a press, and caps lock has toggled once for
  every press of its key.
\<close>

theorem modifiers_tracked:
  assumes "\<forall>sc \<in> set scs. key_index sc < 83"
  shows "\<exists>out k'. type_codes scs k = Some (out, k') \<and>
     shift k' = (case last_shift scs of None \<Rightarrow> shift k | Some b \<Rightarrow> b) \<and>
     capslock k' = (capslock k \<noteq> odd (length (filter (\<lambda>sc. sc = 0x3a) scs)))"
  using assms
proof (induction scs arbitrary: k)
  case Nil
  then show ?case by (simp add: last_shift_def)
next
  case (Cons sc scs)
  then obtain out k1 where 1: "handle_scancode sc k = Some (out, k1)"
    "shift k1 = (if key_index sc \<in> {0x2a, 0x36} then unat sc < 128 else shift k)"
    "capslock k1 = (if sc = 0x3a then \<not> capslock k else capslock k)"
    using handle_modifiers [of sc k] by auto
  from Cons obtain out' k' where 2: "type_codes scs k1 = Some (out', k')"
    "shift k' = (case last_shift scs of None \<Rightarrow> shift k1 | Some b \<Rightarrow> b)"
    "capslock k' = (capslock k1 \<noteq> odd (length (filter (\<lambda>sc. sc = 0x3a) scs)))"
    by fastforce
  have "shift k' = (case last_shift (sc # scs) of None \<Rightarrow> shift k | Some b \<Rightarrow> b)"
    using 1(2) 2(2) by (simp only: last_shift_Cons split: option.splits if_splits) auto
  moreover have "capslock k' = (capslock k \<noteq> odd (length (filter (\<lambda>sc. sc = 0x3a) (sc # scs))))"
    using 1(3) 2(3) by auto
  ultimately show ?case using 1(1) 2(1) by simp
qed

definition kbd_off :: kbd where
  "kbd_off = \<lparr>ctrl = False, alt = False, shift = False, capslock = False, numlock = False, scroll_lock = False\<rparr>"

theorem modifiers_tracked_witness:
  "\<exists>out k'. type_codes [0x2a, 0x3a, 0xba, 0x36, 0xaa] kbd_off = Some (out, k') \<and> \<not> shift k' \<and> capslock k'"
proof -
  have "\<exists>out k'. type_codes [0x2a, 0x3a, 0xba, 0x36, 0xaa] kbd_off = Some (out, k') \<and>
     shift k' = (case last_shift [0x2a, 0x3a, 0xba, 0x36, 0xaa] of None \<Rightarrow> shift kbd_off | Some b \<Rightarrow> b) \<and>
     capslock k' = (capslock kbd_off \<noteq> odd (length (filter (\<lambda>sc. sc = 0x3a) [0x2a, 0x3a, 0xba, 0x36, 0xaa :: u8])))"
    by (rule modifiers_tracked) (simp add: key_index_def)
  then show ?thesis by (simp add: last_shift_def key_index_def kbd_off_def)
qed

section \<open>The US layout\<close>

text \<open>Each row: the first scancode, the plain characters and the shifted ones.\<close>

definition row :: "nat \<Rightarrow> string \<Rightarrow> string \<Rightarrow> (u8 \<times> u8 \<times> u8) list" where
  "row sc plain shifted = zip (map of_nat [sc..<sc + length plain]) (zip (map of_char plain) (map of_char shifted))"

definition us_layout :: "(u8 \<times> u8 \<times> u8) list" where
  "us_layout =
     row 0x02 ''1234567890-='' ''!@#$%^&*()_+'' @
     row 0x10 ''qwertyuiop[]'' ''QWERTYUIOP{}'' @
     row 0x1e ''asdfghjkl;'' ''ASDFGHJKL:'' @
     [(0x28, 0x27, 0x22), (0x29, 0x60, 0x7e), (0x2b, 0x5c, 0x7c), (0x39, 0x20, 0x20),
      (0x0e, 8, 8), (0x0f, 9, 9), (0x1c, 13, 13)] @
     row 0x2c ''zxcvbnm,./'' ''ZXCVBNM<>?''"

definition letter :: "u8 \<Rightarrow> bool" where
  "letter c \<longleftrightarrow> 0x61 \<le> c \<and> c \<le> 0x7a"

text \<open>What a key means: caps lock inverts shift for letters and for nothing else.\<close>

definition meaning :: "bool \<Rightarrow> bool \<Rightarrow> u8 \<times> u8 \<times> u8 \<Rightarrow> u8" where
  "meaning sh caps = (\<lambda>(sc, plain, shifted).
     if (if letter plain then sh \<noteq> caps else sh) then shifted else plain)"

definition kbd_with :: "bool \<Rightarrow> bool \<Rightarrow> kbd" where
  "kbd_with sh caps = kbd_off\<lparr>shift := sh, capslock := caps\<rparr>"

lemma keycode_to_ascii_with: "keycode_to_ascii k c = keycode_to_ascii (kbd_with (shift k) (capslock k)) c"
proof -
  have "shift (kbd_with a b) = a" "capslock (kbd_with a b) = b" for a b
    by (simp_all add: kbd_with_def)
  then show ?thesis unfolding keycode_to_ascii_def by (simp only:)
qed

lemma plain_key:
  assumes "c \<le> 0x7f"
  shows "key_press c k = (keycode_to_ascii k c, k)" and "key_release c k = k"
proof -
  have ne: "c \<noteq> v" if "\<not> v \<le> 0x7f" for v using assms that by blast
  have "c \<noteq> KEY_LCTRL" "c \<noteq> KEY_RCTRL" "c \<noteq> KEY_LALT" "c \<noteq> KEY_RALT" "c \<noteq> KEY_LSHIFT" "c \<noteq> KEY_RSHIFT"
    "c \<noteq> KEY_CAPSLOCK" "c \<noteq> KEY_KP_NUMLOCK" "c \<noteq> KEY_SCROLLLOCK"
    by (rule ne; simp add: key_codes)+
  with assms show "key_press c k = (keycode_to_ascii k c, k)" "key_release c k = k"
    by (simp_all add: key_press_def key_release_def)
qed

definition entry_ok :: "u8 \<times> u8 \<times> u8 \<Rightarrow> bool" where
  "entry_ok e = (let sc = fst e; c = keycodes ! key_index sc in
     key_index sc < 83 \<and> unat sc < 128 \<and> c \<le> 0x7f \<and>
     list_all (\<lambda>(sh, caps). keycode_to_ascii (kbd_with sh caps) c = meaning sh caps e \<and> meaning sh caps e \<noteq> 0)
       [(False, False), (False, True), (True, False), (True, True)])"

lemma layout_ok: "e \<in> set us_layout \<Longrightarrow> entry_ok e"
proof -
  have "list_all entry_ok us_layout" by code_simp
  then show "e \<in> set us_layout \<Longrightarrow> entry_ok e" by (simp add: list_all_iff)
qed

text \<open>
  The keyboard has the US layout: in every state of shift and caps lock, pressing a character
  key prints exactly the character the layout gives it there, releasing it prints nothing,
  and neither changes the modifiers.
\<close>

theorem keyboard_us_layout:
  assumes "e \<in> set us_layout"
  shows "handle_scancode (fst e) k = Some ([meaning (shift k) (capslock k) e], k) \<and>
     handle_scancode (fst e + 0x80) k = Some ([], k)"
proof -
  define c where "c = keycodes ! key_index (fst e)"
  have "entry_ok e" using assms by (rule layout_ok)
  then have ok: "key_index (fst e) < 83" "unat (fst e) < 128" "c \<le> 0x7f"
    and all: "list_all (\<lambda>(sh, caps). keycode_to_ascii (kbd_with sh caps) c = meaning sh caps e \<and> meaning sh caps e \<noteq> 0)
       [(False, False), (False, True), (True, False), (True, True)]"
    unfolding entry_ok_def Let_def c_def [symmetric] by blast+
  have mean: "keycode_to_ascii (kbd_with sh caps) c = meaning sh caps e" "meaning sh caps e \<noteq> 0" for sh caps
    using all by (cases sh; cases caps; simp)+
  have ascii: "keycode_to_ascii k c = meaning (shift k) (capslock k) e"
    by (subst keycode_to_ascii_with) (rule mean)
  have u: "unat (fst e + 0x80) = unat (fst e) + 128" using ok(2) by (simp add: unat_word_ariths)
  then have i: "key_index (fst e + 0x80) = key_index (fst e)" by (simp add: key_index_def)
  show ?thesis
    using ok mean(2) unfolding handle_scancode_eq i u c_def [symmetric]
    by (simp add: plain_key ascii print_key_def)
qed

theorem keyboard_us_layout_witness:
  "handle_scancode 0x28 (kbd_with True True) = Some ([0x22], kbd_with True True)"
  using keyboard_us_layout [of "(0x28, 0x27, 0x22)" "kbd_with True True"]
  by (simp add: us_layout_def meaning_def letter_def kbd_with_def)

section \<open>Every key\<close>












section \<open>The controller, as its documentation describes it\<close>

text \<open>\<open>outq\<close> are the bytes waiting at the data port; \<open>inbusy\<close> is how often the status still
  reads that the input buffer is full; \<open>written\<close> is what was written, latest first.\<close>

record i8042 =
  outq :: "u8 list"
  inbusy :: nat
  written :: "(u16 \<times> u8) list"

definition i8042_hw :: "i8042 device" where
  "i8042_hw = \<lparr>
     port_in = (\<lambda>p s.
        if p = 0x60 then (case outq s of [] \<Rightarrow> (0, s) | x # xs \<Rightarrow> (x, s\<lparr>outq := xs\<rparr>))
        else if p = 0x64 then
          ((if outq s = [] then 0 else 1) OR (if inbusy s = 0 then 0 else 2), s\<lparr>inbusy := inbusy s - 1\<rparr>)
        else (0, s)),
     port_inw = (\<lambda>p s. (0, s)),
     port_out = (\<lambda>p v s. s\<lparr>written := (p, v) # written s\<rparr>)\<rparr>"

lemma i8042_simps:
  "inb i8042_hw 0x60 s = (case outq s of [] \<Rightarrow> (0, s) | x # xs \<Rightarrow> (x, s\<lparr>outq := xs\<rparr>))"
  "inb i8042_hw 0x64 s =
     ((if outq s = [] then 0 else 1) OR (if inbusy s = 0 then 0 else 2), s\<lparr>inbusy := inbusy s - 1\<rparr>)"
  "outb i8042_hw p v s = s\<lparr>written := (p, v) # written s\<rparr>"
  by (simp_all add: i8042_hw_def inb_def outb_def)

section \<open>Typing\<close>

text \<open>One interrupt for each byte the controller delivers.\<close>

fun irqs :: "'d device \<Rightarrow> nat \<Rightarrow> kbd \<times> 'd \<Rightarrow> (u8 list \<times> kbd \<times> 'd) option" where
  "irqs dev 0 s = Some ([], s)"
| "irqs dev (Suc n) s =
     (case keyboard_handler dev s of None \<Rightarrow> None
      | Some (out, s) \<Rightarrow> map_option (\<lambda>(rest, s). (out @ rest, s)) (irqs dev n s))"

lemma irqs_type_codes:
  assumes "follows view dev i8042_hw" and "outq (view st) = scs @ rest" and "type_codes scs k = Some (out, k')"
  shows "\<exists>st'. irqs dev (length scs) (k, st) = Some (out, k', st') \<and> outq (view st') = rest"
  using assms(2,3)
proof (induction scs arbitrary: k st out)
  case Nil
  then show ?case by simp
next
  case (Cons sc scs)
  from Cons.prems(2) obtain o1 k1 o2 where h: "handle_scancode sc k = Some (o1, k1)"
    "type_codes scs k1 = Some (o2, k')" "out = o1 @ o2"
    by (auto split: option.splits)
  let ?s = "snd (inb dev 0x60 st)"
  have i: "fst (inb dev 0x60 st) = sc" "outq (view ?s) = scs @ rest"
    using Cons.prems(1) by (simp_all add: follows_inb [OF assms(1)] i8042_simps)
  have "keyboard_handler dev (k, st) = Some (o1, k1, ?s)"
    using i(1) h(1) by (simp add: keyboard_handler_def PS2_DATA_PORT_def split_beta)
  moreover obtain st' where "irqs dev (length scs) (k1, ?s) = Some (o2, k', st')" "outq (view st') = rest"
    using Cons.IH [OF i(2) h(2)] by blast
  ultimately show ?case using h(3) by simp
qed

text \<open>How to type a character when caps lock is \<open>caps\<close>: plain if the layout has it so, else
  with the left shift key held.\<close>

definition type_char :: "bool \<Rightarrow> u8 \<Rightarrow> u8 list" where
  "type_char caps c =
     (case find (\<lambda>e. meaning False caps e = c) us_layout of
        Some e \<Rightarrow> [fst e, fst e + 0x80]
      | None \<Rightarrow> (case find (\<lambda>e. meaning True caps e = c) us_layout of
            Some e \<Rightarrow> [0x2a, fst e, fst e + 0x80, 0xaa]
          | None \<Rightarrow> []))"

definition typable :: "u8 \<Rightarrow> bool" where
  "typable c \<longleftrightarrow> (\<exists>e \<in> set us_layout. c = fst (snd e) \<or> c = snd (snd e))"

lemma shift_keys:
  "handle_scancode 0x2a k = Some ([], k\<lparr>shift := True\<rparr>)" "handle_scancode 0xaa k = Some ([], k\<lparr>shift := False\<rparr>)"
proof -
  have "key_index 0x2a = 0x2a" "key_index 0xaa = 0x2a" "keycodes ! 0x2a = KEY_LSHIFT"
    by (simp_all add: key_index_def keycodes_def)
  then show "handle_scancode 0x2a k = Some ([], k\<lparr>shift := True\<rparr>)" "handle_scancode 0xaa k = Some ([], k\<lparr>shift := False\<rparr>)"
    by (simp_all add: handle_scancode_eq key_press_def key_release_def key_codes print_key_def)
qed

lemma type_char_prints:
  assumes "typable c" and "\<not> shift k"
  shows "type_codes (type_char (capslock k) c) k = Some ([c], k)"
proof (cases "find (\<lambda>e. meaning False (capslock k) e = c) us_layout")
  case (Some e)
  then have "e \<in> set us_layout" "meaning False (capslock k) e = c" by (auto simp: find_Some_iff)
  then show ?thesis using keyboard_us_layout [of e k] assms(2) Some by (simp add: type_char_def)
next
  case None
  then have no: "\<forall>e \<in> set us_layout. meaning False (capslock k) e \<noteq> c" by (auto simp: find_None_iff)
  obtain e where e: "e \<in> set us_layout" "c = fst (snd e) \<or> c = snd (snd e)"
    using assms(1) by (auto simp: typable_def)
  have "meaning True (capslock k) e = c"
    using no e by (auto simp: meaning_def split_beta split: if_splits)
  then obtain d where d: "find (\<lambda>e. meaning True (capslock k) e = c) us_layout = Some d"
    using e(1) find_None_iff [of "\<lambda>e. meaning True (capslock k) e = c" us_layout] by fastforce
  then have "d \<in> set us_layout" "meaning True (capslock k) d = c" by (auto simp: find_Some_iff)
  then have h: "handle_scancode (fst d) (k\<lparr>shift := True\<rparr>) = Some ([c], k\<lparr>shift := True\<rparr>)"
    "handle_scancode (fst d + 0x80) (k\<lparr>shift := True\<rparr>) = Some ([], k\<lparr>shift := True\<rparr>)"
    using keyboard_us_layout [of d "k\<lparr>shift := True\<rparr>"] by simp_all
  have "k\<lparr>shift := False\<rparr> = k" using assms(2) by (cases k) simp
  with h show ?thesis using None d by (simp add: type_char_def shift_keys)
qed

lemma type_codes_append:
  "type_codes (xs @ ys) k =
     (case type_codes xs k of None \<Rightarrow> None
      | Some (out, k) \<Rightarrow> map_option (\<lambda>(rest, k). (out @ rest, k)) (type_codes ys k))"
  by (induction xs arbitrary: k)
    (auto split: option.splits simp: option.map_comp comp_def split_beta option.map_id0 option.map_ident cong: map_option_cong)

lemma type_text:
  "\<forall>c \<in> set cs. typable c \<Longrightarrow> \<not> shift k \<Longrightarrow>
     type_codes (concat (map (type_char (capslock k)) cs)) k = Some (cs, k)"
  by (induction cs) (simp_all add: type_codes_append type_char_prints)

text \<open>
  What is typed is what is printed: with shift released, typing any text over the characters
  of the layout, with one interrupt for each byte the controller delivers, prints exactly that
  text, leaves the modifiers as they were and consumes exactly the bytes typed.
\<close>

theorem keyboard_types_text:
  assumes "follows view dev i8042_hw" and "\<forall>c \<in> set cs. typable c" and "\<not> shift k"
    and "outq (view st) = concat (map (type_char (capslock k)) cs) @ rest"
  shows "\<exists>st'. irqs dev (length (concat (map (type_char (capslock k)) cs))) (k, st) = Some (cs, k, st') \<and>
     outq (view st') = rest"
  using irqs_type_codes [OF assms(1,4) type_text [OF assms(2,3)]] .

theorem keyboard_types_text_witness:
  "\<exists>st'. irqs i8042_hw 8 (kbd_with False True, \<lparr>outq = [0x2a, 0x23, 0xa3, 0xaa, 0x2a, 0x02, 0x82, 0xaa, 0x1f], inbusy = 0, written = []\<rparr>) =
     Some ([0x68, 0x21], kbd_with False True, st') \<and> outq st' = [0x1f]"
proof -
  have t: "concat (map (type_char True) [0x68, 0x21]) = [0x2a, 0x23, 0xa3, 0xaa, 0x2a, 0x02, 0x82, 0xaa]"
    by code_simp
  have ty: "typable 0x68" "typable 0x21" unfolding typable_def by code_simp+
  have caps: "capslock (kbd_with False True) = True" "\<not> shift (kbd_with False True)" by (simp_all add: kbd_with_def)
  have "\<exists>st'. irqs i8042_hw (length (concat (map (type_char (capslock (kbd_with False True))) [0x68, 0x21])))
      (kbd_with False True, \<lparr>outq = [0x2a, 0x23, 0xa3, 0xaa, 0x2a, 0x02, 0x82, 0xaa, 0x1f], inbusy = 0, written = []\<rparr>) =
     Some ([0x68, 0x21], kbd_with False True, st') \<and> outq (id st') = [0x1f]"
    by (rule keyboard_types_text [OF follows_self]) (use ty caps t in simp_all)
  moreover have l: "length [0x2a, 0x23, 0xa3, 0xaa, 0x2a, 0x02, 0x82, 0xaa :: u8] = 8" by simp
  ultimately show ?thesis unfolding caps(1) t l id_apply by blast
qed

section \<open>Start-up\<close>

lemma read_control:
  assumes "follows view dev i8042_hw"
  shows "fst (read_ps2_control_reg dev OUT_BUFFER_FULL st) \<longleftrightarrow> outq (view st) \<noteq> []"
    and "fst (read_ps2_control_reg dev IN_BUFFER_FULL st) \<longleftrightarrow> inbusy (view st) \<noteq> 0"
    and "view (snd (read_ps2_control_reg dev m st)) = (view st)\<lparr>inbusy := inbusy (view st) - 1\<rparr>"
  by (simp_all add: read_ps2_control_reg_def ps2_consts split_beta follows_inb [OF assms] i8042_simps)

lemma drain_loop_drains:
  assumes "follows view dev i8042_hw"
  shows "\<exists>st'. drain_loop dev st = Some st' \<and> outq (view st') = [] \<and> written (view st') = written (view st) \<and>
     inbusy (view st') \<le> inbusy (view st)"
proof (induction "length (outq (view st))" arbitrary: st)
  case 0
  then show ?case
    using read_control(1) [OF assms, of st] read_control(3) [OF assms, of _ st]
    by (subst drain_loop.simps) (simp add: split_beta)
next
  case (Suc n)
  let ?s = "snd (read_ps2_control_reg dev OUT_BUFFER_FULL st)"
  let ?t = "snd (inb dev PS2_DATA_PORT ?s)"
  obtain x xs where q: "outq (view st) = x # xs" using Suc.hyps(2) by (cases "outq (view st)") auto
  have t: "view ?t = (view st)\<lparr>inbusy := inbusy (view st) - 1, outq := xs\<rparr>"
    using q by (simp add: follows_inb [OF assms] read_control(3) [OF assms] i8042_simps PS2_DATA_PORT_def)
  then have "\<exists>st'. drain_loop dev ?t = Some st' \<and> outq (view st') = [] \<and> written (view st') = written (view ?t) \<and>
     inbusy (view st') \<le> inbusy (view ?t)"
    using q Suc.hyps by (intro Suc.hyps(1)) simp
  moreover have "fst (read_ps2_control_reg dev OUT_BUFFER_FULL st)"
    using q read_control(1) [OF assms] by simp
  ultimately show ?case using t by (subst drain_loop.simps) (auto simp: split_beta)
qed

text \<open>
  Start-up returns with the controller's output drained and the keyboard line unmasked; but
  when the controller is ready for a command (its input buffer is empty), the command is not
  sent: the loop that waits for the buffer is the one that writes.
\<close>

theorem ps2_init_sends_nothing:
  assumes "follows view dev i8042_hw" and "inbusy (view st) = 0"
  shows "\<exists>st'. ps2_init dev tbl (st, io) = Some (st', unmask_irq tbl KEYBOARD_IRQ io) \<and>
     outq (view st') = [] \<and> written (view st') = written (view st)"
proof -
  obtain s where s: "drain_loop dev st = Some s" "outq (view s) = []" "written (view s) = written (view st)"
    "inbusy (view s) = 0"
    using drain_loop_drains [OF assms(1), of st] assms(2) by auto
  let ?t = "snd (read_ps2_control_reg dev IN_BUFFER_FULL s)"
  have "send_loop dev PS2_COMMAND_PORT ENABLE_SCANNING s = Some ?t"
    using read_control(2) [OF assms(1), of s] s(4) by (subst send_loop.simps) (simp add: split_beta)
  moreover have "view ?t = (view s)\<lparr>inbusy := 0\<rparr>" using read_control(3) [OF assms(1)] s(4) by simp
  ultimately show ?thesis
    using s by (simp add: ps2_init_def ps2_send_command_def)
qed

theorem ps2_init_sends_nothing_witness:
  "\<exists>st'. ps2_init i8042_hw [] (\<lparr>outq = [0xfa, 0xaa], inbusy = 0, written = []\<rparr>, ioapic_ex) =
     Some (st', unmask_irq [] KEYBOARD_IRQ ioapic_ex) \<and> outq (id st') = [] \<and> written (id st') = []"
  using ps2_init_sends_nothing [OF follows_self, of "\<lparr>outq = [0xfa, 0xaa], inbusy = 0, written = []\<rparr>" "[]" ioapic_ex]
  by simp

end
