(* ===== verification/Acpi.thy ===== *)
theory Acpi
  imports Memory Vmm Heap Ioapic
begin

text \<open>
  The firmware tables (firmware/acpi.c, firmware/acpi.h): validation, lookup of a table by its
  signature, the list of interrupt controllers in the MADT, and their start-up.  The tables are
  read where they lie, as bytes of memory at the offsets of the packed structures.  The arrays
  of pointers the MADT fills are checked lists of 32, the number of pointers that fit the
  allocated 256 bytes: \<open>None\<close> is a store past them, or a loop that never ends.  In
  \<open>'a + 'a\<close>, \<open>Inl\<close> is the state of a machine halted after a panic message.
\<close>

section \<open>Constants and layouts\<close>

definition CHECKSUM_VALIDATE_SIZE :: nat where "CHECKSUM_VALIDATE_SIZE = 20"
definition SDT_SIG_LEN :: u64 where "SDT_SIG_LEN = 4"
definition ACPI_APIC_TBL_SIZE :: u64 where "ACPI_APIC_TBL_SIZE = 256"
definition PROCESSOR_LOCAL_APIC :: u8 where "PROCESSOR_LOCAL_APIC = 0"
definition IO_APIC :: u8 where "IO_APIC = 1"
definition IO_APIC_INTERRUPT_SRC_OVERRIDE :: u8 where "IO_APIC_INTERRUPT_SRC_OVERRIDE = 2"
definition IO_APIC_NMI_SRC :: u8 where "IO_APIC_NMI_SRC = 3"
definition LOCAL_APIC_NMI :: u8 where "LOCAL_APIC_NMI = 4"
definition LOCAL_APIC_ADDR_OVERRIDE :: u8 where "LOCAL_APIC_ADDR_OVERRIDE = 5"
definition PROCESSOR_LOCAL_X2_APIC :: u8 where "PROCESSOR_LOCAL_X2_APIC = 9"

lemmas madt_types = PROCESSOR_LOCAL_APIC_def IO_APIC_def IO_APIC_INTERRUPT_SRC_OVERRIDE_def
  IO_APIC_NMI_SRC_def LOCAL_APIC_NMI_def LOCAL_APIC_ADDR_OVERRIDE_def PROCESSOR_LOCAL_X2_APIC_def

text \<open>\<open>struct rsdp_t\<close>\<close>

definition rsdp_revision :: "mem \<Rightarrow> u64 \<Rightarrow> u8" where "rsdp_revision m p = m (p + 15)"
definition rsdp_rsdt_addr :: "mem \<Rightarrow> u64 \<Rightarrow> u32" where "rsdp_rsdt_addr m p = read32 m (p + 16)"

text \<open>\<open>struct acpi_sdt_header\<close>, \<open>struct rsdt_t\<close>, \<open>struct madt_t\<close>\<close>

definition sizeof_sdt_header :: u64 where "sizeof_sdt_header = 36"
definition sdt_length :: "mem \<Rightarrow> u64 \<Rightarrow> u32" where "sdt_length m p = read32 m (p + 4)"
definition rsdt_entry :: "mem \<Rightarrow> u64 \<Rightarrow> u64 \<Rightarrow> u32" where
  "rsdt_entry m p i = read32 m (p + sizeof_sdt_header + 4 * i)"
definition madt_lapic_addr :: "mem \<Rightarrow> u64 \<Rightarrow> u32" where "madt_lapic_addr m p = read32 m (p + 36)"
definition madt_table :: "u64 \<Rightarrow> u64" where "madt_table p = p + 44"

text \<open>\<open>struct proc_lapic_t\<close>, \<open>struct io_apic_t\<close> and \<open>struct ioso_apic_t\<close>\<close>

definition proc_apic_id :: "mem \<Rightarrow> u64 \<Rightarrow> u8" where "proc_apic_id m p = m (p + 3)"
definition io_apic_addr :: "mem \<Rightarrow> u64 \<Rightarrow> u32" where "io_apic_addr m p = read32 m (p + 4)"
definition io_apic_gsib :: "mem \<Rightarrow> u64 \<Rightarrow> u32" where "io_apic_gsib m p = read32 m (p + 8)"
definition read_ioso :: "mem \<Rightarrow> u64 \<Rightarrow> ioso_apic" where
  "read_ioso m p = \<lparr>ioso_irq = m (p + 3), ioso_gsi = read32 m (p + 4)\<rparr>"

section \<open>State\<close>

record acpi =
  rsdp :: u64
  rsdt :: u64
  acpi_version_2 :: bool
  madt :: u64
  tbl_addrs :: "u64 list"
  proc_apic_tbl :: "u64 list"
  io_apic_tbl :: "u64 list"
  ioso_apic_tbl :: "u64 list"
  ionmi_apic_tbl :: "u64 list"
  nmi_lapic_tbl :: "u64 list"
  addro_lapic_tbl :: "u64 list"
  procx2_lapic_tbl :: "u64 list"

section \<open>Validation and lookup\<close>

definition byte_sum :: "mem \<Rightarrow> u64 \<Rightarrow> nat \<Rightarrow> u8" where
  "byte_sum m p n = fold (\<lambda>i sum. sum + m (p + of_nat i)) [0..<n] 0"

definition rsdp_validate_checksum :: "mem \<Rightarrow> u64 \<Rightarrow> bool" where
  "rsdp_validate_checksum m p =
     (if byte_sum m p CHECKSUM_VALIDATE_SIZE AND 0xFF \<noteq> 0 then False else True)"

definition sdt_validate_sig :: "mem \<Rightarrow> u64 \<Rightarrow> u64 \<Rightarrow> bool" where
  "sdt_validate_sig m header sig = (if memcmp header sig SDT_SIG_LEN m = 0 then True else False)"

definition sdt_validate_checksum :: "mem \<Rightarrow> u64 \<Rightarrow> bool" where
  "sdt_validate_checksum m header =
     (if byte_sum m header (unat (sdt_length m header)) AND 0xFF = 0 then True else False)"

definition acpi_find_sdt_tbl :: "mem \<Rightarrow> acpi \<Rightarrow> u64 \<Rightarrow> u64" where
  "acpi_find_sdt_tbl m st sig =
     (let num_entries = (ucast (sdt_length m (rsdt st)) - sizeof_sdt_header) div (if acpi_version_2 st then 8 else 4);
          entry = (\<lambda>i. phys_to_hh (ucast (rsdt_entry m (rsdt st) (of_nat i))))
      in case for_find (\<lambda>i. Some (sdt_validate_sig m (entry i) sig \<and> sdt_validate_checksum m (entry i)))
             0 (unat num_entries) of
           Some (Some i) \<Rightarrow> entry i
         | _ \<Rightarrow> 0)"

section \<open>The MADT\<close>

text \<open>\<open>tbl[idx++] = ptr\<close>, for the array number \<open>k\<close>: a fault if its allocation failed or it is full.\<close>

definition tbl_push :: "nat \<Rightarrow> acpi \<Rightarrow> u64 list \<Rightarrow> u64 \<Rightarrow> u64 list option" where
  "tbl_push k st tbl ptr =
     (if tbl_addrs st ! k \<noteq> - 1 \<and> length tbl < unat (ACPI_APIC_TBL_SIZE div 8) then Some (tbl @ [ptr]) else None)"

definition madt_record :: "u8 \<Rightarrow> u64 \<Rightarrow> acpi \<Rightarrow> acpi option" where
  "madt_record type ptr st =
     (if type = PROCESSOR_LOCAL_APIC then
        map_option (\<lambda>t. st\<lparr>proc_apic_tbl := t\<rparr>) (tbl_push 0 st (proc_apic_tbl st) ptr)
      else if type = IO_APIC then
        map_option (\<lambda>t. st\<lparr>io_apic_tbl := t\<rparr>) (tbl_push 1 st (io_apic_tbl st) ptr)
      else if type = IO_APIC_INTERRUPT_SRC_OVERRIDE then
        map_option (\<lambda>t. st\<lparr>ioso_apic_tbl := t\<rparr>) (tbl_push 2 st (ioso_apic_tbl st) ptr)
      else if type = IO_APIC_NMI_SRC then
        map_option (\<lambda>t. st\<lparr>ionmi_apic_tbl := t\<rparr>) (tbl_push 3 st (ionmi_apic_tbl st) ptr)
      else if type = LOCAL_APIC_NMI then
        map_option (\<lambda>t. st\<lparr>nmi_lapic_tbl := t\<rparr>) (tbl_push 4 st (nmi_lapic_tbl st) ptr)
      else if type = LOCAL_APIC_ADDR_OVERRIDE then
        map_option (\<lambda>t. st\<lparr>addro_lapic_tbl := t\<rparr>) (tbl_push 5 st (addro_lapic_tbl st) ptr)
      else if type = PROCESSOR_LOCAL_X2_APIC then
        map_option (\<lambda>t. st\<lparr>procx2_lapic_tbl := t\<rparr>) (tbl_push 6 st (procx2_lapic_tbl st) ptr)
      else Some st)"

partial_function (option) madt_loop :: "mem \<Rightarrow> u64 \<Rightarrow> u64 \<Rightarrow> acpi \<Rightarrow> acpi option" where
  "madt_loop m max_madt_addr ptr st =
     (if ptr < max_madt_addr then
        Option.bind (madt_record (m ptr) ptr st)
          (madt_loop m max_madt_addr (ptr + ucast (m (ptr + 1))))
      else Some st)"

declare madt_loop.simps [code]

text \<open>The seven arrays; an allocation that fails is not noticed.\<close>

definition alloc_tables :: "heap \<Rightarrow> (u64 list \<times> heap) option" where
  "alloc_tables h =
     for_range (\<lambda>i (ps, h). map_option (\<lambda>(p, h). (ps @ [p], h)) (malloc ACPI_APIC_TBL_SIZE h)) 0 7 ([], h)"

definition madt_init :: "mem \<Rightarrow> u64 \<Rightarrow> acpi \<times> heap \<Rightarrow> (acpi \<times> heap + acpi \<times> heap) option" where
  "madt_init m sig = (\<lambda>(st, h).
     let st = st\<lparr>madt := acpi_find_sdt_tbl m st sig\<rparr> in
     if madt st = 0 then Some (Inl (st, h))
     else
       Option.bind (alloc_tables h) (\<lambda>(ps, h).
         map_option (\<lambda>st. Inr (st, h))
           (madt_loop m (madt st + ucast (sdt_length m (madt st))) (madt_table (madt st)) (st\<lparr>tbl_addrs := ps\<rparr>))))"

section \<open>Start-up\<close>

definition acpi_mem :: "(u64 \<Rightarrow> u64) \<Rightarrow> vm \<Rightarrow> mem" where
  "acpi_mem tr v = (\<lambda>a. vmem v (tr a))"

text \<open>The loop that maps the pages of the RSDT; its bound is read from the table each time.\<close>

partial_function (option) map_rsdt_loop :: "(u64 \<Rightarrow> u64) \<Rightarrow> u64 \<Rightarrow> acpi \<Rightarrow> u64 \<Rightarrow> vm \<Rightarrow> vm option" where
  "map_rsdt_loop tr root st i v =
     (if i < align_up (ucast (sdt_length (acpi_mem tr v) (rsdt st))) then
        Option.bind
          (vmm_map_page tr root (ucast (rsdp_rsdt_addr (acpi_mem tr v) (rsdp st)) + i) (rsdt st + i)
             (PTE_PRESENT OR PTE_READ_WRITE) v)
          (map_rsdt_loop tr root st (i + PAGE_SIZE))
      else Some v)"

declare map_rsdt_loop.simps [code]

text \<open>\<open>sig_rsdt\<close> and \<open>sig_apic\<close> are the addresses of the two string literals.\<close>

definition acpi_init ::
  "(u64 \<Rightarrow> u64) \<Rightarrow> u64 \<Rightarrow> u64 \<Rightarrow> u64 \<Rightarrow> u64 \<Rightarrow> acpi \<times> heap \<times> vm \<Rightarrow>
     (acpi \<times> heap \<times> vm + acpi \<times> heap \<times> vm) option" where
  "acpi_init tr root rsdp_address sig_rsdt sig_apic = (\<lambda>(st, h, v).
     if \<not> rsdp_validate_checksum (acpi_mem tr v) rsdp_address then Some (Inl (st, h, v))
     else
       let st = st\<lparr>rsdp := rsdp_address\<rparr>;
           parse = (\<lambda>st v. map_option (map_sum (\<lambda>(st, h). (st, h, v)) (\<lambda>(st, h). (st, h, v)))
                      (madt_init (acpi_mem tr v) sig_apic (st, h)))
       in if 2 \<le> rsdp_revision (acpi_mem tr v) rsdp_address then parse (st\<lparr>acpi_version_2 := True\<rparr>) v
          else
            let st = st\<lparr>rsdt := phys_to_hh (ucast (rsdp_rsdt_addr (acpi_mem tr v) rsdp_address))\<rparr>
            in Option.bind (map_rsdt_loop tr root st 0 v) (\<lambda>v.
                 if \<not> sdt_validate_sig (acpi_mem tr v) (rsdt st) sig_rsdt \<or>
                    \<not> sdt_validate_checksum (acpi_mem tr v) (rsdt st)
                 then Some (Inl (st, h, v))
                 else parse st v))"

section \<open>Checksums and signatures\<close>

lemma byte_sum_Suc: "byte_sum m p (Suc n) = byte_sum m p n + m (p + of_nat n)"
  by (simp add: byte_sum_def)

lemma unat_byte_sum: "unat (byte_sum m p n) = (\<Sum>i<n. unat (m (p + of_nat i))) mod 256"
proof (induction n)
  case 0
  then show ?case by (simp add: byte_sum_def)
next
  case (Suc n)
  have "unat (byte_sum m p (Suc n)) = (unat (byte_sum m p n) + unat (m (p + of_nat n))) mod 256"
    by (simp add: byte_sum_Suc unat_word_ariths)
  then show ?case by (simp add: Suc mod_simps)
qed

definition checksum_ok :: "mem \<Rightarrow> u64 \<Rightarrow> nat \<Rightarrow> bool" where
  "checksum_ok m p n \<longleftrightarrow> 256 dvd (\<Sum>i<n. unat (m (p + of_nat i)))"

lemma byte_sum_zero: "byte_sum m p n AND 0xFF = 0 \<longleftrightarrow> checksum_ok m p n"
proof -
  have "(0xFF :: u8) = - 1" by simp
  then have "byte_sum m p n AND 0xFF = byte_sum m p n" by (simp only: and.right_neutral)
  moreover have "byte_sum m p n = 0 \<longleftrightarrow> unat (byte_sum m p n) = 0" by (simp add: unat_eq_0)
  ultimately show ?thesis by (simp only: unat_byte_sum checksum_ok_def mod_eq_0_iff_dvd)
qed

lemma checksums:
  "rsdp_validate_checksum m p \<longleftrightarrow> checksum_ok m p 20"
  "sdt_validate_checksum m p \<longleftrightarrow> checksum_ok m p (unat (sdt_length m p))"
  unfolding rsdp_validate_checksum_def sdt_validate_checksum_def byte_sum_zero CHECKSUM_VALIDATE_SIZE_def by simp_all

lemma memcmp_from_zero: "memcmp_from p q is m = 0 \<longleftrightarrow> (\<forall>i \<in> set is. m (p + of_nat i) = m (q + of_nat i))"
  by (induction "is") auto

lemma sdt_validate_sig_iff:
  "sdt_validate_sig m p q \<longleftrightarrow> (\<forall>i<4. m (p + of_nat i) = m (q + of_nat i))"
  by (auto simp: sdt_validate_sig_def memcmp_def memcmp_from_zero SDT_SIG_LEN_def)

definition good_table :: "mem \<Rightarrow> u64 \<Rightarrow> u64 \<Rightarrow> bool" where
  "good_table m sig p \<longleftrightarrow> (\<forall>i<4. m (p + of_nat i) = m (sig + of_nat i)) \<and> checksum_ok m p (unat (sdt_length m p))"

definition rsdt_pointer :: "mem \<Rightarrow> u64 \<Rightarrow> nat \<Rightarrow> u64" where
  "rsdt_pointer m p i = phys_to_hh (ucast (rsdt_entry m p (of_nat i)))"

text \<open>
  Lookup in a version 1 table: \<open>acpi_find_sdt_tbl\<close> returns the first table of the RSDT that
  has the four bytes of the signature and whose bytes, as many as its header says, add up to 0
  modulo 256; if there is none, it returns \<open>NULL\<close>.
\<close>

theorem acpi_find_sdt_tbl_first:
  assumes "\<not> acpi_version_2 st" and "sdt_length m (rsdt st) = of_nat (36 + 4 * n)" and "n < 2 ^ 29"
  shows "(\<forall>i<n. good_table m sig (rsdt_pointer m (rsdt st) i) \<and>
           (\<forall>j<i. \<not> good_table m sig (rsdt_pointer m (rsdt st) j)) \<longrightarrow>
         acpi_find_sdt_tbl m st sig = rsdt_pointer m (rsdt st) i) \<and>
     ((\<forall>i<n. \<not> good_table m sig (rsdt_pointer m (rsdt st) i)) \<longrightarrow> acpi_find_sdt_tbl m st sig = 0)"
proof -
  let ?P = "\<lambda>i. good_table m sig (rsdt_pointer m (rsdt st) i)"
  have "36 + 4 * n < 2 ^ 32" using assms(3) by simp
  then have "(ucast (sdt_length m (rsdt st)) :: u64) = of_nat (36 + 4 * n)"
    unfolding assms(2) by (subst unsigned_of_nat) (simp add: take_bit_nat_eq_self)
  then have "(ucast (sdt_length m (rsdt st)) - sizeof_sdt_header :: u64) = of_nat (4 * n)"
    by (simp add: sizeof_sdt_header_def)
  moreover have "(of_nat (4 * n) :: u64) div of_nat 4 = of_nat (4 * n div 4)"
    using assms(3) by (intro of_nat_div64) simp_all
  ultimately have n: "unat ((ucast (sdt_length m (rsdt st)) - sizeof_sdt_header :: u64) div 4) = n"
    using assms(3) by (simp add: unat_of_nat64)
  have eq: "acpi_find_sdt_tbl m st sig =
      (case for_find (\<lambda>i. Some (?P i)) 0 n of Some (Some i) \<Rightarrow> rsdt_pointer m (rsdt st) i | _ \<Rightarrow> 0)"
    unfolding acpi_find_sdt_tbl_def Let_def if_not_P [OF assms(1)] n rsdt_pointer_def [symmetric]
      sdt_validate_sig_iff checksums good_table_def [symmetric] ..
  show ?thesis
  proof (intro conjI allI impI)
    fix i assume "i < n" and i: "?P i \<and> (\<forall>j<i. \<not> ?P j)"
    then have "for_find (\<lambda>i. Some (?P i)) 0 n = Some (Some i)" by (intro for_find_hit) auto
    then show "acpi_find_sdt_tbl m st sig = rsdt_pointer m (rsdt st) i" by (simp add: eq)
  next
    assume "\<forall>i<n. \<not> ?P i"
    then have "for_find (\<lambda>i. Some (?P i)) 0 n = Some None" by (intro for_find_none) auto
    then show "acpi_find_sdt_tbl m st sig = 0" by (simp add: eq)
  qed
qed

section \<open>Parsing the MADT\<close>

definition known_types :: "u8 list" where
  "known_types = [PROCESSOR_LOCAL_APIC, IO_APIC, IO_APIC_INTERRUPT_SRC_OVERRIDE, IO_APIC_NMI_SRC,
     LOCAL_APIC_NMI, LOCAL_APIC_ADDR_OVERRIDE, PROCESSOR_LOCAL_X2_APIC]"

definition tbl_of :: "acpi \<Rightarrow> u8 \<Rightarrow> u64 list" where
  "tbl_of st t =
     (if t = PROCESSOR_LOCAL_APIC then proc_apic_tbl st
      else if t = IO_APIC then io_apic_tbl st
      else if t = IO_APIC_INTERRUPT_SRC_OVERRIDE then ioso_apic_tbl st
      else if t = IO_APIC_NMI_SRC then ionmi_apic_tbl st
      else if t = LOCAL_APIC_NMI then nmi_lapic_tbl st
      else if t = LOCAL_APIC_ADDR_OVERRIDE then addro_lapic_tbl st
      else if t = PROCESSOR_LOCAL_X2_APIC then procx2_lapic_tbl st
      else [])"

lemma madt_record_known:
  assumes "t \<in> set known_types" and "length (tbl_of st t) < 32" and "\<forall>k<7. tbl_addrs st ! k \<noteq> - 1"
  shows "\<exists>st'. madt_record t ptr st = Some st' \<and> tbl_of st' = (tbl_of st)(t := tbl_of st t @ [ptr]) \<and>
     madt st' = madt st \<and> tbl_addrs st' = tbl_addrs st"
  using assms
  by (auto simp: known_types_def madt_record_def tbl_of_def madt_types tbl_push_def ACPI_APIC_TBL_SIZE_def fun_eq_iff)

lemma madt_record_unknown: "t \<notin> set known_types \<Longrightarrow> madt_record t ptr st = Some st"
  by (auto simp: known_types_def madt_record_def)

text \<open>The records as lists of bytes: the type, the length, and the rest.\<close>

definition madt_wf :: "u8 list \<Rightarrow> bool" where
  "madt_wf r \<longleftrightarrow> 2 \<le> length r \<and> length r < 256 \<and> r ! 1 = of_nat (length r)"

definition bytes_at :: "mem \<Rightarrow> u64 \<Rightarrow> u8 list \<Rightarrow> bool" where
  "bytes_at m p bs \<longleftrightarrow> (\<forall>i<length bs. m (p + of_nat i) = bs ! i)"

fun records_from :: "u64 \<Rightarrow> u8 list list \<Rightarrow> (u8 \<times> u64) list" where
  "records_from p [] = []"
| "records_from p (r # rs) = (hd r, p) # records_from (p + of_nat (length r)) rs"

definition of_type :: "u8 \<Rightarrow> u64 \<Rightarrow> u8 list list \<Rightarrow> u64 list" where
  "of_type t p rs = map snd (filter (\<lambda>x. fst x = t) (records_from p rs))"

lemma bytes_at_append:
  "bytes_at m p (xs @ ys) \<longleftrightarrow> bytes_at m p xs \<and> bytes_at m (p + of_nat (length xs)) ys"
proof -
  have "bytes_at m p (xs @ ys) \<Longrightarrow> i < length ys \<Longrightarrow> m (p + of_nat (length xs) + of_nat i) = ys ! i" for i
    unfolding bytes_at_def by (drule spec [of _ "length xs + i"]) (simp add: ac_simps nth_append)
  moreover have "m (p + of_nat i) = (xs @ ys) ! i"
    if "bytes_at m p xs" "bytes_at m (p + of_nat (length xs)) ys" "i < length (xs @ ys)" for i
  proof (cases "i < length xs")
    case False
    then obtain j where "i = length xs + j" by (metis le_add_diff_inverse not_less)
    then show ?thesis using that by (simp add: bytes_at_def ac_simps nth_append)
  qed (use that in \<open>simp add: bytes_at_def nth_append\<close>)
  ultimately show ?thesis by (auto simp: bytes_at_def nth_append)
qed

lemma of_type_Cons: "of_type t p (r # rs) = (if hd r = t then [p] else []) @ of_type t (p + of_nat (length r)) rs"
  by (simp add: of_type_def)

lemma madt_loop_parses:
  assumes "\<forall>r \<in> set rs. madt_wf r" and "bytes_at m p (concat rs)" and "unat p + length (concat rs) < 2 ^ 64"
    and "\<forall>t \<in> set known_types. length (tbl_of st t) + length (of_type t p rs) \<le> 32"
    and "\<forall>k<7. tbl_addrs st ! k \<noteq> - 1"
  shows "\<exists>st'. madt_loop m (p + of_nat (length (concat rs))) p st = Some st' \<and> madt st' = madt st \<and>
     (\<forall>t \<in> set known_types. tbl_of st' t = tbl_of st t @ of_type t p rs)"
  using assms
proof (induction rs arbitrary: p st)
  case Nil
  then show ?case by (subst madt_loop.simps) (simp add: of_type_def)
next
  case (Cons r rs)
  let ?n = "length (concat (r # rs))" and ?q = "p + of_nat (length r)"
  have r: "2 \<le> length r" "length r < 256" "r ! 1 = of_nat (length r)"
    using Cons.prems(1) by (auto simp: madt_wf_def)
  have at: "bytes_at m p r" "bytes_at m ?q (concat rs)"
    using Cons.prems(2) by (auto simp: bytes_at_append)
  have "m (p + of_nat 0) = r ! 0" "m (p + of_nat 1) = r ! 1"
    using at(1) r(1) unfolding bytes_at_def by (metis Suc_1 Suc_le_eq less_trans zero_less_one One_nat_def lessI less_le_trans zero_less_numeral)+
  then have b: "m p = hd r" "m (p + 1) = of_nat (length r)"
    using r by (cases r; simp)+
  have len: "?n = length r + length (concat rs)" by simp
  have u: "unat (p + of_nat ?n) = unat p + ?n" "unat ?q = unat p + length r"
    using Cons.prems(3) unfolding len by (simp_all add: unat_word_ariths unat_of_nat64)
  have "unat p < unat (p + of_nat ?n)" using u(1) r(1) len by linarith
  then have "p < p + of_nat ?n" by (simp only: word_less_nat_alt)
  then have step: "madt_loop m (p + of_nat ?n) p st =
      Option.bind (madt_record (hd r) p st) (madt_loop m (p + of_nat ?n) ?q)"
    using b by (subst madt_loop.simps) (simp add: unsigned_of_nat take_bit_nat_eq_self r(2))
  have max: "p + of_nat ?n = ?q + of_nat (length (concat rs))" unfolding len by simp
  obtain s1 where s1: "madt_record (hd r) p st = Some s1" "madt s1 = madt st" "tbl_addrs s1 = tbl_addrs st"
    "\<forall>t \<in> set known_types. tbl_of s1 t = tbl_of st t @ (if hd r = t then [p] else [])"
  proof (cases "hd r \<in> set known_types")
    case True
    then have "length (tbl_of st (hd r)) < 32" using Cons.prems(4) by (force simp: of_type_Cons)
    from madt_record_known [OF True this Cons.prems(5), of p] that show ?thesis by auto
  next
    case False
    have "\<forall>t \<in> set known_types. tbl_of st t = tbl_of st t @ (if hd r = t then [p] else [])" using False by auto
    with madt_record_unknown [OF False] show ?thesis by (intro that [of st]) simp_all
  qed
  have "\<exists>st'. madt_loop m (?q + of_nat (length (concat rs))) ?q s1 = Some st' \<and> madt st' = madt s1 \<and>
     (\<forall>t \<in> set known_types. tbl_of st' t = tbl_of s1 t @ of_type t ?q rs)"
  proof (rule Cons.IH [OF _ at(2)])
    show "unat ?q + length (concat rs) < 2 ^ 64" using Cons.prems(3) u(2) by simp
    show "\<forall>t \<in> set known_types. length (tbl_of s1 t) + length (of_type t ?q rs) \<le> 32"
      using Cons.prems(4) s1(4) by (auto simp: of_type_Cons)
  qed (use Cons.prems(1,5) s1(3) in simp_all)
  then show ?case using s1 unfolding step unfolding max by (auto simp: of_type_Cons)
qed

text \<open>The seven allocations succeed on a heap whose upper part is free.\<close>

lemma alloc_tables_total:
  assumes "heap_wf h" and "aligned8 (heap_addr h)" and "clear_from h (64 * w)" and "64 * (w + 7) \<le> 6553600"
    and "112 \<le> unat (free_blocks h)"
  shows "\<exists>ps h'. alloc_tables h = Some (ps, h') \<and> length ps = 7 \<and> - 1 \<notin> set ps \<and> heap_wf h'"
proof -
  define inv where "inv = (\<lambda>k (ps :: u64 list, g). heap_wf g \<and> clear_from g (64 * (w + k)) \<and> heap_addr g = heap_addr h \<and>
      unat (free_blocks g) + 16 * k = unat (free_blocks h) \<and> length ps = k \<and> - 1 \<notin> set ps)"
  have "\<exists>r. alloc_tables h = Some r \<and> inv 7 r"
    unfolding alloc_tables_def
  proof (rule for_range_total)
    show "inv 0 ([], h)" using assms by (simp add: inv_def)
  next
    fix k t assume "k < 7" and i: "inv k t"
    obtain ps g where t: "t = (ps, g)" "heap_wf g" "clear_from g (64 * (w + k))" "heap_addr g = heap_addr h"
      "unat (free_blocks g) + 16 * k = unat (free_blocks h)" "length ps = k" "- 1 \<notin> set ps"
      using i by (cases t) (auto simp: inv_def)
    have b: "blocks_of ACPI_APIC_TBL_SIZE = 16" by (simp add: blocks_of_def ACPI_APIC_TBL_SIZE_def)
    obtain s g' where m: "malloc ACPI_APIC_TBL_SIZE g = Some (heap_addr g + of_nat (128 * s), g')" "s \<le> 64 * (w + k)"
      "heap_wf g'" "clear_from g' (64 * (w + k + 1))" "heap_addr g' = heap_addr g"
      "unat (free_blocks g') = unat (free_blocks g) - 16"
      using malloc_clear [OF t(2,3), of ACPI_APIC_TBL_SIZE] assms(4,5) t(5) \<open>k < 7\<close> unfolding b by auto
    have lt: "128 * s < 128 * 6553600" using m(2) assms(4) \<open>k < 7\<close> by simp
    then have u: "unat (of_nat (128 * s) :: u64) = 128 * s" by (intro unat_of_nat64) simp
    have "unat (heap_addr g) + 128 * s < 2 ^ 64" using t(2) lt unfolding heap_wf_def by linarith
    then have "unat (heap_addr g + of_nat (128 * s)) = unat (heap_addr g) + 128 * s"
      using unat_add_lem [of "heap_addr g" "of_nat (128 * s)"] unfolding u by simp
    then have "unat (heap_addr g + of_nat (128 * s)) mod 8 = 0"
      using assms(2) t(4) by (simp add: aligned8_def mod_eq_0_iff_dvd)
    moreover have "unat (- 1 :: u64) mod 8 \<noteq> 0" by (simp add: unsigned_minus_1_eq_mask mask_eq_exp_minus_1)
    ultimately have "heap_addr g + of_nat (128 * s) \<noteq> - 1" by metis
    moreover have "16 \<le> unat (free_blocks g)" using t(5) assms(5) \<open>k < 7\<close> by linarith
    ultimately show "\<exists>t'. (case t of (ps, h) \<Rightarrow> map_option (\<lambda>(p, h). (ps @ [p], h)) (malloc ACPI_APIC_TBL_SIZE h)) = Some t' \<and> inv (Suc k) t'"
      using m t by (simp add: inv_def ac_simps)
  qed simp
  then show ?thesis by (auto simp: inv_def)
qed

text \<open>
  C18 The MADT is parsed in full: from a table found by its signature whose body is a sequence of
  well-formed records, at most 32 of each kind, and with room on the heap for the arrays,
  \<open>madt_init\<close> returns, and each of the seven arrays then holds the addresses of exactly the
  records of its type, in order.
\<close>

theorem madt_init_parses:
  assumes "acpi_find_sdt_tbl m st sig = p" and "p \<noteq> 0" and "\<forall>r \<in> set rs. madt_wf r"
    and "bytes_at m (madt_table p) (concat rs)" and "sdt_length m p = of_nat (44 + length (concat rs))"
    and "44 + length (concat rs) < 2 ^ 32" and "unat p + 44 + length (concat rs) < 2 ^ 64"
    and "\<forall>t \<in> set known_types. tbl_of st t = [] \<and> length (of_type t (madt_table p) rs) \<le> 32"
    and "heap_wf h" and "aligned8 (heap_addr h)" and "clear_from h (64 * w)" and "64 * (w + 7) \<le> 6553600"
    and "112 \<le> unat (free_blocks h)"
  shows "\<exists>st' h'. madt_init m sig (st, h) = Some (Inr (st', h')) \<and> madt st' = p \<and> heap_wf h' \<and>
     (\<forall>t \<in> set known_types. tbl_of st' t = of_type t (madt_table p) rs)"
proof -
  obtain ps h' where ps: "alloc_tables h = Some (ps, h')" "length ps = 7" "- 1 \<notin> set ps" "heap_wf h'"
    using alloc_tables_total [OF assms(9-13)] by blast
  let ?s = "st\<lparr>madt := p, tbl_addrs := ps\<rparr>"
  have "(ucast (sdt_length m p) :: u64) = of_nat (44 + length (concat rs))"
    unfolding assms(5) using assms(6) by (subst unsigned_of_nat) (simp add: take_bit_nat_eq_self)
  then have max: "p + ucast (sdt_length m p) = madt_table p + of_nat (length (concat rs))"
    by (simp add: madt_table_def)
  have "unat (madt_table p) = unat p + 44"
    using assms(7) by (simp add: madt_table_def unat_word_ariths)
  moreover have tbl: "tbl_of ?s t = tbl_of st t" for t by (simp add: tbl_of_def)
  moreover have "\<forall>k<7. tbl_addrs ?s ! k \<noteq> - 1" 
  proof (intro allI impI)
    fix k :: nat assume "k < 7"
    then have "ps ! k \<in> set ps" using ps(2) by simp
    then show "tbl_addrs ?s ! k \<noteq> - 1" using ps(3) by auto
  qed
  ultimately have "\<exists>st'. madt_loop m (madt_table p + of_nat (length (concat rs))) (madt_table p) ?s = Some st' \<and>
     madt st' = madt ?s \<and> (\<forall>t \<in> set known_types. tbl_of st' t = tbl_of ?s t @ of_type t (madt_table p) rs)"
    using assms(3,4,7,8) by (intro madt_loop_parses) auto
  then show ?thesis
    using assms(1,2,8) ps(1,4) by (auto simp: madt_init_def max tbl)
qed

text \<open>
  A record of length 0 is never left: if the walk reaches one before the end of the table,
  \<open>madt_init\<close> does not return (it loops, or, for a known type, overruns the array).
\<close>

lemma madt_loop_zero:
  assumes "madt_loop m mx ptr st = Some r"
  shows "\<not> (ptr < mx \<and> m (ptr + 1) = 0)"
proof (rule madt_loop.raw_induct [where P = "\<lambda>m mx ptr st r. \<not> (ptr < mx \<and> m (ptr + 1) = 0)", OF _ assms])
  fix loop :: "mem \<Rightarrow> u64 \<Rightarrow> u64 \<Rightarrow> acpi \<Rightarrow> acpi option" and m mx ptr st r
  assume IH: "\<And>m mx ptr st r. loop m mx ptr st = Some r \<Longrightarrow> \<not> (ptr < mx \<and> m (ptr + 1) = 0)"
    and body: "(if ptr < mx then Option.bind (madt_record (m ptr) ptr st) (loop m mx (ptr + ucast (m (ptr + 1))))
      else Some st) = Some r"
  show "\<not> (ptr < mx \<and> m (ptr + 1) = 0)"
  proof
    assume z: "ptr < mx \<and> m (ptr + 1) = 0"
    then obtain s1 where "loop m mx ptr s1 = Some r"
      using body by (auto simp: Option.bind_eq_Some_conv)
    with IH z show False by blast
  qed
qed

theorem madt_zero_length_hangs:
  assumes "acpi_find_sdt_tbl m st sig = p" and "p \<noteq> 0"
    and "madt_table p < p + ucast (sdt_length m p)" and "m (madt_table p + 1) = 0"
  shows "madt_init m sig (st, h) = None"
proof -
  have "madt_loop m (p + ucast (sdt_length m p)) (madt_table p) s = None" for s
    using madt_loop_zero [of m "p + ucast (sdt_length m p)" "madt_table p" s] assms(3,4)
    by (cases "madt_loop m (p + ucast (sdt_length m p)) (madt_table p) s") auto
  then show ?thesis
    using assms(1,2) by (auto simp: madt_init_def bind_eq_None_conv split: prod.splits)
qed

text \<open>An image of the firmware's memory: the RSDT, the MADT it points to and the signature.\<close>

definition firmware_image :: "u8 list" where
  "firmware_image =
     [0x52, 0x53, 0x44, 0x54, 40, 0, 0, 0, 1, 0] @ replicate 26 0 @ [40, 0, 0, 0] @
     [0x41, 0x50, 0x49, 0x43, 74, 0, 0, 0, 1, 0xd4] @ replicate 26 0 @ [0, 0, 0xe0, 0xfe, 1, 0, 0, 0] @
     [0, 8, 1, 0, 1, 0, 0, 0] @ [1, 12, 2, 0, 0, 0, 0xc0, 0xfe, 0, 0, 0, 0] @ [2, 10, 0, 0, 2, 0, 0, 0, 0, 0] @
     [0x41, 0x50, 0x49, 0x43]"

definition firmware_mem :: mem where
  "firmware_mem a =
     (let i = unat (a - KERNEL_VIRT_BASE_ADDR) in if i < length firmware_image then firmware_image ! i else 0)"

definition acpi_ex :: acpi where
  "acpi_ex = \<lparr>rsdp = 0, rsdt = KERNEL_VIRT_BASE_ADDR, acpi_version_2 = False, madt = 0, tbl_addrs = [],
     proc_apic_tbl = [], io_apic_tbl = [], ioso_apic_tbl = [], ionmi_apic_tbl = [], nmi_lapic_tbl = [],
     addro_lapic_tbl = [], procx2_lapic_tbl = []\<rparr>"

lemma firmware_find: "acpi_find_sdt_tbl firmware_mem acpi_ex (KERNEL_VIRT_BASE_ADDR + 114) = KERNEL_VIRT_BASE_ADDR + 40"
  by code_simp

definition firmware_records :: "u8 list list" where
  "firmware_records = [[0, 8, 1, 0, 1, 0, 0, 0], [1, 12, 2, 0, 0, 0, 0xc0, 0xfe, 0, 0, 0, 0], [2, 10, 0, 0, 2, 0, 0, 0, 0, 0]]"

lemma firmware_bytes: "bytes_at firmware_mem (madt_table (KERNEL_VIRT_BASE_ADDR + 40)) (concat firmware_records)"
proof -
  have "list_all (\<lambda>i. firmware_mem (madt_table (KERNEL_VIRT_BASE_ADDR + 40) + of_nat i) = concat firmware_records ! i) [0..<30]"
    by code_simp
  moreover have "length (concat firmware_records) = 30" by (simp add: firmware_records_def)
  ultimately show ?thesis by (simp add: bytes_at_def list_all_iff)
qed

theorem madt_init_parses_witness:
  "\<exists>st' h'. madt_init firmware_mem (KERNEL_VIRT_BASE_ADDR + 114) (acpi_ex, heap_ex) = Some (Inr (st', h')) \<and>
     io_apic_tbl st' = [KERNEL_VIRT_BASE_ADDR + 92] \<and> ioso_apic_tbl st' = [KERNEL_VIRT_BASE_ADDR + 104]"
proof -
  let ?p = "KERNEL_VIRT_BASE_ADDR + 40"
  have "\<exists>st' h'. madt_init firmware_mem (KERNEL_VIRT_BASE_ADDR + 114) (acpi_ex, heap_ex) = Some (Inr (st', h')) \<and>
     madt st' = ?p \<and> heap_wf h' \<and> (\<forall>t \<in> set known_types. tbl_of st' t = of_type t (madt_table ?p) firmware_records)"
  proof (rule madt_init_parses [where w = 0, OF firmware_find])
    show "sdt_length firmware_mem ?p = of_nat (44 + length (concat firmware_records))" by code_simp
    show "\<forall>t \<in> set known_types. tbl_of acpi_ex t = [] \<and> length (of_type t (madt_table ?p) firmware_records) \<le> 32"
      by code_simp
    show "\<forall>r \<in> set firmware_records. madt_wf r" by code_simp
    show "clear_from heap_ex (64 * 0)" by (simp add: clear_from_def)
    show "aligned8 (heap_addr heap_ex)" by (simp add: heap_ex_def aligned8_def)
    show "unat ?p + 44 + length (concat firmware_records) < 2 ^ 64"
      by (simp add: KERNEL_VIRT_BASE_ADDR_def firmware_records_def)
    show "bytes_at firmware_mem (madt_table ?p) (concat firmware_records)" by (rule firmware_bytes)
  qed (simp_all add: KERNEL_VIRT_BASE_ADDR_def firmware_records_def)
  then obtain st' h' where s: "madt_init firmware_mem (KERNEL_VIRT_BASE_ADDR + 114) (acpi_ex, heap_ex) = Some (Inr (st', h'))"
    "\<forall>t \<in> set known_types. tbl_of st' t = of_type t (madt_table ?p) firmware_records" by blast
  then have "io_apic_tbl st' = of_type 1 (madt_table ?p) firmware_records"
    "ioso_apic_tbl st' = of_type 2 (madt_table ?p) firmware_records"
    by (auto simp: known_types_def tbl_of_def madt_types)
  moreover have "of_type 1 (madt_table ?p) firmware_records = [KERNEL_VIRT_BASE_ADDR + 92]"
    "of_type 2 (madt_table ?p) firmware_records = [KERNEL_VIRT_BASE_ADDR + 104]" by code_simp+
  ultimately show ?thesis using s(1) by auto
qed

lemma firmware_madt_good: "good_table firmware_mem (KERNEL_VIRT_BASE_ADDR + 114) (KERNEL_VIRT_BASE_ADDR + 40)"
proof -
  have "sdt_validate_sig firmware_mem (KERNEL_VIRT_BASE_ADDR + 40) (KERNEL_VIRT_BASE_ADDR + 114)"
    "sdt_validate_checksum firmware_mem (KERNEL_VIRT_BASE_ADDR + 40)" by code_simp+
  then show ?thesis unfolding good_table_def sdt_validate_sig_iff checksums by blast
qed

theorem acpi_find_sdt_tbl_first_witness:
  "acpi_find_sdt_tbl firmware_mem acpi_ex (KERNEL_VIRT_BASE_ADDR + 114) = KERNEL_VIRT_BASE_ADDR + 40"
proof -
  have "rsdt_pointer firmware_mem (rsdt acpi_ex) 0 = KERNEL_VIRT_BASE_ADDR + 40"
    "sdt_length firmware_mem (rsdt acpi_ex) = of_nat (36 + 4 * 1)" by code_simp+
  moreover have "\<not> acpi_version_2 acpi_ex" by (simp add: acpi_ex_def)
  ultimately show ?thesis
    using acpi_find_sdt_tbl_first [of acpi_ex firmware_mem 1 "KERNEL_VIRT_BASE_ADDR + 114"] firmware_madt_good by simp
qed

theorem madt_zero_length_hangs_witness:
  "madt_init (firmware_mem(KERNEL_VIRT_BASE_ADDR + 85 := 0, KERNEL_VIRT_BASE_ADDR + 49 := 0xdc))
     (KERNEL_VIRT_BASE_ADDR + 114) (acpi_ex, heap_ex) = None"
proof (rule madt_zero_length_hangs [where p = "KERNEL_VIRT_BASE_ADDR + 40"])
  let ?m = "firmware_mem(KERNEL_VIRT_BASE_ADDR + 85 := 0, KERNEL_VIRT_BASE_ADDR + 49 := 0xdc)"
  show "acpi_find_sdt_tbl ?m acpi_ex (KERNEL_VIRT_BASE_ADDR + 114) = KERNEL_VIRT_BASE_ADDR + 40"
    "KERNEL_VIRT_BASE_ADDR + 40 \<noteq> 0"
    "madt_table (KERNEL_VIRT_BASE_ADDR + 40) < KERNEL_VIRT_BASE_ADDR + 40 + ucast (sdt_length ?m (KERNEL_VIRT_BASE_ADDR + 40))"
    "?m (madt_table (KERNEL_VIRT_BASE_ADDR + 40) + 1) = 0"
    by code_simp+
qed

end
