(* ===== verification/Timer.thy ===== *)
theory Timer
  imports Acpi Ports
begin

text \<open>
  The local interrupt controller (devices/apic.c), the high precision event timer
  (devices/hpet.c) and the calibration of the local timer against it (devices/timer.c).
  Memory-mapped registers are a parameter, like ports: a record of what 32- and 64-bit
  accesses do to a state of any type.  The local timer's LVT entry is the field
  \<open>lvt_timer_reg\<close> of the \<open>ioapic\<close> record, because \<open>mask_irq\<close> works on it.  \<open>None\<close> is a poll
  that never ends, a division by zero, or a read past an empty array.
\<close>

section \<open>Memory-mapped registers\<close>

record 'd mmio =
  rd32 :: "u64 \<Rightarrow> 'd \<Rightarrow> u32 \<times> 'd"
  wr32 :: "u64 \<Rightarrow> u32 \<Rightarrow> 'd \<Rightarrow> 'd"
  rd64 :: "u64 \<Rightarrow> 'd \<Rightarrow> u64 \<times> 'd"
  wr64 :: "u64 \<Rightarrow> u64 \<Rightarrow> 'd \<Rightarrow> 'd"

definition mm_follows :: "('d \<Rightarrow> 'h) \<Rightarrow> 'd mmio \<Rightarrow> 'h mmio \<Rightarrow> bool" where
  "mm_follows view mm hw \<longleftrightarrow>
     (\<forall>a s. map_prod id view (rd32 mm a s) = rd32 hw a (view s)) \<and>
     (\<forall>a v s. view (wr32 mm a v s) = wr32 hw a v (view s)) \<and>
     (\<forall>a s. map_prod id view (rd64 mm a s) = rd64 hw a (view s)) \<and>
     (\<forall>a v s. view (wr64 mm a v s) = wr64 hw a v (view s))"

lemma mm_follows_simps:
  assumes "mm_follows view mm hw"
  shows "fst (rd32 mm a s) = fst (rd32 hw a (view s))" "view (snd (rd32 mm a s)) = snd (rd32 hw a (view s))"
    and "fst (rd64 mm a s) = fst (rd64 hw a (view s))" "view (snd (rd64 mm a s)) = snd (rd64 hw a (view s))"
    and "view (wr32 mm a v32 s) = wr32 hw a v32 (view s)" "view (wr64 mm a v64 s) = wr64 hw a v64 (view s)"
proof -
  have r: "map_prod id view (rd32 mm a s) = rd32 hw a (view s)" "map_prod id view (rd64 mm a s) = rd64 hw a (view s)"
    using assms by (simp_all add: mm_follows_def)
  show "fst (rd32 mm a s) = fst (rd32 hw a (view s))" "view (snd (rd32 mm a s)) = snd (rd32 hw a (view s))"
    using r(1) by (cases "rd32 mm a s"; cases "rd32 hw a (view s)"; simp)+
  show "fst (rd64 mm a s) = fst (rd64 hw a (view s))" "view (snd (rd64 mm a s)) = snd (rd64 hw a (view s))"
    using r(2) by (cases "rd64 mm a s"; cases "rd64 hw a (view s)"; simp)+
  show "view (wr32 mm a v32 s) = wr32 hw a v32 (view s)" "view (wr64 mm a v64 s) = wr64 hw a v64 (view s)"
    using assms by (simp_all add: mm_follows_def)
qed

lemma mm_follows_self: "mm_follows id hw hw"
  by (simp add: mm_follows_def map_prod.id)

section \<open>The local interrupt controller (apic.c)\<close>

record apic =
  lapic_id :: u64
  lapic_base :: u64

definition APIC_SPURIOUS_VECTOR_REG :: u32 where "APIC_SPURIOUS_VECTOR_REG = 0xf0"
definition APIC_ENABLE :: u32 where "APIC_ENABLE = push_bit 8 1"
definition SPURIOUS_INT :: u32 where "SPURIOUS_INT = 0xff"
definition LAPIC_ID_REG :: u32 where "LAPIC_ID_REG = 0x20"
definition CPUID_FEAT_EDX_APIC :: u32 where "CPUID_FEAT_EDX_APIC = push_bit 9 1"

record cpuid_registers =
  eax :: u32
  edx :: u32
  ecx :: u32
  ebx :: u32

definition lapic_write_reg :: "'d mmio \<Rightarrow> apic \<Rightarrow> u32 \<Rightarrow> u32 \<Rightarrow> 'd \<Rightarrow> 'd" where
  "lapic_write_reg mm a r data st = wr32 mm (lapic_base a + ucast r) data st"

definition lapic_read_reg :: "'d mmio \<Rightarrow> apic \<Rightarrow> u32 \<Rightarrow> 'd \<Rightarrow> u32 \<times> 'd" where
  "lapic_read_reg mm a r st = rd32 mm (lapic_base a + ucast r) st"

definition get_lapic_id :: "'d mmio \<Rightarrow> apic \<Rightarrow> 'd \<Rightarrow> u8 \<times> 'd" where
  "get_lapic_id mm a st = (let (v, st) = lapic_read_reg mm a LAPIC_ID_REG st in (ucast v, st))"

definition enable_lapic :: "'d mmio \<Rightarrow> apic \<Rightarrow> 'd \<Rightarrow> 'd" where
  "enable_lapic mm a st = lapic_write_reg mm a APIC_SPURIOUS_VECTOR_REG (APIC_ENABLE OR SPURIOUS_INT) st"

text \<open>What the processor answers to leaf 1; \<open>answer\<close> is the instruction.\<close>

definition cpuid_proc_feat_info :: "(u32 \<Rightarrow> u32 \<times> u32 \<times> u32 \<times> u32) \<Rightarrow> cpuid_registers" where
  "cpuid_proc_feat_info answer = (let (a, b, c, d) = answer 1 in \<lparr>eax = a, edx = d, ecx = c, ebx = b\<rparr>)"

text \<open>\<open>cpuid\<close> holds that answer.\<close>

definition is_apic_available :: "cpuid_registers \<Rightarrow> bool" where
  "is_apic_available cpuid = (edx cpuid AND CPUID_FEAT_EDX_APIC \<noteq> 0)"

text \<open>\<open>Inl\<close> is the halted machine; \<open>m\<close> the memory that holds the firmware's tables.\<close>

definition apic_init ::
  "'d device \<Rightarrow> 'd mmio \<Rightarrow> cpuid_registers \<Rightarrow> mem \<Rightarrow> acpi \<Rightarrow> apic \<times> 'd \<Rightarrow> (apic \<times> 'd + apic \<times> 'd) option" where
  "apic_init dev mm cpuid m tables = (\<lambda>(a, st).
     if \<not> is_apic_available cpuid then Some (Inl (a, st))
     else
       let a = a\<lparr>lapic_base := phys_to_hh (ucast (madt_lapic_addr m (madt tables)))\<rparr>;
           st = remap_pic dev st;
           st = disable_pic dev st;
           st = enable_lapic mm a st
       in map_option (\<lambda>p. Inr (a\<lparr>lapic_id := ucast (proc_apic_id m p)\<rparr>, st))
            (buf_get (proc_apic_tbl tables) 0))"

section \<open>The high precision event timer (hpet.c)\<close>

record hpet_vars =
  hpet :: u64
  hpet_table :: u64
  femto_per_tick :: u32
  ticks_per_microsecond :: u64

definition FEMTOSECONDS_PER_MICROSECOND :: u64 where "FEMTOSECONDS_PER_MICROSECOND = 1000000000"
definition ENABLE_HPET :: u64 where "ENABLE_HPET = 0x01"
definition ENABLE_LEGACY_REPLACE :: u64 where "ENABLE_LEGACY_REPLACE = 0x02"

text \<open>Offsets in \<open>struct hpet_table_t\<close> and \<open>struct hpet_t\<close>.\<close>

definition hpet_config :: "hpet_vars \<Rightarrow> u64" where "hpet_config h = hpet_table h + 0x10"
definition hpet_main_counter :: "hpet_vars \<Rightarrow> u64" where "hpet_main_counter h = hpet_table h + 0xf0"
definition hpet_address :: "mem \<Rightarrow> u64 \<Rightarrow> u64" where "hpet_address m p = read64 m (p + 44)"

definition reset_hpet_timer :: "'d mmio \<Rightarrow> hpet_vars \<Rightarrow> 'd \<Rightarrow> 'd" where
  "reset_hpet_timer mm h st = wr64 mm (hpet_main_counter h) 0 st"

definition start_hpet_timer :: "'d mmio \<Rightarrow> hpet_vars \<Rightarrow> 'd \<Rightarrow> 'd" where
  "start_hpet_timer mm h st =
     (let (c, st) = rd64 mm (hpet_config h) st in wr64 mm (hpet_config h) (c OR ENABLE_HPET) st)"

definition poll_ticks_hpet_timer :: "'d mmio \<Rightarrow> hpet_vars \<Rightarrow> 'd \<Rightarrow> u64 \<times> 'd" where
  "poll_ticks_hpet_timer mm h st = rd64 mm (hpet_main_counter h) st"

definition poll_time_hpet_timer :: "'d mmio \<Rightarrow> hpet_vars \<Rightarrow> 'd \<Rightarrow> u64 \<times> 'd" where
  "poll_time_hpet_timer mm h st =
     (let (c, st) = rd64 mm (hpet_main_counter h) st in (c * ucast (femto_per_tick h), st))"

partial_function (option) hpet_wait :: "'d mmio \<Rightarrow> hpet_vars \<Rightarrow> u64 \<Rightarrow> 'd \<Rightarrow> 'd option" where
  "hpet_wait mm h limit st =
     (let (t, st) = poll_time_hpet_timer mm h st
      in if t < limit then hpet_wait mm h limit st else Some st)"

declare hpet_wait.simps [code]

definition wait_10ms :: "'d mmio \<Rightarrow> hpet_vars \<Rightarrow> 'd \<Rightarrow> 'd option" where
  "wait_10ms mm h st =
     hpet_wait mm h (FEMTOSECONDS_PER_MICROSECOND * 10000) (start_hpet_timer mm h (reset_hpet_timer mm h st))"

definition usleep :: "'d mmio \<Rightarrow> hpet_vars \<Rightarrow> u64 \<Rightarrow> 'd \<Rightarrow> 'd option" where
  "usleep mm h ms st =
     hpet_wait mm h (FEMTOSECONDS_PER_MICROSECOND * ms) (start_hpet_timer mm h (reset_hpet_timer mm h st))"

definition hpet_init ::
  "'d mmio \<Rightarrow> mem \<Rightarrow> acpi \<Rightarrow> u64 \<Rightarrow> hpet_vars \<times> 'd \<Rightarrow> (hpet_vars \<times> 'd + hpet_vars \<times> 'd) option" where
  "hpet_init mm m tables sig_hpet = (\<lambda>(h, st).
     let h = h\<lparr>hpet := acpi_find_sdt_tbl m tables sig_hpet\<rparr> in
     if hpet h = 0 then Some (Inl (h, st))
     else
       let h = h\<lparr>hpet_table := phys_to_hh (hpet_address m (hpet h))\<rparr>;
           (caps, st) = rd64 mm (hpet_table h) st;
           h = h\<lparr>femto_per_tick := ucast (drop_bit 32 caps)\<rparr>
       in if femto_per_tick h = 0 then None
          else
            let h = h\<lparr>ticks_per_microsecond := ucast ((1000000000 :: u32) div femto_per_tick h)\<rparr>;
                (c, st) = rd64 mm (hpet_config h) st
            in Some (Inr (h, wr64 mm (hpet_config h) (c AND NOT (ENABLE_LEGACY_REPLACE OR ENABLE_HPET)) st)))"

section \<open>Calibrating the local timer (timer.c)\<close>

definition LVT_TIMER_REG_OFFSET :: u64 where "LVT_TIMER_REG_OFFSET = 0x320"
definition INIT_COUNT_REG_OFFSET :: u64 where "INIT_COUNT_REG_OFFSET = 0x380"
definition CURRENT_COUNT_REG_OFFSET :: u64 where "CURRENT_COUNT_REG_OFFSET = 0x390"
definition DIVIDE_CONFIG_REG_OFFSET :: u64 where "DIVIDE_CONFIG_REG_OFFSET = 0x3e0"
definition MAX_INIT_COUNT_VAL :: u32 where "MAX_INIT_COUNT_VAL = 0xffffffff"
definition TIMER_PERIODIC_MODE :: u32 where "TIMER_PERIODIC_MODE = 0x20000"
definition APIC_TIMER_INTERVAL :: u64 where "APIC_TIMER_INTERVAL = 10000"
definition TIMER_IRQ :: u8 where "TIMER_IRQ = 0"

definition reset_apic_timer :: "'d mmio \<Rightarrow> u64 \<Rightarrow> 'd \<Rightarrow> 'd" where
  "reset_apic_timer mm init_count_reg st = wr32 mm init_count_reg MAX_INIT_COUNT_VAL st"

definition apic_timer_init ::
  "'d mmio \<Rightarrow> apic \<Rightarrow> hpet_vars \<Rightarrow> ioso_apic list \<Rightarrow> 'd \<times> ioapic \<Rightarrow> ('d \<times> ioapic) option" where
  "apic_timer_init mm a h tbl = (\<lambda>(st, io).
     let init_count_reg = lapic_base a + INIT_COUNT_REG_OFFSET;
         current_count_reg = lapic_base a + CURRENT_COUNT_REG_OFFSET;
         divide_config_reg = lapic_base a + DIVIDE_CONFIG_REG_OFFSET;
         st = reset_hpet_timer mm h st;
         st = reset_apic_timer mm init_count_reg st;
         st = start_hpet_timer mm h st
     in map_option
          (\<lambda>st. let io = mask_irq tbl TIMER_IRQ io;
                    (c, st) = rd32 mm current_count_reg st;
                    apic_ticks_10ms = (ucast MAX_INIT_COUNT_VAL - ucast c :: u64);
                    io = io\<lparr>lvt_timer_reg := lvt_timer_reg io OR
                           (ucast TIMER_IRQ + of_nat IDT_EXCEPTIONS OR TIMER_PERIODIC_MODE)\<rparr>;
                    st = wr32 mm divide_config_reg 0x03 st
                in (wr32 mm init_count_reg (ucast apic_ticks_10ms) st, io))
          (hpet_wait mm h (FEMTOSECONDS_PER_MICROSECOND * APIC_TIMER_INTERVAL) st))"

section \<open>The board: a running event timer and a local timer\<close>

text \<open>The counter of the event timer, when enabled, advances by \<open>gap n\<close> ticks after the \<open>n\<close>th
  read of it; the local timer counts \<open>bus\<close> cycles in each of these ticks, divided by what
  its divide register encodes, down from the initial count.\<close>

record board =
  caps :: u64
  hconf :: u64
  counter :: u64
  gap :: "nat \<Rightarrow> nat"
  polls :: nat
  bus :: nat
  cycles :: nat
  linit :: u32
  ldiv :: u32

definition divisor :: "u32 \<Rightarrow> nat" where
  "divisor v = [2, 4, 8, 16, 32, 64, 128, 1] ! (unat (v AND 3) + (if bit v 3 then 4 else 0))"

definition board_read :: "board \<Rightarrow> u64 \<times> board" where
  "board_read s =
     (counter s, s\<lparr>counter := (if bit (hconf s) 0 then counter s + of_nat (gap s (polls s)) else counter s),
                   cycles := cycles s + gap s (polls s) * bus s, polls := Suc (polls s)\<rparr>)"

definition board_hw :: "u64 \<Rightarrow> u64 \<Rightarrow> board mmio" where
  "board_hw T L = \<lparr>
     rd32 = (\<lambda>a s. if a = L + 0x390 then (linit s - of_nat (cycles s div divisor (ldiv s)), s) else (0, s)),
     wr32 = (\<lambda>a v s. if a = L + 0x380 then s\<lparr>linit := v, cycles := 0\<rparr>
                     else if a = L + 0x3e0 then s\<lparr>ldiv := v\<rparr> else s),
     rd64 = (\<lambda>a s. if a = T then (caps s, s) else if a = T + 0x10 then (hconf s, s)
                   else if a = T + 0xf0 then board_read s else (0, s)),
     wr64 = (\<lambda>a v s. if a = T + 0x10 then s\<lparr>hconf := v\<rparr> else if a = T + 0xf0 then s\<lparr>counter := v\<rparr> else s)\<rparr>"

lemma board_simps:
  "rd64 (board_hw T L) (T + 0x10) s = (hconf s, s)" "rd64 (board_hw T L) (T + 0xf0) s = board_read s"
  "wr64 (board_hw T L) (T + 0x10) v s = s\<lparr>hconf := v\<rparr>" "wr64 (board_hw T L) (T + 0xf0) v s = s\<lparr>counter := v\<rparr>"
  "wr32 (board_hw T L) (L + 0x380) w s = s\<lparr>linit := w, cycles := 0\<rparr>"
  "wr32 (board_hw T L) (L + 0x3e0) w s = s\<lparr>ldiv := w\<rparr>"
  "rd32 (board_hw T L) (L + 0x390) s = (linit s - of_nat (cycles s div divisor (ldiv s)), s)"
  by (simp_all add: board_hw_def)

text \<open>The poll ends, neither too early nor more than two polls late.\<close>

lemma hpet_wait_returns:
  assumes hw: "mm_follows view mm (board_hw T L)" and h: "hpet_table h = T" "f = unat (femto_per_tick h)" "0 < f"
    and "\<forall>n. 1 \<le> gap (view st) n \<and> gap (view st) n \<le> d" and "bit (hconf (view st)) 0"
    and lim: "unat limit + 2 * d * f < 2 ^ 64" and "unat (counter (view st)) * f < unat limit + d * f"
  shows "\<exists>st' k p. hpet_wait mm h limit st = Some st' \<and> unat (counter (view st)) < k \<and>
     unat limit \<le> k * f \<and> k * f < unat limit + 2 * d * f \<and>
     view st' = (view st)\<lparr>counter := of_nat k,
       cycles := cycles (view st) + (k - unat (counter (view st))) * bus (view st), polls := p\<rparr>"
  using assms(5,6,8)
proof (induction "unat limit - unat (counter (view st)) * f" arbitrary: st rule: less_induct)
  case less
  define c where "c = unat (counter (view st))"
  define g where "g = gap (view st) (polls (view st))"
  let ?s = "snd (rd64 mm (hpet_main_counter h) st)"
  have rd: "rd64 (board_hw T L) (hpet_main_counter h) (view st) = board_read (view st)"
    by (simp add: hpet_main_counter_def h(1) board_simps)
  have g: "1 \<le> g" "g \<le> d" using less.prems(1) by (simp_all add: g_def)
  have cf: "c * f < unat limit + d * f" using less.prems(3) by (simp add: c_def)
  have g_f: "1 * f \<le> g * f" "g * f \<le> d * f" using g by (intro mult_le_mono1; simp)+
  have bound: "(c + g) * f < unat limit + 2 * d * f"
    using cf g_f(2) unfolding add_mult_distrib mult.assoc by linarith
  have "c + g \<le> (c + g) * f" using h(3) by simp
  then have cg: "c + g < 2 ^ 64" using bound lim by linarith
  have cw: "counter (view st) = of_nat c" by (simp add: c_def)
  have s: "view ?s = (view st)\<lparr>counter := of_nat (c + g), cycles := cycles (view st) + g * bus (view st),
      polls := Suc (polls (view st))\<rparr>"
    using less.prems(2) by (simp add: mm_follows_simps [OF hw] rd board_read_def cw g_def)
  have r: "fst (rd64 mm (hpet_main_counter h) st) = of_nat c"
    by (simp add: mm_follows_simps [OF hw] rd board_read_def cw)
  have "of_nat c * ucast (femto_per_tick h) = (of_nat (c * f) :: u64)"
    by (simp add: h(2))
  moreover have "c * f < 2 ^ 64" using cf lim by linarith
  ultimately have t: "of_nat c * ucast (femto_per_tick h) < limit \<longleftrightarrow> c * f < unat limit"
    by (simp only: word_less_nat_alt unat_of_nat64)
  have step: "hpet_wait mm h limit st = (if c * f < unat limit then hpet_wait mm h limit ?s else Some ?s)"
    by (subst hpet_wait.simps) (simp add: poll_time_hpet_timer_def split_beta r t)
  show ?case
  proof (cases "c * f < unat limit")
    case False
    then have "unat limit \<le> (c + g) * f" by (simp add: algebra_simps)
    then show ?thesis
      using False bound g(1) s step by (intro exI [of _ ?s] exI [of _ "c + g"] exI) (simp add: c_def [symmetric])
  next
    case True
    have cs: "unat (counter (view ?s)) = c + g" unfolding s using cg by (simp add: unat_of_nat64 del: of_nat_add)
    have "\<exists>st' k p. hpet_wait mm h limit ?s = Some st' \<and> unat (counter (view ?s)) < k \<and>
     unat limit \<le> k * f \<and> k * f < unat limit + 2 * d * f \<and>
     view st' = (view ?s)\<lparr>counter := of_nat k,
       cycles := cycles (view ?s) + (k - unat (counter (view ?s))) * bus (view ?s), polls := p\<rparr>"
    proof (rule less.hyps)
      show "unat limit - unat (counter (view ?s)) * f < unat limit - unat (counter (view st)) * f"
        unfolding cs c_def [symmetric] add_mult_distrib using True g_f(1) h(3) by linarith
      show "unat (counter (view ?s)) * f < unat limit + d * f"
        unfolding cs add_mult_distrib using True g_f(2) by linarith
    qed (use less.prems s in simp_all)
    then obtain st' k p where k: "hpet_wait mm h limit ?s = Some st'" "c + g < k" "unat limit \<le> k * f"
      "k * f < unat limit + 2 * d * f"
      "view st' = (view ?s)\<lparr>counter := of_nat k, cycles := cycles (view ?s) + (k - (c + g)) * bus (view ?s), polls := p\<rparr>"
      unfolding cs by blast
    have "g * bus (view st) + (k - (c + g)) * bus (view st) = (k - c) * bus (view st)"
      using k(2) by (simp flip: add_mult_distrib)
    then have "view st' = (view st)\<lparr>counter := of_nat k, cycles := cycles (view st) + (k - c) * bus (view st), polls := p\<rparr>"
      unfolding k(5) s by (simp add: add.assoc)
    moreover have "hpet_wait mm h limit st = Some st'" using k(1) True step by simp
    moreover have "c < k" using k(2) by simp
    ultimately show ?thesis using k(3,4) unfolding c_def [symmetric] by blast
  qed
qed

lemma started:
  assumes "mm_follows view mm (board_hw T L)" and "hpet_table h = T"
  shows "view (start_hpet_timer mm h (reset_hpet_timer mm h st)) =
     (view st)\<lparr>counter := 0, hconf := hconf (view st) OR 1\<rparr>"
  by (simp add: start_hpet_timer_def reset_hpet_timer_def split_beta mm_follows_simps [OF assms(1)]
      hpet_config_def hpet_main_counter_def assms(2) board_simps ENABLE_HPET_def)

text \<open>
  C36 \<open>usleep\<close> waits long enough, in microseconds (its parameter is named \<open>ms\<close>): if the counter
  gains between 1 and \<open>d\<close> ticks with each poll and the times fit 64 bits, it returns, and the
  counter, started from 0, has then seen at least the time asked for and less than two polls
  more.
\<close>

theorem usleep_waits:
  assumes "mm_follows view mm (board_hw (hpet_table h) L)" and "0 < femto_per_tick h"
    and "\<forall>n. 1 \<le> gap (view st) n \<and> gap (view st) n \<le> d"
    and "10 ^ 9 * us + 2 * d * unat (femto_per_tick h) < 2 ^ 64"
  shows "\<exists>st' k. usleep mm h (of_nat us) st = Some st' \<and> counter (view st') = of_nat k \<and>
     10 ^ 9 * us \<le> k * unat (femto_per_tick h) \<and>
     k * unat (femto_per_tick h) < 10 ^ 9 * us + 2 * d * unat (femto_per_tick h)"
proof -
  let ?f = "unat (femto_per_tick h)"
  let ?s = "start_hpet_timer mm h (reset_hpet_timer mm h st)"
  let ?lim = "FEMTOSECONDS_PER_MICROSECOND * of_nat us"
  have lim: "unat ?lim = 10 ^ 9 * us"
  proof -
    have "?lim = of_nat (10 ^ 9 * us)" by (simp add: FEMTOSECONDS_PER_MICROSECOND_def)
    moreover have "10 ^ 9 * us < 2 ^ 64" using assms(4) by linarith
    ultimately show ?thesis by (simp only: unat_of_nat64)
  qed
  have f: "0 < ?f" using assms(2) by (simp add: word_less_nat_alt)
  have s: "view ?s = (view st)\<lparr>counter := 0, hconf := hconf (view st) OR 1\<rparr>"
    by (rule started [OF assms(1) refl])
  have d: "0 < d" using assms(3) by (metis gr0I le_zero_eq zero_neq_one)
  have "\<exists>st' k p. hpet_wait mm h ?lim ?s = Some st' \<and> unat (counter (view ?s)) < k \<and>
     unat ?lim \<le> k * ?f \<and> k * ?f < unat ?lim + 2 * d * ?f \<and>
     view st' = (view ?s)\<lparr>counter := of_nat k,
       cycles := cycles (view ?s) + (k - unat (counter (view ?s))) * bus (view ?s), polls := p\<rparr>"
    by (rule hpet_wait_returns [OF assms(1) refl refl f])
      (use assms(3,4) f d in \<open>auto simp: s lim bit_or_iff\<close>)
  then show ?thesis unfolding usleep_def lim by auto
qed

definition board_ex :: board where
  "board_ex = \<lparr>caps = 0x05f5e10000000000, hconf = 0, counter = 77, gap = (\<lambda>n. if even n then 1 else 3), polls = 0, bus = 10,
     cycles = 0, linit = 0, ldiv = 0\<rparr>"

definition hpet_ex :: hpet_vars where
  "hpet_ex = \<lparr>hpet = 0, hpet_table = 0xfed00000, femto_per_tick = 100000000, ticks_per_microsecond = 10\<rparr>"

lemma gap_ex: "\<forall>n. 1 \<le> gap board_ex n \<and> gap board_ex n \<le> 3"
  by (simp add: board_ex_def)

theorem usleep_waits_witness:
  "\<exists>st' k. usleep (board_hw 0xfed00000 0xfee00000) hpet_ex 5 board_ex = Some st' \<and>
     counter (id st') = of_nat k \<and> 50 \<le> k \<and> k < 56"
proof -
  have "\<exists>st' k. usleep (board_hw 0xfed00000 0xfee00000) hpet_ex (of_nat 5) board_ex = Some st' \<and>
     counter (id st') = of_nat k \<and> 10 ^ 9 * 5 \<le> k * unat (femto_per_tick hpet_ex) \<and>
     k * unat (femto_per_tick hpet_ex) < 10 ^ 9 * 5 + 2 * 3 * unat (femto_per_tick hpet_ex)"
  proof (rule usleep_waits [where L = "0xfee00000" and view = id])
    show "\<forall>n. 1 \<le> gap (id board_ex) n \<and> gap (id board_ex) n \<le> 3" unfolding id_apply by (rule gap_ex)
    show "mm_follows id (board_hw 0xfed00000 0xfee00000) (board_hw (hpet_table hpet_ex) 0xfee00000)"
      using mm_follows_self by (simp add: hpet_ex_def)
  qed (simp_all add: hpet_ex_def)
  then show ?thesis by (auto simp: hpet_ex_def)
qed

text \<open>
  Calibration measures the local timer over at least 10 ms and less than two polls more, and
  then starts it periodic with vector 32 and masked.  But it measures with the reset divider,
  2, and runs with 16: the period it sets is eight times as many bus cycles as it measured (up
  to rounding).
\<close>

theorem apic_timer_eightfold:
  assumes "mm_follows view mm (board_hw (hpet_table h) (lapic_base a))" and "0 < femto_per_tick h"
    and "\<forall>n. 1 \<le> gap (view st) n \<and> gap (view st) n \<le> d"
    and "10 ^ 13 + 2 * d * unat (femto_per_tick h) < 2 ^ 64" and "ldiv (view st) = 0"
    and "\<forall>k. k * unat (femto_per_tick h) < 10 ^ 13 + 2 * d * unat (femto_per_tick h) \<longrightarrow> k * bus (view st) < 2 ^ 32"
  shows "\<exists>st' io' k. apic_timer_init mm a h tbl (st, io) = Some (st', io') \<and>
     10 ^ 13 \<le> k * unat (femto_per_tick h) \<and>
     k * unat (femto_per_tick h) < 10 ^ 13 + 2 * d * unat (femto_per_tick h) \<and>
     unat (linit (view st')) * divisor (ldiv (view st')) \<le> 8 * (k * bus (view st)) \<and>
     8 * (k * bus (view st)) < unat (linit (view st')) * divisor (ldiv (view st')) + 16 \<and>
     lvt_timer_reg io' = lvt_timer_reg (mask_irq tbl 0 io) OR 0x20020 \<and> io_regs io' = io_regs (mask_irq tbl 0 io)"
proof -
  let ?f = "unat (femto_per_tick h)" and ?L = "lapic_base a"
  note mm = mm_follows_simps [OF assms(1)]
  define s0 where "s0 = reset_apic_timer mm (?L + INIT_COUNT_REG_OFFSET) (reset_hpet_timer mm h st)"
  define s where "s = start_hpet_timer mm h s0"
  have s: "view s = (view st)\<lparr>counter := 0, linit := MAX_INIT_COUNT_VAL, cycles := 0, hconf := hconf (view st) OR 1\<rparr>"
    by (simp add: s_def s0_def reset_apic_timer_def INIT_COUNT_REG_OFFSET_def start_hpet_timer_def
        reset_hpet_timer_def split_beta mm hpet_config_def hpet_main_counter_def board_simps ENABLE_HPET_def)
  let ?lim = "FEMTOSECONDS_PER_MICROSECOND * APIC_TIMER_INTERVAL"
  have lim: "unat ?lim = 10 ^ 13" by (simp add: FEMTOSECONDS_PER_MICROSECOND_def APIC_TIMER_INTERVAL_def)
  have f: "0 < ?f" using assms(2) by (simp add: word_less_nat_alt)
  have d: "0 < d" using assms(3) by (metis gr0I le_zero_eq zero_neq_one)
  obtain s1 k p where s1: "hpet_wait mm h ?lim s = Some s1" "10 ^ 13 \<le> k * ?f" "k * ?f < 10 ^ 13 + 2 * d * ?f"
    "view s1 = (view s)\<lparr>counter := of_nat k, cycles := k * bus (view st), polls := p\<rparr>"
  proof -
    have "\<exists>st' k p. hpet_wait mm h ?lim s = Some st' \<and> unat (counter (view s)) < k \<and>
     unat ?lim \<le> k * ?f \<and> k * ?f < unat ?lim + 2 * d * ?f \<and>
     view st' = (view s)\<lparr>counter := of_nat k,
       cycles := cycles (view s) + (k - unat (counter (view s))) * bus (view s), polls := p\<rparr>"
      by (rule hpet_wait_returns [OF assms(1) refl refl f])
        (use assms(3,4) f d in \<open>auto simp: s lim bit_or_iff\<close>)
    then show thesis using that unfolding lim by (auto simp: s)
  qed
  define C where "C = k * bus (view st)"
  have C: "C < 2 ^ 32" using assms(6) s1(3) by (simp add: C_def)
  have div2: "divisor 0 = 2" "divisor 3 = 16" by code_simp+
  define c where "c = MAX_INIT_COUNT_VAL - of_nat (C div 2)"
  have c: "fst (rd32 mm (?L + CURRENT_COUNT_REG_OFFSET) s1) = c"
    using assms(5) by (simp add: mm s1(4) s CURRENT_COUNT_REG_OFFSET_def board_simps div2 c_def C_def)
  have half: "C div 2 < 2 ^ 32" using C by simp
  have "unat c = 2 ^ 32 - 1 - C div 2"
  proof -
    have "(of_nat (C div 2) :: u32) \<le> MAX_INIT_COUNT_VAL"
      using half by (simp add: word_le_nat_alt unat_of_nat32 MAX_INIT_COUNT_VAL_def)
    then show ?thesis unfolding c_def using half
      by (simp add: unat_sub unat_of_nat32 MAX_INIT_COUNT_VAL_def)
  qed
  moreover have "unat (ucast c :: u64) = unat c"
    using unat_of_nat64 [of "unat c"] unsigned_less [of c, where ?'a = nat] by simp
  ultimately have "unat (ucast MAX_INIT_COUNT_VAL - ucast c :: u64) = C div 2"
    using half by (subst unat_sub) (simp_all add: word_le_nat_alt MAX_INIT_COUNT_VAL_def)
  then have "(ucast MAX_INIT_COUNT_VAL - ucast c :: u64) = of_nat (C div 2)"
    by (metis of_nat_unat ucast_id)
  then have ticks: "unat (ucast (ucast MAX_INIT_COUNT_VAL - ucast c :: u64) :: u32) = C div 2"
    using half ucast_of_nat64 [of "C div 2"] by (simp add: unat_of_nat32)
  let ?s2 = "wr32 mm (?L + INIT_COUNT_REG_OFFSET) (ucast (ucast MAX_INIT_COUNT_VAL - ucast c :: u64))
     (wr32 mm (?L + DIVIDE_CONFIG_REG_OFFSET) 0x03 (snd (rd32 mm (?L + CURRENT_COUNT_REG_OFFSET) s1)))"
  let ?io = "(mask_irq tbl 0 io)\<lparr>lvt_timer_reg := lvt_timer_reg (mask_irq tbl 0 io) OR 0x20020\<rparr>"
  have "apic_timer_init mm a h tbl (st, io) = Some (?s2, ?io)"
    using s1(1) unfolding s_def s0_def
    by (simp add: apic_timer_init_def Let_def split_beta c TIMER_IRQ_def IDT_EXCEPTIONS_def TIMER_PERIODIC_MODE_def)
  moreover have "linit (view ?s2) = ucast (ucast MAX_INIT_COUNT_VAL - ucast c :: u64)" "ldiv (view ?s2) = 3"
    by (simp_all add: mm INIT_COUNT_REG_OFFSET_def DIVIDE_CONFIG_REG_OFFSET_def board_simps)
  then have "unat (linit (view ?s2)) * divisor (ldiv (view ?s2)) = C div 2 * 16" by (simp add: ticks div2)
  moreover have "C div 2 * 16 \<le> 8 * C" "8 * C < C div 2 * 16 + 16" by linarith+
  ultimately show ?thesis using s1(2,3) unfolding C_def [symmetric] by (intro exI [of _ ?s2] exI [of _ ?io] exI [of _ k]) (simp add: C_def)
qed

theorem apic_timer_eightfold_witness:
  "\<exists>st' io' k. apic_timer_init (board_hw 0xfed00000 0xfee00000) \<lparr>lapic_id = 0, lapic_base = 0xfee00000\<rparr> hpet_ex []
       (board_ex, ioapic_ex) = Some (st', io') \<and>
     100000 \<le> k \<and> k < 100006 \<and> 8 * (k * 10) < unat (linit (id st')) * divisor (ldiv (id st')) + 16"
proof -
  let ?a = "\<lparr>lapic_id = 0, lapic_base = 0xfee00000\<rparr> :: apic"
  have "\<exists>st' io' k. apic_timer_init (board_hw 0xfed00000 0xfee00000) ?a hpet_ex [] (board_ex, ioapic_ex) = Some (st', io') \<and>
     10 ^ 13 \<le> k * unat (femto_per_tick hpet_ex) \<and>
     k * unat (femto_per_tick hpet_ex) < 10 ^ 13 + 2 * 3 * unat (femto_per_tick hpet_ex) \<and>
     unat (linit (id st')) * divisor (ldiv (id st')) \<le> 8 * (k * bus (id board_ex)) \<and>
     8 * (k * bus (id board_ex)) < unat (linit (id st')) * divisor (ldiv (id st')) + 16 \<and>
     lvt_timer_reg io' = lvt_timer_reg (mask_irq [] 0 ioapic_ex) OR 0x20020 \<and> io_regs io' = io_regs (mask_irq [] 0 ioapic_ex)"
  proof (rule apic_timer_eightfold [where view = id])
    show "\<forall>n. 1 \<le> gap (id board_ex) n \<and> gap (id board_ex) n \<le> 3" unfolding id_apply by (rule gap_ex)
    show "mm_follows id (board_hw 0xfed00000 0xfee00000) (board_hw (hpet_table hpet_ex) (lapic_base ?a))"
      using mm_follows_self by (simp add: hpet_ex_def)
  qed (simp_all add: hpet_ex_def board_ex_def)
  moreover have "unat (femto_per_tick hpet_ex) = 10 ^ 8" "bus (id board_ex) = 10"
    by (simp_all add: hpet_ex_def board_ex_def)
  ultimately obtain st' io' k where e: "apic_timer_init (board_hw 0xfed00000 0xfee00000) ?a hpet_ex [] (board_ex, ioapic_ex) = Some (st', io')"
    "10 ^ 13 \<le> k * 10 ^ 8" "k * 10 ^ 8 < 10 ^ 13 + 2 * 3 * (10 :: nat) ^ 8"
    "8 * (k * 10) < unat (linit (id st')) * divisor (ldiv (id st')) + 16"
    by auto
  from e(2,3) have "100000 \<le> k" "k < 100006" by simp_all
  with e(1,4) show ?thesis by blast
qed

end
