(* ===== verification/Cpu_Local.thy ===== *)
theory Cpu_Local
  imports Timer
begin

text \<open>
  The per-processor data (smp/smp.h, \<open>new_cpu_local\<close>, \<open>get_cpu_local\<close> and \<open>write_msr\<close> of
  smp/smp.c, \<open>init_kernel_cpu_info\<close> of proc/process.c).
\<close>

section \<open>Per-processor data\<close>

record cpu =
  cmem :: mem
  cheap :: heap
  msrs :: "u32 \<Rightarrow> u64"

text \<open>\<open>GS_BASE\<close> as the header defines it, and the number of the register it is meant for.\<close>

definition GS_BASE :: u64 where "GS_BASE = 0xC00001011"
definition IA32_GS_BASE :: u32 where "IA32_GS_BASE = 0xC0000101"

text \<open>\<open>struct cpu_local\<close> is packed; these are its size and the offsets used.\<close>

definition sizeof_cpu_local :: u64 where "sizeof_cpu_local = 141"
definition cpu_apic_id :: "u64 \<Rightarrow> u64" where "cpu_apic_id p = p + 136"
definition cpu_cpu_id :: "u64 \<Rightarrow> u64" where "cpu_cpu_id p = p + 137"

text \<open>\<open>wrmsr\<close> takes the register number in \<open>ecx\<close> and the value in \<open>edx:eax\<close>.\<close>

definition wrmsr :: "u64 \<Rightarrow> u64 \<Rightarrow> u64 \<Rightarrow> cpu \<Rightarrow> cpu" where
  "wrmsr c d a st =
     st\<lparr>msrs := (msrs st)(ucast c := push_bit 32 (take_bit 32 d) OR take_bit 32 a)\<rparr>"

definition write_msr :: "u64 \<Rightarrow> u64 \<Rightarrow> cpu \<Rightarrow> cpu" where
  "write_msr msr val st = wrmsr msr (drop_bit 32 val) (val AND 0xFFFFFFFF) st"

definition get_cpu_local :: "cpu \<Rightarrow> u64" where
  "get_cpu_local st = read64 (cmem st) (msrs st IA32_GS_BASE)"

definition new_cpu_local :: "'d mmio \<Rightarrow> apic \<Rightarrow> 'd \<times> cpu \<Rightarrow> ('d \<times> cpu) option" where
  "new_cpu_local mm a = (\<lambda>(d, st).
     map_option
       (\<lambda>(p, h). let st = st\<lparr>cheap := h, cmem := write64 p p (cmem st)\<rparr>;
                     (i, d) = get_lapic_id mm a d;
                     st = st\<lparr>cmem := (cmem st)(cpu_apic_id p := i)\<rparr>
                 in (d, write_msr GS_BASE p st))
       (malloc sizeof_cpu_local (cheap st)))"

definition write32_zero :: "u64 \<Rightarrow> mem \<Rightarrow> mem" where
  "write32_zero a m = m(a := 0, a + 1 := 0, a + 2 := 0, a + 3 := 0)"

definition init_kernel_cpu_info :: "'d mmio \<Rightarrow> apic \<Rightarrow> 'd \<times> cpu \<Rightarrow> ('d \<times> cpu) option" where
  "init_kernel_cpu_info mm a s =
     map_option (\<lambda>(d, st). (d, st\<lparr>cmem := write32_zero (cpu_cpu_id (get_cpu_local st)) (cmem st)\<rparr>))
       (new_cpu_local mm a s)"

section \<open>Properties\<close>

text \<open>A byte outside the eight of a 64-bit value does not matter to its reader.\<close>

lemma read64_upd_outside:
  assumes "\<And>i. i < 8 \<Longrightarrow> a + of_nat i \<noteq> x"
  shows "read64 (m(x := v)) a = read64 m a"
proof (rule bit_word_eqI)
  fix k :: nat
  assume "k < LENGTH(64)"
  then have "k div 8 < 8" by simp
  from assms [OF this] show "bit (read64 (m(x := v)) a) k \<longleftrightarrow> bit (read64 m a) k"
    by (simp add: read64_def bit_read_le)
qed

lemma lapic_byte_outside: "i < 8 \<Longrightarrow> p + of_nat i \<noteq> cpu_apic_id p"
proof
  assume "i < 8" "p + of_nat i = cpu_apic_id p"
  then have "unat (of_nat i :: u64) = 136" by (simp add: cpu_apic_id_def)
  with \<open>i < 8\<close> show False by (simp add: unat_of_nat64)
qed

lemma new_cpu_local_parts:
  assumes "malloc sizeof_cpu_local (cheap st) = Some (p, h)" and "get_lapic_id mm a d = (i, d')"
  shows "new_cpu_local mm a (d, st) =
     Some (d', \<lparr>cmem = (write64 p p (cmem st))(cpu_apic_id p := i), cheap = h, msrs = (msrs st)(0x1011 := p)\<rparr>)"
proof -
  have m: "(0xFFFFFFFF :: u64) = mask 32" by (simp add: mask_eq_exp_minus_1)
  have "push_bit 32 (take_bit 32 (drop_bit 32 p)) OR take_bit 32 (p AND 0xFFFFFFFF) = p"
    unfolding m by (rule bit_word_eqI, rename_tac k, case_tac "k < 32") (auto simp: bit_simps)
  moreover have "(ucast GS_BASE :: u32) = 0x1011" by (simp add: GS_BASE_def word_eq_iff_unsigned)
  ultimately have "write_msr GS_BASE p c = c\<lparr>msrs := (msrs c)(0x1011 := p)\<rparr>" for c
    unfolding write_msr_def wrmsr_def by (simp only:)
  then show ?thesis using assms by (simp add: new_cpu_local_def)
qed

text \<open>
  Whenever \<open>new_cpu_local\<close> returns, it has built a block whose first word is its own address, as
  \<open>get_cpu_local\<close> expects to find at \<open>gs:0\<close>, but it has not installed it: \<open>GS_BASE\<close> has a
  digit too many, \<open>wrmsr\<close> reads \<open>ecx\<close>, the low 32 bits, and so register \<open>0x1011\<close> is written
  and the base of \<open>gs\<close> stays what it was.  The store of \<open>cpu_id\<close> that follows then goes where
  the word at the old base points, plus 137.
\<close>

theorem new_cpu_local_not_installed:
  assumes "init_kernel_cpu_info mm a (d, st) = Some (d', st')"
  shows "\<exists>p i. msrs st' = (msrs st)(0x1011 := p) \<and> msrs st' IA32_GS_BASE = msrs st IA32_GS_BASE \<and>
     (let m = (write64 p p (cmem st))(cpu_apic_id p := i) in
       read64 m p = p \<and> cmem st' = write32_zero (read64 m (msrs st IA32_GS_BASE) + 137) m)"
proof -
  obtain d1 st1 where n: "new_cpu_local mm a (d, st) = Some (d1, st1)"
    and st': "st' = st1\<lparr>cmem := write32_zero (cpu_cpu_id (get_cpu_local st1)) (cmem st1)\<rparr>"
    using assms by (auto simp: init_kernel_cpu_info_def)
  obtain p h i d2 where "malloc sizeof_cpu_local (cheap st) = Some (p, h)" "get_lapic_id mm a d = (i, d2)"
    using n by (cases "get_lapic_id mm a d") (auto simp: new_cpu_local_def)
  from new_cpu_local_parts [where mm = mm, OF this] n
  have st1: "st1 = \<lparr>cmem = (write64 p p (cmem st))(cpu_apic_id p := i), cheap = h, msrs = (msrs st)(0x1011 := p)\<rparr>"
    by simp
  have "read64 ((write64 p p (cmem st))(cpu_apic_id p := i)) p = p"
    by (simp add: read64_upd_outside [OF lapic_byte_outside])
  then show ?thesis
    by (intro exI [of _ p] exI [of _ i]) (simp add: st' st1 get_cpu_local_def cpu_cpu_id_def IA32_GS_BASE_def)
qed

definition cpu_ex :: cpu where
  "cpu_ex = \<lparr>cmem = (\<lambda>x. 0), cheap = heap_ex, msrs = (\<lambda>r. 0)\<rparr>"

lemma cpu_ex_runs:
  "\<exists>st'. init_kernel_cpu_info (board_hw 0xfed00000 0xfee00000) \<lparr>lapic_id = 0, lapic_base = 0xfee00000\<rparr>
     (board_ex, cpu_ex) = Some (board_ex, st')"
proof -
  let ?a = "\<lparr>lapic_id = 0, lapic_base = 0xfee00000\<rparr> :: apic"
  have run: "block_run heap_ex 8 0" by (simp add: block_run_def)
  then have "\<exists>h'. malloc sizeof_cpu_local heap_ex = Some (heap_addr heap_ex + of_nat (128 * 0), h')"
    using malloc_run [of heap_ex sizeof_cpu_local 0] run
    by (auto simp: sizeof_cpu_local_def BLOCK_SIZE_def blocks_of_def first_block_run_def)
  then obtain h' where "malloc sizeof_cpu_local (cheap cpu_ex) = Some (heap_addr heap_ex, h')"
    by (auto simp: cpu_ex_def)
  moreover have "get_lapic_id (board_hw 0xfed00000 0xfee00000) ?a board_ex = (0, board_ex)"
    by (simp add: get_lapic_id_def lapic_read_reg_def board_hw_def LAPIC_ID_REG_def)
  ultimately have "\<exists>st1. new_cpu_local (board_hw 0xfed00000 0xfee00000) ?a (board_ex, cpu_ex) = Some (board_ex, st1)"
    using new_cpu_local_parts by (metis (no_types))
  then show ?thesis by (auto simp: init_kernel_cpu_info_def)
qed

theorem new_cpu_local_not_installed_witness:
  "\<exists>st'. init_kernel_cpu_info (board_hw 0xfed00000 0xfee00000) \<lparr>lapic_id = 0, lapic_base = 0xfee00000\<rparr>
     (board_ex, cpu_ex) = Some (board_ex, st') \<and> msrs st' IA32_GS_BASE = 0"
proof -
  obtain st' where s: "init_kernel_cpu_info (board_hw 0xfed00000 0xfee00000) \<lparr>lapic_id = 0, lapic_base = 0xfee00000\<rparr>
     (board_ex, cpu_ex) = Some (board_ex, st')" using cpu_ex_runs by blast
  from new_cpu_local_not_installed [OF this] have "msrs st' IA32_GS_BASE = 0" by (auto simp: cpu_ex_def)
  with s show ?thesis by blast
qed

end
