(* ===== verification/Smp.thy ===== *)
theory Smp
  imports Lock
begin

text \<open>
  Starting the other processors (\<open>smp_init\<close> and \<open>ap_entry_point\<close> of smp/smp.c) as a step
  relation over the boot processor and the others, with the decrement of \<open>ap_done\<close> as a read
  and a write.
\<close>

section \<open>Starting the processors\<close>

datatype ap_pc =
    Parked
  | Entered
  | Locked
  | Loaded s32
  | Counted
  | Hung

datatype bsp_pc = Starting nat | Polling | Finished

record smp =
  cpu_count :: nat
  ap_done :: s32
  ap_done_lock :: bool
  ap :: "nat \<Rightarrow> ap_pc"
  bsp :: bsp_pc

text \<open>\<open>smp_init\<close> sets the counter and starts at processor 1.\<close>

definition smp_start :: "nat \<Rightarrow> smp" where
  "smp_start n = \<lparr>cpu_count = n, ap_done = of_nat n - 1, ap_done_lock = False, ap = (\<lambda>c. Parked), bsp = Starting 1\<rparr>"

inductive smp_step :: "smp \<Rightarrow> smp \<Rightarrow> bool" where
  boot_ap: "bsp s = Starting i \<Longrightarrow> i < cpu_count s \<Longrightarrow>
     smp_step s (s\<lparr>ap := (ap s)(i := Entered), bsp := Starting (Suc i)\<rparr>)"
| all_booted: "bsp s = Starting i \<Longrightarrow> \<not> i < cpu_count s \<Longrightarrow> smp_step s (s\<lparr>bsp := Polling\<rparr>)"
| poll: "bsp s = Polling \<Longrightarrow> 0 < sint (ap_done s) \<Longrightarrow> smp_step s s"
| finish: "bsp s = Polling \<Longrightarrow> \<not> 0 < sint (ap_done s) \<Longrightarrow> smp_step s (s\<lparr>bsp := Finished\<rparr>)"
| ap_spin: "ap s c = Entered \<Longrightarrow> try_lock (ap_done_lock s) = (flag, False) \<Longrightarrow>
     smp_step s (s\<lparr>ap_done_lock := flag\<rparr>)"
| ap_acquire: "ap s c = Entered \<Longrightarrow> try_lock (ap_done_lock s) = (flag, True) \<Longrightarrow>
     smp_step s (s\<lparr>ap_done_lock := flag, ap := (ap s)(c := Locked)\<rparr>)"
| ap_read: "ap s c = Locked \<Longrightarrow> smp_step s (s\<lparr>ap := (ap s)(c := Loaded (ap_done s))\<rparr>)"
| ap_write: "ap s c = Loaded v \<Longrightarrow> smp_step s (s\<lparr>ap_done := v - 1, ap := (ap s)(c := Counted)\<rparr>)"
| ap_release: "ap s c = Counted \<Longrightarrow>
     smp_step s (s\<lparr>ap_done_lock := unlock (ap_done_lock s), ap := (ap s)(c := Hung)\<rparr>)"

inductive smp_reach :: "nat \<Rightarrow> smp \<Rightarrow> bool" for n where
  start: "smp_reach n (smp_start n)"
| step: "smp_reach n s \<Longrightarrow> smp_step s s' \<Longrightarrow> smp_reach n s'"

section \<open>The start-up invariant\<close>

definition busy_ap :: "ap_pc \<Rightarrow> bool" where
  "busy_ap p \<longleftrightarrow> p = Locked \<or> p = Counted \<or> (\<exists>v. p = Loaded v)"

definition counted :: "ap_pc \<Rightarrow> bool" where
  "counted p \<longleftrightarrow> p = Counted \<or> p = Hung"

definition to_come :: "smp \<Rightarrow> nat set" where
  "to_come s = {c. 1 \<le> c \<and> c < cpu_count s \<and> \<not> counted (ap s c)}"

definition smp_inv :: "nat \<Rightarrow> smp \<Rightarrow> bool" where
  "smp_inv n s \<longleftrightarrow> cpu_count s = n \<and> ap_done s = of_nat (card (to_come s)) \<and>
     (ap_done_lock s \<longleftrightarrow> (\<exists>c. busy_ap (ap s c))) \<and>
     (\<forall>c d. busy_ap (ap s c) \<longrightarrow> busy_ap (ap s d) \<longrightarrow> c = d) \<and>
     (\<forall>c v. ap s c = Loaded v \<longrightarrow> v = ap_done s) \<and>
     (\<forall>c. ap s c \<noteq> Parked \<longrightarrow> 1 \<le> c \<and> c < n) \<and>
     (\<forall>i. bsp s = Starting i \<longrightarrow> 1 \<le> i \<and> i \<le> n \<and> (\<forall>c. 1 \<le> c \<longrightarrow> c < n \<longrightarrow> (ap s c = Parked \<longleftrightarrow> i \<le> c))) \<and>
     (\<forall>c. bsp s = Polling \<longrightarrow> 1 \<le> c \<longrightarrow> c < n \<longrightarrow> ap s c \<noteq> Parked) \<and>
     (bsp s = Finished \<longrightarrow> to_come s = {})"

lemma smp_invD:
  assumes "smp_inv n s"
  shows "cpu_count s = n" "ap_done s = of_nat (card (to_come s))" "ap_done_lock s \<longleftrightarrow> (\<exists>c. busy_ap (ap s c))"
    and "busy_ap (ap s c) \<Longrightarrow> busy_ap (ap s d) \<Longrightarrow> c = d" "ap s c = Loaded v \<Longrightarrow> v = ap_done s"
    and "ap s c \<noteq> Parked \<Longrightarrow> 1 \<le> c \<and> c < n" "bsp s = Starting i \<Longrightarrow> 1 \<le> i \<and> i \<le> n"
    and "bsp s = Starting i \<Longrightarrow> 1 \<le> c \<Longrightarrow> c < n \<Longrightarrow> ap s c = Parked \<longleftrightarrow> i \<le> c"
    and "bsp s = Polling \<Longrightarrow> 1 \<le> c \<Longrightarrow> c < n \<Longrightarrow> ap s c \<noteq> Parked" "bsp s = Finished \<Longrightarrow> to_come s = {}"
  using assms unfolding smp_inv_def by blast+

lemma smp_invI:
  assumes "cpu_count s = n" "ap_done s = of_nat (card (to_come s))" "ap_done_lock s \<longleftrightarrow> (\<exists>c. busy_ap (ap s c))"
    and "\<And>c d. busy_ap (ap s c) \<Longrightarrow> busy_ap (ap s d) \<Longrightarrow> c = d" "\<And>c v. ap s c = Loaded v \<Longrightarrow> v = ap_done s"
    and "\<And>c. ap s c \<noteq> Parked \<Longrightarrow> 1 \<le> c \<and> c < n" "\<And>i. bsp s = Starting i \<Longrightarrow> 1 \<le> i \<and> i \<le> n"
    and "\<And>i c. bsp s = Starting i \<Longrightarrow> 1 \<le> c \<Longrightarrow> c < n \<Longrightarrow> ap s c = Parked \<longleftrightarrow> i \<le> c"
    and "\<And>c. bsp s = Polling \<Longrightarrow> 1 \<le> c \<Longrightarrow> c < n \<Longrightarrow> ap s c \<noteq> Parked" "bsp s = Finished \<Longrightarrow> to_come s = {}"
  shows "smp_inv n s"
  unfolding smp_inv_def using assms by blast

text \<open>One processor \<open>c\<close> that has been started moves on while no other is between the lock and
  the unlock: what such a move must satisfy to keep the invariant.\<close>

lemma smp_inv_move:
  assumes I: "smp_inv n s" and "ap s c \<noteq> Parked" and "p \<noteq> Parked"
    and s': "ap s' = (ap s)(c := p)" "cpu_count s' = cpu_count s" "bsp s' = bsp s"
    and alone: "\<And>d. d \<noteq> c \<Longrightarrow> \<not> busy_ap (ap s d)"
    and lck: "ap_done_lock s' \<longleftrightarrow> busy_ap p" and load: "\<And>v. p = Loaded v \<Longrightarrow> v = ap_done s'"
    and count: "ap_done s' = of_nat (card (to_come s'))" "to_come s' \<subseteq> to_come s"
  shows "smp_inv n s'"
proof -
  note inv = smp_invD [OF I]
  have q: "ap s' d = Parked \<longleftrightarrow> ap s d = Parked" for d using assms(2,3) s'(1) by simp
  have busy: "busy_ap (ap s' d) \<longleftrightarrow> d = c \<and> busy_ap p" for d using s'(1) alone by simp
  have quiet: "ap s' d \<noteq> Loaded v" if "d \<noteq> c" for d v
    using alone [OF that] s'(1) that by (auto simp: busy_ap_def)
  show ?thesis
  proof (rule smp_invI)
    show "cpu_count s' = n" using s'(2) inv(1) by simp
    show "ap_done s' = of_nat (card (to_come s'))" by (rule count(1))
    show "ap_done_lock s' \<longleftrightarrow> (\<exists>d. busy_ap (ap s' d))" unfolding busy using lck by blast
    show "d = e" if "busy_ap (ap s' d)" "busy_ap (ap s' e)" for d e using that unfolding busy by blast
    show "v = ap_done s'" if "ap s' d = Loaded v" for d v
      using that quiet [of d v] load [of v] s'(1) by (cases "d = c") simp_all
    show "1 \<le> d \<and> d < n" if "ap s' d \<noteq> Parked" for d using that unfolding q by (rule inv(6))
    show "1 \<le> i \<and> i \<le> n" if "bsp s' = Starting i" for i using that unfolding s'(3) by (rule inv(7))
    show "ap s' d = Parked \<longleftrightarrow> i \<le> d" if "bsp s' = Starting i" "1 \<le> d" "d < n" for i d
      using that unfolding s'(3) q by (rule inv(8))
    show "ap s' d \<noteq> Parked" if "bsp s' = Polling" "1 \<le> d" "d < n" for d
      using that unfolding s'(3) q by (rule inv(9))
    show "to_come s' = {}" if "bsp s' = Finished" using inv(10) that count(2) unfolding s'(3) by blast
  qed
qed

lemma busy_alone: "smp_inv n s \<Longrightarrow> busy_ap (ap s c) \<Longrightarrow> d \<noteq> c \<Longrightarrow> \<not> busy_ap (ap s d)"
  using smp_invD(4) by blast

text \<open>The boot processor moves on past the loop that starts the others.\<close>

lemma smp_inv_bsp:
  assumes I: "smp_inv n s" and "\<And>i. b \<noteq> Starting i"
    and p: "\<And>c. b = Polling \<Longrightarrow> 1 \<le> c \<Longrightarrow> c < n \<Longrightarrow> ap s c \<noteq> Parked" and f: "b = Finished \<Longrightarrow> to_come s = {}"
  shows "smp_inv n (s\<lparr>bsp := b\<rparr>)"
proof (rule smp_invI)
  note inv = smp_invD [OF I]
  have t: "to_come (s\<lparr>bsp := b\<rparr>) = to_come s" by (simp add: to_come_def)
  show "cpu_count (s\<lparr>bsp := b\<rparr>) = n" using inv(1) by simp
  show "ap_done (s\<lparr>bsp := b\<rparr>) = of_nat (card (to_come (s\<lparr>bsp := b\<rparr>)))" using inv(2) by (simp add: t)
  show "ap_done_lock (s\<lparr>bsp := b\<rparr>) \<longleftrightarrow> (\<exists>c. busy_ap (ap (s\<lparr>bsp := b\<rparr>) c))" using inv(3) by simp
  show "c = d" if "busy_ap (ap (s\<lparr>bsp := b\<rparr>) c)" "busy_ap (ap (s\<lparr>bsp := b\<rparr>) d)" for c d
    by (rule inv(4)) (use that in simp_all)
  show "v = ap_done (s\<lparr>bsp := b\<rparr>)" if "ap (s\<lparr>bsp := b\<rparr>) c = Loaded v" for c v
    using inv(5) [of c v] that by simp
  show "1 \<le> c \<and> c < n" if "ap (s\<lparr>bsp := b\<rparr>) c \<noteq> Parked" for c using inv(6) [of c] that by simp
  show "ap (s\<lparr>bsp := b\<rparr>) c \<noteq> Parked" if "bsp (s\<lparr>bsp := b\<rparr>) = Polling" "1 \<le> c" "c < n" for c
    using p that by simp
  show "to_come (s\<lparr>bsp := b\<rparr>) = {}" if "bsp (s\<lparr>bsp := b\<rparr>) = Finished" using f that t by simp
qed (use assms(2) in simp_all)

text \<open>Few enough processors that the counter, an \<open>int\<close>, does not turn negative.\<close>

lemma to_come_bound: "finite (to_come s)" "card (to_come s) \<le> cpu_count s"
proof -
  have sub: "to_come s \<subseteq> {..<cpu_count s}" by (auto simp: to_come_def)
  then show "finite (to_come s)" by (rule finite_subset) simp
  from card_mono [OF _ sub] show "card (to_come s) \<le> cpu_count s" by simp
qed

lemma smp_inv_start:
  assumes "1 \<le> n"
  shows "smp_inv n (smp_start n)"
proof -
  have "to_come (smp_start n) = {1..<n}" by (auto simp: to_come_def smp_start_def counted_def)
  then have "card (to_come (smp_start n)) = n - 1" by simp
  then show ?thesis using assms
    by (simp add: smp_inv_def smp_start_def busy_ap_def of_nat_diff)
qed

lemma counter_positive:
  assumes "cpu_count s < 2 ^ 31" and "ap_done s = of_nat (card (to_come s))"
  shows "0 < sint (ap_done s) \<longleftrightarrow> to_come s \<noteq> {}"
proof -
  have "card (to_come s) < 2 ^ 31" using to_come_bound(2) [of s] assms(1) by linarith
  then have "sint (ap_done s) = int (card (to_come s))" unfolding assms(2) by (rule sint_of_nat32)
  then show ?thesis using to_come_bound(1) [of s] by (simp add: card_gt_0_iff)
qed

text \<open>Moving one processor to a state that counts as much leaves the set alone.\<close>

lemma to_come_upd:
  assumes "counted (ap s c) = counted p"
  shows "to_come (s\<lparr>ap := (ap s)(c := p)\<rparr>) = to_come s"
  using assms by (auto simp: to_come_def)

lemma to_come_simps [simp]:
  "to_come (s\<lparr>bsp := b\<rparr>) = to_come s" "to_come (s\<lparr>ap_done_lock := l\<rparr>) = to_come s"
  "to_come (s\<lparr>ap_done := v\<rparr>) = to_come s"
  by (simp_all add: to_come_def)

lemma smp_inv_step:
  assumes "smp_step s s'" and "smp_inv n s" and "n < 2 ^ 31"
  shows "smp_inv n s'"
  using assms
proof (induction rule: smp_step.induct)
  case (boot_ap s i)
  note inv = smp_invD [OF boot_ap.prems(1)]
  have i: "1 \<le> i" "i < n" using inv(7) [OF boot_ap.hyps(1)] boot_ap.hyps(2) inv(1) by simp_all
  have p: "ap s i = Parked" using inv(8) [OF boot_ap.hyps(1) i] by simp
  then have "to_come (s\<lparr>ap := (ap s)(i := Entered)\<rparr>) = to_come s" by (intro to_come_upd) (simp add: counted_def)
  then have t: "to_come (s\<lparr>ap := (ap s)(i := Entered), bsp := Starting (Suc i)\<rparr>) = to_come s" by simp
  let ?s = "s\<lparr>ap := (ap s)(i := Entered), bsp := Starting (Suc i)\<rparr>"
  have q: "busy_ap (ap ?s d) = busy_ap (ap s d)" for d using p by (simp add: busy_ap_def)
  show ?case
  proof (rule smp_invI)
    show "cpu_count ?s = n" using inv(1) by simp
    show "ap_done ?s = of_nat (card (to_come ?s))" unfolding t using inv(2) by simp
    show "ap_done_lock ?s \<longleftrightarrow> (\<exists>c. busy_ap (ap ?s c))" unfolding q using inv(3) by simp
    show "c = d" if "busy_ap (ap ?s c)" "busy_ap (ap ?s d)" for c d using that unfolding q by (rule inv(4))
    show "v = ap_done ?s" if "ap ?s c = Loaded v" for c v
      using that inv(5) [of c v] by (cases "c = i") simp_all
    show "1 \<le> c \<and> c < n" if "ap ?s c \<noteq> Parked" for c
      using that inv(6) [of c] i by (cases "c = i") simp_all
    show "1 \<le> j \<and> j \<le> n" if "bsp ?s = Starting j" for j using that i by simp
    show "ap ?s c = Parked \<longleftrightarrow> j \<le> c" if "bsp ?s = Starting j" "1 \<le> c" "c < n" for j c
      using that inv(8) [OF boot_ap.hyps(1), of c] i by (cases "c = i") auto
  qed simp_all
next
  case (all_booted s i)
  note inv = smp_invD [OF all_booted.prems(1)]
  have "ap s c \<noteq> Parked" if "1 \<le> c" "c < n" for c
    using inv(8) [OF all_booted.hyps(1) that] that all_booted.hyps(2) inv(1) by simp
  then show ?case by (intro smp_inv_bsp all_booted.prems(1)) simp_all
next
  case (finish s)
  note inv = smp_invD [OF finish.prems(1)]
  have "to_come s = {}" using counter_positive [of s] inv(1,2) finish by simp
  then show ?case by (intro smp_inv_bsp finish.prems(1)) simp_all
next
  case (ap_spin s c flag)
  then have "flag = ap_done_lock s" by (auto simp: try_lock_def test_and_set_def)
  then have "s\<lparr>ap_done_lock := flag\<rparr> = s" by simp
  then show ?case unfolding smp.simps using ap_spin.prems(1) by (rule ssubst)
next
  case (ap_acquire s c flag)
  note inv = smp_invD [OF ap_acquire.prems(1)]
  have f: "flag = True" "\<not> ap_done_lock s" using ap_acquire.hyps(2) by (auto simp: try_lock_def test_and_set_def)
  then have no: "\<not> busy_ap (ap s d)" for d using inv(3) by blast
  have t: "to_come (s\<lparr>ap_done_lock := flag, ap := (ap s)(c := Locked)\<rparr>) = to_come s"
    using ap_acquire.hyps(1) by (auto simp: to_come_def counted_def)
  show ?case
    by (rule smp_inv_move [OF ap_acquire.prems(1), of c Locked])
      (use t no f inv(2) ap_acquire.hyps(1) in \<open>simp_all add: busy_ap_def\<close>)
next
  case (ap_read s c)
  note inv = smp_invD [OF ap_read.prems(1)]
  have b: "busy_ap (ap s c)" using ap_read.hyps by (simp add: busy_ap_def)
  have t: "to_come (s\<lparr>ap := (ap s)(c := Loaded (ap_done s))\<rparr>) = to_come s"
    using ap_read.hyps by (intro to_come_upd) (simp add: counted_def)
  have lck: "ap_done_lock s" using inv(3) b by blast
  show ?case
    by (rule smp_inv_move [OF ap_read.prems(1), of c "Loaded (ap_done s)"])
      (use t busy_alone [OF ap_read.prems(1) b] lck inv(2) ap_read.hyps in \<open>simp_all add: busy_ap_def\<close>)
next
  case (ap_write s c v)
  note inv = smp_invD [OF ap_write.prems(1)]
  let ?s = "s\<lparr>ap_done := v - 1, ap := (ap s)(c := Counted)\<rparr>"
  have b: "busy_ap (ap s c)" using ap_write.hyps by (simp add: busy_ap_def)
  have c: "c \<in> to_come s"
    using inv(6) [of c] inv(1) ap_write.hyps by (simp add: to_come_def counted_def)
  have t: "to_come ?s = to_come s - {c}" by (auto simp: to_come_def counted_def)
  have "card (to_come s) = Suc (card (to_come ?s))"
    unfolding t using c to_come_bound(1) [of s] by (simp only: card_Suc_Diff1)
  moreover have "v = of_nat (card (to_come s))" using inv(2) inv(5) [OF ap_write.hyps] by simp
  moreover have "v - 1 = of_nat k" if "m = Suc k" "v = of_nat m" for k m :: nat using that by simp
  ultimately have d: "v - 1 = of_nat (card (to_come ?s))" by blast
  have lck: "ap_done_lock s" using inv(3) b by blast
  have sub: "to_come ?s \<subseteq> to_come s" using t by blast
  show ?case
    by (rule smp_inv_move [OF ap_write.prems(1), of c Counted])
      (use d sub busy_alone [OF ap_write.prems(1) b] lck ap_write.hyps in \<open>simp_all add: busy_ap_def\<close>)
next
  case (ap_release s c)
  note inv = smp_invD [OF ap_release.prems(1)]
  have b: "busy_ap (ap s c)" using ap_release.hyps by (simp add: busy_ap_def)
  have t: "to_come (s\<lparr>ap_done_lock := unlock (ap_done_lock s), ap := (ap s)(c := Hung)\<rparr>) = to_come s"
    using ap_release.hyps by (auto simp: to_come_def counted_def)
  show ?case
    by (rule smp_inv_move [OF ap_release.prems(1), of c Hung])
      (use t busy_alone [OF ap_release.prems(1) b] inv(2) ap_release.hyps in \<open>simp_all add: busy_ap_def unlock_def\<close>)
qed (simp_all)

lemma smp_reach_inv: "smp_reach n s \<Longrightarrow> 1 \<le> n \<Longrightarrow> n < 2 ^ 31 \<Longrightarrow> smp_inv n s"
  by (induction rule: smp_reach.induct) (auto intro: smp_inv_start smp_inv_step)

section \<open>No processor goes back\<close>

text \<open>The control points in the order they are passed.\<close>

fun bsp_rank :: "bsp_pc \<Rightarrow> nat \<times> nat" where
  "bsp_rank (Starting i) = (0, i)"
| "bsp_rank Polling = (1, 0)"
| "bsp_rank Finished = (2, 0)"

lemma bsp_rank_inject: "bsp_rank a = bsp_rank b \<Longrightarrow> a = b"
  by (cases a; cases b) simp_all

instantiation bsp_pc :: linorder
begin

definition less_eq_bsp_pc :: "bsp_pc \<Rightarrow> bsp_pc \<Rightarrow> bool" where
  "less_eq_bsp_pc a b \<longleftrightarrow> fst (bsp_rank a) < fst (bsp_rank b)
    \<or> fst (bsp_rank a) = fst (bsp_rank b) \<and> snd (bsp_rank a) \<le> snd (bsp_rank b)"

definition less_bsp_pc :: "bsp_pc \<Rightarrow> bsp_pc \<Rightarrow> bool" where
  "less_bsp_pc a b \<longleftrightarrow> a \<le> b \<and> \<not> b \<le> (a :: bsp_pc)"

instance
proof
  fix a b c :: bsp_pc
  show "a < b \<longleftrightarrow> a \<le> b \<and> \<not> b \<le> a" by (simp add: less_bsp_pc_def)
  show "a \<le> a" by (simp add: less_eq_bsp_pc_def)
  show "a \<le> c" if "a \<le> b" "b \<le> c" using that by (auto simp: less_eq_bsp_pc_def)
  show "a = b" if "a \<le> b" "b \<le> a"
    using that by (intro bsp_rank_inject prod_eqI) (auto simp: less_eq_bsp_pc_def)
  show "a \<le> b \<or> b \<le> a" by (auto simp: less_eq_bsp_pc_def)
qed

end

fun ap_rank :: "ap_pc \<Rightarrow> nat" where
  "ap_rank Parked = 0"
| "ap_rank Entered = 1"
| "ap_rank Locked = 2"
| "ap_rank (Loaded v) = 3"
| "ap_rank Counted = 4"
| "ap_rank Hung = 5"

instantiation ap_pc :: preorder
begin

definition less_eq_ap_pc :: "ap_pc \<Rightarrow> ap_pc \<Rightarrow> bool" where
  "less_eq_ap_pc p q \<longleftrightarrow> ap_rank p \<le> ap_rank q"

definition less_ap_pc :: "ap_pc \<Rightarrow> ap_pc \<Rightarrow> bool" where
  "less_ap_pc p q \<longleftrightarrow> ap_rank p < ap_rank q"

instance
  by standard (auto simp: less_eq_ap_pc_def less_ap_pc_def)

end

lemma smp_step_forward:
  assumes "smp_step s s'" and "smp_inv n s"
  shows "bsp s \<le> bsp s' \<and> ap s \<le> ap s'"
  using assms
proof (induction rule: smp_step.induct)
  case (boot_ap s i)
  have "ap s i = Parked"
    using smp_invD(8) [OF boot_ap.prems boot_ap.hyps(1), of i] smp_invD(7) [OF boot_ap.prems boot_ap.hyps(1)] boot_ap.hyps(2) smp_invD(1) [OF boot_ap.prems]
    by simp
  then show ?case using boot_ap.hyps by (simp add: less_eq_bsp_pc_def less_eq_ap_pc_def le_fun_def)
qed (simp_all add: less_eq_bsp_pc_def less_eq_ap_pc_def le_fun_def)

text \<open>So what a processor has passed it has passed in every later state.\<close>

lemma smp_steps_forward:
  assumes "smp_step\<^sup>*\<^sup>* s s'" and "smp_inv n s" and "n < 2 ^ 31"
  shows "bsp s \<le> bsp s' \<and> ap s \<le> ap s'"
proof -
  have "smp_inv n s' \<and> bsp s \<le> bsp s' \<and> ap s \<le> ap s'"
    using assms(1)
  proof (induction rule: rtranclp_induct)
    case (step t u)
    then have t: "smp_inv n t" "bsp s \<le> bsp t" "ap s \<le> ap t" by simp_all
    from smp_step_forward [OF step.hyps(2) t(1)] t(2,3) smp_inv_step [OF step.hyps(2) t(1) assms(3)]
    show ?case by (blast intro: order.trans)
  qed (use assms(2) in simp)
  then show ?thesis by simp
qed

lemma checked_in_for_good:
  assumes "smp_step\<^sup>*\<^sup>* s s'" and "smp_inv n s" and "n < 2 ^ 31" and "counted (ap s c)"
  shows "counted (ap s' c)"
proof -
  have "ap s c \<le> ap s' c" using smp_steps_forward [OF assms(1-3)] by (simp add: le_fun_def)
  then have "ap_rank (ap s c) \<le> ap_rank (ap s' c)" by (simp add: less_eq_ap_pc_def)
  with assms(4) show ?thesis by (cases "ap s' c") (auto simp: counted_def)
qed

section \<open>Properties\<close>

text \<open>
  C15 The boot processor goes on only when all others have checked in: whatever the interleaving,
  when \<open>smp_init\<close> has returned, every other processor has done its decrement, and the counter
  is zero.
\<close>

theorem smp_init_waits_for_all:
  assumes "smp_reach n s" and "1 \<le> n" and "n < 2 ^ 31" and "bsp s = Finished"
  shows "ap_done s = 0 \<and> (\<forall>c. 1 \<le> c \<and> c < n \<longrightarrow> ap s c = Counted \<or> ap s c = Hung)"
proof -
  note inv = smp_invD [OF smp_reach_inv [OF assms(1-3)]]
  have e: "to_come s = {}" by (rule inv(10) [OF assms(4)])
  then have "counted (ap s c)" if "1 \<le> c" "c < n" for c using that inv(1) by (auto simp: to_come_def)
  then show ?thesis using inv(2) e by (simp add: counted_def)
qed

definition smp_two :: smp where
  "smp_two = \<lparr>cpu_count = 2, ap_done = 0, ap_done_lock = False, ap = (\<lambda>c. Parked)(1 := Hung), bsp = Finished\<rparr>"

lemma smp_two_reach: "smp_reach 2 smp_two"
proof -
  let ?s = "\<lambda>v l p b. \<lparr>cpu_count = 2, ap_done = v, ap_done_lock = l, ap = (\<lambda>c. Parked)(1 := p), bsp = b\<rparr>"
  have 0: "smp_reach 2 (?s 1 False Parked (Starting 1))"
    using smp_reach.start [of 2] by (simp add: smp_start_def fun_upd_idem)
  have 1: "smp_reach 2 (?s 1 False Entered (Starting 2))"
    using smp_reach.step [OF 0 smp_step.boot_ap [of _ 1]] by (simp add: numeral_2_eq_2)
  have 2: "smp_reach 2 (?s 1 True Locked (Starting 2))"
    using smp_reach.step [OF 1 smp_step.ap_acquire [of _ 1 True]] by (simp add: try_lock_def test_and_set_def)
  have 3: "smp_reach 2 (?s 1 True (Loaded 1) (Starting 2))"
    using smp_reach.step [OF 2 smp_step.ap_read [of _ 1]] by simp
  have 4: "smp_reach 2 (?s 0 True Counted (Starting 2))"
    using smp_reach.step [OF 3 smp_step.ap_write [of _ 1 1]] by simp
  have 5: "smp_reach 2 (?s 0 False Hung (Starting 2))"
    using smp_reach.step [OF 4 smp_step.ap_release [of _ 1]] by (simp add: unlock_def)
  have 6: "smp_reach 2 (?s 0 False Hung Polling)"
    using smp_reach.step [OF 5 smp_step.all_booted [of _ 2]] by simp
  show ?thesis using smp_reach.step [OF 6 smp_step.finish] by (simp add: smp_two_def)
qed

theorem smp_init_waits_for_all_witness: "ap_done smp_two = 0 \<and> (ap smp_two 1 = Counted \<or> ap smp_two 1 = Hung)"
  using smp_init_waits_for_all [OF smp_two_reach] by (simp add: smp_two_def)

text \<open>What is left to do: the steps a processor still has before it, and those of the boot
  processor.\<close>

fun ap_left :: "ap_pc \<Rightarrow> nat" where
  "ap_left Parked = 5" | "ap_left Entered = 4" | "ap_left Locked = 3" | "ap_left (Loaded v) = 2"
| "ap_left Counted = 1" | "ap_left Hung = 0"

definition smp_left :: "smp \<Rightarrow> nat" where
  "smp_left s = (\<Sum>c \<in> {1..<cpu_count s}. ap_left (ap s c)) +
     (case bsp s of Starting i \<Rightarrow> cpu_count s - i + 2 | Polling \<Rightarrow> 1 | Finished \<Rightarrow> 0)"

lemma left_upd:
  assumes "1 \<le> c" and "c < (n :: nat)" and "ap_left p < ap_left (f c)"
  shows "(\<Sum>d \<in> {1..<n}. ap_left ((f(c := p)) d)) < (\<Sum>d \<in> {1..<n}. ap_left (f d))"
proof (rule sum_strict_mono_ex1)
  show "finite {1..<n}" by simp
  show "\<forall>d \<in> {1..<n}. ap_left ((f(c := p)) d) \<le> ap_left (f d)" using assms(3) by simp
  show "\<exists>d \<in> {1..<n}. ap_left ((f(c := p)) d) < ap_left (f d)"
    using assms by (intro bexI [of _ c]) simp_all
qed

lemma ap_step_left:
  assumes "smp_inv n s" and "ap s c \<noteq> Parked" and "ap_left p < ap_left (ap s c)"
    and "ap s' = (ap s)(c := p)" and "cpu_count s' = cpu_count s" and "bsp s' = bsp s"
  shows "smp_left s' < smp_left s"
proof -
  have "1 \<le> c" "c < n" using smp_invD(6) [OF assms(1,2)] by simp_all
  from left_upd [where f = "ap s", OF this assms(3)] show ?thesis
    unfolding smp_left_def assms(4-6) smp_invD(1) [OF assms(1)] by (rule add_strict_right_mono)
qed

text \<open>
  C31 The start-up cannot get stuck: in every reachable state in which some processor is not yet
  where it ends up (the boot processor past \<open>smp_init\<close>, the others hung), some step makes
  progress, and each such step leaves strictly less to do.
\<close>

theorem smp_init_progress:
  assumes "smp_reach n s" and "1 \<le> n" and "n < 2 ^ 31"
    and "\<not> (bsp s = Finished \<and> (\<forall>c. 1 \<le> c \<and> c < n \<longrightarrow> ap s c = Hung))"
  shows "\<exists>s'. smp_step s s' \<and> smp_left s' < smp_left s"
proof -
  have I: "smp_inv n s" by (rule smp_reach_inv [OF assms(1-3)])
  note inv = smp_invD [OF I]
  note ap_less = ap_step_left [OF I]
  show ?thesis
  proof (cases "\<exists>c. busy_ap (ap s c)")
    case True
    then obtain c where c: "busy_ap (ap s c)" by blast
    then consider "ap s c = Locked" | v where "ap s c = Loaded v" | "ap s c = Counted" by (auto simp: busy_ap_def)
    then show ?thesis
    proof cases
      case 1 then show ?thesis using smp_step.ap_read [OF 1] by (intro exI conjI) (assumption, rule ap_less [of c], auto)
    next
      case 2 then show ?thesis using smp_step.ap_write [OF 2] by (intro exI conjI) (assumption, rule ap_less [of c], auto)
    next
      case 3 then show ?thesis using smp_step.ap_release [OF 3] by (intro exI conjI) (assumption, rule ap_less [of c], auto)
    qed
  next
    case False
    then have free: "\<not> ap_done_lock s" using inv(3) by simp
    show ?thesis
    proof (cases "\<exists>c. ap s c = Entered")
      case True
      then obtain c where c: "ap s c = Entered" by blast
      have "try_lock (ap_done_lock s) = (True, True)" using free by (simp add: try_lock_def test_and_set_def)
      from smp_step.ap_acquire [OF c this] show ?thesis
        by (intro exI conjI) (assumption, rule ap_less [of c], use c in auto)
    next
      case none: False
      have rest: "ap s c = Parked \<or> ap s c = Hung" for c
        using False none by (cases "ap s c") (auto simp: busy_ap_def)
      show ?thesis
      proof (cases "bsp s")
        case (Starting i)
        show ?thesis
        proof (cases "i < cpu_count s")
          case True
          let ?s' = "s\<lparr>ap := (ap s)(i := Entered), bsp := Starting (Suc i)\<rparr>"
          have i: "1 \<le> i" "i < n" "ap s i = Parked" using inv(1,7,8) [OF] Starting True by auto
          have "(\<Sum>d \<in> {1..<n}. ap_left (((ap s)(i := Entered)) d)) < (\<Sum>d \<in> {1..<n}. ap_left (ap s d))"
            by (rule left_upd) (use i in simp_all)
          then have "smp_left ?s' < smp_left s" using inv(1) Starting True by (simp add: smp_left_def)
          with smp_step.boot_ap [OF Starting True] show ?thesis by blast
        next
          case False
          then have "smp_left (s\<lparr>bsp := Polling\<rparr>) < smp_left s" using Starting by (simp add: smp_left_def)
          with smp_step.all_booted [OF Starting False] show ?thesis by blast
        qed
      next
        case Polling
        have "to_come s = {}" using inv(1) inv(9) [OF Polling] rest by (force simp: to_come_def counted_def)
        then have "\<not> 0 < sint (ap_done s)" using counter_positive [of s] inv(1,2) assms(3) by simp
        moreover have "smp_left (s\<lparr>bsp := Finished\<rparr>) < smp_left s" using Polling by (simp add: smp_left_def)
        ultimately show ?thesis using smp_step.finish [OF Polling] by blast
      next
        case Finished
        then have "to_come s = {}" by (rule inv(10))
        then have "ap s c = Hung" if "1 \<le> c" "c < n" for c
          using rest [of c] that inv(1) by (auto simp: to_come_def counted_def)
        then show ?thesis using assms(4) Finished by blast
      qed
    qed
  qed
qed

theorem smp_init_progress_witness: "\<exists>s'. smp_step (smp_start 3) s' \<and> smp_left s' < smp_left (smp_start 3)"
  using smp_init_progress [OF smp_reach.start, of 3] by (simp add: smp_start_def)

end
