(* ===== verification/Unicode.thy ===== *)
theory Unicode
  imports Prelude
begin

text \<open>
  The character tables of the terminal (flanterm.c): the width of a code point
  (\<open>bisearch\<close>, \<open>mk_wcwidth\<close>) and its place in the font (\<open>unicode_to_cp437\<close>).
  \<open>None\<close> is a read outside a table.
\<close>

section \<open>Searching a table of intervals\<close>

type_synonym interval = "u32 \<times> u32"

text \<open>The loop of \<open>bisearch\<close>; its indices are C ints far below their bound, hence \<open>int\<close>.\<close>

function bisearch_loop :: "u32 \<Rightarrow> interval list \<Rightarrow> int \<Rightarrow> int \<Rightarrow> s32 option" where
  "bisearch_loop ucs table hi lo =
     (if hi \<ge> lo then
        let mid = (lo + hi) div 2 in
        case buf_get table mid of
          None \<Rightarrow> None
        | Some p \<Rightarrow>
            if ucs > snd p then bisearch_loop ucs table hi (mid + 1)
            else if ucs < fst p then bisearch_loop ucs table (mid - 1) lo
            else Some 1
      else Some 0)"
  by pat_completeness auto
termination
  by (relation "measure (\<lambda>(u, t, hi, lo). nat (hi + 1 - lo))") auto

declare bisearch_loop.simps [simp del]

definition bisearch :: "u32 \<Rightarrow> interval list \<Rightarrow> int \<Rightarrow> s32 option" where
  "bisearch ucs table max_i =
     (case (buf_get table 0, buf_get table max_i) of
        (Some p, Some q) \<Rightarrow> if ucs < fst p \<or> ucs > snd q then Some 0 else bisearch_loop ucs table max_i 0
      | _ \<Rightarrow> None)"

text \<open>Non-spacing characters, as the source lists them.\<close>

definition combining :: "interval list" where
  "combining = [
    (0x0300, 0x036F), (0x0483, 0x0486), (0x0488, 0x0489), (0x0591, 0x05BD),
    (0x05BF, 0x05BF), (0x05C1, 0x05C2), (0x05C4, 0x05C5), (0x05C7, 0x05C7),
    (0x0600, 0x0603), (0x0610, 0x0615), (0x064B, 0x065E), (0x0670, 0x0670),
    (0x06D6, 0x06E4), (0x06E7, 0x06E8), (0x06EA, 0x06ED), (0x070F, 0x070F),
    (0x0711, 0x0711), (0x0730, 0x074A), (0x07A6, 0x07B0), (0x07EB, 0x07F3),
    (0x0901, 0x0902), (0x093C, 0x093C), (0x0941, 0x0948), (0x094D, 0x094D),
    (0x0951, 0x0954), (0x0962, 0x0963), (0x0981, 0x0981), (0x09BC, 0x09BC),
    (0x09C1, 0x09C4), (0x09CD, 0x09CD), (0x09E2, 0x09E3), (0x0A01, 0x0A02),
    (0x0A3C, 0x0A3C), (0x0A41, 0x0A42), (0x0A47, 0x0A48), (0x0A4B, 0x0A4D),
    (0x0A70, 0x0A71), (0x0A81, 0x0A82), (0x0ABC, 0x0ABC), (0x0AC1, 0x0AC5),
    (0x0AC7, 0x0AC8), (0x0ACD, 0x0ACD), (0x0AE2, 0x0AE3), (0x0B01, 0x0B01),
    (0x0B3C, 0x0B3C), (0x0B3F, 0x0B3F), (0x0B41, 0x0B43), (0x0B4D, 0x0B4D),
    (0x0B56, 0x0B56), (0x0B82, 0x0B82), (0x0BC0, 0x0BC0), (0x0BCD, 0x0BCD),
    (0x0C3E, 0x0C40), (0x0C46, 0x0C48), (0x0C4A, 0x0C4D), (0x0C55, 0x0C56),
    (0x0CBC, 0x0CBC), (0x0CBF, 0x0CBF), (0x0CC6, 0x0CC6), (0x0CCC, 0x0CCD),
    (0x0CE2, 0x0CE3), (0x0D41, 0x0D43), (0x0D4D, 0x0D4D), (0x0DCA, 0x0DCA),
    (0x0DD2, 0x0DD4), (0x0DD6, 0x0DD6), (0x0E31, 0x0E31), (0x0E34, 0x0E3A),
    (0x0E47, 0x0E4E), (0x0EB1, 0x0EB1), (0x0EB4, 0x0EB9), (0x0EBB, 0x0EBC),
    (0x0EC8, 0x0ECD), (0x0F18, 0x0F19), (0x0F35, 0x0F35), (0x0F37, 0x0F37),
    (0x0F39, 0x0F39), (0x0F71, 0x0F7E), (0x0F80, 0x0F84), (0x0F86, 0x0F87),
    (0x0F90, 0x0F97), (0x0F99, 0x0FBC), (0x0FC6, 0x0FC6), (0x102D, 0x1030),
    (0x1032, 0x1032), (0x1036, 0x1037), (0x1039, 0x1039), (0x1058, 0x1059),
    (0x1160, 0x11FF), (0x135F, 0x135F), (0x1712, 0x1714), (0x1732, 0x1734),
    (0x1752, 0x1753), (0x1772, 0x1773), (0x17B4, 0x17B5), (0x17B7, 0x17BD),
    (0x17C6, 0x17C6), (0x17C9, 0x17D3), (0x17DD, 0x17DD), (0x180B, 0x180D),
    (0x18A9, 0x18A9), (0x1920, 0x1922), (0x1927, 0x1928), (0x1932, 0x1932),
    (0x1939, 0x193B), (0x1A17, 0x1A18), (0x1B00, 0x1B03), (0x1B34, 0x1B34),
    (0x1B36, 0x1B3A), (0x1B3C, 0x1B3C), (0x1B42, 0x1B42), (0x1B6B, 0x1B73),
    (0x1DC0, 0x1DCA), (0x1DFE, 0x1DFF), (0x200B, 0x200F), (0x202A, 0x202E),
    (0x2060, 0x2063), (0x206A, 0x206F), (0x20D0, 0x20EF), (0x302A, 0x302F),
    (0x3099, 0x309A), (0xA806, 0xA806), (0xA80B, 0xA80B), (0xA825, 0xA826),
    (0xFB1E, 0xFB1E), (0xFE00, 0xFE0F), (0xFE20, 0xFE23), (0xFEFF, 0xFEFF),
    (0xFFF9, 0xFFFB), (0x10A01, 0x10A03), (0x10A05, 0x10A06), (0x10A0C, 0x10A0F),
    (0x10A38, 0x10A3A), (0x10A3F, 0x10A3F), (0x1D167, 0x1D169), (0x1D173, 0x1D182),
    (0x1D185, 0x1D18B), (0x1D1AA, 0x1D1AD), (0x1D242, 0x1D244), (0xE0001, 0xE0001),
    (0xE0020, 0xE007F), (0xE0100, 0xE01EF)]"

text \<open>The width of a code point in cells.\<close>

definition mk_wcwidth :: "u32 \<Rightarrow> s32 option" where
  "mk_wcwidth ucs =
     (if ucs = 0 then Some 0
      else if ucs < 32 \<or> (ucs \<ge> 0x7f \<and> ucs < 0xa0) then Some 1
      else Option.bind (bisearch ucs combining (int (length combining) - 1)) (\<lambda>b.
        if b \<noteq> 0 then Some 0
        else Some (1 + (if ucs \<ge> 0x1100 \<and>
             (ucs \<le> 0x115f \<or>
              ucs = 0x2329 \<or> ucs = 0x232a \<or>
              (ucs \<ge> 0x2e80 \<and> ucs \<le> 0xa4cf \<and> ucs \<noteq> 0x303f) \<or>
              (ucs \<ge> 0xac00 \<and> ucs \<le> 0xd7a3) \<or>
              (ucs \<ge> 0xf900 \<and> ucs \<le> 0xfaff) \<or>
              (ucs \<ge> 0xfe10 \<and> ucs \<le> 0xfe19) \<or>
              (ucs \<ge> 0xfe30 \<and> ucs \<le> 0xfe6f) \<or>
              (ucs \<ge> 0xff00 \<and> ucs \<le> 0xff60) \<or>
              (ucs \<ge> 0xffe0 \<and> ucs \<le> 0xffe6) \<or>
              (ucs \<ge> 0x20000 \<and> ucs \<le> 0x2fffd) \<or>
              (ucs \<ge> 0x30000 \<and> ucs \<le> 0x3fffd)) then 1 else 0))))"

section \<open>The font's code page\<close>

text \<open>The cases of \<open>unicode_to_cp437\<close>, in the order of the \<open>switch\<close>.\<close>

definition cp437_cases :: "(u64 \<times> s32) list" where
  "cp437_cases = [
    (0x263a, 1), (0x263b, 2), (0x2665, 3), (0x2666, 4), (0x2663, 5), (0x2660, 6),
    (0x2022, 7), (0x25d8, 8), (0x25cb, 9), (0x25d9, 10), (0x2642, 11), (0x2640, 12),
    (0x266a, 13), (0x266b, 14), (0x263c, 15), (0x25ba, 16), (0x25c4, 17), (0x2195, 18),
    (0x203c, 19), (0x00b6, 20), (0x00a7, 21), (0x25ac, 22), (0x21a8, 23), (0x2191, 24),
    (0x2193, 25), (0x2192, 26), (0x2190, 27), (0x221f, 28), (0x2194, 29), (0x25b2, 30),
    (0x25bc, 31), (0x2302, 127), (0x00c7, 128), (0x00fc, 129), (0x00e9, 130), (0x00e2, 131),
    (0x00e4, 132), (0x00e0, 133), (0x00e5, 134), (0x00e7, 135), (0x00ea, 136), (0x00eb, 137),
    (0x00e8, 138), (0x00ef, 139), (0x00ee, 140), (0x00ec, 141), (0x00c4, 142), (0x00c5, 143),
    (0x00c9, 144), (0x00e6, 145), (0x00c6, 146), (0x00f4, 147), (0x00f6, 148), (0x00f2, 149),
    (0x00fb, 150), (0x00f9, 151), (0x00ff, 152), (0x00d6, 153), (0x00dc, 154), (0x00a2, 155),
    (0x00a3, 156), (0x00a5, 157), (0x20a7, 158), (0x0192, 159), (0x00e1, 160), (0x00ed, 161),
    (0x00f3, 162), (0x00fa, 163), (0x00f1, 164), (0x00d1, 165), (0x00aa, 166), (0x00ba, 167),
    (0x00bf, 168), (0x2310, 169), (0x00ac, 170), (0x00bd, 171), (0x00bc, 172), (0x00a1, 173),
    (0x00ab, 174), (0x00bb, 175), (0x2591, 176), (0x2592, 177), (0x2593, 178), (0x2502, 179),
    (0x2524, 180), (0x2561, 181), (0x2562, 182), (0x2556, 183), (0x2555, 184), (0x2563, 185),
    (0x2551, 186), (0x2557, 187), (0x255d, 188), (0x255c, 189), (0x255b, 190), (0x2510, 191),
    (0x2514, 192), (0x2534, 193), (0x252c, 194), (0x251c, 195), (0x2500, 196), (0x253c, 197),
    (0x255e, 198), (0x255f, 199), (0x255a, 200), (0x2554, 201), (0x2569, 202), (0x2566, 203),
    (0x2560, 204), (0x2550, 205), (0x256c, 206), (0x2567, 207), (0x2568, 208), (0x2564, 209),
    (0x2565, 210), (0x2559, 211), (0x2558, 212), (0x2552, 213), (0x2553, 214), (0x256b, 215),
    (0x256a, 216), (0x2518, 217), (0x250c, 218), (0x2588, 219), (0x2584, 220), (0x258c, 221),
    (0x2590, 222), (0x2580, 223), (0x03b1, 224), (0x00df, 225), (0x0393, 226), (0x03c0, 227),
    (0x03a3, 228), (0x03c3, 229), (0x00b5, 230), (0x03c4, 231), (0x03a6, 232), (0x0398, 233),
    (0x03a9, 234), (0x03b4, 235), (0x221e, 236), (0x03c6, 237), (0x03b5, 238), (0x2229, 239),
    (0x2261, 240), (0x00b1, 241), (0x2265, 242), (0x2264, 243), (0x2320, 244), (0x2321, 245),
    (0x00f7, 246), (0x2248, 247), (0x00b0, 248), (0x2219, 249), (0x00b7, 250), (0x221a, 251),
    (0x207f, 252), (0x00b2, 253), (0x25a0, 254)]"

definition unicode_to_cp437 :: "u64 \<Rightarrow> s32" where
  "unicode_to_cp437 cp = (case map_of cp437_cases cp of Some g \<Rightarrow> g | None \<Rightarrow> - 1)"

section \<open>The search is membership\<close>

fun table_ok :: "interval list \<Rightarrow> bool" where
  "table_ok [] = True"
| "table_ok [p] = (fst p \<le> snd p)"
| "table_ok (p # q # r) = (fst p \<le> snd p \<and> snd p < fst q \<and> table_ok (q # r))"

definition in_table :: "u32 \<Rightarrow> interval list \<Rightarrow> bool" where
  "in_table u t \<longleftrightarrow> (\<exists>k < length t. fst (t ! k) \<le> u \<and> u \<le> snd (t ! k))"

lemma table_okD:
  assumes "table_ok t" and "j < length t"
  shows "fst (t ! j) \<le> snd (t ! j) \<and> (\<forall>i < j. snd (t ! i) < fst (t ! j))"
  using assms
proof (induction t arbitrary: j rule: table_ok.induct)
  case (3 p q r)
  show ?case
  proof (cases j)
    case (Suc k)
    with 3 have k: "fst ((q # r) ! k) \<le> snd ((q # r) ! k)" "\<forall>i < k. snd ((q # r) ! i) < fst ((q # r) ! k)"
      by auto
    have "fst q \<le> fst ((q # r) ! k)"
    proof (cases k)
      case (Suc m)
      have "fst q \<le> snd q" using 3(1) [of 0] 3(2) by simp
      also have "snd q < fst ((q # r) ! k)" using k(2) Suc by auto
      finally show ?thesis by simp
    qed simp
    then have "snd p < fst ((q # r) ! k)" using 3(2) by auto
    with k Suc show ?thesis by (auto simp: nth_Cons split: nat.splits)
  qed (use 3 in simp)
qed simp_all

lemma table_ok_mono:
  assumes "table_ok t" and "j < length t" and "i \<le> j"
  shows "snd (t ! i) \<le> snd (t ! j) \<and> fst (t ! i) \<le> fst (t ! j)"
proof (cases "i = j")
  case False
  then have "snd (t ! i) < fst (t ! j)" "fst (t ! i) \<le> snd (t ! i)" "fst (t ! j) \<le> snd (t ! j)"
    using table_okD [OF assms(1), of i] table_okD [OF assms(1,2)] assms(2,3) by auto
  then show ?thesis by (meson order.strict_implies_order order.trans)
qed simp

lemma bisearch_loop_correct:
  assumes "table_ok t" and "0 \<le> lo" and "hi < int (length t)"
    and "\<And>k. k < length t \<Longrightarrow> int k < lo \<Longrightarrow> snd (t ! k) < u"
    and "\<And>k. k < length t \<Longrightarrow> hi < int k \<Longrightarrow> u < fst (t ! k)"
  shows "bisearch_loop u t hi lo = Some (if in_table u t then 1 else 0)"
  using assms(2-)
proof (induction "nat (hi + 1 - lo)" arbitrary: hi lo rule: less_induct)
  case less
  show ?case
  proof (cases "lo \<le> hi")
    case False
    have "\<not> (fst (t ! k) \<le> u \<and> u \<le> snd (t ! k))" if "k < length t" for k
      using less.prems(3) [OF that] less.prems(4) [OF that] False by (meson leD less_le_trans linorder_le_less_linear)
    then have "\<not> in_table u t" by (auto simp: in_table_def)
    with False show ?thesis by (simp add: bisearch_loop.simps)
  next
    case True
    define m where "m = nat ((lo + hi) div 2)"
    have m: "(lo + hi) div 2 = int m" "lo \<le> int m" "int m \<le> hi" "m < length t"
      using True less.prems(1,2) by (auto simp: m_def)
    consider "u > snd (t ! m)" | "u < fst (t ! m)" | "fst (t ! m) \<le> u" "u \<le> snd (t ! m)" by fastforce
    then show ?thesis
    proof cases
      case 1
      have "bisearch_loop u t hi (int m + 1) = Some (if in_table u t then 1 else 0)"
      proof (rule less.hyps)
        show "snd (t ! k) < u" if "k < length t" "int k < int m + 1" for k
          using table_ok_mono [OF assms(1) m(4), of k] that 1 by auto
      qed (use m less.prems in auto)
      with 1 True m show ?thesis by (simp add: bisearch_loop.simps [of u t hi lo])
    next
      case 2
      have "bisearch_loop u t (int m - 1) lo = Some (if in_table u t then 1 else 0)"
      proof (rule less.hyps)
        show "u < fst (t ! k)" if "k < length t" "int m - 1 < int k" for k
          using table_ok_mono [OF assms(1) that(1), of m] that 2 by auto
      qed (use m less.prems in auto)
      moreover have "\<not> snd (t ! m) < u" using 2 table_okD [OF assms(1) m(4)] by auto
      ultimately show ?thesis using 2 True m by (simp add: bisearch_loop.simps [of u t hi lo])
    next
      case 3
      then have "in_table u t" using m(4) by (auto simp: in_table_def)
      moreover have "\<not> snd (t ! m) < u" "\<not> u < fst (t ! m)" using 3 by auto
      ultimately show ?thesis using True m by (simp add: bisearch_loop.simps [of u t hi lo])
    qed
  qed
qed

lemma bisearch_correct:
  assumes "table_ok t" and "t \<noteq> []"
  shows "bisearch u t (int (length t) - 1) = Some (if in_table u t then 1 else 0)"
proof -
  let ?n = "length t - 1"
  have n: "int (length t) - 1 = int ?n" "?n < length t" "0 < length t" using assms(2) by (auto simp: Suc_leI of_nat_diff)
  have g: "buf_get t 0 = Some (t ! 0)" "buf_get t (int ?n) = Some (t ! ?n)"
    using n buf_get_in [of 0 t] by simp_all
  show ?thesis
  proof (cases "u < fst (t ! 0) \<or> snd (t ! ?n) < u")
    case True
    have "\<not> (fst (t ! k) \<le> u \<and> u \<le> snd (t ! k))" if "k < length t" for k
    proof -
      have "k \<le> ?n" using that by simp
      then have "snd (t ! k) \<le> snd (t ! ?n)" "fst (t ! 0) \<le> fst (t ! k)"
        using table_ok_mono [OF assms(1) n(2)] table_ok_mono [OF assms(1) that, of 0] by auto
      with True show ?thesis by auto
    qed
    then have "\<not> in_table u t" by (auto simp: in_table_def)
    moreover have "bisearch u t (int ?n) = Some 0" unfolding bisearch_def g option.case prod.case using True by simp
    ultimately show ?thesis unfolding n(1) by simp
  next
    case False
    then have "bisearch u t (int ?n) = bisearch_loop u t (int ?n) 0"
      unfolding bisearch_def g option.case prod.case by simp
    moreover have "bisearch_loop u t (int ?n) 0 = Some (if in_table u t then 1 else 0)"
      by (rule bisearch_loop_correct [OF assms(1)]) (use n(2) in auto)
    ultimately show ?thesis unfolding n(1) by simp
  qed
qed

lemma in_table_set: "in_table u t \<longleftrightarrow> (\<exists>p \<in> set t. fst p \<le> u \<and> u \<le> snd p)"
  unfolding in_table_def by (metis in_set_conv_nth)

lemma combining_ok: "table_ok combining" "combining \<noteq> []"
  unfolding combining_def by simp_all

lemma wcwidth_defined: "\<exists>w. mk_wcwidth u = Some w \<and> w \<le> 2"
  using bisearch_correct [OF combining_ok, of u] by (simp add: mk_wcwidth_def)

section \<open>The code page as a finite map\<close>

lemma map_of_inj:
  assumes "distinct (map snd xs)" and "map_of xs a = Some g" and "map_of xs b = Some g"
  shows "a = b"
  using assms(2,3) [THEN map_of_SomeD] assms(1)
  by (metis (no_types, lifting) distinct_map inj_onD prod.inject snd_conv)

lemma cp437_keys: "distinct (map fst cp437_cases)"
proof -
  have "distinct (map (\<lambda>p. uint (fst p)) cp437_cases)" unfolding cp437_cases_def by simp
  moreover have "map (\<lambda>p. uint (fst p)) xs = map uint (map fst xs)" for xs :: "(u64 \<times> s32) list" by simp
  ultimately have "distinct (map uint (map fst cp437_cases))" by metis
  then show ?thesis by (rule distinct_map [THEN iffD1, THEN conjunct1])
qed

definition glyphs :: "nat list" where "glyphs = [1..<32] @ [127..<255]"

lemma in_glyphs: "k \<in> set glyphs \<longleftrightarrow> 1 \<le> k \<and> k \<le> 31 \<or> 127 \<le> k \<and> k \<le> 254" "distinct glyphs"
  unfolding glyphs_def set_append set_upt distinct_append by auto

lemma cp437_glyphs: "map snd cp437_cases = map of_nat glyphs" "distinct (map snd cp437_cases)"
proof -
  show e: "map snd cp437_cases = map of_nat glyphs"
    unfolding cp437_cases_def glyphs_def by (simp add: upt_rec)
  have "inj_on (of_nat :: nat \<Rightarrow> s32) (set glyphs)"
  proof (rule inj_onI)
    fix a b assume "a \<in> set glyphs" "b \<in> set glyphs" and eq: "(of_nat a :: s32) = of_nat b"
    then have "a < 2 ^ 32" "b < 2 ^ 32" unfolding in_glyphs by auto
    with eq unat_of_nat32 show "a = b" by metis
  qed
  with in_glyphs(2) show "distinct (map snd cp437_cases)" unfolding e by (simp only: distinct_map simp_thms)
qed

lemma glyph_set: "(of_nat ` set glyphs :: s32 set) = {g. 1 \<le> g \<and> g \<le> 31} \<union> {g. 127 \<le> g \<and> g \<le> 254}"
proof -
  have "g \<in> of_nat ` set glyphs \<longleftrightarrow> unat g \<in> set glyphs" for g :: s32
  proof
    assume "g \<in> of_nat ` set glyphs"
    then obtain k where k: "k \<in> set glyphs" "g = of_nat k" by blast
    then have "k < 2 ^ 32" unfolding in_glyphs by auto
    with k show "unat g \<in> set glyphs" by (simp add: unat_of_nat32)
  next
    assume "unat g \<in> set glyphs"
    then show "g \<in> of_nat ` set glyphs" by (rule rev_image_eqI) simp
  qed
  then show ?thesis by (auto simp: in_glyphs word_le_nat_alt)
qed

lemma cp437_no_error: "g \<in> set (map snd cp437_cases) \<Longrightarrow> g \<noteq> - 1"
proof
  assume g: "g \<in> set (map snd cp437_cases)" "g = - 1"
  then have "(- 1 :: s32) \<le> 31 \<or> (- 1 :: s32) \<le> 254" unfolding cp437_glyphs(1) set_map glyph_set by auto
  moreover have "\<not> (- 1 :: s32) \<le> 31" "\<not> (- 1 :: s32) \<le> 254"
    by (simp_all add: word_le_nat_alt unsigned_minus_1_eq_mask mask_eq_exp_minus_1)
  ultimately show False by blast
qed

section \<open>Properties\<close>

text \<open>
  The binary search agrees with looking at every interval: on a table of disjoint intervals in
  ascending order it returns 1 exactly for the members, and it reads only inside the table.
\<close>

theorem bisearch_is_membership:
  assumes "table_ok t" and "t \<noteq> []"
  shows "bisearch u t (int (length t) - 1) = Some (if \<exists>p \<in> set t. fst p \<le> u \<and> u \<le> snd p then 1 else 0)"
  using bisearch_correct [OF assms, of u] unfolding in_table_set .

theorem bisearch_is_membership_witness: "bisearch 0x0301 combining (int (length combining) - 1) = Some 1"
  using bisearch_is_membership [OF combining_ok, of "0x0301"] by (simp add: combining_def)

text \<open>
  A glyph is chosen for at most one code point, never a control position of the font, and every
  graphic position outside ASCII is reachable: \<open>unicode_to_cp437\<close> is a bijection between the code
  points it knows and the positions 1 to 31 and 127 to 254.
\<close>

theorem unicode_to_cp437_bijection:
  "bij_betw unicode_to_cp437 {cp. unicode_to_cp437 cp \<noteq> - 1} ({g. 1 \<le> g \<and> g \<le> 31} \<union> {g. 127 \<le> g \<and> g \<le> 254})"
proof -
  have known: "unicode_to_cp437 cp \<noteq> - 1 \<longleftrightarrow> map_of cp437_cases cp = Some (unicode_to_cp437 cp)" for cp
  proof (cases "map_of cp437_cases cp")
    case None
    then show ?thesis by (simp add: unicode_to_cp437_def)
  next
    case (Some g)
    then have "g \<in> set (map snd cp437_cases)" by (force dest: map_of_SomeD)
    from cp437_no_error [OF this] Some show ?thesis by (simp add: unicode_to_cp437_def)
  qed
  have inj: "inj_on unicode_to_cp437 {cp. unicode_to_cp437 cp \<noteq> - 1}"
  proof (rule inj_onI)
    fix a b assume "a \<in> {cp. unicode_to_cp437 cp \<noteq> - 1}" "b \<in> {cp. unicode_to_cp437 cp \<noteq> - 1}"
      and eq: "unicode_to_cp437 a = unicode_to_cp437 b"
    then have "map_of cp437_cases a = Some (unicode_to_cp437 a)" "map_of cp437_cases b = Some (unicode_to_cp437 a)"
      using known [of a] known [of b] by simp_all
    then show "a = b" by (rule map_of_inj [OF cp437_glyphs(2)])
  qed
  have "g \<in> unicode_to_cp437 ` {cp. unicode_to_cp437 cp \<noteq> - 1} \<longleftrightarrow> g \<in> set (map snd cp437_cases)" for g
  proof
    assume "g \<in> unicode_to_cp437 ` {cp. unicode_to_cp437 cp \<noteq> - 1}"
    then obtain cp where "map_of cp437_cases cp = Some g" using known by auto
    then show "g \<in> set (map snd cp437_cases)" by (force dest: map_of_SomeD)
  next
    assume g: "g \<in> set (map snd cp437_cases)"
    then obtain cp where "(cp, g) \<in> set cp437_cases" by (metis (no_types, lifting) in_set_conv_nth length_map nth_map prod.collapse)
    then have "map_of cp437_cases cp = Some g" using cp437_keys by (rule map_of_is_SomeI [rotated])
    then have "unicode_to_cp437 cp = g" by (simp add: unicode_to_cp437_def)
    then show "g \<in> unicode_to_cp437 ` {cp. unicode_to_cp437 cp \<noteq> - 1}" using cp437_no_error [OF g] by blast
  qed
  then have "unicode_to_cp437 ` {cp. unicode_to_cp437 cp \<noteq> - 1} = of_nat ` set glyphs"
    unfolding cp437_glyphs(1) set_map by blast
  with inj show ?thesis unfolding bij_betw_def glyph_set by blast
qed

end
