(* ===== verification/Flanterm.thy ===== *)
theory Flanterm
  imports Unicode
begin

text \<open>
  The terminal emulator (flanterm.h, flanterm.c): the context, the parser of control sequences
  and the function that takes one byte.

  The back end is a parameter: a record of the function pointers of the context.  Each reads the
  context and changes only the state of the back end (\<open>fb\<close>, what follows \<open>struct
  flanterm_context\<close> in the structure of the back end), as the functions of backends/fb.c do;
  a back end that can fault has a fault as one of its states.  \<open>None\<close> is an access outside
  \<open>esc_values\<close>, \<open>charsets\<close> or \<open>col256\<close>.
\<close>

section \<open>The context\<close>

record 'b flanterm_context =
  tab_size :: u64
  autoflush :: bool
  cursor_enabled :: bool
  scroll_enabled :: bool
  control_sequence :: bool
  csi :: bool
  escape :: bool
  osc :: bool
  osc_escape :: bool
  rrr :: bool
  discard_next :: bool
  bold :: bool
  bg_bold :: bool
  reverse_video :: bool
  dec_private :: bool
  insert_mode :: bool
  code_point :: u64
  unicode_remaining :: u64
  g_select :: u8
  charsets :: "u8 list"
  current_charset :: u64
  escape_offset :: u64
  esc_values_i :: u64
  saved_cursor_x :: u64
  saved_cursor_y :: u64
  current_primary :: u64
  current_bg :: u64
  scroll_top_margin :: u64
  scroll_bottom_margin :: u64
  esc_values :: "u32 list"
  oob_output :: u64
  saved_state_bold :: bool
  saved_state_bg_bold :: bool
  saved_state_reverse_video :: bool
  saved_state_current_charset :: u64
  saved_state_current_primary :: u64
  saved_state_current_bg :: u64
  rows :: u64
  cols :: u64
  fb :: 'b

text \<open>The function pointers; \<open>callback\<close>, the client's, may be null.  One of its arguments is
  sometimes the address of \<open>esc_values\<close>.\<close>

datatype cb_arg = Num u64 | Esc_values

record 'b backend =
  raw_putchar :: "u8 \<Rightarrow> 'b flanterm_context \<Rightarrow> 'b"
  clear :: "bool \<Rightarrow> 'b flanterm_context \<Rightarrow> 'b"
  set_cursor_pos :: "u64 \<Rightarrow> u64 \<Rightarrow> 'b flanterm_context \<Rightarrow> 'b"
  get_cursor_pos :: "'b flanterm_context \<Rightarrow> u64 \<times> u64"
  set_text_fg :: "u64 \<Rightarrow> 'b flanterm_context \<Rightarrow> 'b"
  set_text_bg :: "u64 \<Rightarrow> 'b flanterm_context \<Rightarrow> 'b"
  set_text_fg_bright :: "u64 \<Rightarrow> 'b flanterm_context \<Rightarrow> 'b"
  set_text_bg_bright :: "u64 \<Rightarrow> 'b flanterm_context \<Rightarrow> 'b"
  set_text_fg_rgb :: "u32 \<Rightarrow> 'b flanterm_context \<Rightarrow> 'b"
  set_text_bg_rgb :: "u32 \<Rightarrow> 'b flanterm_context \<Rightarrow> 'b"
  set_text_fg_default :: "'b flanterm_context \<Rightarrow> 'b"
  set_text_bg_default :: "'b flanterm_context \<Rightarrow> 'b"
  set_text_fg_default_bright :: "'b flanterm_context \<Rightarrow> 'b"
  set_text_bg_default_bright :: "'b flanterm_context \<Rightarrow> 'b"
  move_character :: "u64 \<Rightarrow> u64 \<Rightarrow> u64 \<Rightarrow> u64 \<Rightarrow> 'b flanterm_context \<Rightarrow> 'b"
  scroll :: "'b flanterm_context \<Rightarrow> 'b"
  revscroll :: "'b flanterm_context \<Rightarrow> 'b"
  swap_palette :: "'b flanterm_context \<Rightarrow> 'b"
  backend_save_state :: "'b flanterm_context \<Rightarrow> 'b"
  backend_restore_state :: "'b flanterm_context \<Rightarrow> 'b"
  double_buffer_flush :: "'b flanterm_context \<Rightarrow> 'b"
  callback :: "(u64 \<Rightarrow> u64 \<Rightarrow> cb_arg \<Rightarrow> u64 \<Rightarrow> 'b flanterm_context \<Rightarrow> 'b) option"

text \<open>A call through a function pointer, and one of the callback if there is one.\<close>

definition call :: "('b flanterm_context \<Rightarrow> 'b) \<Rightarrow> 'b flanterm_context \<Rightarrow> 'b flanterm_context" where
  "call f ctx = ctx\<lparr>fb := f ctx\<rparr>"

definition notify :: "'b backend \<Rightarrow> u64 \<Rightarrow> u64 \<Rightarrow> cb_arg \<Rightarrow> u64 \<Rightarrow> 'b flanterm_context \<Rightarrow> 'b flanterm_context" where
  "notify be k a b c ctx = (case callback be of None \<Rightarrow> ctx | Some f \<Rightarrow> call (f k a b c) ctx)"

definition FLANTERM_MAX_ESC_VALUES :: u64 where "FLANTERM_MAX_ESC_VALUES = 16"
definition FLANTERM_CB_DEC :: u64 where "FLANTERM_CB_DEC = 10"
definition FLANTERM_CB_BELL :: u64 where "FLANTERM_CB_BELL = 20"
definition FLANTERM_CB_PRIVATE_ID :: u64 where "FLANTERM_CB_PRIVATE_ID = 30"
definition FLANTERM_CB_STATUS_REPORT :: u64 where "FLANTERM_CB_STATUS_REPORT = 40"
definition FLANTERM_CB_POS_REPORT :: u64 where "FLANTERM_CB_POS_REPORT = 50"
definition FLANTERM_CB_KBD_LEDS :: u64 where "FLANTERM_CB_KBD_LEDS = 60"
definition FLANTERM_CB_MODE :: u64 where "FLANTERM_CB_MODE = 70"
definition FLANTERM_CB_LINUX :: u64 where "FLANTERM_CB_LINUX = 80"
definition FLANTERM_OOB_OUTPUT_ONLCR :: u64 where "FLANTERM_OOB_OUTPUT_ONLCR = push_bit 4 1"
definition CHARSET_DEFAULT :: u8 where "CHARSET_DEFAULT = 0"
definition CHARSET_DEC_SPECIAL :: u8 where "CHARSET_DEC_SPECIAL = 1"

definition flanterm_context_reinit :: "'b flanterm_context \<Rightarrow> 'b flanterm_context" where
  "flanterm_context_reinit ctx = ctx\<lparr>
     tab_size := 8, autoflush := True, cursor_enabled := True, scroll_enabled := True,
     control_sequence := False, csi := False, escape := False, osc := False, osc_escape := False,
     rrr := False, discard_next := False, bold := False, bg_bold := False, reverse_video := False,
     dec_private := False, insert_mode := False, unicode_remaining := 0, g_select := 0,
     charsets := [CHARSET_DEFAULT, CHARSET_DEC_SPECIAL], current_charset := 0, escape_offset := 0,
     esc_values_i := 0, saved_cursor_x := 0, saved_cursor_y := 0, current_primary := - 1,
     current_bg := - 1, scroll_top_margin := 0, scroll_bottom_margin := rows ctx,
     oob_output := FLANTERM_OOB_OUTPUT_ONLCR\<rparr>"

lemma call_simps [simp]:
  "esc_values_i (call f ctx) = esc_values_i ctx" "esc_values (call f ctx) = esc_values ctx"
  "cols (call f ctx) = cols ctx" "rows (call f ctx) = rows ctx"
  by (simp_all add: call_def)

section \<open>Colours and attributes\<close>

definition col256 :: "u32 list" where
  "col256 = [
    0x000000, 0x00005f, 0x000087, 0x0000af, 0x0000d7, 0x0000ff, 0x005f00, 0x005f5f,
    0x005f87, 0x005faf, 0x005fd7, 0x005fff, 0x008700, 0x00875f, 0x008787, 0x0087af,
    0x0087d7, 0x0087ff, 0x00af00, 0x00af5f, 0x00af87, 0x00afaf, 0x00afd7, 0x00afff,
    0x00d700, 0x00d75f, 0x00d787, 0x00d7af, 0x00d7d7, 0x00d7ff, 0x00ff00, 0x00ff5f,
    0x00ff87, 0x00ffaf, 0x00ffd7, 0x00ffff, 0x5f0000, 0x5f005f, 0x5f0087, 0x5f00af,
    0x5f00d7, 0x5f00ff, 0x5f5f00, 0x5f5f5f, 0x5f5f87, 0x5f5faf, 0x5f5fd7, 0x5f5fff,
    0x5f8700, 0x5f875f, 0x5f8787, 0x5f87af, 0x5f87d7, 0x5f87ff, 0x5faf00, 0x5faf5f,
    0x5faf87, 0x5fafaf, 0x5fafd7, 0x5fafff, 0x5fd700, 0x5fd75f, 0x5fd787, 0x5fd7af,
    0x5fd7d7, 0x5fd7ff, 0x5fff00, 0x5fff5f, 0x5fff87, 0x5fffaf, 0x5fffd7, 0x5fffff,
    0x870000, 0x87005f, 0x870087, 0x8700af, 0x8700d7, 0x8700ff, 0x875f00, 0x875f5f,
    0x875f87, 0x875faf, 0x875fd7, 0x875fff, 0x878700, 0x87875f, 0x878787, 0x8787af,
    0x8787d7, 0x8787ff, 0x87af00, 0x87af5f, 0x87af87, 0x87afaf, 0x87afd7, 0x87afff,
    0x87d700, 0x87d75f, 0x87d787, 0x87d7af, 0x87d7d7, 0x87d7ff, 0x87ff00, 0x87ff5f,
    0x87ff87, 0x87ffaf, 0x87ffd7, 0x87ffff, 0xaf0000, 0xaf005f, 0xaf0087, 0xaf00af,
    0xaf00d7, 0xaf00ff, 0xaf5f00, 0xaf5f5f, 0xaf5f87, 0xaf5faf, 0xaf5fd7, 0xaf5fff,
    0xaf8700, 0xaf875f, 0xaf8787, 0xaf87af, 0xaf87d7, 0xaf87ff, 0xafaf00, 0xafaf5f,
    0xafaf87, 0xafafaf, 0xafafd7, 0xafafff, 0xafd700, 0xafd75f, 0xafd787, 0xafd7af,
    0xafd7d7, 0xafd7ff, 0xafff00, 0xafff5f, 0xafff87, 0xafffaf, 0xafffd7, 0xafffff,
    0xd70000, 0xd7005f, 0xd70087, 0xd700af, 0xd700d7, 0xd700ff, 0xd75f00, 0xd75f5f,
    0xd75f87, 0xd75faf, 0xd75fd7, 0xd75fff, 0xd78700, 0xd7875f, 0xd78787, 0xd787af,
    0xd787d7, 0xd787ff, 0xd7af00, 0xd7af5f, 0xd7af87, 0xd7afaf, 0xd7afd7, 0xd7afff,
    0xd7d700, 0xd7d75f, 0xd7d787, 0xd7d7af, 0xd7d7d7, 0xd7d7ff, 0xd7ff00, 0xd7ff5f,
    0xd7ff87, 0xd7ffaf, 0xd7ffd7, 0xd7ffff, 0xff0000, 0xff005f, 0xff0087, 0xff00af,
    0xff00d7, 0xff00ff, 0xff5f00, 0xff5f5f, 0xff5f87, 0xff5faf, 0xff5fd7, 0xff5fff,
    0xff8700, 0xff875f, 0xff8787, 0xff87af, 0xff87d7, 0xff87ff, 0xffaf00, 0xffaf5f,
    0xffaf87, 0xffafaf, 0xffafd7, 0xffafff, 0xffd700, 0xffd75f, 0xffd787, 0xffd7af,
    0xffd7d7, 0xffd7ff, 0xffff00, 0xffff5f, 0xffff87, 0xffffaf, 0xffffd7, 0xffffff,
    0x080808, 0x121212, 0x1c1c1c, 0x262626, 0x303030, 0x3a3a3a, 0x444444, 0x4e4e4e,
    0x585858, 0x626262, 0x6c6c6c, 0x767676, 0x808080, 0x8a8a8a, 0x949494, 0x9e9e9e,
    0xa8a8a8, 0xb2b2b2, 0xbcbcbc, 0xc6c6c6, 0xd0d0d0, 0xdadada, 0xe4e4e4, 0xeeeeee]"

text \<open>\<open>sgr\<close>: the label \<open>def\<close>, and the targets of the other jumps.\<close>

definition sgr_default :: "'b backend \<Rightarrow> 'b flanterm_context \<Rightarrow> 'b flanterm_context" where
  "sgr_default be ctx =
     (let ctx = (if reverse_video ctx then call (swap_palette be) (ctx\<lparr>reverse_video := False\<rparr>) else ctx);
          ctx = ctx\<lparr>bold := False, bg_bold := False, current_primary := - 1, current_bg := - 1\<rparr>
      in call (set_text_fg_default be) (call (set_text_bg_default be) ctx))"

definition set_fg :: "'b backend \<Rightarrow> u64 \<Rightarrow> 'b flanterm_context \<Rightarrow> 'b flanterm_context" where
  "set_fg be v ctx =
     (if (bold ctx \<and> \<not> reverse_video ctx) \<or> (bg_bold ctx \<and> reverse_video ctx)
      then call (set_text_fg_bright be v) ctx else call (set_text_fg be v) ctx)"

definition set_bg :: "'b backend \<Rightarrow> u64 \<Rightarrow> 'b flanterm_context \<Rightarrow> 'b flanterm_context" where
  "set_bg be v ctx =
     (if (bold ctx \<and> reverse_video ctx) \<or> (bg_bold ctx \<and> \<not> reverse_video ctx)
      then call (set_text_bg_bright be v) ctx else call (set_text_bg be v) ctx)"

text \<open>One parameter other than 38 and 48.\<close>

definition sgr_value :: "'b backend \<Rightarrow> u32 \<Rightarrow> 'b flanterm_context \<Rightarrow> 'b flanterm_context" where
  "sgr_value be v ctx =
     (if v = 0 then sgr_default be ctx
      else if v = 1 then
        let ctx = ctx\<lparr>bold := True\<rparr> in
        if current_primary ctx \<noteq> - 1 then
          (if \<not> reverse_video ctx then call (set_text_fg_bright be (current_primary ctx)) ctx
           else call (set_text_bg_bright be (current_primary ctx)) ctx)
        else
          (if \<not> reverse_video ctx then call (set_text_fg_default_bright be) ctx
           else call (set_text_bg_default_bright be) ctx)
      else if v = 5 then
        let ctx = ctx\<lparr>bg_bold := True\<rparr> in
        if current_bg ctx \<noteq> - 1 then
          (if \<not> reverse_video ctx then call (set_text_bg_bright be (current_bg ctx)) ctx
           else call (set_text_fg_bright be (current_bg ctx)) ctx)
        else
          (if \<not> reverse_video ctx then call (set_text_bg_default_bright be) ctx
           else call (set_text_fg_default_bright be) ctx)
      else if v = 22 then
        let ctx = ctx\<lparr>bold := False\<rparr> in
        if current_primary ctx \<noteq> - 1 then
          (if \<not> reverse_video ctx then call (set_text_fg be (current_primary ctx)) ctx
           else call (set_text_bg be (current_primary ctx)) ctx)
        else
          (if \<not> reverse_video ctx then call (set_text_fg_default be) ctx
           else call (set_text_bg_default be) ctx)
      else if v = 25 then
        let ctx = ctx\<lparr>bg_bold := False\<rparr> in
        if current_bg ctx \<noteq> - 1 then
          (if \<not> reverse_video ctx then call (set_text_bg be (current_bg ctx)) ctx
           else call (set_text_fg be (current_bg ctx)) ctx)
        else
          (if \<not> reverse_video ctx then call (set_text_bg_default be) ctx
           else call (set_text_fg_default be) ctx)
      else if v \<ge> 30 \<and> v \<le> 37 then
        let ctx = ctx\<lparr>current_primary := ucast v - 30\<rparr> in
        if reverse_video ctx then set_bg be (ucast v - 30) ctx else set_fg be (ucast v - 30) ctx
      else if v \<ge> 40 \<and> v \<le> 47 then
        let ctx = ctx\<lparr>current_bg := ucast v - 40\<rparr> in
        if reverse_video ctx then set_fg be (ucast v - 40) ctx else set_bg be (ucast v - 40) ctx
      else if v \<ge> 90 \<and> v \<le> 97 then
        let ctx = ctx\<lparr>current_primary := ucast v - 90\<rparr> in
        if reverse_video ctx then call (set_text_bg_bright be (ucast v - 90)) ctx
        else call (set_text_fg_bright be (ucast v - 90)) ctx
      else if v \<ge> 100 \<and> v \<le> 107 then
        let ctx = ctx\<lparr>current_bg := ucast v - 100\<rparr> in
        if reverse_video ctx then call (set_text_fg_bright be (ucast v - 100)) ctx
        else call (set_text_bg_bright be (ucast v - 100)) ctx
      else if v = 39 then
        let ctx = ctx\<lparr>current_primary := - 1\<rparr>;
            ctx = (if reverse_video ctx then call (swap_palette be) ctx else ctx);
            ctx = (if \<not> bold ctx then call (set_text_fg_default be) ctx
                   else call (set_text_fg_default_bright be) ctx)
        in if reverse_video ctx then call (swap_palette be) ctx else ctx
      else if v = 49 then
        let ctx = ctx\<lparr>current_bg := - 1\<rparr>;
            ctx = (if reverse_video ctx then call (swap_palette be) ctx else ctx);
            ctx = (if \<not> bg_bold ctx then call (set_text_bg_default be) ctx
                   else call (set_text_bg_default_bright be) ctx)
        in if reverse_video ctx then call (swap_palette be) ctx else ctx
      else if v = 7 then
        (if \<not> reverse_video ctx then call (swap_palette be) (ctx\<lparr>reverse_video := True\<rparr>) else ctx)
      else if v = 27 then
        (if reverse_video ctx then call (swap_palette be) (ctx\<lparr>reverse_video := False\<rparr>) else ctx)
      else ctx)"

text \<open>The two forms of 38 and 48.\<close>

definition rgb_colour :: "'b backend \<Rightarrow> bool \<Rightarrow> u32 \<Rightarrow> u32 \<Rightarrow> u32 \<Rightarrow> 'b flanterm_context \<Rightarrow> 'b flanterm_context" where
  "rgb_colour be fg r g b ctx =
     call ((if fg then set_text_fg_rgb be else set_text_bg_rgb be) (push_bit 16 r OR push_bit 8 g OR b)) ctx"

definition palette_colour :: "'b backend \<Rightarrow> bool \<Rightarrow> u32 \<Rightarrow> 'b flanterm_context \<Rightarrow> 'b flanterm_context option" where
  "palette_colour be fg col ctx =
     (if col < 8 then Some (call ((if fg then set_text_fg be else set_text_bg be) (ucast col)) ctx)
      else if col < 16 then
        Some (call ((if fg then set_text_fg_bright be else set_text_bg_bright be) (ucast (col - 8))) ctx)
      else map_option (\<lambda>rgb. call ((if fg then set_text_fg_rgb be else set_text_bg_rgb be) rgb) ctx)
             (buf_get col256 (uint (col - 16))))"

text \<open>No branch touches the parameters, so the loop over them ends.\<close>

lemma sgr_value_params [simp]:
  "esc_values_i (sgr_value be v ctx) = esc_values_i ctx" "esc_values (sgr_value be v ctx) = esc_values ctx"
  by (simp_all add: sgr_value_def sgr_default_def set_fg_def set_bg_def Let_def)

lemma palette_colour_params:
  assumes "palette_colour be f v ctx = Some ctx'"
  shows "esc_values_i ctx' = esc_values_i ctx" "esc_values ctx' = esc_values ctx"
  using assms by (auto simp: palette_colour_def split: if_splits)

text \<open>The parameter index does not wrap, being below \<open>esc_values_i\<close>.\<close>

function sgr_loop :: "'b backend \<Rightarrow> nat \<Rightarrow> 'b flanterm_context \<Rightarrow> 'b flanterm_context option" where
  "sgr_loop be i ctx =
     (let n = unat (esc_values_i ctx); val = (\<lambda>k. buf_get (esc_values ctx) (int k)) in
      if i < n then
        (case val i of None \<Rightarrow> None | Some v \<Rightarrow>
           if v = 38 \<or> v = 48 then
             (if i + 1 \<ge> n then Some ctx
              else case val (i + 1) of None \<Rightarrow> None | Some kind \<Rightarrow>
                if kind = 2 then
                  (if i + 1 + 3 \<ge> n then Some ctx
                   else case (val (i + 2), val (i + 3), val (i + 4)) of
                          (Some r, Some g, Some b) \<Rightarrow> sgr_loop be (i + 5) (rgb_colour be (v = 38) r g b ctx)
                        | _ \<Rightarrow> None)
                else if kind = 5 then
                  (if i + 1 + 1 \<ge> n then Some ctx
                   else case val (i + 2) of None \<Rightarrow> None | Some col \<Rightarrow>
                     (case palette_colour be (v = 38) col ctx of None \<Rightarrow> None
                      | Some ctx' \<Rightarrow> sgr_loop be (i + 3) ctx'))
                else sgr_loop be (i + 2) ctx)
           else sgr_loop be (i + 1) (sgr_value be v ctx))
      else Some ctx)"
  by pat_completeness auto
termination
  by (relation "measure (\<lambda>(be, i, ctx). unat (esc_values_i ctx) - i)")
     (auto simp: rgb_colour_def dest: palette_colour_params)

declare sgr_loop.simps [simp del]

definition sgr :: "'b backend \<Rightarrow> 'b flanterm_context \<Rightarrow> 'b flanterm_context option" where
  "sgr be ctx = (if esc_values_i ctx = 0 then Some (sgr_default be ctx) else sgr_loop be 0 ctx)"

section \<open>Character constants\<close>

abbreviation (input) c_A :: u8 where "c_A \<equiv> 0x41"
abbreviation (input) c_B :: u8 where "c_B \<equiv> 0x42"
abbreviation (input) c_C :: u8 where "c_C \<equiv> 0x43"
abbreviation (input) c_D :: u8 where "c_D \<equiv> 0x44"
abbreviation (input) c_E :: u8 where "c_E \<equiv> 0x45"
abbreviation (input) c_F :: u8 where "c_F \<equiv> 0x46"
abbreviation (input) c_G :: u8 where "c_G \<equiv> 0x47"
abbreviation (input) c_H :: u8 where "c_H \<equiv> 0x48"
abbreviation (input) c_J :: u8 where "c_J \<equiv> 0x4a"
abbreviation (input) c_K :: u8 where "c_K \<equiv> 0x4b"
abbreviation (input) c_L :: u8 where "c_L \<equiv> 0x4c"
abbreviation (input) c_M :: u8 where "c_M \<equiv> 0x4d"
abbreviation (input) c_P :: u8 where "c_P \<equiv> 0x50"
abbreviation (input) c_X :: u8 where "c_X \<equiv> 0x58"
abbreviation (input) c_Z :: u8 where "c_Z \<equiv> 0x5a"
abbreviation (input) c_a :: u8 where "c_a \<equiv> 0x61"
abbreviation (input) c_c :: u8 where "c_c \<equiv> 0x63"
abbreviation (input) c_d :: u8 where "c_d \<equiv> 0x64"
abbreviation (input) c_e :: u8 where "c_e \<equiv> 0x65"
abbreviation (input) c_f :: u8 where "c_f \<equiv> 0x66"
abbreviation (input) c_h :: u8 where "c_h \<equiv> 0x68"
abbreviation (input) c_l :: u8 where "c_l \<equiv> 0x6c"
abbreviation (input) c_m :: u8 where "c_m \<equiv> 0x6d"
abbreviation (input) c_n :: u8 where "c_n \<equiv> 0x6e"
abbreviation (input) c_q :: u8 where "c_q \<equiv> 0x71"
abbreviation (input) c_r :: u8 where "c_r \<equiv> 0x72"
abbreviation (input) c_s :: u8 where "c_s \<equiv> 0x73"
abbreviation (input) c_u :: u8 where "c_u \<equiv> 0x75"
abbreviation (input) c_lbracket :: u8 where "c_lbracket \<equiv> 0x5b"
abbreviation (input) c_rbracket :: u8 where "c_rbracket \<equiv> 0x5d"
abbreviation (input) c_lparen :: u8 where "c_lparen \<equiv> 0x28"
abbreviation (input) c_rparen :: u8 where "c_rparen \<equiv> 0x29"
abbreviation (input) c_question :: u8 where "c_question \<equiv> 0x3f"
abbreviation (input) c_semicolon :: u8 where "c_semicolon \<equiv> 0x3b"
abbreviation (input) c_at :: u8 where "c_at \<equiv> 0x40"
abbreviation (input) c_backquote :: u8 where "c_backquote \<equiv> 0x60"
abbreviation (input) c_quote :: u8 where "c_quote \<equiv> 0x27"
abbreviation (input) c_backslash :: u8 where "c_backslash \<equiv> 0x5c"
abbreviation (input) c_space :: u8 where "c_space \<equiv> 0x20"
abbreviation (input) c_0 :: u8 where "c_0 \<equiv> 0x30"
abbreviation (input) c_7 :: u8 where "c_7 \<equiv> 0x37"
abbreviation (input) c_8 :: u8 where "c_8 \<equiv> 0x38"
abbreviation (input) c_9 :: u8 where "c_9 \<equiv> 0x39"
abbreviation (input) c_bell :: u8 where "c_bell \<equiv> 0x07"
abbreviation (input) c_backspace :: u8 where "c_backspace \<equiv> 0x08"
abbreviation (input) c_tab :: u8 where "c_tab \<equiv> 0x09"
abbreviation (input) c_newline :: u8 where "c_newline \<equiv> 0x0a"
abbreviation (input) c_return :: u8 where "c_return \<equiv> 0x0d"
abbreviation (input) c_escape :: u8 where "c_escape \<equiv> 0x1b"

text \<open>The two ways a \<open>size_t\<close> loop counter runs.\<close>

lemma count_up: "(i :: u64) < n \<Longrightarrow> unat (n - (i + 1)) < unat (n - i)"
proof -
  assume "i < n"
  then have "n - i \<noteq> 0" by auto
  then have "unat (n - i - 1) = unat (n - i) - 1" "0 < unat (n - i)"
    by (simp_all add: unat_minus_one unat_gt_0)
  then show ?thesis by (simp add: diff_diff_add)
qed

lemma count_down: "(i :: u64) \<noteq> x \<Longrightarrow> unat (i - 1 - x) < unat (i - x)"
proof -
  assume "i \<noteq> x"
  then have "i - x \<noteq> 0" by auto
  then have "unat (i - x - 1) = unat (i - x) - 1" "0 < unat (i - x)"
    by (simp_all add: unat_minus_one unat_gt_0)
  then show ?thesis by (simp add: algebra_simps)
qed

section \<open>The small parsers\<close>

definition dec_private_parse :: "'b backend \<Rightarrow> u8 \<Rightarrow> 'b flanterm_context \<Rightarrow> 'b flanterm_context" where
  "dec_private_parse be c ctx =
     (let ctx = ctx\<lparr>dec_private := False\<rparr> in
      if esc_values_i ctx = 0 then ctx
      else if c \<noteq> c_h \<and> c \<noteq> c_l then ctx
      else if esc_values ctx ! 0 = 25 then ctx\<lparr>cursor_enabled := (c = c_h)\<rparr>
      else notify be FLANTERM_CB_DEC (esc_values_i ctx) Esc_values (ucast c) ctx)"

definition linux_private_parse :: "'b backend \<Rightarrow> 'b flanterm_context \<Rightarrow> 'b flanterm_context" where
  "linux_private_parse be ctx =
     (if esc_values_i ctx = 0 then ctx else notify be FLANTERM_CB_LINUX (esc_values_i ctx) Esc_values 0 ctx)"

definition mode_toggle :: "'b backend \<Rightarrow> u8 \<Rightarrow> 'b flanterm_context \<Rightarrow> 'b flanterm_context" where
  "mode_toggle be c ctx =
     (if esc_values_i ctx = 0 then ctx
      else if c \<noteq> c_h \<and> c \<noteq> c_l then ctx
      else if esc_values ctx ! 0 = 4 then ctx\<lparr>insert_mode := (c = c_h)\<rparr>
      else notify be FLANTERM_CB_MODE (esc_values_i ctx) Esc_values (ucast c) ctx)"

definition osc_parse :: "u8 \<Rightarrow> 'b flanterm_context \<Rightarrow> 'b flanterm_context" where
  "osc_parse c ctx =
     (let cleanup = (\<lambda>ctx. ctx\<lparr>osc_escape := False, osc := False, escape := False\<rparr>) in
      if osc_escape ctx \<and> c = c_backslash then cleanup ctx
      else let ctx = ctx\<lparr>osc_escape := False\<rparr> in
        if c = c_escape then ctx\<lparr>osc_escape := True\<rparr>
        else if c = c_bell then cleanup ctx
        else ctx)"

section \<open>Control sequences\<close>

text \<open>Parameters are read and written at constant indices below 16 here.\<close>

definition esc_value :: "nat \<Rightarrow> 'b flanterm_context \<Rightarrow> u64" where
  "esc_value k ctx = ucast (esc_values ctx ! k)"

definition set_esc :: "nat \<Rightarrow> u64 \<Rightarrow> 'b flanterm_context \<Rightarrow> 'b flanterm_context" where
  "set_esc k v ctx = ctx\<lparr>esc_values := (esc_values ctx)[k := ucast v]\<rparr>"

text \<open>\<open>n\<close> calls of \<open>raw_putchar\<close> with a space.\<close>

definition put_spaces :: "'b backend \<Rightarrow> u64 \<Rightarrow> 'b flanterm_context \<Rightarrow> 'b flanterm_context" where
  "put_spaces be n = call (raw_putchar be c_space) ^^ unat n"

definition csi_up :: "'b backend \<Rightarrow> u64 \<Rightarrow> u64 \<Rightarrow> 'b flanterm_context \<Rightarrow> 'b flanterm_context" where
  "csi_up be x y ctx =
     (let ctx = (if esc_value 0 ctx > y then set_esc 0 y ctx else ctx);
          dest_y = y - esc_value 0 ctx;
          in_region = (scroll_top_margin ctx \<ge> dest_y \<and> scroll_top_margin ctx \<le> y) \<or>
                      (scroll_bottom_margin ctx \<ge> dest_y \<and> scroll_bottom_margin ctx \<le> y);
          dest_y = (if in_region \<and> dest_y < scroll_top_margin ctx then scroll_top_margin ctx else dest_y)
      in call (set_cursor_pos be x dest_y) ctx)"

definition csi_down :: "'b backend \<Rightarrow> u64 \<Rightarrow> u64 \<Rightarrow> 'b flanterm_context \<Rightarrow> 'b flanterm_context" where
  "csi_down be x y ctx =
     (let ctx = (if y + esc_value 0 ctx > rows ctx - 1 then set_esc 0 (rows ctx - 1 - y) ctx else ctx);
          dest_y = y + esc_value 0 ctx;
          in_region = (scroll_top_margin ctx \<ge> y \<and> scroll_top_margin ctx \<le> dest_y) \<or>
                      (scroll_bottom_margin ctx \<ge> y \<and> scroll_bottom_margin ctx \<le> dest_y);
          dest_y = (if in_region \<and> dest_y \<ge> scroll_bottom_margin ctx then scroll_bottom_margin ctx - 1 else dest_y)
      in call (set_cursor_pos be x dest_y) ctx)"

definition csi_position :: "'b backend \<Rightarrow> 'b flanterm_context \<Rightarrow> 'b flanterm_context" where
  "csi_position be ctx =
     (let ctx = (if esc_value 0 ctx \<noteq> 0 then set_esc 0 (esc_value 0 ctx - 1) ctx else ctx);
          ctx = (if esc_value 1 ctx \<noteq> 0 then set_esc 1 (esc_value 1 ctx - 1) ctx else ctx);
          ctx = (if esc_value 1 ctx \<ge> cols ctx then set_esc 1 (cols ctx - 1) ctx else ctx);
          ctx = (if esc_value 0 ctx \<ge> rows ctx then set_esc 0 (rows ctx - 1) ctx else ctx)
      in call (set_cursor_pos be (esc_value 1 ctx) (esc_value 0 ctx)) ctx)"

definition csi_insert_lines :: "'b backend \<Rightarrow> u64 \<Rightarrow> 'b flanterm_context \<Rightarrow> 'b flanterm_context" where
  "csi_insert_lines be y ctx =
     (let old_scroll_top_margin = scroll_top_margin ctx;
          ctx = ctx\<lparr>scroll_top_margin := y\<rparr>;
          ctx = (call (revscroll be) ^^ unat (esc_value 0 ctx)) ctx
      in ctx\<lparr>scroll_top_margin := old_scroll_top_margin\<rparr>)"

text \<open>The loops of \<open>ED 1\<close>: columns of a row, which may end at the cursor, and rows.\<close>

function erase_row :: "'b backend \<Rightarrow> u64 \<Rightarrow> u64 \<Rightarrow> u64 \<Rightarrow> u64 \<Rightarrow> 'b flanterm_context \<Rightarrow> bool \<times> 'b flanterm_context" where
  "erase_row be x y yc xc ctx =
     (if xc < cols ctx then
        let ctx' = call (raw_putchar be c_space) ctx in
        if xc = x \<and> yc = y then (True, call (set_cursor_pos be x y) ctx')
        else erase_row be x y yc (xc + 1) ctx'
      else (False, ctx))"
  by pat_completeness auto
termination
  by (relation "measure (\<lambda>(be, x, y, yc, xc, ctx). unat (cols ctx - xc))")
     (auto simp: count_up)

lemma erase_row_frame [simp]:
  "rows (snd (erase_row be x y yc xc ctx)) = rows ctx" "cols (snd (erase_row be x y yc xc ctx)) = cols ctx"
  by (induction be x y yc xc ctx rule: erase_row.induct) (auto simp: Let_def)

declare erase_row.simps [simp del]

function erase_rows :: "'b backend \<Rightarrow> u64 \<Rightarrow> u64 \<Rightarrow> u64 \<Rightarrow> 'b flanterm_context \<Rightarrow> 'b flanterm_context" where
  "erase_rows be x y yc ctx =
     (if yc < rows ctx then
        let (b, ctx') = erase_row be x y yc 0 ctx in
        if b then ctx' else erase_rows be x y (yc + 1) ctx'
      else ctx)"
  by pat_completeness auto
termination
proof (relation "measure (\<lambda>(be, x, y, yc, ctx). unat (rows ctx - yc))")
  fix be :: "'b backend" and x y yc :: u64 and ctx ctx' :: "'b flanterm_context" and r b
  assume "yc < rows ctx" "r = erase_row be x y yc 0 ctx" "(b, ctx') = r"
  then have "rows ctx' = rows ctx" using erase_row_frame(1) [of be x y yc 0 ctx] by (metis snd_conv)
  then show "((be, x, y, yc + 1, ctx'), be, x, y, yc, ctx) \<in> measure (\<lambda>(be, x, y, yc, ctx). unat (rows ctx - yc))"
    using \<open>yc < rows ctx\<close> by (simp add: count_up)
qed simp

definition csi_erase_display :: "'b backend \<Rightarrow> u64 \<Rightarrow> u64 \<Rightarrow> 'b flanterm_context \<Rightarrow> 'b flanterm_context" where
  "csi_erase_display be x y ctx =
     (if esc_value 0 ctx = 0 then
        let rows_remaining = rows ctx - (y + 1);
            cols_diff = cols ctx - (x + 1);
            to_clear = rows_remaining * cols ctx + cols_diff + 1
        in call (set_cursor_pos be x y) (put_spaces be to_clear ctx)
      else if esc_value 0 ctx = 1 then erase_rows be x y 0 (call (set_cursor_pos be 0 0) ctx)
      else if esc_value 0 ctx = 2 \<or> esc_value 0 ctx = 3 then call (clear be False) ctx
      else ctx)"

text \<open>\<open>ICH\<close>: from the last column down to the cursor, and the loop of the insert mode, which
  moves by one cell and does not blank.\<close>

function csi_insert_loop :: "'b backend \<Rightarrow> u64 \<Rightarrow> u64 \<Rightarrow> u64 \<Rightarrow> 'b flanterm_context \<Rightarrow> 'b flanterm_context" where
  "csi_insert_loop be x y i ctx =
     (let ctx = call (move_character be (i + esc_value 0 ctx) y i y) ctx;
          ctx = call (set_cursor_pos be i y) ctx;
          ctx = call (raw_putchar be c_space) ctx
      in if i = x then ctx else csi_insert_loop be x y (i - 1) ctx)"
  by pat_completeness auto
termination
  by (relation "measure (\<lambda>(be, x, y, i, ctx). unat (i - x))") (auto simp: count_down)

function insert_mode_loop :: "'b backend \<Rightarrow> u64 \<Rightarrow> u64 \<Rightarrow> u64 \<Rightarrow> 'b flanterm_context \<Rightarrow> 'b flanterm_context" where
  "insert_mode_loop be x y i ctx =
     (let ctx = call (move_character be (i + 1) y i y) ctx
      in if i = x then ctx else insert_mode_loop be x y (i - 1) ctx)"
  by pat_completeness auto
termination
  by (relation "measure (\<lambda>(be, x, y, i, ctx). unat (i - x))") (auto simp: count_down)

text \<open>\<open>DCH\<close>.\<close>

function csi_delete_loop :: "'b backend \<Rightarrow> u64 \<Rightarrow> u64 \<Rightarrow> 'b flanterm_context \<Rightarrow> 'b flanterm_context" where
  "csi_delete_loop be y i ctx =
     (if i < cols ctx
      then csi_delete_loop be y (i + 1) (call (move_character be (i - esc_value 0 ctx) y i y) ctx)
      else ctx)"
  by pat_completeness auto
termination
  by (relation "measure (\<lambda>(be, y, i, ctx). unat (cols ctx - i))") (auto simp: count_up)

declare erase_rows.simps [simp del] csi_insert_loop.simps [simp del]
  insert_mode_loop.simps [simp del] csi_delete_loop.simps [simp del]

definition csi_erase_chars :: "'b backend \<Rightarrow> u64 \<Rightarrow> u64 \<Rightarrow> 'b flanterm_context \<Rightarrow> 'b flanterm_context" where
  "csi_erase_chars be x y ctx = call (set_cursor_pos be x y) (put_spaces be (esc_value 0 ctx) ctx)"

definition csi_delete_chars :: "'b backend \<Rightarrow> u64 \<Rightarrow> u64 \<Rightarrow> 'b flanterm_context \<Rightarrow> 'b flanterm_context" where
  "csi_delete_chars be x y ctx =
     (let ctx = csi_delete_loop be y (x + esc_value 0 ctx) ctx;
          ctx = call (set_cursor_pos be (cols ctx - esc_value 0 ctx) y) ctx
      in csi_erase_chars be x y ctx)"

definition csi_erase_line :: "'b backend \<Rightarrow> u64 \<Rightarrow> u64 \<Rightarrow> 'b flanterm_context \<Rightarrow> 'b flanterm_context" where
  "csi_erase_line be x y ctx =
     (if esc_value 0 ctx = 0 then
        call (set_cursor_pos be x y) (put_spaces be (if x < cols ctx then cols ctx - x else 0) ctx)
      else if esc_value 0 ctx = 1 then put_spaces be x (call (set_cursor_pos be 0 y) ctx)
      else if esc_value 0 ctx = 2 then
        call (set_cursor_pos be x y) (put_spaces be (cols ctx) (call (set_cursor_pos be 0 y) ctx))
      else ctx)"

definition margin_params :: "'b flanterm_context \<Rightarrow> 'b flanterm_context" where
  "margin_params ctx =
     (let ctx = (if esc_value 0 ctx = 0 then set_esc 0 1 ctx else ctx)
      in if esc_value 1 ctx = 0 then set_esc 1 1 ctx else ctx)"

definition csi_set_margins :: "'b backend \<Rightarrow> 'b flanterm_context \<Rightarrow> 'b flanterm_context" where
  "csi_set_margins be ctx =
     (let ctx = margin_params ctx;
          ctx = ctx\<lparr>scroll_top_margin := 0, scroll_bottom_margin := rows ctx\<rparr>;
          ctx = (if esc_values_i ctx > 0 then ctx\<lparr>scroll_top_margin := ucast (esc_values ctx ! 0 - 1)\<rparr> else ctx);
          ctx = (if esc_values_i ctx > 1 then ctx\<lparr>scroll_bottom_margin := esc_value 1 ctx\<rparr> else ctx);
          ctx = (if scroll_top_margin ctx \<ge> rows ctx \<or> scroll_bottom_margin ctx > rows ctx \<or>
                    scroll_top_margin ctx \<ge> scroll_bottom_margin ctx - 1
                 then ctx\<lparr>scroll_top_margin := 0, scroll_bottom_margin := rows ctx\<rparr> else ctx)
      in call (set_cursor_pos be 0 0) ctx)"

text \<open>The \<open>switch\<close> on the final byte, with the cursor at \<open>(x, y)\<close>.\<close>

definition csi_command :: "'b backend \<Rightarrow> u8 \<Rightarrow> u64 \<Rightarrow> u64 \<Rightarrow> 'b flanterm_context \<Rightarrow> 'b flanterm_context option" where
  "csi_command be c x y ctx =
     (if c = c_F then Some (csi_up be 0 y ctx)
      else if c = c_A then Some (csi_up be x y ctx)
      else if c = c_E then Some (csi_down be 0 y ctx)
      else if c = c_e \<or> c = c_B then Some (csi_down be x y ctx)
      else if c = c_a \<or> c = c_C then
        let ctx = (if x + esc_value 0 ctx > cols ctx - 1 then set_esc 0 (cols ctx - 1 - x) ctx else ctx)
        in Some (call (set_cursor_pos be (x + esc_value 0 ctx) y) ctx)
      else if c = c_D then
        let ctx = (if esc_value 0 ctx > x then set_esc 0 x ctx else ctx)
        in Some (call (set_cursor_pos be (x - esc_value 0 ctx) y) ctx)
      else if c = c_c then Some (notify be FLANTERM_CB_PRIVATE_ID 0 (Num 0) 0 ctx)
      else if c = c_d then
        let ctx = set_esc 0 (esc_value 0 ctx - 1) ctx;
            ctx = (if esc_value 0 ctx \<ge> rows ctx then set_esc 0 (rows ctx - 1) ctx else ctx)
        in Some (call (set_cursor_pos be x (esc_value 0 ctx)) ctx)
      else if c = c_G \<or> c = c_backquote then
        let ctx = set_esc 0 (esc_value 0 ctx - 1) ctx;
            ctx = (if esc_value 0 ctx \<ge> cols ctx then set_esc 0 (cols ctx - 1) ctx else ctx)
        in Some (call (set_cursor_pos be (esc_value 0 ctx) y) ctx)
      else if c = c_H \<or> c = c_f then Some (csi_position be ctx)
      else if c = c_M then Some ((call (scroll be) ^^ unat (esc_value 0 ctx)) ctx)
      else if c = c_L then Some (csi_insert_lines be y ctx)
      else if c = c_n then
        (if esc_value 0 ctx = 5 then Some (notify be FLANTERM_CB_STATUS_REPORT 0 (Num 0) 0 ctx)
         else if esc_value 0 ctx = 6 then Some (notify be FLANTERM_CB_POS_REPORT (x + 1) (Num (y + 1)) 0 ctx)
         else Some ctx)
      else if c = c_q then Some (notify be FLANTERM_CB_KBD_LEDS (esc_value 0 ctx) (Num 0) 0 ctx)
      else if c = c_J then Some (csi_erase_display be x y ctx)
      else if c = c_at then Some (call (set_cursor_pos be x y) (csi_insert_loop be x y (cols ctx - 1) ctx))
      else if c = c_P then Some (csi_delete_chars be x y ctx)
      else if c = c_X then Some (csi_erase_chars be x y ctx)
      else if c = c_m then sgr be ctx
      else if c = c_s then
        let (sx, sy) = get_cursor_pos be ctx in Some (ctx\<lparr>saved_cursor_x := sx, saved_cursor_y := sy\<rparr>)
      else if c = c_u then Some (call (set_cursor_pos be (saved_cursor_x ctx) (saved_cursor_y ctx)) ctx)
      else if c = c_K then Some (csi_erase_line be x y ctx)
      else if c = c_r then Some (csi_set_margins be ctx)
      else if c = c_l \<or> c = c_h then Some (mode_toggle be c ctx)
      else if c = c_rbracket then Some (linux_private_parse be ctx)
      else Some ctx)"

text \<open>The missing parameters get their default.\<close>

definition fill_defaults :: "u8 \<Rightarrow> 'b flanterm_context \<Rightarrow> 'b flanterm_context" where
  "fill_defaults c ctx =
     (let esc_default = (if c = c_J \<or> c = c_K \<or> c = c_q then 0 else 1)
      in ctx\<lparr>esc_values := fold (\<lambda>i vs. vs[i := esc_default])
               [unat (esc_values_i ctx) ..< unat FLANTERM_MAX_ESC_VALUES] (esc_values ctx)\<rparr>)"

definition csi_cleanup :: "'b flanterm_context \<Rightarrow> 'b flanterm_context" where
  "csi_cleanup ctx = ctx\<lparr>control_sequence := False, escape := False\<rparr>"

text \<open>From the final byte on.\<close>

definition csi_dispatch :: "'b backend \<Rightarrow> u8 \<Rightarrow> 'b flanterm_context \<Rightarrow> 'b flanterm_context option" where
  "csi_dispatch be c ctx =
     (let ctx = fill_defaults c ctx in
      if dec_private ctx then Some (csi_cleanup (dec_private_parse be c ctx))
      else
        let r = scroll_enabled ctx;
            ctx = ctx\<lparr>scroll_enabled := False\<rparr>;
            (x, y) = get_cursor_pos be ctx
        in map_option (\<lambda>ctx. csi_cleanup (ctx\<lparr>scroll_enabled := r\<rparr>)) (csi_command be c x y ctx))"

definition csi_digit :: "u8 \<Rightarrow> 'b flanterm_context \<Rightarrow> 'b flanterm_context option" where
  "csi_digit c ctx =
     (let k = uint (esc_values_i ctx); ctx = ctx\<lparr>rrr := True\<rparr> in
      case buf_get (esc_values ctx) k of None \<Rightarrow> None
      | Some v \<Rightarrow> map_option (\<lambda>vs. ctx\<lparr>esc_values := vs\<rparr>)
                   (buf_set (esc_values ctx) k (v * 10 + ucast (c - c_0))))"

definition control_sequence_parse :: "'b backend \<Rightarrow> u8 \<Rightarrow> 'b flanterm_context \<Rightarrow> 'b flanterm_context option" where
  "control_sequence_parse be c ctx =
     (if escape_offset ctx = 2 \<and> c = c_lbracket then Some (csi_cleanup (ctx\<lparr>discard_next := True\<rparr>))
      else if escape_offset ctx = 2 \<and> c = c_question then Some (ctx\<lparr>dec_private := True\<rparr>)
      else if c \<ge> c_0 \<and> c \<le> c_9 then
        (if esc_values_i ctx = FLANTERM_MAX_ESC_VALUES then Some ctx else csi_digit c ctx)
      else if rrr ctx then
        let ctx = ctx\<lparr>esc_values_i := esc_values_i ctx + 1, rrr := False\<rparr> in
        if c = c_semicolon then Some ctx else csi_dispatch be c ctx
      else if c = c_semicolon then
        (if esc_values_i ctx = FLANTERM_MAX_ESC_VALUES then Some ctx
         else map_option (\<lambda>vs. ctx\<lparr>esc_values := vs, esc_values_i := esc_values_i ctx + 1\<rparr>)
                (buf_set (esc_values ctx) (uint (esc_values_i ctx)) 0))
      else csi_dispatch be c ctx)"

section \<open>Escape sequences\<close>

definition restore_state :: "'b backend \<Rightarrow> 'b flanterm_context \<Rightarrow> 'b flanterm_context" where
  "restore_state be ctx =
     call (backend_restore_state be) (ctx\<lparr>
       bold := saved_state_bold ctx, bg_bold := saved_state_bg_bold ctx,
       reverse_video := saved_state_reverse_video ctx, current_charset := saved_state_current_charset ctx,
       current_primary := saved_state_current_primary ctx, current_bg := saved_state_current_bg ctx\<rparr>)"

definition save_state :: "'b backend \<Rightarrow> 'b flanterm_context \<Rightarrow> 'b flanterm_context" where
  "save_state be ctx =
     (let ctx = call (backend_save_state be) ctx in ctx\<lparr>
       saved_state_bold := bold ctx, saved_state_bg_bold := bg_bold ctx,
       saved_state_reverse_video := reverse_video ctx, saved_state_current_charset := current_charset ctx,
       saved_state_current_primary := current_primary ctx, saved_state_current_bg := current_bg ctx\<rparr>)"

definition enter_csi :: "'b flanterm_context \<Rightarrow> 'b flanterm_context" where
  "enter_csi ctx = ctx\<lparr>esc_values := replicate (unat FLANTERM_MAX_ESC_VALUES) 0, esc_values_i := 0,
     rrr := False, control_sequence := True\<rparr>"

text \<open>The \<open>switch\<close> of \<open>escape_parse\<close>, for the characters that end the sequence.\<close>

definition escape_command :: "'b backend \<Rightarrow> u8 \<Rightarrow> u64 \<Rightarrow> u64 \<Rightarrow> 'b flanterm_context \<Rightarrow> 'b flanterm_context" where
  "escape_command be c x y ctx =
     (if c = c_7 then save_state be ctx
      else if c = c_8 then restore_state be ctx
      else if c = c_c then call (clear be True) (flanterm_context_reinit ctx)
      else if c = c_D then
        (if y = scroll_bottom_margin ctx - 1
         then call (set_cursor_pos be x y) (call (scroll be) ctx)
         else call (set_cursor_pos be x (y + 1)) ctx)
      else if c = c_E then
        (if y = scroll_bottom_margin ctx - 1
         then call (set_cursor_pos be 0 y) (call (scroll be) ctx)
         else call (set_cursor_pos be 0 (y + 1)) ctx)
      else if c = c_M then
        (if y = scroll_top_margin ctx
         then call (set_cursor_pos be 0 y) (call (revscroll be) ctx)
         else call (set_cursor_pos be 0 (y - 1)) ctx)
      else if c = c_Z then notify be FLANTERM_CB_PRIVATE_ID 0 (Num 0) 0 ctx
      else if c = c_lparen \<or> c = c_rparen then ctx\<lparr>g_select := c - c_quote\<rparr>
      else ctx)"

definition escape_parse :: "'b backend \<Rightarrow> u8 \<Rightarrow> 'b flanterm_context \<Rightarrow> 'b flanterm_context option" where
  "escape_parse be c ctx =
     (let ctx = ctx\<lparr>escape_offset := escape_offset ctx + 1\<rparr> in
      if osc ctx then Some (osc_parse c ctx)
      else if control_sequence ctx then control_sequence_parse be c ctx
      else if csi ctx then Some (enter_csi (ctx\<lparr>csi := False\<rparr>))
      else
        let (x, y) = get_cursor_pos be ctx in
        if c = c_rbracket then Some (ctx\<lparr>osc_escape := False, osc := True\<rparr>)
        else if c = c_lbracket then Some (enter_csi ctx)
        else Some ((escape_command be c x y ctx)\<lparr>escape := False\<rparr>))"

section \<open>Characters\<close>

text \<open>The cases of \<open>dec_special_print\<close>.\<close>

definition dec_special_cases :: "(u8 \<times> u8) list" where
  "dec_special_cases = [
    (0x60, 0x04), (0x30, 0xdb), (0x2d, 0x18), (0x2c, 0x1b), (0x2e, 0x19), (0x61, 0xb1), (0x66, 0xf8),
    (0x67, 0xf1), (0x68, 0xb0), (0x6a, 0xd9), (0x6b, 0xbf), (0x6c, 0xda), (0x6d, 0xc0), (0x6e, 0xc5),
    (0x71, 0xc4), (0x73, 0x5f), (0x74, 0xc3), (0x75, 0xb4), (0x76, 0xc1), (0x77, 0xc2), (0x78, 0xb3),
    (0x79, 0xf3), (0x7a, 0xf2), (0x7e, 0xfa), (0x5f, 0xff), (0x2b, 0x1a), (0x7b, 0xe3), (0x7d, 0x9c)]"

definition dec_special_print :: "'b backend \<Rightarrow> u8 \<Rightarrow> 'b flanterm_context \<Rightarrow> bool \<times> 'b flanterm_context" where
  "dec_special_print be c ctx =
     (case map_of dec_special_cases c of
        Some g \<Rightarrow> (True, call (raw_putchar be g) ctx) | None \<Rightarrow> (False, ctx))"

text \<open>CAN and SUB, and the byte after \<open>ESC [ [\<close>.\<close>

definition discard :: "'b flanterm_context \<Rightarrow> 'b flanterm_context" where
  "discard ctx = ctx\<lparr>discard_next := False, escape := False, csi := False, control_sequence := False,
     unicode_remaining := 0, osc := False, osc_escape := False, g_select := 0\<rparr>"

text \<open>A complete code point.\<close>

definition put_code_point :: "'b backend \<Rightarrow> 'b flanterm_context \<Rightarrow> 'b flanterm_context option" where
  "put_code_point be ctx =
     (let cc = unicode_to_cp437 (code_point ctx) in
      if cc = - 1 then
        map_option
          (\<lambda>w. let replacement_width = scast w :: u64;
                   ctx = (if replacement_width > 0 then call (raw_putchar be 0xfe) ctx else ctx)
               in put_spaces be (if 1 < replacement_width then replacement_width - 1 else 0) ctx)
          (mk_wcwidth (ucast (code_point ctx)))
      else Some (call (raw_putchar be (ucast cc)) ctx))"

text \<open>A continuation byte and a leading byte of UTF-8.\<close>

definition utf8_continue :: "'b backend \<Rightarrow> u8 \<Rightarrow> 'b flanterm_context \<Rightarrow> 'b flanterm_context option" where
  "utf8_continue be c ctx =
     (let ctx = ctx\<lparr>unicode_remaining := unicode_remaining ctx - 1\<rparr>;
          ctx = ctx\<lparr>code_point := code_point ctx OR
                      push_bit (6 * unat (unicode_remaining ctx)) (ucast (c AND 0x3f))\<rparr>
      in if unicode_remaining ctx \<noteq> 0 then Some ctx else put_code_point be ctx)"

definition utf8_start :: "u8 \<Rightarrow> 'b flanterm_context \<Rightarrow> 'b flanterm_context" where
  "utf8_start c ctx =
     (if c \<ge> 0xc0 \<and> c \<le> 0xdf then
        ctx\<lparr>unicode_remaining := 1, code_point := push_bit 6 (ucast (c AND 0x1f))\<rparr>
      else if c \<ge> 0xe0 \<and> c \<le> 0xef then
        ctx\<lparr>unicode_remaining := 2, code_point := push_bit (6 * 2) (ucast (c AND 0x0f))\<rparr>
      else if c \<ge> 0xf0 \<and> c \<le> 0xf7 then
        ctx\<lparr>unicode_remaining := 3, code_point := push_bit (6 * 3) (ucast (c AND 0x07))\<rparr>
      else ctx)"

definition select_charset :: "u8 \<Rightarrow> 'b flanterm_context \<Rightarrow> 'b flanterm_context option" where
  "select_charset c ctx =
     (let ctx = ctx\<lparr>g_select := g_select ctx - 1\<rparr>; k = uint (g_select ctx);
          done = (\<lambda>cs. ctx\<lparr>charsets := cs, g_select := 0\<rparr>) in
      if c = c_B then map_option done (buf_set (charsets ctx) k CHARSET_DEFAULT)
      else if c = c_0 then map_option done (buf_set (charsets ctx) k CHARSET_DEC_SPECIAL)
      else Some (ctx\<lparr>g_select := 0\<rparr>))"

definition newline :: "'b backend \<Rightarrow> u64 \<Rightarrow> u64 \<Rightarrow> 'b flanterm_context \<Rightarrow> 'b flanterm_context" where
  "newline be x y ctx =
     (let x = (if oob_output ctx AND FLANTERM_OOB_OUTPUT_ONLCR \<noteq> 0 then 0 else x) in
      if y = scroll_bottom_margin ctx - 1
      then call (set_cursor_pos be x y) (call (scroll be) ctx)
      else call (set_cursor_pos be x (y + 1)) ctx)"

definition tabulate :: "'b backend \<Rightarrow> u64 \<Rightarrow> u64 \<Rightarrow> 'b flanterm_context \<Rightarrow> 'b flanterm_context" where
  "tabulate be x y ctx =
     (if x div tab_size ctx + 1 \<ge> cols ctx then call (set_cursor_pos be (cols ctx - 1) y) ctx
      else call (set_cursor_pos be ((x div tab_size ctx + 1) * tab_size ctx) y) ctx)"

text \<open>A character that is not a control character: insert mode, then the character set.\<close>

definition put_graphic :: "'b backend \<Rightarrow> u8 \<Rightarrow> u64 \<Rightarrow> u64 \<Rightarrow> 'b flanterm_context \<Rightarrow> 'b flanterm_context option" where
  "put_graphic be c x y ctx =
     (let ctx = (if insert_mode ctx then insert_mode_loop be x y (cols ctx - 1) ctx else ctx) in
      case buf_get (charsets ctx) (uint (current_charset ctx)) of
        None \<Rightarrow> None
      | Some cs \<Rightarrow>
          let (printed, ctx) = (if cs = CHARSET_DEC_SPECIAL then dec_special_print be c ctx else (False, ctx)) in
          if printed then Some ctx
          else if c \<ge> 0x20 \<and> c \<le> 0x7e then Some (call (raw_putchar be c) ctx) else Some ctx)"

definition put_plain :: "'b backend \<Rightarrow> u8 \<Rightarrow> 'b flanterm_context \<Rightarrow> 'b flanterm_context option" where
  "put_plain be c ctx =
     (let (x, y) = get_cursor_pos be ctx in
      if c = 0x00 \<or> c = 0x7f then Some ctx
      else if c = 0x9b then Some (ctx\<lparr>csi := True, escape_offset := 0, escape := True\<rparr>)
      else if c = c_escape then Some (ctx\<lparr>escape_offset := 0, escape := True\<rparr>)
      else if c = c_tab then Some (tabulate be x y ctx)
      else if c = 0x0b \<or> c = 0x0c \<or> c = c_newline then Some (newline be x y ctx)
      else if c = c_backspace then Some (call (set_cursor_pos be (x - 1) y) ctx)
      else if c = c_return then Some (call (set_cursor_pos be 0 y) ctx)
      else if c = c_bell then Some (notify be FLANTERM_CB_BELL 0 (Num 0) 0 ctx)
      else if c = 14 then Some (ctx\<lparr>current_charset := 1\<rparr>)
      else if c = 15 then Some (ctx\<lparr>current_charset := 0\<rparr>)
      else put_graphic be c x y ctx)"

text \<open>From the label \<open>unicode_error\<close> on.\<close>

definition put_byte :: "'b backend \<Rightarrow> u8 \<Rightarrow> 'b flanterm_context \<Rightarrow> 'b flanterm_context option" where
  "put_byte be c ctx =
     (if c \<ge> 0xc0 \<and> c \<le> 0xf7 then Some (utf8_start c ctx)
      else if escape ctx then escape_parse be c ctx
      else if g_select ctx \<noteq> 0 then select_charset c ctx
      else put_plain be c ctx)"

definition flanterm_putchar :: "'b backend \<Rightarrow> u8 \<Rightarrow> 'b flanterm_context \<Rightarrow> 'b flanterm_context option" where
  "flanterm_putchar be c ctx =
     (if discard_next ctx \<or> c = 0x18 \<or> c = 0x1a then Some (discard ctx)
      else if unicode_remaining ctx \<noteq> 0 then
        (if c AND 0xc0 \<noteq> 0x80 then put_byte be c (ctx\<lparr>unicode_remaining := 0\<rparr>)
         else utf8_continue be c ctx)
      else put_byte be c ctx)"

fun flanterm_putchars :: "'b backend \<Rightarrow> u8 list \<Rightarrow> 'b flanterm_context \<Rightarrow> 'b flanterm_context option" where
  "flanterm_putchars be [] ctx = Some ctx"
| "flanterm_putchars be (c # cs) ctx = Option.bind (flanterm_putchar be c ctx) (flanterm_putchars be cs)"

definition flanterm_write :: "'b backend \<Rightarrow> u8 list \<Rightarrow> 'b flanterm_context \<Rightarrow> 'b flanterm_context option" where
  "flanterm_write be buf ctx =
     map_option (\<lambda>ctx. if autoflush ctx then call (double_buffer_flush be) ctx else ctx)
       (flanterm_putchars be buf ctx)"

end
