(* ===== verification/Fb.thy ===== *)
theory Fb
  imports Flanterm
begin

text \<open>
  The frame buffer back end of the terminal (backends/fb.h, backends/fb.c).

  What \<open>struct flanterm_fb_context\<close> adds to \<open>struct flanterm_context\<close> is a record; every function
  takes the context, of which it reads the size of the screen, the margins and the two flags, and
  that record.  \<open>None\<close> is an access outside one of the arrays.  A pointer to an item of the queue
  is its index, so \<open>map\<close> holds indices or nothing.  The canvas is compiled in.
\<close>

section \<open>The context (fb.h)\<close>

record flanterm_fb_char =
  ch_c :: u32
  ch_fg :: u32
  ch_bg :: u32

record flanterm_fb_queue_item =
  item_x :: u64
  item_y :: u64
  item_c :: flanterm_fb_char

record flanterm_fb_context =
  font_width :: u64
  font_height :: u64
  glyph_width :: u64
  glyph_height :: u64
  font_scale_x :: u64
  font_scale_y :: u64
  offset_x :: u64
  offset_y :: u64
  framebuffer :: "u32 list"
  pitch :: u64
  width :: u64
  height :: u64
  font_bits_size :: u64
  font_bits :: "u8 list"
  font_bool_size :: u64
  font_bool :: "bool list"
  ansi_colours :: "u32 list"
  ansi_bright_colours :: "u32 list"
  default_fg :: u32
  default_bg :: u32
  default_fg_bright :: u32
  default_bg_bright :: u32
  canvas_size :: u64
  canvas :: "u32 list"
  grid_size :: u64
  queue_size :: u64
  map_size :: u64
  grid :: "flanterm_fb_char list"
  queue :: "flanterm_fb_queue_item list"
  queue_i :: nat
  cell_map :: "nat option list"
  text_fg :: u32
  text_bg :: u32
  cursor_x :: u64
  cursor_y :: u64
  saved_state_text_fg :: u32
  saved_state_text_bg :: u32
  saved_state_cursor_x :: u64
  saved_state_cursor_y :: u64
  old_cursor_x :: u64
  old_cursor_y :: u64

type_synonym 'b fb_op = "'b flanterm_context \<Rightarrow> flanterm_fb_context \<Rightarrow> flanterm_fb_context option"

section \<open>State and colours\<close>

definition flanterm_fb_save_state :: "flanterm_fb_context \<Rightarrow> flanterm_fb_context" where
  "flanterm_fb_save_state d = d\<lparr>
     saved_state_text_fg := text_fg d, saved_state_text_bg := text_bg d,
     saved_state_cursor_x := cursor_x d, saved_state_cursor_y := cursor_y d\<rparr>"

definition flanterm_fb_restore_state :: "flanterm_fb_context \<Rightarrow> flanterm_fb_context" where
  "flanterm_fb_restore_state d = d\<lparr>
     text_fg := saved_state_text_fg d, text_bg := saved_state_text_bg d,
     cursor_x := saved_state_cursor_x d, cursor_y := saved_state_cursor_y d\<rparr>"

definition flanterm_fb_swap_palette :: "flanterm_fb_context \<Rightarrow> flanterm_fb_context" where
  "flanterm_fb_swap_palette d = (let tmp = text_bg d in d\<lparr>text_bg := text_fg d, text_fg := tmp\<rparr>)"

definition flanterm_fb_set_text_fg :: "u64 \<Rightarrow> flanterm_fb_context \<Rightarrow> flanterm_fb_context option" where
  "flanterm_fb_set_text_fg v d = map_option (\<lambda>k. d\<lparr>text_fg := k\<rparr>) (buf_get (ansi_colours d) (uint v))"

definition flanterm_fb_set_text_bg :: "u64 \<Rightarrow> flanterm_fb_context \<Rightarrow> flanterm_fb_context option" where
  "flanterm_fb_set_text_bg v d = map_option (\<lambda>k. d\<lparr>text_bg := k\<rparr>) (buf_get (ansi_colours d) (uint v))"

definition flanterm_fb_set_text_fg_bright :: "u64 \<Rightarrow> flanterm_fb_context \<Rightarrow> flanterm_fb_context option" where
  "flanterm_fb_set_text_fg_bright v d =
     map_option (\<lambda>k. d\<lparr>text_fg := k\<rparr>) (buf_get (ansi_bright_colours d) (uint v))"

definition flanterm_fb_set_text_bg_bright :: "u64 \<Rightarrow> flanterm_fb_context \<Rightarrow> flanterm_fb_context option" where
  "flanterm_fb_set_text_bg_bright v d =
     map_option (\<lambda>k. d\<lparr>text_bg := k\<rparr>) (buf_get (ansi_bright_colours d) (uint v))"

definition flanterm_fb_set_text_fg_rgb :: "u32 \<Rightarrow> flanterm_fb_context \<Rightarrow> flanterm_fb_context" where
  "flanterm_fb_set_text_fg_rgb v d = d\<lparr>text_fg := v\<rparr>"

definition flanterm_fb_set_text_bg_rgb :: "u32 \<Rightarrow> flanterm_fb_context \<Rightarrow> flanterm_fb_context" where
  "flanterm_fb_set_text_bg_rgb v d = d\<lparr>text_bg := v\<rparr>"

definition flanterm_fb_set_text_fg_default :: "flanterm_fb_context \<Rightarrow> flanterm_fb_context" where
  "flanterm_fb_set_text_fg_default d = d\<lparr>text_fg := default_fg d\<rparr>"

definition flanterm_fb_set_text_bg_default :: "flanterm_fb_context \<Rightarrow> flanterm_fb_context" where
  "flanterm_fb_set_text_bg_default d = d\<lparr>text_bg := 0xffffffff\<rparr>"

definition flanterm_fb_set_text_fg_default_bright :: "flanterm_fb_context \<Rightarrow> flanterm_fb_context" where
  "flanterm_fb_set_text_fg_default_bright d = d\<lparr>text_fg := default_fg_bright d\<rparr>"

definition flanterm_fb_set_text_bg_default_bright :: "flanterm_fb_context \<Rightarrow> flanterm_fb_context" where
  "flanterm_fb_set_text_bg_default_bright d = d\<lparr>text_bg := default_bg_bright d\<rparr>"

section \<open>Drawing a character\<close>

text \<open>The colour \<open>0xffffffff\<close> is the canvas's.\<close>

definition shade :: "flanterm_fb_context \<Rightarrow> u32 \<Rightarrow> u64 \<Rightarrow> u32 option" where
  "shade d v q = (if v = 0xffffffff then buf_get (canvas d) (uint q) else Some v)"

text \<open>One dot of a glyph: at \<open>p\<close> of the frame buffer, at \<open>q\<close> of the canvas.\<close>

definition plot_dot :: "flanterm_fb_context \<Rightarrow> flanterm_fb_char \<Rightarrow> bool \<Rightarrow> u64 \<Rightarrow> u64 \<Rightarrow> u32 list \<Rightarrow> u32 list option" where
  "plot_dot d c draw p q pix =
     (case (shade d (ch_bg c) q, shade d (ch_fg c) q) of
        (Some bg, Some fg) \<Rightarrow> buf_set pix (uint p) (if draw then fg else bg)
      | _ \<Rightarrow> None)"

definition glyph_base :: "flanterm_fb_context \<Rightarrow> flanterm_fb_char \<Rightarrow> u64" where
  "glyph_base d c = ucast (ch_c c) * font_height d * font_width d"

definition font_row :: "flanterm_fb_context \<Rightarrow> u64 \<Rightarrow> u64" where
  "font_row d gy = ucast (ucast (gy div font_scale_y d) :: u8)"

text \<open>One line of a character with its corner at dot \<open>(x, y)\<close>.\<close>

definition plot_line :: "flanterm_fb_context \<Rightarrow> flanterm_fb_char \<Rightarrow> u64 \<Rightarrow> u64 \<Rightarrow> u64 \<Rightarrow> u32 list \<Rightarrow> u32 list option" where
  "plot_line d c x y gy =
     (let fy = font_row d gy;
          fb_line = x + (y + gy) * (pitch d div 4);
          canvas_line = x + (y + gy) * width d
      in for_range (\<lambda>fx pix.
           case buf_get (font_bool d) (uint (glyph_base d c + (fy * font_width d + of_nat fx))) of
             None \<Rightarrow> None
           | Some draw \<Rightarrow>
               for_range (\<lambda>i. let gx = font_scale_x d * of_nat fx + of_nat i
                              in plot_dot d c draw (fb_line + gx) (canvas_line + gx))
                 0 (unat (font_scale_x d)) pix)
         0 (unat (font_width d)))"

definition plot_char :: "'b flanterm_context \<Rightarrow> flanterm_fb_char \<Rightarrow> u64 \<Rightarrow> u64 \<Rightarrow> flanterm_fb_context \<Rightarrow> flanterm_fb_context option" where
  "plot_char t c x y d =
     (if x \<ge> cols t \<or> y \<ge> rows t then Some d
      else
        let x = offset_x d + x * glyph_width d;
            y = offset_y d + y * glyph_height d
        in map_option (\<lambda>pix. d\<lparr>framebuffer := pix\<rparr>)
             (for_range (\<lambda>gy. plot_line d c x y (of_nat gy)) 0 (unat (glyph_height d)) (framebuffer d)))"

text \<open>The fast version leaves out the dots the two glyphs share.\<close>

definition plot_line_fast ::
  "flanterm_fb_context \<Rightarrow> flanterm_fb_char \<Rightarrow> flanterm_fb_char \<Rightarrow> u64 \<Rightarrow> u64 \<Rightarrow> u64 \<Rightarrow> u32 list \<Rightarrow> u32 list option" where
  "plot_line_fast d old c x y gy =
     (let fy = font_row d gy;
          fb_line = x + (y + gy) * (pitch d div 4);
          canvas_line = x + (y + gy) * width d
      in for_range (\<lambda>fx pix.
           case (buf_get (font_bool d) (uint (glyph_base d old + (fy * font_width d + of_nat fx))),
                 buf_get (font_bool d) (uint (glyph_base d c + (fy * font_width d + of_nat fx)))) of
             (Some old_draw, Some new_draw) \<Rightarrow>
               if old_draw = new_draw then Some pix
               else for_range (\<lambda>i. let gx = font_scale_x d * of_nat fx + of_nat i
                                   in plot_dot d c new_draw (fb_line + gx) (canvas_line + gx))
                      0 (unat (font_scale_x d)) pix
           | _ \<Rightarrow> None)
         0 (unat (font_width d)))"

definition plot_char_fast ::
  "'b flanterm_context \<Rightarrow> flanterm_fb_char \<Rightarrow> flanterm_fb_char \<Rightarrow> u64 \<Rightarrow> u64 \<Rightarrow> flanterm_fb_context \<Rightarrow> flanterm_fb_context option" where
  "plot_char_fast t old c x y d =
     (if x \<ge> cols t \<or> y \<ge> rows t then Some d
      else
        let x = offset_x d + x * glyph_width d;
            y = offset_y d + y * glyph_height d
        in map_option (\<lambda>pix. d\<lparr>framebuffer := pix\<rparr>)
             (for_range (\<lambda>gy. plot_line_fast d old c x y (of_nat gy)) 0 (unat (glyph_height d)) (framebuffer d)))"

section \<open>The queue of updates\<close>

definition compare_char :: "flanterm_fb_char \<Rightarrow> flanterm_fb_char \<Rightarrow> bool" where
  "compare_char a b = (\<not> (ch_c a \<noteq> ch_c b \<or> ch_bg a \<noteq> ch_bg b \<or> ch_fg a \<noteq> ch_fg b))"

definition push_to_queue :: "'b flanterm_context \<Rightarrow> flanterm_fb_char \<Rightarrow> u64 \<Rightarrow> u64 \<Rightarrow> flanterm_fb_context \<Rightarrow> flanterm_fb_context option" where
  "push_to_queue t c x y d =
     (if x \<ge> cols t \<or> y \<ge> rows t then Some d
      else
        let i = uint (y * cols t + x) in
        case (buf_get (cell_map d) i, buf_get (grid d) i) of
          (Some None, Some g) \<Rightarrow>
            if compare_char g c then Some d
            else (case buf_set (queue d) (int (queue_i d)) \<lparr>item_x = x, item_y = y, item_c = c\<rparr> of
                    None \<Rightarrow> None
                  | Some qs \<Rightarrow> map_option (\<lambda>m. d\<lparr>queue := qs, cell_map := m, queue_i := queue_i d + 1\<rparr>)
                                 (buf_set (cell_map d) i (Some (queue_i d))))
        | (Some (Some k), _) \<Rightarrow>
            (case buf_get (queue d) (int k) of
               None \<Rightarrow> None
             | Some q \<Rightarrow> map_option (\<lambda>qs. d\<lparr>queue := qs\<rparr>) (buf_set (queue d) (int k) (q\<lparr>item_c := c\<rparr>)))
        | _ \<Rightarrow> None)"

text \<open>The character a cell will show: the queued one, or the grid's.\<close>

definition cell_at :: "flanterm_fb_context \<Rightarrow> u64 \<Rightarrow> flanterm_fb_char option" where
  "cell_at d i =
     (case buf_get (cell_map d) (uint i) of
        None \<Rightarrow> None
      | Some None \<Rightarrow> buf_get (grid d) (uint i)
      | Some (Some k) \<Rightarrow> map_option item_c (buf_get (queue d) (int k)))"

definition empty_char :: "flanterm_fb_context \<Rightarrow> flanterm_fb_char" where
  "empty_char d = \<lparr>ch_c = 0x20, ch_fg = text_fg d, ch_bg = text_bg d\<rparr>"

definition push_row :: "'b flanterm_context \<Rightarrow> flanterm_fb_char \<Rightarrow> u64 \<Rightarrow> flanterm_fb_context \<Rightarrow> flanterm_fb_context option" where
  "push_row t c y = for_range (\<lambda>i. push_to_queue t c (of_nat i) y) 0 (unat (cols t))"

lemma below_next: "(i :: u64) \<noteq> - 1 \<Longrightarrow> unat i < unat (i + 1)"
  using count_down [of i "- 1"] by simp

function revscroll_loop :: "'b flanterm_context \<Rightarrow> u64 \<Rightarrow> flanterm_fb_context \<Rightarrow> flanterm_fb_context option" where
  "revscroll_loop t i d =
     (if i \<ge> scroll_top_margin t * cols t then
        if i = - 1 then Some d
        else case cell_at d i of
          None \<Rightarrow> None
        | Some c \<Rightarrow>
            (case push_to_queue t c ((i + cols t) mod cols t) ((i + cols t) div cols t) d of
               None \<Rightarrow> None | Some d' \<Rightarrow> revscroll_loop t (i - 1) d')
      else Some d)"
  by pat_completeness auto
termination
  by (relation "measure (\<lambda>(t, i, d). unat (i + 1))") (auto simp: below_next)

declare revscroll_loop.simps [simp del]

definition flanterm_fb_revscroll :: "'b fb_op" where
  "flanterm_fb_revscroll t d =
     Option.bind (revscroll_loop t ((scroll_bottom_margin t - 1) * cols t - 1) d)
       (\<lambda>d. push_row t (empty_char d) (scroll_top_margin t) d)"

definition scroll_step :: "'b flanterm_context \<Rightarrow> u64 \<Rightarrow> flanterm_fb_context \<Rightarrow> flanterm_fb_context option" where
  "scroll_step t i d =
     Option.bind (cell_at d i) (\<lambda>c. push_to_queue t c ((i - cols t) mod cols t) ((i - cols t) div cols t) d)"

definition flanterm_fb_scroll :: "'b fb_op" where
  "flanterm_fb_scroll t d =
     Option.bind (for_range (\<lambda>i. scroll_step t (of_nat i))
                    (unat ((scroll_top_margin t + 1) * cols t)) (unat (scroll_bottom_margin t * cols t)) d)
       (\<lambda>d. push_row t (empty_char d) (scroll_bottom_margin t - 1) d)"

definition flanterm_fb_clear :: "bool \<Rightarrow> 'b fb_op" where
  "flanterm_fb_clear move t d =
     map_option (\<lambda>d. if move then d\<lparr>cursor_x := 0, cursor_y := 0\<rparr> else d)
       (for_range (\<lambda>i. push_to_queue t (empty_char d) (of_nat i mod cols t) (of_nat i div cols t))
          0 (unat (rows t * cols t)) d)"

definition flanterm_fb_set_cursor_pos :: "u64 \<Rightarrow> u64 \<Rightarrow> 'b flanterm_context \<Rightarrow> flanterm_fb_context \<Rightarrow> flanterm_fb_context" where
  "flanterm_fb_set_cursor_pos x y t d =
     (let x = (if x \<ge> cols t then if sint (ucast x :: s32) < 0 then 0 else cols t - 1 else x);
          y = (if y \<ge> rows t then if sint (ucast y :: s32) < 0 then 0 else rows t - 1 else y)
      in d\<lparr>cursor_x := x, cursor_y := y\<rparr>)"

definition flanterm_fb_get_cursor_pos :: "'b flanterm_context \<Rightarrow> flanterm_fb_context \<Rightarrow> u64 \<times> u64" where
  "flanterm_fb_get_cursor_pos t d =
     (if cursor_x d \<ge> cols t then cols t - 1 else cursor_x d,
      if cursor_y d \<ge> rows t then rows t - 1 else cursor_y d)"

definition flanterm_fb_move_character :: "u64 \<Rightarrow> u64 \<Rightarrow> u64 \<Rightarrow> u64 \<Rightarrow> 'b fb_op" where
  "flanterm_fb_move_character new_x new_y old_x old_y t d =
     (if old_x \<ge> cols t \<or> old_y \<ge> rows t \<or> new_x \<ge> cols t \<or> new_y \<ge> rows t then Some d
      else Option.bind (cell_at d (old_x + old_y * cols t)) (\<lambda>c. push_to_queue t c new_x new_y d))"

section \<open>Drawing the screen\<close>

definition draw_cursor :: "'b fb_op" where
  "draw_cursor t d =
     (if cursor_x d \<ge> cols t \<or> cursor_y d \<ge> rows t then Some d
      else
        let i = cursor_x d + cursor_y d * cols t in
        case (buf_get (cell_map d) (uint i), cell_at d i) of
          (Some q, Some c) \<Rightarrow>
            map_option (\<lambda>d. if q = None then d
                            else d\<lparr>grid := (grid d)[unat i := c], cell_map := (cell_map d)[unat i := None]\<rparr>)
              (plot_char t (c\<lparr>ch_fg := ch_bg c, ch_bg := ch_fg c\<rparr>) (cursor_x d) (cursor_y d) d)
        | _ \<Rightarrow> None)"

text \<open>One item of the queue.\<close>

definition flush_item :: "'b flanterm_context \<Rightarrow> nat \<Rightarrow> flanterm_fb_context \<Rightarrow> flanterm_fb_context option" where
  "flush_item t k d =
     (case buf_get (queue d) (int k) of
        None \<Rightarrow> None
      | Some q \<Rightarrow>
          let offset = item_y q * cols t + item_x q in
          case (buf_get (cell_map d) (uint offset), buf_get (grid d) (uint offset)) of
            (Some None, _) \<Rightarrow> Some d
          | (Some (Some _), Some old) \<Rightarrow>
              map_option (\<lambda>d. d\<lparr>grid := (grid d)[unat offset := item_c q],
                                cell_map := (cell_map d)[unat offset := None]\<rparr>)
                (if ch_bg (item_c q) = ch_bg old \<and> ch_fg (item_c q) = ch_fg old
                 then plot_char_fast t old (item_c q) (item_x q) (item_y q) d
                 else plot_char t (item_c q) (item_x q) (item_y q) d)
          | _ \<Rightarrow> None)"

text \<open>The cell the cursor has left.\<close>

definition erase_old_cursor :: "'b fb_op" where
  "erase_old_cursor t d =
     (if (old_cursor_x d \<noteq> cursor_x d \<or> old_cursor_y d \<noteq> cursor_y d) \<or> \<not> cursor_enabled t then
        if old_cursor_x d < cols t \<and> old_cursor_y d < rows t then
          (case buf_get (grid d) (uint (old_cursor_x d + old_cursor_y d * cols t)) of
             None \<Rightarrow> None | Some c \<Rightarrow> plot_char t c (old_cursor_x d) (old_cursor_y d) d)
        else Some d
      else Some d)"

definition flanterm_fb_double_buffer_flush :: "'b fb_op" where
  "flanterm_fb_double_buffer_flush t d =
     do { d \<leftarrow> (if cursor_enabled t then draw_cursor t d else Some d);
          d \<leftarrow> for_range (flush_item t) 0 (queue_i d) d;
          d \<leftarrow> erase_old_cursor t d;
          Some (d\<lparr>old_cursor_x := cursor_x d, old_cursor_y := cursor_y d, queue_i := 0\<rparr>) }"

text \<open>The end of a line, before a character is put.  The last test compares the row with the
  number of columns, as the source does.\<close>

definition wrap_line :: "'b fb_op" where
  "wrap_line t d =
     (if cursor_x d \<ge> cols t \<and> (cursor_y d < scroll_bottom_margin t - 1 \<or> scroll_enabled t) then
        let d = d\<lparr>cursor_x := 0, cursor_y := cursor_y d + 1\<rparr> in
        map_option (\<lambda>d. if cursor_y d \<ge> cols t then d\<lparr>cursor_y := cols t - 1\<rparr> else d)
          (if cursor_y d = scroll_bottom_margin t then flanterm_fb_scroll t (d\<lparr>cursor_y := cursor_y d - 1\<rparr>)
           else Some d)
      else Some d)"

definition flanterm_fb_raw_putchar :: "u8 \<Rightarrow> 'b fb_op" where
  "flanterm_fb_raw_putchar c t d =
     Option.bind (wrap_line t d) (\<lambda>d.
       push_to_queue t \<lparr>ch_c = ucast c, ch_fg = text_fg d, ch_bg = text_bg d\<rparr> (cursor_x d) (cursor_y d)
         (d\<lparr>cursor_x := cursor_x d + 1\<rparr>))"

definition copy_canvas :: "flanterm_fb_context \<Rightarrow> flanterm_fb_context option" where
  "copy_canvas d =
     map_option (\<lambda>pix. d\<lparr>framebuffer := pix\<rparr>)
       (for_range (\<lambda>y. for_range (\<lambda>x pix.
            Option.bind (buf_get (canvas d) (uint (of_nat y * width d + of_nat x :: u64)))
              (buf_set pix (uint (of_nat y * (pitch d div 4) + of_nat x :: u64))))
          0 (unat (width d))) 0 (unat (height d)) (framebuffer d))"

definition flanterm_fb_full_refresh :: "'b fb_op" where
  "flanterm_fb_full_refresh t d =
     do { d \<leftarrow> copy_canvas d;
          d \<leftarrow> for_range (\<lambda>i d. Option.bind (buf_get (grid d) (int i))
                 (\<lambda>c. plot_char t c (of_nat i mod cols t) (of_nat i div cols t) d))
               0 (unat (rows t * cols t)) d;
          if cursor_enabled t then draw_cursor t d else Some d }"

section \<open>The function pointers\<close>

text \<open>A back end that has faulted stays so.\<close>

definition fb_try :: "(flanterm_fb_context option flanterm_context \<Rightarrow> flanterm_fb_context \<Rightarrow> flanterm_fb_context option) \<Rightarrow>
    flanterm_fb_context option flanterm_context \<Rightarrow> flanterm_fb_context option" where
  "fb_try f ctx = Option.bind (fb ctx) (f ctx)"

definition fb_set :: "(flanterm_fb_context \<Rightarrow> flanterm_fb_context) \<Rightarrow>
    flanterm_fb_context option flanterm_context \<Rightarrow> flanterm_fb_context option" where
  "fb_set f ctx = map_option f (fb ctx)"

definition fb_backend :: "flanterm_fb_context option backend" where
  "fb_backend = \<lparr>
     raw_putchar = (\<lambda>c. fb_try (flanterm_fb_raw_putchar c)),
     clear = (\<lambda>move. fb_try (flanterm_fb_clear move)),
     set_cursor_pos = (\<lambda>x y ctx. fb_set (flanterm_fb_set_cursor_pos x y ctx) ctx),
     get_cursor_pos = (\<lambda>ctx. case fb ctx of None \<Rightarrow> (0, 0) | Some d \<Rightarrow> flanterm_fb_get_cursor_pos ctx d),
     set_text_fg = (\<lambda>v. fb_try (\<lambda>_. flanterm_fb_set_text_fg v)),
     set_text_bg = (\<lambda>v. fb_try (\<lambda>_. flanterm_fb_set_text_bg v)),
     set_text_fg_bright = (\<lambda>v. fb_try (\<lambda>_. flanterm_fb_set_text_fg_bright v)),
     set_text_bg_bright = (\<lambda>v. fb_try (\<lambda>_. flanterm_fb_set_text_bg_bright v)),
     set_text_fg_rgb = (\<lambda>v. fb_set (flanterm_fb_set_text_fg_rgb v)),
     set_text_bg_rgb = (\<lambda>v. fb_set (flanterm_fb_set_text_bg_rgb v)),
     set_text_fg_default = fb_set flanterm_fb_set_text_fg_default,
     set_text_bg_default = fb_set flanterm_fb_set_text_bg_default,
     set_text_fg_default_bright = fb_set flanterm_fb_set_text_fg_default_bright,
     set_text_bg_default_bright = fb_set flanterm_fb_set_text_bg_default_bright,
     move_character = (\<lambda>nx ny ox oy. fb_try (flanterm_fb_move_character nx ny ox oy)),
     scroll = fb_try flanterm_fb_scroll, revscroll = fb_try flanterm_fb_revscroll,
     swap_palette = fb_set flanterm_fb_swap_palette,
     backend_save_state = fb_set flanterm_fb_save_state,
     backend_restore_state = fb_set flanterm_fb_restore_state,
     double_buffer_flush = fb_try flanterm_fb_double_buffer_flush,
     callback = None\<rparr>"

end
