(* ===== verification/Paint.thy ===== *)
theory Paint
  imports Prelude
begin

text \<open>
  Painting a frame buffer: the list with the dots of a set changed to the colours of a function,
  and loops that do that.  Shared by the two pieces of the program that draw.
\<close>

definition paint :: "nat set \<Rightarrow> (nat \<Rightarrow> 'a) \<Rightarrow> 'a list \<Rightarrow> 'a list" where
  "paint A v s = map (\<lambda>p. if p \<in> A then v p else s ! p) [0..<length s]"

definition paints :: "nat \<Rightarrow> ('a list \<Rightarrow> 'a list option) \<Rightarrow> nat set \<Rightarrow> (nat \<Rightarrow> 'a) \<Rightarrow> bool" where
  "paints L f A v \<longleftrightarrow> (\<forall>s. length s = L \<longrightarrow> f s = Some (paint A v s))"

lemma length_paint [simp]: "length (paint A v s) = length s"
  by (simp add: paint_def)

lemma nth_paint [simp]: "p < length s \<Longrightarrow> paint A v s ! p = (if p \<in> A then v p else s ! p)"
  by (simp add: paint_def)

lemma paint_none [simp]: "paint {} v s = s"
  by (rule nth_equalityI) simp_all

lemma paint_paint: "paint B v (paint A v s) = paint (A \<union> B) v s"
  by (rule nth_equalityI) auto

lemma paint_same: "(\<And>p. p \<in> A \<Longrightarrow> p \<notin> B \<Longrightarrow> p < length s \<Longrightarrow> s ! p = v p) \<Longrightarrow> B \<subseteq> A \<Longrightarrow> paint B v s = paint A v s"
  by (rule nth_equalityI) auto

lemma paints_range:
  assumes "\<And>k. i \<le> k \<Longrightarrow> k < n \<Longrightarrow> paints L (f k) (A k) v"
  shows "paints L (for_range f i n) (\<Union>k\<in>{i..<n}. A k) v"
proof (cases "i \<le> n")
  case True
  show ?thesis unfolding paints_def
  proof (intro allI impI)
    fix s :: "'a list" assume L: "length s = L"
    have "\<exists>s'. for_range f i n s = Some s' \<and> s' = paint (\<Union>k\<in>{i..<n}. A k) v s"
    proof (rule for_range_total [OF True])
      fix k t assume k: "i \<le> k" "k < n" "t = paint (\<Union>j\<in>{i..<k}. A j) v s"
      then show "\<exists>t'. f k t = Some t' \<and> t' = paint (\<Union>j\<in>{i..<Suc k}. A j) v s"
        using assms [OF k(1,2)] L by (simp add: paints_def paint_paint atLeastLessThanSuc Un_commute)
    qed simp
    then show "for_range f i n s = Some (paint (\<Union>k\<in>{i..<n}. A k) v s)" by simp
  qed
qed (simp add: paints_def)

lemma paints_skip: "paints L Some {} v"
  by (simp add: paints_def)

lemma paints_set: "P < L \<Longrightarrow> v P = z \<Longrightarrow> paints L (\<lambda>s. buf_set s (int P) z) {P} v"
  by (auto simp: paints_def intro!: nth_equalityI simp: nth_list_update)

text \<open>Indices that are words.\<close>

lemma uint_of_nat64: "n < 2 ^ 64 \<Longrightarrow> uint (of_nat n :: u64) = int n"
  by (simp add: uint_nat unat_of_nat64)

lemma cell_below: "(a :: nat) < n \<Longrightarrow> b < g \<Longrightarrow> s + n * g \<le> w \<Longrightarrow> s + a * g + b < w"
proof -
  assume "a < n" "b < g" "s + n * g \<le> w"
  then have "Suc a * g \<le> n * g" by (intro mult_le_mono1) simp
  then show ?thesis using \<open>b < g\<close> \<open>s + n * g \<le> w\<close> by simp
qed

lemma row_below: "(a :: nat) < n \<Longrightarrow> b < w \<Longrightarrow> a * w + b < n * w"
  using cell_below [of a n b w 0 "n * w"] by simp

lemma mult_add_unique: "(a :: nat) * w + b = a' * w + b' \<Longrightarrow> b < w \<Longrightarrow> b' < w \<Longrightarrow> a = a' \<and> b = b'"
  by (metis add.commute div_mult_self3 div_less add_0 mod_mult_self3 mod_less less_nat_zero_code)

end
