(* ===== verification/Fb_Draw.thy ===== *)
theory Fb_Draw
  imports Fb Paint
begin

text \<open>
  What drawing a character does to the frame buffer: the nested loops of \<open>plot_char\<close> paint
  exactly the dots of one cell, and \<open>plot_char_fast\<close> is \<open>plot_char\<close> wherever the old
  character is the one on the screen.
\<close>

section \<open>Geometry\<close>

text \<open>The cells lie inside the frame buffer, the canvas and the font are whole, and \<open>uint8_t fy\<close>
  holds every row of a glyph.\<close>

definition fb_geometry :: "u64 \<Rightarrow> u64 \<Rightarrow> flanterm_fb_context \<Rightarrow> bool" where
  "fb_geometry r c d \<longleftrightarrow>
     unat (glyph_width d) = unat (font_width d) * unat (font_scale_x d) \<and>
     unat (glyph_height d) = unat (font_height d) * unat (font_scale_y d) \<and>
     unat (offset_x d) + unat c * unat (glyph_width d) \<le> unat (width d) \<and>
     unat (offset_y d) + unat r * unat (glyph_height d) \<le> unat (height d) \<and>
     unat (width d) \<le> unat (pitch d div 4) \<and>
     length (framebuffer d) = unat (height d) * unat (pitch d div 4) \<and>
     length (framebuffer d) < 2 ^ 64 \<and>
     length (canvas d) = unat (height d) * unat (width d) \<and>
     length (font_bool d) = 256 * unat (font_height d) * unat (font_width d) \<and>
     length (font_bool d) < 2 ^ 64 \<and> unat (font_height d) \<le> 256"

definition stride :: "flanterm_fb_context \<Rightarrow> nat" where
  "stride d = unat (pitch d div 4)"

definition corner_x :: "flanterm_fb_context \<Rightarrow> u64 \<Rightarrow> nat" where
  "corner_x d x = unat (offset_x d) + unat x * unat (glyph_width d)"

definition corner_y :: "flanterm_fb_context \<Rightarrow> u64 \<Rightarrow> nat" where
  "corner_y d y = unat (offset_y d) + unat y * unat (glyph_height d)"

definition pixel :: "flanterm_fb_context \<Rightarrow> u64 \<Rightarrow> u64 \<Rightarrow> nat \<Rightarrow> nat \<Rightarrow> nat" where
  "pixel d x y gx gy = (corner_y d y + gy) * stride d + (corner_x d x + gx)"

definition cell_pixels :: "flanterm_fb_context \<Rightarrow> u64 \<Rightarrow> u64 \<Rightarrow> nat set" where
  "cell_pixels d x y =
     (\<Union>gy\<in>{0..<unat (glyph_height d)}. \<Union>gx\<in>{0..<unat (glyph_width d)}. {pixel d x y gx gy})"

text \<open>The colour of dot \<open>p\<close> when the cell shows the character \<open>c\<close>.\<close>

definition glyph_bit :: "flanterm_fb_context \<Rightarrow> flanterm_fb_char \<Rightarrow> nat \<Rightarrow> nat \<Rightarrow> bool" where
  "glyph_bit d c fx fy =
     font_bool d ! (unat (ch_c c) * unat (font_height d) * unat (font_width d) + (fy * unat (font_width d) + fx))"

definition over_canvas :: "flanterm_fb_context \<Rightarrow> u32 \<Rightarrow> nat \<Rightarrow> u32" where
  "over_canvas d v p = (if v = 0xffffffff then canvas d ! (p div stride d * unat (width d) + p mod stride d) else v)"

definition dot_bit :: "flanterm_fb_context \<Rightarrow> flanterm_fb_char \<Rightarrow> u64 \<Rightarrow> u64 \<Rightarrow> nat \<Rightarrow> bool" where
  "dot_bit d c x y p =
     glyph_bit d c ((p mod stride d - corner_x d x) div unat (font_scale_x d))
       ((p div stride d - corner_y d y) div unat (font_scale_y d))"

definition dot_colour :: "flanterm_fb_context \<Rightarrow> flanterm_fb_char \<Rightarrow> u64 \<Rightarrow> u64 \<Rightarrow> nat \<Rightarrow> u32" where
  "dot_colour d c x y p = over_canvas d (if dot_bit d c x y p then ch_fg c else ch_bg c) p"

definition shows_char :: "flanterm_fb_context \<Rightarrow> flanterm_fb_char \<Rightarrow> u64 \<Rightarrow> u64 \<Rightarrow> bool" where
  "shows_char d c x y \<longleftrightarrow> (\<forall>p\<in>cell_pixels d x y. framebuffer d ! p = dot_colour d c x y p)"

definition put_pixels :: "flanterm_fb_context \<Rightarrow> u32 list \<Rightarrow> flanterm_fb_context" where
  "put_pixels d pix = d\<lparr>framebuffer := pix\<rparr>"

text \<open>Bounds of one dot.\<close>

lemma geometryD:
  assumes "fb_geometry r c d"
  shows "unat (glyph_width d) = unat (font_width d) * unat (font_scale_x d)"
    and "unat (glyph_height d) = unat (font_height d) * unat (font_scale_y d)"
    and "unat (offset_x d) + unat c * unat (glyph_width d) \<le> unat (width d)"
    and "unat (offset_y d) + unat r * unat (glyph_height d) \<le> unat (height d)"
    and "unat (width d) \<le> stride d" and "length (framebuffer d) = unat (height d) * stride d"
    and "length (framebuffer d) < 2 ^ 64" and "length (canvas d) = unat (height d) * unat (width d)"
    and "length (font_bool d) = 256 * unat (font_height d) * unat (font_width d)"
    and "length (font_bool d) < 2 ^ 64" and "unat (font_height d) \<le> 256"
  using assms unfolding fb_geometry_def stride_def by blast+

lemma dot_bounds:
  assumes "fb_geometry r c d" and "x < c" and "y < r" and "gx < unat (glyph_width d)" and "gy < unat (glyph_height d)"
  shows "corner_x d x + gx < unat (width d)" and "corner_y d y + gy < unat (height d)"
    and "corner_x d x + gx < stride d" and "pixel d x y gx gy < length (framebuffer d)"
    and "(corner_y d y + gy) * unat (width d) + (corner_x d x + gx) < length (canvas d)"
proof -
  have "unat x < unat c" "unat y < unat r" using assms(2,3) by (simp_all add: word_less_nat_alt)
  then show X: "corner_x d x + gx < unat (width d)" and Y: "corner_y d y + gy < unat (height d)"
    unfolding corner_x_def corner_y_def
    by (auto intro: cell_below assms(4,5) geometryD(3,4) [OF assms(1)])
  show S: "corner_x d x + gx < stride d" using X geometryD(5) [OF assms(1)] by linarith
  show "pixel d x y gx gy < length (framebuffer d)"
    using row_below [OF Y S] by (simp add: pixel_def geometryD(6) [OF assms(1)])
  show "(corner_y d y + gy) * unat (width d) + (corner_x d x + gx) < length (canvas d)"
    using row_below [OF Y X] by (simp add: geometryD(8) [OF assms(1)])
qed

lemma pixel_div_mod:
  assumes "corner_x d x + gx < stride d"
  shows "pixel d x y gx gy div stride d = corner_y d y + gy" and "pixel d x y gx gy mod stride d = corner_x d x + gx"
  using assms by (simp_all add: pixel_def)

text \<open>The words the loops compute.\<close>

lemma dot_words:
  "offset_x d + x * glyph_width d = of_nat (corner_x d x)" "offset_y d + y * glyph_height d = of_nat (corner_y d y)"
  "(of_nat a + (of_nat b + of_nat gy) * (pitch d div 4) + of_nat gx :: u64) = of_nat ((b + gy) * stride d + (a + gx))"
  "(of_nat a + (of_nat b + of_nat gy) * width d + of_nat gx :: u64) = of_nat ((b + gy) * unat (width d) + (a + gx))"
  by (simp_all add: corner_x_def corner_y_def stride_def algebra_simps)

lemma plot_dot_paints:
  assumes g: "fb_geometry r c d" and "x < c" "y < r" "gx < unat (glyph_width d)" "gy < unat (glyph_height d)"
    and L: "L = length (framebuffer d)" and b: "dot_bit d ch x y (pixel d x y gx gy) = b"
  shows "paints L (plot_dot d ch b (of_nat (pixel d x y gx gy)) (of_nat ((corner_y d y + gy) * unat (width d) + (corner_x d x + gx))))
    {pixel d x y gx gy} (dot_colour d ch x y)"
proof -
  note bd = dot_bounds [OF assms(1-5)]
  let ?P = "pixel d x y gx gy" and ?Q = "(corner_y d y + gy) * unat (width d) + (corner_x d x + gx)"
  have l: "length (canvas d) \<le> length (framebuffer d)" "length (framebuffer d) < 2 ^ 64"
    using geometryD(5-8) [OF g] by simp_all
  have P: "uint (of_nat ?P :: u64) = int ?P" by (rule uint_of_nat64) (use bd(4) l in linarith)
  have Q: "uint (of_nat ?Q :: u64) = int ?Q" by (rule uint_of_nat64) (use bd(5) l in linarith)
  have s: "shade d v (of_nat ?Q) = Some (over_canvas d v ?P)" for v
    using bd(5) unfolding shade_def Q buf_get_in [OF bd(5)]
    by (simp add: over_canvas_def pixel_div_mod [OF bd(3)])
  have "plot_dot d ch b (of_nat ?P) (of_nat ?Q) = (\<lambda>pix. buf_set pix (int ?P) (dot_colour d ch x y ?P))"
    using b unfolding plot_dot_def s P dot_colour_def by (intro ext) simp
  then show ?thesis using paints_set [of ?P L "dot_colour d ch x y"] bd(4) L by simp
qed

section \<open>A character\<close>

lemma glyph_index_below:
  assumes "(a :: nat) < 256" and "fy < h" and "fx < w"
  shows "a * h * w + (fy * w + fx) < 256 * h * w"
  using row_below [OF row_below [OF assms(1,2)] assms(3)] by (simp add: add_mult_distrib)

lemma font_row_nat:
  assumes "fb_geometry r c d" and "gy < unat (glyph_height d)"
  shows "font_row d (of_nat gy) = of_nat (gy div unat (font_scale_y d))" and "gy div unat (font_scale_y d) < unat (font_height d)"
proof -
  have gy: "gy < unat (font_height d) * unat (font_scale_y d)" "gy < 2 ^ 64"
    using assms(2) geometryD(2) [OF assms(1)] unat_u64_bound [of "glyph_height d"] by simp_all
  then have "0 < unat (font_scale_y d)" by (cases "unat (font_scale_y d)") auto
  with gy(1) show lt: "gy div unat (font_scale_y d) < unat (font_height d)" by (simp add: less_mult_imp_div_less)
  have "(of_nat gy :: u64) div font_scale_y d = of_nat (gy div unat (font_scale_y d))"
    using gy(2) by (simp add: word_arith_nat_div unat_of_nat64)
  moreover have "gy div unat (font_scale_y d) < 256" using lt geometryD(11) [OF assms(1)] by simp
  ultimately show "font_row d (of_nat gy) = of_nat (gy div unat (font_scale_y d))"
    by (simp add: font_row_def unsigned_of_nat take_bit_nat_eq_self)
qed

lemma font_lookup:
  assumes g: "fb_geometry r c d" and "ch_c ch < 256" "fx < unat (font_width d)" "gy < unat (glyph_height d)"
  shows "buf_get (font_bool d) (uint (glyph_base d ch + (font_row d (of_nat gy) * font_width d + of_nat fx)))
    = Some (glyph_bit d ch fx (gy div unat (font_scale_y d)))"
proof -
  note fr = font_row_nat [OF g assms(4)]
  let ?n = "unat (ch_c ch) * unat (font_height d) * unat (font_width d) + (gy div unat (font_scale_y d) * unat (font_width d) + fx)"
  have "unat (ch_c ch) < 256" using assms(2) by (simp add: word_less_nat_alt)
  from glyph_index_below [OF this fr(2) assms(3)] have n: "?n < length (font_bool d)"
    by (simp add: geometryD(9) [OF g])
  have "(ucast (ch_c ch) :: u64) = of_nat (unat (ch_c ch))" by simp
  then have "glyph_base d ch + (font_row d (of_nat gy) * font_width d + of_nat fx) = of_nat ?n"
    by (simp add: glyph_base_def fr(1))
  moreover have "uint (of_nat ?n :: u64) = int ?n"
    by (rule uint_of_nat64) (use n geometryD(10) [OF g] in linarith)
  ultimately show ?thesis using n by (simp only: buf_get_in glyph_bit_def)
qed

lemma UN_blocks: "(\<Union>a\<in>{0..<m}. \<Union>b\<in>{0..<n}. {f (n * a + b)}) = (\<Union>k\<in>{0..<m * n}. {f k})" for m n :: nat
proof (intro set_eqI iffI)
  fix z assume "z \<in> (\<Union>k\<in>{0..<m * n}. {f k})"
  then obtain k where k: "k < m * n" "z = f k" by auto
  then have "0 < n" by (cases n) simp_all
  with k(1) have "k div n < m" "k mod n < n" by (simp_all add: less_mult_imp_div_less)
  moreover have "z = f (n * (k div n) + k mod n)" using k(2) by simp
  ultimately show "z \<in> (\<Union>a\<in>{0..<m}. \<Union>b\<in>{0..<n}. {f (n * a + b)})"
    by (intro UN_I [of "k div n"] UN_I [of "k mod n"]) simp_all
next
  fix z assume "z \<in> (\<Union>a\<in>{0..<m}. \<Union>b\<in>{0..<n}. {f (n * a + b)})"
  then obtain a b where "a < m" "b < n" "z = f (n * a + b)" by auto
  then show "z \<in> (\<Union>k\<in>{0..<m * n}. {f k})"
    using row_below [of a m b n] by (auto simp: mult.commute)
qed

text \<open>The dots of one column of the font in one line.\<close>

definition block :: "flanterm_fb_context \<Rightarrow> u64 \<Rightarrow> u64 \<Rightarrow> nat \<Rightarrow> nat \<Rightarrow> nat set" where
  "block d x y gy fx = (\<Union>i\<in>{0..<unat (font_scale_x d)}. {pixel d x y (unat (font_scale_x d) * fx + i) gy})"

lemma UN_block:
  assumes "fb_geometry r c d"
  shows "(\<Union>fx\<in>{0..<unat (font_width d)}. block d x y gy fx) = (\<Union>gx\<in>{0..<unat (glyph_width d)}. {pixel d x y gx gy})"
  using UN_blocks [where f = "\<lambda>k. pixel d x y k gy"] by (simp add: block_def geometryD(1) [OF assms])

lemma block_in:
  assumes "fb_geometry r c d" and "fx < unat (font_width d)" and "i < unat (font_scale_x d)"
  shows "unat (font_scale_x d) * fx + i < unat (glyph_width d)"
  using row_below [OF assms(2,3)] by (simp add: geometryD(1) [OF assms(1)] mult.commute)

lemma block_bit:
  assumes "fb_geometry r c d" "x < c" "y < r" "fx < unat (font_width d)" "gy < unat (glyph_height d)" "p \<in> block d x y gy fx"
  shows "dot_bit d ch x y p = glyph_bit d ch fx (gy div unat (font_scale_y d))"
proof -
  obtain i where i: "i < unat (font_scale_x d)" "p = pixel d x y (unat (font_scale_x d) * fx + i) gy"
    using assms(6) by (auto simp: block_def)
  note s = dot_bounds(3) [OF assms(1-3) block_in [OF assms(1,4) i(1)] assms(5)]
  have "(unat (font_scale_x d) * fx + i) div unat (font_scale_x d) = fx" using i(1) by simp
  then show ?thesis by (simp add: dot_bit_def i(2) pixel_div_mod [OF s])
qed

lemma plot_block:
  assumes g: "fb_geometry r c d" "x < c" "y < r" and fx: "fx < unat (font_width d)" and gy: "gy < unat (glyph_height d)"
    and L: "L = length (framebuffer d)" and b: "glyph_bit d ch fx (gy div unat (font_scale_y d)) = b"
  shows "paints L (for_range (\<lambda>i. let gx = font_scale_x d * of_nat fx + of_nat i in
      plot_dot d ch b (of_nat (corner_x d x) + (of_nat (corner_y d y) + of_nat gy) * (pitch d div 4) + gx)
        (of_nat (corner_x d x) + (of_nat (corner_y d y) + of_nat gy) * width d + gx)) 0 (unat (font_scale_x d)))
    (block d x y gy fx) (dot_colour d ch x y)"
  unfolding block_def
proof (rule paints_range)
  fix i assume i: "i < unat (font_scale_x d)"
  let ?gx = "unat (font_scale_x d) * fx + i"
  have gx: "font_scale_x d * of_nat fx + of_nat i = of_nat ?gx" by simp
  have "pixel d x y ?gx gy \<in> block d x y gy fx" using i unfolding block_def by (intro UN_I [of i]) simp_all
  from block_bit [OF g fx gy this] have "dot_bit d ch x y (pixel d x y ?gx gy) = b" by (simp only: b)
  from plot_dot_paints [OF g block_in [OF g(1) fx i] gy L this]
  show "paints L (let gx = font_scale_x d * of_nat fx + of_nat i in
      plot_dot d ch b (of_nat (corner_x d x) + (of_nat (corner_y d y) + of_nat gy) * (pitch d div 4) + gx)
        (of_nat (corner_x d x) + (of_nat (corner_y d y) + of_nat gy) * width d + gx))
      {pixel d x y ?gx gy} (dot_colour d ch x y)"
    unfolding Let_def gx dot_words(3,4) pixel_def .
qed

lemma paints_bind_some: "z = Some b \<Longrightarrow> paints L (f b) A v \<Longrightarrow> paints L (\<lambda>s. case z of None \<Rightarrow> None | Some b \<Rightarrow> f b s) A v"
  by simp

lemma plot_line_paints:
  assumes g: "fb_geometry r c d" "x < c" "y < r" and ch: "ch_c ch < 256" and gy: "gy < unat (glyph_height d)"
    and L: "L = length (framebuffer d)"
  shows "paints L (plot_line d ch (of_nat (corner_x d x)) (of_nat (corner_y d y)) (of_nat gy))
    (\<Union>gx\<in>{0..<unat (glyph_width d)}. {pixel d x y gx gy}) (dot_colour d ch x y)"
  unfolding plot_line_def Let_def [of "font_row d _"] Let_def [of "_ + _ * (pitch d div 4)"] Let_def [of "_ + _ * width d"]
    UN_block [OF g(1), symmetric]
proof (rule paints_range, rule paints_bind_some)
  fix fx assume fx: "fx < unat (font_width d)"
  show "buf_get (font_bool d) (uint (glyph_base d ch + (font_row d (of_nat gy) * font_width d + of_nat fx)))
    = Some (glyph_bit d ch fx (gy div unat (font_scale_y d)))"
    by (rule font_lookup [OF g(1) ch fx gy])
  show "paints L (for_range (\<lambda>i. let gx = font_scale_x d * of_nat fx + of_nat i in
      plot_dot d ch (glyph_bit d ch fx (gy div unat (font_scale_y d))) (of_nat (corner_x d x) + (of_nat (corner_y d y) + of_nat gy) * (pitch d div 4) + gx)
        (of_nat (corner_x d x) + (of_nat (corner_y d y) + of_nat gy) * width d + gx)) 0 (unat (font_scale_x d)))
    (block d x y gy fx) (dot_colour d ch x y)"
    by (rule plot_block [OF g fx gy L refl])
qed

lemma plot_char_paints:
  assumes g: "fb_geometry (rows t) (cols t) d" "x < cols t" "y < rows t" and ch: "ch_c ch < 256"
  shows "plot_char t ch x y d =
    Some (d\<lparr>framebuffer := paint (cell_pixels d x y) (dot_colour d ch x y) (framebuffer d)\<rparr>)"
proof -
  have "paints (length (framebuffer d)) (for_range (\<lambda>gy. plot_line d ch (of_nat (corner_x d x)) (of_nat (corner_y d y)) (of_nat gy))
      0 (unat (glyph_height d))) (cell_pixels d x y) (dot_colour d ch x y)"
    unfolding cell_pixels_def by (rule paints_range) (rule plot_line_paints [OF g ch _ refl])
  then have "for_range (\<lambda>gy. plot_line d ch (of_nat (corner_x d x)) (of_nat (corner_y d y)) (of_nat gy))
      0 (unat (glyph_height d)) (framebuffer d) = Some (paint (cell_pixels d x y) (dot_colour d ch x y) (framebuffer d))"
    by (simp add: paints_def)
  moreover have "\<not> (x \<ge> cols t \<or> y \<ge> rows t)" using g by auto
  ultimately show ?thesis unfolding plot_char_def Let_def dot_words(1,2) by simp
qed

text \<open>The fast version paints the dots where the two glyphs differ.\<close>

lemma plot_line_fast_paints:
  assumes g: "fb_geometry r c d" "x < c" "y < r" and ch: "ch_c ch < 256" "ch_c old < 256"
    and gy: "gy < unat (glyph_height d)" and L: "L = length (framebuffer d)"
  shows "paints L (plot_line_fast d old ch (of_nat (corner_x d x)) (of_nat (corner_y d y)) (of_nat gy))
    ((\<Union>gx\<in>{0..<unat (glyph_width d)}. {pixel d x y gx gy}) \<inter> {p. dot_bit d old x y p \<noteq> dot_bit d ch x y p})
    (dot_colour d ch x y)"
  unfolding plot_line_fast_def Let_def [of "font_row d _"] Let_def [of "_ + _ * (pitch d div 4)"] Let_def [of "_ + _ * width d"]
    UN_block [OF g(1), symmetric] Int_UN_distrib2 [symmetric] UN_extend_simps(4)
proof (rule paints_range)
  fix fx assume fx: "fx < unat (font_width d)"
  let ?D = "{p. dot_bit d old x y p \<noteq> dot_bit d ch x y p}" and ?fy = "gy div unat (font_scale_y d)"
  have D: "block d x y gy fx \<inter> ?D = (if glyph_bit d old fx ?fy = glyph_bit d ch fx ?fy then {} else block d x y gy fx)"
    using block_bit [OF g fx gy] by auto
  show "paints L (\<lambda>pix. case (buf_get (font_bool d) (uint (glyph_base d old + (font_row d (of_nat gy) * font_width d + of_nat fx))),
        buf_get (font_bool d) (uint (glyph_base d ch + (font_row d (of_nat gy) * font_width d + of_nat fx)))) of
      (Some old_draw, Some new_draw) \<Rightarrow>
        if old_draw = new_draw then Some pix
        else for_range (\<lambda>i. let gx = font_scale_x d * of_nat fx + of_nat i in
          plot_dot d ch new_draw (of_nat (corner_x d x) + (of_nat (corner_y d y) + of_nat gy) * (pitch d div 4) + gx)
            (of_nat (corner_x d x) + (of_nat (corner_y d y) + of_nat gy) * width d + gx)) 0 (unat (font_scale_x d)) pix
      | _ \<Rightarrow> None) (block d x y gy fx \<inter> ?D) (dot_colour d ch x y)"
    unfolding font_lookup [OF g(1) ch(1) fx gy] font_lookup [OF g(1) ch(2) fx gy] D
    using plot_block [OF g fx gy L refl, of ch] paints_skip [of L "dot_colour d ch x y"] by simp
qed

lemma plot_char_fast_paints:
  assumes g: "fb_geometry (rows t) (cols t) d" "x < cols t" "y < rows t" and ch: "ch_c ch < 256" "ch_c old < 256"
  shows "plot_char_fast t old ch x y d =
    Some (d\<lparr>framebuffer := paint (cell_pixels d x y \<inter> {p. dot_bit d old x y p \<noteq> dot_bit d ch x y p})
                          (dot_colour d ch x y) (framebuffer d)\<rparr>)"
proof -
  let ?D = "{p. dot_bit d old x y p \<noteq> dot_bit d ch x y p}"
  have "cell_pixels d x y \<inter> ?D =
      (\<Union>gy\<in>{0..<unat (glyph_height d)}. (\<Union>gx\<in>{0..<unat (glyph_width d)}. {pixel d x y gx gy}) \<inter> ?D)"
    unfolding cell_pixels_def by blast
  then have "paints (length (framebuffer d)) (for_range (\<lambda>gy. plot_line_fast d old ch (of_nat (corner_x d x)) (of_nat (corner_y d y)) (of_nat gy))
      0 (unat (glyph_height d))) (cell_pixels d x y \<inter> ?D) (dot_colour d ch x y)"
    using paints_range [OF plot_line_fast_paints [OF g ch _ refl], of 0 "unat (glyph_height d)"] by simp
  then have "for_range (\<lambda>gy. plot_line_fast d old ch (of_nat (corner_x d x)) (of_nat (corner_y d y)) (of_nat gy))
      0 (unat (glyph_height d)) (framebuffer d) = Some (paint (cell_pixels d x y \<inter> ?D) (dot_colour d ch x y) (framebuffer d))"
    by (simp add: paints_def)
  moreover have "\<not> (x \<ge> cols t \<or> y \<ge> rows t)" using g by auto
  ultimately show ?thesis unfolding plot_char_fast_def Let_def dot_words(1,2) by simp
qed

text \<open>Where the old character is shown, in the same colours, both do the same.\<close>

lemma plot_char_fast_eq:
  assumes "fb_geometry (rows t) (cols t) d" "x < cols t" "y < rows t" and "ch_c ch < 256" "ch_c old < 256"
    and "shows_char d old x y" and "ch_fg old = ch_fg ch" and "ch_bg old = ch_bg ch"
  shows "plot_char_fast t old ch x y d = plot_char t ch x y d"
  unfolding plot_char_fast_paints [OF assms(1-5)] plot_char_paints [OF assms(1-4)]
proof -
  have "paint (cell_pixels d x y \<inter> {p. dot_bit d old x y p \<noteq> dot_bit d ch x y p}) (dot_colour d ch x y) (framebuffer d) =
      paint (cell_pixels d x y) (dot_colour d ch x y) (framebuffer d)"
    using assms(6-8) by (intro paint_same) (auto simp: shows_char_def dot_colour_def)
  then show "Some (d\<lparr>framebuffer := paint (cell_pixels d x y \<inter> {p. dot_bit d old x y p \<noteq> dot_bit d ch x y p})
      (dot_colour d ch x y) (framebuffer d)\<rparr>) = Some (d\<lparr>framebuffer := paint (cell_pixels d x y) (dot_colour d ch x y) (framebuffer d)\<rparr>)"
    by simp
qed

section \<open>Cells do not overlap\<close>

lemma cell_pixels_below:
  assumes "fb_geometry r c d" "x < c" "y < r" "p \<in> cell_pixels d x y"
  shows "p < length (framebuffer d)"
  using assms dot_bounds(4) [OF assms(1-3)] by (auto simp: cell_pixels_def)

lemma cell_pixels_disjoint:
  assumes g: "fb_geometry r c d" "x < c" "y < r" "x' < c" "y' < r" and ne: "(x, y) \<noteq> (x', y')"
  shows "cell_pixels d x y \<inter> cell_pixels d x' y' = {}"
proof (rule ccontr)
  assume "cell_pixels d x y \<inter> cell_pixels d x' y' \<noteq> {}"
  then obtain gx gy gx' gy' where b: "gx < unat (glyph_width d)" "gx' < unat (glyph_width d)"
      "gy < unat (glyph_height d)" "gy' < unat (glyph_height d)" and eq: "pixel d x y gx gy = pixel d x' y' gx' gy'"
    by (auto simp: cell_pixels_def)
  have "corner_y d y + gy = corner_y d y' + gy' \<and> corner_x d x + gx = corner_x d x' + gx'"
    by (rule mult_add_unique [where w = "stride d"])
      (use eq dot_bounds(3) [OF g(1-3) b(1,3)] dot_bounds(3) [OF g(1,4,5) b(2,4)] in \<open>simp_all add: pixel_def\<close>)
  then have "unat y * unat (glyph_height d) + gy = unat y' * unat (glyph_height d) + gy'"
    "unat x * unat (glyph_width d) + gx = unat x' * unat (glyph_width d) + gx'"
    by (simp_all add: corner_x_def corner_y_def)
  with mult_add_unique b have "unat y = unat y'" "unat x = unat x'" by blast+
  with ne show False by (simp add: word_unat_eq_iff)
qed

end
