(* ===== verification/Fb_Screen.thy ===== *)
theory Fb_Screen
  imports Fb_Draw
begin

text \<open>
  The queue of updates refines a screen, the list of the characters its cells will show: the
  invariant of queue, map and grid, and for every operation of the back end between two flushes
  the operation on the screen it implements.  The queue never overflows.
\<close>

section \<open>The screen\<close>

definition cell_slot :: "u64 \<Rightarrow> u64 \<Rightarrow> u64 \<Rightarrow> nat" where
  "cell_slot c x y = unat y * unat c + unat x"

definition view :: "flanterm_fb_context \<Rightarrow> nat \<Rightarrow> flanterm_fb_char" where
  "view d i = (case cell_map d ! i of None \<Rightarrow> grid d ! i | Some k \<Rightarrow> item_c (queue d ! k))"

definition screen :: "flanterm_fb_context \<Rightarrow> flanterm_fb_char list" where
  "screen d = map (view d) [0..<length (grid d)]"

definition item_slot :: "u64 \<Rightarrow> flanterm_fb_context \<Rightarrow> nat \<Rightarrow> nat" where
  "item_slot c d k = cell_slot c (item_x (queue d ! k)) (item_y (queue d ! k))"

text \<open>The items in use and the cells with an update pending correspond one to one.\<close>

definition queue_ok :: "u64 \<Rightarrow> u64 \<Rightarrow> flanterm_fb_context \<Rightarrow> bool" where
  "queue_ok r c d \<longleftrightarrow>
     length (grid d) = unat r * unat c \<and> length (queue d) = unat r * unat c \<and>
     length (cell_map d) = unat r * unat c \<and> unat r * unat c < 2 ^ 64 \<and> queue_i d \<le> unat r * unat c \<and>
     (\<forall>k < queue_i d. item_x (queue d ! k) < c \<and> item_y (queue d ! k) < r \<and> cell_map d ! item_slot c d k = Some k) \<and>
     (\<forall>i < unat r * unat c. \<forall>k. cell_map d ! i = Some k \<longrightarrow> k < queue_i d \<and> item_slot c d k = i) \<and>
     (\<forall>k < queue_i d. ch_c (item_c (queue d ! k)) < 256) \<and> (\<forall>i < unat r * unat c. ch_c (grid d ! i) < 256)"

lemma queue_okD:
  assumes "queue_ok r c d"
  shows "length (grid d) = unat r * unat c" and "length (queue d) = unat r * unat c"
    and "length (cell_map d) = unat r * unat c" and "unat r * unat c < 2 ^ 64" and "queue_i d \<le> unat r * unat c"
    and "\<And>k. k < queue_i d \<Longrightarrow> item_x (queue d ! k) < c" and "\<And>k. k < queue_i d \<Longrightarrow> item_y (queue d ! k) < r"
    and "\<And>k. k < queue_i d \<Longrightarrow> cell_map d ! item_slot c d k = Some k"
    and "\<And>i k. i < unat r * unat c \<Longrightarrow> cell_map d ! i = Some k \<Longrightarrow> k < queue_i d"
    and "\<And>i k. i < unat r * unat c \<Longrightarrow> cell_map d ! i = Some k \<Longrightarrow> item_slot c d k = i"
    and "\<And>k. k < queue_i d \<Longrightarrow> ch_c (item_c (queue d ! k)) < 256"
    and "\<And>i. i < unat r * unat c \<Longrightarrow> ch_c (grid d ! i) < 256"
  using assms unfolding queue_ok_def by blast+

lemma length_screen [simp]: "length (screen d) = length (grid d)"
  by (simp add: screen_def)

lemma nth_screen: "i < length (grid d) \<Longrightarrow> screen d ! i = view d i"
  by (simp add: screen_def)

text \<open>Cells and words.\<close>

lemma slot_below: "x < c \<Longrightarrow> y < r \<Longrightarrow> cell_slot c x y < unat r * unat c"
  unfolding cell_slot_def by (rule row_below) (simp_all add: word_less_nat_alt)

lemma slot_eq_iff: "x < c \<Longrightarrow> x' < c \<Longrightarrow> cell_slot c x y = cell_slot c x' y' \<longleftrightarrow> x = x' \<and> y = y'"
  using mult_add_unique [of "unat y" "unat c" "unat x" "unat y'" "unat x'"]
  by (auto simp: cell_slot_def word_less_nat_alt word_unat_eq_iff)

lemma slot_words: "(y * c + x :: u64) = of_nat (cell_slot c x y)" "(x + y * c :: u64) = of_nat (cell_slot c x y)"
  by (simp_all add: cell_slot_def)

lemma unat_cell_slot:
  assumes "unat r * unat c < 2 ^ 64" and "x < c" and "y < r"
  shows "unat (of_nat (cell_slot c x y) :: u64) = cell_slot c x y" "uint (of_nat (cell_slot c x y) :: u64) = int (cell_slot c x y)"
  using slot_below [OF assms(2,3)] assms(1) by (simp_all add: unat_of_nat64 uint_of_nat64)

lemma cell_coordinates:
  assumes "unat r * unat c < 2 ^ 64" and "i < unat r * unat c"
  shows "(of_nat i mod c :: u64) < c" "(of_nat i div c :: u64) < r" "cell_slot c (of_nat i mod c) (of_nat i div c) = i"
proof -
  have i: "unat (of_nat i :: u64) = i" using assms by (intro unat_of_nat64) simp
  have c: "0 < unat c" using assms(2) by (cases "unat c") simp_all
  have d: "i div unat c < unat r" using assms(2) by (rule less_mult_imp_div_less)
  show "(of_nat i mod c :: u64) < c" "(of_nat i div c :: u64) < r" "cell_slot c (of_nat i mod c) (of_nat i div c) = i"
    using c d by (simp_all add: cell_slot_def word_less_nat_alt unat_mod unat_div i)
qed

lemma cell_at_screen:
  assumes "queue_ok r c d" and "i < unat r * unat c"
  shows "cell_at d (of_nat i) = Some (screen d ! i)"
proof -
  note q = queue_okD [OF assms(1)]
  have i: "uint (of_nat i :: u64) = int i" using assms(2) q(4) by (intro uint_of_nat64) simp
  show ?thesis
  proof (cases "cell_map d ! i")
    case None
    then show ?thesis using assms(2) q(1-3) unfolding cell_at_def i by (simp add: nth_screen view_def)
  next
    case (Some k)
    then have "k < length (queue d)" using q(2,5) q(9) [OF assms(2) Some] by simp
    then show ?thesis using assms(2) Some q(1,3) unfolding cell_at_def i by (simp add: nth_screen view_def)
  qed
qed

section \<open>One update\<close>

text \<open>What the operations between two flushes may change.\<close>

definition requeued :: "flanterm_fb_context \<Rightarrow> flanterm_fb_context \<Rightarrow> bool" where
  "requeued d d' \<longleftrightarrow> (\<exists>qs m k. d' = d\<lparr>queue := qs, cell_map := m, queue_i := k\<rparr>)"

lemma requeued_refl: "requeued d d"
  unfolding requeued_def by (rule exI [of _ "queue d"], rule exI [of _ "cell_map d"], rule exI [of _ "queue_i d"]) simp

lemma requeued_trans: "requeued d d' \<Longrightarrow> requeued d' d'' \<Longrightarrow> requeued d d''"
  unfolding requeued_def by fastforce

definition shows_next :: "u64 \<Rightarrow> u64 \<Rightarrow> flanterm_fb_context \<Rightarrow> flanterm_fb_context \<Rightarrow> flanterm_fb_char list \<Rightarrow> bool" where
  "shows_next r c d d' s \<longleftrightarrow> queue_ok r c d' \<and> requeued d d' \<and> screen d' = s"

lemma shows_next_refl: "queue_ok r c d \<Longrightarrow> shows_next r c d d (screen d)"
  by (simp add: shows_next_def requeued_refl)

lemma shows_next_trans: "shows_next r c d d' s \<Longrightarrow> shows_next r c d' d'' s' \<Longrightarrow> shows_next r c d d'' s'"
  by (auto simp: shows_next_def intro: requeued_trans)

text \<open>A cell without an update leaves room in the queue for one.\<close>

lemma queue_room:
  assumes "queue_ok r c d" and "i < unat r * unat c" and "cell_map d ! i = None"
  shows "queue_i d < unat r * unat c"
proof -
  note q = queue_okD [OF assms(1)]
  let ?f = "item_slot c d"
  have inj: "inj_on ?f {..<queue_i d}"
  proof (rule inj_onI)
    fix k k' assume k: "k \<in> {..<queue_i d}" "k' \<in> {..<queue_i d}" and eq: "?f k = ?f k'"
    have "Some k = cell_map d ! ?f k" "cell_map d ! ?f k' = Some k'" using q(8) k by simp_all
    then show "k = k'" unfolding eq by simp
  qed
  have "?f k < unat r * unat c" "?f k \<noteq> i" if "k < queue_i d" for k
    using slot_below [OF q(6,7) [OF that]] q(8) [OF that] assms(3) by (auto simp: item_slot_def)
  then have "?f ` {..<queue_i d} \<subseteq> {..<unat r * unat c} - {i}" by auto
  then have "card {..<queue_i d} \<le> card ({..<unat r * unat c} - {i})"
    by (intro card_inj_on_le [OF inj]) simp_all
  then show ?thesis using assms(2) by simp
qed

lemma compare_char_eq: "compare_char a b \<longleftrightarrow> a = b"
  by (cases a; cases b) (auto simp: compare_char_def)

lemma screen_update:
  assumes "length (grid d') = length (grid d)" and "view d' i = z"
    and "\<And>j. j < length (grid d) \<Longrightarrow> j \<noteq> i \<Longrightarrow> view d' j = view d j"
  shows "screen d' = (screen d)[i := z]"
proof (rule nth_equalityI)
  fix j assume "j < length (screen d')"
  then show "screen d' ! j = (screen d)[i := z] ! j"
    using assms by (cases "j = i") (simp_all add: nth_screen)
qed (simp add: assms(1))

lemma push_new:
  assumes "queue_ok r c d" and xy: "x < c" "y < r" and ch: "ch_c ch < 256" and m: "cell_map d ! cell_slot c x y = None"
  shows "shows_next r c d
    (d\<lparr>queue := (queue d)[queue_i d := \<lparr>item_x = x, item_y = y, item_c = ch\<rparr>],
       cell_map := (cell_map d)[cell_slot c x y := Some (queue_i d)], queue_i := queue_i d + 1\<rparr>)
    ((screen d)[cell_slot c x y := ch])" (is "shows_next r c d ?d' _")
proof -
  note q = queue_okD [OF assms(1)]
  note i = slot_below [OF xy]
  note room = queue_room [OF assms(1) i m]
  have new: "queue ?d' ! queue_i d = \<lparr>item_x = x, item_y = y, item_c = ch\<rparr>" using room q(2) by simp
  have oldq: "queue ?d' ! k = queue d ! k" if "k < queue_i d" for k using that by simp
  have slots: "item_slot c ?d' k = item_slot c d k" if "k < queue_i d" for k
    using oldq [OF that] by (simp add: item_slot_def)
  have newslot: "item_slot c ?d' (queue_i d) = cell_slot c x y" using new by (simp add: item_slot_def)
  have mp: "cell_map ?d' ! j = (if j = cell_slot c x y then Some (queue_i d) else cell_map d ! j)"
    if "j < unat r * unat c" for j using that q(3) by (simp add: nth_list_update)
  have other: "item_slot c d k \<noteq> cell_slot c x y" "item_slot c d k < unat r * unat c" if "k < queue_i d" for k
    using q(8) [OF that] m slot_below [OF q(6,7) [OF that]] by (auto simp: item_slot_def)
  have "queue_ok r c ?d'"
    unfolding queue_ok_def
  proof (intro conjI allI impI)
    fix k assume k: "k < queue_i ?d'"
    then have "k < queue_i d \<or> k = queue_i d" by auto
    then show "item_x (queue ?d' ! k) < c" "item_y (queue ?d' ! k) < r" "ch_c (item_c (queue ?d' ! k)) < 256"
      using q(6,7,11) oldq new xy ch by auto
    from \<open>k < queue_i d \<or> k = queue_i d\<close> show "cell_map ?d' ! item_slot c ?d' k = Some k"
    proof
      assume k: "k < queue_i d"
      then show ?thesis unfolding slots [OF k] mp [OF other(2) [OF k]] using other(1) q(8) by simp
    next
      assume "k = queue_i d"
      then show ?thesis using newslot mp [OF i] by simp
    qed
  next
    fix j k assume j: "j < unat r * unat c" and k: "cell_map ?d' ! j = Some k"
    have "k < queue_i ?d' \<and> item_slot c ?d' k = j"
    proof (cases "j = cell_slot c x y")
      case True
      then show ?thesis using k mp [OF j] newslot by simp
    next
      case False
      then have "cell_map d ! j = Some k" using k mp [OF j] by simp
      then show ?thesis using q(9,10) [OF j] slots [of k] by simp
    qed
    then show "k < queue_i ?d'" "item_slot c ?d' k = j" by simp_all
  qed (use q(1-5,12) room in simp_all)
  moreover have "screen ?d' = (screen d)[cell_slot c x y := ch]"
  proof (rule screen_update)
    show "view ?d' (cell_slot c x y) = ch" using mp [OF i] new by (simp add: view_def)
    fix j assume j: "j < length (grid d)" "j \<noteq> cell_slot c x y"
    then have jn: "j < unat r * unat c" using q(1) by simp
    show "view ?d' j = view d j"
      using mp [OF jn] j(2) q(9) [OF jn] oldq by (cases "cell_map d ! j") (simp_all add: view_def)
  qed simp
  moreover have "requeued d ?d'" unfolding requeued_def by blast
  ultimately show ?thesis by (simp add: shows_next_def)
qed

lemma push_again:
  assumes "queue_ok r c d" and xy: "x < c" "y < r" and ch: "ch_c ch < 256" and m: "cell_map d ! cell_slot c x y = Some k"
  shows "shows_next r c d (d\<lparr>queue := (queue d)[k := (queue d ! k)\<lparr>item_c := ch\<rparr>]\<rparr>) ((screen d)[cell_slot c x y := ch])"
    (is "shows_next r c d ?d' _")
proof -
  note q = queue_okD [OF assms(1)]
  note i = slot_below [OF xy]
  note k = q(9) [OF i m] q(10) [OF i m]
  have len: "k < length (queue d)" using k(1) q(2,5) by simp
  have qs: "queue ?d' ! j = (if j = k then (queue d ! k)\<lparr>item_c := ch\<rparr> else queue d ! j)" if "j < queue_i d" for j
    using len by (simp add: nth_list_update)
  have slots: "item_slot c ?d' j = item_slot c d j" if "j < queue_i d" for j
    using qs [OF that] by (simp add: item_slot_def)
  have "queue_ok r c ?d'"
    unfolding queue_ok_def
  proof (intro conjI allI impI)
    fix j assume j: "j < queue_i ?d'"
    then show "item_x (queue ?d' ! j) < c" "item_y (queue ?d' ! j) < r" "ch_c (item_c (queue ?d' ! j)) < 256"
      using q(6,7,11) [of j] qs [of j] ch by auto
    show "cell_map ?d' ! item_slot c ?d' j = Some j" using j slots [of j] q(8) [of j] by simp
  next
    fix j n assume j: "j < unat r * unat c" and n: "cell_map ?d' ! j = Some n"
    then show "n < queue_i ?d'" "item_slot c ?d' n = j" using q(9,10) [OF j] slots [of n] by simp_all
  qed (use q(1-5,12) in simp_all)
  moreover have "screen ?d' = (screen d)[cell_slot c x y := ch]"
  proof (rule screen_update)
    show "view ?d' (cell_slot c x y) = ch" using m len by (simp add: view_def)
    fix j assume j: "j < length (grid d)" "j \<noteq> cell_slot c x y"
    then have jn: "j < unat r * unat c" using q(1) by simp
    show "view ?d' j = view d j"
    proof (cases "cell_map d ! j")
      case (Some n)
      then have "n \<noteq> k" using q(10) [OF jn] k(2) j(2) by auto
      with Some show ?thesis by (simp add: view_def)
    qed (simp add: view_def)
  qed simp
  moreover have "requeued d ?d'"
    unfolding requeued_def by (rule exI, rule exI [of _ "cell_map d"], rule exI [of _ "queue_i d"]) simp
  ultimately show ?thesis by (simp add: shows_next_def)
qed

text \<open>The operation on the screen; outside it nothing happens.\<close>

definition put_cell :: "u64 \<Rightarrow> u64 \<Rightarrow> u64 \<Rightarrow> u64 \<Rightarrow> flanterm_fb_char \<Rightarrow> flanterm_fb_char list \<Rightarrow> flanterm_fb_char list" where
  "put_cell r c x y ch s = (if x < c \<and> y < r then s[cell_slot c x y := ch] else s)"

lemma push_shows:
  assumes "queue_ok (rows t) (cols t) d" and "ch_c ch < 256"
  shows "\<exists>d'. push_to_queue t ch x y d = Some d' \<and>
    shows_next (rows t) (cols t) d d' (put_cell (rows t) (cols t) x y ch (screen d))"
proof (cases "x < cols t \<and> y < rows t")
  case False
  then show ?thesis using shows_next_refl [OF assms(1)] by (auto simp: push_to_queue_def put_cell_def)
next
  case True
  then have xy: "x < cols t" "y < rows t" by simp_all
  note q = queue_okD [OF assms(1)]
  let ?i = "cell_slot (cols t) x y"
  note i = slot_below [OF xy]
  have g: "buf_get (cell_map d) (int ?i) = Some (cell_map d ! ?i)" "buf_get (grid d) (int ?i) = Some (grid d ! ?i)"
    using i q(1,3) by simp_all
  have u: "\<not> (x \<ge> cols t \<or> y \<ge> rows t)" using xy by auto
  show ?thesis
  proof (cases "cell_map d ! ?i")
    case None
    have cb: "buf_set (queue d) (int (queue_i d)) w = Some ((queue d)[queue_i d := w])"
      "buf_set (cell_map d) (int ?i) z = Some ((cell_map d)[?i := z])" for w z
      using queue_room [OF assms(1) i None] q(2,3) i by simp_all
    have same: "screen d = (screen d)[?i := ch]" if "grid d ! ?i = ch"
      using that None i q(1) nth_screen [of ?i d] by (metis list_update_id view_def option.simps(4))
    show ?thesis
    proof (cases "grid d ! ?i = ch")
      case True
      then show ?thesis using shows_next_refl [OF assms(1)] same xy u None
        unfolding push_to_queue_def Let_def slot_words unat_cell_slot [OF q(4) xy] g by (simp add: put_cell_def compare_char_eq)
    next
      case False
      then show ?thesis using push_new [OF assms(1) xy assms(2) None] xy u None
        unfolding push_to_queue_def Let_def slot_words unat_cell_slot [OF q(4) xy] g by (simp add: put_cell_def compare_char_eq cb)
    qed
  next
    case (Some k)
    have k: "k < length (queue d)" using q(9) [OF i Some] q(2,5) by simp
    show ?thesis using push_again [OF assms(1) xy assms(2) Some] xy u Some k
      unfolding push_to_queue_def Let_def slot_words unat_cell_slot [OF q(4) xy] g by (simp add: put_cell_def)
  qed
qed

lemma screen_char:
  assumes "queue_ok r c d" and "i < unat r * unat c"
  shows "ch_c (screen d ! i) < 256"
  using queue_okD(1,9,11,12) [OF assms(1)] assms(2)
  by (cases "cell_map d ! i") (simp_all add: nth_screen view_def)

lemma shows_next_ok: "shows_next r c d d' s \<Longrightarrow> queue_ok r c d'" "shows_next r c d d' s \<Longrightarrow> screen d' = s"
  by (simp_all add: shows_next_def)

lemma shows_next_length: "shows_next r c d d' s \<Longrightarrow> length (grid d') = unat r * unat c"
  using queue_okD(1) by (simp add: shows_next_def)

lemma length_put_cell [simp]: "length (put_cell r c x y ch s) = length s"
  by (simp add: put_cell_def)

lemma put_cell_slot:
  assumes "unat r * unat c < 2 ^ 64" and "i < unat r * unat c"
  shows "put_cell r c (of_nat i mod c) (of_nat i div c) ch s = s[i := ch]"
  using cell_coordinates [OF assms] by (simp add: put_cell_def)

section \<open>Rows\<close>

definition fill_row :: "u64 \<Rightarrow> u64 \<Rightarrow> flanterm_fb_char \<Rightarrow> flanterm_fb_char list \<Rightarrow> flanterm_fb_char list" where
  "fill_row c y ch s = map (\<lambda>i. if i div unat c = unat y then ch else s ! i) [0..<length s]"

lemma push_row_shows:
  assumes q: "queue_ok (rows t) (cols t) d" and ch: "ch_c ch < 256"
  shows "\<exists>d'. push_row t ch y d = Some d' \<and> shows_next (rows t) (cols t) d d' (fill_row (cols t) y ch (screen d))"
proof -
  let ?r = "rows t" and ?c = "cols t" and ?s = "screen d"
  define S where "S k = map (\<lambda>i. if i div unat ?c = unat y \<and> i mod unat ?c < k then ch else ?s ! i) [0..<length ?s]" for k
  have len: "length (S k) = unat ?r * unat ?c" for k using queue_okD(1) [OF q] by (simp add: S_def)
  have "\<exists>d'. for_range (\<lambda>i. push_to_queue t ch (of_nat i) y) 0 (unat ?c) d = Some d' \<and> shows_next ?r ?c d d' (S (unat ?c))"
  proof (rule for_range_total)
    have "S 0 = ?s" by (rule nth_equalityI) (simp_all add: S_def)
    then show "shows_next ?r ?c d d (S 0)" using shows_next_refl [OF q] by simp
    fix k e assume k: "k < unat ?c" and e: "shows_next ?r ?c d e (S k)"
    have kx: "(of_nat k :: u64) < ?c" "unat (of_nat k :: u64) = k"
      using k unat_u64_bound [of ?c] by (simp_all add: word_less_nat_alt unat_of_nat64)
    have "put_cell ?r ?c (of_nat k) y ch (S k) = S (Suc k)"
    proof (rule nth_equalityI)
      fix i assume "i < length (put_cell ?r ?c (of_nat k) y ch (S k))"
      then have i: "i < unat ?r * unat ?c" by (simp add: len)
      have row: "i div unat ?c < unat ?r" using i by (rule less_mult_imp_div_less)
      have "i = unat y * unat ?c + k \<longleftrightarrow> i div unat ?c = unat y \<and> i mod unat ?c = k"
        using k by auto (metis div_mult_mod_eq)
      then show "put_cell ?r ?c (of_nat k) y ch (S k) ! i = S (Suc k) ! i"
        using i row len [of k] queue_okD(1) [OF q] kx
        by (auto simp: put_cell_def cell_slot_def S_def nth_list_update less_Suc_eq word_less_nat_alt)
    qed (simp add: len)
    then show "\<exists>e'. push_to_queue t ch (of_nat k) y e = Some e' \<and> shows_next ?r ?c d e' (S (Suc k))"
      using push_shows [OF shows_next_ok(1) [OF e] ch] shows_next_trans [OF e] shows_next_ok(2) [OF e] by metis
  qed simp
  moreover have "S (unat ?c) = fill_row ?c y ch ?s"
  proof (rule nth_equalityI)
    fix i assume "i < length (S (unat ?c))"
    then have i: "i < unat ?r * unat ?c" by (simp add: len)
    then have "i mod unat ?c < unat ?c" by (cases "unat ?c") simp_all
    then show "S (unat ?c) ! i = fill_row ?c y ch ?s ! i" using i queue_okD(1) [OF q] by (simp add: S_def fill_row_def)
  qed (simp add: S_def fill_row_def)
  ultimately show ?thesis by (simp add: push_row_def)
qed

text \<open>Scrolling: the rows of the region move up or down by one.\<close>

definition rows_up :: "nat \<Rightarrow> nat \<Rightarrow> nat \<Rightarrow> 'a list \<Rightarrow> 'a list" where
  "rows_up c i n s = map (\<lambda>j. if i \<le> j \<and> j < n - c then s ! (j + c) else s ! j) [0..<length s]"

definition rows_down :: "nat \<Rightarrow> nat \<Rightarrow> nat \<Rightarrow> 'a list \<Rightarrow> 'a list" where
  "rows_down c i n s = map (\<lambda>j. if i + c \<le> j \<and> j < n + c then s ! (j - c) else s ! j) [0..<length s]"

lemma scroll_step_shows:
  assumes q: "queue_ok (rows t) (cols t) d" and k: "k < unat (rows t) * unat (cols t)"
  shows "\<exists>d'. scroll_step t (of_nat k) d = Some d' \<and> shows_next (rows t) (cols t) d d' (screen d') \<and>
     (unat (cols t) \<le> k \<longrightarrow> screen d' = (screen d)[k - unat (cols t) := screen d ! k])"
proof -
  let ?r = "rows t" and ?c = "cols t"
  from push_shows [OF q screen_char [OF q k]] obtain d' where
    d': "push_to_queue t (screen d ! k) ((of_nat k - ?c) mod ?c) ((of_nat k - ?c) div ?c) d = Some d'"
    "shows_next ?r ?c d d' (put_cell ?r ?c ((of_nat k - ?c) mod ?c) ((of_nat k - ?c) div ?c) (screen d ! k) (screen d))"
    by blast
  have "screen d' = (screen d)[k - unat ?c := screen d ! k]" if "unat ?c \<le> k"
  proof -
    have "(of_nat k - ?c :: u64) = of_nat (k - unat ?c)" using that by (simp add: of_nat_diff)
    then show ?thesis using d'(2) put_cell_slot [OF queue_okD(4) [OF q], of "k - unat ?c"] k by (simp add: shows_next_def)
  qed
  moreover have "scroll_step t (of_nat k) d = Some d'" by (simp add: scroll_step_def cell_at_screen [OF q k] d'(1))
  moreover have "shows_next ?r ?c d d' (screen d')" using d'(2) by (simp add: shows_next_def)
  ultimately show ?thesis by blast
qed

lemma scroll_loop_shows:
  assumes q: "queue_ok (rows t) (cols t) d" and n: "n \<le> unat (rows t) * unat (cols t)"
  shows "\<exists>d'. for_range (\<lambda>i. scroll_step t (of_nat i)) i n d = Some d' \<and> shows_next (rows t) (cols t) d d' (screen d') \<and>
     (unat (cols t) \<le> i \<longrightarrow> screen d' = rows_up (unat (cols t)) (i - unat (cols t)) n (screen d))"
proof (cases "i \<le> n")
  case False
  have "rows_up c (i - c) n s = s" if "c \<le> i" for c and s :: "flanterm_fb_char list"
    using False that by (intro nth_equalityI) (auto simp: rows_up_def)
  then show ?thesis using False shows_next_refl [OF q] by simp
next
  case True
  let ?r = "rows t" and ?c = "cols t" and ?m = "unat (cols t)"
  have len: "length (screen d) = unat ?r * ?m" using queue_okD(1) [OF q] by simp
  let ?P = "\<lambda>k e. shows_next ?r ?c d e (screen e) \<and> (?m \<le> i \<longrightarrow> screen e = rows_up ?m (i - ?m) k (screen d))"
  show ?thesis
  proof (rule for_range_total [OF True, where P = ?P])
    have "rows_up ?m (i - ?m) i s = s" for s :: "flanterm_fb_char list"
      by (intro nth_equalityI) (auto simp: rows_up_def)
    then show "?P i d" using shows_next_refl [OF q] by simp
  next
    fix k e assume k: "i \<le> k" "k < n" and e: "?P k e"
    then have kn: "k < unat ?r * ?m" using n by simp
    have m: "0 < ?m" using kn by (cases "unat ?c") simp_all
    from e have qe: "queue_ok ?r ?c e" by (simp add: shows_next_def)
    from scroll_step_shows [OF qe kn] obtain e' where e': "scroll_step t (of_nat k) e = Some e'"
      "shows_next ?r ?c e e' (screen e')" "?m \<le> k \<Longrightarrow> screen e' = (screen e)[k - ?m := screen e ! k]" by blast
    have "screen e' = rows_up ?m (i - ?m) (Suc k) (screen d)" if mi: "?m \<le> i"
    proof (rule nth_equalityI)
      show "length (screen e') = length (rows_up ?m (i - ?m) (Suc k) (screen d))"
        using shows_next_length [OF e'(2)] len by (simp add: rows_up_def)
      fix j assume "j < length (screen e')"
      then have j: "j < unat ?r * ?m" using shows_next_length [OF e'(2)] by simp
      have s: "screen e' = (rows_up ?m (i - ?m) k (screen d))[k - ?m := rows_up ?m (i - ?m) k (screen d) ! k]"
        using e'(3) e mi k(1) by simp
      show "screen e' ! j = rows_up ?m (i - ?m) (Suc k) (screen d) ! j"
        unfolding s using j kn len m mi k(1) by (cases "j = k - ?m") (auto simp: rows_up_def)
    qed
    then show "\<exists>e'. scroll_step t (of_nat k) e = Some e' \<and> ?P (Suc k) e'"
      using e' e shows_next_trans by blast
  qed
qed

section \<open>The operations on the screen\<close>

lemma row_product:
  assumes "unat r * unat c < 2 ^ 64" and "unat (n :: u64) \<le> unat r"
  shows "unat (n * c) = unat n * unat c"
proof -
  have "unat n * unat c \<le> unat r * unat c" using assms(2) by (rule mult_le_mono1)
  then have "unat (of_nat (unat n * unat c) :: u64) = unat n * unat c"
    by (intro unat_of_nat64 le_less_trans [OF _ assms(1)])
  then show ?thesis by simp
qed

definition scrolled :: "'b flanterm_context \<Rightarrow> flanterm_fb_char \<Rightarrow> flanterm_fb_char list \<Rightarrow> flanterm_fb_char list" where
  "scrolled t ch s =
     fill_row (cols t) (scroll_bottom_margin t - 1) ch
       (rows_up (unat (cols t)) (unat (scroll_top_margin t) * unat (cols t)) (unat (scroll_bottom_margin t) * unat (cols t)) s)"

definition revscrolled :: "'b flanterm_context \<Rightarrow> flanterm_fb_char \<Rightarrow> flanterm_fb_char list \<Rightarrow> flanterm_fb_char list" where
  "revscrolled t ch s =
     fill_row (cols t) (scroll_top_margin t) ch
       (rows_down (unat (cols t)) (unat (scroll_top_margin t) * unat (cols t)) ((unat (scroll_bottom_margin t) - 1) * unat (cols t)) s)"

lemma empty_char_requeued: "shows_next r c d d' s \<Longrightarrow> empty_char d' = empty_char d"
  by (auto simp: shows_next_def requeued_def empty_char_def)

lemma scroll_shows:
  assumes q: "queue_ok (rows t) (cols t) d" and b: "scroll_bottom_margin t \<le> rows t"
  shows "\<exists>d'. flanterm_fb_scroll t d = Some d' \<and> shows_next (rows t) (cols t) d d' (screen d') \<and>
     (scroll_top_margin t < scroll_bottom_margin t \<longrightarrow> screen d' = scrolled t (empty_char d) (screen d))"
proof -
  let ?r = "rows t" and ?c = "cols t" and ?i = "unat ((scroll_top_margin t + 1) * cols t)"
  note N = queue_okD(4) [OF q]
  have bu: "unat (scroll_bottom_margin t) \<le> unat ?r" using b by (simp add: word_le_nat_alt)
  note n = row_product [OF N bu]
  have "unat (scroll_bottom_margin t * ?c) \<le> unat ?r * unat ?c" unfolding n using bu by (rule mult_le_mono1)
  from scroll_loop_shows [OF q this, of ?i] obtain e where
    e: "for_range (\<lambda>i. scroll_step t (of_nat i)) ?i (unat (scroll_bottom_margin t * ?c)) d = Some e"
      "shows_next ?r ?c d e (screen e)"
      "unat ?c \<le> ?i \<Longrightarrow> screen e = rows_up (unat ?c) (?i - unat ?c) (unat (scroll_bottom_margin t * ?c)) (screen d)"
    by blast
  from push_row_shows [OF shows_next_ok(1) [OF e(2)], of "empty_char d" "scroll_bottom_margin t - 1"] obtain d' where
    d': "push_row t (empty_char d) (scroll_bottom_margin t - 1) e = Some d'"
      "shows_next ?r ?c e d' (fill_row ?c (scroll_bottom_margin t - 1) (empty_char d) (screen e))"
    by (auto simp: empty_char_def)
  have "screen d' = scrolled t (empty_char d) (screen d)" if tb: "scroll_top_margin t < scroll_bottom_margin t"
  proof -
    have t1: "unat (scroll_top_margin t + 1) = unat (scroll_top_margin t) + 1"
      using tb unat_u64_bound [of "scroll_bottom_margin t"] by (simp add: word_less_nat_alt unat_word_ariths)
    then have "unat (scroll_top_margin t + 1) \<le> unat ?r" using tb bu by (simp add: word_less_nat_alt)
    from row_product [OF N this] have i: "?i = (unat (scroll_top_margin t) + 1) * unat ?c" by (simp only: t1)
    show ?thesis using e(3) d'(2) unfolding i n by (simp add: scrolled_def shows_next_def)
  qed
  moreover have "flanterm_fb_scroll t d = Some d'"
    by (simp add: flanterm_fb_scroll_def e(1) d'(1) empty_char_requeued [OF e(2)])
  ultimately show ?thesis using shows_next_trans [OF e(2) d'(2)] by (auto simp: shows_next_def)
qed

text \<open>The loop of \<open>revscroll\<close>, from the cell before \<open>k\<close> down.\<close>

lemma revscroll_loop_shows:
  assumes "queue_ok (rows t) (cols t) d" and "k + unat (cols t) \<le> unat (rows t) * unat (cols t) \<or> k = 0"
  shows "\<exists>d'. revscroll_loop t (of_nat k - 1) d = Some d' \<and> shows_next (rows t) (cols t) d d' (screen d') \<and>
     (unat (scroll_top_margin t) \<le> unat (rows t) \<longrightarrow>
        screen d' = rows_down (unat (cols t)) (unat (scroll_top_margin t) * unat (cols t)) k (screen d))"
  using assms
proof (induction k arbitrary: d)
  case 0
  have "rows_down c i 0 s = s" for c i and s :: "flanterm_fb_char list"
    by (intro nth_equalityI) (auto simp: rows_down_def)
  then show ?case using shows_next_refl [OF 0(1)] by (subst revscroll_loop.simps) simp
next
  case (Suc k)
  let ?r = "rows t" and ?c = "cols t" and ?m = "unat (cols t)" and ?i = "unat (scroll_top_margin t) * unat (cols t)"
  note q = Suc.prems(1)
  note N = queue_okD(4) [OF q]
  have kn: "k + ?m < unat ?r * ?m" "k < unat ?r * ?m" using Suc.prems(2) by simp_all
  then have m: "0 < ?m" by (cases ?m) simp_all
  have ks: "unat (of_nat k :: u64) = k" using kn N by (intro unat_of_nat64) simp
  have k1: "(of_nat k :: u64) \<noteq> - 1"
  proof
    assume "(of_nat k :: u64) = - 1"
    then have "unat (of_nat (Suc k) :: u64) = 0" by simp
    moreover have "unat (of_nat (Suc k) :: u64) = Suc k" using kn N m by (intro unat_of_nat64) simp
    ultimately show False by simp
  qed
  have start: "(of_nat (Suc k) :: u64) - 1 = of_nat k" by simp
  show ?case
  proof (cases "scroll_top_margin t * ?c \<le> (of_nat k :: u64)")
    case False
    have "rows_down ?m ?i (Suc k) s = s" if "unat (scroll_top_margin t) \<le> unat ?r" for s :: "flanterm_fb_char list"
    proof -
      have "k < ?i" using False row_product [OF N that] by (simp add: word_le_nat_alt ks)
      then show ?thesis by (intro nth_equalityI) (auto simp: rows_down_def)
    qed
    then show ?thesis using shows_next_refl [OF q] False unfolding start by (subst revscroll_loop.simps) simp
  next
    case True
    have w: "(of_nat k + ?c :: u64) = of_nat (k + ?m)" by simp
    from push_shows [OF q screen_char [OF q kn(2)], of "(of_nat k + ?c) mod ?c" "(of_nat k + ?c) div ?c"] obtain e where
      e: "push_to_queue t (screen d ! k) ((of_nat k + ?c) mod ?c) ((of_nat k + ?c) div ?c) d = Some e"
        "shows_next ?r ?c d e ((screen d)[k + ?m := screen d ! k])"
      unfolding w put_cell_slot [OF N kn(1)] by blast
    from Suc.IH [OF shows_next_ok(1) [OF e(2)]] kn(1) obtain d' where
      d': "revscroll_loop t (of_nat k - 1) e = Some d'" "shows_next ?r ?c e d' (screen d')"
        "unat (scroll_top_margin t) \<le> unat ?r \<Longrightarrow> screen d' = rows_down ?m ?i k (screen e)" by auto
    have "screen d' = rows_down ?m ?i (Suc k) (screen d)" if top: "unat (scroll_top_margin t) \<le> unat ?r"
    proof (rule nth_equalityI)
      show "length (screen d') = length (rows_down ?m ?i (Suc k) (screen d))"
        using shows_next_length [OF d'(2)] queue_okD(1) [OF q] by (simp add: rows_down_def)
      fix j assume "j < length (screen d')"
      then have j: "j < unat ?r * ?m" using shows_next_length [OF d'(2)] by simp
      have ik: "?i \<le> k" using True row_product [OF N top] by (simp add: word_le_nat_alt ks)
      have s: "screen d' = rows_down ?m ?i k ((screen d)[k + ?m := screen d ! k])"
        using d'(3) [OF top] shows_next_ok(2) [OF e(2)] by simp
      show "screen d' ! j = rows_down ?m ?i (Suc k) (screen d) ! j"
        unfolding s using j kn m ik queue_okD(1) [OF q] by (auto simp: rows_down_def nth_list_update)
    qed
    moreover have "revscroll_loop t (of_nat (Suc k) - 1) d = Some d'"
      unfolding start using True k1 e(1) d'(1) cell_at_screen [OF q kn(2)] by (subst revscroll_loop.simps) simp
    ultimately show ?thesis using shows_next_trans [OF e(2) d'(2)] by blast
  qed
qed

lemma revscroll_shows:
  assumes q: "queue_ok (rows t) (cols t) d" and b: "scroll_bottom_margin t \<le> rows t" "scroll_bottom_margin t \<noteq> 0"
  shows "\<exists>d'. flanterm_fb_revscroll t d = Some d' \<and> shows_next (rows t) (cols t) d d' (screen d') \<and>
     (scroll_top_margin t \<le> rows t \<longrightarrow> screen d' = revscrolled t (empty_char d) (screen d))"
proof -
  let ?r = "rows t" and ?c = "cols t" and ?k = "(unat (scroll_bottom_margin t) - 1) * unat (cols t)"
  note N = queue_okD(4) [OF q]
  have b0: "0 < unat (scroll_bottom_margin t)" using b(2) by (simp add: unat_gt_0)
  have bu: "unat (scroll_bottom_margin t) \<le> unat ?r" using b by (simp add: word_le_nat_alt)
  have b1: "unat (scroll_bottom_margin t - 1) = unat (scroll_bottom_margin t) - 1" using b(2) by (rule unat_minus_one)
  have start: "(scroll_bottom_margin t - 1) * ?c - 1 = of_nat ?k - 1"
    unfolding b1 [symmetric] by simp
  have "?k + unat ?c = unat (scroll_bottom_margin t) * unat ?c"
    using b0 by (cases "unat (scroll_bottom_margin t)") simp_all
  also have "\<dots> \<le> unat ?r * unat ?c" using bu by (rule mult_le_mono1)
  finally have kb: "?k + unat ?c \<le> unat ?r * unat ?c \<or> ?k = 0" by simp
  from revscroll_loop_shows [OF q kb] obtain e where
    e: "revscroll_loop t (of_nat ?k - 1) d = Some e" "shows_next ?r ?c d e (screen e)"
      "unat (scroll_top_margin t) \<le> unat ?r \<Longrightarrow>
        screen e = rows_down (unat ?c) (unat (scroll_top_margin t) * unat ?c) ?k (screen d)" by blast
  from push_row_shows [OF shows_next_ok(1) [OF e(2)], of "empty_char d" "scroll_top_margin t"] obtain d' where
    d': "push_row t (empty_char d) (scroll_top_margin t) e = Some d'"
      "shows_next ?r ?c e d' (fill_row ?c (scroll_top_margin t) (empty_char d) (screen e))"
    by (auto simp: empty_char_def)
  have "screen d' = revscrolled t (empty_char d) (screen d)" if "scroll_top_margin t \<le> ?r"
    using e(3) d'(2) that by (simp add: revscrolled_def shows_next_def word_le_nat_alt)
  moreover have "flanterm_fb_revscroll t d = Some d'"
    unfolding flanterm_fb_revscroll_def start e(1) by (simp add: d'(1) empty_char_requeued [OF e(2)])
  ultimately show ?thesis using shows_next_trans [OF e(2) d'(2)] by (auto simp: shows_next_def)
qed

lemma clear_shows:
  assumes q: "queue_ok (rows t) (cols t) d"
  shows "\<exists>d' e. flanterm_fb_clear move t d = Some d' \<and>
     shows_next (rows t) (cols t) d e (replicate (length (screen d)) (empty_char d)) \<and>
     d' = (if move then e\<lparr>cursor_x := 0, cursor_y := 0\<rparr> else e)"
proof -
  let ?r = "rows t" and ?c = "cols t" and ?z = "empty_char d" and ?s = "screen d"
  note N = queue_okD(4) [OF q] and len = queue_okD(1) [OF q]
  let ?S = "\<lambda>k. replicate k ?z @ drop k ?s"
  have n: "unat (?r * ?c) = unat ?r * unat ?c" by (rule row_product [OF N order_refl])
  have "\<exists>e. for_range (\<lambda>i. push_to_queue t ?z (of_nat i mod ?c) (of_nat i div ?c)) 0 (unat (?r * ?c)) d = Some e \<and>
      shows_next ?r ?c d e (?S (unat (?r * ?c)))"
  proof (rule for_range_total)
    show "shows_next ?r ?c d d (?S 0)" using shows_next_refl [OF q] by simp
    fix k e assume k: "k < unat (?r * ?c)" and e: "shows_next ?r ?c d e (?S k)"
    have kn: "k < unat ?r * unat ?c" using k n by simp
    have "(?S k)[k := ?z] = ?S (Suc k)"
      using kn len by (simp add: list_update_append Cons_nth_drop_Suc [symmetric] replicate_append_same [symmetric])
    then show "\<exists>e'. push_to_queue t ?z (of_nat k mod ?c) (of_nat k div ?c) e = Some e' \<and> shows_next ?r ?c d e' (?S (Suc k))"
      using push_shows [OF shows_next_ok(1) [OF e], of ?z "of_nat k mod ?c" "of_nat k div ?c"]
        shows_next_trans [OF e] put_cell_slot [OF N kn] shows_next_ok(2) [OF e]
      by (fastforce simp: empty_char_def)
  qed simp
  then show ?thesis using len n by (auto simp: flanterm_fb_clear_def)
qed

lemma move_shows:
  assumes q: "queue_ok (rows t) (cols t) d"
  shows "\<exists>d'. flanterm_fb_move_character nx ny x y t d = Some d' \<and> shows_next (rows t) (cols t) d d'
     (if x < cols t \<and> y < rows t
      then put_cell (rows t) (cols t) nx ny (screen d ! cell_slot (cols t) x y) (screen d) else screen d)"
proof (cases "x < cols t \<and> y < rows t \<and> nx < cols t \<and> ny < rows t")
  case False
  then show ?thesis using shows_next_refl [OF q] by (auto simp: flanterm_fb_move_character_def put_cell_def)
next
  case True
  then have xy: "x < cols t" "y < rows t" and u: "\<not> (x \<ge> cols t \<or> y \<ge> rows t \<or> nx \<ge> cols t \<or> ny \<ge> rows t)" by auto
  note i = slot_below [OF xy]
  from push_shows [OF q screen_char [OF q i], of nx ny] show ?thesis
    unfolding flanterm_fb_move_character_def slot_words cell_at_screen [OF q i] using u xy by simp
qed

text \<open>The cursor, and a character at it.\<close>

lemma queue_ok_cursor [simp]:
  "queue_ok r c (d\<lparr>cursor_x := x\<rparr>) = queue_ok r c d" "queue_ok r c (d\<lparr>cursor_y := x\<rparr>) = queue_ok r c d"
  by (simp_all add: queue_ok_def item_slot_def)

lemma screen_cursor [simp]:
  "screen (d\<lparr>cursor_x := x\<rparr>) = screen d" "screen (d\<lparr>cursor_y := x\<rparr>) = screen d"
proof -
  have "view (d\<lparr>cursor_x := x\<rparr>) = view d" "view (d\<lparr>cursor_y := x\<rparr>) = view d"
    by (simp_all add: view_def fun_eq_iff cong: option.case_cong)
  then show "screen (d\<lparr>cursor_x := x\<rparr>) = screen d" "screen (d\<lparr>cursor_y := x\<rparr>) = screen d"
    by (simp_all add: screen_def)
qed

lemma empty_char_cursor [simp]: "empty_char (d\<lparr>cursor_x := x\<rparr>) = empty_char d" "empty_char (d\<lparr>cursor_y := x\<rparr>) = empty_char d"
  by (simp_all add: empty_char_def)

text \<open>Where the next character goes, and whether the region scrolls first.\<close>

definition wraps :: "'b flanterm_context \<Rightarrow> flanterm_fb_context \<Rightarrow> bool" where
  "wraps t d \<longleftrightarrow> cursor_x d \<ge> cols t \<and> (cursor_y d < scroll_bottom_margin t - 1 \<or> scroll_enabled t)"

definition wrapped_row :: "'b flanterm_context \<Rightarrow> flanterm_fb_context \<Rightarrow> u64" where
  "wrapped_row t d =
     (let y = (if cursor_y d + 1 = scroll_bottom_margin t then cursor_y d else cursor_y d + 1)
      in if y \<ge> cols t then cols t - 1 else y)"

definition wrapped_screen :: "'b flanterm_context \<Rightarrow> flanterm_fb_context \<Rightarrow> flanterm_fb_char list" where
  "wrapped_screen t d =
     (if wraps t d \<and> cursor_y d + 1 = scroll_bottom_margin t then scrolled t (empty_char d) (screen d) else screen d)"

definition drawn_char :: "u8 \<Rightarrow> flanterm_fb_context \<Rightarrow> flanterm_fb_char" where
  "drawn_char b d = \<lparr>ch_c = ucast b, ch_fg = text_fg d, ch_bg = text_bg d\<rparr>"

lemma shows_next_cursor:
  "shows_next r c d e s \<Longrightarrow> cursor_x e = cursor_x d \<and> cursor_y e = cursor_y d \<and> text_fg e = text_fg d \<and> text_bg e = text_bg d"
  by (auto simp: shows_next_def requeued_def)

lemma drawn_char_small: "ch_c (drawn_char b d) < 256"
proof -
  have "uint b < 256" using uint_lt2p [of b] by simp
  then show ?thesis by (simp add: drawn_char_def word_less_def uint_up_ucast is_up)
qed

definition moved :: "u64 \<Rightarrow> u64 \<Rightarrow> flanterm_fb_context \<Rightarrow> flanterm_fb_context" where
  "moved x y d = d\<lparr>cursor_x := x, cursor_y := y\<rparr>"

lemma moved_simps [simp]:
  "cursor_x (moved x y d) = x" "cursor_y (moved x y d) = y" "moved x y (moved x' y' d) = moved x y d"
  "queue_ok r c (moved x y d) = queue_ok r c d" "screen (moved x y d) = screen d" "empty_char (moved x y d) = empty_char d"
  "text_fg (moved x y d) = text_fg d" "text_bg (moved x y d) = text_bg d" "drawn_char b (moved x y d) = drawn_char b d"
  by (simp_all add: moved_def drawn_char_def)

lemma moved_same: "moved (cursor_x d) (cursor_y d) d = d"
  by (simp add: moved_def)

lemma requeued_moved: "requeued (moved x y d) e \<Longrightarrow> \<exists>e0. requeued d e0 \<and> e = moved x y e0"
proof -
  assume "requeued (moved x y d) e"
  then obtain qs m k where "e = (moved x y d)\<lparr>queue := qs, cell_map := m, queue_i := k\<rparr>" unfolding requeued_def by blast
  moreover have "(moved x y d)\<lparr>queue := qs, cell_map := m, queue_i := k\<rparr> = moved x y (d\<lparr>queue := qs, cell_map := m, queue_i := k\<rparr>)"
    unfolding moved_def by (cases d) simp
  ultimately show ?thesis unfolding requeued_def by blast
qed

lemma shows_next_moved:
  assumes "shows_next r c (moved x y d) e s"
  shows "\<exists>e0. shows_next r c d e0 s \<and> e = moved x y e0"
  using assms requeued_moved [of x y d e] by (auto simp: shows_next_def)

lemma wrap_line_shows:
  assumes q: "queue_ok (rows t) (cols t) d" and m: "scroll_bottom_margin t \<le> rows t"
  shows "\<exists>e. wrap_line t d = Some (moved (if wraps t d then 0 else cursor_x d) (if wraps t d then wrapped_row t d else cursor_y d) e) \<and>
     shows_next (rows t) (cols t) d e (screen e) \<and>
     (scroll_top_margin t < scroll_bottom_margin t \<longrightarrow> screen e = wrapped_screen t d)"
proof (cases "wraps t d")
  case False
  then show ?thesis using shows_next_refl [OF q]
    by (auto simp: wrap_line_def wraps_def wrapped_screen_def moved_same intro!: exI [of _ d])
next
  case True
  then have w: "cursor_x d \<ge> cols t \<and> (cursor_y d < scroll_bottom_margin t - 1 \<or> scroll_enabled t)" by (simp add: wraps_def)
  have c: "d\<lparr>cursor_x := 0, cursor_y := y\<rparr> = moved 0 y d" for y by (simp add: moved_def)
  have c2: "(moved 0 y z)\<lparr>cursor_y := y'\<rparr> = moved 0 y' z" for y y' z by (simp add: moved_def)
  show ?thesis
  proof (cases "cursor_y d + 1 = scroll_bottom_margin t")
    case False
    then have "wrap_line t d = Some (moved 0 (wrapped_row t d) d)"
      using w by (simp add: wrap_line_def Let_def c c2 wrapped_row_def)
    then show ?thesis using True False shows_next_refl [OF q] by (auto simp: wrapped_screen_def)
  next
    case sc: True
    have prv: "scroll_bottom_margin t - 1 = cursor_y d" unfolding sc [symmetric] by simp
    from scroll_shows [of t "moved 0 (cursor_y d) d"] q m obtain d' where
      d': "flanterm_fb_scroll t (moved 0 (cursor_y d) d) = Some d'"
        "shows_next (rows t) (cols t) (moved 0 (cursor_y d) d) d' (screen d')"
        "scroll_top_margin t < scroll_bottom_margin t \<Longrightarrow> screen d' = scrolled t (empty_char d) (screen d)" by auto
    from shows_next_moved [OF d'(2)] obtain e where e: "shows_next (rows t) (cols t) d e (screen d')" "d' = moved 0 (cursor_y d) e"
      by blast
    have "wrap_line t d = Some (moved 0 (wrapped_row t d) e)"
      using w sc d'(1) prv unfolding e(2) by (simp add: wrap_line_def Let_def c c2 wrapped_row_def)
    moreover have "screen e = screen d'" using e(2) by simp
    ultimately show ?thesis using True sc e(1) d'(3) by (auto simp: wrapped_screen_def)
  qed
qed

lemma raw_putchar_shows:
  assumes q: "queue_ok (rows t) (cols t) d" and m: "scroll_bottom_margin t \<le> rows t"
  defines "x \<equiv> if wraps t d then 0 else cursor_x d" and "y \<equiv> if wraps t d then wrapped_row t d else cursor_y d"
  shows "\<exists>e. flanterm_fb_raw_putchar b t d = Some (moved (x + 1) y e) \<and> shows_next (rows t) (cols t) d e (screen e) \<and>
     (scroll_top_margin t < scroll_bottom_margin t \<longrightarrow>
        screen e = put_cell (rows t) (cols t) x y (drawn_char b d) (wrapped_screen t d))"
proof -
  from wrap_line_shows [OF q m] obtain e where e: "wrap_line t d = Some (moved x y e)" "shows_next (rows t) (cols t) d e (screen e)"
    "scroll_top_margin t < scroll_bottom_margin t \<Longrightarrow> screen e = wrapped_screen t d"
    unfolding x_def y_def by blast
  have dc: "drawn_char b e = drawn_char b d" using shows_next_cursor [OF e(2)] by (simp add: drawn_char_def)
  have "queue_ok (rows t) (cols t) (moved (x + 1) y e)" using e(2) by (simp add: shows_next_def)
  from push_shows [OF this drawn_char_small, of b d x y] obtain d' where
    d': "push_to_queue t (drawn_char b d) x y (moved (x + 1) y e) = Some d'"
      "shows_next (rows t) (cols t) (moved (x + 1) y e) d' (put_cell (rows t) (cols t) x y (drawn_char b d) (screen e))"
    by auto
  from shows_next_moved [OF d'(2)] obtain e' where
    e': "shows_next (rows t) (cols t) e e' (put_cell (rows t) (cols t) x y (drawn_char b d) (screen e))" "d' = moved (x + 1) y e'"
    by blast
  have step: "(moved x y e)\<lparr>cursor_x := x + 1\<rparr> = moved (x + 1) y e" by (simp add: moved_def)
  have "flanterm_fb_raw_putchar b t d = Some (moved (x + 1) y e')"
    using d'(1) unfolding flanterm_fb_raw_putchar_def e(1) drawn_char_def [symmetric] e'(2)
    by (simp add: step dc)
  then show ?thesis using shows_next_trans [OF e(2) e'(1)] e(3) by (auto simp: shows_next_def)
qed

end
