(* ===== verification/Fb_Flush.thy ===== *)
theory Fb_Flush
  imports Fb_Screen
begin

text \<open>
  The flush: the frame buffer shows the screen.  Between two flushes every cell shows the
  character of the grid, except the one the cursor was drawn on; a flush draws the pending
  characters, the cursor and the cell the cursor has left, and empties the queue.
\<close>

section \<open>What the frame buffer shows\<close>

definition spot :: "u64 \<Rightarrow> u64 \<Rightarrow> u64 \<Rightarrow> u64 \<Rightarrow> nat set" where
  "spot r c x y = (if x < c \<and> y < r then {cell_slot c x y} else {})"

definition synced :: "u64 \<Rightarrow> u64 \<Rightarrow> nat set \<Rightarrow> flanterm_fb_context \<Rightarrow> bool" where
  "synced r c D d \<longleftrightarrow> (\<forall>x y. x < c \<and> y < r \<and> cell_slot c x y \<notin> D \<longrightarrow> shows_char d (grid d ! cell_slot c x y) x y)"

definition fb_inv :: "u64 \<Rightarrow> u64 \<Rightarrow> flanterm_fb_context \<Rightarrow> bool" where
  "fb_inv r c d \<longleftrightarrow> fb_geometry r c d \<and> queue_ok r c d \<and> synced r c (spot r c (old_cursor_x d) (old_cursor_y d)) d"

lemma syncedD: "synced r c D d \<Longrightarrow> x < c \<Longrightarrow> y < r \<Longrightarrow> cell_slot c x y \<notin> D \<Longrightarrow> shows_char d (grid d ! cell_slot c x y) x y"
  by (simp add: synced_def)

text \<open>The picture depends on the frame buffer, the canvas, the font and the geometry alone.\<close>

definition repainted :: "flanterm_fb_context \<Rightarrow> u32 list \<Rightarrow> flanterm_fb_char list \<Rightarrow> nat option list \<Rightarrow> flanterm_fb_context" where
  "repainted d pix g m = d\<lparr>framebuffer := pix, grid := g, cell_map := m\<rparr>"

lemma repainted_fields [simp]:
  "framebuffer (repainted d pix g m) = pix" "grid (repainted d pix g m) = g" "cell_map (repainted d pix g m) = m"
  "queue (repainted d pix g m) = queue d" "queue_i (repainted d pix g m) = queue_i d"
  "cursor_x (repainted d pix g m) = cursor_x d" "cursor_y (repainted d pix g m) = cursor_y d"
  "old_cursor_x (repainted d pix g m) = old_cursor_x d" "old_cursor_y (repainted d pix g m) = old_cursor_y d"
  "repainted (repainted d pix g m) pix' g' m' = repainted d pix' g' m'"
  by (simp_all add: repainted_def)

lemma repainted_same: "repainted d (framebuffer d) (grid d) (cell_map d) = d"
  by (simp add: repainted_def)

lemma repainted_picture [simp]:
  "cell_pixels (repainted d pix g m) = cell_pixels d" "dot_colour (repainted d pix g m) = dot_colour d"
  "dot_bit (repainted d pix g m) = dot_bit d"
  by (intro ext, simp add: repainted_def cell_pixels_def pixel_def corner_x_def corner_y_def stride_def
      dot_colour_def dot_bit_def over_canvas_def glyph_bit_def)+

lemma repainted_geometry:
  "length pix = length (framebuffer d) \<Longrightarrow> fb_geometry r c (repainted d pix g m) = fb_geometry r c d"
  by (simp add: repainted_def fb_geometry_def)

text \<open>Drawing a queued character, fast or not: only its cell changes, and the cell shows it unless
  the old character was not there for the fast version to build on.\<close>

definition plot_either :: "'b flanterm_context \<Rightarrow> flanterm_fb_char \<Rightarrow> flanterm_fb_char \<Rightarrow> u64 \<Rightarrow> u64 \<Rightarrow> flanterm_fb_context \<Rightarrow> flanterm_fb_context option" where
  "plot_either t old ch x y d =
     (if ch_bg ch = ch_bg old \<and> ch_fg ch = ch_fg old then plot_char_fast t old ch x y d else plot_char t ch x y d)"

definition touches :: "flanterm_fb_context \<Rightarrow> u64 \<Rightarrow> u64 \<Rightarrow> u32 list \<Rightarrow> bool" where
  "touches d x y pix \<longleftrightarrow> length pix = length (framebuffer d) \<and>
     (\<forall>p < length pix. p \<notin> cell_pixels d x y \<longrightarrow> pix ! p = framebuffer d ! p)"

lemma framebuffer_update: "d\<lparr>framebuffer := pix\<rparr> = repainted d pix (grid d) (cell_map d)"
  by (simp add: repainted_def)

lemma plot_char_shows:
  assumes g: "fb_geometry (rows t) (cols t) d" "x < cols t" "y < rows t" and ch: "ch_c ch < 256"
  shows "\<exists>pix. plot_char t ch x y d = Some (repainted d pix (grid d) (cell_map d)) \<and> touches d x y pix \<and>
    (\<forall>g m. shows_char (repainted d pix g m) ch x y)"
  unfolding plot_char_paints [OF assms] framebuffer_update
  by (rule exI, intro conjI, rule refl)
    (auto simp: touches_def shows_char_def nth_paint [OF cell_pixels_below [OF g]])

lemma plot_either_shows:
  assumes g: "fb_geometry (rows t) (cols t) d" "x < cols t" "y < rows t" and ch: "ch_c ch < 256" "ch_c old < 256"
  shows "\<exists>pix. plot_either t old ch x y d = Some (repainted d pix (grid d) (cell_map d)) \<and> touches d x y pix \<and>
    (shows_char d old x y \<longrightarrow> (\<forall>g m. shows_char (repainted d pix g m) ch x y))"
proof (cases "ch_bg ch = ch_bg old \<and> ch_fg ch = ch_fg old")
  case False
  then show ?thesis using plot_char_shows [OF g ch(1)] by (auto simp: plot_either_def)
next
  case True
  show ?thesis
  proof (cases "shows_char d old x y")
    case old: True
    then have "plot_either t old ch x y d = plot_char t ch x y d"
      using True plot_char_fast_eq [OF g ch old] by (simp add: plot_either_def)
    then show ?thesis using plot_char_shows [OF g ch(1)] by auto
  next
    case False
    show ?thesis unfolding plot_either_def plot_char_fast_paints [OF g ch] framebuffer_update
      using True False by (auto simp: touches_def intro!: exI)
  qed
qed

lemma touches_other:
  assumes g: "fb_geometry r c d" "x < c" "y < r" and "touches d x y pix" and o: "x' < c" "y' < r" "(x', y') \<noteq> (x, y)"
  shows "shows_char (repainted d pix gr m) ch x' y' = shows_char d ch x' y'"
proof -
  have "pix ! p = framebuffer d ! p" if "p \<in> cell_pixels d x' y'" for p
  proof -
    have "p \<notin> cell_pixels d x y" using cell_pixels_disjoint [OF g(1) o(1,2) g(2,3) o(3)] that by blast
    then show ?thesis using assms(4) cell_pixels_below [OF g(1) o(1,2) that] by (simp add: touches_def)
  qed
  then show ?thesis by (simp add: shows_char_def)
qed

section \<open>A flush in progress\<close>

definition invert :: "flanterm_fb_char \<Rightarrow> flanterm_fb_char" where
  "invert ch = ch\<lparr>ch_fg := ch_bg ch, ch_bg := ch_fg ch\<rparr>"

text \<open>\<open>X\<close>: the cells done; \<open>K\<close>: the cell of the cursor, if it has been drawn; \<open>D\<close>: the cells that
  may not show their character.\<close>

definition flushing :: "u64 \<Rightarrow> u64 \<Rightarrow> flanterm_fb_context \<Rightarrow> nat set \<Rightarrow> nat set \<Rightarrow> nat set \<Rightarrow> flanterm_fb_context \<Rightarrow> bool" where
  "flushing r c d X K D e \<longleftrightarrow>
     (\<exists>pix g m. e = repainted d pix g m \<and> length pix = length (framebuffer d) \<and>
        length g = unat r * unat c \<and> length m = unat r * unat c \<and>
        (\<forall>i < unat r * unat c. m ! i = (if i \<in> X then None else cell_map d ! i)) \<and>
        (\<forall>i < unat r * unat c. g ! i = (if i \<in> X then screen d ! i else grid d ! i))) \<and>
     synced r c D e \<and>
     (\<forall>x y. x < c \<and> y < r \<and> cell_slot c x y \<in> K \<longrightarrow> shows_char e (invert (screen d ! cell_slot c x y)) x y)"

text \<open>Finishing one cell: its character goes to the grid, its update is forgotten.\<close>

lemma flushing_step:
  assumes inv: "fb_geometry r c d" "queue_ok r c d" and f: "flushing r c d X K D e" and xy: "x < c" "y < r"
    and tch: "touches e x y pix" and s: "s = cell_slot c x y"
    and K: "s \<notin> K" and shown: "s \<notin> D \<Longrightarrow> \<forall>g m. shows_char (repainted e pix g m) (screen d ! s) x y"
  shows "flushing r c d (insert s X) K D (repainted e pix ((grid e)[s := screen d ! s]) ((cell_map e)[s := None]))"
proof -
  from f obtain px g m where e: "e = repainted d px g m" "length px = length (framebuffer d)"
    "length g = unat r * unat c" "length m = unat r * unat c"
    "\<And>i. i < unat r * unat c \<Longrightarrow> m ! i = (if i \<in> X then None else cell_map d ! i)"
    "\<And>i. i < unat r * unat c \<Longrightarrow> g ! i = (if i \<in> X then screen d ! i else grid d ! i)"
    and sy: "synced r c D e"
    and kk: "\<And>x y. x < c \<Longrightarrow> y < r \<Longrightarrow> cell_slot c x y \<in> K \<Longrightarrow> shows_char e (invert (screen d ! cell_slot c x y)) x y"
    unfolding flushing_def by blast
  have ge: "fb_geometry r c e" using inv(1) e(1,2) by (simp add: repainted_geometry)
  have sn: "s < unat r * unat c" using slot_below [OF xy] s by simp
  let ?e = "repainted e pix ((grid e)[s := screen d ! s]) ((cell_map e)[s := None])"
  have other: "shows_char ?e ch x' y' = shows_char e ch x' y'" if "x' < c" "y' < r" "cell_slot c x' y' \<noteq> s" for ch x' y'
    by (rule touches_other [OF ge xy tch that(1,2)]) (use that(3) s in auto)
  have "synced r c D ?e"
    unfolding synced_def
  proof (intro allI impI, elim conjE)
    fix x' y' assume o: "x' < c" "y' < r" "cell_slot c x' y' \<notin> D"
    show "shows_char ?e (grid ?e ! cell_slot c x' y') x' y'"
    proof (cases "cell_slot c x' y' = s")
      case True
      then have "x' = x" "y' = y" using slot_eq_iff [OF o(1) xy(1)] s by simp_all
      then show ?thesis using shown o(3) True sn e(1,3) by simp
    next
      case False
      then show ?thesis using other [OF o(1,2) False] syncedD [OF sy o] by simp
    qed
  qed
  moreover have "shows_char ?e (invert (screen d ! cell_slot c x' y')) x' y'" if "x' < c" "y' < r" "cell_slot c x' y' \<in> K" for x' y'
    using other [OF that(1,2)] kk [OF that] that(3) K by auto
  moreover have "?e = repainted d pix (g[s := screen d ! s]) (m[s := None])" using e(1) by simp
  moreover have "length pix = length (framebuffer d)" using tch e(1,2) by (simp add: touches_def)
  ultimately show ?thesis
    unfolding flushing_def using e(3-6) sn
    by (intro conjI exI [of _ pix] exI [of _ "g[s := screen d ! s]"] exI [of _ "m[s := None]"])
      (auto simp: nth_list_update)
qed

text \<open>Drawing over a cell without finishing it: the cursor.\<close>

lemma flushing_start:
  assumes "queue_ok r c d" and "synced r c D d"
  shows "flushing r c d {} {} D d"
  unfolding flushing_def using assms queue_okD(1,3) [OF assms(1)]
  by (intro conjI exI [of _ "framebuffer d"] exI [of _ "grid d"] exI [of _ "cell_map d"]) (simp_all add: repainted_same)

lemma flushing_cursor:
  assumes inv: "fb_geometry r c d" "queue_ok r c d" "synced r c D d" and xy: "x < c" "y < r"
    and tch: "touches d x y pix" and shown: "\<forall>g m. shows_char (repainted d pix g m) (invert (screen d ! cell_slot c x y)) x y"
    and g: "g = (grid d)[cell_slot c x y := screen d ! cell_slot c x y]" and m: "m = (cell_map d)[cell_slot c x y := None]"
  shows "flushing r c d {cell_slot c x y} {cell_slot c x y} (insert (cell_slot c x y) D) (repainted d pix g m)"
proof -
  have sy: "synced r c (insert (cell_slot c x y) D) d" using inv(3) by (simp add: synced_def)
  let ?e = "repainted d pix g m"
  from flushing_step [OF inv(1,2) flushing_start [OF inv(2) sy] xy tch refl] g m
  have f: "flushing r c d {cell_slot c x y} {} (insert (cell_slot c x y) D) ?e" by simp
  have "shows_char ?e (invert (screen d ! cell_slot c x' y')) x' y'" if "x' < c" "cell_slot c x' y' = cell_slot c x y" for x' y'
    using that(2) shown slot_eq_iff [OF that(1) xy(1)] by auto
  with f show ?thesis unfolding flushing_def by auto
qed

lemma draw_cursor_flushing:
  assumes inv: "fb_geometry (rows t) (cols t) d" "queue_ok (rows t) (cols t) d" "synced (rows t) (cols t) D d"
  defines "K \<equiv> spot (rows t) (cols t) (cursor_x d) (cursor_y d)"
  shows "\<exists>e. draw_cursor t d = Some e \<and> flushing (rows t) (cols t) d K K (K \<union> D) e"
proof (cases "cursor_x d < cols t \<and> cursor_y d < rows t")
  case False
  then have "draw_cursor t d = Some d" "K = {}" by (auto simp: draw_cursor_def K_def spot_def)
  then show ?thesis using flushing_start [OF inv(2,3)] by simp
next
  case True
  then have xy: "cursor_x d < cols t" "cursor_y d < rows t" by simp_all
  then have K: "K = {cell_slot (cols t) (cursor_x d) (cursor_y d)}" and u: "\<not> (cols t \<le> cursor_x d \<or> rows t \<le> cursor_y d)"
    by (auto simp: K_def spot_def)
  let ?i = "cell_slot (cols t) (cursor_x d) (cursor_y d)"
  note q = queue_okD [OF inv(2)]
  note i = slot_below [OF xy]
  have small: "ch_c (invert (screen d ! ?i)) < 256" using screen_char [OF inv(2) i] by (simp add: invert_def)
  from plot_char_shows [OF inv(1) xy small] obtain pix where
    pix: "plot_char t (invert (screen d ! ?i)) (cursor_x d) (cursor_y d) d = Some (repainted d pix (grid d) (cell_map d))"
      "touches d (cursor_x d) (cursor_y d) pix"
      "\<forall>g m. shows_char (repainted d pix g m) (invert (screen d ! ?i)) (cursor_x d) (cursor_y d)" by blast
  have get: "buf_get (cell_map d) (int ?i) = Some (cell_map d ! ?i)" using i q(3) by simp
  have same: "screen d ! ?i = grid d ! ?i" if "cell_map d ! ?i = None"
    using that i q(1) by (simp add: nth_screen view_def)
  have noop: "(grid d)[?i := screen d ! ?i] = grid d" "(cell_map d)[?i := None] = cell_map d" if "cell_map d ! ?i = None"
    using same [OF that] list_update_id [of "cell_map d" ?i] that by simp_all
  have upd: "(repainted d pix g m)\<lparr>grid := g', cell_map := m'\<rparr> = repainted d pix g' m'" for g m g' m'
    by (simp add: repainted_def)
  have "draw_cursor t d = Some (repainted d pix ((grid d)[?i := screen d ! ?i]) ((cell_map d)[?i := None]))"
    using u pix(1) noop upd unfolding draw_cursor_def Let_def slot_words unat_cell_slot [OF q(4) xy] get cell_at_screen [OF inv(2) i]
      invert_def by (auto simp: upd)
  then show ?thesis using flushing_cursor [OF inv xy pix(2,3) refl refl] unfolding K by simp
qed

definition done_slots :: "u64 \<Rightarrow> flanterm_fb_context \<Rightarrow> nat \<Rightarrow> nat set" where
  "done_slots c d k = item_slot c d ` {..<k}"

lemma screen_item:
  assumes "queue_ok r c d" and "k < queue_i d"
  shows "screen d ! item_slot c d k = item_c (queue d ! k)" and "item_slot c d k < unat r * unat c"
proof -
  note q = queue_okD [OF assms(1)]
  show "item_slot c d k < unat r * unat c" unfolding item_slot_def by (rule slot_below [OF q(6,7) [OF assms(2)]])
  then show "screen d ! item_slot c d k = item_c (queue d ! k)"
    using q(1) q(8) [OF assms(2)] by (simp add: nth_screen view_def)
qed

lemma item_slot_fresh:
  assumes "queue_ok r c d" and "k < queue_i d"
  shows "item_slot c d k \<notin> done_slots c d k"
proof
  assume "item_slot c d k \<in> done_slots c d k"
  then obtain j where j: "j < k" "item_slot c d k = item_slot c d j" by (auto simp: done_slots_def)
  then have "Some k = Some j" using queue_okD(8) [OF assms(1), of k] queue_okD(8) [OF assms(1), of j] assms(2) by simp
  with j(1) show False by simp
qed

lemma flush_item_step:
  assumes inv: "fb_geometry (rows t) (cols t) d" "queue_ok (rows t) (cols t) d" and k: "k < queue_i d"
    and f: "flushing (rows t) (cols t) d (K \<union> done_slots (cols t) d k) K D e"
  shows "\<exists>e'. flush_item t k e = Some e' \<and> flushing (rows t) (cols t) d (K \<union> done_slots (cols t) d (Suc k)) K D e'"
proof -
  note q = queue_okD [OF inv(2)]
  let ?x = "item_x (queue d ! k)" and ?y = "item_y (queue d ! k)" and ?s = "item_slot (cols t) d k"
  let ?ch = "item_c (queue d ! k)"
  have xy: "?x < cols t" "?y < rows t" using q(6,7) [OF k] .
  have sl: "?s = cell_slot (cols t) ?x ?y" by (simp add: item_slot_def)
  note sn = screen_item [OF inv(2) k]
  from f obtain px g m where e: "e = repainted d px g m" "length px = length (framebuffer d)"
    "length g = unat (rows t) * unat (cols t)" "length m = unat (rows t) * unat (cols t)"
    "\<And>i. i < unat (rows t) * unat (cols t) \<Longrightarrow> m ! i = (if i \<in> K \<union> done_slots (cols t) d k then None else cell_map d ! i)"
    "\<And>i. i < unat (rows t) * unat (cols t) \<Longrightarrow> g ! i = (if i \<in> K \<union> done_slots (cols t) d k then screen d ! i else grid d ! i)"
    and sy: "synced (rows t) (cols t) D e" unfolding flushing_def by blast
  have get: "buf_get (queue e) (int k) = Some (queue d ! k)" using k q(2,5) e(1) by simp
  have gets: "buf_get (cell_map e) (int ?s) = Some (m ! ?s)" "buf_get (grid e) (int ?s) = Some (g ! ?s)"
    using sn(2) e(1,3,4) by simp_all
  have off: "item_y (queue d ! k) * cols t + item_x (queue d ! k) = of_nat ?s" unfolding sl by (rule slot_words)
  have u: "unat (of_nat ?s :: u64) = ?s" "uint (of_nat ?s :: u64) = int ?s"
    unfolding sl using unat_cell_slot [OF q(4) xy] by simp_all
  have X: "K \<union> done_slots (cols t) d (Suc k) = insert ?s (K \<union> done_slots (cols t) d k)"
    by (auto simp: done_slots_def lessThan_Suc)
  show ?thesis
  proof (cases "?s \<in> K")
    case True
    then have "flush_item t k e = Some e"
      using e(5) [OF sn(2)] gets unfolding flush_item_def get by (simp add: Let_def off u)
    moreover have "K \<union> done_slots (cols t) d (Suc k) = K \<union> done_slots (cols t) d k" using True X by auto
    ultimately show ?thesis using f by simp
  next
    case False
    then have ms: "m ! ?s = Some k" "g ! ?s = grid d ! ?s"
      using e(5,6) [OF sn(2)] item_slot_fresh [OF inv(2) k] q(8) [OF k] by simp_all
    have ge: "fb_geometry (rows t) (cols t) e" using inv(1) e(1,2) by (simp add: repainted_geometry)
    from plot_either_shows [OF ge xy q(11) [OF k], of "grid d ! ?s"] q(12) [OF sn(2)] obtain pix where
      pix: "plot_either t (grid d ! ?s) ?ch ?x ?y e = Some (repainted e pix (grid e) (cell_map e))" "touches e ?x ?y pix"
        "shows_char e (grid d ! ?s) ?x ?y \<Longrightarrow> \<forall>g m. shows_char (repainted e pix g m) ?ch ?x ?y" by auto
    have "shows_char e (grid d ! ?s) ?x ?y" if "?s \<notin> D"
      using syncedD [OF sy xy] that ms(2) e(1) unfolding sl by simp
    then have sh: "?s \<notin> D \<Longrightarrow> \<forall>g m. shows_char (repainted e pix g m) (screen d ! ?s) ?x ?y"
      using pix(3) sn(1) by simp
    let ?e = "repainted e pix ((grid e)[?s := screen d ! ?s]) ((cell_map e)[?s := None])"
    have upd: "(repainted e pix (grid e) (cell_map e))\<lparr>grid := g', cell_map := m'\<rparr> = repainted e pix g' m'" for g' m'
      by (simp add: repainted_def)
    have "flush_item t k e = map_option (\<lambda>e. e\<lparr>grid := (grid e)[?s := ?ch], cell_map := (cell_map e)[?s := None]\<rparr>)
        (plot_either t (grid d ! ?s) ?ch ?x ?y e)"
      unfolding flush_item_def get plot_either_def by (simp add: Let_def off u gets ms)
    also have "\<dots> = Some ?e" unfolding pix(1) by (simp add: upd sn(1))
    finally have "flush_item t k e = Some ?e" .
    moreover have "flushing (rows t) (cols t) d (insert ?s (K \<union> done_slots (cols t) d k)) K D ?e"
      by (rule flushing_step [OF inv f xy pix(2) sl False sh])
    ultimately show ?thesis unfolding X by blast
  qed
qed

text \<open>After the loop.\<close>

lemma flush_done:
  assumes "queue_ok r c d" and f: "flushing r c d (K \<union> done_slots c d (queue_i d)) K D e"
  shows "grid e = screen d" and "cell_map e = replicate (unat r * unat c) None"
proof -
  note q = queue_okD [OF assms(1)]
  from f obtain px g m where e: "e = repainted d px g m" "length g = unat r * unat c" "length m = unat r * unat c"
    "\<And>i. i < unat r * unat c \<Longrightarrow> m ! i = (if i \<in> K \<union> done_slots c d (queue_i d) then None else cell_map d ! i)"
    "\<And>i. i < unat r * unat c \<Longrightarrow> g ! i = (if i \<in> K \<union> done_slots c d (queue_i d) then screen d ! i else grid d ! i)"
    unfolding flushing_def by blast
  have none: "cell_map d ! i = None" if "i < unat r * unat c" "i \<notin> done_slots c d (queue_i d)" for i
    using q(9,10) [OF that(1)] that(2) by (cases "cell_map d ! i") (auto simp: done_slots_def)
  show "grid e = screen d"
    using e(1,2,5) q(1) none by (intro nth_equalityI) (auto simp: nth_screen view_def)
  show "cell_map e = replicate (unat r * unat c) None"
    using e(1,3,4) none by (intro nth_equalityI) auto
qed

definition flush_end :: "flanterm_fb_context \<Rightarrow> flanterm_fb_context" where
  "flush_end d = d\<lparr>old_cursor_x := cursor_x d, old_cursor_y := cursor_y d, queue_i := 0\<rparr>"

lemma flush_end_picture [simp]:
  "shows_char (flush_end d) = shows_char d" "fb_geometry r c (flush_end d) = fb_geometry r c d"
  "grid (flush_end d) = grid d" "cell_map (flush_end d) = cell_map d" "queue_i (flush_end d) = 0"
  "cursor_x (flush_end d) = cursor_x d" "cursor_y (flush_end d) = cursor_y d"
  "old_cursor_x (flush_end d) = cursor_x d" "old_cursor_y (flush_end d) = cursor_y d" "queue (flush_end d) = queue d"
  by (simp_all add: flush_end_def fb_geometry_def fun_eq_iff shows_char_def cell_pixels_def pixel_def corner_x_def corner_y_def
      stride_def dot_colour_def dot_bit_def over_canvas_def glyph_bit_def)

section \<open>The flush\<close>

definition displayed :: "'b flanterm_context \<Rightarrow> flanterm_fb_context \<Rightarrow> u64 \<Rightarrow> u64 \<Rightarrow> flanterm_fb_char" where
  "displayed t d x y =
     (let ch = screen d ! cell_slot (cols t) x y
      in if cursor_enabled t \<and> x = cursor_x d \<and> y = cursor_y d then invert ch else ch)"

text \<open>The colours, the cursor and its saved copy are not the flush's.\<close>

definition flush_frame :: "flanterm_fb_context \<Rightarrow> flanterm_fb_context \<Rightarrow> bool" where
  "flush_frame d d' \<longleftrightarrow> (\<exists>pix g m. d' = flush_end (repainted d pix g m))"

lemma queue_ok_flushed:
  assumes "queue_ok r c d" and "length (queue d') = length (queue d)" and "queue_i d' = 0"
    and "grid d' = screen d" and "cell_map d' = replicate (unat r * unat c) None"
  shows "queue_ok r c d'"
  unfolding queue_ok_def using assms queue_okD(1,2,4) [OF assms(1)] screen_char [OF assms(1)] by simp

lemma flush_shows:
  assumes "fb_inv (rows t) (cols t) d"
  shows "\<exists>d'. flanterm_fb_double_buffer_flush t d = Some d' \<and> fb_inv (rows t) (cols t) d' \<and> flush_frame d d' \<and>
     grid d' = screen d \<and> screen d' = screen d \<and>
     (\<forall>x y. x < cols t \<and> y < rows t \<longrightarrow> shows_char d' (displayed t d x y) x y)"
proof -
  let ?r = "rows t" and ?c = "cols t" and ?O = "spot (rows t) (cols t) (old_cursor_x d) (old_cursor_y d)"
  have geo: "fb_geometry ?r ?c d" and q: "queue_ok ?r ?c d" and sy: "synced ?r ?c ?O d"
    using assms by (simp_all add: fb_inv_def)
  note qd = queue_okD [OF q]
  define K where "K = (if cursor_enabled t then spot ?r ?c (cursor_x d) (cursor_y d) else {})"
  have "\<exists>e. (if cursor_enabled t then draw_cursor t d else Some d) = Some e \<and> flushing ?r ?c d (K \<union> done_slots ?c d 0) K (K \<union> ?O) e"
    using draw_cursor_flushing [OF geo q sy] flushing_start [OF q sy] by (auto simp: K_def done_slots_def)
  then obtain e0 where e0: "(if cursor_enabled t then draw_cursor t d else Some d) = Some e0"
    "flushing ?r ?c d (K \<union> done_slots ?c d 0) K (K \<union> ?O) e0" by blast
  have "\<exists>e. for_range (flush_item t) 0 (queue_i d) e0 = Some e \<and> flushing ?r ?c d (K \<union> done_slots ?c d (queue_i d)) K (K \<union> ?O) e"
    by (rule for_range_total [where P = "\<lambda>k. flushing ?r ?c d (K \<union> done_slots ?c d k) K (K \<union> ?O)"])
      (use e0(2) flush_item_step [OF geo q] in auto)
  then obtain e where e: "for_range (flush_item t) 0 (queue_i d) e0 = Some e"
    "flushing ?r ?c d (K \<union> done_slots ?c d (queue_i d)) K (K \<union> ?O) e" by blast
  note fin = flush_done [OF q e(2)]
  have ie: "queue_i e0 = queue_i d" using e0(2) by (auto simp: flushing_def)
  from e(2) obtain px g m where er: "e = repainted d px g m" "length px = length (framebuffer d)" unfolding flushing_def by blast
  have ge: "fb_geometry ?r ?c e" using geo er by (simp add: repainted_geometry)
  have es: "shows_char e (screen d ! cell_slot ?c x y) x y" if "x < ?c" "y < ?r" "cell_slot ?c x y \<notin> K \<union> ?O" for x y
    using e(2) that fin(1) by (auto simp: flushing_def synced_def)
  have ek: "shows_char e (invert (screen d ! cell_slot ?c x y)) x y" if "x < ?c" "y < ?r" "cell_slot ?c x y \<in> K" for x y
    using e(2) that by (simp add: flushing_def)
  have "\<exists>pix. erase_old_cursor t e = Some (repainted e pix (grid e) (cell_map e)) \<and> length pix = length (framebuffer e) \<and>
      (\<forall>x y. x < ?c \<and> y < ?r \<longrightarrow> shows_char (repainted e pix (grid e) (cell_map e)) (displayed t d x y) x y)"
  proof (cases "((old_cursor_x e \<noteq> cursor_x e \<or> old_cursor_y e \<noteq> cursor_y e) \<or> \<not> cursor_enabled t) \<and>
      old_cursor_x e < ?c \<and> old_cursor_y e < ?r")
    case False
    then have "erase_old_cursor t e = Some (repainted e (framebuffer e) (grid e) (cell_map e))"
      by (auto simp: erase_old_cursor_def repainted_same)
    moreover have "?O \<subseteq> K" using False er(1) by (auto simp: spot_def K_def)
    then have "shows_char e (displayed t d x y) x y" if "x < ?c" "y < ?r" for x y
      using es [OF that] ek [OF that] that slot_eq_iff [of x ?c "cursor_x d" y "cursor_y d"]
      by (auto simp: displayed_def K_def spot_def Let_def split: if_splits)
    ultimately show ?thesis by (auto simp: repainted_same intro!: exI [of _ "framebuffer e"])
  next
    case True
    let ?x = "old_cursor_x d" and ?y = "old_cursor_y d"
    have xy: "?x < ?c" "?y < ?r" using True er(1) by simp_all
    let ?i = "cell_slot ?c ?x ?y"
    note i = slot_below [OF xy]
    have noK: "?i \<notin> K" using True er(1) slot_eq_iff [of ?x ?c "cursor_x d" ?y "cursor_y d"] xy
      by (auto simp: K_def spot_def)
    from plot_char_shows [OF ge xy screen_char [OF q i]] obtain pix where
      pix: "plot_char t (screen d ! ?i) ?x ?y e = Some (repainted e pix (grid e) (cell_map e))" "touches e ?x ?y pix"
        "\<And>g m. shows_char (repainted e pix g m) (screen d ! ?i) ?x ?y" by blast
    have "buf_get (grid e) (int ?i) = Some (screen d ! ?i)" unfolding fin(1) using i qd(1) by simp
    moreover have "old_cursor_x e + old_cursor_y e * ?c = of_nat ?i" using er(1) slot_words(2) [of ?x ?y ?c] by simp
    ultimately have eo: "erase_old_cursor t e = Some (repainted e pix (grid e) (cell_map e))"
      using True pix(1) unat_cell_slot(2) [OF qd(4) xy] er(1) by (simp add: erase_old_cursor_def)
    have "shows_char (repainted e pix (grid e) (cell_map e)) (displayed t d x y) x y" if o: "x < ?c" "y < ?r" for x y
    proof (cases "(x, y) = (?x, ?y)")
      case True
      have "displayed t d ?x ?y = screen d ! ?i" using noK xy by (auto simp: displayed_def K_def spot_def Let_def)
      then show ?thesis using pix(3) True by simp
    next
      case False
      have "cell_slot ?c x y \<notin> ?O" using False slot_eq_iff [OF o(1) xy(1)] by (auto simp: spot_def)
      then have "shows_char e (displayed t d x y) x y"
        using es [OF o] ek [OF o] o slot_eq_iff [of x ?c "cursor_x d" y "cursor_y d"]
        by (auto simp: displayed_def K_def spot_def Let_def split: if_splits)
      then show ?thesis using touches_other [OF ge xy pix(2) o False] by simp
    qed
    then show ?thesis using eo pix(2) by (auto simp: touches_def)
  qed
  then obtain pix where pix: "erase_old_cursor t e = Some (repainted e pix (grid e) (cell_map e))" "length pix = length (framebuffer e)"
    "\<And>x y. x < ?c \<Longrightarrow> y < ?r \<Longrightarrow> shows_char (repainted e pix (grid e) (cell_map e)) (displayed t d x y) x y" by blast
  define d' where "d' = flush_end (repainted e pix (grid e) (cell_map e))"
  have "flanterm_fb_double_buffer_flush t d = Some d'"
    using e0(1) e(1) pix(1) by (simp add: flanterm_fb_double_buffer_flush_def d'_def flush_end_def ie)
  moreover have gd: "grid d' = screen d" "cell_map d' = replicate (unat ?r * unat ?c) None" using fin by (simp_all add: d'_def)
  moreover have qo: "queue_ok ?r ?c d'"
    by (rule queue_ok_flushed [OF q _ _ gd]) (simp_all add: d'_def er(1))
  moreover have sd: "screen d' = screen d"
    using gd qd(1) by (intro nth_equalityI) (simp_all add: nth_screen view_def)
  moreover have sh: "shows_char d' (displayed t d x y) x y" if "x < ?c" "y < ?r" for x y
    using pix(3) [OF that] by (simp add: d'_def)
  moreover have "fb_geometry ?r ?c d'" using ge pix(2) by (simp add: d'_def repainted_geometry)
  moreover have "synced ?r ?c (spot ?r ?c (old_cursor_x d') (old_cursor_y d')) d'"
    unfolding synced_def
  proof (intro allI impI, elim conjE)
    fix x y assume o: "x < ?c" "y < ?r" "cell_slot ?c x y \<notin> spot ?r ?c (old_cursor_x d') (old_cursor_y d')"
    have "old_cursor_x d' = cursor_x d" "old_cursor_y d' = cursor_y d" by (simp_all add: d'_def er(1))
    then have "\<not> (x = cursor_x d \<and> y = cursor_y d)" using o by (auto simp: spot_def)
    then show "shows_char d' (grid d' ! cell_slot ?c x y) x y" using sh [OF o(1,2)] gd(1) by (auto simp: displayed_def Let_def)
  qed
  moreover have "flush_frame d d'" unfolding flush_frame_def d'_def er(1) by auto
  ultimately show ?thesis unfolding fb_inv_def by blast
qed

end
