(* ===== verification/Fb_Init.thy ===== *)
theory Fb_Init
  imports Fb_Flush Fb_Font
begin

text \<open>
  Making and discarding the frame buffer back end (backends/fb.c: \<open>bump_alloc\<close>,
  \<open>flanterm_fb_init\<close>, \<open>flanterm_fb_deinit\<close>; backends/fb.h: \<open>flanterm_fb_simple_init\<close>).

  The client's allocator is a pair of functions on a state of its own; the memory it hands out
  is the contents of the arrays, as many elements as the size asked for has room for.
\<close>

section \<open>Allocation\<close>

definition FLANTERM_FB_BUMP_ALLOC_POOL_SIZE :: u64 where
  "FLANTERM_FB_BUMP_ALLOC_POOL_SIZE = 64 * 1024 * 1024"

text \<open>\<open>bump_alloc_ptr\<close> is an argument and a result; \<open>pool\<close> is the address of the pool, 0 is \<open>NULL\<close>.\<close>

definition bump_alloc :: "u64 \<Rightarrow> u64 \<Rightarrow> u64 \<Rightarrow> u64 \<times> u64" where
  "bump_alloc pool s ptr =
     (let next_ptr = ptr + s in
      if next_ptr > FLANTERM_FB_BUMP_ALLOC_POOL_SIZE then (0, ptr) else (pool + ptr, next_ptr))"

record 'h client_alloc =
  malloc_fn :: "(u64 \<Rightarrow> 'h \<Rightarrow> u64 \<times> 'h) option"
  free_fn :: "(u64 \<Rightarrow> u64 \<Rightarrow> 'h \<Rightarrow> 'h) option"
  pool_base :: u64

type_synonym 'h alloc_state = "u64 \<times> 'h"

definition fb_malloc :: "'h client_alloc \<Rightarrow> u64 \<Rightarrow> 'h alloc_state \<Rightarrow> u64 \<times> 'h alloc_state" where
  "fb_malloc al s st =
     (case malloc_fn al of
        None \<Rightarrow> (let (p, ptr) = bump_alloc (pool_base al) s (fst st) in (p, (ptr, snd st)))
      | Some m \<Rightarrow> (let (p, h) = m s (snd st) in (p, (fst st, h))))"

text \<open>The sizes of the structures, as the x86-64 ABI lays them out.\<close>

definition sizeof_fb_context :: u64 where "sizeof_fb_context = 784"
definition sizeof_fb_char :: u64 where "sizeof_fb_char = 12"
definition sizeof_fb_queue_item :: u64 where "sizeof_fb_queue_item = 32"
definition sizeof_pointer :: u64 where "sizeof_pointer = 8"
definition sizeof_uint32 :: u64 where "sizeof_uint32 = 4"

text \<open>The blocks of one back end: null or allocated, each with its size.\<close>

record fb_blocks =
  blk_ctx :: u64
  blk_font_bits :: "u64 \<times> u64"
  blk_font_bool :: "u64 \<times> u64"
  blk_grid :: "u64 \<times> u64"
  blk_queue :: "u64 \<times> u64"
  blk_map :: "u64 \<times> u64"
  blk_canvas :: "u64 \<times> u64"

definition flanterm_fb_deinit :: "fb_blocks \<Rightarrow> (u64 \<Rightarrow> u64 \<Rightarrow> 'h \<Rightarrow> 'h) option \<Rightarrow> 'h \<Rightarrow> 'h" where
  "flanterm_fb_deinit b free h =
     (case free of
        None \<Rightarrow> h
      | Some f \<Rightarrow>
          fold (\<lambda>(p, s). f p s)
            [blk_font_bits b, blk_font_bool b, blk_grid b, blk_queue b, blk_map b, blk_canvas b, (blk_ctx b, sizeof_fb_context)] h)"

text \<open>The label \<open>fail\<close>, reached with the blocks allocated so far.  \<open>None\<close>: the context itself could
  not be allocated and is dereferenced.\<close>

definition init_fail :: "'h client_alloc \<Rightarrow> u64 \<Rightarrow> fb_blocks \<Rightarrow> 'h alloc_state \<Rightarrow> 'h alloc_state option" where
  "init_fail al orig_ptr b st =
     (if malloc_fn al = None then Some (orig_ptr, snd st)
      else case free_fn al of
        None \<Rightarrow> Some st
      | Some f \<Rightarrow>
          if blk_ctx b = 0 then None
          else Some (fst st, fold (\<lambda>(p, s) h. if p \<noteq> 0 then f p s h else h)
            [blk_canvas b, blk_map b, blk_queue b, blk_grid b, blk_font_bool b, blk_font_bits b, (blk_ctx b, sizeof_fb_context)] (snd st)))"

section \<open>The arguments\<close>

record fb_args =
  arg_framebuffer :: "u32 list"
  arg_width :: u64
  arg_height :: u64
  arg_pitch :: u64
  arg_canvas :: "u32 list option"
  arg_ansi_colours :: "u32 list option"
  arg_ansi_bright_colours :: "u32 list option"
  arg_default_bg :: "u32 option"
  arg_default_fg :: "u32 option"
  arg_default_bg_bright :: "u32 option"
  arg_default_fg_bright :: "u32 option"
  arg_font :: "u8 list option"
  arg_font_width :: u64
  arg_font_height :: u64
  arg_font_spacing :: u64
  arg_font_scale_x :: u64
  arg_font_scale_y :: u64
  arg_margin :: u64

definition simple_args :: "u32 list \<Rightarrow> u64 \<Rightarrow> u64 \<Rightarrow> u64 \<Rightarrow> fb_args" where
  "simple_args pix w h p =
     \<lparr>arg_framebuffer = pix, arg_width = w, arg_height = h, arg_pitch = p, arg_canvas = None,
      arg_ansi_colours = None, arg_ansi_bright_colours = None, arg_default_bg = None, arg_default_fg = None,
      arg_default_bg_bright = None, arg_default_fg_bright = None, arg_font = None, arg_font_width = 0,
      arg_font_height = 0, arg_font_spacing = 1, arg_font_scale_x = 1, arg_font_scale_y = 1, arg_margin = 0\<rparr>"

section \<open>The parts of the initialisation\<close>

text \<open>After \<open>memset\<close>: everything zero, with the colours and the frame buffer of the arguments.\<close>

definition default_ansi_colours :: "u32 list" where
  "default_ansi_colours = [0x00000000, 0x00aa0000, 0x0000aa00, 0x00aa5500, 0x000000aa, 0x00aa00aa, 0x0000aaaa, 0x00aaaaaa]"

definition default_ansi_bright_colours :: "u32 list" where
  "default_ansi_bright_colours = [0x00555555, 0x00ff5555, 0x0055ff55, 0x00ffff55, 0x005555ff, 0x00ff55ff, 0x0055ffff, 0x00ffffff]"

definition given :: "'a option \<Rightarrow> 'a \<Rightarrow> 'a" where
  "given a d = (case a of Some v \<Rightarrow> v | None \<Rightarrow> d)"

definition init_colours :: "fb_args \<Rightarrow> flanterm_fb_context" where
  "init_colours a =
     \<lparr>font_width = 0, font_height = 0, glyph_width = 0, glyph_height = 0, font_scale_x = 0, font_scale_y = 0,
      offset_x = 0, offset_y = 0, framebuffer = arg_framebuffer a, pitch = arg_pitch a, width = arg_width a,
      height = arg_height a, font_bits_size = 0, font_bits = [], font_bool_size = 0, font_bool = [],
      ansi_colours = take 8 (given (arg_ansi_colours a) default_ansi_colours),
      ansi_bright_colours = take 8 (given (arg_ansi_bright_colours a) default_ansi_bright_colours),
      default_fg = given (arg_default_fg a) 0x00aaaaaa, default_bg = given (arg_default_bg a) 0,
      default_fg_bright = given (arg_default_fg_bright a) 0x00ffffff, default_bg_bright = given (arg_default_bg_bright a) 0x00555555,
      canvas_size = 0, canvas = [], grid_size = 0, queue_size = 0, map_size = 0, grid = [], queue = [], queue_i = 0,
      cell_map = [], text_fg = given (arg_default_fg a) 0x00aaaaaa, text_bg = 0xffffffff, cursor_x = 0, cursor_y = 0,
      saved_state_text_fg = 0, saved_state_text_bg = 0, saved_state_cursor_x = 0, saved_state_cursor_y = 0,
      old_cursor_x = 0, old_cursor_y = 0\<rparr>"

definition FONT_BYTES :: "u64 \<Rightarrow> u64 \<Rightarrow> u64" where
  "FONT_BYTES fw fh = fw * fh * 256 div 8"

text \<open>The font: the dimensions given, or those of the built-in one.\<close>

definition chosen_font :: "fb_args \<Rightarrow> u8 list \<times> u64 \<times> u64 \<times> u64" where
  "chosen_font a =
     (case arg_font a of
        Some bits \<Rightarrow> (bits, arg_font_width a, arg_font_height a, arg_font_spacing a)
      | None \<Rightarrow> (builtin_font, 8, 16, 1))"

text \<open>\<open>memcpy\<close> of the font into its block.\<close>

definition init_font_bits :: "fb_args \<Rightarrow> flanterm_fb_context \<Rightarrow> flanterm_fb_context option" where
  "init_font_bits a d =
     (let (bits, fw, fh, spacing) = chosen_font a; n = FONT_BYTES fw fh in
      if unat n \<le> length bits
      then Some (d\<lparr>font_width := fw, font_height := fh, font_bits_size := n, font_bits := take (unat n) bits\<rparr>)
      else None)"

text \<open>One row of one glyph: eight dots, and the columns beyond as VGA fills them.\<close>

definition expand_row :: "u8 list \<Rightarrow> u64 \<Rightarrow> u64 \<Rightarrow> nat \<Rightarrow> nat \<Rightarrow> bool list \<Rightarrow> bool list option" where
  "expand_row bits fw fh i y dots =
     (let at = of_nat i * fh + of_nat y;
          offset = (\<lambda>x. uint (of_nat i * fh * fw + of_nat y * fw + of_nat x)) in
      Option.bind
        (for_range (\<lambda>x dots. Option.bind (buf_get bits (uint at))
            (\<lambda>row. buf_set dots (offset x) (row AND drop_bit x 0x80 \<noteq> 0))) 0 8 dots)
        (for_range (\<lambda>x dots.
            if 0xc0 \<le> i \<and> i \<le> 0xdf
            then Option.bind (buf_get bits (uint at)) (\<lambda>row. buf_set dots (offset x) (row AND 1 \<noteq> 0))
            else buf_set dots (offset x) False) 8 (unat fw)))"

definition expand_font :: "u8 list \<Rightarrow> u64 \<Rightarrow> u64 \<Rightarrow> bool list \<Rightarrow> bool list option" where
  "expand_font bits fw fh =
     for_range (\<lambda>i. for_range (\<lambda>y. expand_row bits fw fh i y) 0 (unat fh)) 0 256"

definition init_font_bool :: "fb_args \<Rightarrow> flanterm_fb_context \<Rightarrow> flanterm_fb_context option" where
  "init_font_bool a d =
     (let (bits, fw0, fh, spacing) = chosen_font a; fw = fw0 + spacing; n = 256 * fh * fw in
      map_option (\<lambda>dots. d\<lparr>font_width := fw, font_bool_size := n, font_bool := dots\<rparr>)
        (expand_font (font_bits d) fw fh (replicate (unat n) False)))"

text \<open>The layout.  \<open>None\<close>: division by zero.\<close>

definition screen_size :: "fb_args \<Rightarrow> flanterm_fb_context \<Rightarrow> (u64 \<times> u64) option" where
  "screen_size a d =
     (let gw = font_width d * arg_font_scale_x a; gh = font_height d * arg_font_scale_y a in
      if gw = 0 \<or> gh = 0 then None
      else Some ((height d - arg_margin a * 2) div gh, (width d - arg_margin a * 2) div gw))"

definition init_layout :: "fb_args \<Rightarrow> flanterm_fb_context \<Rightarrow> flanterm_fb_context" where
  "init_layout a d =
     (let gw = font_width d * arg_font_scale_x a; gh = font_height d * arg_font_scale_y a in
      d\<lparr>font_scale_x := arg_font_scale_x a, font_scale_y := arg_font_scale_y a, glyph_width := gw, glyph_height := gh,
        offset_x := arg_margin a + (width d - arg_margin a * 2) mod gw div 2,
        offset_y := arg_margin a + (height d - arg_margin a * 2) mod gh div 2\<rparr>)"

definition zero_char :: flanterm_fb_char where "zero_char = \<lparr>ch_c = 0, ch_fg = 0, ch_bg = 0\<rparr>"
definition zero_item :: flanterm_fb_queue_item where "zero_item = \<lparr>item_x = 0, item_y = 0, item_c = zero_char\<rparr>"

text \<open>An array of as many elements as its block has room for.\<close>

definition block_array :: "u64 \<Rightarrow> u64 \<Rightarrow> 'a \<Rightarrow> 'a list" where
  "block_array bytes elem z = replicate (unat (bytes div elem)) z"

definition init_grid :: "u64 \<Rightarrow> u64 \<Rightarrow> flanterm_fb_context \<Rightarrow> flanterm_fb_context option" where
  "init_grid r c d =
     (let n = r * c * sizeof_fb_char in
      map_option (\<lambda>g. d\<lparr>grid_size := n, grid := g\<rparr>)
        (for_range (\<lambda>i g. buf_set g (int i) (empty_char d)) 0 (unat (r * c)) (block_array n sizeof_fb_char zero_char)))"

definition init_queue :: "u64 \<Rightarrow> u64 \<Rightarrow> flanterm_fb_context \<Rightarrow> flanterm_fb_context" where
  "init_queue r c d =
     (let n = r * c * sizeof_fb_queue_item in
      d\<lparr>queue_size := n, queue := block_array n sizeof_fb_queue_item zero_item, queue_i := 0\<rparr>)"

definition init_cell_map :: "u64 \<Rightarrow> u64 \<Rightarrow> flanterm_fb_context \<Rightarrow> flanterm_fb_context" where
  "init_cell_map r c d =
     (let n = r * c * sizeof_pointer in d\<lparr>map_size := n, cell_map := block_array n sizeof_pointer None\<rparr>)"

definition init_canvas :: "fb_args \<Rightarrow> flanterm_fb_context \<Rightarrow> flanterm_fb_context option" where
  "init_canvas a d =
     (let n = width d * height d * sizeof_uint32 in
      case arg_canvas a of
        Some cv \<Rightarrow> if unat n \<le> 4 * length cv then Some (d\<lparr>canvas_size := n, canvas := take (unat (n div 4)) cv\<rparr>) else None
      | None \<Rightarrow> map_option (\<lambda>cv. d\<lparr>canvas_size := n, canvas := cv\<rparr>)
          (for_range (\<lambda>i cv. buf_set cv (int i) (default_bg d)) 0 (unat (width d * height d)) (block_array n sizeof_uint32 0)))"

section \<open>The initialisation\<close>

definition zero_blocks :: fb_blocks where
  "zero_blocks = \<lparr>blk_ctx = 0, blk_font_bits = (0, 0), blk_font_bool = (0, 0), blk_grid = (0, 0), blk_queue = (0, 0),
     blk_map = (0, 0), blk_canvas = (0, 0)\<rparr>"

definition zero_term :: "u64 \<Rightarrow> u64 \<Rightarrow> 'b \<Rightarrow> 'b flanterm_context" where
  "zero_term r c b = \<lparr>
     tab_size = 0, autoflush = False, cursor_enabled = False, scroll_enabled = False, control_sequence = False,
     csi = False, escape = False, osc = False, osc_escape = False, rrr = False, discard_next = False,
     bold = False, bg_bold = False, reverse_video = False, dec_private = False, insert_mode = False,
     code_point = 0, unicode_remaining = 0, g_select = 0, charsets = [0, 0], current_charset = 0,
     escape_offset = 0, esc_values_i = 0, saved_cursor_x = 0, saved_cursor_y = 0, current_primary = 0,
     current_bg = 0, scroll_top_margin = 0, scroll_bottom_margin = 0, esc_values = replicate 16 0,
     oob_output = 0, saved_state_bold = False, saved_state_bg_bold = False, saved_state_reverse_video = False,
     saved_state_current_charset = 0, saved_state_current_primary = 0, saved_state_current_bg = 0,
     rows = r, cols = c, fb = b\<rparr>"

type_synonym fb_term = "flanterm_fb_context option flanterm_context"
type_synonym 'h init_result = "((fb_term \<times> fb_blocks) option \<times> 'h alloc_state) option"

text \<open>An allocation: with the block the rest goes on, without it \<open>goto fail\<close>.\<close>

definition alloc_step :: "'h client_alloc \<Rightarrow> u64 \<Rightarrow> fb_blocks \<Rightarrow> u64 \<Rightarrow> (u64 \<Rightarrow> 'h alloc_state \<Rightarrow> 'h init_result) \<Rightarrow> 'h alloc_state \<Rightarrow> 'h init_result" where
  "alloc_step al orig b s k st =
     (let (p, st) = fb_malloc al s st in
      if p = 0 then map_option (\<lambda>st. (None, st)) (init_fail al orig b st) else k p st)"

text \<open>The arrays of the screen, then the first picture.\<close>

definition init_start :: "u64 \<Rightarrow> u64 \<Rightarrow> flanterm_fb_context \<Rightarrow> fb_term option" where
  "init_start r c d =
     (let t = flanterm_context_reinit (zero_term r c (Some d))
      in map_option (\<lambda>d. t\<lparr>fb := Some d\<rparr>) (flanterm_fb_full_refresh t d))"

definition init_screen :: "fb_args \<Rightarrow> 'h client_alloc \<Rightarrow> u64 \<Rightarrow> fb_blocks \<Rightarrow> flanterm_fb_context \<Rightarrow> 'h alloc_state \<Rightarrow> 'h init_result" where
  "init_screen a al orig b d st =
     (case screen_size a d of
        None \<Rightarrow> None
      | Some (r, c) \<Rightarrow>
          let d = init_layout a d;
              gs = r * c * sizeof_fb_char; qs = r * c * sizeof_fb_queue_item; ms = r * c * sizeof_pointer;
              cs = width d * height d * sizeof_uint32
          in alloc_step al orig b gs (\<lambda>p st. let b = b\<lparr>blk_grid := (p, gs)\<rparr> in
               Option.bind (init_grid r c d) (\<lambda>d.
             alloc_step al orig b qs (\<lambda>p st. let b = b\<lparr>blk_queue := (p, qs)\<rparr>; d = init_queue r c d in
             alloc_step al orig b ms (\<lambda>p st. let b = b\<lparr>blk_map := (p, ms)\<rparr>; d = init_cell_map r c d in
             alloc_step al orig b cs (\<lambda>p st. let b = b\<lparr>blk_canvas := (p, cs)\<rparr> in
               Option.bind (init_canvas a d) (\<lambda>d.
               map_option (\<lambda>t. (Some (t, b), st)) (init_start r c d))) st) st) st)) st)"

definition flanterm_fb_init :: "fb_args \<Rightarrow> 'h client_alloc \<Rightarrow> 'h alloc_state \<Rightarrow> 'h init_result" where
  "flanterm_fb_init a al st =
     (let orig = fst st; (bits, fw, fh, spacing) = chosen_font a;
          ns = FONT_BYTES fw fh; bs = 256 * fh * (fw + spacing) in
      alloc_step al orig zero_blocks sizeof_fb_context (\<lambda>p st. let b = zero_blocks\<lparr>blk_ctx := p\<rparr>; d = init_colours a in
      alloc_step al orig b ns (\<lambda>p st. let b = b\<lparr>blk_font_bits := (p, ns)\<rparr> in
        Option.bind (init_font_bits a d) (\<lambda>d.
      alloc_step al orig b bs (\<lambda>p st. let b = b\<lparr>blk_font_bool := (p, bs)\<rparr> in
        Option.bind (init_font_bool a d) (\<lambda>d. init_screen a al orig b d st)) st)) st) st)"

definition flanterm_fb_simple_init :: "u32 list \<Rightarrow> u64 \<Rightarrow> u64 \<Rightarrow> u64 \<Rightarrow> u64 \<Rightarrow> u64 \<Rightarrow> unit init_result" where
  "flanterm_fb_simple_init pix w h p pool ptr =
     flanterm_fb_init (simple_args pix w h p) \<lparr>malloc_fn = None, free_fn = None, pool_base = pool\<rparr> (ptr, ())"

end
