(* ===== verification/Fb_Refresh.thy ===== *)
theory Fb_Refresh
  imports Fb_Flush
begin

text \<open>
  \<open>flanterm_fb_full_refresh\<close>: the canvas and the grid are drawn afresh.  With nothing pending it
  establishes the invariant; with updates pending it loses the count of the queue.
\<close>

lemma unat_mult_small: "unat x * unat y < 2 ^ 64 \<Longrightarrow> unat (x * y :: u64) = unat x * unat y"
  using unat_of_nat64 [of "unat x * unat y"] by simp

section \<open>Drawing everything\<close>

lemma copy_canvas_total:
  assumes "fb_geometry r c d"
  shows "\<exists>pix. copy_canvas d = Some (repainted d pix (grid d) (cell_map d)) \<and> length pix = length (framebuffer d)"
proof -
  note g = geometryD [OF assms]
  let ?w = "unat (width d)" and ?h = "unat (height d)"
  let ?step = "\<lambda>y x pix. Option.bind (buf_get (canvas d) (uint (of_nat y * width d + of_nat x :: u64)))
      (buf_set pix (uint (of_nat y * (pitch d div 4) + of_nat x :: u64)))"
  have step: "\<exists>pix'. ?step y x pix = Some pix' \<and> length pix' = length (framebuffer d)"
    if yx: "y < ?h" "x < ?w" and len: "length pix = length (framebuffer d)" for y x pix
  proof -
    have p: "y * stride d + x < length (framebuffer d)" using row_below [OF yx(1), of x "stride d"] yx(2) g(5,6) by simp
    have q: "y * ?w + x < length (canvas d)" using row_below [OF yx] g(8) by simp
    have lc: "length (canvas d) \<le> length (framebuffer d)" using g(5,6,8) by simp
    have uq: "uint (of_nat y * width d + of_nat x :: u64) = int (y * ?w + x)"
      using uint_of_nat64 [of "y * ?w + x"] q lc g(7) by simp
    have up: "uint (of_nat y * (pitch d div 4) + of_nat x :: u64) = int (y * stride d + x)"
      using uint_of_nat64 [of "y * stride d + x"] p g(7) by (simp add: stride_def)
    show ?thesis unfolding uq up buf_get_in [OF q] bind.bind_lunit using p len by (subst buf_set_in) simp_all
  qed
  have "\<exists>pix. for_range (\<lambda>y. for_range (?step y) 0 ?w) 0 ?h (framebuffer d) = Some pix \<and> length pix = length (framebuffer d)"
  proof (rule for_range_total [where P = "\<lambda>_ pix. length pix = length (framebuffer d)"])
    fix y and pix :: "u32 list" assume y: "y < ?h" and len: "length pix = length (framebuffer d)"
    show "\<exists>pix'. for_range (?step y) 0 ?w pix = Some pix' \<and> length pix' = length (framebuffer d)"
      by (rule for_range_total [where P = "\<lambda>_ pix. length pix = length (framebuffer d)"]) (use y len step in auto)
  qed simp_all
  then show ?thesis by (auto simp: copy_canvas_def framebuffer_update)
qed

definition redrawn :: "u64 \<Rightarrow> u64 \<Rightarrow> flanterm_fb_context \<Rightarrow> nat \<Rightarrow> flanterm_fb_context \<Rightarrow> bool" where
  "redrawn r c d k e \<longleftrightarrow> (\<exists>pix. e = repainted d pix (grid d) (cell_map d) \<and> length pix = length (framebuffer d)) \<and>
     (\<forall>x y. x < c \<and> y < r \<and> cell_slot c x y < k \<longrightarrow> shows_char e (grid d ! cell_slot c x y) x y)"

lemma redraw_step:
  assumes geo: "fb_geometry (rows t) (cols t) d" and q: "queue_ok (rows t) (cols t) d"
    and k: "k < unat (rows t) * unat (cols t)" and e: "redrawn (rows t) (cols t) d k e"
  shows "\<exists>e'. Option.bind (buf_get (grid e) (int k)) (\<lambda>c. plot_char t c (of_nat k mod cols t) (of_nat k div cols t) e) = Some e' \<and>
    redrawn (rows t) (cols t) d (Suc k) e'"
proof -
  let ?x = "of_nat k mod cols t :: u64" and ?y = "of_nat k div cols t :: u64"
  note qd = queue_okD [OF q]
  note xy = cell_coordinates [OF qd(4) k]
  from e obtain px where er: "e = repainted d px (grid d) (cell_map d)" "length px = length (framebuffer d)"
    and sh: "\<And>x y. x < cols t \<Longrightarrow> y < rows t \<Longrightarrow> cell_slot (cols t) x y < k \<Longrightarrow> shows_char e (grid d ! cell_slot (cols t) x y) x y"
    unfolding redrawn_def by blast
  have ge: "fb_geometry (rows t) (cols t) e" using geo er by (simp add: repainted_geometry)
  have ch: "buf_get (grid e) (int k) = Some (grid d ! k)" using k qd(1) er(1) by simp
  from plot_char_shows [OF ge xy(1,2) qd(12) [OF k]] obtain pix where
    pix: "plot_char t (grid d ! k) ?x ?y e = Some (repainted e pix (grid e) (cell_map e))" "touches e ?x ?y pix"
      "\<forall>g m. shows_char (repainted e pix g m) (grid d ! k) ?x ?y" by blast
  let ?e = "repainted e pix (grid e) (cell_map e)"
  have "shows_char ?e (grid d ! cell_slot (cols t) x y) x y" if o: "x < cols t" "y < rows t" "cell_slot (cols t) x y < Suc k" for x y
  proof (cases "(x, y) = (?x, ?y)")
    case True
    then show ?thesis using pix(3) xy(3) by simp
  next
    case False
    then have "cell_slot (cols t) x y \<noteq> cell_slot (cols t) ?x ?y" using slot_eq_iff [OF o(1) xy(1)] by auto
    then have "cell_slot (cols t) x y \<noteq> k" unfolding xy(3) .
    then show ?thesis using touches_other [OF ge xy(1,2) pix(2) o(1,2) False] sh [OF o(1,2)] o(3) by simp
  qed
  then have "redrawn (rows t) (cols t) d (Suc k) ?e" using er pix(2) by (auto simp: redrawn_def touches_def)
  then show ?thesis using ch pix(1) by auto
qed

lemma full_refresh_draws:
  assumes geo: "fb_geometry (rows t) (cols t) d" and q: "queue_ok (rows t) (cols t) d"
  shows "\<exists>e1 e2. flanterm_fb_full_refresh t d = (if cursor_enabled t then Some e2 else Some e1) \<and>
     redrawn (rows t) (cols t) d (unat (rows t) * unat (cols t)) e1 \<and>
     fb_geometry (rows t) (cols t) e1 \<and> queue_ok (rows t) (cols t) e1 \<and> synced (rows t) (cols t) {} e1 \<and> screen e1 = screen d \<and>
     (let K = spot (rows t) (cols t) (cursor_x d) (cursor_y d) in flushing (rows t) (cols t) e1 K K K e2)"
proof -
  let ?r = "rows t" and ?c = "cols t"
  note qd = queue_okD [OF q]
  from copy_canvas_total [OF geo] obtain p0 where
    p0: "copy_canvas d = Some (repainted d p0 (grid d) (cell_map d))" "length p0 = length (framebuffer d)" by blast
  have n: "unat (?r * ?c) = unat ?r * unat ?c" by (rule unat_mult_small [OF qd(4)])
  have "\<exists>e. for_range (\<lambda>i d. Option.bind (buf_get (grid d) (int i)) (\<lambda>c. plot_char t c (of_nat i mod ?c) (of_nat i div ?c) d))
      0 (unat (?r * ?c)) (repainted d p0 (grid d) (cell_map d)) = Some e \<and> redrawn ?r ?c d (unat (?r * ?c)) e"
    by (rule for_range_total [where P = "redrawn ?r ?c d"]) (use p0(2) n redraw_step [OF geo q] in \<open>auto simp: redrawn_def\<close>)
  then obtain e1 where e1: "for_range (\<lambda>i d. Option.bind (buf_get (grid d) (int i)) (\<lambda>c. plot_char t c (of_nat i mod ?c) (of_nat i div ?c) d))
      0 (unat (?r * ?c)) (repainted d p0 (grid d) (cell_map d)) = Some e1" "redrawn ?r ?c d (unat (?r * ?c)) e1" by blast
  from e1(2) obtain p1 where p1: "e1 = repainted d p1 (grid d) (cell_map d)" "length p1 = length (framebuffer d)" unfolding redrawn_def by blast
  have ge: "fb_geometry ?r ?c e1" using geo p1 by (simp add: repainted_geometry)
  have qe: "queue_ok ?r ?c e1" using q p1(1) by (simp add: queue_ok_def item_slot_def)
  have sy: "synced ?r ?c {} e1"
    using e1(2) slot_below [of _ ?c _ ?r] p1(1) n by (simp add: synced_def redrawn_def)
  have "view e1 i = view d i" for i using p1(1) by (cases "cell_map d ! i") (simp_all add: view_def)
  then have se: "screen e1 = screen d" using p1(1) by (simp add: screen_def)
  from draw_cursor_flushing [OF ge qe sy] p1(1) obtain e2 where
    e2: "draw_cursor t e1 = Some e2" "let K = spot ?r ?c (cursor_x d) (cursor_y d) in flushing ?r ?c e1 K K K e2" by (auto simp: Let_def)
  have "flanterm_fb_full_refresh t d = (if cursor_enabled t then Some e2 else Some e1)"
    using p0(1) e1(1) e2(1) by (simp add: flanterm_fb_full_refresh_def)
  then show ?thesis using e1(2) ge qe sy se e2(2) n by metis
qed

text \<open>With nothing pending.\<close>

lemma full_refresh_shows:
  assumes geo: "fb_geometry (rows t) (cols t) d" and q: "queue_ok (rows t) (cols t) d" and e: "cursor_enabled t"
    and none: "cell_map d = replicate (unat (rows t) * unat (cols t)) None"
    and old: "old_cursor_x d = cursor_x d" "old_cursor_y d = cursor_y d"
  shows "\<exists>pix. flanterm_fb_full_refresh t d = Some (repainted d pix (grid d) (cell_map d)) \<and>
    fb_inv (rows t) (cols t) (repainted d pix (grid d) (cell_map d))"
proof -
  let ?r = "rows t" and ?c = "cols t"
  note qd = queue_okD [OF q]
  let ?K = "spot ?r ?c (cursor_x d) (cursor_y d)"
  from full_refresh_draws [OF geo q] e obtain e1 e2 where
    e2: "flanterm_fb_full_refresh t d = Some e2" and e1: "redrawn ?r ?c d (unat ?r * unat ?c) e1" "screen e1 = screen d"
      "flushing ?r ?c e1 ?K ?K ?K e2" by (auto simp: Let_def)
  from e1(1) obtain p1 where p1: "e1 = repainted d p1 (grid d) (cell_map d)" "length p1 = length (framebuffer d)" unfolding redrawn_def by blast
  have se: "screen e1 = grid d"
    using p1(1) none qd(1) by (intro nth_equalityI) (simp_all add: nth_screen view_def)
  from e1(3) obtain p2 g m where p2: "e2 = repainted e1 p2 g m" "length p2 = length (framebuffer e1)" "length g = unat ?r * unat ?c"
    "length m = unat ?r * unat ?c" "\<And>i. i < unat ?r * unat ?c \<Longrightarrow> m ! i = (if i \<in> ?K then None else cell_map e1 ! i)"
    "\<And>i. i < unat ?r * unat ?c \<Longrightarrow> g ! i = (if i \<in> ?K then screen e1 ! i else grid e1 ! i)" and sy2: "synced ?r ?c ?K e2"
    unfolding flushing_def by blast
  have "m = cell_map d" by (rule nth_equalityI) (use p2(4,5) p1(1) none in simp_all)
  moreover have "g = grid d" by (rule nth_equalityI) (use p2(3,6) p1(1) qd(1) se in simp_all)
  ultimately have e2r: "e2 = repainted d p2 (grid d) (cell_map d)" using p2(1) p1(1) by simp
  have "fb_inv ?r ?c e2"
    unfolding fb_inv_def
  proof (intro conjI)
    show "fb_geometry ?r ?c e2" using geo p2(2) p1 e2r by (simp add: repainted_geometry)
    show "queue_ok ?r ?c e2" using q e2r by (simp add: queue_ok_def item_slot_def)
    show "synced ?r ?c (spot ?r ?c (old_cursor_x e2) (old_cursor_y e2)) e2" using sy2 e2r old by simp
  qed
  then show ?thesis using e2 e2r by auto
qed

text \<open>With every cell pending: the update of the cursor's cell is forgotten, its item is not, and
  the next character put there goes beyond the queue.\<close>

lemma full_refresh_overflows:
  assumes geo: "fb_geometry (rows t) (cols t) d" and q: "queue_ok (rows t) (cols t) d" and e: "cursor_enabled t"
    and full: "queue_i d = unat (rows t) * unat (cols t)" and xy: "cursor_x d < cols t" "cursor_y d < rows t"
    and ch: "ch \<noteq> screen d ! cell_slot (cols t) (cursor_x d) (cursor_y d)"
  shows "\<exists>d'. flanterm_fb_full_refresh t d = Some d' \<and> push_to_queue t ch (cursor_x d) (cursor_y d) d' = None"
proof -
  let ?r = "rows t" and ?c = "cols t" and ?i = "cell_slot (cols t) (cursor_x d) (cursor_y d)"
  note qd = queue_okD [OF q]
  note i = slot_below [OF xy]
  have K: "spot ?r ?c (cursor_x d) (cursor_y d) = {?i}" using xy by (simp add: spot_def)
  from full_refresh_draws [OF geo q] e obtain e1 e2 where
    e2: "flanterm_fb_full_refresh t d = Some e2" and e1: "redrawn ?r ?c d (unat ?r * unat ?c) e1" "screen e1 = screen d"
      "flushing ?r ?c e1 {?i} {?i} {?i} e2" unfolding K Let_def by (auto split: if_splits)
  from e1(3) obtain p2 g m where p2: "e2 = repainted e1 p2 g m" "length g = unat ?r * unat ?c" "length m = unat ?r * unat ?c"
    "m ! ?i = None" "g ! ?i = screen d ! ?i" using i e1(2) unfolding flushing_def by auto
  have qs: "length (queue e2) = unat ?r * unat ?c" "queue_i e2 = unat ?r * unat ?c"
    using e1(1) p2(1) full qd(2) by (auto simp: redrawn_def)
  have get: "buf_get (cell_map e2) (int ?i) = Some None" "buf_get (grid e2) (int ?i) = Some (screen d ! ?i)"
    using p2 i by simp_all
  have u: "\<not> (cursor_x d \<ge> cols t \<or> cursor_y d \<ge> rows t)" using xy by auto
  have "buf_set (queue e2) (int (queue_i e2)) v = None" for v using qs by (simp add: buf_set_def)
  then have "push_to_queue t ch (cursor_x d) (cursor_y d) e2 = None"
    using xy ch u unfolding push_to_queue_def Let_def slot_words unat_cell_slot [OF qd(4) xy] get by (simp add: compare_char_eq)
  with e2 show ?thesis by blast
qed

end
