(* ===== verification/Flanterm_Safe.thy ===== *)
theory Flanterm_Safe
  imports Flanterm
begin

text \<open>
  No byte drives the terminal outside its arrays, except one: the invariant of the parser and
  the scroll margins, its preservation by every operation, and the 256-colour palette.
\<close>

section \<open>The invariant\<close>

definition flanterm_wf :: "'b flanterm_context \<Rightarrow> bool" where
  "flanterm_wf ctx \<longleftrightarrow>
     length (esc_values ctx) = 16 \<and> esc_values_i ctx \<le> 16 \<and> (rrr ctx \<longrightarrow> esc_values_i ctx < 16) \<and>
     length (charsets ctx) = 2 \<and> g_select ctx \<le> 2 \<and> current_charset ctx \<le> 1 \<and>
     saved_state_current_charset ctx \<le> 1 \<and>
     0 < rows ctx \<and> scroll_top_margin ctx < scroll_bottom_margin ctx \<and> scroll_bottom_margin ctx \<le> rows ctx"

named_theorems wf_simps \<open>operations that leave the invariant and the parameters as they are\<close>

lemma wf_call [wf_simps]: "flanterm_wf (call f ctx) = flanterm_wf ctx"
  by (simp add: flanterm_wf_def call_def)

lemma wf_funpow_call [wf_simps]: "flanterm_wf ((call f ^^ n) ctx) = flanterm_wf ctx"
  by (induction n) (simp_all add: wf_call)

lemma wf_spaces [wf_simps]: "flanterm_wf (put_spaces be n ctx) = flanterm_wf ctx"
  by (simp add: put_spaces_def wf_simps)

lemma wf_notify [wf_simps]: "flanterm_wf (notify be k a b c ctx) = flanterm_wf ctx"
  by (simp add: notify_def wf_simps split: option.split)

lemma wf_set_esc [wf_simps]: "flanterm_wf (set_esc k v ctx) = flanterm_wf ctx"
  by (simp add: flanterm_wf_def set_esc_def)

lemma wf_fields [wf_simps]:
  "flanterm_wf (ctx\<lparr>escape := b\<rparr>) = flanterm_wf ctx" "flanterm_wf (ctx\<lparr>control_sequence := b\<rparr>) = flanterm_wf ctx"
  "flanterm_wf (ctx\<lparr>csi := b\<rparr>) = flanterm_wf ctx" "flanterm_wf (ctx\<lparr>osc := b\<rparr>) = flanterm_wf ctx"
  "flanterm_wf (ctx\<lparr>osc_escape := b\<rparr>) = flanterm_wf ctx" "flanterm_wf (ctx\<lparr>discard_next := b\<rparr>) = flanterm_wf ctx"
  "flanterm_wf (ctx\<lparr>dec_private := b\<rparr>) = flanterm_wf ctx" "flanterm_wf (ctx\<lparr>cursor_enabled := b\<rparr>) = flanterm_wf ctx"
  "flanterm_wf (ctx\<lparr>insert_mode := b\<rparr>) = flanterm_wf ctx" "flanterm_wf (ctx\<lparr>scroll_enabled := b\<rparr>) = flanterm_wf ctx"
  "flanterm_wf (ctx\<lparr>escape_offset := v\<rparr>) = flanterm_wf ctx" "flanterm_wf (ctx\<lparr>unicode_remaining := v\<rparr>) = flanterm_wf ctx"
  "flanterm_wf (ctx\<lparr>code_point := v\<rparr>) = flanterm_wf ctx" "flanterm_wf (ctx\<lparr>saved_cursor_x := v\<rparr>) = flanterm_wf ctx"
  "flanterm_wf (ctx\<lparr>saved_cursor_y := v\<rparr>) = flanterm_wf ctx" "flanterm_wf (ctx\<lparr>bold := b\<rparr>) = flanterm_wf ctx"
  "flanterm_wf (ctx\<lparr>bg_bold := b\<rparr>) = flanterm_wf ctx" "flanterm_wf (ctx\<lparr>reverse_video := b\<rparr>) = flanterm_wf ctx"
  "flanterm_wf (ctx\<lparr>current_primary := v\<rparr>) = flanterm_wf ctx" "flanterm_wf (ctx\<lparr>current_bg := v\<rparr>) = flanterm_wf ctx"
  by (simp_all add: flanterm_wf_def)

lemma wf_osc_parse [wf_simps]: "flanterm_wf (osc_parse c ctx) = flanterm_wf ctx"
  by (simp add: osc_parse_def Let_def wf_simps)

lemma wf_dec_private [wf_simps]: "flanterm_wf (dec_private_parse be c ctx) = flanterm_wf ctx"
  by (simp add: dec_private_parse_def Let_def wf_simps)

lemma wf_linux_private [wf_simps]: "flanterm_wf (linux_private_parse be ctx) = flanterm_wf ctx"
  by (simp add: linux_private_parse_def wf_simps)

lemma wf_mode_toggle [wf_simps]: "flanterm_wf (mode_toggle be c ctx) = flanterm_wf ctx"
  by (simp add: mode_toggle_def wf_simps)

lemma wf_csi_up [wf_simps]: "flanterm_wf (csi_up be x y ctx) = flanterm_wf ctx"
  by (simp add: csi_up_def Let_def wf_simps)

lemma wf_csi_down [wf_simps]: "flanterm_wf (csi_down be x y ctx) = flanterm_wf ctx"
  by (simp add: csi_down_def Let_def wf_simps)

lemma wf_csi_position [wf_simps]: "flanterm_wf (csi_position be ctx) = flanterm_wf ctx"
  by (simp add: csi_position_def Let_def wf_simps)

lemma wf_erase_row [wf_simps]: "flanterm_wf (snd (erase_row be x y yc xc ctx)) = flanterm_wf ctx"
  by (induction be x y yc xc ctx rule: erase_row.induct) (subst erase_row.simps, simp add: Let_def wf_simps)

lemma wf_erase_rows [wf_simps]: "flanterm_wf (erase_rows be x y yc ctx) = flanterm_wf ctx"
proof (induction be x y yc ctx rule: erase_rows.induct)
  case (1 be x y yc ctx)
  show ?case
    using 1 wf_erase_row [of be x y yc 0 ctx]
    by (subst erase_rows.simps) (auto simp: Let_def split: prod.split)
qed

lemma wf_erase_display [wf_simps]: "flanterm_wf (csi_erase_display be x y ctx) = flanterm_wf ctx"
  by (simp add: csi_erase_display_def Let_def wf_simps)

lemma wf_csi_insert [wf_simps]: "flanterm_wf (csi_insert_loop be x y i ctx) = flanterm_wf ctx"
  by (induction be x y i ctx rule: csi_insert_loop.induct) (subst csi_insert_loop.simps, simp add: Let_def wf_simps)

lemma wf_insert_mode [wf_simps]: "flanterm_wf (insert_mode_loop be x y i ctx) = flanterm_wf ctx"
  by (induction be x y i ctx rule: insert_mode_loop.induct) (subst insert_mode_loop.simps, simp add: Let_def wf_simps)

lemma wf_csi_delete [wf_simps]: "flanterm_wf (csi_delete_loop be y i ctx) = flanterm_wf ctx"
  by (induction be y i ctx rule: csi_delete_loop.induct) (subst csi_delete_loop.simps, simp add: wf_simps)

lemma wf_csi_erase [wf_simps]:
  "flanterm_wf (csi_erase_chars be x y ctx) = flanterm_wf ctx" "flanterm_wf (csi_delete_chars be x y ctx) = flanterm_wf ctx"
  "flanterm_wf (csi_erase_line be x y ctx) = flanterm_wf ctx"
  by (simp_all add: csi_erase_chars_def csi_delete_chars_def csi_erase_line_def Let_def wf_simps)

lemma funpow_call_fields:
  "scroll_bottom_margin ((call f ^^ n) ctx) = scroll_bottom_margin ctx" "esc_values ((call f ^^ n) ctx) = esc_values ctx"
  "esc_values_i ((call f ^^ n) ctx) = esc_values_i ctx" "rrr ((call f ^^ n) ctx) = rrr ctx"
  "charsets ((call f ^^ n) ctx) = charsets ctx" "g_select ((call f ^^ n) ctx) = g_select ctx"
  "current_charset ((call f ^^ n) ctx) = current_charset ctx" "rows ((call f ^^ n) ctx) = rows ctx"
  "saved_state_current_charset ((call f ^^ n) ctx) = saved_state_current_charset ctx"
  by (induction n) (simp_all add: call_def)

lemma wf_insert_lines [wf_simps]: "flanterm_wf (csi_insert_lines be y ctx) = flanterm_wf ctx"
  by (simp add: csi_insert_lines_def Let_def flanterm_wf_def funpow_call_fields)

text \<open>\<open>DECSTBM\<close> is the one command that moves the margins; what it accepts is a region of at least
  two rows.\<close>

lemma margins_commute:
  "c\<lparr>scroll_bottom_margin := b, scroll_top_margin := t\<rparr> = c\<lparr>scroll_top_margin := t, scroll_bottom_margin := b\<rparr>"
  by simp

lemma wf_set_margins:
  assumes "flanterm_wf ctx"
  shows "flanterm_wf (csi_set_margins be ctx)"
proof -
  define c2 where "c2 = margin_params ctx"
  have wf: "flanterm_wf c2" using assms by (simp add: c2_def margin_params_def Let_def wf_simps)
  have v: "esc_value 1 c2 \<noteq> 0"
    using assms by (auto simp: c2_def margin_params_def Let_def esc_value_def set_esc_def flanterm_wf_def)
  have r: "rows c2 \<noteq> 0" using wf by (auto simp: flanterm_wf_def)
  define t where "t = (if esc_values_i c2 > 0 then ucast (esc_values c2 ! 0 - 1) else 0 :: u64)"
  define b where "b = (if esc_values_i c2 > 1 then esc_value 1 c2 else rows c2)"
  have b: "b \<noteq> 0" using v r by (simp add: b_def)
  let ?c3 = "c2\<lparr>scroll_top_margin := t, scroll_bottom_margin := b\<rparr>"
  have "csi_set_margins be ctx = call (set_cursor_pos be 0 0)
     (if t \<ge> rows c2 \<or> b > rows c2 \<or> t \<ge> b - 1 then ?c3\<lparr>scroll_top_margin := 0, scroll_bottom_margin := rows c2\<rparr> else ?c3)"
    unfolding csi_set_margins_def c2_def [symmetric] t_def b_def
    by (cases "esc_values_i c2 > 0"; cases "esc_values_i c2 > 1") (simp_all add: Let_def esc_value_def margins_commute)
  then have c3: "csi_set_margins be ctx = call (set_cursor_pos be 0 0)
     (if t \<ge> rows c2 \<or> b > rows c2 \<or> t \<ge> b - 1 then c2\<lparr>scroll_top_margin := 0, scroll_bottom_margin := rows c2\<rparr> else ?c3)"
    by simp
  have "t < b" if "\<not> b - 1 \<le> t"
  proof -
    have "unat t < unat (b - 1)" using that by (simp add: word_le_nat_alt)
    also have "unat (b - 1) < unat b" using b by (simp add: unat_minus_one unat_gt_0)
    finally show ?thesis by (simp add: word_less_nat_alt)
  qed
  with wf show ?thesis unfolding c3 wf_call by (auto simp: flanterm_wf_def not_le)
qed

section \<open>Colours\<close>

lemma wf_sgr_value [wf_simps]: "flanterm_wf (sgr_value be v ctx) = flanterm_wf ctx"
  by (simp add: sgr_value_def sgr_default_def set_fg_def set_bg_def Let_def wf_simps)

lemma wf_sgr_default [wf_simps]: "flanterm_wf (sgr_default be ctx) = flanterm_wf ctx"
  by (simp add: sgr_default_def Let_def wf_simps)

lemma col256_length [simp]: "length col256 = 240"
  by (simp add: col256_def)

lemma palette_colour_total:
  assumes "col < 256"
  shows "\<exists>f. palette_colour be fg col ctx = Some (call f ctx)"
proof (cases "col < 16")
  case False
  have "unat (col - 16) < 240"
    using assms False by (subst unat_sub) (simp_all add: word_le_nat_alt word_less_nat_alt)
  then have "buf_get col256 (uint (col - 16)) = Some (col256 ! unat (col - 16))"
    unfolding uint_nat by (intro buf_get_in) simp
  with False show ?thesis by (auto simp: palette_colour_def word_less_nat_alt)
qed (auto simp: palette_colour_def)

lemma palette_colour_fault:
  assumes "256 \<le> col"
  shows "palette_colour be fg col ctx = None"
proof -
  have "\<not> unat (col - 16) < 240"
    using assms by (subst unat_sub) (simp_all add: word_le_nat_alt)
  then have "(240 :: int) \<le> int (unat (col - 16))" by linarith
  then have "buf_get col256 (uint (col - 16)) = None" by (simp add: buf_get_def)
  with assms show ?thesis by (auto simp: palette_colour_def word_le_nat_alt word_less_nat_alt)
qed

text \<open>Reading a parameter that was given.\<close>

lemma param_in [simp]:
  assumes "flanterm_wf ctx" and "k < unat (esc_values_i ctx)"
  shows "buf_get (esc_values ctx) (int k) = Some (esc_values ctx ! k)"
proof -
  have "unat (esc_values_i ctx) \<le> 16" using assms(1) by (simp add: flanterm_wf_def word_le_nat_alt)
  with assms show ?thesis by (simp add: flanterm_wf_def)
qed

definition small_params :: "'b flanterm_context \<Rightarrow> bool" where
  "small_params ctx \<longleftrightarrow> (\<forall>k < 16. esc_values ctx ! k < 256)"

lemma sgr_loop_total:
  assumes "flanterm_wf ctx" and "small_params ctx"
  shows "\<exists>ctx'. sgr_loop be i ctx = Some ctx' \<and> flanterm_wf ctx'"
  using assms
proof (induction "unat (esc_values_i ctx) - i" arbitrary: i ctx rule: less_induct)
  case less
  let ?n = "unat (esc_values_i ctx)" and ?v = "\<lambda>k. esc_values ctx ! k"
  have n16: "?n \<le> 16" using less.prems(1) by (simp add: flanterm_wf_def word_le_nat_alt)
  have get: "buf_get (esc_values ctx) (int k) = Some (?v k)" if "k < ?n" for k
    using param_in [OF less.prems(1) that] .
  have again: "\<exists>ctx'. sgr_loop be j c = Some ctx' \<and> flanterm_wf ctx'"
    if "i < ?n" "i < j" "esc_values_i c = esc_values_i ctx" "esc_values c = esc_values ctx" "flanterm_wf c" for j c
    by (rule less.hyps) (use that less.prems in \<open>auto simp: small_params_def\<close>)
  show ?case
  proof (cases "i < ?n")
    case False
    then show ?thesis using less.prems(1) by (subst sgr_loop.simps) simp
  next
    case i: True
    show ?thesis
    proof (cases "?v i = 38 \<or> ?v i = 48")
      case False
      then have "sgr_loop be i ctx = sgr_loop be (i + 1) (sgr_value be (?v i) ctx)"
        using i get [OF i] by (subst sgr_loop.simps) (simp add: Let_def)
      moreover have "\<exists>ctx'. sgr_loop be (i + 1) (sgr_value be (?v i) ctx) = Some ctx' \<and> flanterm_wf ctx'"
        by (rule again) (use i less.prems in \<open>simp_all add: wf_simps\<close>)
      ultimately show ?thesis by simp
    next
      case True
      let ?f = "?v i = 38"
      show ?thesis
      proof (cases "i + 1 \<ge> ?n")
        case True
        with \<open>?v i = 38 \<or> ?v i = 48\<close> i get [OF i] have "sgr_loop be i ctx = Some ctx"
          by (subst sgr_loop.simps) (simp add: Let_def)
        with less.prems(1) show ?thesis by simp
      next
        case False
        then have i1: "i + 1 < ?n" by simp
        consider "?v (i + 1) = 2" "i + 4 < ?n" | "?v (i + 1) = 5" "i + 2 < ?n"
          | "?v (i + 1) = 2" "\<not> i + 4 < ?n" | "?v (i + 1) = 5" "\<not> i + 2 < ?n"
          | "?v (i + 1) \<noteq> 2" "?v (i + 1) \<noteq> 5" by blast
        then show ?thesis
        proof cases
          case 1
          then have "sgr_loop be i ctx = sgr_loop be (i + 5) (rgb_colour be ?f (?v (i + 2)) (?v (i + 3)) (?v (i + 4)) ctx)"
            using True i i1 get [OF i] get [OF i1] get [of "i + 2"] get [of "i + 3"] get [of "i + 4"]
            by (subst sgr_loop.simps) (simp add: Let_def)
          moreover have "\<exists>ctx'. sgr_loop be (i + 5) (rgb_colour be ?f (?v (i + 2)) (?v (i + 3)) (?v (i + 4)) ctx) = Some ctx' \<and> flanterm_wf ctx'"
            by (rule again) (use i less.prems in \<open>simp_all add: rgb_colour_def wf_simps\<close>)
          ultimately show ?thesis by simp
        next
          case 2
          have "?v (i + 2) < 256" using less.prems(2) 2 n16 by (simp add: small_params_def)
          then obtain g where g: "palette_colour be ?f (?v (i + 2)) ctx = Some (call g ctx)"
            using palette_colour_total by blast
          then have "sgr_loop be i ctx = sgr_loop be (i + 3) (call g ctx)"
            using 2 True i i1 get [OF i] get [OF i1] get [of "i + 2"]
            by (subst sgr_loop.simps) (simp add: Let_def)
          moreover have "\<exists>ctx'. sgr_loop be (i + 3) (call g ctx) = Some ctx' \<and> flanterm_wf ctx'"
            by (rule again) (use i less.prems in \<open>simp_all add: wf_simps\<close>)
          ultimately show ?thesis by simp
        next
          case 3
          then show ?thesis using True i i1 get [OF i] get [OF i1] less.prems(1)
            by (subst sgr_loop.simps) (simp add: Let_def)
        next
          case 4
          then show ?thesis using True i i1 get [OF i] get [OF i1] less.prems(1)
            by (subst sgr_loop.simps) (simp add: Let_def)
        next
          case 5
          then have "sgr_loop be i ctx = sgr_loop be (i + 2) ctx"
            using True i i1 get [OF i] get [OF i1] by (subst sgr_loop.simps) (simp add: Let_def)
          moreover have "\<exists>ctx'. sgr_loop be (i + 2) ctx = Some ctx' \<and> flanterm_wf ctx'"
            by (rule again) (use i less.prems in simp_all)
          ultimately show ?thesis by simp
        qed
      qed
    qed
  qed
qed

section \<open>Control sequences\<close>

lemma fold_update_length: "length (fold (\<lambda>i vs. vs[i := d]) is vs) = length vs"
  by (induction "is" arbitrary: vs) simp_all

lemma fold_update_nth:
  "k < length vs \<Longrightarrow> fold (\<lambda>i vs. vs[i := d]) is vs ! k = (if k \<in> set is then d else vs ! k)"
  by (induction "is" arbitrary: vs) (auto simp: nth_list_update)

lemma wf_fill_defaults [wf_simps]: "flanterm_wf (fill_defaults c ctx) = flanterm_wf ctx"
  by (simp add: fill_defaults_def flanterm_wf_def fold_update_length)

lemma fill_small:
  assumes "flanterm_wf ctx" and "small_params ctx"
  shows "small_params (fill_defaults c ctx)"
  using assms by (simp add: small_params_def fill_defaults_def flanterm_wf_def fold_update_nth)

lemma sgr_total:
  assumes "flanterm_wf ctx" and "small_params ctx"
  shows "\<exists>ctx'. sgr be ctx = Some ctx' \<and> flanterm_wf ctx'"
  using sgr_loop_total [OF assms] assms(1) by (simp add: sgr_def wf_simps)

text \<open>The commands other than \<open>SGR\<close> always have a result.\<close>

lemma csi_command_total:
  assumes "flanterm_wf ctx" and "c \<noteq> c_m \<or> small_params ctx"
  shows "\<exists>ctx'. csi_command be c x y ctx = Some ctx' \<and> flanterm_wf ctx'"
proof (cases "c = c_m")
  case True
  then show ?thesis using sgr_total [OF assms(1)] assms(2) by (simp add: csi_command_def)
next
  case False
  with assms(1) show ?thesis
    by (simp add: csi_command_def Let_def wf_simps wf_set_margins split: prod.split)
qed

lemma csi_dispatch_total:
  assumes "flanterm_wf ctx" and "c \<noteq> c_m \<or> small_params ctx"
  shows "\<exists>ctx'. csi_dispatch be c ctx = Some ctx' \<and> flanterm_wf ctx'"
proof -
  let ?c = "(fill_defaults c ctx)\<lparr>scroll_enabled := False\<rparr>"
  have "flanterm_wf ?c" using assms(1) by (simp add: wf_simps)
  moreover have "c \<noteq> c_m \<or> small_params ?c" using assms fill_small [of ctx c] by (auto simp: small_params_def)
  ultimately have "\<exists>ctx'. csi_command be c x y ?c = Some ctx' \<and> flanterm_wf ctx'" for x y by (rule csi_command_total)
  then show ?thesis using assms(1)
    by (cases "get_cursor_pos be ?c") (force simp: csi_dispatch_def Let_def csi_cleanup_def wf_simps)
qed

lemma csi_digit_total:
  assumes "flanterm_wf ctx" and "esc_values_i ctx \<noteq> FLANTERM_MAX_ESC_VALUES"
  shows "\<exists>ctx'. csi_digit c ctx = Some ctx' \<and> flanterm_wf ctx'"
proof -
  have lt: "esc_values_i ctx < 16"
    using assms by (simp add: flanterm_wf_def FLANTERM_MAX_ESC_VALUES_def order.order_iff_strict)
  have n: "unat (esc_values_i ctx) < length (esc_values ctx)"
    using lt assms(1) by (simp add: flanterm_wf_def word_less_nat_alt)
  show ?thesis
    using assms(1) lt buf_get_in [OF n] buf_set_in [OF n] unfolding csi_digit_def uint_nat Let_def
    by (simp add: flanterm_wf_def del: of_nat_unat)
qed

lemma csi_parse_total:
  assumes "flanterm_wf ctx" and "c \<noteq> c_m \<or> small_params ctx"
  shows "\<exists>ctx'. control_sequence_parse be c ctx = Some ctx' \<and> flanterm_wf ctx'"
proof -
  have "esc_values_i ctx + 1 \<le> 16" if "esc_values_i ctx < 16"
    using that by (simp add: word_le_nat_alt word_less_nat_alt unat_word_ariths)
  then have next_ok: "flanterm_wf (ctx\<lparr>esc_values_i := esc_values_i ctx + 1, rrr := False\<rparr>)" if "rrr ctx"
    using assms(1) that by (simp add: flanterm_wf_def)
  have sm: "c \<noteq> c_m \<or> small_params (ctx\<lparr>esc_values_i := esc_values_i ctx + 1, rrr := False\<rparr>)"
    using assms(2) by (simp add: small_params_def)
  have semi: "\<exists>vs. buf_set (esc_values ctx) (uint (esc_values_i ctx)) 0 = Some vs \<and>
      flanterm_wf (ctx\<lparr>esc_values := vs, esc_values_i := esc_values_i ctx + 1\<rparr>)"
    if "\<not> rrr ctx" "esc_values_i ctx \<noteq> 16"
  proof -
    have lt: "esc_values_i ctx < 16" using that assms(1) by (simp add: flanterm_wf_def order.order_iff_strict)
    have n: "unat (esc_values_i ctx) < length (esc_values ctx)"
      using lt assms(1) by (simp add: flanterm_wf_def word_less_nat_alt)
    have "buf_set (esc_values ctx) (uint (esc_values_i ctx)) 0 = Some ((esc_values ctx)[unat (esc_values_i ctx) := 0])"
      unfolding uint_nat by (rule buf_set_in [OF n])
    moreover have "esc_values_i ctx + 1 \<le> 16"
      using lt by (simp add: word_le_nat_alt word_less_nat_alt unat_word_ariths)
    ultimately show ?thesis using assms(1) that by (simp add: flanterm_wf_def)
  qed
  show ?thesis
    using assms(1) csi_digit_total [OF assms(1), of c] csi_dispatch_total [OF assms(1,2), of be]
      next_ok csi_dispatch_total [OF next_ok sm, of be] semi
    by (auto simp: control_sequence_parse_def csi_cleanup_def wf_simps Let_def FLANTERM_MAX_ESC_VALUES_def)
qed

section \<open>One byte\<close>

lemma wf_reinit: "0 < rows ctx \<Longrightarrow> length (esc_values ctx) = 16 \<Longrightarrow> saved_state_current_charset ctx \<le> 1 \<Longrightarrow>
    flanterm_wf (flanterm_context_reinit ctx)"
  by (simp add: flanterm_context_reinit_def flanterm_wf_def)

lemma wf_save [wf_simps]: "flanterm_wf (save_state be ctx) = flanterm_wf ctx" if "flanterm_wf ctx"
  using that by (simp add: save_state_def flanterm_wf_def call_def Let_def)

lemma wf_restore [wf_simps]: "flanterm_wf (restore_state be ctx) = flanterm_wf ctx" if "flanterm_wf ctx"
  using that by (simp add: restore_state_def flanterm_wf_def call_def)

lemma wf_enter_csi: "flanterm_wf ctx \<Longrightarrow> flanterm_wf (enter_csi ctx)"
  by (simp add: enter_csi_def flanterm_wf_def FLANTERM_MAX_ESC_VALUES_def)

lemma wf_escape_command:
  assumes "flanterm_wf ctx"
  shows "flanterm_wf (escape_command be c x y ctx)"
proof -
  have r: "flanterm_wf (flanterm_context_reinit ctx)"
    by (rule wf_reinit) (use assms in \<open>simp_all add: flanterm_wf_def\<close>)
  have g: "flanterm_wf (ctx\<lparr>g_select := c - c_quote\<rparr>)" if "c = c_lparen \<or> c = c_rparen"
    using assms that by (auto simp: flanterm_wf_def)
  show ?thesis using assms r g by (simp add: escape_command_def wf_simps)
qed

lemma escape_parse_total:
  assumes "flanterm_wf ctx" and "c \<noteq> c_m \<or> \<not> control_sequence ctx \<or> small_params ctx"
  shows "\<exists>ctx'. escape_parse be c ctx = Some ctx' \<and> flanterm_wf ctx'"
proof -
  let ?c = "ctx\<lparr>escape_offset := escape_offset ctx + 1\<rparr>"
  have wf: "flanterm_wf ?c" using assms(1) by (simp add: wf_simps)
  have "c \<noteq> c_m \<or> small_params ?c" if "control_sequence ctx"
    using assms(2) that by (simp add: small_params_def)
  then have p: "\<exists>ctx'. control_sequence_parse be c ?c = Some ctx' \<and> flanterm_wf ctx'" if "control_sequence ctx"
    using csi_parse_total [OF wf] that by blast
  have e: "flanterm_wf (escape_command be c x y ?c)" for x y by (rule wf_escape_command [OF wf])
  have k: "flanterm_wf (enter_csi ?c)" "flanterm_wf (enter_csi (?c\<lparr>csi := False\<rparr>))"
    using wf by (auto intro: wf_enter_csi simp: wf_simps)
  show ?thesis using assms(1) p e k
    by (auto simp: escape_parse_def Let_def wf_simps split: prod.split)
qed

lemma charset_in:
  assumes "flanterm_wf ctx"
  shows "buf_get (charsets ctx) (uint (current_charset ctx)) = Some (charsets ctx ! unat (current_charset ctx))"
proof -
  have "unat (current_charset ctx) < length (charsets ctx)"
    using assms by (simp add: flanterm_wf_def word_le_nat_alt)
  then show ?thesis unfolding uint_nat by (rule buf_get_in)
qed

lemma select_charset_total:
  assumes "flanterm_wf ctx" and "g_select ctx \<noteq> 0"
  shows "\<exists>ctx'. select_charset c ctx = Some ctx' \<and> flanterm_wf ctx'"
proof -
  have "0 < unat (g_select ctx)" "unat (g_select ctx) \<le> 2" "length (charsets ctx) = 2"
    using assms by (simp_all add: flanterm_wf_def word_le_nat_alt unat_gt_0)
  then have "unat (g_select ctx - 1) < length (charsets ctx)" using assms(2) by (simp add: unat_minus_one)
  from buf_set_in [OF this] show ?thesis
    using assms(1) unfolding select_charset_def uint_nat Let_def
    by (simp add: flanterm_wf_def del: of_nat_unat)
qed

lemma dec_special_wf:
  assumes "dec_special_print be c ctx = (b, ctx')" and "flanterm_wf ctx"
  shows "flanterm_wf ctx'"
  using assms by (auto simp: dec_special_print_def wf_simps split: option.splits)

lemma put_graphic_total:
  assumes "flanterm_wf ctx"
  shows "\<exists>ctx'. put_graphic be c x y ctx = Some ctx' \<and> flanterm_wf ctx'"
proof -
  let ?c = "if insert_mode ctx then insert_mode_loop be x y (cols ctx - 1) ctx else ctx"
  have wf: "flanterm_wf ?c" using assms by (simp add: wf_simps)
  obtain b ctx' where d: "dec_special_print be c ?c = (b, ctx')" by force
  show ?thesis using wf dec_special_wf [OF d wf] d charset_in [OF wf]
    unfolding put_graphic_def Let_def by (auto simp: wf_simps)
qed

lemma put_plain_total:
  assumes "flanterm_wf ctx"
  shows "\<exists>ctx'. put_plain be c ctx = Some ctx' \<and> flanterm_wf ctx'"
proof -
  obtain x y where xy: "get_cursor_pos be ctx = (x, y)" by force
  have cs: "flanterm_wf (ctx\<lparr>current_charset := v\<rparr>)" if "v \<le> 1" for v using assms that by (simp add: flanterm_wf_def)
  show ?thesis using assms put_graphic_total [OF assms, of be c x y] cs [of 0] cs [of 1]
    by (auto simp: put_plain_def xy tabulate_def newline_def Let_def wf_simps)
qed

lemma put_byte_total:
  assumes "flanterm_wf ctx" and "c \<noteq> c_m \<or> \<not> control_sequence ctx \<or> small_params ctx"
  shows "\<exists>ctx'. put_byte be c ctx = Some ctx' \<and> flanterm_wf ctx'"
  using escape_parse_total [OF assms, of be] select_charset_total [OF assms(1), of c] put_plain_total [OF assms(1), of be c] assms(1)
  by (auto simp: put_byte_def utf8_start_def wf_simps)

lemma put_code_point_total:
  assumes "flanterm_wf ctx"
  shows "\<exists>ctx'. put_code_point be ctx = Some ctx' \<and> flanterm_wf ctx'"
proof -
  obtain w where "mk_wcwidth (ucast (code_point ctx)) = Some w" using wcwidth_defined by blast
  then show ?thesis using assms by (simp add: put_code_point_def Let_def wf_simps)
qed

lemma putchar_total:
  assumes "flanterm_wf ctx" and "c \<noteq> c_m \<or> \<not> control_sequence ctx \<or> small_params ctx"
  shows "\<exists>ctx'. flanterm_putchar be c ctx = Some ctx' \<and> flanterm_wf ctx'"
proof -
  have d: "flanterm_wf (discard ctx)" using assms(1) by (simp add: discard_def flanterm_wf_def)
  let ?z = "ctx\<lparr>unicode_remaining := 0\<rparr>"
  have z: "flanterm_wf ?z" "c \<noteq> c_m \<or> \<not> control_sequence ?z \<or> small_params ?z"
    using assms by (simp_all add: wf_simps small_params_def)
  have u: "\<exists>ctx'. utf8_continue be c ctx = Some ctx' \<and> flanterm_wf ctx'"
    using assms(1) by (auto simp: utf8_continue_def Let_def wf_simps intro: put_code_point_total)
  show ?thesis using d u put_byte_total [OF z, of be] put_byte_total [OF assms, of be]
    by (simp add: flanterm_putchar_def)
qed

section \<open>A recording back end\<close>

text \<open>For the examples: a back end that keeps the cursor and lists what is drawn.\<close>

record tty =
  tty_x :: u64
  tty_y :: u64
  drawn :: "u8 list"
  colour :: u32

definition tty_backend :: "tty backend" where
  "tty_backend = \<lparr>
     raw_putchar = (\<lambda>c ctx. (fb ctx)\<lparr>drawn := drawn (fb ctx) @ [c]\<rparr>),
     clear = (\<lambda>move ctx. fb ctx),
     set_cursor_pos = (\<lambda>x y ctx. (fb ctx)\<lparr>tty_x := x, tty_y := y\<rparr>),
     get_cursor_pos = (\<lambda>ctx. (tty_x (fb ctx), tty_y (fb ctx))),
     set_text_fg = (\<lambda>v ctx. (fb ctx)\<lparr>colour := ucast v\<rparr>), set_text_bg = (\<lambda>v ctx. fb ctx),
     set_text_fg_bright = (\<lambda>v ctx. (fb ctx)\<lparr>colour := ucast v + 8\<rparr>), set_text_bg_bright = (\<lambda>v ctx. fb ctx),
     set_text_fg_rgb = (\<lambda>v ctx. (fb ctx)\<lparr>colour := v\<rparr>), set_text_bg_rgb = (\<lambda>v ctx. fb ctx),
     set_text_fg_default = fb, set_text_bg_default = fb,
     set_text_fg_default_bright = fb, set_text_bg_default_bright = fb,
     move_character = (\<lambda>nx ny ox oy ctx. fb ctx), scroll = fb, revscroll = fb, swap_palette = fb,
     backend_save_state = fb, backend_restore_state = fb, double_buffer_flush = fb, callback = None\<rparr>"

definition tty_ctx :: "tty flanterm_context" where
  "tty_ctx = flanterm_context_reinit \<lparr>
     tab_size = 0, autoflush = False, cursor_enabled = False, scroll_enabled = False, control_sequence = False,
     csi = False, escape = False, osc = False, osc_escape = False, rrr = False, discard_next = False,
     bold = False, bg_bold = False, reverse_video = False, dec_private = False, insert_mode = False,
     code_point = 0, unicode_remaining = 0, g_select = 0, charsets = [0, 0], current_charset = 0,
     escape_offset = 0, esc_values_i = 0, saved_cursor_x = 0, saved_cursor_y = 0, current_primary = 0,
     current_bg = 0, scroll_top_margin = 0, scroll_bottom_margin = 0, esc_values = replicate 16 0,
     oob_output = 0, saved_state_bold = False, saved_state_bg_bold = False, saved_state_reverse_video = False,
     saved_state_current_charset = 0, saved_state_current_primary = 0, saved_state_current_bg = 0,
     rows = 25, cols = 80, fb = \<lparr>tty_x = 0, tty_y = 0, drawn = [], colour = 7\<rparr>\<rparr>"

lemma tty_ctx_wf: "flanterm_wf tty_ctx"
  by (simp add: tty_ctx_def flanterm_context_reinit_def flanterm_wf_def)

section \<open>Properties\<close>

text \<open>
  C4 One byte never drives the terminal outside its arrays: from a state that satisfies the
  invariant, whatever the byte and the back end, \<open>flanterm_putchar\<close> returns a state that
  satisfies it again (so the parameter list never overflows, the character set exists, and the
  scroll region is a range of rows of the screen), unless the byte ends an \<open>SGR\<close> sequence one
  of whose parameters is 256 or more.
\<close>

theorem flanterm_putchar_safe:
  assumes "flanterm_wf ctx"
  shows "(\<exists>ctx'. flanterm_putchar be c ctx = Some ctx' \<and> flanterm_wf ctx') \<or>
     (c = 0x6d \<and> control_sequence ctx \<and> (\<exists>k<16. 256 \<le> esc_values ctx ! k))"
  using putchar_total [OF assms, of c be] unfolding small_params_def by (meson not_le)

theorem flanterm_putchar_safe_witness:
  "\<exists>ctx'. flanterm_putchar tty_backend 0x1b tty_ctx = Some ctx' \<and> flanterm_wf ctx'"
  using flanterm_putchar_safe [OF tty_ctx_wf, of tty_backend "0x1b"] by simp

text \<open>The standard 256-colour palette: a cube of six levels and a ramp of greys.\<close>

definition xterm_level :: "nat \<Rightarrow> nat" where
  "xterm_level k = (if k = 0 then 0 else 55 + 40 * k)"

definition xterm_colour :: "nat \<Rightarrow> nat" where
  "xterm_colour n =
     (if n < 232 then
        xterm_level ((n - 16) div 36) * 65536 + xterm_level ((n - 16) div 6 mod 6) * 256 + xterm_level ((n - 16) mod 6)
      else (8 + 10 * (n - 232)) * 65793)"

lemma col256_xterm: "k < 240 \<Longrightarrow> col256 ! k = of_nat (xterm_colour (k + 16))"
proof -
  assume k: "k < 240"
  have "col256 = map (\<lambda>k. of_nat (xterm_colour (k + 16))) [0..<240]"
    by (simp add: col256_def xterm_colour_def xterm_level_def upt_rec)
  then have "col256 ! k = map (\<lambda>k. of_nat (xterm_colour (k + 16))) [0..<240] ! k" by (rule arg_cong)
  with k show ?thesis by (simp only: nth_map_upt length_upt) simp
qed

text \<open>
  C37 \<open>ESC [ 38;5;n m\<close> and \<open>ESC [ 48;5;n m\<close>, the foreground and the background: below 8 \<open>n\<close> selects the normal colour \<open>n\<close>,
  from 8 to 15 the bright colour \<open>n - 8\<close>, from 16 to 255 the colour \<open>n\<close> of the standard palette (the cube, then the greys), and
  from 256 on the table \<open>col256\<close> is read past its end: nothing checks it.  Each is one call of the back end and nothing else.
\<close>

theorem sgr_palette:
  assumes "flanterm_wf ctx" and "esc_values_i ctx = 3" and "esc_values ctx = kind # 5 # n # vs"
    and "kind = 38 \<or> kind = 48"
  shows "sgr be ctx =
     (if n < 8 then Some (call ((if kind = 38 then set_text_fg be else set_text_bg be) (of_nat (unat n))) ctx)
      else if n < 16 then
        Some (call ((if kind = 38 then set_text_fg_bright be else set_text_bg_bright be) (of_nat (unat n - 8))) ctx)
      else if n < 256 then
        Some (call ((if kind = 38 then set_text_fg_rgb be else set_text_bg_rgb be) (of_nat (xterm_colour (unat n)))) ctx)
      else None)"
proof -
  have v: "esc_values ctx ! 0 = kind" "esc_values ctx ! 1 = 5" "esc_values ctx ! 2 = n" using assms(3) by simp_all
  have get: "buf_get (esc_values ctx) (int k) = Some (esc_values ctx ! k)" if "k < 3" for k
    using param_in [OF assms(1), of k] that assms(2) by simp
  have "sgr be ctx = (case palette_colour be (kind = 38) n ctx of None \<Rightarrow> None | Some ctx' \<Rightarrow> sgr_loop be 3 ctx')"
    using assms(2,4) get [of 0] get [of 1] get [of 2] unfolding sgr_def v
    by (subst sgr_loop.simps) (auto simp: Let_def split: option.split)
  moreover have "sgr_loop be 3 ctx' = Some ctx'" if "palette_colour be (kind = 38) n ctx = Some ctx'" for ctx'
    using palette_colour_params(1) [OF that] assms(2) by (subst sgr_loop.simps) simp
  ultimately have s: "sgr be ctx = palette_colour be (kind = 38) n ctx"
    by (auto split: option.split)
  consider "n < 8" | "\<not> n < 8" "n < 16" | "\<not> n < 8" "\<not> n < 16" "n < 256" | "\<not> n < 256" by blast
  then show ?thesis
  proof cases
    case 1
    have "ucast n = (of_nat (unat n) :: u64)" by simp
    then show ?thesis unfolding s palette_colour_def using 1 by (simp only: if_True)
  next
    case 2
    then have "unat (n - 8) = unat n - 8" by (simp add: unat_sub word_le_nat_alt word_less_nat_alt)
    moreover have "ucast (n - 8) = (of_nat (unat (n - 8)) :: u64)" by simp
    ultimately have "ucast (n - 8) = (of_nat (unat n - 8) :: u64)" by (simp only:)
    then show ?thesis unfolding s palette_colour_def using 2 by (simp only: if_True if_False)
  next
    case 3
    have u: "unat (n - 16) = unat n - 16" "16 \<le> unat n" "unat n < 256"
      using 3 by (simp_all add: unat_sub word_le_nat_alt word_less_nat_alt)
    then have "buf_get col256 (uint (n - 16)) = Some (col256 ! unat (n - 16))"
      unfolding uint_nat by (intro buf_get_in) simp
    moreover have "col256 ! unat (n - 16) = of_nat (xterm_colour (unat n))" using col256_xterm [of "unat n - 16"] u by simp
    ultimately show ?thesis unfolding s palette_colour_def using 3 by (simp only: if_True if_False option.map)
  next
    case 4
    then have "palette_colour be (kind = 38) n ctx = None" by (intro palette_colour_fault) simp
    moreover have "\<not> n < 8" "\<not> n < 16" using 4 by (auto simp: word_less_nat_alt)
    ultimately show ?thesis unfolding s using 4 by (simp only: if_False)
  qed
qed

theorem sgr_palette_witness:
  "map (\<lambda>n. map_option (\<lambda>c. colour (fb c)) (sgr tty_backend (tty_ctx\<lparr>esc_values := [38, 5, n] @ replicate 13 1, esc_values_i := 3\<rparr>)))
     [3, 11, 208, 256] = [Some 3, Some 11, Some 0xff8700, None]"
proof -
  have w: "flanterm_wf (tty_ctx\<lparr>esc_values := [38, 5, n] @ replicate 13 1, esc_values_i := 3\<rparr>)" for n
    using tty_ctx_wf by (simp add: flanterm_wf_def)
  note s = sgr_palette [OF w, where kind = 38 and vs = "replicate 13 1" and be = tty_backend]
  show ?thesis
    using s [where n1 = 3 and n = 3] s [where n1 = 11 and n = 11] s [where n1 = 208 and n = 208] s [where n1 = 256 and n = 256]
    by (simp add: call_def tty_backend_def xterm_colour_def xterm_level_def)
qed

end
