(* ===== verification/Fb_Init_Correct.thy ===== *)
theory Fb_Init_Correct
  imports Fb_Init Fb_Refresh Flanterm_Safe "HOL-Library.Multiset"
begin

text \<open>
  The initialisation of the frame buffer back end establishes the invariant of its operations:
  the font is expanded right, every array has its size, the screen is blank and is what the
  frame buffer shows.  What is allocated is freed.
\<close>

section \<open>The font\<close>

text \<open>Dot \<open>p\<close> of the expanded font.\<close>

definition font_dot :: "u8 list \<Rightarrow> nat \<Rightarrow> nat \<Rightarrow> nat \<Rightarrow> bool" where
  "font_dot bits fw fh p =
     (let x = p mod fw; row = p div fw in
      if x < 8 then bit (bits ! row) (7 - x)
      else 0xc0 \<le> row div fh \<and> row div fh \<le> 0xdf \<and> bit (bits ! row) 0)"

lemma mask_bit: "x < 8 \<Longrightarrow> (row :: u8) AND drop_bit x 0x80 \<noteq> 0 \<longleftrightarrow> bit row (7 - x)"
proof -
  assume "x < 8"
  have m: "bit (0x80 :: u8) k \<longleftrightarrow> k = 7" for k
    using bit_exp_iff [of 7 k, where ?'a = "8 word"] by auto
  have "bit (drop_bit x (0x80 :: u8)) k \<longleftrightarrow> k = 7 - x" for k
    unfolding bit_drop_bit_eq comp_def m using \<open>x < 8\<close> by auto
  then show ?thesis unfolding word_and_nonzero_iff by simp
qed

lemma low_bit: "(row :: u8) AND 1 \<noteq> 0 \<longleftrightarrow> bit row 0"
  by (auto simp: word_and_nonzero_iff bit_1_iff)

lemma paints_bind:
  assumes "paints L f A v" and "paints L g B v"
  shows "paints L (\<lambda>s. Option.bind (f s) g) (A \<union> B) v"
  using assms by (simp add: paints_def paint_paint)

lemma paints_cong: "paints L f A v \<Longrightarrow> A = B \<Longrightarrow> paints L f B v"
  by simp

lemma expand_row_paints:
  fixes fw fh :: u64
  assumes i: "i < 256" and y: "y < unat fh" and w: "8 \<le> unat fw"
    and L: "L = 256 * unat fh * unat fw" "L < 2 ^ 64" and b: "256 * unat fh \<le> length bits"
  shows "paints L (expand_row bits fw fh i y) ((\<lambda>x. (i * unat fh + y) * unat fw + x) ` {0..<unat fw}) (font_dot bits (unat fw) (unat fh))"
proof -
  let ?row = "i * unat fh + y"
  have row: "?row < 256 * unat fh" using row_below [OF i y] .
  have in_L: "?row * unat fw + x < L" if "x < unat fw" for x using row_below [OF row that] L(1) by simp
  have at: "of_nat i * fh + of_nat y = (of_nat ?row :: u64)" by simp
  have "?row < 2 ^ 64"
  proof -
    have "256 * unat fh * 1 \<le> 256 * unat fh * unat fw" using w by (intro mult_le_mono2) simp
    then have "256 * unat fh \<le> L" unfolding L(1) by simp
    with row L(2) show ?thesis by linarith
  qed
  then have ua: "uint (of_nat ?row :: u64) = int ?row" by (rule uint_of_nat64)
  have get: "buf_get bits (int ?row) = Some (bits ! ?row)" by (rule buf_get_in) (use row b in linarith)
  have off: "uint (of_nat i * fh * fw + of_nat y * fw + of_nat x :: u64) = int (?row * unat fw + x)" if "x < unat fw" for x
  proof -
    have "of_nat i * fh * fw + of_nat y * fw + of_nat x = (of_nat (?row * unat fw + x) :: u64)"
      by (simp add: add_mult_distrib)
    moreover have "?row * unat fw + x < 2 ^ 64" using in_L [OF that] L(2) by simp
    ultimately show ?thesis by (simp only: uint_of_nat64)
  qed
  have dm: "(?row * unat fw + x) div unat fw = ?row" "(?row * unat fw + x) mod unat fw = x" if "x < unat fw" for x
    using that by simp_all
  have gi: "?row div unat fh = i" using y by simp
  let ?f = "\<lambda>x. Option.bind (buf_get bits (uint (of_nat ?row :: u64)))"
  have left: "paints L (for_range (\<lambda>x dots. Option.bind (buf_get bits (uint (of_nat ?row :: u64)))
      (\<lambda>row. buf_set dots (uint (of_nat i * fh * fw + of_nat y * fw + of_nat x :: u64)) (row AND drop_bit x 0x80 \<noteq> 0))) 0 8)
    (\<Union>x\<in>{0..<8}. {?row * unat fw + x}) (font_dot bits (unat fw) (unat fh))"
  proof (rule paints_range)
    fix x :: nat assume x: "x < 8"
    then have xw: "x < unat fw" using w by simp
    have "font_dot bits (unat fw) (unat fh) (?row * unat fw + x) = (bits ! ?row AND drop_bit x 0x80 \<noteq> 0)"
      unfolding font_dot_def Let_def dm [OF xw] mask_bit [OF x] using x by simp
    from paints_set [of "?row * unat fw + x" L "font_dot bits (unat fw) (unat fh)", OF in_L [OF xw] this]
    show "paints L (\<lambda>dots. Option.bind (buf_get bits (uint (of_nat ?row :: u64)))
      (\<lambda>row. buf_set dots (uint (of_nat i * fh * fw + of_nat y * fw + of_nat x :: u64)) (row AND drop_bit x 0x80 \<noteq> 0)))
      {?row * unat fw + x} (font_dot bits (unat fw) (unat fh))"
      unfolding ua get off [OF xw] by (simp only: bind.bind_lunit)
  qed
  have right: "paints L (for_range (\<lambda>x dots. if 0xc0 \<le> i \<and> i \<le> 0xdf
      then Option.bind (buf_get bits (uint (of_nat ?row :: u64)))
        (\<lambda>row. buf_set dots (uint (of_nat i * fh * fw + of_nat y * fw + of_nat x :: u64)) (row AND 1 \<noteq> 0))
      else buf_set dots (uint (of_nat i * fh * fw + of_nat y * fw + of_nat x :: u64)) False) 8 (unat fw))
    (\<Union>x\<in>{8..<unat fw}. {?row * unat fw + x}) (font_dot bits (unat fw) (unat fh))"
  proof (rule paints_range)
    fix x :: nat assume x: "8 \<le> x" and xw: "x < unat fw"
    have v: "font_dot bits (unat fw) (unat fh) (?row * unat fw + x) = (if 0xc0 \<le> i \<and> i \<le> 0xdf then bits ! ?row AND 1 \<noteq> 0 else False)"
      unfolding font_dot_def Let_def dm [OF xw] low_bit gi using x by auto
    show "paints L (\<lambda>dots. if 0xc0 \<le> i \<and> i \<le> 0xdf
      then Option.bind (buf_get bits (uint (of_nat ?row :: u64)))
        (\<lambda>row. buf_set dots (uint (of_nat i * fh * fw + of_nat y * fw + of_nat x :: u64)) (row AND 1 \<noteq> 0))
      else buf_set dots (uint (of_nat i * fh * fw + of_nat y * fw + of_nat x :: u64)) False)
      {?row * unat fw + x} (font_dot bits (unat fw) (unat fh))"
      using paints_set [of "?row * unat fw + x" L "font_dot bits (unat fw) (unat fh)", OF in_L [OF xw] v] unfolding ua get off [OF xw] by (cases "0xc0 \<le> i \<and> i \<le> 0xdf") (simp_all only: if_True if_False bind.bind_lunit simp_thms)
  qed
  have "(\<Union>x\<in>{0..<8}. {?row * unat fw + x}) \<union> (\<Union>x\<in>{8..<unat fw}. {?row * unat fw + x}) = (\<lambda>x. ?row * unat fw + x) ` {0..<unat fw}"
    by (simp only: UNION_singleton_eq_range image_Un [symmetric] ivl_disj_un_two(3) [OF le0 w])
  from paints_cong [OF paints_bind [OF left right] this] show ?thesis
    unfolding expand_row_def Let_def at by simp
qed

lemma expand_font_paints:
  fixes fw fh :: u64
  assumes w: "8 \<le> unat fw" and L: "L = 256 * unat fh * unat fw" "L < 2 ^ 64" and b: "256 * unat fh \<le> length bits"
  shows "paints L (expand_font bits fw fh) {0..<L} (font_dot bits (unat fw) (unat fh))"
proof -
  have p: "paints L (expand_font bits fw fh)
      (\<Union>i\<in>{0..<256}. \<Union>y\<in>{0..<unat fh}. (\<lambda>x. (i * unat fh + y) * unat fw + x) ` {0..<unat fw}) (font_dot bits (unat fw) (unat fh))"
    unfolding expand_font_def by (intro paints_range expand_row_paints [OF _ _ w L b])
  have "(\<Union>i\<in>{0..<256}. \<Union>y\<in>{0..<unat fh}. (\<lambda>x. (i * unat fh + y) * unat fw + x) ` {0..<unat fw}) = {0..<L}"
  proof (intro set_eqI iffI)
    fix p assume "p \<in> {0..<L}"
    then have p: "p < 256 * unat fh * unat fw" using L by simp
    then have r: "p div unat fw < 256 * unat fh" by (rule less_mult_imp_div_less)
    then have i: "p div unat fw div unat fh < 256" by (rule less_mult_imp_div_less)
    have h: "0 < unat fh" using r by (cases "unat fh") simp_all
    have "p = (p div unat fw div unat fh * unat fh + p div unat fw mod unat fh) * unat fw + p mod unat fw" by simp
    moreover have "p div unat fw mod unat fh < unat fh" "p mod unat fw < unat fw" using h w by simp_all
    ultimately show "p \<in> (\<Union>i\<in>{0..<256}. \<Union>y\<in>{0..<unat fh}. (\<lambda>x. (i * unat fh + y) * unat fw + x) ` {0..<unat fw})"
      using i by (intro UN_I [of "p div unat fw div unat fh"] UN_I [of "p div unat fw mod unat fh"] image_eqI [of _ _ "p mod unat fw"]) simp_all
  next
    fix p assume "p \<in> (\<Union>i\<in>{0..<256}. \<Union>y\<in>{0..<unat fh}. (\<lambda>x. (i * unat fh + y) * unat fw + x) ` {0..<unat fw})"
    then obtain i y x where "i < 256" "y < unat fh" "x < unat fw" "p = (i * unat fh + y) * unat fw + x"
      unfolding UN_iff image_iff Bex_def atLeastLessThan_iff by blast
    then show "p \<in> {0..<L}" using row_below [OF row_below [of i 256 y "unat fh"]] L by simp
  qed
  with p show ?thesis by simp
qed

lemma paint_all: "paint {0..<length s} v s = map v [0..<length s]"
  by (rule nth_equalityI) simp_all

lemma expand_font_value:
  fixes fw fh :: u64
  assumes "8 \<le> unat fw" and "256 * unat fh * unat fw < 2 ^ 64" and "256 * unat fh \<le> length bits"
    and "length s = 256 * unat fh * unat fw"
  shows "expand_font bits fw fh s = Some (map (font_dot bits (unat fw) (unat fh)) [0..<length s])"
  using expand_font_paints [OF assms(1) refl assms(2,3)] assms(4) paint_all [of s] by (simp add: paints_def)

section \<open>The arguments\<close>

text \<open>What the initialisation relies on: the arrays are as long as the sizes say, no product wraps
  and no division is by zero.\<close>

definition args_ok :: "fb_args \<Rightarrow> bool" where
  "args_ok a \<longleftrightarrow>
     (let (bits, fw0, fh, sp) = chosen_font a; fw = fw0 + sp in
        8 \<le> unat fw0 \<and> unat fw0 \<le> unat fw \<and> 0 < unat fh \<and> unat fh \<le> 256 \<and> unat fw < 2 ^ 32 \<and>
        unat fw0 * unat fh * 32 \<le> length bits \<and>
        0 < unat (arg_font_scale_x a) \<and> 0 < unat (arg_font_scale_y a) \<and>
        unat fw * unat (arg_font_scale_x a) + unat (arg_margin a) * 2 \<le> unat (arg_width a) \<and>
        unat fh * unat (arg_font_scale_y a) + unat (arg_margin a) * 2 \<le> unat (arg_height a)) \<and>
     unat (arg_width a) * unat (arg_height a) * 4 < 2 ^ 64 \<and> unat (arg_width a) \<le> unat (arg_pitch a div 4) \<and>
     length (arg_framebuffer a) = unat (arg_height a) * unat (arg_pitch a div 4) \<and> length (arg_framebuffer a) < 2 ^ 64 \<and>
     (case arg_canvas a of None \<Rightarrow> True | Some cv \<Rightarrow> unat (arg_width a) * unat (arg_height a) \<le> length cv) \<and>
     8 \<le> length (given (arg_ansi_colours a) default_ansi_colours) \<and>
     8 \<le> length (given (arg_ansi_bright_colours a) default_ansi_bright_colours)"

definition font_cols :: "fb_args \<Rightarrow> u64" where
  "font_cols a = (let (bits, fw0, fh, sp) = chosen_font a in fw0 + sp)"

definition font_rows :: "fb_args \<Rightarrow> u64" where
  "font_rows a = (let (bits, fw0, fh, sp) = chosen_font a in fh)"

definition font_bytes :: "fb_args \<Rightarrow> u8 list" where
  "font_bytes a = (let (bits, fw0, fh, sp) = chosen_font a in take (unat (FONT_BYTES fw0 fh)) bits)"

definition glyph_cols :: "fb_args \<Rightarrow> u64" where "glyph_cols a = font_cols a * arg_font_scale_x a"
definition glyph_rows :: "fb_args \<Rightarrow> u64" where "glyph_rows a = font_rows a * arg_font_scale_y a"
definition init_cols :: "fb_args \<Rightarrow> u64" where "init_cols a = (arg_width a - arg_margin a * 2) div glyph_cols a"
definition init_rows :: "fb_args \<Rightarrow> u64" where "init_rows a = (arg_height a - arg_margin a * 2) div glyph_rows a"

lemma args_okD:
  assumes "args_ok a"
  shows "8 \<le> unat (font_cols a)" "0 < unat (font_rows a)" "unat (font_rows a) \<le> 256" "unat (font_cols a) < 2 ^ 32"
    "unat (font_cols a) * unat (arg_font_scale_x a) + unat (arg_margin a) * 2 \<le> unat (arg_width a)"
    "unat (font_rows a) * unat (arg_font_scale_y a) + unat (arg_margin a) * 2 \<le> unat (arg_height a)"
    "0 < unat (arg_font_scale_x a)" "0 < unat (arg_font_scale_y a)"
    "unat (arg_width a) * unat (arg_height a) * 4 < 2 ^ 64" "unat (arg_width a) \<le> unat (arg_pitch a div 4)"
    "length (arg_framebuffer a) = unat (arg_height a) * unat (arg_pitch a div 4)" "length (arg_framebuffer a) < 2 ^ 64"
  using assms unfolding args_ok_def font_cols_def font_rows_def Let_def by (auto split: prod.splits)

lemma font_bytes_length:
  assumes "args_ok a"
  shows "256 * unat (font_rows a) \<le> length (font_bytes a)"
    and "\<And>bits fw0 fh sp. chosen_font a = (bits, fw0, fh, sp) \<Longrightarrow> unat (FONT_BYTES fw0 fh) \<le> length bits"
proof -
  obtain bits fw0 fh sp where c: "chosen_font a = (bits, fw0, fh, sp)" by (cases "chosen_font a") auto
  have b: "8 \<le> unat fw0" "unat fw0 < 2 ^ 32" "unat fh \<le> 256" "unat fw0 * unat fh * 32 \<le> length bits"
    using assms c unfolding args_ok_def Let_def by auto
  have "unat fw0 * unat fh \<le> 2 ^ 32 * 256" by (rule mult_le_mono) (use b in simp_all)
  then have p: "unat (fw0 * fh) = unat fw0 * unat fh" "unat fw0 * unat fh \<le> 2 ^ 40" by (simp_all add: unat_mult_small)
  have "unat (fw0 * fh * 256) = unat fw0 * unat fh * 256"
  proof -
    have u256: "unat (256 :: u64) = 256" and b40: "(2 ^ 40 :: nat) * 256 < 2 ^ 64" by simp_all
    have "unat (fw0 * fh) * unat (256 :: u64) < 2 ^ 64" unfolding p(1) u256 using p(2) b40 by linarith
    from unat_mult_small [OF this] show ?thesis unfolding p(1) by simp
  qed
  then have n: "unat (FONT_BYTES fw0 fh) = unat fw0 * unat fh * 32" by (simp add: FONT_BYTES_def unat_div)
  have "8 * unat fh \<le> unat fw0 * unat fh" using b(1) by (rule mult_le_mono1)
  then show "256 * unat (font_rows a) \<le> length (font_bytes a)"
    using b(4) n c by (simp add: font_rows_def font_bytes_def)
  show "unat (FONT_BYTES fw0' fh') \<le> length bits'" if "chosen_font a = (bits', fw0', fh', sp')" for bits' fw0' fh' sp'
    using that c n b(4) by simp
qed

text \<open>The geometry.\<close>

lemma layout_values:
  assumes "args_ok a"
  shows "unat (glyph_cols a) = unat (font_cols a) * unat (arg_font_scale_x a)"
    and "unat (glyph_rows a) = unat (font_rows a) * unat (arg_font_scale_y a)"
    and "unat (arg_margin a * 2) = unat (arg_margin a) * 2"
    and "unat (arg_width a - arg_margin a * 2) = unat (arg_width a) - unat (arg_margin a) * 2"
    and "unat (arg_height a - arg_margin a * 2) = unat (arg_height a) - unat (arg_margin a) * 2"
    and "0 < unat (init_cols a)" and "0 < unat (init_rows a)"
    and "unat (init_rows a) * unat (init_cols a) * 32 < 2 ^ 64"
proof -
  note k = args_okD [OF assms]
  show gc: "unat (glyph_cols a) = unat (font_cols a) * unat (arg_font_scale_x a)"
    unfolding glyph_cols_def by (rule unat_mult_small) (use k(5) unat_u64_bound [of "arg_width a"] in linarith)
  show gr: "unat (glyph_rows a) = unat (font_rows a) * unat (arg_font_scale_y a)"
    unfolding glyph_rows_def by (rule unat_mult_small) (use k(6) unat_u64_bound [of "arg_height a"] in linarith)
  have "unat (arg_margin a) * unat (2 :: u64) < 2 ^ 64" using k(5) unat_u64_bound [of "arg_width a"] by simp
  from unat_mult_small [OF this] show m: "unat (arg_margin a * 2) = unat (arg_margin a) * 2" by simp
  show w: "unat (arg_width a - arg_margin a * 2) = unat (arg_width a) - unat (arg_margin a) * 2"
    using m k(5) by (subst unat_sub) (simp_all add: word_le_nat_alt)
  show h: "unat (arg_height a - arg_margin a * 2) = unat (arg_height a) - unat (arg_margin a) * 2"
    using m k(6) by (subst unat_sub) (simp_all add: word_le_nat_alt)
  have gc8: "8 \<le> unat (glyph_cols a)" and gr1: "1 \<le> unat (glyph_rows a)"
    using mult_le_mono [OF k(1), of 1 "unat (arg_font_scale_x a)"] k(2,7,8) by (simp_all add: gc gr)
  have c: "unat (init_cols a) = (unat (arg_width a) - unat (arg_margin a) * 2) div unat (glyph_cols a)"
    and r: "unat (init_rows a) = (unat (arg_height a) - unat (arg_margin a) * 2) div unat (glyph_rows a)"
    by (simp_all add: init_cols_def init_rows_def unat_div w h)
  have "unat (glyph_cols a) \<le> unat (arg_width a) - unat (arg_margin a) * 2" using k(5) gc by linarith
  then show "0 < unat (init_cols a)" unfolding c using gc8 by (simp add: div_greater_zero_iff)
  have "unat (glyph_rows a) \<le> unat (arg_height a) - unat (arg_margin a) * 2" using k(6) gr by linarith
  then show "0 < unat (init_rows a)" unfolding r using gr1 by (simp add: div_greater_zero_iff)
  have "unat (init_cols a) * 8 \<le> unat (init_cols a) * unat (glyph_cols a)" using gc8 by (rule mult_le_mono2)
  also have "\<dots> \<le> unat (arg_width a) - unat (arg_margin a) * 2" unfolding c by (rule div_times_less_eq_dividend)
  finally have c8: "unat (init_cols a) * 8 \<le> unat (arg_width a)" by simp
  have "unat (init_rows a) \<le> unat (arg_height a) - unat (arg_margin a) * 2" unfolding r by (rule div_le_dividend)
  then have "unat (init_rows a) \<le> unat (arg_height a)" by simp
  then have "unat (init_rows a) * (unat (init_cols a) * 8) \<le> unat (arg_height a) * unat (arg_width a)" using c8 by (rule mult_le_mono)
  then have "unat (init_rows a) * (unat (init_cols a) * 8) * 4 \<le> unat (arg_height a) * unat (arg_width a) * 4" by (rule mult_le_mono1)
  also have "\<dots> < 2 ^ 64" using k(9) by (simp add: mult.commute)
  finally show "unat (init_rows a) * unat (init_cols a) * 32 < 2 ^ 64" by (simp add: mult.assoc)
qed

lemma centred:
  fixes w m g :: nat
  assumes "m * 2 \<le> w"
  shows "m + (w - m * 2) mod g div 2 + (w - m * 2) div g * g \<le> w"
proof -
  have "(w - m * 2) div g * g + (w - m * 2) mod g = w - m * 2" by (rule div_mult_mod_eq)
  moreover have "(w - m * 2) mod g div 2 \<le> (w - m * 2) mod g" by simp
  ultimately show ?thesis using assms by linarith
qed

section \<open>The arrays\<close>

lemma block_array_length: "unat n * unat e < 2 ^ 64 \<Longrightarrow> e \<noteq> 0 \<Longrightarrow> length (block_array (n * e) e z) = unat n"
  by (simp add: block_array_def unat_div unat_mult_small unat_eq_0)

lemma fill_loop:
  assumes "n \<le> length s"
  shows "for_range (\<lambda>i g. buf_set g (int i) z) 0 n s = Some (replicate n z @ drop n s)"
proof -
  have "\<exists>g. for_range (\<lambda>i g. buf_set g (int i) z) 0 n s = Some g \<and> g = replicate n z @ drop n s"
  proof (rule for_range_total [where P = "\<lambda>k g. g = replicate k z @ drop k s"])
    fix k g assume k: "k < n" "g = replicate k z @ drop k s"
    then have lt: "k < length s" using assms by simp
    then have "buf_set g (int k) z = Some (g[k := z])" using k by (intro buf_set_in) simp
    moreover have "g[k := z] = replicate (Suc k) z @ drop (Suc k) s"
      using k lt by (simp add: list_update_append Cons_nth_drop_Suc [symmetric] replicate_append_same [symmetric])
    ultimately show "\<exists>g'. buf_set g (int k) z = Some g' \<and> g' = replicate (Suc k) z @ drop (Suc k) s" by blast
  qed simp_all
  then show ?thesis by simp
qed

lemma fill_array: "length s = n \<Longrightarrow> for_range (\<lambda>i g. buf_set g (int i) z) 0 n s = Some (replicate n z)"
  by (simp add: fill_loop)

text \<open>The context before its first picture.\<close>

definition blank_char :: "fb_args \<Rightarrow> flanterm_fb_char" where
  "blank_char a = \<lparr>ch_c = 0x20, ch_fg = given (arg_default_fg a) 0x00aaaaaa, ch_bg = 0xffffffff\<rparr>"

definition fresh :: "fb_args \<Rightarrow> flanterm_fb_context \<Rightarrow> bool" where
  "fresh a d \<longleftrightarrow>
     fb_geometry (init_rows a) (init_cols a) d \<and> queue_ok (init_rows a) (init_cols a) d \<and>
     grid d = replicate (unat (init_rows a) * unat (init_cols a)) (blank_char a) \<and>
     cell_map d = replicate (unat (init_rows a) * unat (init_cols a)) None \<and> queue_i d = 0 \<and>
     cursor_x d = 0 \<and> cursor_y d = 0 \<and> old_cursor_x d = 0 \<and> old_cursor_y d = 0 \<and>
     length (ansi_colours d) = 8 \<and> length (ansi_bright_colours d) = 8 \<and>
     font_bool d = map (font_dot (font_bytes a) (unat (font_cols a)) (unat (font_rows a))) [0..<256 * unat (font_rows a) * unat (font_cols a)]"

text \<open>The steps one after the other, with the layout of the screen of the arguments.\<close>

definition init_d2 :: "fb_args \<Rightarrow> flanterm_fb_context" where
  "init_d2 a = (init_colours a)\<lparr>font_width := font_cols a, font_height := font_rows a,
     font_bits_size := of_nat (length (font_bytes a)), font_bits := font_bytes a,
     font_bool_size := 256 * font_rows a * font_cols a,
     font_bool := map (font_dot (font_bytes a) (unat (font_cols a)) (unat (font_rows a))) [0..<256 * unat (font_rows a) * unat (font_cols a)]\<rparr>"

lemma font_sizes:
  assumes "args_ok a"
  shows "256 * unat (font_rows a) * unat (font_cols a) < 2 ^ 64"
    and "unat (256 * font_rows a * font_cols a) = 256 * unat (font_rows a) * unat (font_cols a)"
proof -
  note k = args_okD [OF assms]
  have "256 * unat (font_rows a) * unat (font_cols a) \<le> (256 * 256) * 2 ^ 32"
    by (rule mult_le_mono) (use k(3,4) in simp_all)
  then show lt: "256 * unat (font_rows a) * unat (font_cols a) < 2 ^ 64" by simp
  have "256 * font_rows a * font_cols a = of_nat (256 * unat (font_rows a) * unat (font_cols a))" by simp
  then show "unat (256 * font_rows a * font_cols a) = 256 * unat (font_rows a) * unat (font_cols a)"
    using unat_of_nat64 [OF lt] by (simp only:)
qed

lemma init_font_steps:
  assumes "args_ok a"
  shows "\<exists>d1. init_font_bits a (init_colours a) = Some d1 \<and> init_font_bool a d1 = Some (init_d2 a)"
proof -
  obtain bits fw0 fh sp where c: "chosen_font a = (bits, fw0, fh, sp)" by (cases "chosen_font a") auto
  note fb = font_bytes_length [OF assms]
  let ?n = "FONT_BYTES fw0 fh"
  let ?d1 = "(init_colours a)\<lparr>font_width := fw0, font_height := fh, font_bits_size := ?n, font_bits := take (unat ?n) bits\<rparr>"
  have "init_font_bits a (init_colours a) = Some ?d1" using fb(2) [OF c] by (simp add: init_font_bits_def c Let_def)
  moreover have fc: "font_cols a = fw0 + sp" "font_rows a = fh" "font_bytes a = take (unat ?n) bits"
    by (simp_all add: font_cols_def font_rows_def font_bytes_def c)
  define dots where "dots = map (font_dot (font_bytes a) (unat (font_cols a)) (unat (font_rows a))) [0..<256 * unat (font_rows a) * unat (font_cols a)]"
  have "expand_font (font_bytes a) (font_cols a) (font_rows a) (replicate (unat (256 * font_rows a * font_cols a)) False) = Some dots"
    using expand_font_value [OF args_okD(1) [OF assms] font_sizes(1) [OF assms] fb(1),
        of "replicate (unat (256 * font_rows a * font_cols a)) False"]
    unfolding font_sizes(2) [OF assms] length_replicate dots_def by blast
  then have "expand_font (take (unat ?n) bits) (fw0 + sp) fh (replicate (unat (256 * fh * (fw0 + sp))) False) = Some dots"
    unfolding fc .
  then have "init_font_bool a ?d1 = Some (?d1\<lparr>font_width := fw0 + sp, font_bool_size := 256 * fh * (fw0 + sp), font_bool := dots\<rparr>)"
    unfolding init_font_bool_def c Let_def by simp
  moreover have "?d1\<lparr>font_width := fw0 + sp, font_bool_size := 256 * fh * (fw0 + sp), font_bool := dots\<rparr> = init_d2 a"
    unfolding init_d2_def dots_def [symmetric] unfolding fc
    using fb(2) [OF c] by (intro flanterm_fb_context.equality) (simp_all add: min_def)
  ultimately show ?thesis by (simp only:) blast
qed

lemma init_d2_fields [simp]:
  "font_width (init_d2 a) = font_cols a" "font_height (init_d2 a) = font_rows a" "width (init_d2 a) = arg_width a"
  "height (init_d2 a) = arg_height a" "pitch (init_d2 a) = arg_pitch a" "framebuffer (init_d2 a) = arg_framebuffer a"
  "empty_char (init_d2 a) = blank_char a" "queue_i (init_d2 a) = 0" "cursor_x (init_d2 a) = 0" "cursor_y (init_d2 a) = 0"
  "old_cursor_x (init_d2 a) = 0" "old_cursor_y (init_d2 a) = 0" "default_bg (init_d2 a) = given (arg_default_bg a) 0"
  "ansi_colours (init_d2 a) = take 8 (given (arg_ansi_colours a) default_ansi_colours)"
  "ansi_bright_colours (init_d2 a) = take 8 (given (arg_ansi_bright_colours a) default_ansi_bright_colours)"
  by (simp_all add: init_d2_def init_colours_def blank_char_def empty_char_def)

lemma init_d2_font_bool:
  "font_bool (init_d2 a) = map (font_dot (font_bytes a) (unat (font_cols a)) (unat (font_rows a))) [0..<256 * unat (font_rows a) * unat (font_cols a)]"
proof -
  have "font_bool (d\<lparr>font_width := w, font_height := h, font_bits_size := n, font_bits := b, font_bool_size := m, font_bool := f\<rparr>) = f"
    for d :: flanterm_fb_context and w h n b m f by simp
  then show ?thesis unfolding init_d2_def .
qed

lemma screen_size_value:
  assumes "args_ok a"
  shows "screen_size a (init_d2 a) = Some (init_rows a, init_cols a)"
proof -
  have "glyph_cols a \<noteq> 0" "glyph_rows a \<noteq> 0"
    using layout_values(1,2) [OF assms] args_okD(1,2,7,8) [OF assms] by auto
  then show ?thesis by (simp add: screen_size_def Let_def init_rows_def init_cols_def glyph_cols_def glyph_rows_def)
qed

definition init_d6 :: "fb_args \<Rightarrow> flanterm_fb_context" where
  "init_d6 a = init_cell_map (init_rows a) (init_cols a) (init_queue (init_rows a) (init_cols a)
     ((init_layout a (init_d2 a))\<lparr>grid_size := init_rows a * init_cols a * sizeof_fb_char,
        grid := replicate (unat (init_rows a) * unat (init_cols a)) (blank_char a)\<rparr>))"

lemma product_small:
  assumes "args_ok a"
  shows "unat (init_rows a * init_cols a) = unat (init_rows a) * unat (init_cols a)"
    and "unat (init_rows a * init_cols a) * 32 < 2 ^ 64"
proof -
  have "unat (init_rows a) * unat (init_cols a) < 2 ^ 64" using layout_values(8) [OF assms] by linarith
  then show "unat (init_rows a * init_cols a) = unat (init_rows a) * unat (init_cols a)" by (rule unat_mult_small)
  then show "unat (init_rows a * init_cols a) * 32 < 2 ^ 64" using layout_values(8) [OF assms] by (simp only:)
qed

lemma init_grid_value:
  assumes "args_ok a"
  shows "init_grid (init_rows a) (init_cols a) (init_layout a (init_d2 a)) =
    Some ((init_layout a (init_d2 a))\<lparr>grid_size := init_rows a * init_cols a * sizeof_fb_char,
        grid := replicate (unat (init_rows a) * unat (init_cols a)) (blank_char a)\<rparr>)"
proof -
  have e: "empty_char (init_layout a (init_d2 a)) = blank_char a" by (simp add: init_layout_def Let_def flip: init_d2_fields(7)) (simp add: empty_char_def)
  have "unat (init_rows a * init_cols a) * unat sizeof_fb_char < 2 ^ 64"
    using product_small(2) [OF assms] by (simp add: sizeof_fb_char_def)
  then have "length (block_array (init_rows a * init_cols a * sizeof_fb_char) sizeof_fb_char zero_char) = unat (init_rows a * init_cols a)"
    by (rule block_array_length) (simp add: sizeof_fb_char_def)
  from fill_array [OF this] show ?thesis by (simp add: init_grid_def Let_def e product_small(1) [OF assms])
qed

lemma init_d6_fields [simp]:
  "font_width (init_d6 a) = font_cols a" "font_height (init_d6 a) = font_rows a" "width (init_d6 a) = arg_width a"
  "height (init_d6 a) = arg_height a" "pitch (init_d6 a) = arg_pitch a" "framebuffer (init_d6 a) = arg_framebuffer a"
  "queue_i (init_d6 a) = 0" "cursor_x (init_d6 a) = 0" "cursor_y (init_d6 a) = 0"
  "old_cursor_x (init_d6 a) = 0" "old_cursor_y (init_d6 a) = 0" "default_bg (init_d6 a) = given (arg_default_bg a) 0"
  "ansi_colours (init_d6 a) = take 8 (given (arg_ansi_colours a) default_ansi_colours)"
  "ansi_bright_colours (init_d6 a) = take 8 (given (arg_ansi_bright_colours a) default_ansi_bright_colours)"
  "grid (init_d6 a) = replicate (unat (init_rows a) * unat (init_cols a)) (blank_char a)"
  "glyph_width (init_d6 a) = glyph_cols a" "glyph_height (init_d6 a) = glyph_rows a"
  "font_scale_x (init_d6 a) = arg_font_scale_x a" "font_scale_y (init_d6 a) = arg_font_scale_y a"
  "offset_x (init_d6 a) = arg_margin a + (arg_width a - arg_margin a * 2) mod glyph_cols a div 2"
  "offset_y (init_d6 a) = arg_margin a + (arg_height a - arg_margin a * 2) mod glyph_rows a div 2"
  by (simp_all add: init_d6_def init_cell_map_def init_queue_def init_layout_def Let_def glyph_cols_def glyph_rows_def)

lemma init_d6_arrays:
  assumes "args_ok a"
  shows "length (queue (init_d6 a)) = unat (init_rows a) * unat (init_cols a)"
    and "cell_map (init_d6 a) = replicate (unat (init_rows a) * unat (init_cols a)) None"
    and "font_bool (init_d6 a) = font_bool (init_d2 a)"
proof -
  note p = product_small [OF assms]
  have q: "length (block_array (init_rows a * init_cols a * sizeof_fb_queue_item) sizeof_fb_queue_item zero_item) = unat (init_rows a * init_cols a)"
    by (rule block_array_length) (use p(2) in \<open>simp_all add: sizeof_fb_queue_item_def\<close>)
  show "length (queue (init_d6 a)) = unat (init_rows a) * unat (init_cols a)"
    using q p(1) by (simp add: init_d6_def init_cell_map_def init_queue_def Let_def)
  have "length (block_array (init_rows a * init_cols a * sizeof_pointer) sizeof_pointer (None :: nat option)) = unat (init_rows a * init_cols a)"
    by (rule block_array_length) (use p(2) in \<open>simp_all add: sizeof_pointer_def\<close>)
  then show "cell_map (init_d6 a) = replicate (unat (init_rows a) * unat (init_cols a)) None"
    using p(1) by (simp add: init_d6_def init_cell_map_def Let_def block_array_def)
  show "font_bool (init_d6 a) = font_bool (init_d2 a)"
    by (simp add: init_d6_def init_cell_map_def init_queue_def init_layout_def Let_def)
qed

lemma init_canvas_value:
  assumes "args_ok a"
  shows "\<exists>n cv. init_canvas a (init_d6 a) = Some ((init_d6 a)\<lparr>canvas_size := n, canvas := cv\<rparr>) \<and>
    length cv = unat (arg_height a) * unat (arg_width a) \<and>
    (arg_canvas a = None \<longrightarrow> cv = replicate (unat (arg_height a) * unat (arg_width a)) (given (arg_default_bg a) 0))"
proof -
  have b: "unat (arg_width a) * unat (arg_height a) * 4 < 2 ^ 64" using args_okD(9) [OF assms] .
  then have wh: "unat (arg_width a * arg_height a) = unat (arg_width a) * unat (arg_height a)" by (intro unat_mult_small) linarith
  have wh': "unat (arg_width a * arg_height a) = unat (arg_height a) * unat (arg_width a)" unfolding wh by (rule mult.commute)
  have n: "unat (arg_width a * arg_height a * 4) = unat (arg_width a) * unat (arg_height a) * 4"
    using unat_mult_small [of "arg_width a * arg_height a" 4] b by (simp add: wh)
  show ?thesis
  proof (cases "arg_canvas a")
    case None
    have "length (block_array (arg_width a * arg_height a * sizeof_uint32) sizeof_uint32 (0 :: u32)) = unat (arg_width a * arg_height a)"
      by (rule block_array_length) (use b wh in \<open>simp_all add: sizeof_uint32_def\<close>)
    from fill_array [OF this, of "given (arg_default_bg a) 0"] None show ?thesis
      unfolding wh mult.commute [of "unat (arg_width a)"]
      by (intro exI [of _ "arg_width a * arg_height a * sizeof_uint32"] exI conjI) (auto simp: init_canvas_def Let_def wh')
  next
    case (Some cv)
    then have "unat (arg_width a) * unat (arg_height a) \<le> length cv" using assms by (simp add: args_ok_def)
    then have le: "unat (arg_width a * arg_height a * sizeof_uint32) \<le> 4 * length cv" unfolding sizeof_uint32_def n by simp
    have q: "unat (arg_width a * arg_height a * sizeof_uint32 div 4) = unat (arg_height a) * unat (arg_width a)"
      unfolding sizeof_uint32_def unat_div n by simp
    have "init_canvas a (init_d6 a) = Some ((init_d6 a)\<lparr>canvas_size := arg_width a * arg_height a * sizeof_uint32,
        canvas := take (unat (arg_width a * arg_height a * sizeof_uint32 div 4)) cv\<rparr>)"
      using Some le unfolding init_canvas_def Let_def by simp
    moreover have "length (take (unat (arg_height a) * unat (arg_width a)) cv) = unat (arg_height a) * unat (arg_width a)"
      using le unfolding sizeof_uint32_def n by (simp add: mult.commute)
    ultimately show ?thesis unfolding q using Some by (intro exI conjI) auto
  qed
qed

lemma fresh_context:
  assumes "args_ok a" and cv: "length cv = unat (arg_height a) * unat (arg_width a)"
  shows "fresh a ((init_d6 a)\<lparr>canvas_size := n, canvas := cv\<rparr>)" (is "fresh a ?d")
proof -
  note k = args_okD [OF assms(1)] and l = layout_values [OF assms(1)] and ar = init_d6_arrays [OF assms(1)]
  have mw: "unat (arg_margin a) * 2 \<le> unat (arg_width a)" "unat (arg_margin a) * 2 \<le> unat (arg_height a)" using k(5,6) by simp_all
  have off: "unat (m + (w - m * 2) mod g div 2) + unat ((w - m * 2) div g) * unat g \<le> unat w"
    if "unat (w - m * 2) = unat w - unat m * 2" "unat m * 2 \<le> unat w" for w m g :: u64
  proof -
    have c: "unat m + (unat w - unat m * 2) mod unat g div 2 + (unat w - unat m * 2) div unat g * unat g \<le> unat w"
      by (rule centred [OF that(2)])
    have "unat ((w - m * 2) mod g div 2) = (unat w - unat m * 2) mod unat g div 2"
      using that(1) by (simp add: unat_div unat_mod)
    moreover have "unat (m + (w - m * 2) mod g div 2) = unat m + unat ((w - m * 2) mod g div 2)"
      using c calculation unat_u64_bound [of w] by (intro unat_add_lem [THEN iffD1]) simp
    ultimately show ?thesis using c that(1) by (simp add: unat_div)
  qed
  have fb2: "length (font_bool (init_d2 a)) = 256 * unat (font_rows a) * unat (font_cols a)"
    unfolding init_d2_font_bool by simp
  have "fb_geometry (init_rows a) (init_cols a) ?d"
    unfolding fb_geometry_def
  proof (intro conjI)
    show "unat (offset_x ?d) + unat (init_cols a) * unat (glyph_width ?d) \<le> unat (width ?d)"
      using off [OF l(4) mw(1)] by (simp add: init_cols_def)
    show "unat (offset_y ?d) + unat (init_rows a) * unat (glyph_height ?d) \<le> unat (height ?d)"
      using off [OF l(5) mw(2)] by (simp add: init_rows_def)
    show "length (font_bool ?d) = 256 * unat (font_height ?d) * unat (font_width ?d)" "length (font_bool ?d) < 2 ^ 64"
      using ar(3) fb2 font_sizes(1) [OF assms(1)] by simp_all
  qed (use k l cv in simp_all)
  moreover have "queue_ok (init_rows a) (init_cols a) ?d"
  proof -
    have "unat (init_rows a) * unat (init_cols a) < 2 ^ 64" using l(8) by linarith
    then show ?thesis unfolding queue_ok_def using ar by (simp add: blank_char_def)
  qed
  moreover have "font_bool ?d = map (font_dot (font_bytes a) (unat (font_cols a)) (unat (font_rows a))) [0..<256 * unat (font_rows a) * unat (font_cols a)]"
    using ar(3) unfolding init_d2_font_bool [symmetric] by simp
  moreover have "length (ansi_colours ?d) = 8" "length (ansi_bright_colours ?d) = 8"
    using assms(1) by (simp_all add: args_ok_def)
  moreover have "cell_map ?d = replicate (unat (init_rows a) * unat (init_cols a)) None" using ar(2) by simp
  ultimately show ?thesis unfolding fresh_def by simp
qed

section \<open>The initialisation as a chain of allocations\<close>

text \<open>The terminal on a blank screen.\<close>

definition term_ready :: "fb_args \<Rightarrow> fb_term \<Rightarrow> bool" where
  "term_ready a t \<longleftrightarrow> rows t = init_rows a \<and> cols t = init_cols a \<and> flanterm_wf t \<and>
     t = flanterm_context_reinit (zero_term (rows t) (cols t) (fb t)) \<and>
     (\<exists>d. fb t = Some d \<and> fb_inv (rows t) (cols t) d \<and> fresh a d)"

lemma zero_term_fields [simp]: "rows (zero_term r c b) = r" "cols (zero_term r c b) = c" "fb (zero_term r c b) = b"
  by (simp_all add: zero_term_def)

lemma reinit_fields [simp]: "rows (flanterm_context_reinit t) = rows t" "cols (flanterm_context_reinit t) = cols t"
  "fb (flanterm_context_reinit t) = fb t" "cursor_enabled (flanterm_context_reinit t)"
  by (simp_all add: flanterm_context_reinit_def)

lemma init_start_ready:
  assumes "args_ok a" and "fresh a d"
  shows "\<exists>t. init_start (init_rows a) (init_cols a) d = Some t \<and> term_ready a t"
proof -
  let ?t = "flanterm_context_reinit (zero_term (init_rows a) (init_cols a) (Some d))"
  have f: "fb_geometry (rows ?t) (cols ?t) d" "queue_ok (rows ?t) (cols ?t) d" "cursor_enabled ?t"
    "cell_map d = replicate (unat (rows ?t) * unat (cols ?t)) None"
    "old_cursor_x d = cursor_x d" "old_cursor_y d = cursor_y d"
    using assms(2) by (simp_all add: fresh_def)
  from full_refresh_shows [OF f] obtain pix where
    p: "flanterm_fb_full_refresh ?t d = Some (repainted d pix (grid d) (cell_map d))"
      "fb_inv (rows ?t) (cols ?t) (repainted d pix (grid d) (cell_map d))" by blast
  let ?d = "repainted d pix (grid d) (cell_map d)"
  let ?u = "?t\<lparr>fb := Some ?d\<rparr>"
  have "fresh a ?d"
    using assms(2) p(2) by (simp add: fresh_def fb_inv_def) (simp add: repainted_def)
  moreover have "0 < init_rows a" using layout_values(7) [OF assms(1)] by (simp add: word_less_nat_alt)
  then have "flanterm_wf ?u" by (simp add: flanterm_wf_def flanterm_context_reinit_def zero_term_def)
  moreover have "?u = flanterm_context_reinit (zero_term (init_rows a) (init_cols a) (Some ?d))"
    by (simp add: flanterm_context_reinit_def zero_term_def)
  ultimately have "term_ready a ?u" using p(2) by (simp add: term_ready_def)
  then show ?thesis using p(1) by (simp add: init_start_def Let_def)
qed

text \<open>The allocations in order, each with what it adds to the blocks.\<close>

fun init_chain :: "'h client_alloc \<Rightarrow> u64 \<Rightarrow> (u64 \<times> (u64 \<Rightarrow> fb_blocks \<Rightarrow> fb_blocks)) list \<Rightarrow> fb_term \<Rightarrow> fb_blocks \<Rightarrow>
    'h alloc_state \<Rightarrow> 'h init_result" where
  "init_chain al orig [] t b st = Some (Some (t, b), st)"
| "init_chain al orig ((s, put) # rest) t b st = alloc_step al orig b s (\<lambda>p st. init_chain al orig rest t (put p b) st) st"

lemma init_chain_unfold:
  "init_chain al orig [] t b = (\<lambda>st. Some (Some (t, b), st))"
  "init_chain al orig ((s, put) # rest) t b = alloc_step al orig b s (\<lambda>p. init_chain al orig rest t (put p b))"
  by (simp_all add: fun_eq_iff)

definition init_blocks :: "fb_args \<Rightarrow> (u64 \<times> (u64 \<Rightarrow> fb_blocks \<Rightarrow> fb_blocks)) list" where
  "init_blocks a =
     (let (bits, fw, fh, sp) = chosen_font a; ns = FONT_BYTES fw fh; bs = 256 * fh * (fw + sp);
          gs = init_rows a * init_cols a * sizeof_fb_char; qs = init_rows a * init_cols a * sizeof_fb_queue_item;
          ms = init_rows a * init_cols a * sizeof_pointer; cs = arg_width a * arg_height a * sizeof_uint32
      in [(sizeof_fb_context, \<lambda>p b. b\<lparr>blk_ctx := p\<rparr>), (ns, \<lambda>p b. b\<lparr>blk_font_bits := (p, ns)\<rparr>),
          (bs, \<lambda>p b. b\<lparr>blk_font_bool := (p, bs)\<rparr>), (gs, \<lambda>p b. b\<lparr>blk_grid := (p, gs)\<rparr>),
          (qs, \<lambda>p b. b\<lparr>blk_queue := (p, qs)\<rparr>), (ms, \<lambda>p b. b\<lparr>blk_map := (p, ms)\<rparr>),
          (cs, \<lambda>p b. b\<lparr>blk_canvas := (p, cs)\<rparr>)])"

lemma init_screen_chain:
  assumes "args_ok a"
  shows "\<exists>t. term_ready a t \<and> (\<forall>(al :: 'h client_alloc) orig b st. init_screen a al orig b (init_d2 a) st = init_chain al orig (drop 3 (init_blocks a)) t b st)"
proof -
  obtain bits fw fh sp where c: "chosen_font a = (bits, fw, fh, sp)" by (cases "chosen_font a") auto
  from init_canvas_value [OF assms] obtain n cv where
    cv: "init_canvas a (init_d6 a) = Some ((init_d6 a)\<lparr>canvas_size := n, canvas := cv\<rparr>)" "length cv = unat (arg_height a) * unat (arg_width a)"
    by blast
  from init_start_ready [OF assms fresh_context [OF assms cv(2)]] obtain t where
    t: "init_start (init_rows a) (init_cols a) ((init_d6 a)\<lparr>canvas_size := n, canvas := cv\<rparr>) = Some t" "term_ready a t" by blast
  have wh: "width (init_layout a (init_d2 a)) = arg_width a" "height (init_layout a (init_d2 a)) = arg_height a"
    by (simp_all add: init_layout_def Let_def)
  have "init_screen a al orig b (init_d2 a) st = init_chain al orig (drop 3 (init_blocks a)) t b st" for al :: "'h client_alloc" and orig b st
    unfolding init_screen_def screen_size_value [OF assms]
    by (simp add: Let_def wh init_grid_value [OF assms] init_d6_def [symmetric] cv(1) t(1) init_blocks_def init_chain_unfold c
        del: init_chain.simps)
  with t(2) show ?thesis by blast
qed

lemma init_chain_eq:
  assumes "args_ok a"
  shows "\<exists>t. term_ready a t \<and> (\<forall>(al :: 'h client_alloc) st. flanterm_fb_init a al st = init_chain al (fst st) (init_blocks a) t zero_blocks st)"
proof -
  obtain bits fw fh sp where c: "chosen_font a = (bits, fw, fh, sp)" by (cases "chosen_font a") auto
  from init_font_steps [OF assms] obtain d1 where d1: "init_font_bits a (init_colours a) = Some d1" "init_font_bool a d1 = Some (init_d2 a)" by blast
  from init_screen_chain [OF assms] obtain t where
    t: "term_ready a t" "\<And>(al :: 'h client_alloc) orig b st. init_screen a al orig b (init_d2 a) st = init_chain al orig (drop 3 (init_blocks a)) t b st" by blast
  have sc: "init_screen a al orig b (init_d2 a) = init_chain al orig (drop 3 (init_blocks a)) t b" for al :: "'h client_alloc" and orig b
    by (rule ext) (rule t(2))
  have "flanterm_fb_init a al st = init_chain al (fst st) (init_blocks a) t zero_blocks st" for al :: "'h client_alloc" and st
    unfolding flanterm_fb_init_def Let_def c by (simp add: d1 sc init_blocks_def c Let_def init_chain_unfold del: init_chain.simps)
  with t(1) show ?thesis by blast
qed

section \<open>Success and failure\<close>

text \<open>The state after allocating every size of a list, if none of the allocations fails.\<close>

fun chain_state :: "'h client_alloc \<Rightarrow> u64 list \<Rightarrow> 'h alloc_state \<Rightarrow> 'h alloc_state option" where
  "chain_state al [] st = Some st"
| "chain_state al (s # ss) st = (let (p, st') = fb_malloc al s st in if p = 0 then None else chain_state al ss st')"

lemma init_chain_success:
  "chain_state al (map fst cs) st = Some st' \<Longrightarrow> \<exists>b'. init_chain al orig cs t b st = Some (Some (t, b'), st')"
proof (induction cs arbitrary: b st)
  case (Cons c cs)
  obtain s put where c: "c = (s, put)" by (cases c)
  obtain p st1 where m: "fb_malloc al s st = (p, st1)" by (cases "fb_malloc al s st")
  show ?case using Cons.prems Cons.IH [of st1 "put p b"] by (auto simp: c m alloc_step_def Let_def split: if_splits)
qed simp

lemma init_succeeds:
  assumes "args_ok a" and "chain_state al (map fst (init_blocks a)) st = Some st'"
  shows "\<exists>t b. flanterm_fb_init a al st = Some (Some (t, b), st') \<and> term_ready a t"
proof -
  from init_chain_eq [OF assms(1)] obtain t where
    t: "term_ready a t" "flanterm_fb_init a al st = init_chain al (fst st) (init_blocks a) t zero_blocks st" by blast
  then show ?thesis using init_chain_success [OF assms(2)] by metis
qed

text \<open>The bump allocator has room as long as the sizes add up to what is left.\<close>

lemma bump_room:
  assumes "unat ptr + unat s \<le> 64 * 1024 * 1024" and "pool \<noteq> 0" and "unat pool + 64 * 1024 * 1024 < 2 ^ 64"
  shows "\<exists>p. p \<noteq> 0 \<and> bump_alloc pool s ptr = (p, ptr + s) \<and> unat (ptr + s) = unat ptr + unat s"
proof -
  have u: "unat (ptr + s) = unat ptr + unat s" using assms(1) by (intro unat_add_lem [THEN iffD1]) simp
  have c: "unat FLANTERM_FB_BUMP_ALLOC_POOL_SIZE = 64 * 1024 * 1024" by (simp add: FLANTERM_FB_BUMP_ALLOC_POOL_SIZE_def)
  then have "\<not> ptr + s > FLANTERM_FB_BUMP_ALLOC_POOL_SIZE" using assms(1) u by (simp add: word_less_nat_alt)
  moreover have "unat (pool + ptr) = unat pool + unat ptr" using assms(1,3) by (intro unat_add_lem [THEN iffD1]) simp
  then have "pool + ptr \<noteq> 0" using assms(2) by (metis add_is_0 unat_eq_0)
  ultimately show ?thesis using u by (simp add: bump_alloc_def Let_def)
qed

lemma chain_state_bump:
  assumes "malloc_fn al = None" and "pool_base al \<noteq> 0" and "unat (pool_base al) + 64 * 1024 * 1024 < 2 ^ 64"
  shows "unat ptr + sum_list (map unat ss) \<le> 64 * 1024 * 1024 \<Longrightarrow> \<exists>ptr'. chain_state al ss (ptr, h) = Some (ptr', h)"
proof (induction ss arbitrary: ptr)
  case (Cons s ss)
  then obtain p where p: "p \<noteq> 0" "bump_alloc (pool_base al) s ptr = (p, ptr + s)" "unat (ptr + s) = unat ptr + unat s"
    using bump_room [of ptr s, OF _ assms(2,3)] by auto
  show ?case using Cons.IH [of "ptr + s"] Cons.prems p assms(1) by (simp add: fb_malloc_def)
qed simp

section \<open>Nothing leaks\<close>

text \<open>The blocks in use.\<close>

definition held :: "fb_blocks \<Rightarrow> (u64 \<times> u64) list" where
  "held b = filter (\<lambda>e. fst e \<noteq> 0)
     [blk_canvas b, blk_map b, blk_queue b, blk_grid b, blk_font_bool b, blk_font_bits b, (blk_ctx b, sizeof_fb_context)]"

definition all_blocks :: "fb_blocks \<Rightarrow> (u64 \<times> u64) list" where
  "all_blocks b = [blk_font_bits b, blk_font_bool b, blk_grid b, blk_queue b, blk_map b, blk_canvas b, (blk_ctx b, sizeof_fb_context)]"

lemma fold_free:
  assumes "\<And>p s h. live (f p s h) = live h - {#(p, s)#}"
  shows "live (fold (\<lambda>(p, s). f p s) bs h) = live h - mset bs"
  using assms by (induction bs arbitrary: h) (auto simp: diff_diff_add_mset split: prod.split)

lemma fold_free_held:
  assumes "\<And>p s h. live (f p s h) = live h - {#(p, s)#}"
  shows "live (fold (\<lambda>(p, s) h. if p \<noteq> 0 then f p s h else h) bs h) = live h - mset (filter (\<lambda>e. fst e \<noteq> 0) bs)"
  using assms by (induction bs arbitrary: h) (auto simp: diff_diff_add_mset split: prod.split)

lemma init_fail_frees:
  assumes "malloc_fn al = Some m" "free_fn al = Some f" "\<And>p s h. live (f p s h) = live h - {#(p, s)#}" and "blk_ctx b \<noteq> 0"
  shows "\<exists>h'. init_fail al orig b (ptr, h) = Some (ptr, h') \<and> live h' = live h - mset (held b)"
proof -
  let ?bs = "[blk_canvas b, blk_map b, blk_queue b, blk_grid b, blk_font_bool b, blk_font_bits b, (blk_ctx b, sizeof_fb_context)]"
  have "init_fail al orig b (ptr, h) = Some (ptr, fold (\<lambda>(p, s) h. if p \<noteq> 0 then f p s h else h) ?bs h)"
    using assms(1,2,4) by (simp add: init_fail_def)
  moreover have "live (fold (\<lambda>(p, s) h. if p \<noteq> 0 then f p s h else h) ?bs h) = live h - mset (held b)"
    unfolding held_def by (rule fold_free_held) (rule assms(3))
  ultimately show ?thesis by blast
qed

text \<open>Each step of the chain adds one block, and at the end there is none missing.\<close>

fun chain_fits :: "(u64 \<times> (u64 \<Rightarrow> fb_blocks \<Rightarrow> fb_blocks)) list \<Rightarrow> fb_blocks \<Rightarrow> bool" where
  "chain_fits [] b \<longleftrightarrow> (\<forall>e \<in> set (all_blocks b). fst e \<noteq> 0)"
| "chain_fits ((s, put) # cs) b \<longleftrightarrow>
     (\<forall>p. p \<noteq> 0 \<longrightarrow> mset (held (put p b)) = add_mset (p, s) (mset (held b)) \<and> blk_ctx (put p b) \<noteq> 0 \<and> chain_fits cs (put p b))"

lemma all_held: "\<forall>e \<in> set (all_blocks b). fst e \<noteq> 0 \<Longrightarrow> mset (all_blocks b) = mset (held b)"
  by (simp add: all_blocks_def held_def)

lemma init_chain_balanced:
  assumes al: "malloc_fn al = Some m" "free_fn al = Some f"
    and mlaw: "\<And>s h p h'. m s h = (p, h') \<Longrightarrow> live h' = (if p = 0 then live h else add_mset (p, s) (live h))"
    and flaw: "\<And>p s h. live (f p s h) = live h - {#(p, s)#}"
  shows "chain_fits cs b \<Longrightarrow> blk_ctx b \<noteq> 0 \<Longrightarrow> live h = L + mset (held b) \<Longrightarrow>
    \<exists>r h'. init_chain al orig cs t b (ptr, h) = Some (r, (ptr, h')) \<and>
      (case r of None \<Rightarrow> live h' = L | Some (t', b') \<Rightarrow> live (flanterm_fb_deinit b' (Some f) h') = L)"
proof (induction cs arbitrary: b h)
  case Nil
  have "live (flanterm_fb_deinit b (Some f) h) = live h - mset (all_blocks b)"
    unfolding flanterm_fb_deinit_def all_blocks_def option.case by (rule fold_free [of live f, OF flaw])
  also have "\<dots> = L" using Nil all_held [of b] by simp
  finally show ?case by simp
next
  case (Cons c cs)
  obtain s put where c: "c = (s, put)" by (cases c)
  obtain p h1 where m: "m s h = (p, h1)" by force
  have fm: "fb_malloc al s (ptr, h) = (p, (ptr, h1))" by (simp add: fb_malloc_def al(1) m)
  show ?case
  proof (cases "p = 0")
    case True
    have "live h1 = L + mset (held b)" using mlaw [OF m] True Cons.prems(3) by simp
    then show ?thesis using init_fail_frees [of al m f live b orig ptr h1, OF al flaw Cons.prems(2)] True
      by (auto simp: c alloc_step_def fm)
  next
    case False
    then have f1: "mset (held (put p b)) = add_mset (p, s) (mset (held b))" "blk_ctx (put p b) \<noteq> 0" "chain_fits cs (put p b)"
      using Cons.prems(1) by (simp_all add: c)
    have "live h1 = L + mset (held (put p b))" using mlaw [OF m] False Cons.prems(3) f1(1) by simp
    from Cons.IH [OF f1(3,2) this] False show ?thesis by (simp add: c alloc_step_def fm)
  qed
qed

lemma init_fits:
  assumes "p \<noteq> 0"
  shows "chain_fits (tl (init_blocks a)) (zero_blocks\<lparr>blk_ctx := p\<rparr>)"
    and "mset (held (zero_blocks\<lparr>blk_ctx := p\<rparr>)) = {#(p, sizeof_fb_context)#}"
  using assms by (simp_all add: init_blocks_def Let_def held_def zero_blocks_def all_blocks_def split: prod.split)

section \<open>The built-in allocator\<close>

text \<open>\<open>flanterm_fb_simple_init\<close>: the built-in font, no margin, the pool.\<close>

definition simple_ok :: "u32 list \<Rightarrow> u64 \<Rightarrow> u64 \<Rightarrow> u64 \<Rightarrow> bool" where
  "simple_ok pix w h p \<longleftrightarrow> 9 \<le> w \<and> 16 \<le> h \<and> unat w * unat h \<le> 15000000 \<and> w \<le> p div 4 \<and>
     length pix = unat h * unat (p div 4) \<and> length pix < 2 ^ 64"

lemma simple_args_fields [simp]:
  "chosen_font (simple_args pix w h p) = (builtin_font, 8, 16, 1)" "arg_width (simple_args pix w h p) = w"
  "arg_height (simple_args pix w h p) = h" "arg_pitch (simple_args pix w h p) = p" "arg_framebuffer (simple_args pix w h p) = pix"
  "arg_margin (simple_args pix w h p) = 0" "arg_font_scale_x (simple_args pix w h p) = 1" "arg_font_scale_y (simple_args pix w h p) = 1"
  "arg_canvas (simple_args pix w h p) = None" "arg_ansi_colours (simple_args pix w h p) = None"
  "arg_ansi_bright_colours (simple_args pix w h p) = None"
  by (simp_all add: simple_args_def chosen_font_def)

lemma simple_area: "simple_ok pix w h p \<Longrightarrow> unat w * unat h * 4 < 2 ^ 64"
proof -
  assume "simple_ok pix w h p"
  then have "unat w * unat h \<le> 15000000" by (simp add: simple_ok_def)
  moreover have "(15000000 :: nat) * 4 < 2 ^ 64" by simp
  ultimately show ?thesis by linarith
qed

lemma simple_args_ok: "simple_ok pix w h p \<Longrightarrow> args_ok (simple_args pix w h p)"
  using simple_area [of pix w h p]
  by (simp add: args_ok_def simple_ok_def builtin_font_length word_le_nat_alt given_def default_ansi_colours_def
      default_ansi_bright_colours_def)

lemma simple_sizes:
  assumes "simple_ok pix w h p"
  shows "sum_list (map unat (map fst (init_blocks (simple_args pix w h p)))) \<le> 64 * 1024 * 1024"
proof -
  let ?a = "simple_args pix w h p" and ?N = "unat (init_rows (simple_args pix w h p)) * unat (init_cols (simple_args pix w h p))"
  note ok = simple_args_ok [OF assms]
  have wh: "unat w * unat h \<le> 15000000" using assms by (simp add: simple_ok_def)
  note n = product_small [OF ok]
  have gc: "glyph_cols ?a = 9" "glyph_rows ?a = 16" by (simp_all add: glyph_cols_def glyph_rows_def font_cols_def font_rows_def)
  have c: "unat (init_cols ?a) * 9 \<le> unat w" "unat (init_rows ?a) * 16 \<le> unat h"
    by (simp_all add: init_cols_def init_rows_def gc unat_div)
  have "?N * 144 = unat (init_rows ?a) * 16 * (unat (init_cols ?a) * 9)" by simp
  also have "\<dots> \<le> unat h * unat w" using c by (intro mult_le_mono)
  also have "\<dots> \<le> 15000000" using wh by (simp add: mult.commute)
  finally have N: "?N * 144 \<le> 15000000" .
  have s: "unat (init_rows ?a * init_cols ?a * k) = ?N * unat k" if "unat k \<le> 32" for k
  proof -
    have "unat (init_rows ?a * init_cols ?a) * unat k \<le> unat (init_rows ?a * init_cols ?a) * 32" using that by (rule mult_le_mono2)
    then have "unat (init_rows ?a * init_cols ?a) * unat k < 2 ^ 64" using n(2) by linarith
    from unat_mult_small [OF this] show ?thesis by (simp only: n(1))
  qed
  have cv: "unat (w * h * 4) = unat w * unat h * 4"
  proof -
    have "unat (w * h) = unat w * unat h" using wh by (intro unat_mult_small) simp
    then show ?thesis using unat_mult_small [of "w * h" 4] simple_area [OF assms] by simp
  qed
  have "sum_list (map unat (map fst (init_blocks ?a))) =
      784 + 4096 + 36864 + ?N * 12 + ?N * 32 + ?N * 8 + unat w * unat h * 4"
    using s [of 12] s [of 32] s [of 8] cv
    by (simp add: init_blocks_def Let_def FONT_BYTES_def sizeof_fb_context_def sizeof_fb_char_def sizeof_fb_queue_item_def
        sizeof_pointer_def sizeof_uint32_def)
  then show ?thesis using N wh by linarith
qed

lemma simple_init_ready:
  assumes "simple_ok pix w h p" and "pool \<noteq> 0" and "unat pool + 64 * 1024 * 1024 < 2 ^ 64"
  shows "\<exists>t b ptr'. flanterm_fb_simple_init pix w h p pool 0 = Some (Some (t, b), (ptr', ())) \<and> term_ready (simple_args pix w h p) t"
proof -
  let ?al = "\<lparr>malloc_fn = None, free_fn = None, pool_base = pool\<rparr> :: unit client_alloc"
  have "\<exists>ptr'. chain_state ?al (map fst (init_blocks (simple_args pix w h p))) (0, ()) = Some (ptr', ())"
    by (rule chain_state_bump) (use assms simple_sizes [OF assms(1)] in simp_all)
  then show ?thesis using init_succeeds [OF simple_args_ok [OF assms(1)]] unfolding flanterm_fb_simple_init_def by metis
qed

end
