(* ===== verification/Flanterm_Backend.thy ===== *)
theory Flanterm_Backend
  imports Flanterm_Safe
begin

text \<open>
  The contract between the terminal and its back end: an invariant of the back end that every
  function pointer keeps, for the arguments the terminal passes, is kept by every byte.
\<close>

section \<open>The invariant of the parser, once more\<close>

text \<open>Whenever a byte has a result, also after a parameter of \<open>SGR\<close> beyond 255.\<close>

lemma sgr_loop_wf: "sgr_loop be i t = Some t' \<Longrightarrow> flanterm_wf t \<Longrightarrow> flanterm_wf t'"
proof (induction "unat (esc_values_i t) - i" arbitrary: i t rule: less_induct)
  case less
  let ?n = "unat (esc_values_i t)"
  have step: "flanterm_wf t'"
    if "sgr_loop be j u = Some t'" "flanterm_wf u" "esc_values_i u = esc_values_i t" "i < ?n" "i < j" for j u
    by (rule less.hyps [OF _ that(1,2)]) (use that(3-5) in auto)
  have r: "esc_values_i (rgb_colour be f r g b t) = esc_values_i t" "flanterm_wf (rgb_colour be f r g b t)" for f r g b
    using less.prems(2) by (simp_all add: rgb_colour_def wf_simps)
  have p: "flanterm_wf u" if "palette_colour be f v t = Some u" for f v u
    using that less.prems(2) by (auto simp: palette_colour_def wf_simps split: if_splits)
  have vs: "flanterm_wf (sgr_value be v t)" for v using less.prems(2) by (simp add: wf_simps)
  from less.prems(1) show ?case
    unfolding sgr_loop.simps [of be i t] using less.prems(2)
    by (auto simp: Let_def split: if_splits option.splits elim!: step intro: r vs p palette_colour_params)
qed

lemma csi_command_wf: "flanterm_wf t \<Longrightarrow> csi_command be c x y t = Some t' \<Longrightarrow> flanterm_wf t'"
proof (cases "c = c_m")
  case True
  then show "flanterm_wf t \<Longrightarrow> csi_command be c x y t = Some t' \<Longrightarrow> flanterm_wf t'"
    by (auto simp: csi_command_def sgr_def wf_simps intro: sgr_loop_wf split: if_splits)
next
  case False
  then show "flanterm_wf t \<Longrightarrow> csi_command be c x y t = Some t' \<Longrightarrow> flanterm_wf t'"
    using csi_command_total [of t c be x y] by auto
qed

lemma csi_dispatch_wf:
  assumes "flanterm_wf t" and "csi_dispatch be c t = Some t'"
  shows "flanterm_wf t'"
  using assms csi_command_wf [of "(fill_defaults c t)\<lparr>scroll_enabled := False\<rparr>" be c]
  by (auto simp: csi_dispatch_def Let_def csi_cleanup_def wf_simps split: prod.splits if_splits)

lemma csi_parse_wf:
  assumes "flanterm_wf t" and "control_sequence_parse be c t = Some t'"
  shows "flanterm_wf t'"
proof (cases "c = c_m")
  case True
  have "flanterm_wf (t\<lparr>esc_values_i := esc_values_i t + 1, rrr := False\<rparr>)" if "rrr t"
  proof -
    have "esc_values_i t < 16" using that assms(1) by (simp add: flanterm_wf_def)
    then have "esc_values_i t + 1 \<le> 16" by (simp add: word_le_nat_alt word_less_nat_alt unat_word_ariths)
    then show ?thesis using assms(1) that by (simp add: flanterm_wf_def)
  qed
  with True assms show ?thesis
    by (auto simp: control_sequence_parse_def Let_def csi_cleanup_def wf_simps intro: csi_dispatch_wf split: if_splits)
next
  case False
  then show ?thesis using csi_parse_total [OF assms(1), of c be] assms(2) by auto
qed

lemma putchar_wf:
  assumes "flanterm_wf t" and "flanterm_putchar be c t = Some t'"
  shows "flanterm_wf t'"
proof (cases "c = c_m \<and> control_sequence t")
  case False
  then show ?thesis using putchar_total [OF assms(1), of c be] assms(2) by auto
next
  case True
  have p: "flanterm_wf u" if "flanterm_wf v" "control_sequence v" "put_byte be c v = Some u" for u v
  proof (cases "escape v \<and> \<not> osc v")
    case esc: True
    let ?v = "v\<lparr>escape_offset := escape_offset v + 1\<rparr>"
    have "control_sequence_parse be c ?v = Some u" "flanterm_wf ?v"
      using that esc True by (simp_all add: put_byte_def escape_parse_def wf_simps)
    then show ?thesis using csi_parse_wf by blast
  next
    case False
    then show ?thesis
      using that put_plain_total [OF that(1), of be c] select_charset_total [OF that(1), of c]
      by (auto simp: put_byte_def escape_parse_def utf8_start_def Let_def wf_simps split: if_splits)
  qed
  have pc: "flanterm_wf u" if "put_code_point be w = Some u" "flanterm_wf w" for u w
    using put_code_point_total [OF that(2), of be] that(1) by auto
  have "flanterm_wf (discard t)" using assms(1) by (simp add: discard_def flanterm_wf_def)
  moreover have "flanterm_wf u" if "utf8_continue be c t = Some u" for u
    using that assms(1) pc by (auto simp: utf8_continue_def Let_def wf_simps split: if_splits)
  ultimately show ?thesis using True assms p [of t t'] p [of "t\<lparr>unicode_remaining := 0\<rparr>" t']
    by (auto simp: flanterm_putchar_def wf_simps split: if_splits)
qed

section \<open>The contract\<close>

text \<open>What holds at every call: the scroll region ends inside the screen.\<close>

definition backend_ready :: "(u64 \<Rightarrow> u64 \<Rightarrow> 'b \<Rightarrow> bool) \<Rightarrow> 'b flanterm_context \<Rightarrow> bool" where
  "backend_ready I t \<longleftrightarrow> I (rows t) (cols t) (fb t) \<and> scroll_bottom_margin t \<noteq> 0 \<and> scroll_bottom_margin t \<le> rows t"

text \<open>The colours the terminal remembers are one of eight or none.\<close>

definition palette_ok :: "u64 \<Rightarrow> bool" where
  "palette_ok v \<longleftrightarrow> v = - 1 \<or> v < 8"

definition backend_safe :: "(u64 \<Rightarrow> u64 \<Rightarrow> 'b \<Rightarrow> bool) \<Rightarrow> 'b flanterm_context \<Rightarrow> bool" where
  "backend_safe I t \<longleftrightarrow> backend_ready I t \<and> palette_ok (current_primary t) \<and> palette_ok (current_bg t) \<and>
     palette_ok (saved_state_current_primary t) \<and> palette_ok (saved_state_current_bg t)"

named_theorems safe_rules \<open>steps that keep the contract\<close>

lemma safe_call:
  assumes "backend_safe I t" and "backend_ready I t \<Longrightarrow> I (rows t) (cols t) (f t)"
  shows "backend_safe I (call f t)"
  using assms by (simp add: backend_safe_def backend_ready_def call_def)

lemma safe_fields [simp]:
  "backend_safe I (t\<lparr>escape := b\<rparr>) = backend_safe I t" "backend_safe I (t\<lparr>control_sequence := b\<rparr>) = backend_safe I t"
  "backend_safe I (t\<lparr>csi := b\<rparr>) = backend_safe I t" "backend_safe I (t\<lparr>osc := b\<rparr>) = backend_safe I t"
  "backend_safe I (t\<lparr>osc_escape := b\<rparr>) = backend_safe I t" "backend_safe I (t\<lparr>discard_next := b\<rparr>) = backend_safe I t"
  "backend_safe I (t\<lparr>dec_private := b\<rparr>) = backend_safe I t" "backend_safe I (t\<lparr>cursor_enabled := b\<rparr>) = backend_safe I t"
  "backend_safe I (t\<lparr>insert_mode := b\<rparr>) = backend_safe I t" "backend_safe I (t\<lparr>scroll_enabled := b\<rparr>) = backend_safe I t"
  "backend_safe I (t\<lparr>rrr := b\<rparr>) = backend_safe I t" "backend_safe I (t\<lparr>bold := b\<rparr>) = backend_safe I t"
  "backend_safe I (t\<lparr>bg_bold := b\<rparr>) = backend_safe I t" "backend_safe I (t\<lparr>reverse_video := b\<rparr>) = backend_safe I t"
  "backend_safe I (t\<lparr>escape_offset := v\<rparr>) = backend_safe I t" "backend_safe I (t\<lparr>unicode_remaining := v\<rparr>) = backend_safe I t"
  "backend_safe I (t\<lparr>code_point := v\<rparr>) = backend_safe I t" "backend_safe I (t\<lparr>saved_cursor_x := v\<rparr>) = backend_safe I t"
  "backend_safe I (t\<lparr>saved_cursor_y := v\<rparr>) = backend_safe I t" "backend_safe I (t\<lparr>current_charset := v\<rparr>) = backend_safe I t"
  "backend_safe I (t\<lparr>esc_values_i := v\<rparr>) = backend_safe I t" "backend_safe I (t\<lparr>esc_values := vs\<rparr>) = backend_safe I t"
  "backend_safe I (t\<lparr>scroll_top_margin := v\<rparr>) = backend_safe I t" "backend_safe I (t\<lparr>g_select := g\<rparr>) = backend_safe I t"
  "backend_safe I (t\<lparr>charsets := gs\<rparr>) = backend_safe I t"
  "backend_safe I (set_esc k v t) = backend_safe I t"
  by (auto simp: backend_safe_def backend_ready_def set_esc_def palette_ok_def)

lemma palette_ok_simps [simp]: "palette_ok (- 1)" "v < 8 \<Longrightarrow> palette_ok v"
  by (simp_all add: palette_ok_def)

lemma safe_colours [safe_rules]:
  "backend_safe I t \<Longrightarrow> palette_ok v \<Longrightarrow> backend_safe I (t\<lparr>current_primary := v\<rparr>)"
  "backend_safe I t \<Longrightarrow> palette_ok v \<Longrightarrow> backend_safe I (t\<lparr>current_bg := v\<rparr>)"
  by (auto simp: backend_safe_def backend_ready_def)

lemma remembered_colour:
  "backend_safe I t \<Longrightarrow> current_primary t \<noteq> - 1 \<Longrightarrow> current_primary t < 8"
  "backend_safe I t \<Longrightarrow> current_bg t \<noteq> - 1 \<Longrightarrow> current_bg t < 8"
  by (auto simp: backend_safe_def palette_ok_def)

text \<open>A parameter in one of the four ranges gives an index below eight.\<close>

lemma ucast_diff_small:
  fixes v n :: u32
  assumes "n \<le> v" and "v \<le> n + 7" and "n \<le> 100"
  shows "(ucast v :: u64) - ucast n < 8"
proof -
  have n: "unat n \<le> 100" "unat (n + 7) = unat n + 7" using assms(3) by (simp_all add: word_le_nat_alt unat_word_ariths)
  have "unat n \<le> unat v" "unat v \<le> unat n + 7" using assms(1,2) n by (simp_all add: word_le_nat_alt)
  moreover have u: "unat (ucast w :: u64) = unat w" for w :: u32
    using unsigned_less [of w, where ?'a = nat] by (simp add: unsigned_ucast_eq take_bit_nat_eq_self)
  then have "unat (ucast v - ucast n :: u64) = unat v - unat n"
    using \<open>unat n \<le> unat v\<close> by (subst unat_sub) (simp_all add: word_le_nat_alt)
  ultimately show ?thesis by (simp add: word_less_nat_alt)
qed

lemma sgr_indices:
  fixes v :: u32
  shows "30 \<le> v \<Longrightarrow> v \<le> 37 \<Longrightarrow> (ucast v :: u64) - 30 < 8" "40 \<le> v \<Longrightarrow> v \<le> 47 \<Longrightarrow> (ucast v :: u64) - 40 < 8"
    "90 \<le> v \<Longrightarrow> v \<le> 97 \<Longrightarrow> (ucast v :: u64) - 90 < 8" "100 \<le> v \<Longrightarrow> v \<le> 107 \<Longrightarrow> (ucast v :: u64) - 100 < 8"
  using ucast_diff_small [of 30 v] ucast_diff_small [of 40 v] ucast_diff_small [of 90 v] ucast_diff_small [of 100 v] by simp_all

text \<open>What \<open>DECSTBM\<close> leaves, whichever way its checks go.\<close>

lemma csi_set_margins_shape:
  "\<exists>top bot. csi_set_margins be t = call (set_cursor_pos be 0 0) ((margin_params t)\<lparr>scroll_top_margin := top, scroll_bottom_margin := bot\<rparr>)"
proof -
  define c where "c = margin_params t"
  define top where "top = (if esc_values_i c > 0 then ucast (esc_values c ! 0 - 1) else 0 :: u64)"
  define bot where "bot = (if esc_values_i c > 1 then esc_value 1 c else rows c)"
  let ?c = "c\<lparr>scroll_top_margin := top, scroll_bottom_margin := bot\<rparr>"
  have "csi_set_margins be t = call (set_cursor_pos be 0 0)
     (if top \<ge> rows c \<or> bot > rows c \<or> top \<ge> bot - 1 then ?c\<lparr>scroll_top_margin := 0, scroll_bottom_margin := rows c\<rparr> else ?c)"
    unfolding csi_set_margins_def c_def [symmetric] top_def bot_def
    by (cases "esc_values_i c > 0"; cases "esc_values_i c > 1") (simp_all add: Let_def esc_value_def margins_commute)
  then have "csi_set_margins be t = call (set_cursor_pos be 0 0)
     (if top \<ge> rows c \<or> bot > rows c \<or> top \<ge> bot - 1 then c\<lparr>scroll_top_margin := 0, scroll_bottom_margin := rows c\<rparr> else ?c)"
    by simp
  then show ?thesis unfolding c_def by (cases "top \<ge> rows c \<or> bot > rows c \<or> top \<ge> bot - 1") (auto simp: c_def)
qed

lemma ucast_minus: "n \<le> v \<Longrightarrow> (ucast (v - n) :: u64) = ucast v - ucast n" for v n :: u32
proof -
  assume le: "n \<le> v"
  have u: "unat (ucast w :: u64) = unat w" for w :: u32
    using unsigned_less [of w, where ?'a = nat] by (simp add: unsigned_ucast_eq take_bit_nat_eq_self)
  have "unat (v - n) = unat v - unat n" using le by (rule unat_sub)
  moreover have "unat (ucast v - ucast n :: u64) = unat v - unat n"
    using le by (subst unat_sub) (simp_all add: u word_le_nat_alt)
  ultimately show ?thesis by (simp add: word_unat_eq_iff u)
qed

locale flanterm_backend =
  fixes be :: "'b backend" and I :: "u64 \<Rightarrow> u64 \<Rightarrow> 'b \<Rightarrow> bool"
  assumes putchar_ok: "backend_ready I t \<Longrightarrow> I (rows t) (cols t) (raw_putchar be b t)"
    and clear_ok: "backend_ready I t \<Longrightarrow> I (rows t) (cols t) (clear be mv t)"
    and set_cursor_ok: "backend_ready I t \<Longrightarrow> I (rows t) (cols t) (set_cursor_pos be x y t)"
    and fg_ok: "backend_ready I t \<Longrightarrow> v < 8 \<Longrightarrow> I (rows t) (cols t) (set_text_fg be v t)"
    and bg_ok: "backend_ready I t \<Longrightarrow> v < 8 \<Longrightarrow> I (rows t) (cols t) (set_text_bg be v t)"
    and fg_bright_ok: "backend_ready I t \<Longrightarrow> v < 8 \<Longrightarrow> I (rows t) (cols t) (set_text_fg_bright be v t)"
    and bg_bright_ok: "backend_ready I t \<Longrightarrow> v < 8 \<Longrightarrow> I (rows t) (cols t) (set_text_bg_bright be v t)"
    and fg_rgb_ok: "backend_ready I t \<Longrightarrow> I (rows t) (cols t) (set_text_fg_rgb be w t)"
    and bg_rgb_ok: "backend_ready I t \<Longrightarrow> I (rows t) (cols t) (set_text_bg_rgb be w t)"
    and fg_default_ok: "backend_ready I t \<Longrightarrow> I (rows t) (cols t) (set_text_fg_default be t)"
    and bg_default_ok: "backend_ready I t \<Longrightarrow> I (rows t) (cols t) (set_text_bg_default be t)"
    and fg_default_bright_ok: "backend_ready I t \<Longrightarrow> I (rows t) (cols t) (set_text_fg_default_bright be t)"
    and bg_default_bright_ok: "backend_ready I t \<Longrightarrow> I (rows t) (cols t) (set_text_bg_default_bright be t)"
    and move_ok: "backend_ready I t \<Longrightarrow> I (rows t) (cols t) (move_character be nx ny x y t)"
    and scroll_ok: "backend_ready I t \<Longrightarrow> I (rows t) (cols t) (scroll be t)"
    and revscroll_ok: "backend_ready I t \<Longrightarrow> I (rows t) (cols t) (revscroll be t)"
    and swap_ok: "backend_ready I t \<Longrightarrow> I (rows t) (cols t) (swap_palette be t)"
    and save_ok: "backend_ready I t \<Longrightarrow> I (rows t) (cols t) (backend_save_state be t)"
    and restore_ok: "backend_ready I t \<Longrightarrow> I (rows t) (cols t) (backend_restore_state be t)"
    and flush_ok: "backend_ready I t \<Longrightarrow> I (rows t) (cols t) (double_buffer_flush be t)"
    and callback_ok: "callback be = Some f \<Longrightarrow> backend_ready I t \<Longrightarrow> I (rows t) (cols t) (f k a arg n t)"
begin

lemmas contract = putchar_ok clear_ok set_cursor_ok fg_ok bg_ok fg_bright_ok bg_bright_ok fg_rgb_ok bg_rgb_ok
  fg_default_ok bg_default_ok fg_default_bright_ok bg_default_bright_ok move_ok scroll_ok revscroll_ok swap_ok
  save_ok restore_ok flush_ok

lemma calls [safe_rules]:
  "backend_safe I t \<Longrightarrow> backend_safe I (call (raw_putchar be b) t)"
  "backend_safe I t \<Longrightarrow> backend_safe I (call (clear be mv) t)"
  "backend_safe I t \<Longrightarrow> backend_safe I (call (set_cursor_pos be x y) t)"
  "backend_safe I t \<Longrightarrow> backend_safe I (call (set_text_fg_rgb be w) t)"
  "backend_safe I t \<Longrightarrow> backend_safe I (call (set_text_bg_rgb be w) t)"
  "backend_safe I t \<Longrightarrow> backend_safe I (call (set_text_fg_default be) t)"
  "backend_safe I t \<Longrightarrow> backend_safe I (call (set_text_bg_default be) t)"
  "backend_safe I t \<Longrightarrow> backend_safe I (call (set_text_fg_default_bright be) t)"
  "backend_safe I t \<Longrightarrow> backend_safe I (call (set_text_bg_default_bright be) t)"
  "backend_safe I t \<Longrightarrow> backend_safe I (call (move_character be nx ny x y) t)"
  "backend_safe I t \<Longrightarrow> backend_safe I (call (scroll be) t)"
  "backend_safe I t \<Longrightarrow> backend_safe I (call (revscroll be) t)"
  "backend_safe I t \<Longrightarrow> backend_safe I (call (swap_palette be) t)"
  "backend_safe I t \<Longrightarrow> backend_safe I (call (backend_save_state be) t)"
  "backend_safe I t \<Longrightarrow> backend_safe I (call (backend_restore_state be) t)"
  "backend_safe I t \<Longrightarrow> backend_safe I (call (double_buffer_flush be) t)"
  "backend_safe I t \<Longrightarrow> v < 8 \<Longrightarrow> backend_safe I (call (set_text_fg be v) t)"
  "backend_safe I t \<Longrightarrow> v < 8 \<Longrightarrow> backend_safe I (call (set_text_bg be v) t)"
  "backend_safe I t \<Longrightarrow> v < 8 \<Longrightarrow> backend_safe I (call (set_text_fg_bright be v) t)"
  "backend_safe I t \<Longrightarrow> v < 8 \<Longrightarrow> backend_safe I (call (set_text_bg_bright be v) t)"
  by (erule safe_call, simp add: contract)+

lemma calls_funpow [safe_rules]:
  "backend_safe I t \<Longrightarrow> backend_safe I ((call (scroll be) ^^ n) t)"
  "backend_safe I t \<Longrightarrow> backend_safe I ((call (revscroll be) ^^ n) t)"
  "backend_safe I t \<Longrightarrow> backend_safe I ((call (raw_putchar be b) ^^ n) t)"
  by (induction n) (simp_all add: safe_rules)

lemma notify_safe [safe_rules]: "backend_safe I t \<Longrightarrow> backend_safe I (notify be k a arg n t)"
  by (auto simp: notify_def intro!: safe_call callback_ok split: option.split)

lemma spaces_safe [safe_rules]: "backend_safe I t \<Longrightarrow> backend_safe I (put_spaces be n t)"
  by (simp add: put_spaces_def safe_rules)

lemma csi_cursor_safe [safe_rules]:
  "backend_safe I t \<Longrightarrow> backend_safe I (csi_up be x y t)" "backend_safe I t \<Longrightarrow> backend_safe I (csi_down be x y t)"
  "backend_safe I t \<Longrightarrow> backend_safe I (csi_position be t)"
  by (simp_all add: csi_up_def csi_down_def csi_position_def Let_def safe_rules)

lemma insert_lines_safe [safe_rules]: "backend_safe I t \<Longrightarrow> backend_safe I (csi_insert_lines be y t)"
  by (simp add: csi_insert_lines_def Let_def safe_rules)

lemma erase_row_safe: "backend_safe I t \<Longrightarrow> backend_safe I (snd (erase_row be x y yc xc t))"
proof (induction "unat (cols t - xc)" arbitrary: xc t rule: less_induct)
  case less
  have "backend_safe I (snd (erase_row be x y yc (xc + 1) (call (raw_putchar be c_space) t)))" if "xc < cols t"
    by (rule less.hyps) (use less.prems count_up [OF that] in \<open>simp_all add: safe_rules\<close>)
  then show ?case using less.prems by (subst erase_row.simps) (simp add: Let_def safe_rules)
qed

lemma erase_rows_safe [safe_rules]: "backend_safe I t \<Longrightarrow> backend_safe I (erase_rows be x y yc t)"
proof (induction "unat (rows t - yc)" arbitrary: yc t rule: less_induct)
  case less
  obtain b t' where e: "erase_row be x y yc 0 t = (b, t')" by force
  then have s: "backend_safe I t'" and r: "rows t' = rows t"
    using erase_row_safe [OF less.prems, of x y yc 0] erase_row_frame(1) [of be x y yc 0 t] by simp_all
  have "backend_safe I (erase_rows be x y (yc + 1) t')" if "yc < rows t"
    by (rule less.hyps [OF _ s]) (use count_up [OF that] r in simp)
  then show ?case using less.prems s e by (subst erase_rows.simps) simp
qed

lemma erase_display_safe [safe_rules]: "backend_safe I t \<Longrightarrow> backend_safe I (csi_erase_display be x y t)"
  by (simp add: csi_erase_display_def Let_def safe_rules)

lemma csi_insert_safe [safe_rules]: "backend_safe I t \<Longrightarrow> backend_safe I (csi_insert_loop be x y i t)"
proof (induction "unat (i - x)" arbitrary: i t rule: less_induct)
  case less
  have "backend_safe I (csi_insert_loop be x y (i - 1) t')" if "i \<noteq> x" "backend_safe I t'" for t'
    by (rule less.hyps [OF count_down [OF that(1)] that(2)])
  then show ?case using less.prems by (subst csi_insert_loop.simps) (simp add: Let_def safe_rules)
qed

lemma insert_mode_safe [safe_rules]: "backend_safe I t \<Longrightarrow> backend_safe I (insert_mode_loop be x y i t)"
proof (induction "unat (i - x)" arbitrary: i t rule: less_induct)
  case less
  have "backend_safe I (insert_mode_loop be x y (i - 1) t')" if "i \<noteq> x" "backend_safe I t'" for t'
    by (rule less.hyps [OF count_down [OF that(1)] that(2)])
  then show ?case using less.prems by (subst insert_mode_loop.simps) (simp add: Let_def safe_rules)
qed

lemma csi_delete_safe [safe_rules]: "backend_safe I t \<Longrightarrow> backend_safe I (csi_delete_loop be y i t)"
proof (induction "unat (cols t - i)" arbitrary: i t rule: less_induct)
  case less
  let ?t = "call (move_character be (i - esc_value 0 t) y i y) t"
  have "backend_safe I (csi_delete_loop be y (i + 1) ?t)" if "i < cols t"
    by (rule less.hyps) (use less.prems count_up [OF that] in \<open>simp_all add: safe_rules\<close>)
  then show ?case using less.prems by (subst csi_delete_loop.simps) simp
qed

lemma csi_erase_safe [safe_rules]:
  "backend_safe I t \<Longrightarrow> backend_safe I (csi_erase_chars be x y t)"
  "backend_safe I t \<Longrightarrow> backend_safe I (csi_delete_chars be x y t)"
  "backend_safe I t \<Longrightarrow> backend_safe I (csi_erase_line be x y t)"
  by (simp_all add: csi_erase_chars_def csi_delete_chars_def csi_erase_line_def Let_def safe_rules)

text \<open>\<open>DECSTBM\<close>, whose margins are checked by the terminal.\<close>

lemma set_margins_safe:
  assumes "flanterm_wf t" and "backend_safe I t"
  shows "backend_safe I (csi_set_margins be t)"
proof -
  let ?m = "margin_params t"
  have m: "backend_safe I ?m" using assms(2) by (simp add: margin_params_def Let_def)
  obtain top bot where eq: "csi_set_margins be t = call (set_cursor_pos be 0 0) (?m\<lparr>scroll_top_margin := top, scroll_bottom_margin := bot\<rparr>)"
    using csi_set_margins_shape [of be t] by blast
  have "flanterm_wf (?m\<lparr>scroll_top_margin := top, scroll_bottom_margin := bot\<rparr>)"
    using wf_set_margins [OF assms(1), of be] unfolding eq by (simp add: wf_simps)
  then have "bot \<noteq> 0" "bot \<le> rows ?m" by (auto simp: flanterm_wf_def)
  then have "backend_safe I (?m\<lparr>scroll_top_margin := top, scroll_bottom_margin := bot\<rparr>)"
    using m by (simp add: backend_safe_def backend_ready_def)
  then show ?thesis unfolding eq by (rule calls)
qed

text \<open>Colours.\<close>

lemma set_colour_safe [safe_rules]:
  "backend_safe I t \<Longrightarrow> v < 8 \<Longrightarrow> backend_safe I (set_fg be v t)" "backend_safe I t \<Longrightarrow> v < 8 \<Longrightarrow> backend_safe I (set_bg be v t)"
  "backend_safe I t \<Longrightarrow> backend_safe I (rgb_colour be fg r g b t)" "backend_safe I t \<Longrightarrow> backend_safe I (sgr_default be t)"
  by (simp_all add: set_fg_def set_bg_def rgb_colour_def sgr_default_def Let_def safe_rules)

lemmas remembered = remembered_colour [where I = I]

lemma sgr_value_safe [safe_rules]:
  assumes "backend_safe I t"
  shows "backend_safe I (sgr_value be v t)"
  using assms remembered [OF assms]
  by (simp add: sgr_value_def Let_def sgr_indices safe_rules)

lemma palette_colour_safe:
  assumes "backend_safe I t" and "palette_colour be f v t = Some t'"
  shows "backend_safe I t'"
proof -
  consider "v < 8" | "8 \<le> v" "v < 16" | "8 \<le> v" "\<not> v < 16" by fastforce
  then show ?thesis
  proof cases
    case 1
    then have "(ucast v :: u64) < 8" using ucast_diff_small [of 0 v] by (simp add: word_le_nat_alt word_less_nat_alt)
    with assms 1 show ?thesis by (auto simp: palette_colour_def intro!: safe_rules)
  next
    case 2
    have "v \<le> 8 + 7" using 2(2) by (simp add: word_less_nat_alt word_le_nat_alt)
    then have "(ucast v :: u64) - ucast (8 :: u32) < 8" using ucast_diff_small [of 8 v] 2(1) by simp
    moreover have "(ucast (v - 8) :: u64) = ucast v - ucast (8 :: u32)" by (rule ucast_minus [OF 2(1)])
    ultimately have "(ucast (v - 8) :: u64) < 8" by simp
    moreover have "\<not> v < 8" using 2(1) by simp
    ultimately show ?thesis using assms 2(2) by (auto simp: palette_colour_def intro!: safe_rules)
  next
    case 3
    then have n: "(v < 8) = False" "(v < 16) = False" by auto
    from assms(2) obtain rgb where "t' = call ((if f then set_text_fg_rgb be else set_text_bg_rgb be) rgb) t"
      unfolding palette_colour_def n if_False by blast
    with assms(1) show ?thesis by (simp add: safe_rules)
  qed
qed

lemma sgr_loop_safe: "sgr_loop be i t = Some t' \<Longrightarrow> backend_safe I t \<Longrightarrow> backend_safe I t'"
proof (induction "unat (esc_values_i t) - i" arbitrary: i t rule: less_induct)
  case less
  let ?n = "unat (esc_values_i t)"
  have step: "backend_safe I t'"
    if "sgr_loop be j u = Some t'" "backend_safe I u" "esc_values_i u = esc_values_i t" "i < ?n" "i < j" for j u
    by (rule less.hyps [OF _ that(1,2)]) (use that(3-5) in auto)
  have r: "esc_values_i (rgb_colour be f r g b t) = esc_values_i t" for f r g b by (simp add: rgb_colour_def)
  have rs: "backend_safe I (rgb_colour be f r g b t)" for f r g b by (rule safe_rules) (rule less.prems(2))
  have vs: "backend_safe I (sgr_value be v t)" for v by (rule safe_rules) (rule less.prems(2))
  from less.prems(1) show ?case
    unfolding sgr_loop.simps [of be i t]
    using less.prems(2)
    by (auto simp: Let_def split: if_splits option.splits
        elim!: step intro: r rs vs palette_colour_safe palette_colour_params)
qed

lemma sgr_safe: "backend_safe I t \<Longrightarrow> sgr be t = Some t' \<Longrightarrow> backend_safe I t'"
  by (auto simp: sgr_def safe_rules intro: sgr_loop_safe split: if_splits)

text \<open>A control sequence.\<close>

lemma csi_command_safe:
  assumes "backend_safe I t" and "flanterm_wf t" and "csi_command be c x y t = Some t'"
  shows "backend_safe I t'"
proof (cases "c = c_m")
  case True
  with assms(1,3) show ?thesis by (simp add: csi_command_def sgr_safe)
next
  case False
  have m: "backend_safe I (csi_set_margins be t)" by (rule set_margins_safe [OF assms(2,1)])
  let ?g = "csi_command be c x y t"
  have "case ?g of None \<Rightarrow> True | Some u \<Rightarrow> backend_safe I u"
    using False assms(1) m
    by (simp add: csi_command_def Let_def mode_toggle_def linux_private_parse_def safe_rules split: prod.split)
  with assms(3) show ?thesis by simp
qed

lemma fill_defaults_safe [simp]: "backend_safe I (fill_defaults c t) = backend_safe I t"
  by (simp add: fill_defaults_def Let_def)

lemma csi_dispatch_safe:
  assumes "backend_safe I t" and "flanterm_wf t" and "csi_dispatch be c t = Some t'"
  shows "backend_safe I t'"
  using assms csi_command_safe [of "(fill_defaults c t)\<lparr>scroll_enabled := False\<rparr>" c]
  by (auto simp: csi_dispatch_def Let_def csi_cleanup_def dec_private_parse_def wf_simps safe_rules split: prod.splits if_splits)

lemma csi_parse_safe:
  assumes "backend_safe I t" and "flanterm_wf t" and "control_sequence_parse be c t = Some t'"
  shows "backend_safe I t'"
proof -
  have "flanterm_wf (t\<lparr>esc_values_i := esc_values_i t + 1, rrr := False\<rparr>)" if "rrr t"
  proof -
    have "esc_values_i t < 16" using that assms(2) by (simp add: flanterm_wf_def)
    then have "esc_values_i t + 1 \<le> 16" by (simp add: word_le_nat_alt word_less_nat_alt unat_word_ariths)
    then show ?thesis using assms(2) that by (simp add: flanterm_wf_def)
  qed
  then show ?thesis
    using assms csi_dispatch_safe [of t c t'] csi_dispatch_safe [of "t\<lparr>esc_values_i := esc_values_i t + 1, rrr := False\<rparr>" c t']
    by (auto simp: control_sequence_parse_def csi_cleanup_def csi_digit_def Let_def split: if_splits option.splits)
qed

text \<open>One byte.\<close>

lemma restore_safe [safe_rules]: "backend_safe I t \<Longrightarrow> backend_safe I (restore_state be t)"
  unfolding restore_state_def by (rule calls) (simp add: backend_safe_def backend_ready_def)

lemma save_safe [safe_rules]: "backend_safe I t \<Longrightarrow> backend_safe I (save_state be t)"
proof -
  assume "backend_safe I t"
  then have "backend_safe I (call (backend_save_state be) t)" by (rule calls)
  then show ?thesis by (simp add: save_state_def Let_def backend_safe_def backend_ready_def)
qed

lemma reinit_safe: "backend_safe I t \<Longrightarrow> rows t \<noteq> 0 \<Longrightarrow> backend_safe I (flanterm_context_reinit t)"
  by (simp add: flanterm_context_reinit_def backend_safe_def backend_ready_def)

lemma escape_command_safe:
  "backend_safe I t \<Longrightarrow> flanterm_wf t \<Longrightarrow> backend_safe I (escape_command be c x y t)"
proof -
  assume s: "backend_safe I t" and wf: "flanterm_wf t"
  have "rows t \<noteq> 0" using wf by (auto simp: flanterm_wf_def)
  with s have "backend_safe I (flanterm_context_reinit t)" by (rule reinit_safe)
  with s show ?thesis by (simp add: escape_command_def safe_rules)
qed

lemma escape_parse_safe:
  assumes "backend_safe I t" and "flanterm_wf t" and "escape_parse be c t = Some t'"
  shows "backend_safe I t'"
proof -
  let ?t = "t\<lparr>escape_offset := escape_offset t + 1\<rparr>"
  have s: "backend_safe I ?t" "flanterm_wf ?t" using assms(1,2) by (simp_all add: wf_simps)
  show ?thesis using assms(3) s csi_parse_safe [OF s] escape_command_safe [OF s]
    by (auto simp: escape_parse_def Let_def osc_parse_def enter_csi_def split: if_splits prod.splits)
qed

lemma put_graphic_safe:
  assumes "backend_safe I t" and "put_graphic be c x y t = Some t'"
  shows "backend_safe I t'"
proof -
  let ?t = "if insert_mode t then insert_mode_loop be x y (cols t - 1) t else t"
  have s: "backend_safe I ?t" using assms(1) by (simp add: safe_rules)
  moreover have "backend_safe I (snd (dec_special_print be c u))" if "backend_safe I u" for u
    using that by (simp add: dec_special_print_def safe_rules split: option.split)
  ultimately have "backend_safe I (snd (dec_special_print be c ?t))" by blast
  with assms(2) s show ?thesis
    unfolding put_graphic_def Let_def by (auto simp: safe_rules split: option.splits prod.splits if_splits)
qed

lemma put_plain_safe:
  assumes "backend_safe I t" and "put_plain be c t = Some t'"
  shows "backend_safe I t'"
proof -
  obtain x y where xy: "get_cursor_pos be t = (x, y)" by force
  have g: "put_graphic be c x y t = Some u \<Longrightarrow> backend_safe I u" for u using put_graphic_safe [OF assms(1)] by blast
  have "case put_plain be c t of None \<Rightarrow> True | Some u \<Rightarrow> backend_safe I u"
    using assms(1) g by (simp add: put_plain_def xy tabulate_def newline_def Let_def safe_rules split: option.split)
  with assms(2) show ?thesis by simp
qed

lemma put_byte_safe:
  assumes "backend_safe I t" and "flanterm_wf t" and "put_byte be c t = Some t'"
  shows "backend_safe I t'"
  using assms escape_parse_safe [OF assms(1,2)] put_plain_safe [OF assms(1)]
  by (auto simp: put_byte_def utf8_start_def select_charset_def Let_def split: if_splits option.splits)

lemma put_code_point_safe: "backend_safe I t \<Longrightarrow> put_code_point be t = Some t' \<Longrightarrow> backend_safe I t'"
  by (auto simp: put_code_point_def Let_def safe_rules split: if_splits)

theorem putchar_safe:
  assumes "backend_safe I t" and "flanterm_wf t" and "flanterm_putchar be c t = Some t'"
  shows "backend_safe I t'"
proof -
  let ?z = "t\<lparr>unicode_remaining := 0\<rparr>"
  have z: "backend_safe I ?z" "flanterm_wf ?z" using assms(1,2) by (simp_all add: wf_simps)
  have d: "backend_safe I (discard t)" using assms(1) by (simp add: discard_def)
  have u: "utf8_continue be c t = Some t' \<Longrightarrow> backend_safe I t'"
    using assms(1) by (auto simp: utf8_continue_def Let_def split: if_splits intro: put_code_point_safe [rotated])
  show ?thesis using assms(3) d u put_byte_safe [OF z] put_byte_safe [OF assms(1,2)]
    by (auto simp: flanterm_putchar_def split: if_splits)
qed

lemma putchars_safe:
  "backend_safe I t \<Longrightarrow> flanterm_wf t \<Longrightarrow> flanterm_putchars be cs t = Some t' \<Longrightarrow> backend_safe I t' \<and> flanterm_wf t'"
proof (induction cs arbitrary: t)
  case (Cons c cs)
  then obtain u where u: "flanterm_putchar be c t = Some u" "flanterm_putchars be cs u = Some t'"
    by (auto simp: Option.bind_eq_Some_conv)
  then show ?case
    using Cons.IH [OF putchar_safe [OF Cons.prems(1,2) u(1)] putchar_wf [OF Cons.prems(2) u(1)] u(2)] by simp
qed simp

theorem write_safe:
  assumes "backend_safe I t" and "flanterm_wf t" and "flanterm_write be buf t = Some t'"
  shows "backend_safe I t'" and "flanterm_wf t'"
  using assms putchars_safe [OF assms(1,2)] by (auto simp: flanterm_write_def wf_simps safe_rules)

end

end
