(* ===== verification/Utf8.thy ===== *)
theory Utf8
  imports Prelude
begin

text \<open>
  UTF-8 as the standard has it, and the word lemmas its decoders need.  The program has two: the
  terminal's, a byte at a time, and the font library's, on a pointer.
\<close>

text \<open>The encoding of a code point beyond ASCII, as the standard has it.\<close>

definition utf8_tail :: "u64 \<Rightarrow> u8" where
  "utf8_tail x = 0x80 OR (ucast x AND 0x3f)"

definition utf8_encode :: "u64 \<Rightarrow> u8 list" where
  "utf8_encode cp =
     (if cp < 0x800 then [0xc0 OR (ucast (drop_bit 6 cp) AND 0x1f), utf8_tail cp]
      else if cp < 0x10000 then
        [0xe0 OR (ucast (drop_bit 12 cp) AND 0x0f), utf8_tail (drop_bit 6 cp), utf8_tail cp]
      else [0xf0 OR (ucast (drop_bit 18 cp) AND 0x07), utf8_tail (drop_bit 12 cp),
            utf8_tail (drop_bit 6 cp), utf8_tail cp])"

lemma tail_masks: "utf8_tail x AND 0xc0 = 0x80" "utf8_tail x AND 0x3f = ucast x AND 0x3f"
  by (simp_all add: utf8_tail_def bit.conj_disj_distrib2 and.assoc)

lemma tail_not_control: "utf8_tail x \<noteq> 0x18" "utf8_tail x \<noteq> 0x1a"
  using tail_masks(1) [of x] by auto

lemma masked_le: "(w :: u8) AND m = w \<Longrightarrow> w \<le> m"
  by (metis word_and_le1)

lemma lead_bounds:
  "(0xc0 :: u8) \<le> 0xc0 OR (z AND 0x1f)" "(0xc0 :: u8) OR (z AND 0x1f) \<le> 0xdf"
  "(0xe0 :: u8) \<le> 0xe0 OR (z AND 0x0f)" "(0xe0 :: u8) OR (z AND 0x0f) \<le> 0xef"
  "(0xf0 :: u8) \<le> 0xf0 OR (z AND 0x07)" "(0xf0 :: u8) OR (z AND 0x07) \<le> 0xf7"
  by (auto intro!: le_word_or1 masked_le simp: bit.conj_disj_distrib2 and.assoc)

lemma lead_ge: "(0xc0 :: u8) \<le> 0xe0 OR (z AND 0x0f)" "(0xc0 :: u8) \<le> 0xf0 OR (z AND 0x07)"
  by (rule order_trans [OF _ lead_bounds(3)], simp) (rule order_trans [OF _ lead_bounds(5)], simp)

lemma lead_masks:
  "((0xc0 :: u8) OR (z AND 0x1f)) AND 0x1f = z AND 0x1f"
  "((0xe0 :: u8) OR (z AND 0x0f)) AND 0x0f = z AND 0x0f"
  "((0xf0 :: u8) OR (z AND 0x07)) AND 0x07 = z AND 0x07"
  by (simp_all add: bit.conj_disj_distrib2 and.assoc)

lemma ucast_low: "ucast ((ucast (x :: u64) :: u8) AND m) = x AND ucast m"
  using bit_imp_le_length [of m] by (intro bit_word_eqI) (auto simp: bit_simps)

lemma mask_numerals: "(0x3f :: u64) = mask 6" "(0x1f :: u64) = mask 5" "(0x0f :: u64) = mask 4" "(0x07 :: u64) = mask 3"
  by (simp_all add: mask_eq_exp_minus_1)

lemma bit_bound:
  fixes x :: "'a::len word"
  assumes "x < 2 ^ n" and "bit x k"
  shows "k < n"
proof -
  have "x = take_bit n x" using assms(1) by (metis less_mask_eq take_bit_eq_mask)
  with assms(2) show ?thesis by (metis bit_take_bit_iff)
qed

lemma joins:
  "cp < 2 ^ 11 \<Longrightarrow> push_bit 6 (drop_bit 6 cp AND mask 5) OR (cp AND mask 6) = (cp :: u64)"
  "cp < 2 ^ 16 \<Longrightarrow> push_bit 12 (drop_bit 12 cp AND mask 4) OR push_bit 6 (drop_bit 6 cp AND mask 6) OR (cp AND mask 6) = (cp :: u64)"
  "cp < 2 ^ 21 \<Longrightarrow> push_bit 18 (drop_bit 18 cp AND mask 3) OR push_bit 12 (drop_bit 12 cp AND mask 6) OR
     push_bit 6 (drop_bit 6 cp AND mask 6) OR (cp AND mask 6) = (cp :: u64)"
proof -
  show "push_bit 6 (drop_bit 6 cp AND mask 5) OR (cp AND mask 6) = cp" if "cp < 2 ^ 11"
  proof (rule bit_word_eqI)
    fix n show "bit (push_bit 6 (drop_bit 6 cp AND mask 5) OR (cp AND mask 6)) n = bit cp n" if "n < LENGTH(64)"
      using bit_bound [OF \<open>cp < 2 ^ 11\<close>, of n] that by (cases "n < 6") (auto simp: bit_simps)
  qed
  show "push_bit 12 (drop_bit 12 cp AND mask 4) OR push_bit 6 (drop_bit 6 cp AND mask 6) OR (cp AND mask 6) = cp"
    if "cp < 2 ^ 16"
  proof (rule bit_word_eqI)
    fix n show "bit (push_bit 12 (drop_bit 12 cp AND mask 4) OR push_bit 6 (drop_bit 6 cp AND mask 6) OR (cp AND mask 6)) n = bit cp n"
      if "n < LENGTH(64)"
      using bit_bound [OF \<open>cp < 2 ^ 16\<close>, of n] that by (cases "n < 6"; cases "n < 12") (auto simp: bit_simps)
  qed
  show "push_bit 18 (drop_bit 18 cp AND mask 3) OR push_bit 12 (drop_bit 12 cp AND mask 6) OR
     push_bit 6 (drop_bit 6 cp AND mask 6) OR (cp AND mask 6) = cp" if "cp < 2 ^ 21"
  proof (rule bit_word_eqI)
    fix n show "bit (push_bit 18 (drop_bit 18 cp AND mask 3) OR push_bit 12 (drop_bit 12 cp AND mask 6) OR
        push_bit 6 (drop_bit 6 cp AND mask 6) OR (cp AND mask 6)) n = bit cp n" if "n < LENGTH(64)"
      using bit_bound [OF \<open>cp < 2 ^ 21\<close>, of n] that
      by (cases "n < 6"; cases "n < 12"; cases "n < 18") (auto simp: bit_simps)
  qed
qed

lemma utf8_tail_value: "(ucast (utf8_tail x AND 0x3f) :: u64) = x AND mask 6"
  unfolding tail_masks(2) by (simp add: ucast_low mask_numerals(1) [symmetric])

end
