(* ===== verification/Flanterm_Text.thy ===== *)
theory Flanterm_Text
  imports Flanterm_Safe Utf8
begin

text \<open>
  What sequences of bytes do: UTF-8, the recovery of the parser by CAN and SUB, cursor
  positioning with decimal parameters, and operating system commands.
\<close>

lemma putchars_nil [simp]: "flanterm_putchars be [] = Some"
  by (rule ext) simp

lemma putchars_append:
  "flanterm_putchars be (cs @ ds) ctx = Option.bind (flanterm_putchars be cs ctx) (flanterm_putchars be ds)"
  by (induction cs arbitrary: ctx) (simp_all split: bind_split)

section \<open>UTF-8\<close>

lemma start_step:
  assumes "\<not> discard_next ctx" and "unicode_remaining ctx = 0" and "0xc0 \<le> c" and "c \<le> 0xf7"
  shows "flanterm_putchar be c ctx = Some (utf8_start c ctx)"
proof -
  have "c \<noteq> 0x18" "c \<noteq> 0x1a" using assms(3) by auto
  with assms show ?thesis by (simp add: flanterm_putchar_def put_byte_def)
qed

lemma tail_step:
  assumes "\<not> discard_next ctx" and "unicode_remaining ctx \<noteq> 0"
  shows "flanterm_putchar be (utf8_tail x) ctx = utf8_continue be (utf8_tail x) ctx"
  using assms tail_masks(1) [of x] tail_not_control [of x] by (simp add: flanterm_putchar_def)

lemma utf8_start_values:
  "utf8_start (0xc0 OR (ucast x AND 0x1f)) ctx = ctx\<lparr>unicode_remaining := 1, code_point := push_bit 6 (x AND mask 5)\<rparr>"
  "utf8_start (0xe0 OR (ucast x AND 0x0f)) ctx = ctx\<lparr>unicode_remaining := 2, code_point := push_bit 12 (x AND mask 4)\<rparr>"
  "utf8_start (0xf0 OR (ucast x AND 0x07)) ctx = ctx\<lparr>unicode_remaining := 3, code_point := push_bit 18 (x AND mask 3)\<rparr>"
  for x :: u64
proof -
  have n: "\<not> 0xe0 \<le> (y :: u8)" if "y \<le> 0xdf" for y using that by (auto simp: word_le_nat_alt)
  have m: "\<not> y \<le> 0xdf" if "0xe0 \<le> (y :: u8)" for y using that by (auto simp: word_le_nat_alt)
  have k: "\<not> y \<le> 0xef" "\<not> y \<le> 0xdf" if "0xf0 \<le> (y :: u8)" for y using that by (auto simp: word_le_nat_alt)
  show "utf8_start (0xc0 OR (ucast x AND 0x1f)) ctx = ctx\<lparr>unicode_remaining := 1, code_point := push_bit 6 (x AND mask 5)\<rparr>"
    using lead_bounds(1,2) [of "ucast x"]
    by (simp add: utf8_start_def lead_masks ucast_low mask_numerals(2) [symmetric])
  show "utf8_start (0xe0 OR (ucast x AND 0x0f)) ctx = ctx\<lparr>unicode_remaining := 2, code_point := push_bit 12 (x AND mask 4)\<rparr>"
    using lead_bounds(3,4) [of "ucast x"] m [of "0xe0 OR (ucast x AND 0x0f)"]
    by (simp add: utf8_start_def lead_masks ucast_low mask_numerals(3) [symmetric])
  show "utf8_start (0xf0 OR (ucast x AND 0x07)) ctx = ctx\<lparr>unicode_remaining := 3, code_point := push_bit 18 (x AND mask 3)\<rparr>"
    using lead_bounds(5,6) [of "ucast x"] k [of "0xf0 OR (ucast x AND 0x07)"]
    by (simp add: utf8_start_def lead_masks ucast_low mask_numerals(4) [symmetric])
qed

lemma tail_more:
  assumes "\<not> discard_next ctx"
  shows "flanterm_putchar be (utf8_tail x) (ctx\<lparr>unicode_remaining := 3, code_point := v\<rparr>) =
      Some (ctx\<lparr>unicode_remaining := 2, code_point := v OR push_bit 12 (x AND mask 6)\<rparr>)"
    and "flanterm_putchar be (utf8_tail x) (ctx\<lparr>unicode_remaining := 2, code_point := v\<rparr>) =
      Some (ctx\<lparr>unicode_remaining := 1, code_point := v OR push_bit 6 (x AND mask 6)\<rparr>)"
    and "flanterm_putchar be (utf8_tail x) (ctx\<lparr>unicode_remaining := 1, code_point := v\<rparr>) =
      put_code_point be (ctx\<lparr>unicode_remaining := 0, code_point := v OR (x AND mask 6)\<rparr>)"
  using assms by (simp_all add: tail_step utf8_continue_def utf8_tail_value)

text \<open>
  C27 UTF-8 is decoded right: in any state of the parser that is not in the middle of a character or
  discarding, the bytes of the encoding of a code point from \<open>0x80\<close> to \<open>0x1fffff\<close> end with that
  code point drawn.  (Any state: the bytes are drawn even inside an escape sequence or an
  operating system command, which they do not end.)
\<close>

theorem utf8_decodes:
  assumes "0x80 \<le> cp" and "cp < 0x200000" and "\<not> discard_next ctx" and "unicode_remaining ctx = 0"
  shows "flanterm_putchars be (utf8_encode cp) ctx = put_code_point be (ctx\<lparr>unicode_remaining := 0, code_point := cp\<rparr>)"
proof -
  have lead: "flanterm_putchar be (0xc0 OR (ucast x AND 0x1f)) ctx = Some (utf8_start (0xc0 OR (ucast x AND 0x1f)) ctx)"
    "flanterm_putchar be (0xe0 OR (ucast x AND 0x0f)) ctx = Some (utf8_start (0xe0 OR (ucast x AND 0x0f)) ctx)"
    "flanterm_putchar be (0xf0 OR (ucast x AND 0x07)) ctx = Some (utf8_start (0xf0 OR (ucast x AND 0x07)) ctx)" for x :: u64
    using lead_bounds [of "ucast x"] lead_ge [of "ucast x"] by (auto intro!: start_step [OF assms(3,4)] elim: order_trans)
  consider "cp < 2 ^ 11" | "\<not> cp < 2 ^ 11" "cp < 2 ^ 16" | "\<not> cp < 2 ^ 11" "\<not> cp < 2 ^ 16" by blast
  then show ?thesis
  proof cases
    case 1
    then show ?thesis using joins(1) [OF 1]
      by (simp add: utf8_encode_def lead utf8_start_values tail_more [OF assms(3)] or.assoc)
  next
    case 2
    then show ?thesis using joins(2) [OF 2(2)]
      by (simp add: utf8_encode_def lead utf8_start_values tail_more [OF assms(3)] or.assoc)
  next
    case 3
    then show ?thesis using joins(3) [of cp] assms(2)
      by (simp add: utf8_encode_def lead utf8_start_values tail_more [OF assms(3)] or.assoc)
  qed
qed

theorem utf8_decodes_witness:
  "map_option (\<lambda>c. drawn (fb c)) (flanterm_putchars tty_backend [0xc3, 0xa9] tty_ctx) = Some [130]"
proof -
  have "flanterm_putchars tty_backend (utf8_encode 0xe9) tty_ctx =
      put_code_point tty_backend (tty_ctx\<lparr>unicode_remaining := 0, code_point := 0xe9\<rparr>)"
    by (rule utf8_decodes) (simp_all add: tty_ctx_def flanterm_context_reinit_def)
  moreover have "unicode_to_cp437 0xe9 = 130" by (simp add: unicode_to_cp437_def cp437_cases_def)
  moreover have "utf8_encode 0xe9 = [0xc3, 0xa9]" by (simp add: utf8_encode_def utf8_tail_def)
  ultimately show ?thesis
    by (simp add: put_code_point_def call_def tty_backend_def tty_ctx_def flanterm_context_reinit_def)
qed

section \<open>Recovery\<close>

text \<open>
  CAN and SUB always recover the parser: after \<open>0x18\<close> or \<open>0x1a\<close>, in any state whatsoever, no
  sequence, command or character is pending, nothing has been drawn, and the next printable
  character is drawn as itself.
\<close>

theorem cancel_recovers:
  assumes "k = 0x18 \<or> k = 0x1a" and "flanterm_wf ctx"
    and "charsets ctx ! unat (current_charset ctx) = CHARSET_DEFAULT" and "\<not> insert_mode ctx"
    and "0x20 \<le> c" and "c \<le> 0x7e"
  shows "flanterm_putchars be [k, c] ctx = Some (call (raw_putchar be c) (discard ctx)) \<and> fb (discard ctx) = fb ctx"
proof -
  let ?d = "discard ctx"
  have wf: "flanterm_wf ?d" using assms(2) by (simp add: discard_def flanterm_wf_def)
  have c: "c \<notin> {0x00, 0x7f, 0x9b, 0x1b, 0x09, 0x0b, 0x0c, 0x0a, 0x08, 0x0d, 0x07, 14, 15, 0x18, 0x1a}" "\<not> 0xc0 \<le> c"
    using assms(5,6) by (auto simp: word_le_nat_alt)
  have "flanterm_putchar be k ctx = Some ?d" using assms(1) by (auto simp: flanterm_putchar_def)
  moreover have "flanterm_putchar be c ?d = put_plain be c ?d"
    using c by (simp add: flanterm_putchar_def put_byte_def discard_def)
  moreover have "put_plain be c ?d = put_graphic be c (fst (get_cursor_pos be ?d)) (snd (get_cursor_pos be ?d)) ?d"
    using c by (simp add: put_plain_def split: prod.split)
  moreover have "put_graphic be c x y ?d = Some (call (raw_putchar be c) ?d)" for x y
    using charset_in [OF wf] assms(3-6)
    by (simp add: put_graphic_def discard_def CHARSET_DEFAULT_def CHARSET_DEC_SPECIAL_def)
  ultimately show ?thesis by (simp add: discard_def)
qed

theorem cancel_recovers_witness:
  "flanterm_putchars tty_backend [0x18, 0x41] (tty_ctx\<lparr>escape := True, osc := True\<rparr>)
     = Some (call (raw_putchar tty_backend 0x41) (discard (tty_ctx\<lparr>escape := True, osc := True\<rparr>)))"
  by (rule cancel_recovers [THEN conjunct1])
    (use tty_ctx_wf in \<open>simp_all add: wf_simps, simp_all add: tty_ctx_def flanterm_context_reinit_def\<close>)

section \<open>Sequences\<close>

text \<open>The parser at rest.\<close>

definition ground :: "'b flanterm_context \<Rightarrow> bool" where
  "ground ctx \<longleftrightarrow> \<not> discard_next ctx \<and> unicode_remaining ctx = 0 \<and> \<not> escape ctx \<and> g_select ctx = 0 \<and>
     \<not> osc ctx \<and> \<not> control_sequence ctx \<and> \<not> csi ctx \<and> \<not> dec_private ctx"

definition plain_byte :: "u8 \<Rightarrow> bool" where
  "plain_byte c \<longleftrightarrow> c \<noteq> 0x18 \<and> c \<noteq> 0x1a \<and> \<not> (0xc0 \<le> c \<and> c \<le> 0xf7)"

lemma putchar_escape:
  assumes "\<not> discard_next ctx" "unicode_remaining ctx = 0" "escape ctx" "plain_byte c"
  shows "flanterm_putchar be c ctx = escape_parse be c ctx"
  using assms by (auto simp: flanterm_putchar_def put_byte_def plain_byte_def)

lemma putchar_start:
  assumes "ground ctx"
  shows "flanterm_putchar be 0x1b ctx = Some (ctx\<lparr>escape_offset := 0, escape := True\<rparr>)"
  using assms by (simp add: ground_def flanterm_putchar_def put_byte_def put_plain_def split: prod.split)

text \<open>A decimal number, as the parser accumulates it.\<close>

definition digit_bytes :: "u8 list \<Rightarrow> bool" where
  "digit_bytes ds \<longleftrightarrow> (\<forall>d \<in> set ds. 0x30 \<le> d \<and> d \<le> 0x39)"

definition dec_value :: "u32 \<Rightarrow> u8 list \<Rightarrow> u32" where
  "dec_value = foldl (\<lambda>v d. v * 10 + ucast (d - 0x30))"

text \<open>In a control sequence, past its first character, with \<open>k\<close> parameters complete.\<close>

definition in_csi :: "nat \<Rightarrow> 'b flanterm_context \<Rightarrow> bool" where
  "in_csi k ctx \<longleftrightarrow> \<not> discard_next ctx \<and> unicode_remaining ctx = 0 \<and> g_select ctx = 0 \<and> escape ctx \<and>
     \<not> osc ctx \<and> control_sequence ctx \<and> \<not> csi ctx \<and> \<not> dec_private ctx \<and>
     esc_values_i ctx = of_nat k \<and> k < 16 \<and> length (esc_values ctx) = 16"

lemma digit_step:
  assumes "in_csi k ctx" and "0x30 \<le> d" and "d \<le> 0x39"
  shows "flanterm_putchar be d ctx = Some (ctx\<lparr>escape_offset := escape_offset ctx + 1, rrr := True,
     esc_values := (esc_values ctx)[k := esc_values ctx ! k * 10 + ucast (d - 0x30)]\<rparr>)"
proof -
  have d: "plain_byte d" "d \<noteq> 0x5b" "d \<noteq> 0x3f" using assms(2,3) by (auto simp: plain_byte_def word_le_nat_alt)
  have k: "k < 16" "length (esc_values ctx) = 16" "esc_values_i ctx = of_nat k" using assms(1) by (simp_all add: in_csi_def)
  have n: "(of_nat k :: u64) \<noteq> 16" "uint (of_nat k :: u64) = int k"
  proof -
    have "unat (of_nat k :: u64) = k" using k(1) by (simp add: unat_of_nat64)
    then show "(of_nat k :: u64) \<noteq> 16" "uint (of_nat k :: u64) = int k"
      using k(1) by (auto simp: uint_nat simp del: of_nat_unat)
  qed
  have "flanterm_putchar be d ctx = escape_parse be d ctx"
    using assms(1) d(1) by (intro putchar_escape) (auto simp: in_csi_def)
  also have "\<dots> = csi_digit d (ctx\<lparr>escape_offset := escape_offset ctx + 1\<rparr>)"
    using assms d k(3) n(1) by (simp add: escape_parse_def control_sequence_parse_def in_csi_def FLANTERM_MAX_ESC_VALUES_def)
  also have "\<dots> = Some (ctx\<lparr>escape_offset := escape_offset ctx + 1, rrr := True,
     esc_values := (esc_values ctx)[k := esc_values ctx ! k * 10 + ucast (d - 0x30)]\<rparr>)"
    using k n(2) by (simp add: csi_digit_def Let_def)
  finally show ?thesis .
qed

lemma digits_run:
  assumes "digit_bytes ds" and "ds \<noteq> []" and "in_csi k ctx"
  shows "flanterm_putchars be ds ctx = Some (ctx\<lparr>escape_offset := escape_offset ctx + of_nat (length ds), rrr := True,
     esc_values := (esc_values ctx)[k := dec_value (esc_values ctx ! k) ds]\<rparr>)"
  using assms
proof (induction ds arbitrary: ctx)
  case (Cons d ds)
  let ?c = "ctx\<lparr>escape_offset := escape_offset ctx + 1, rrr := True,
     esc_values := (esc_values ctx)[k := esc_values ctx ! k * 10 + ucast (d - 0x30)]\<rparr>"
  have d: "0x30 \<le> d" "d \<le> 0x39" "digit_bytes ds" using Cons.prems(1) by (auto simp: digit_bytes_def)
  have k: "k < length (esc_values ctx)" using Cons.prems(3) by (simp add: in_csi_def)
  have in_c: "in_csi k ?c" using Cons.prems(3) by (simp add: in_csi_def)
  note step = digit_step [OF Cons.prems(3) d(1,2), of be]
  show ?case
  proof (cases "ds = []")
    case True
    then show ?thesis using step by (simp add: dec_value_def)
  next
    case False
    from Cons.IH [OF d(3) False in_c] show ?thesis using step k
      by (simp add: dec_value_def add.assoc)
  qed
qed simp

text \<open>After \<open>ESC [\<close>.\<close>

definition csi_opened :: "'b flanterm_context \<Rightarrow> 'b flanterm_context" where
  "csi_opened ctx = ctx\<lparr>escape := True, escape_offset := 1, esc_values := replicate 16 0, esc_values_i := 0,
     rrr := False, control_sequence := True\<rparr>"

lemma csi_open_run:
  assumes "ground ctx"
  shows "flanterm_putchars be [0x1b, 0x5b] ctx = Some (csi_opened ctx)"
proof -
  let ?c = "ctx\<lparr>escape_offset := 0, escape := True\<rparr>"
  have "flanterm_putchar be 0x5b ?c = escape_parse be 0x5b ?c"
    by (rule putchar_escape) (use assms in \<open>simp_all add: ground_def plain_byte_def\<close>)
  moreover have "escape_parse be 0x5b ?c = Some (csi_opened ctx)"
    using assms by (simp add: escape_parse_def ground_def enter_csi_def csi_opened_def FLANTERM_MAX_ESC_VALUES_def
      split: prod.split)
  ultimately show ?thesis using putchar_start [OF assms, of be] by simp
qed

lemma csi_opened_in: "ground ctx \<Longrightarrow> in_csi 0 (csi_opened ctx)"
  by (simp add: ground_def in_csi_def csi_opened_def)

lemma semicolon_step:
  assumes "in_csi k ctx" and "rrr ctx"
  shows "flanterm_putchar be 0x3b ctx = Some (ctx\<lparr>escape_offset := escape_offset ctx + 1,
     esc_values_i := esc_values_i ctx + 1, rrr := False\<rparr>)"
proof -
  have "flanterm_putchar be 0x3b ctx = escape_parse be 0x3b ctx"
    by (rule putchar_escape) (use assms in \<open>simp_all add: in_csi_def plain_byte_def\<close>)
  with assms show ?thesis by (simp add: escape_parse_def control_sequence_parse_def in_csi_def)
qed

text \<open>The final byte of a sequence, after a parameter.\<close>

lemma final_step:
  assumes "in_csi k ctx" and "rrr ctx" and "plain_byte c" and "c \<notin> {0x3b, 0x3f, 0x5b}" and "\<not> (0x30 \<le> c \<and> c \<le> 0x39)"
  shows "flanterm_putchar be c ctx =
     csi_dispatch be c (ctx\<lparr>escape_offset := escape_offset ctx + 1, esc_values_i := esc_values_i ctx + 1, rrr := False\<rparr>)"
proof -
  have "flanterm_putchar be c ctx = escape_parse be c ctx"
    by (rule putchar_escape) (use assms in \<open>simp_all add: in_csi_def\<close>)
  with assms show ?thesis
    by (auto simp: escape_parse_def control_sequence_parse_def in_csi_def Let_def split: if_splits)
qed

text \<open>A coordinate as the screen has it: from 0, and inside.\<close>

definition coordinate :: "u32 \<Rightarrow> u64 \<Rightarrow> u64" where
  "coordinate v n = (let w = (if v = 0 then 0 else ucast v - 1) in if w \<ge> n then n - 1 else w)"

lemma unat_up: "unat (ucast (e :: u32) :: u64) = unat e"
proof -
  have "unat e < 2 ^ 64" using unsigned_less [of e, where ?'a = nat] by simp
  then show ?thesis by (simp add: unsigned_ucast_eq take_bit_nat_eq_self)
qed

lemma ucast_narrow: "x < 2 ^ 32 \<Longrightarrow> ucast (ucast (x :: u64) :: u32) = x"
proof -
  assume "x < 2 ^ 32"
  then have "take_bit 32 x = x" by (metis less_mask_eq take_bit_eq_mask)
  moreover have "ucast (ucast x :: u32) = take_bit 32 x" by (rule bit_word_eqI) (auto simp: bit_simps)
  ultimately show ?thesis by simp
qed

lemma up_pred: "e \<noteq> 0 \<Longrightarrow> (ucast (ucast (e :: u32) - 1 :: u64) :: u32) = e - 1" "e \<noteq> 0 \<Longrightarrow> (ucast (e - 1) :: u64) = ucast e - 1"
proof -
  assume e: "e \<noteq> 0"
  then have "(ucast e :: u64) \<noteq> 0" by (metis unat_up unat_eq_zero)
  then have "unat (ucast e - 1 :: u64) = unat e - 1" by (simp add: unat_minus_one unat_up)
  moreover have "unat (e - 1) = unat e - 1" using e by (simp add: unat_minus_one)
  ultimately show u: "(ucast (e - 1) :: u64) = ucast e - 1" by (simp add: word_unat_eq_iff unat_up)
  show "(ucast (ucast e - 1 :: u64) :: u32) = e - 1" unfolding u [symmetric]
    by (rule bit_word_eqI) (simp add: bit_simps)
qed

lemma up_zero: "(ucast (e :: u32) :: u64) = 0 \<longleftrightarrow> e = 0"
  by (metis unat_up unat_eq_zero)

lemma below_narrow: "n \<le> 2 ^ 32 \<Longrightarrow> 0 < n \<Longrightarrow> ucast (ucast (n - 1 :: u64) :: u32) = n - 1"
proof (rule ucast_narrow)
  assume "n \<le> 2 ^ 32" "0 < n"
  then have "unat n \<le> 2 ^ 32" "0 < unat n" "n \<noteq> 0" by (simp_all add: word_le_nat_alt unat_gt_0)
  then show "n - 1 < 2 ^ 32" by (simp add: word_less_nat_alt unat_minus_one)
qed

lemma csi_position_moves:
  assumes len: "length (esc_values ctx) = 16" and n: "rows ctx \<le> 2 ^ 32" "cols ctx \<le> 2 ^ 32" "0 < rows ctx" "0 < cols ctx"
  shows "\<exists>vs. csi_position be ctx = call (set_cursor_pos be (coordinate (esc_values ctx ! 1) (cols ctx))
      (coordinate (esc_values ctx ! 0) (rows ctx))) (ctx\<lparr>esc_values := vs\<rparr>)"
proof -
  note narrow = below_narrow [OF n(1,3)] below_narrow [OF n(2,4)]
  note defs = csi_position_def set_esc_def esc_value_def coordinate_def up_zero up_pred narrow
  have same: "\<exists>vs. F ctx = F (ctx\<lparr>esc_values := vs\<rparr>)" for F :: "'a flanterm_context \<Rightarrow> 'a flanterm_context"
    by (rule exI [of _ "esc_values ctx"]) simp
  show ?thesis
    using len n(3,4) by (cases "esc_values ctx ! 0 = 0"; cases "esc_values ctx ! 1 = 0")
      (auto simp: defs Let_def intro: same)
qed

lemma position_dispatch:
  assumes "length (esc_values ctx) = 16" "esc_values_i ctx = 2" "\<not> dec_private ctx"
    and "rows ctx \<le> 2 ^ 32" "cols ctx \<le> 2 ^ 32" "0 < rows ctx" "0 < cols ctx"
  shows "\<exists>vs. csi_dispatch be 0x48 ctx = Some (csi_cleanup (call (set_cursor_pos be (coordinate (esc_values ctx ! 1) (cols ctx))
      (coordinate (esc_values ctx ! 0) (rows ctx))) (ctx\<lparr>scroll_enabled := False, esc_values := vs\<rparr>)\<lparr>scroll_enabled := scroll_enabled ctx\<rparr>))"
proof -
  let ?c = "(fill_defaults 0x48 ctx)\<lparr>scroll_enabled := False\<rparr>"
  have f: "esc_values ?c ! k = esc_values ctx ! k" if "k < 2" for k
    using assms(1,2) that by (simp add: fill_defaults_def fold_update_nth)
  have e: "?c = ctx\<lparr>scroll_enabled := False, esc_values := esc_values ?c\<rparr>" by (simp add: fill_defaults_def Let_def)
  have l: "length (esc_values ?c) = 16" using assms(1) by (simp add: fill_defaults_def fold_update_length)
  have r: "rows ?c = rows ctx" "cols ?c = cols ctx" by (simp_all add: fill_defaults_def Let_def)
  obtain vs where vs: "csi_position be ?c = call (set_cursor_pos be (coordinate (esc_values ?c ! 1) (cols ?c))
      (coordinate (esc_values ?c ! 0) (rows ?c))) (?c\<lparr>esc_values := vs\<rparr>)"
    using csi_position_moves [of ?c be] l assms(4-7) r by auto
  have q: "?c\<lparr>esc_values := vs\<rparr> = ctx\<lparr>scroll_enabled := False, esc_values := vs\<rparr>"
    by (simp add: fill_defaults_def Let_def)
  have "csi_command be 0x48 x y ?c = Some (csi_position be ?c)" for x y by (simp add: csi_command_def)
  then have "csi_dispatch be 0x48 ctx = Some (csi_cleanup ((csi_position be ?c)\<lparr>scroll_enabled := scroll_enabled ctx\<rparr>))"
    using assms(3) by (simp add: csi_dispatch_def Let_def fill_defaults_def split: prod.split)
  then show ?thesis unfolding vs q f r using f [of 0] f [of 1] by auto
qed

text \<open>
  C17 Cursor positioning does what it says: from rest, the bytes of \<open>ESC [ r ; c H\<close>, with \<open>r\<close> and
  \<open>c\<close> any decimal numerals, move the cursor once, to row \<open>r - 1\<close> and column \<open>c - 1\<close> (0 counts as
  1), cut to the screen, draw nothing else, and leave the parser at rest.  The numerals count
  modulo \<open>2 ^ 32\<close>.
\<close>

theorem cursor_position_sequence:
  assumes "ground ctx" and "digit_bytes r" and "r \<noteq> []" and "digit_bytes c" and "c \<noteq> []"
    and "rows ctx \<le> 2 ^ 32" and "cols ctx \<le> 2 ^ 32" and "0 < rows ctx" and "0 < cols ctx"
  shows "\<exists>ctx' c1. flanterm_putchars be ([0x1b, 0x5b] @ r @ [0x3b] @ c @ [0x48]) ctx = Some ctx' \<and>
     fb ctx' = set_cursor_pos be (coordinate (dec_value 0 c) (cols ctx)) (coordinate (dec_value 0 r) (rows ctx)) c1 \<and>
     fb c1 = fb ctx \<and> ground ctx'"
proof -
  define s1 where "s1 = csi_opened ctx"
  define s2 where "s2 = s1\<lparr>escape_offset := escape_offset s1 + of_nat (length r), rrr := True,
     esc_values := (esc_values s1)[0 := dec_value (esc_values s1 ! 0) r]\<rparr>"
  define s3 where "s3 = s2\<lparr>escape_offset := escape_offset s2 + 1, esc_values_i := esc_values_i s2 + 1, rrr := False\<rparr>"
  define s4 where "s4 = s3\<lparr>escape_offset := escape_offset s3 + of_nat (length c), rrr := True,
     esc_values := (esc_values s3)[1 := dec_value (esc_values s3 ! 1) c]\<rparr>"
  define s5 where "s5 = s4\<lparr>escape_offset := escape_offset s4 + 1, esc_values_i := esc_values_i s4 + 1, rrr := False\<rparr>"
  note s_defs = s1_def s2_def s3_def s4_def s5_def csi_opened_def
  have i: "in_csi 0 s1" "in_csi 0 s2" "in_csi 1 s3" "in_csi 1 s4"
    using assms(1) by (simp_all add: s_defs ground_def in_csi_def)
  have b: "flanterm_putchars be [0x1b, 0x5b] ctx = Some s1" "flanterm_putchars be r s1 = Some s2"
    "flanterm_putchars be [0x3b] s2 = Some s3" "flanterm_putchars be c s3 = Some s4"
    using csi_open_run [OF assms(1)] digits_run [OF assms(2,3) i(1)] semicolon_step [OF i(2), of be]
      digits_run [OF assms(4,5) i(3)] unfolding s1_def [symmetric] s2_def [symmetric] s3_def [symmetric] s4_def [symmetric]
    by (simp_all add: s2_def)
  have "flanterm_putchars be [0x48] s4 = csi_dispatch be 0x48 s5"
    using final_step [OF i(4), of "0x48" be] by (simp add: plain_byte_def s5_def) (simp add: s4_def)
  then have run: "flanterm_putchars be ([0x1b, 0x5b] @ r @ [0x3b] @ c @ [0x48]) ctx = csi_dispatch be 0x48 s5"
    by (simp only: putchars_append b bind.bind_lunit)
  have v: "esc_values s5 ! 0 = dec_value 0 r" "esc_values s5 ! 1 = dec_value 0 c" "length (esc_values s5) = 16"
    "esc_values_i s5 = 2" "\<not> dec_private s5" "rows s5 = rows ctx" "cols s5 = cols ctx" "fb s5 = fb ctx"
    using assms(1) by (simp_all add: s_defs ground_def)
  obtain vs where d: "csi_dispatch be 0x48 s5 = Some (csi_cleanup (call (set_cursor_pos be (coordinate (esc_values s5 ! 1) (cols s5))
      (coordinate (esc_values s5 ! 0) (rows s5))) (s5\<lparr>scroll_enabled := False, esc_values := vs\<rparr>)\<lparr>scroll_enabled := scroll_enabled s5\<rparr>))"
    using position_dispatch [of s5 be] v assms(6-9) by auto
  let ?c1 = "s5\<lparr>scroll_enabled := False, esc_values := vs\<rparr>"
  let ?ctx = "csi_cleanup (call (set_cursor_pos be (coordinate (dec_value 0 c) (cols ctx))
      (coordinate (dec_value 0 r) (rows ctx))) ?c1\<lparr>scroll_enabled := scroll_enabled s5\<rparr>)"
  have "flanterm_putchars be ([0x1b, 0x5b] @ r @ [0x3b] @ c @ [0x48]) ctx = Some ?ctx" unfolding run d v ..
  moreover have "fb ?ctx = set_cursor_pos be (coordinate (dec_value 0 c) (cols ctx)) (coordinate (dec_value 0 r) (rows ctx)) ?c1"
    by (simp add: csi_cleanup_def call_def)
  moreover have "fb ?c1 = fb ctx" using v(8) by simp
  moreover have "ground ?ctx" using i(4) by (simp add: csi_cleanup_def call_def ground_def in_csi_def s5_def)
  ultimately show ?thesis by blast
qed

lemma tty_ground: "ground tty_ctx"
  by (simp add: tty_ctx_def flanterm_context_reinit_def ground_def)

theorem cursor_position_sequence_witness:
  "\<exists>ctx'. flanterm_putchars tty_backend [0x1b, 0x5b, 0x35, 0x3b, 0x31, 0x32, 0x48] tty_ctx = Some ctx' \<and>
     tty_x (fb ctx') = 11 \<and> tty_y (fb ctx') = 4"
proof -
  have t: "rows tty_ctx = 25" "cols tty_ctx = 80" by (simp_all add: tty_ctx_def flanterm_context_reinit_def)
  have v: "coordinate (dec_value 0 [0x31, 0x32]) 80 = 11" "coordinate (dec_value 0 [0x35]) 25 = 4"
    by (simp_all add: dec_value_def coordinate_def)
  have "\<exists>ctx' c1. flanterm_putchars tty_backend ([0x1b, 0x5b] @ [0x35] @ [0x3b] @ [0x31, 0x32] @ [0x48]) tty_ctx = Some ctx' \<and>
     fb ctx' = set_cursor_pos tty_backend (coordinate (dec_value 0 [0x31, 0x32]) (cols tty_ctx))
       (coordinate (dec_value 0 [0x35]) (rows tty_ctx)) c1 \<and> fb c1 = fb tty_ctx \<and> ground ctx'"
    by (rule cursor_position_sequence [OF tty_ground]) (simp_all add: digit_bytes_def t)
  then show ?thesis unfolding t v by (auto simp: tty_backend_def)
qed

section \<open>Operating system commands\<close>

lemma osc_byte:
  assumes "\<not> discard_next ctx" "unicode_remaining ctx = 0" "escape ctx" "osc ctx" "plain_byte c"
  shows "flanterm_putchar be c ctx = Some (osc_parse c (ctx\<lparr>escape_offset := escape_offset ctx + 1\<rparr>))"
  using putchar_escape [OF assms(1-3,5), of be] assms(4) by (simp add: escape_parse_def)

text \<open>What stays in place while the command goes by.\<close>

definition in_osc :: "'b flanterm_context \<Rightarrow> 'b flanterm_context \<Rightarrow> bool" where
  "in_osc ctx c \<longleftrightarrow> (\<exists>k. c = ctx\<lparr>escape := True, osc := True, osc_escape := False, escape_offset := k\<rparr>)"

lemma osc_run:
  assumes "in_osc ctx c" and "ground ctx" and "\<forall>b \<in> set bs. plain_byte b \<and> b \<noteq> 0x07 \<and> b \<noteq> 0x1b"
  shows "\<exists>c'. flanterm_putchars be bs c = Some c' \<and> in_osc ctx c'"
  using assms(1,3)
proof (induction bs arbitrary: c)
  case (Cons b bs)
  obtain k where c: "c = ctx\<lparr>escape := True, osc := True, osc_escape := False, escape_offset := k\<rparr>"
    using Cons.prems(1) by (auto simp: in_osc_def)
  have "flanterm_putchar be b c = Some (osc_parse b (c\<lparr>escape_offset := escape_offset c + 1\<rparr>))"
    by (rule osc_byte) (use assms(2) Cons.prems(2) c in \<open>simp_all add: ground_def\<close>)
  also have "osc_parse b (c\<lparr>escape_offset := escape_offset c + 1\<rparr>) =
      ctx\<lparr>escape := True, osc := True, osc_escape := False, escape_offset := k + 1\<rparr>"
    using Cons.prems(2) by (simp add: osc_parse_def c)
  finally have "flanterm_putchar be b c = Some (ctx\<lparr>escape := True, osc := True, osc_escape := False, escape_offset := k + 1\<rparr>)" .
  moreover have "in_osc ctx (ctx\<lparr>escape := True, osc := True, osc_escape := False, escape_offset := k + 1\<rparr>)"
    by (auto simp: in_osc_def)
  ultimately show ?case using Cons.IH Cons.prems(2) by simp
qed simp

text \<open>
  An operating system command is swallowed whole: from rest, \<open>ESC ]\<close>, then any bytes other than
  BEL, ESC, CAN, SUB and the leading bytes of UTF-8, then BEL, draw nothing and leave the parser
  at rest.  (With a leading byte of UTF-8 in the command it is not so: \<open>utf8_decodes\<close> applies
  there too, and the character is drawn.)
\<close>

theorem osc_swallowed:
  assumes "ground ctx" and "\<forall>b \<in> set bs. plain_byte b \<and> b \<noteq> 0x07 \<and> b \<noteq> 0x1b"
  shows "\<exists>ctx'. flanterm_putchars be ([0x1b, 0x5d] @ bs @ [0x07]) ctx = Some ctx' \<and> fb ctx' = fb ctx \<and> ground ctx'"
proof -
  let ?c0 = "ctx\<lparr>escape_offset := 0, escape := True\<rparr>"
  let ?c1 = "ctx\<lparr>escape := True, osc := True, osc_escape := False, escape_offset := 1\<rparr>"
  have "flanterm_putchar be 0x5d ?c0 = escape_parse be 0x5d ?c0"
    by (rule putchar_escape) (use assms(1) in \<open>simp_all add: ground_def plain_byte_def\<close>)
  moreover have "escape_parse be 0x5d ?c0 = Some ?c1"
    using assms(1) by (simp add: escape_parse_def ground_def split: prod.split)
  ultimately have start: "flanterm_putchars be [0x1b, 0x5d] ctx = Some ?c1"
    using putchar_start [OF assms(1), of be] by simp
  have "in_osc ctx ?c1" by (auto simp: in_osc_def)
  from osc_run [OF this assms, of be] obtain c k where
    run: "flanterm_putchars be bs ?c1 = Some c"
    and c: "c = ctx\<lparr>escape := True, osc := True, osc_escape := False, escape_offset := k\<rparr>"
    by (auto simp: in_osc_def)
  have "flanterm_putchar be 0x07 c = Some (osc_parse 0x07 (c\<lparr>escape_offset := escape_offset c + 1\<rparr>))"
    by (rule osc_byte) (use assms(1) c in \<open>simp_all add: ground_def plain_byte_def\<close>)
  then have stop: "flanterm_putchars be [0x07] c = Some (ctx\<lparr>escape := False, osc := False, osc_escape := False, escape_offset := k + 1\<rparr>)"
    by (simp add: osc_parse_def c)
  have "flanterm_putchars be ([0x1b, 0x5d] @ bs @ [0x07]) ctx =
      Some (ctx\<lparr>escape := False, osc := False, osc_escape := False, escape_offset := k + 1\<rparr>)"
    by (simp only: putchars_append start run stop bind.bind_lunit)
  then show ?thesis using assms(1) by (auto simp: ground_def)
qed

theorem osc_swallowed_witness:
  "\<exists>ctx'. flanterm_putchars tty_backend [0x1b, 0x5d, 0x30, 0x3b, 0x68, 0x69, 0x07] tty_ctx = Some ctx' \<and>
     drawn (fb ctx') = []"
proof -
  have "\<exists>ctx'. flanterm_putchars tty_backend ([0x1b, 0x5d] @ [0x30, 0x3b, 0x68, 0x69] @ [0x07]) tty_ctx = Some ctx' \<and>
      fb ctx' = fb tty_ctx \<and> ground ctx'"
    by (rule osc_swallowed [OF tty_ground]) (simp add: plain_byte_def)
  then show ?thesis by (auto simp: tty_ctx_def flanterm_context_reinit_def)
qed

end
