(* ===== verification/Fb_Terminal.thy ===== *)
theory Fb_Terminal
  imports Fb_Init_Correct Flanterm_Backend Flanterm_Text
begin

text \<open>
  The terminal on the frame buffer: the back end keeps the contract of the terminal, so no byte
  makes it fault, what is written is what the screen shows, and text lands where the cursor is.
\<close>

section \<open>The invariant under the operations\<close>

definition fb_ok :: "u64 \<Rightarrow> u64 \<Rightarrow> flanterm_fb_context option \<Rightarrow> bool" where
  "fb_ok r c b \<longleftrightarrow> (\<exists>d. b = Some d \<and> fb_inv r c d \<and> length (ansi_colours d) = 8 \<and> length (ansi_bright_colours d) = 8)"

lemmas picture_defs = shows_char_def cell_pixels_def pixel_def corner_x_def corner_y_def stride_def
  dot_colour_def dot_bit_def over_canvas_def glyph_bit_def

lemma fb_inv_requeued:
  assumes "requeued d d'"
  shows "fb_geometry r c d' = fb_geometry r c d" and "synced r c D d' = synced r c D d"
    and "old_cursor_x d' = old_cursor_x d" and "old_cursor_y d' = old_cursor_y d"
    and "ansi_colours d' = ansi_colours d" and "ansi_bright_colours d' = ansi_bright_colours d"
  using assms by (auto simp: requeued_def fb_geometry_def synced_def picture_defs)

lemma fb_ok_shows_next:
  assumes "fb_ok r c (Some d)" and "shows_next r c d d' s"
  shows "fb_ok r c (Some d')"
  using assms fb_inv_requeued [of d d'] by (auto simp: fb_ok_def fb_inv_def shows_next_def)

text \<open>The colours, the cursor and its saved copy are outside the invariant.\<close>

lemma fb_inv_fields:
  "fb_inv r c (d\<lparr>text_fg := v\<rparr>) = fb_inv r c d" "fb_inv r c (d\<lparr>text_bg := v\<rparr>) = fb_inv r c d"
  "fb_inv r c (d\<lparr>cursor_x := x\<rparr>) = fb_inv r c d" "fb_inv r c (d\<lparr>cursor_y := x\<rparr>) = fb_inv r c d"
  "fb_inv r c (d\<lparr>saved_state_text_fg := v\<rparr>) = fb_inv r c d" "fb_inv r c (d\<lparr>saved_state_text_bg := v\<rparr>) = fb_inv r c d"
  "fb_inv r c (d\<lparr>saved_state_cursor_x := x\<rparr>) = fb_inv r c d" "fb_inv r c (d\<lparr>saved_state_cursor_y := x\<rparr>) = fb_inv r c d"
  by (simp_all add: fb_inv_def fb_geometry_def queue_ok_def item_slot_def synced_def picture_defs)

lemma fb_ok_fields [simp]:
  "fb_ok r c (Some (d\<lparr>text_fg := v\<rparr>)) = fb_ok r c (Some d)" "fb_ok r c (Some (d\<lparr>text_bg := v\<rparr>)) = fb_ok r c (Some d)"
  "fb_ok r c (Some (d\<lparr>cursor_x := x\<rparr>)) = fb_ok r c (Some d)" "fb_ok r c (Some (d\<lparr>cursor_y := x\<rparr>)) = fb_ok r c (Some d)"
  "fb_ok r c (Some (d\<lparr>saved_state_text_fg := v\<rparr>)) = fb_ok r c (Some d)"
  "fb_ok r c (Some (d\<lparr>saved_state_text_bg := v\<rparr>)) = fb_ok r c (Some d)"
  "fb_ok r c (Some (d\<lparr>saved_state_cursor_x := x\<rparr>)) = fb_ok r c (Some d)"
  "fb_ok r c (Some (d\<lparr>saved_state_cursor_y := x\<rparr>)) = fb_ok r c (Some d)"
  by (simp_all add: fb_ok_def fb_inv_fields)

lemma fb_ok_moved [simp]: "fb_ok r c (Some (moved x y d)) = fb_ok r c (Some d)"
  by (simp add: moved_def)

text \<open>Every operation through its function pointer.\<close>

lemma fb_ready:
  assumes "backend_ready fb_ok t"
  obtains d where "fb t = Some d" "fb_ok (rows t) (cols t) (Some d)" "queue_ok (rows t) (cols t) d"
    "scroll_bottom_margin t \<noteq> 0" "scroll_bottom_margin t \<le> rows t"
  using assms by (auto simp: backend_ready_def fb_ok_def fb_inv_def)

lemma fb_try_ok:
  assumes "backend_ready fb_ok t"
    and "\<And>d. queue_ok (rows t) (cols t) d \<Longrightarrow> scroll_bottom_margin t \<noteq> 0 \<Longrightarrow> scroll_bottom_margin t \<le> rows t \<Longrightarrow>
      \<exists>d' s. f t d = Some d' \<and> shows_next (rows t) (cols t) d d' s"
  shows "fb_ok (rows t) (cols t) (fb_try f t)"
  using assms(1)
proof (rule fb_ready)
  fix d assume d: "fb t = Some d" "fb_ok (rows t) (cols t) (Some d)" "queue_ok (rows t) (cols t) d"
    "scroll_bottom_margin t \<noteq> 0" "scroll_bottom_margin t \<le> rows t"
  from assms(2) [OF d(3-5)] obtain d' s where "f t d = Some d'" "shows_next (rows t) (cols t) d d' s" by blast
  with d(1,2) show ?thesis by (simp add: fb_try_def fb_ok_shows_next)
qed

lemma fb_set_ok:
  assumes "backend_ready fb_ok t" and "\<And>d. fb_ok (rows t) (cols t) (Some d) \<Longrightarrow> fb_ok (rows t) (cols t) (Some (f d))"
  shows "fb_ok (rows t) (cols t) (fb_set f t)"
  using assms by (elim fb_ready) (simp add: fb_set_def)

lemma fb_colour_ok:
  assumes "backend_ready fb_ok t" and "v < 8"
  shows "fb_ok (rows t) (cols t) (fb_try (\<lambda>_. flanterm_fb_set_text_fg v) t)"
    and "fb_ok (rows t) (cols t) (fb_try (\<lambda>_. flanterm_fb_set_text_bg v) t)"
    and "fb_ok (rows t) (cols t) (fb_try (\<lambda>_. flanterm_fb_set_text_fg_bright v) t)"
    and "fb_ok (rows t) (cols t) (fb_try (\<lambda>_. flanterm_fb_set_text_bg_bright v) t)"
proof -
  from assms(1) obtain d where d: "fb t = Some d" "fb_ok (rows t) (cols t) (Some d)" by (rule fb_ready)
  have "uint v < 8" using assms(2) by (simp add: word_less_def)
  then have g: "\<exists>k. buf_get xs (uint v) = Some k" if "length xs = 8" for xs :: "u32 list"
    using that by (simp add: buf_get_def)
  have "length (ansi_colours d) = 8" "length (ansi_bright_colours d) = 8" using d(2) by (auto simp: fb_ok_def)
  then obtain k l where kl: "buf_get (ansi_colours d) (uint v) = Some k" "buf_get (ansi_bright_colours d) (uint v) = Some l"
    using g by blast
  show "fb_ok (rows t) (cols t) (fb_try (\<lambda>_. flanterm_fb_set_text_fg v) t)"
    "fb_ok (rows t) (cols t) (fb_try (\<lambda>_. flanterm_fb_set_text_bg v) t)"
    "fb_ok (rows t) (cols t) (fb_try (\<lambda>_. flanterm_fb_set_text_fg_bright v) t)"
    "fb_ok (rows t) (cols t) (fb_try (\<lambda>_. flanterm_fb_set_text_bg_bright v) t)"
    using d by (simp_all add: fb_try_def flanterm_fb_set_text_fg_def flanterm_fb_set_text_bg_def
        flanterm_fb_set_text_fg_bright_def flanterm_fb_set_text_bg_bright_def kl)
qed

lemma fb_putchar_ok: "backend_ready fb_ok t \<Longrightarrow> fb_ok (rows t) (cols t) (fb_try (flanterm_fb_raw_putchar b) t)"
proof (elim fb_ready)
  fix d assume d: "fb t = Some d" "fb_ok (rows t) (cols t) (Some d)" "queue_ok (rows t) (cols t) d"
    "scroll_bottom_margin t \<le> rows t"
  from raw_putchar_shows [OF d(3,4), of b] obtain x y e where
    e: "flanterm_fb_raw_putchar b t d = Some (moved x y e)" "shows_next (rows t) (cols t) d e (screen e)" by blast
  with d(1,2) show ?thesis by (simp add: fb_try_def fb_ok_shows_next)
qed

lemma fb_clear_ok: "backend_ready fb_ok t \<Longrightarrow> fb_ok (rows t) (cols t) (fb_try (flanterm_fb_clear mv) t)"
proof (elim fb_ready)
  fix d assume d: "fb t = Some d" "fb_ok (rows t) (cols t) (Some d)" "queue_ok (rows t) (cols t) d"
  from clear_shows [OF d(3), of mv] obtain d' e s where
    e: "flanterm_fb_clear mv t d = Some d'" "shows_next (rows t) (cols t) d e s"
      "d' = (if mv then e\<lparr>cursor_x := 0, cursor_y := 0\<rparr> else e)" by blast
  with d(1,2) show ?thesis by (simp add: fb_try_def fb_ok_shows_next)
qed

lemma fb_flush_ok: "backend_ready fb_ok t \<Longrightarrow> fb_ok (rows t) (cols t) (fb_try flanterm_fb_double_buffer_flush t)"
proof (elim fb_ready)
  fix d assume d: "fb t = Some d" "fb_ok (rows t) (cols t) (Some d)"
  then have inv: "fb_inv (rows t) (cols t) d" and p: "length (ansi_colours d) = 8" "length (ansi_bright_colours d) = 8"
    by (auto simp: fb_ok_def)
  from flush_shows [OF inv] obtain d' where
    d': "flanterm_fb_double_buffer_flush t d = Some d'" "fb_inv (rows t) (cols t) d'" "flush_frame d d'" by blast
  have "ansi_colours d' = ansi_colours d" "ansi_bright_colours d' = ansi_bright_colours d"
    using d'(3) by (auto simp: flush_frame_def flush_end_def repainted_def)
  then show ?thesis using d(1) d' p by (simp add: fb_try_def fb_ok_def)
qed

lemma fb_backend_simps [simp]:
  "raw_putchar fb_backend b = fb_try (flanterm_fb_raw_putchar b)" "clear fb_backend mv = fb_try (flanterm_fb_clear mv)"
  "set_cursor_pos fb_backend x y t = fb_set (flanterm_fb_set_cursor_pos x y t) t"
  "get_cursor_pos fb_backend t = (case fb t of None \<Rightarrow> (0, 0) | Some d \<Rightarrow> flanterm_fb_get_cursor_pos t d)"
  "set_text_fg fb_backend v = fb_try (\<lambda>_. flanterm_fb_set_text_fg v)" "set_text_bg fb_backend v = fb_try (\<lambda>_. flanterm_fb_set_text_bg v)"
  "set_text_fg_bright fb_backend v = fb_try (\<lambda>_. flanterm_fb_set_text_fg_bright v)"
  "set_text_bg_bright fb_backend v = fb_try (\<lambda>_. flanterm_fb_set_text_bg_bright v)"
  "set_text_fg_rgb fb_backend w = fb_set (flanterm_fb_set_text_fg_rgb w)" "set_text_bg_rgb fb_backend w = fb_set (flanterm_fb_set_text_bg_rgb w)"
  "set_text_fg_default fb_backend = fb_set flanterm_fb_set_text_fg_default"
  "set_text_bg_default fb_backend = fb_set flanterm_fb_set_text_bg_default"
  "set_text_fg_default_bright fb_backend = fb_set flanterm_fb_set_text_fg_default_bright"
  "set_text_bg_default_bright fb_backend = fb_set flanterm_fb_set_text_bg_default_bright"
  "move_character fb_backend nx ny ox oy = fb_try (flanterm_fb_move_character nx ny ox oy)"
  "scroll fb_backend = fb_try flanterm_fb_scroll" "revscroll fb_backend = fb_try flanterm_fb_revscroll"
  "swap_palette fb_backend = fb_set flanterm_fb_swap_palette"
  "backend_save_state fb_backend = fb_set flanterm_fb_save_state" "backend_restore_state fb_backend = fb_set flanterm_fb_restore_state"
  "double_buffer_flush fb_backend = fb_try flanterm_fb_double_buffer_flush" "callback fb_backend = None"
  by (simp_all add: fb_backend_def)

interpretation fb_term: flanterm_backend fb_backend fb_ok
proof (unfold_locales, goal_cases)
  case 1 then show ?case by (simp add: fb_putchar_ok)
next
  case 2 then show ?case by (simp add: fb_clear_ok)
next
  case 14 then show ?case using move_shows by (fastforce intro: fb_try_ok)
next
  case 15 then show ?case using scroll_shows by (fastforce intro: fb_try_ok)
next
  case 16 then show ?case using revscroll_shows by (fastforce intro: fb_try_ok)
next
  case 20 then show ?case by (simp add: fb_flush_ok)
qed (auto simp: fb_colour_ok flanterm_fb_set_cursor_pos_def flanterm_fb_set_text_fg_rgb_def flanterm_fb_set_text_bg_rgb_def
    flanterm_fb_set_text_fg_default_def flanterm_fb_set_text_bg_default_def flanterm_fb_set_text_fg_default_bright_def
    flanterm_fb_set_text_bg_default_bright_def flanterm_fb_swap_palette_def flanterm_fb_save_state_def
    flanterm_fb_restore_state_def Let_def intro!: fb_set_ok)

section \<open>The terminal as a whole\<close>

definition fb_term_ok :: "fb_term \<Rightarrow> bool" where
  "fb_term_ok t \<longleftrightarrow> flanterm_wf t \<and> backend_safe fb_ok t"

lemma fb_term_okD:
  assumes "fb_term_ok t"
  obtains d where "fb t = Some d" "fb_inv (rows t) (cols t) d" "backend_ready fb_ok t" "flanterm_wf t" "backend_safe fb_ok t"
  using assms by (auto simp: fb_term_ok_def backend_safe_def backend_ready_def fb_ok_def)

lemma term_ready_ok:
  assumes "term_ready a t"
  shows "fb_term_ok t"
proof -
  from assms obtain d where d: "fb t = Some d" "fb_inv (rows t) (cols t) d" "fresh a d" and wf: "flanterm_wf t"
    and t: "t = flanterm_context_reinit (zero_term (rows t) (cols t) (fb t))"
    unfolding term_ready_def by blast
  have "fb_ok (rows t) (cols t) (fb t)" using d by (simp add: fb_ok_def fresh_def)
  moreover have "palette_ok (current_primary t)" "palette_ok (current_bg t)" "palette_ok (saved_state_current_primary t)"
    "palette_ok (saved_state_current_bg t)"
    by (subst t, simp add: flanterm_context_reinit_def zero_term_def)+
  ultimately show ?thesis using wf by (auto simp: fb_term_ok_def backend_safe_def backend_ready_def flanterm_wf_def)
qed

definition printable :: "u8 list \<Rightarrow> bool" where
  "printable cs \<longleftrightarrow> (\<forall>c \<in> set cs. 0x20 \<le> c \<and> c \<le> 0x7e)"

text \<open>The parser at rest, the default character set, no insertion.\<close>

definition plain_text :: "'b flanterm_context \<Rightarrow> bool" where
  "plain_text t \<longleftrightarrow> ground t \<and> \<not> insert_mode t \<and> charsets t ! unat (current_charset t) = CHARSET_DEFAULT"

text \<open>Two small screens for the examples, of two by two cells and of one.\<close>

definition made :: "unit init_result \<Rightarrow> fb_term" where
  "made r = (case r of Some (Some (t, b), st) \<Rightarrow> t)"

definition demo_term :: fb_term where
  "demo_term = made (flanterm_fb_simple_init (replicate 576 0) 18 32 72 0x100000 0)"

definition tiny_term :: fb_term where
  "tiny_term = made (flanterm_fb_simple_init (replicate 144 0) 9 16 36 0x100000 0)"

lemma demo_simple: "simple_ok (replicate 576 0) 18 32 72" "simple_ok (replicate 144 0) 9 16 36"
  by (simp_all add: simple_ok_def)

lemma demo_ready:
  "term_ready (simple_args (replicate 576 0) 18 32 72) demo_term" "term_ready (simple_args (replicate 144 0) 9 16 36) tiny_term"
  using simple_init_ready [OF demo_simple(1), of "0x100000"] simple_init_ready [OF demo_simple(2), of "0x100000"]
  by (auto simp: demo_term_def tiny_term_def made_def)

lemma simple_dims:
  "init_rows (simple_args pix w h p) = h div 16" "init_cols (simple_args pix w h p) = w div 9"
  by (simp_all add: init_rows_def init_cols_def glyph_rows_def glyph_cols_def font_rows_def font_cols_def)

lemma demo_size [simp]: "rows demo_term = 2" "cols demo_term = 2" "rows tiny_term = 1" "cols tiny_term = 1"
  using demo_ready by (simp_all add: term_ready_def simple_dims)

lemma demo_ok: "fb_term_ok demo_term" "fb_term_ok tiny_term"
  using demo_ready term_ready_ok by blast+

lemma fresh_screen: "fresh a d \<Longrightarrow> screen d = replicate (unat (init_rows a) * unat (init_cols a)) (blank_char a)"
  by (rule nth_equalityI) (simp_all add: fresh_def nth_screen view_def)

text \<open>The context on the small screens.\<close>

lemma demo_context:
  obtains d where "fb demo_term = Some d" "fb_inv 2 2 d" "cursor_x d = 0" "cursor_y d = 0" "old_cursor_x d = 0"
    "old_cursor_y d = 0" "length (screen d) = 4" "grid d = replicate 4 (blank_char (simple_args (replicate 576 0) 18 32 72))"
proof -
  from demo_ready(1) obtain d where d: "fb demo_term = Some d" "fb_inv (rows demo_term) (cols demo_term) d"
    "fresh (simple_args (replicate 576 0) 18 32 72) d" unfolding term_ready_def by blast
  show thesis by (rule that [of d]) (use d in \<open>simp_all add: fresh_def simple_dims\<close>)
qed

lemma term_ready_fields:
  assumes "term_ready a t"
  shows "scroll_top_margin t = 0" "scroll_bottom_margin t = rows t" "autoflush t" "cursor_enabled t" "plain_text t" "scroll_enabled t"
proof -
  have t: "t = flanterm_context_reinit (zero_term (rows t) (cols t) (fb t))" using assms unfolding term_ready_def by blast
  show "scroll_top_margin t = 0" "autoflush t" "cursor_enabled t" "plain_text t" "scroll_enabled t"
    by (subst t, simp add: flanterm_context_reinit_def zero_term_def plain_text_def ground_def)+
  show "scroll_bottom_margin t = rows t" by (subst t) (simp add: flanterm_context_reinit_def)
qed

text \<open>What is written is shown.\<close>

lemma displayed_flushed:
  assumes "flush_frame d d'" and "screen d' = screen d"
  shows "displayed t d' x y = displayed t d x y"
  using assms by (auto simp: displayed_def flush_frame_def)

section \<open>Text\<close>

lemma putchar_printable:
  assumes "flanterm_wf t" and "plain_text t" and "0x20 \<le> c" and "c \<le> 0x7e"
  shows "flanterm_putchar be c t = Some (call (raw_putchar be c) t)"
proof -
  have c: "c \<notin> {0x00, 0x7f, 0x9b, 0x1b, 0x09, 0x0b, 0x0c, 0x0a, 0x08, 0x0d, 0x07, 14, 15, 0x18, 0x1a}" "\<not> 0xc0 \<le> c"
    using assms(3,4) by (auto simp: word_le_nat_alt)
  have "flanterm_putchar be c t = put_plain be c t"
    using c assms(2) by (simp add: flanterm_putchar_def put_byte_def plain_text_def ground_def)
  also have "\<dots> = put_graphic be c (fst (get_cursor_pos be t)) (snd (get_cursor_pos be t)) t"
    using c by (simp add: put_plain_def split: prod.split)
  also have "\<dots> = Some (call (raw_putchar be c) t)"
    using charset_in [OF assms(1)] assms(2-4) by (simp add: put_graphic_def plain_text_def CHARSET_DEFAULT_def CHARSET_DEC_SPECIAL_def)
  finally show ?thesis .
qed

lemma fb_prints:
  assumes "fb_term_ok t" and "plain_text t" and "printable cs" and "fb t = Some d"
    and "unat (cursor_x d) + length cs \<le> unat (cols t)" and "cursor_y d < rows t"
  shows "\<exists>d'. flanterm_putchars fb_backend cs t = Some (t\<lparr>fb := Some d'\<rparr>) \<and> fb_term_ok (t\<lparr>fb := Some d'\<rparr>) \<and>
     screen d' = take (cell_slot (cols t) (cursor_x d) (cursor_y d)) (screen d) @ map (\<lambda>c. drawn_char c d) cs @
       drop (cell_slot (cols t) (cursor_x d) (cursor_y d) + length cs) (screen d) \<and>
     unat (cursor_x d') = unat (cursor_x d) + length cs \<and> cursor_y d' = cursor_y d"
  using assms
proof (induction cs arbitrary: t d)
  case Nil
  then have "t\<lparr>fb := Some d\<rparr> = t" by (cases t) simp
  then show ?case using Nil(1) by (intro exI [of _ d] conjI) simp_all
next
  case (Cons c cs)
  let ?i = "cell_slot (cols t) (cursor_x d) (cursor_y d)"
  have c: "0x20 \<le> c" "c \<le> 0x7e" "printable cs" using Cons.prems(3) by (auto simp: printable_def)
  from Cons.prems(1) have wf: "flanterm_wf t" and sf: "backend_safe fb_ok t" by (auto simp: fb_term_ok_def)
  from fb_term_okD [OF Cons.prems(1)] Cons.prems(4) have q: "queue_ok (rows t) (cols t) d" and m: "scroll_bottom_margin t \<le> rows t"
    by (auto simp: fb_inv_def flanterm_wf_def)
  have x: "cursor_x d < cols t" using Cons.prems(5) by (simp add: word_less_nat_alt)
  then have nw: "\<not> wraps t d" by (simp add: wraps_def not_le)
  have mt: "scroll_top_margin t < scroll_bottom_margin t" using wf by (simp add: flanterm_wf_def)
  from raw_putchar_shows [OF q m, of c] nw mt obtain e where
    e: "flanterm_fb_raw_putchar c t d = Some (moved (cursor_x d + 1) (cursor_y d) e)" "shows_next (rows t) (cols t) d e (screen e)"
      "screen e = put_cell (rows t) (cols t) (cursor_x d) (cursor_y d) (drawn_char c d) (screen d)"
    by (auto simp: wrapped_screen_def)
  let ?d = "moved (cursor_x d + 1) (cursor_y d) e"
  let ?t = "t\<lparr>fb := Some ?d\<rparr>"
  have se: "screen e = (screen d)[?i := drawn_char c d]" using e(3) x Cons.prems(6) by (simp add: put_cell_def)
  have pc: "flanterm_putchar fb_backend c t = Some ?t"
    using putchar_printable [OF wf Cons.prems(2) c(1,2), of fb_backend] Cons.prems(4) e(1) by (simp add: call_def fb_try_def)
  have ok: "fb_term_ok ?t"
    using fb_term.putchar_safe [OF sf wf pc] putchar_wf [OF wf pc] by (simp add: fb_term_ok_def)
  have pt: "plain_text ?t" using Cons.prems(2) by (simp add: plain_text_def ground_def)
  have ux: "unat (cursor_x d + 1) = unat (cursor_x d) + 1"
    using x unat_u64_bound [of "cols t"] by (simp add: word_less_nat_alt unat_word_ariths)
  have dc: "drawn_char b e = drawn_char b d" for b using shows_next_cursor [OF e(2)] by (simp add: drawn_char_def)
  have si: "cell_slot (cols t) (cursor_x d + 1) (cursor_y d) = Suc ?i" by (simp add: cell_slot_def ux)
  have "unat (cursor_x ?d) + length cs \<le> unat (cols ?t)" using Cons.prems(5) ux by simp
  moreover have "cursor_y ?d < rows ?t" using Cons.prems(6) by simp
  ultimately obtain d' where
    d': "flanterm_putchars fb_backend cs ?t = Some (?t\<lparr>fb := Some d'\<rparr>)" "fb_term_ok (?t\<lparr>fb := Some d'\<rparr>)"
      "screen d' = take (Suc ?i) ((screen d)[?i := drawn_char c d]) @ map (\<lambda>b. drawn_char b d) cs @ drop (Suc ?i + length cs) ((screen d)[?i := drawn_char c d])"
      "unat (cursor_x d') = unat (cursor_x d) + 1 + length cs" "cursor_y d' = cursor_y d"
    using Cons.IH [OF ok pt c(3), of ?d] by (auto simp: dc si se ux)
  have "?i < length (screen d)" using slot_below [OF x Cons.prems(6)] queue_okD(1) [OF q] by simp
  then have "take (Suc ?i) ((screen d)[?i := drawn_char c d]) = take ?i (screen d) @ [drawn_char c d]"
    by (simp add: take_Suc_conv_app_nth)
  then show ?case using d' pc by (intro exI [of _ d']) (simp add: add.commute)
qed

end
