(* ===== verification/Fb_Properties.thy ===== *)
theory Fb_Properties
  imports Fb_Terminal
begin

text \<open>
  What the frame buffer back end promises: the picture after a write, the operations on the
  screen, drawing with and without the shortcut, the initialisation, and where it goes wrong.
\<close>

section \<open>Safety, and the picture after a write\<close>

text \<open>C6 No byte makes the terminal on the frame buffer fault or leave its invariant (the parser's,
  the queue's and the picture's), with the exception of the SGR parameter of 256 or more.\<close>

theorem fb_terminal_safe:
  assumes "fb_term_ok t"
  shows "(\<exists>t'. flanterm_putchar fb_backend c t = Some t' \<and> fb_term_ok t') \<or>
     (c = 0x6d \<and> control_sequence t \<and> (\<exists>k<16. 256 \<le> esc_values t ! k))"
proof -
  have wf: "flanterm_wf t" and s: "backend_safe fb_ok t" using assms by (simp_all add: fb_term_ok_def)
  show ?thesis
  proof (cases "c \<noteq> 0x6d \<or> \<not> control_sequence t \<or> small_params t")
    case True
    from putchar_total [OF wf this, of fb_backend] obtain t' where t': "flanterm_putchar fb_backend c t = Some t'" "flanterm_wf t'"
      by blast
    then show ?thesis using fb_term.putchar_safe [OF s wf t'(1)] by (auto simp: fb_term_ok_def)
  next
    case False
    then show ?thesis by (auto simp: small_params_def not_less)
  qed
qed

theorem fb_terminal_safe_witness: "\<exists>t'. flanterm_putchar fb_backend 0x41 demo_term = Some t' \<and> fb_term_ok t'"
  using fb_terminal_safe [OF demo_ok(1), of "0x41"] by simp

text \<open>C19 After a write with the automatic flush nothing is pending, and every cell of the frame buffer
  shows its character of the screen, the cursor's cell in exchanged colours.\<close>

theorem fb_write_displays:
  assumes "fb_term_ok t" and "flanterm_write fb_backend buf t = Some t'" and "autoflush t'"
  shows "fb_term_ok t' \<and> (\<exists>d. fb t' = Some d \<and> queue_i d = 0 \<and>
     (\<forall>x y. x < cols t' \<and> y < rows t' \<longrightarrow> shows_char d (displayed t' d x y) x y))"
proof -
  have wf: "flanterm_wf t" and s: "backend_safe fb_ok t" using assms(1) by (simp_all add: fb_term_ok_def)
  note w = fb_term.write_safe [OF s wf assms(2)]
  from assms(2) obtain u where u: "flanterm_putchars fb_backend buf t = Some u"
    "t' = (if autoflush u then call (double_buffer_flush fb_backend) u else u)" by (auto simp: flanterm_write_def)
  then have t': "t' = call (double_buffer_flush fb_backend) u" using assms(3) by (auto split: if_splits)
  have "fb_term_ok u" using fb_term.putchars_safe [OF s wf u(1)] by (simp add: fb_term_ok_def)
  then obtain d where d: "fb u = Some d" "fb_inv (rows u) (cols u) d" by (rule fb_term_okD)
  from flush_shows [OF d(2)] obtain d' where d': "flanterm_fb_double_buffer_flush u d = Some d'" "flush_frame d d'"
    "screen d' = screen d" "\<And>x y. x < cols u \<Longrightarrow> y < rows u \<Longrightarrow> shows_char d' (displayed u d x y) x y" by blast
  have "fb t' = Some d'" using d(1) d'(1) by (simp add: t' call_def fb_try_def)
  moreover have "queue_i d' = 0" using d'(2) by (auto simp: flush_frame_def)
  moreover have "rows t' = rows u" "cols t' = cols u" "displayed t' = displayed u"
    by (simp_all add: t' call_def displayed_def fun_eq_iff Let_def)
  moreover have "shows_char d' (displayed u d' x y) x y" if "x < cols u" "y < rows u" for x y
    using d'(4) [OF that] displayed_flushed [OF d'(2,3), of u x y] by (simp only:)
  ultimately show ?thesis using w by (auto simp: fb_term_ok_def)
qed

theorem fb_write_displays_witness:
  "\<exists>t' d. flanterm_write fb_backend [0x41] demo_term = Some t' \<and> fb t' = Some d \<and> queue_i d = 0 \<and>
     shows_char d (displayed t' d 0 0) 0 0"
proof -
  note f = term_ready_fields [OF demo_ready(1)]
  have wf: "flanterm_wf demo_term" using demo_ok(1) by (simp add: fb_term_ok_def)
  let ?u = "call (raw_putchar fb_backend 0x41) demo_term" and ?t = "call (double_buffer_flush fb_backend) (call (raw_putchar fb_backend 0x41) demo_term)"
  have u: "rows ?t = 2" "cols ?t = 2" "autoflush ?t" using f(3) by (simp_all add: call_def)
  have "flanterm_write fb_backend [0x41] demo_term = Some ?t"
    using putchar_printable [OF wf f(5), of "0x41" fb_backend] f(3) by (simp add: flanterm_write_def call_def)
  from fb_write_displays [OF demo_ok(1) this u(3)] this show ?thesis using u by auto
qed

section \<open>Text on the screen\<close>

lemma unat_advanced:
  fixes x c :: u64
  assumes "unat x + i < unat c"
  shows "unat (x + of_nat i) = unat x + i"
proof -
  have "unat x + i < 2 ^ 64" using assms unat_u64_bound [of c] by linarith
  then show ?thesis by (simp add: unat_word_ariths unat_of_nat)
qed

lemma slot_advanced:
  assumes "unat x + i < unat c"
  shows "cell_slot c (x + of_nat i) y = cell_slot c x y + i" and "x + of_nat i < c"
  using unat_advanced [OF assms] assms by (simp_all add: cell_slot_def word_less_nat_alt)

lemma slot_between:
  assumes "x < c" and "cell_slot c x0 y0 \<le> cell_slot c x y" and "cell_slot c x y < cell_slot c x0 y0 + n" and "unat x0 + n \<le> unat c"
  shows "y = y0 \<and> x0 \<le> x \<and> unat x < unat x0 + n"
proof -
  define i where "i = cell_slot c x y - cell_slot c x0 y0"
  have i: "cell_slot c x y = cell_slot c x0 y0 + i" "i < n" using assms(2,3) by (auto simp: i_def)
  then have a: "unat x0 + i < unat c" using assms(4) by simp
  have "cell_slot c x y = cell_slot c (x0 + of_nat i) y0" using slot_advanced(1) [OF a] i(1) by simp
  then have "x = x0 + of_nat i" "y = y0" using slot_eq_iff [OF assms(1) slot_advanced(2) [OF a]] by blast+
  then show ?thesis using unat_advanced [OF a] i(2) by (simp add: word_le_nat_alt)
qed

lemma flush_frame_picture:
  assumes "flush_frame d d'"
  shows "cursor_x d' = cursor_x d" and "cursor_y d' = cursor_y d"
  using assms by (auto simp: flush_frame_def)

text \<open>C5 Printable text that fits on the line appears where the cursor is, in the colours in force, and
  the rest of the screen stays, apart from the cell the cursor moves to.\<close>

theorem fb_shows_text:
  assumes "fb_term_ok t" and "plain_text t" and "autoflush t" and "printable cs" and "fb t = Some d"
    and "unat (cursor_x d) + length cs \<le> unat (cols t)" and "cursor_y d < rows t"
  shows "\<exists>d'. flanterm_write fb_backend cs t = Some (t\<lparr>fb := Some d'\<rparr>) \<and> fb_term_ok (t\<lparr>fb := Some d'\<rparr>) \<and>
     unat (cursor_x d') = unat (cursor_x d) + length cs \<and> cursor_y d' = cursor_y d \<and>
     (\<forall>i < length cs. shows_char d' (drawn_char (cs ! i) d) (cursor_x d + of_nat i) (cursor_y d)) \<and>
     (\<forall>x y. x < cols t \<and> y < rows t \<and> (y \<noteq> cursor_y d \<or> x < cursor_x d \<or> unat (cursor_x d) + length cs < unat x) \<longrightarrow>
        shows_char d' (screen d ! cell_slot (cols t) x y) x y)"
proof -
  let ?n = "cell_slot (cols t) (cursor_x d) (cursor_y d)"
  from fb_prints [OF assms(1,2,4-7)] obtain e where
    e: "flanterm_putchars fb_backend cs t = Some (t\<lparr>fb := Some e\<rparr>)" "fb_term_ok (t\<lparr>fb := Some e\<rparr>)"
      "screen e = take ?n (screen d) @ map (\<lambda>c. drawn_char c d) cs @ drop (?n + length cs) (screen d)"
      "unat (cursor_x e) = unat (cursor_x d) + length cs" "cursor_y e = cursor_y d" by blast
  let ?u = "t\<lparr>fb := Some e\<rparr>"
  from fb_term_okD [OF e(2)] have "fb_inv (rows ?u) (cols ?u) e" by auto
  from flush_shows [OF this] obtain d' where
    d': "flanterm_fb_double_buffer_flush ?u e = Some d'" "fb_inv (rows t) (cols t) d'" "flush_frame e d'" "screen d' = screen e"
      "\<And>x y. x < cols t \<Longrightarrow> y < rows t \<Longrightarrow> shows_char d' (displayed ?u e x y) x y" by auto
  have wr: "flanterm_write fb_backend cs t = Some (t\<lparr>fb := Some d'\<rparr>)"
    using e(1) d'(1) assms(3) by (simp add: flanterm_write_def call_def fb_try_def)
  have st: "backend_safe fb_ok t" "flanterm_wf t" using assms(1) by (simp_all add: fb_term_ok_def)
  note wr
  moreover have "fb_term_ok (t\<lparr>fb := Some d'\<rparr>)" using fb_term.write_safe [OF st wr] by (simp only: fb_term_ok_def)
  moreover have "cursor_x d' = cursor_x e" "cursor_y d' = cursor_y d" using flush_frame_picture [OF d'(3)] e(5) by simp_all
  moreover from fb_term_okD [OF assms(1)] assms(5) have len: "length (screen d) = unat (rows t) * unat (cols t)"
    by (auto simp: fb_inv_def queue_ok_def)
  moreover have "shows_char d' (drawn_char (cs ! i) d) (cursor_x d + of_nat i) (cursor_y d)" if i: "i < length cs" for i
  proof -
    have a: "unat (cursor_x d) + i < unat (cols t)" using i assms(6) by simp
    note sl = slot_advanced [OF a]
    have "?n + i < length (screen d)" using slot_below [OF sl(2) assms(7)] len by (simp add: sl(1))
    then have "displayed ?u e (cursor_x d + of_nat i) (cursor_y d) = drawn_char (cs ! i) d"
      using i unat_advanced [OF a] e(4) unfolding displayed_def Let_def sl(1) by (auto simp: e(3) sl(1) nth_append)
    then show ?thesis using d'(5) [OF sl(2) assms(7)] by simp
  qed
  moreover have "shows_char d' (screen d ! cell_slot (cols t) x y) x y"
    if xy: "x < cols t" "y < rows t" "y \<noteq> cursor_y d \<or> x < cursor_x d \<or> unat (cursor_x d) + length cs < unat x" for x y
  proof -
    let ?s = "cell_slot (cols t) x y"
    have "\<not> (?n \<le> ?s \<and> ?s < ?n + length cs)" using slot_between [OF xy(1) _ _ assms(6), of "cursor_y d" y] xy(3) by auto
    then have "screen e ! ?s = screen d ! ?s" using slot_below [OF xy(1,2)] len by (auto simp: e(3) nth_append)
    moreover have "x \<noteq> cursor_x e \<or> y \<noteq> cursor_y e" using xy(3) e(4,5) by (auto simp: word_less_nat_alt)
    ultimately have "displayed ?u e x y = screen d ! ?s" by (auto simp: displayed_def)
    then show ?thesis using d'(5) [OF xy(1,2)] by simp
  qed
  ultimately show ?thesis using e(4) by (intro exI [of _ d']) simp
qed

theorem fb_shows_text_witness:
  "\<exists>d d'. fb demo_term = Some d \<and> flanterm_write fb_backend [0x48, 0x69] demo_term = Some (demo_term\<lparr>fb := Some d'\<rparr>) \<and>
     shows_char d' (drawn_char 0x48 d) 0 0 \<and> shows_char d' (drawn_char 0x69 d) 1 0"
proof -
  note f = term_ready_fields [OF demo_ready(1)]
  from demo_context obtain d where d: "fb demo_term = Some d" "cursor_x d = 0" "cursor_y d = 0" by blast
  have p: "printable [0x48, 0x69]" by (simp add: printable_def)
  from fb_shows_text [OF demo_ok(1) f(5,3) p d(1)] d(2,3) obtain d' where
    "flanterm_write fb_backend [0x48, 0x69] demo_term = Some (demo_term\<lparr>fb := Some d'\<rparr>)"
    "\<forall>i < length [0x48, 0x69 :: u8]. shows_char d' (drawn_char ([0x48, 0x69] ! i) d) (of_nat i) 0" by auto
  then show ?thesis using d(1) by (auto simp: less_Suc_eq)
qed

section \<open>The operations on the screen\<close>

text \<open>The operation returns, keeps the queue in order and makes the screen the one given.\<close>

definition makes_screen :: "'b flanterm_context \<Rightarrow> flanterm_fb_context option \<Rightarrow> flanterm_fb_char list \<Rightarrow> bool" where
  "makes_screen t res s \<longleftrightarrow> (\<exists>d. res = Some d \<and> queue_ok (rows t) (cols t) d \<and> screen d = s)"

lemma makes_screenI: "res = Some d \<Longrightarrow> shows_next (rows t) (cols t) d0 d s \<Longrightarrow> makes_screen t res s"
  by (auto simp: makes_screen_def shows_next_def)

lemma makes_screen_push:
  assumes "queue_ok (rows t) (cols t) d" and "ch_c ch < 256"
  shows "makes_screen t (push_to_queue t ch x y d) (put_cell (rows t) (cols t) x y ch (screen d))"
  using push_shows [OF assms] by (auto intro: makes_screenI)

text \<open>C7 The queue of updates refines the screen: every operation between two flushes returns and
  acts on the screen as its specification: one cell put or moved, the scroll region moved by a
  row, all cells blank, a character at the cursor after the wrap.\<close>

theorem fb_refines_screen:
  assumes "queue_ok (rows t) (cols t) d" and "scroll_top_margin t < scroll_bottom_margin t" and "scroll_bottom_margin t \<le> rows t"
  shows "(\<forall>ch x y. ch_c ch < 256 \<longrightarrow> makes_screen t (push_to_queue t ch x y d) (put_cell (rows t) (cols t) x y ch (screen d))) \<and>
     (\<forall>nx ny x y. x < cols t \<and> y < rows t \<longrightarrow> makes_screen t (flanterm_fb_move_character nx ny x y t d)
        (put_cell (rows t) (cols t) nx ny (screen d ! cell_slot (cols t) x y) (screen d))) \<and>
     makes_screen t (flanterm_fb_scroll t d) (scrolled t (empty_char d) (screen d)) \<and>
     makes_screen t (flanterm_fb_revscroll t d) (revscrolled t (empty_char d) (screen d)) \<and>
     makes_screen t (flanterm_fb_clear mv t d) (replicate (unat (rows t) * unat (cols t)) (empty_char d)) \<and>
     makes_screen t (flanterm_fb_raw_putchar b t d)
       (put_cell (rows t) (cols t) (if wraps t d then 0 else cursor_x d) (if wraps t d then wrapped_row t d else cursor_y d)
          (drawn_char b d) (wrapped_screen t d))"
proof (intro conjI allI impI)
  note q = assms(1)
  have b0: "scroll_bottom_margin t \<noteq> 0" "scroll_top_margin t \<le> rows t" using assms(2,3) by (auto simp: word_less_nat_alt word_le_nat_alt)
  show "makes_screen t (push_to_queue t ch x y d) (put_cell (rows t) (cols t) x y ch (screen d))" if "ch_c ch < 256" for ch x y
    using makes_screen_push [OF q that] .
  show "makes_screen t (flanterm_fb_move_character nx ny x y t d)
      (put_cell (rows t) (cols t) nx ny (screen d ! cell_slot (cols t) x y) (screen d))" if "x < cols t \<and> y < rows t" for nx ny x y
    using move_shows [OF q, of nx ny x y] that by (auto intro: makes_screenI)
  show "makes_screen t (flanterm_fb_scroll t d) (scrolled t (empty_char d) (screen d))"
    using scroll_shows [OF q assms(3)] assms(2) by (fastforce intro: makes_screenI)
  show "makes_screen t (flanterm_fb_revscroll t d) (revscrolled t (empty_char d) (screen d))"
    using revscroll_shows [OF q assms(3) b0(1)] b0(2) by (fastforce intro: makes_screenI)
  from clear_shows [OF q, of mv] obtain d' e where "flanterm_fb_clear mv t d = Some d'"
    "shows_next (rows t) (cols t) d e (replicate (length (screen d)) (empty_char d))"
    "d' = (if mv then e\<lparr>cursor_x := 0, cursor_y := 0\<rparr> else e)" by blast
  moreover have "e\<lparr>cursor_x := 0, cursor_y := 0\<rparr> = moved 0 0 e" by (simp add: moved_def)
  ultimately show "makes_screen t (flanterm_fb_clear mv t d) (replicate (unat (rows t) * unat (cols t)) (empty_char d))"
    using queue_okD(1) [OF q] by (auto simp: makes_screen_def shows_next_def)
  show "makes_screen t (flanterm_fb_raw_putchar b t d)
       (put_cell (rows t) (cols t) (if wraps t d then 0 else cursor_x d) (if wraps t d then wrapped_row t d else cursor_y d)
          (drawn_char b d) (wrapped_screen t d))"
    using raw_putchar_shows [OF q assms(3), of b] assms(2) by (auto simp: makes_screen_def shows_next_def)
qed

theorem fb_refines_screen_witness:
  "\<exists>d. fb demo_term = Some d \<and> length (screen d) = 4 \<and>
     makes_screen demo_term (flanterm_fb_scroll demo_term d) (scrolled demo_term (empty_char d) (screen d))"
proof -
  note f = term_ready_fields [OF demo_ready(1)]
  from demo_context obtain d where d: "fb demo_term = Some d" "fb_inv 2 2 d" "length (screen d) = 4" by blast
  have "queue_ok (rows demo_term) (cols demo_term) d" using d(2) by (simp add: fb_inv_def)
  from fb_refines_screen [OF this, of True 0] f(1,2) d show ?thesis by simp
qed

section \<open>Drawing\<close>

text \<open>C38 The shortcut of the flush: over a cell that shows the old character in the same colours,
  \<open>plot_char_fast\<close> leaves the frame buffer as \<open>plot_char\<close> does.\<close>

theorem fast_plot_correct:
  assumes "fb_geometry (rows t) (cols t) d" and "x < cols t" and "y < rows t" and "ch_c ch < 256" and "ch_c old < 256"
    and "shows_char d old x y" and "ch_fg old = ch_fg ch" and "ch_bg old = ch_bg ch"
  shows "plot_char_fast t old ch x y d = plot_char t ch x y d"
  using assms by (rule plot_char_fast_eq)

theorem fast_plot_correct_witness:
  "\<exists>d old. fb demo_term = Some d \<and> ch_c old = 0x20 \<and>
     plot_char_fast demo_term old (old\<lparr>ch_c := 0x41\<rparr>) 1 1 d = plot_char demo_term (old\<lparr>ch_c := 0x41\<rparr>) 1 1 d"
proof -
  let ?b = "blank_char (simple_args (replicate 576 0) 18 32 72)"
  from demo_context obtain d where d: "fb demo_term = Some d" "fb_inv 2 2 d" "old_cursor_x d = 0" "old_cursor_y d = 0"
    "grid d = replicate 4 ?b" by blast
  have g: "fb_geometry (rows demo_term) (cols demo_term) d" using d(2) by (simp add: fb_inv_def)
  have "synced 2 2 (spot 2 2 0 0) d" using d(2-4) by (simp add: fb_inv_def)
  then have "shows_char d ?b 1 1" using d(5) syncedD [of 2 2 "spot 2 2 0 0" d 1 1] by (simp add: spot_def cell_slot_def)
  from fast_plot_correct [OF g _ _ _ _ this, of "?b\<lparr>ch_c := 0x41\<rparr>"] d(1) show ?thesis
    by (intro exI [of _ d] exI [of _ ?b]) (simp add: blank_char_def)
qed

section \<open>The initialisation\<close>

text \<open>C21 With the built-in font and the pool the initialisation succeeds on every screen of at most
  15 000 000 pixels, and leaves a terminal in order whose cells are all blank.\<close>

theorem simple_init_correct:
  assumes "simple_ok pix w h p" and "pool \<noteq> 0" and "unat pool + 64 * 1024 * 1024 < 2 ^ 64"
  shows "\<exists>t b ptr d. flanterm_fb_simple_init pix w h p pool 0 = Some (Some (t, b), (ptr, ())) \<and> fb_term_ok t \<and>
     rows t = h div 16 \<and> cols t = w div 9 \<and> fb t = Some d \<and> cursor_x d = 0 \<and> cursor_y d = 0 \<and>
     screen d = replicate (unat (h div 16) * unat (w div 9)) \<lparr>ch_c = 0x20, ch_fg = 0x00aaaaaa, ch_bg = 0xffffffff\<rparr> \<and>
     (\<forall>x y. x < cols t \<and> y < rows t \<and> (x, y) \<noteq> (0, 0) \<longrightarrow>
        shows_char d \<lparr>ch_c = 0x20, ch_fg = 0x00aaaaaa, ch_bg = 0xffffffff\<rparr> x y)"
proof -
  let ?a = "simple_args pix w h p"
  have b: "blank_char ?a = \<lparr>ch_c = 0x20, ch_fg = 0x00aaaaaa, ch_bg = 0xffffffff\<rparr>"
    by (simp add: blank_char_def simple_args_def given_def)
  from simple_init_ready [OF assms] obtain t bl ptr where
    t: "flanterm_fb_simple_init pix w h p pool 0 = Some (Some (t, bl), (ptr, ()))" "term_ready ?a t" by blast
  from t(2) obtain d where d: "rows t = init_rows ?a" "cols t = init_cols ?a" "fb t = Some d" "fb_inv (rows t) (cols t) d" "fresh ?a d"
    unfolding term_ready_def by blast
  have g: "grid d = replicate (unat (rows t) * unat (cols t)) (blank_char ?a)" and o: "old_cursor_x d = 0" "old_cursor_y d = 0"
    "cursor_x d = 0" "cursor_y d = 0" using d(1,2,5) by (simp_all add: fresh_def)
  have "shows_char d (blank_char ?a) x y" if xy: "x < cols t" "y < rows t" "(x, y) \<noteq> (0, 0)" for x y
  proof -
    have "0 < cols t" using xy(1) by (metis word_gt_0 word_not_simps(1))
    then have "cell_slot (cols t) x y \<notin> spot (rows t) (cols t) 0 0" using xy slot_eq_iff [of x "cols t" 0 y 0] by (auto simp: spot_def)
    then show ?thesis
      using d(4) o syncedD [of "rows t" "cols t" "spot (rows t) (cols t) 0 0" d x y] xy slot_below [OF xy(1,2)]
      by (auto simp: fb_inv_def g)
  qed
  then show ?thesis
    using t(1) term_ready_ok [OF t(2)] d(1-3) o(3,4) fresh_screen [OF d(5)] unfolding b simple_dims
    by (intro exI [of _ t] exI [of _ bl] exI [of _ ptr] exI [of _ d]) simp
qed

theorem simple_init_correct_witness:
  "\<exists>t b ptr. flanterm_fb_simple_init (replicate 307200 0) 640 480 2560 0x100000 0 = Some (Some (t, b), (ptr, ())) \<and>
     fb_term_ok t \<and> rows t = 30 \<and> cols t = 71"
proof -
  have "simple_ok (replicate 307200 0) 640 480 2560" by (simp add: simple_ok_def)
  from simple_init_correct [OF this, of "0x100000"] show ?thesis by auto
qed

text \<open>C20 With an allocator of the client's that keeps count of its blocks: a failed initialisation has
  given back every block it took, and \<open>flanterm_fb_deinit\<close> gives back those of one that succeeded,
  each with the size it was asked for.\<close>

theorem fb_init_balanced:
  assumes "args_ok a" and al: "malloc_fn al = Some m" "free_fn al = Some f"
    and mlaw: "\<And>s h p h'. m s h = (p, h') \<Longrightarrow> live h' = (if p = 0 then live h else add_mset (p, s) (live h))"
    and flaw: "\<And>p s h. live (f p s h) = live h - {#(p, s)#}"
    and first: "fst (m sizeof_fb_context h) \<noteq> 0"
  shows "\<exists>r h'. flanterm_fb_init a al (ptr, h) = Some (r, (ptr, h')) \<and>
      (case r of None \<Rightarrow> live h' = live h | Some (t, b) \<Rightarrow> live (flanterm_fb_deinit b (Some f) h') = live h)"
proof -
  from init_chain_eq [OF assms(1)] obtain t where
    t: "flanterm_fb_init a al (ptr, h) = init_chain al ptr (init_blocks a) t zero_blocks (ptr, h)" by (metis fst_conv)
  obtain p h1 where p: "m sizeof_fb_context h = (p, h1)" by force
  then have p0: "p \<noteq> 0" using first by simp
  let ?b = "zero_blocks\<lparr>blk_ctx := p\<rparr>"
  have hd: "init_blocks a = (sizeof_fb_context, \<lambda>p b. b\<lparr>blk_ctx := p\<rparr>) # tl (init_blocks a)"
    by (simp add: init_blocks_def Let_def split: prod.split)
  have "init_chain al ptr (init_blocks a) t zero_blocks (ptr, h) = init_chain al ptr (tl (init_blocks a)) t ?b (ptr, h1)"
    by (subst hd) (simp add: alloc_step_def fb_malloc_def al(1) p p0)
  moreover have "live h1 = live h + mset (held ?b)" using mlaw [OF p] p0 init_fits(2) [OF p0] by simp
  moreover have "blk_ctx ?b \<noteq> 0" using p0 by simp
  ultimately show ?thesis using init_chain_balanced [OF al mlaw flaw init_fits(1) [OF p0], where h = h1 and L = "live h" and orig = ptr and t = t and ptr = ptr] t by simp
qed

theorem fb_init_balanced_witness:
  "\<exists>r h'. flanterm_fb_init (simple_args (replicate 576 0) 18 32 72)
       \<lparr>malloc_fn = Some (\<lambda>s h. (0x1000, add_mset (0x1000, s) h)), free_fn = Some (\<lambda>p s h. h - {#(p, s)#}), pool_base = 0\<rparr>
       (0, {#}) = Some (r, (0, h')) \<and>
     (case r of None \<Rightarrow> h' = {#} | Some (t, b) \<Rightarrow> flanterm_fb_deinit b (Some (\<lambda>p s h. h - {#(p, s)#})) h' = {#})"
  by (rule fb_init_balanced [where live = "\<lambda>h. h" and m = "\<lambda>s h. (0x1000, add_mset (0x1000, s) h)"])
    (simp_all add: simple_args_ok demo_simple)

section \<open>Where it goes wrong\<close>

text \<open>C39 \<open>flanterm_fb_full_refresh\<close> with every cell pending draws the cursor, which forgets the update
  of its cell and keeps its item: the next different character there is put beyond the queue.\<close>

theorem full_refresh_loses_item:
  assumes "fb_geometry (rows t) (cols t) d" and "queue_ok (rows t) (cols t) d" and "cursor_enabled t"
    and "queue_i d = unat (rows t) * unat (cols t)" and "cursor_x d < cols t" and "cursor_y d < rows t"
    and "ch \<noteq> screen d ! cell_slot (cols t) (cursor_x d) (cursor_y d)"
  shows "\<exists>d'. flanterm_fb_full_refresh t d = Some d' \<and> push_to_queue t ch (cursor_x d) (cursor_y d) d' = None"
  using assms by (rule full_refresh_overflows)

lemma queue_ok_pending:
  assumes "queue_ok r c d" and "i < unat r * unat c" and "screen d ! i \<noteq> grid d ! i"
  shows "0 < queue_i d"
proof (cases "cell_map d ! i")
  case None
  then show ?thesis using assms queue_okD(1) [OF assms(1)] by (simp add: nth_screen view_def)
next
  case (Some k)
  then show ?thesis using queue_okD(9) [OF assms(1,2) Some] by simp
qed

theorem full_refresh_loses_item_witness:
  "\<exists>d d1 d2. fb tiny_term = Some d \<and> push_to_queue tiny_term (drawn_char 0x41 d) 0 0 d = Some d1 \<and>
     flanterm_fb_full_refresh tiny_term d1 = Some d2 \<and> push_to_queue tiny_term (drawn_char 0x42 d) 0 0 d2 = None"
proof -
  let ?b = "blank_char (simple_args (replicate 144 0) 9 16 36)"
  from demo_ready(2) obtain d where d: "fb tiny_term = Some d" "fb_inv (rows tiny_term) (cols tiny_term) d"
    "fresh (simple_args (replicate 144 0) 9 16 36) d" unfolding term_ready_def by blast
  have c: "cursor_x d = 0" "cursor_y d = 0" "grid d = [?b]" using d(3) by (simp_all add: fresh_def simple_dims)
  have q: "queue_ok (rows tiny_term) (cols tiny_term) d" "fb_geometry (rows tiny_term) (cols tiny_term) d" using d(2) by (simp_all add: fb_inv_def)
  from push_shows [OF q(1) drawn_char_small, of "0x41" d 0 0] obtain d1 where
    d1: "push_to_queue tiny_term (drawn_char 0x41 d) 0 0 d = Some d1"
      "shows_next (rows tiny_term) (cols tiny_term) d d1 (put_cell (rows tiny_term) (cols tiny_term) 0 0 (drawn_char 0x41 d) (screen d))" by blast
  have r: "requeued d d1" and q1: "queue_ok 1 1 d1" using d1(2) by (simp_all add: shows_next_def)
  have s1: "screen d1 = [drawn_char 0x41 d]"
    using d1(2) c(3) by (simp add: shows_next_def put_cell_def cell_slot_def screen_def)
  have g1: "grid d1 = [?b]" using r c(3) by (auto simp: requeued_def)
  have "drawn_char 0x41 d \<noteq> ?b" by (simp add: drawn_char_def blank_char_def)
  then have "queue_i d1 = 1" using queue_ok_pending [OF q1, of 0] queue_okD(5) [OF q1] s1 g1 by simp
  moreover have "fb_geometry 1 1 d1" using q(2) fb_inv_requeued(1) [OF r] by simp
  moreover have "cursor_x d1 = 0" "cursor_y d1 = 0" using r c(1,2) by (auto simp: requeued_def)
  moreover have "cursor_enabled tiny_term" using term_ready_fields(4) [OF demo_ready(2)] .
  ultimately obtain d2 where "flanterm_fb_full_refresh tiny_term d1 = Some d2" "push_to_queue tiny_term (drawn_char 0x42 d) 0 0 d2 = None"
    using full_refresh_loses_item [of tiny_term d1 "drawn_char 0x42 d"] q1 s1 by (auto simp: cell_slot_def drawn_char_def)
  then show ?thesis using d(1) d1(1) by blast
qed

text \<open>The wrap compares the row with the number of columns: on a screen with fewer columns than
  rows the cursor goes back up.\<close>

lemma wrap_wrong_row:
  assumes "cols t \<le> cursor_y d + 1" and "cursor_y d + 1 \<noteq> scroll_bottom_margin t"
  shows "wrapped_row t d = cols t - 1"
  using assms by (simp add: wrapped_row_def)

text \<open>The bound of the pool is checked after a sum that wraps: a request near the top of the
  address space is granted, behind the start of the pool.\<close>

lemma bump_alloc_wraps: "bump_alloc pool (- 8) 16 = (pool + 16, 8)"
  by (simp add: bump_alloc_def FLANTERM_FB_BUMP_ALLOC_POOL_SIZE_def)

lemma bump_alloc_bound:
  assumes "bump_alloc pool s ptr = (p, ptr')" and "unat ptr + unat s < 2 ^ 64" and "pool \<noteq> 0"
    and "unat pool + 64 * 1024 * 1024 < 2 ^ 64" and "p \<noteq> 0"
  shows "p = pool + ptr \<and> unat ptr' = unat ptr + unat s \<and> unat ptr' \<le> 64 * 1024 * 1024"
proof -
  have u: "unat (ptr + s) = unat ptr + unat s" using assms(2) by (simp add: unat_word_ariths)
  from assms(1,5) have "\<not> ptr + s > FLANTERM_FB_BUMP_ALLOC_POOL_SIZE" "p = pool + ptr" "ptr' = ptr + s"
    by (auto simp: bump_alloc_def Let_def split: if_splits)
  then show ?thesis using u by (simp add: FLANTERM_FB_BUMP_ALLOC_POOL_SIZE_def word_less_nat_alt not_less)
qed

text \<open>The failure path frees through the context, also when it is the context that could not be had.\<close>

lemma init_without_context_faults:
  assumes "malloc_fn al = Some m" and "free_fn al = Some f" and "fst (m sizeof_fb_context h) = 0"
  shows "flanterm_fb_init a al (ptr, h) = None"
proof -
  obtain h1 where "m sizeof_fb_context h = (0, h1)" using assms(3) by (cases "m sizeof_fb_context h") simp
  then have "alloc_step al orig zero_blocks sizeof_fb_context k (ptr, h) = None" for orig k
    using assms(1,2) by (simp add: alloc_step_def fb_malloc_def init_fail_def zero_blocks_def)
  then show ?thesis by (simp add: flanterm_fb_init_def Let_def split: prod.split)
qed

text \<open>A font nine dots wide is copied as if its rows took nine bits, though they are one byte:
  256 rows of 16 bytes are 4096, and 4608 are read.\<close>

lemma nine_dot_font_overread: "FONT_BYTES 8 16 = 4096" "FONT_BYTES 9 16 = 4608"
  by (simp_all add: FONT_BYTES_def)

lemma nine_dot_font_faults:
  assumes "arg_font a = Some bits" and "arg_font_width a = 9" and "arg_font_height a = 16" and "length bits = 4096"
  shows "init_font_bits a d = None"
  using assms by (simp add: init_font_bits_def chosen_font_def nine_dot_font_overread)

text \<open>Restoring before anything was saved: black on black.\<close>

lemma restore_unsaved_black: "text_fg (flanterm_fb_restore_state (init_colours a)) = 0" "text_bg (flanterm_fb_restore_state (init_colours a)) = 0"
  by (simp_all add: flanterm_fb_restore_state_def init_colours_def)

end
