(* ===== verification/Ssfn.thy ===== *)
theory Ssfn
  imports Paint
begin

text \<open>
  The part of ssfn.h that the kernel compiles (\<open>SSFN_CONSOLEBITMAP_TRUECOLOR\<close>): the UTF-8 decoder
  and the renderer of bitmap fonts.

  The font is the list of its bytes, the frame buffer the list of its dots; \<open>None\<close> is an access
  outside of them, or one to a dot at an address that is not a multiple of four.  The null pointer
  is the absent font or the empty frame buffer.  An \<open>int\<close> is an integer: no operation below
  reaches the bounds where C leaves its value open.
\<close>

section \<open>UTF-8\<close>

text \<open>A pointer into a string is the rest of it.\<close>

definition ssfn_utf8 :: "u8 list \<Rightarrow> (u32 \<times> u8 list) option" where
  "ssfn_utf8 s =
     do { a \<leftarrow> buf_get s 0;
          let low = (\<lambda>b. ucast (b AND 0x3f));
          if a AND 128 \<noteq> 0 then
            if a AND 32 = 0 then
              do { b \<leftarrow> buf_get s 1;
                   Some (push_bit 6 (ucast (a AND 0x1f)) OR low b, drop 2 s) }
            else if a AND 16 = 0 then
              do { b \<leftarrow> buf_get s 1; c \<leftarrow> buf_get s 2;
                   Some (push_bit 12 (ucast (a AND 0xf)) OR push_bit 6 (low b) OR low c, drop 3 s) }
            else if a AND 8 = 0 then
              do { b \<leftarrow> buf_get s 1; c \<leftarrow> buf_get s 2; e \<leftarrow> buf_get s 3;
                   Some (push_bit 18 (ucast (a AND 0x7)) OR push_bit 12 (low b) OR push_bit 6 (low c) OR low e, drop 4 s) }
            else Some (0, drop 1 s)
          else Some (ucast a, drop 1 s) }"

section \<open>State\<close>

record ssfn_buf =
  dst_w :: int
  dst_h :: int
  dst_p :: u16
  dst_x :: int
  dst_y :: int
  dst_fg :: u32
  dst_bg :: u32

definition SSFN_OK :: int where "SSFN_OK = 0"
definition SSFN_ERR_INVINP :: int where "SSFN_ERR_INVINP = - 4"
definition SSFN_ERR_NOGLYPH :: int where "SSFN_ERR_NOGLYPH = - 7"

text \<open>Little-endian numbers of the font.\<close>

definition font_num :: "u8 list \<Rightarrow> nat \<Rightarrow> int \<Rightarrow> int option" where
  "font_num f n p =
     (if 0 \<le> p \<and> p + int n \<le> int (length f)
      then Some (\<Sum>k<n. uint (f ! (nat p + k)) * 256 ^ k) else None)"

section \<open>The table of characters\<close>

text \<open>The search: \<open>ptr\<close> goes over the table, \<open>i\<close> over the code points.  \<open>Some None\<close>: no glyph.\<close>

function find_chr :: "u8 list \<Rightarrow> u32 \<Rightarrow> int \<Rightarrow> nat \<Rightarrow> int option option" where
  "find_chr f unicode ptr i =
     (if i < 0x110000 then
        case buf_get f ptr of None \<Rightarrow> None | Some a \<Rightarrow>
          if a = 0xff then find_chr f unicode (ptr + 1) (i + 65535 + 1)
          else if a AND 0xc0 = 0xc0 then
            (case buf_get f (ptr + 1) of None \<Rightarrow> None
             | Some b \<Rightarrow> find_chr f unicode (ptr + 2) (i + (unat (a AND 0x3f) * 256 + unat b) + 1))
          else if a AND 0xc0 = 0x80 then find_chr f unicode (ptr + 1) (i + unat (a AND 0x3f) + 1)
          else if of_nat i = unicode then Some (Some ptr)
          else
            (case buf_get f (ptr + 1) of None \<Rightarrow> None
             | Some n \<Rightarrow> find_chr f unicode (ptr + 6 + uint n * (if a AND 0x40 \<noteq> 0 then 6 else 5)) (i + 1))
      else Some None)"
  by pat_completeness auto
termination
  by (relation "measure (\<lambda>(f, u, p, i). 0x110000 - i)") auto

declare find_chr.simps [simp del]

section \<open>Drawing\<close>

text \<open>\<open>w\<close>, the absolute width of the destination; \<open>s\<close>, the dots of a line of the frame buffer.\<close>

definition ssfn_w :: "ssfn_buf \<Rightarrow> int" where
  "ssfn_w b = (if dst_w b < 0 then - dst_w b else dst_w b)"

definition ssfn_s :: "ssfn_buf \<Rightarrow> int" where
  "ssfn_s b = uint (dst_p b) div 4"

definition row_shown :: "ssfn_buf \<Rightarrow> int \<Rightarrow> bool" where
  "row_shown b y \<longleftrightarrow> dst_h b = 0 \<or> dst_y b + y < dst_h b"

definition col_shown :: "ssfn_buf \<Rightarrow> int \<Rightarrow> bool" where
  "col_shown b j \<longleftrightarrow> ssfn_w b = 0 \<or> dst_x b + j < ssfn_w b"

text \<open>One line of background, \<open>n\<close> dots wide.\<close>

function bg_line :: "ssfn_buf \<Rightarrow> int \<Rightarrow> int \<Rightarrow> int \<Rightarrow> u32 list \<Rightarrow> u32 list option" where
  "bg_line b n j p pix =
     (if j < n \<and> col_shown b j then Option.bind (buf_set pix p (dst_bg b)) (bg_line b n (j + 1) (p + 1)) else Some pix)"
  by pat_completeness auto
termination
  by (relation "measure (\<lambda>(b, n, j, p, pix). nat (n - j))") auto

declare bg_line.simps [simp del]

text \<open>Lines of background down to line \<open>lim\<close>: the position and line reached, and the dots.\<close>

type_synonym pen = "int \<times> int \<times> u32 list"

function bg_lines :: "ssfn_buf \<Rightarrow> int \<Rightarrow> int \<Rightarrow> pen \<Rightarrow> pen option" where
  "bg_lines b n lim (pos, y, pix) =
     (if y < lim \<and> row_shown b y
      then Option.bind (bg_line b n 0 pos pix) (\<lambda>pix. bg_lines b n lim (pos + ssfn_s b, y + 1, pix))
      else Some (pos, y, pix))"
  by pat_completeness auto
termination
  by (relation "measure (\<lambda>(b, n, lim, pos, y, pix). nat (lim - y))") auto

declare bg_lines.simps [simp del]

text \<open>One dot of a bitmap; the byte and the mask go on from dot to dot.\<close>

definition bitmap_dot :: "u8 list \<Rightarrow> ssfn_buf \<Rightarrow> int \<Rightarrow> nat \<Rightarrow> int \<times> int \<times> u32 list \<Rightarrow> (int \<times> int \<times> u32 list) option" where
  "bitmap_dot f b pos l = (\<lambda>(frg, m, pix).
     let (frg, m) = (if m > 0x80 then (frg + 1, 1) else (frg, m)) in
     if dst_x b + int l \<ge> 0 \<and> col_shown b (int l) then
       do { bits \<leftarrow> buf_get f frg;
            pix \<leftarrow> (if uint bits AND m \<noteq> 0 then buf_set pix (pos + int l) (dst_fg b)
                    else if dst_bg b \<noteq> 0 then buf_set pix (pos + int l) (dst_bg b)
                    else Some pix);
            Some (frg, 2 * m, pix) }
     else Some (frg, 2 * m, pix))"

fun bitmap_lines :: "u8 list \<Rightarrow> ssfn_buf \<Rightarrow> nat \<Rightarrow> nat \<Rightarrow> int \<times> int \<Rightarrow> pen \<Rightarrow> pen option" where
  "bitmap_lines f b k 0 fm pen = Some pen"
| "bitmap_lines f b k (Suc j) (frg, m) (pos, y, pix) =
     (if row_shown b y
      then Option.bind (for_range (bitmap_dot f b pos) 0 k (frg, m, pix))
             (\<lambda>(frg, m, pix). bitmap_lines f b k j (frg, m) (pos + ssfn_s b, y + 1, pix))
      else Some (pos, y, pix))"

text \<open>One fragment of the glyph at \<open>chr\<close>, with its entry at \<open>ptr\<close>.\<close>

definition draw_fragment :: "u8 list \<Rightarrow> ssfn_buf \<Rightarrow> int \<Rightarrow> bool \<Rightarrow> int \<Rightarrow> pen \<Rightarrow> pen option" where
  "draw_fragment f b chr wide ptr = (\<lambda>(pos, y, pix).
     do { p0 \<leftarrow> buf_get f ptr;
          p1 \<leftarrow> buf_get f (ptr + 1);
          if p0 = 255 \<and> p1 = 255 then Some (pos, y, pix)
          else do {
            frg \<leftarrow> font_num f (if wide then 4 else 3) (ptr + 2);
            kind \<leftarrow> buf_get f frg;
            if kind AND 0xe0 \<noteq> 0x80 then Some (pos, y, pix)
            else do {
              n \<leftarrow> buf_get f (chr + 2);
              (pos, y, pix) \<leftarrow>
                (if dst_bg b \<noteq> 0 then bg_lines b (uint n) (uint p1) (pos, y, pix)
                 else Some (pos + (uint p1 - y) * ssfn_s b, uint p1, pix));
              j \<leftarrow> buf_get f (frg + 1);
              bitmap_lines f b (8 * (unat (kind AND 0x1f) + 1)) (unat j + 1) (frg + 2, 1) (pos, y, pix) } } })"

fun draw_fragments :: "u8 list \<Rightarrow> ssfn_buf \<Rightarrow> int \<Rightarrow> bool \<Rightarrow> nat \<Rightarrow> int \<Rightarrow> pen \<Rightarrow> pen option" where
  "draw_fragments f b chr wide 0 ptr pen = Some pen"
| "draw_fragments f b chr wide (Suc n) ptr pen =
     Option.bind (draw_fragment f b chr wide ptr pen) (draw_fragments f b chr wide n (ptr + (if wide then 6 else 5)))"

definition font_valid :: "u8 list \<Rightarrow> bool option" where
  "font_valid f =
     do { a \<leftarrow> buf_get f 0; b \<leftarrow> buf_get f 1; c \<leftarrow> buf_get f 2; d \<leftarrow> buf_get f 3;
          Some (a = 0x53 \<and> b = 0x46 \<and> c = 0x4e \<and> d = 0x32) }"

text \<open>The error code, the destination and the dots; \<open>src\<close> is \<open>ssfn_src\<close>.\<close>

definition ssfn_putc :: "u8 list option \<Rightarrow> u32 \<Rightarrow> ssfn_buf \<times> u32 list \<Rightarrow> (int \<times> ssfn_buf \<times> u32 list) option" where
  "ssfn_putc src unicode = (\<lambda>(b, pix).
     case src of None \<Rightarrow> Some (SSFN_ERR_INVINP, b, pix)
     | Some f \<Rightarrow>
       do { valid \<leftarrow> font_valid f;
            if \<not> valid \<or> pix = [] \<or> dst_p b = 0 then Some (SSFN_ERR_INVINP, b, pix)
            else do {
              table \<leftarrow> font_num f 4 16;
              found \<leftarrow> find_chr f unicode table 0;
              case found of None \<Rightarrow> Some (SSFN_ERR_NOGLYPH, b, pix)
              | Some chr \<Rightarrow>
                do { kind \<leftarrow> buf_get f chr;
                     n \<leftarrow> buf_get f (chr + 1);
                     w \<leftarrow> buf_get f (chr + 2);
                     h \<leftarrow> buf_get f (chr + 3);
                     ax \<leftarrow> buf_get f (chr + 4);
                     ay \<leftarrow> buf_get f (chr + 5);
                     let at = dst_y b * uint (dst_p b) + dst_x b * 4;
                     if at mod 4 \<noteq> 0 then None
                     else do {
                       pen \<leftarrow> draw_fragments f b chr (kind AND 0x40 \<noteq> 0) (unat n) (chr + 6) (at div 4, 0, pix);
                       (_, _, pix) \<leftarrow> (if dst_bg b \<noteq> 0 then bg_lines b (uint w) (uint h) pen else Some pen);
                       Some (SSFN_OK, b\<lparr>dst_x := dst_x b + uint ax, dst_y := dst_y b + uint ay\<rparr>, pix) } } } })"

end
