(* ===== verification/Console.thy ===== *)
theory Console
  imports Ssfn
begin

text \<open>
  The console of \<open>kprint\<close> (drivers/graphics/framebuffer.c): pixels, the background, the scroll, a
  character, a string, and the start.  The frame buffer is what \<open>gtx_buffer.framebuffer_addr\<close> and
  \<open>ssfn_dst.ptr\<close> point to; the answer of the boot loader is an argument of \<open>framebuffer_init\<close>.
\<close>

section \<open>State\<close>

record graphic_buffer =
  framebuffer_width :: u64
  framebuffer_height :: u64
  gtx_pitch :: u64
  gtx_bpp :: u16
  gtx_glyph_width :: int
  gtx_glyph_height :: int

record console_state =
  gtx_buffer :: graphic_buffer
  ssfn_src :: "u8 list option"
  ssfn_dst :: ssfn_buf
  dots :: "u32 list"

definition DEFAULT_BG :: u32 where "DEFAULT_BG = 0x0b060f"
definition PURPLE :: u32 where "PURPLE = 0x734ab9"

text \<open>A \<open>uint64_t\<close> as an \<open>int\<close>.\<close>

definition to_int :: "u64 \<Rightarrow> int" where
  "to_int v = sint (ucast v :: 32 word)"

definition gtx_stride :: "console_state \<Rightarrow> u64" where
  "gtx_stride s = gtx_pitch (gtx_buffer s) div 4"

abbreviation map_dst :: "(ssfn_buf \<Rightarrow> ssfn_buf) \<Rightarrow> console_state \<Rightarrow> console_state" where
  "map_dst f s \<equiv> s\<lparr>ssfn_dst := f (ssfn_dst s)\<rparr>"

section \<open>Pixels\<close>

definition draw_pixel :: "int \<Rightarrow> int \<Rightarrow> u32 \<Rightarrow> console_state \<Rightarrow> console_state option" where
  "draw_pixel x y color s =
     (let idx = of_int y * gtx_stride s + of_int x in
      map_option (\<lambda>pix. s\<lparr>dots := pix\<rparr>) (buf_set (dots s) (uint idx) color))"

definition term_set_bg :: "u32 \<Rightarrow> console_state \<Rightarrow> console_state option" where
  "term_set_bg bg_color s =
     (let s = map_dst (\<lambda>b. b\<lparr>dst_bg := bg_color\<rparr>) s in
      for_range (\<lambda>i. for_range (\<lambda>j s. draw_pixel (to_int (of_nat i)) (to_int (of_nat j)) (dst_bg (ssfn_dst s)) s)
          0 (unat (framebuffer_height (gtx_buffer s))))
        0 (unat (framebuffer_width (gtx_buffer s))) s)"

text \<open>One dot of the scroll: up by the height of a glyph, and the background in its place.\<close>

definition shift_dot :: "u32 \<Rightarrow> u64 \<Rightarrow> u64 \<Rightarrow> u64 \<Rightarrow> u64 \<Rightarrow> u32 list \<Rightarrow> u32 list option" where
  "shift_dot bg stride gh i j pix =
     do { current \<leftarrow> buf_get pix (uint (i * stride + j));
          pix \<leftarrow> buf_set pix (uint (i * stride + j)) bg;
          buf_set pix (uint ((i - gh) * stride + j)) current }"

definition term_line_shift_up :: "console_state \<Rightarrow> console_state option" where
  "term_line_shift_up s =
     (let gh = of_int (gtx_glyph_height (gtx_buffer s)) :: u64 in
      map_option (\<lambda>pix. s\<lparr>dots := pix\<rparr>)
        (for_range (\<lambda>i. for_range (\<lambda>j. shift_dot (dst_bg (ssfn_dst s)) (gtx_stride s) gh (of_nat i) (of_nat j))
             0 (unat (framebuffer_width (gtx_buffer s))))
           (unat gh) (unat (framebuffer_height (gtx_buffer s))) (dots s)))"

section \<open>Characters\<close>

text \<open>\<open>ssfn_putc\<close> on the state; its result is not looked at.\<close>

definition console_putc :: "u32 \<Rightarrow> console_state \<Rightarrow> console_state option" where
  "console_putc unicode s =
     map_option (\<lambda>(_, b, pix). s\<lparr>ssfn_dst := b, dots := pix\<rparr>) (ssfn_putc (ssfn_src s) unicode (ssfn_dst s, dots s))"

text \<open>Before a character: the cursor, the end of the line, the end of the screen.\<close>

definition place_cursor :: "int \<Rightarrow> int \<Rightarrow> u32 \<Rightarrow> console_state \<Rightarrow> console_state option" where
  "place_cursor x y color s =
     (let g = gtx_buffer s;
          s = map_dst (\<lambda>b. b\<lparr>dst_x := x, dst_y := y, dst_fg := color\<rparr>) s;
          s = (if of_int (dst_x (ssfn_dst s) + gtx_glyph_width g) > framebuffer_width g
               then map_dst (\<lambda>b. b\<lparr>dst_x := 0, dst_y := dst_y b + gtx_glyph_height g\<rparr>) s else s)
      in if of_int (dst_y (ssfn_dst s)) \<ge> framebuffer_height g
         then term_line_shift_up
                (map_dst (\<lambda>b. b\<lparr>dst_x := 0, dst_y := to_int (framebuffer_height g - of_int (gtx_glyph_height g))\<rparr>) s)
         else Some s)"

definition backspace :: "console_state \<Rightarrow> console_state option" where
  "backspace s =
     (let g = gtx_buffer s; back = map_dst (\<lambda>b. b\<lparr>dst_x := dst_x b - gtx_glyph_width g\<rparr>) in
      if dst_x (ssfn_dst s) = 0 then
        if dst_y (ssfn_dst s) = 0 then Some s
        else map_option back (console_putc 0x20 (map_dst (\<lambda>b. b\<lparr>
               dst_x := to_int (framebuffer_width g - of_int (gtx_glyph_width g)), dst_y := dst_y b - gtx_glyph_height g\<rparr>) s))
      else map_option back (console_putc 0x20 (back s)))"

function term_print_char :: "u32 \<Rightarrow> int \<Rightarrow> int \<Rightarrow> u32 \<Rightarrow> console_state \<Rightarrow> console_state option" where
  "term_print_char unicode x y color s =
     Option.bind (place_cursor x y color s) (\<lambda>s.
       if unicode = 0 then Some s
       else if unicode = 0x0a then
         Some (map_dst (\<lambda>b. b\<lparr>dst_x := 0, dst_y := dst_y b + gtx_glyph_height (gtx_buffer s)\<rparr>) s)
       else if unicode = 0x09 then
         for_range (\<lambda>_ s. term_print_char 0x20 (dst_x (ssfn_dst s)) (dst_y (ssfn_dst s)) color s) 0 4 s
       else if unicode = 0x08 then backspace s
       else console_putc unicode s)"
  by pat_completeness auto
termination
  by (relation "measure (\<lambda>(u, x, y, c, s). if u = 0x09 then 1 else 0)") auto

declare term_print_char.simps [simp del]

text \<open>A string is its bytes with the terminator; a pointer into it, the rest.\<close>

function term_print_string :: "u8 list \<Rightarrow> u32 \<Rightarrow> console_state \<Rightarrow> console_state option" where
  "term_print_string str color s =
     (case str of [] \<Rightarrow> None | a # _ \<Rightarrow>
        if a = 0 then Some s
        else case ssfn_utf8 str of None \<Rightarrow> None
        | Some (u, rest) \<Rightarrow>
            Option.bind (term_print_char u (dst_x (ssfn_dst s)) (dst_y (ssfn_dst s)) color s) (term_print_string rest color))"
  by pat_completeness auto
termination
  by (relation "measure (\<lambda>(str, color, s). length str)")
    (auto simp: ssfn_utf8_def Option.bind_eq_Some_conv Let_def split: if_splits)

declare term_print_string.simps [simp del]

definition c_string :: "string \<Rightarrow> u8 list" where
  "c_string str = map (\<lambda>c. of_nat (of_char c)) str @ [0]"

section \<open>The start\<close>

record limine_framebuffer =
  lf_address :: "u32 list"
  lf_width :: u64
  lf_height :: u64
  lf_pitch :: u64
  lf_bpp :: u16

definition banner_line :: string where
  "banner_line = replicate 113 CHR ''-'' @ [CHR 0x0a]"

definition framebuffer_init :: "limine_framebuffer \<Rightarrow> u8 list \<Rightarrow> console_state \<Rightarrow> console_state option" where
  "framebuffer_init lf unifont s =
     (let g = \<lparr>framebuffer_width = lf_width lf, framebuffer_height = lf_height lf, gtx_pitch = lf_pitch lf, gtx_bpp = lf_bpp lf,
               gtx_glyph_width = 8, gtx_glyph_height = 16\<rparr>;
          s = \<lparr>gtx_buffer = g, ssfn_src = Some unifont,
               ssfn_dst = (ssfn_dst s)\<lparr>dst_w := to_int (lf_width lf), dst_h := to_int (lf_height lf), dst_p := ucast (lf_pitch lf),
                                      dst_x := 0, dst_y := 0\<rparr>,
               dots = lf_address lf\<rparr>;
          print = (\<lambda>str. term_print_string (c_string str) PURPLE)
      in do { s \<leftarrow> term_set_bg DEFAULT_BG s;
              s \<leftarrow> print banner_line s;
              s \<leftarrow> print [CHR 0x0a] s;
              s \<leftarrow> print (''Kernel Booted -- Welcome to FrazzOS 64-bit!'' @ [CHR 0x0a]) s;
              s \<leftarrow> print [CHR 0x0a] s;
              print banner_line s })"

end
