(* ===== verification/Ssfn_Correct.thy ===== *)
theory Ssfn_Correct
  imports Ssfn
begin

text \<open>
  What \<open>ssfn_putc\<close> draws: the box of the glyph, cut to the screen, in the foreground where a
  fragment of the glyph has a bit and in the background elsewhere.
\<close>

section \<open>The box\<close>

text \<open>A screen with a background colour whose lines lie inside the frame buffer of \<open>L\<close> dots.\<close>

definition ssfn_ready :: "ssfn_buf \<Rightarrow> nat \<Rightarrow> bool" where
  "ssfn_ready b L \<longleftrightarrow> dst_bg b \<noteq> 0 \<and> 0 < dst_w b \<and> 0 < dst_h b \<and> dst_w b \<le> ssfn_s b \<and> dst_h b * ssfn_s b \<le> int L \<and>
     uint (dst_p b) mod 4 = 0 \<and> 0 \<le> dst_x b \<and> 0 \<le> dst_y b"

definition rows_in :: "ssfn_buf \<Rightarrow> int \<Rightarrow> int" where
  "rows_in b n = min n (dst_h b - dst_y b)"

definition cols_in :: "ssfn_buf \<Rightarrow> int \<Rightarrow> int" where
  "cols_in b n = min n (dst_w b - dst_x b)"

definition dot_pos :: "ssfn_buf \<Rightarrow> int \<Rightarrow> int" where
  "dot_pos b r = (dst_y b + r) * ssfn_s b + dst_x b"

definition line_dots :: "ssfn_buf \<Rightarrow> int \<Rightarrow> int \<Rightarrow> nat set" where
  "line_dots b n r = {nat (dot_pos b r) ..< nat (dot_pos b r) + nat (cols_in b n)}"

definition box :: "ssfn_buf \<Rightarrow> int \<Rightarrow> int \<Rightarrow> int \<Rightarrow> nat set" where
  "box b n y0 y1 = (\<Union>r \<in> {y0..<y1}. line_dots b n r)"

lemma shown_iff:
  assumes "ssfn_ready b L"
  shows "col_shown b j \<longleftrightarrow> j < dst_w b - dst_x b" and "row_shown b y \<longleftrightarrow> y < dst_h b - dst_y b"
  using assms by (auto simp: ssfn_ready_def col_shown_def row_shown_def ssfn_w_def)

lemma glyph_dot_bounds:
  assumes "ssfn_ready b L" and "0 \<le> r" and "r < dst_h b - dst_y b" and "0 \<le> c" and "c < dst_w b - dst_x b"
  shows "0 \<le> dot_pos b r" and "dot_pos b r + c < int L"
    and "(dot_pos b r + c) div ssfn_s b = dst_y b + r" and "(dot_pos b r + c) mod ssfn_s b = dst_x b + c"
proof -
  have s: "0 < ssfn_s b" "0 \<le> dst_x b" "0 \<le> dst_y b" "dst_x b + c < ssfn_s b" "dst_h b * ssfn_s b \<le> int L"
    using assms by (auto simp: ssfn_ready_def)
  then show "0 \<le> dot_pos b r" using assms(2) by (simp add: dot_pos_def)
  have "(dst_y b + r + 1) * ssfn_s b \<le> dst_h b * ssfn_s b" using assms(3) s(1) by (intro mult_right_mono) simp_all
  then show "dot_pos b r + c < int L" using s by (simp add: dot_pos_def algebra_simps)
  have e: "dot_pos b r + c = (dst_x b + c) + (dst_y b + r) * ssfn_s b" by (simp add: dot_pos_def)
  show "(dot_pos b r + c) div ssfn_s b = dst_y b + r" "(dot_pos b r + c) mod ssfn_s b = dst_x b + c"
    using s assms(4) unfolding e by (simp_all add: div_pos_pos_trivial)
qed

lemma box_step: "y0 \<le> y1 \<Longrightarrow> box b n y0 (y1 + 1) = box b n y0 y1 \<union> line_dots b n y1"
proof -
  assume "y0 \<le> y1"
  then have "{y0..<y1 + 1} = insert y1 {y0..<y1}" by auto
  then show ?thesis by (auto simp: box_def)
qed

lemma box_first: "y0 < y1 \<Longrightarrow> box b n y0 y1 = line_dots b n y0 \<union> box b n (y0 + 1) y1"
proof -
  assume "y0 < y1"
  then have "{y0..<y1} = insert y0 {y0 + 1..<y1}" by auto
  then show ?thesis by (auto simp: box_def)
qed

lemma box_none [simp]: "y1 \<le> y0 \<Longrightarrow> box b n y0 y1 = {}"
  by (simp add: box_def)

lemma box_max: "box b n y0 y1 = box b n y0 (max y0 y1)"
  by (cases "y0 \<le> y1") (simp_all add: max_def)

lemma box_join: "y0 \<le> y1 \<Longrightarrow> y1 \<le> y2 \<Longrightarrow> box b n y0 y1 \<union> box b n y1 y2 = box b n y0 y2"
proof -
  assume "y0 \<le> y1" "y1 \<le> y2"
  then have "{y0..<y2} = {y0..<y1} \<union> {y1..<y2}" by auto
  then show ?thesis by (auto simp: box_def)
qed

section \<open>Background\<close>

lemma bg_line_paints:
  assumes "\<And>j. col_shown b j \<longleftrightarrow> j < C" and "0 \<le> p"
    and "\<And>i. 0 \<le> i \<Longrightarrow> i < min n C - j \<Longrightarrow> p + i < int (length pix) \<and> v (nat (p + i)) = dst_bg b"
  shows "bg_line b n j p pix = Some (paint {nat p ..< nat p + nat (min n C - j)} v pix)"
  using assms(2,3)
proof (induction "nat (n - j)" arbitrary: j p pix)
  case 0
  then show ?case by (subst bg_line.simps) simp
next
  case (Suc d)
  show ?case
  proof (cases "j < C")
    case False
    then show ?thesis using assms(1) by (subst bg_line.simps) simp
  next
    case True
    have jn: "j < n" using Suc.hyps(2) by simp
    have p: "p < int (length pix)" "v (nat p) = dst_bg b" using Suc.prems(2) [of 0] True jn by simp_all
    let ?pix = "pix[nat p := dst_bg b]"
    have set: "buf_set pix p (dst_bg b) = Some ?pix" using p Suc.prems(1) by (simp add: buf_set_def)
    have "bg_line b n (j + 1) (p + 1) ?pix = Some (paint {nat (p + 1) ..< nat (p + 1) + nat (min n C - (j + 1))} v ?pix)"
    proof (rule Suc.hyps(1))
      show "d = nat (n - (j + 1))" using Suc.hyps(2) by simp
      show "0 \<le> p + 1" using Suc.prems(1) by simp
      show "p + 1 + i < int (length ?pix) \<and> v (nat (p + 1 + i)) = dst_bg b" if "0 \<le> i" "i < min n C - (j + 1)" for i
        using Suc.prems(2) [of "i + 1"] that by (simp add: add.commute add.left_commute)
    qed
    moreover have "paint {nat (p + 1) ..< nat (p + 1) + nat (min n C - (j + 1))} v ?pix = paint {nat p ..< nat p + nat (min n C - j)} v pix"
    proof (rule nth_equalityI)
      fix i assume "i < length (paint {nat (p + 1) ..< nat (p + 1) + nat (min n C - (j + 1))} v ?pix)"
      moreover have "nat (p + 1) = Suc (nat p)" "nat (min n C - j) = Suc (nat (min n C - (j + 1)))" using Suc.prems(1) True jn by simp_all
      ultimately show "paint {nat (p + 1) ..< nat (p + 1) + nat (min n C - (j + 1))} v ?pix ! i = paint {nat p ..< nat p + nat (min n C - j)} v pix ! i"
        using p(2) by (cases "i = nat p") (auto simp: nth_list_update)
    qed simp
    ultimately show ?thesis using set True jn assms(1) by (subst bg_line.simps) simp
  qed
qed

lemma bg_lines_paint:
  assumes "ssfn_ready b (length pix)" and "0 \<le> y"
    and "\<And>r c. y \<le> r \<Longrightarrow> r < rows_in b lim \<Longrightarrow> 0 \<le> c \<Longrightarrow> c < cols_in b n \<Longrightarrow> v (nat (dot_pos b r + c)) = dst_bg b"
  shows "bg_lines b n lim (dot_pos b y, y, pix) =
    Some (dot_pos b (max y (rows_in b lim)), max y (rows_in b lim), paint (box b n y (rows_in b lim)) v pix)"
  using assms
proof (induction "nat (rows_in b lim - y)" arbitrary: y pix)
  case 0
  then have "\<not> (y < lim \<and> row_shown b y)" by (auto simp: rows_in_def shown_iff)
  then show ?case using 0 by (subst bg_lines.simps) (auto simp: max_def)
next
  case (Suc d)
  note sh = shown_iff [OF Suc.prems(1)]
  have y: "y < lim" "row_shown b y" "y < rows_in b lim" using Suc.hyps(2) by (auto simp: rows_in_def sh)
  have b: "dot_pos b y + i < int (length pix)" if "0 \<le> i" "i < cols_in b n" for i
    using glyph_dot_bounds(2) [OF Suc.prems(1,2)] y(2) that by (auto simp: sh cols_in_def)
  have p0: "0 \<le> dot_pos b y" using Suc.prems(1,2) by (simp add: dot_pos_def ssfn_ready_def)
  have "bg_line b n 0 (dot_pos b y) pix = Some (paint {nat (dot_pos b y) ..< nat (dot_pos b y) + nat (min n (dst_w b - dst_x b) - 0)} v pix)"
    by (rule bg_line_paints [OF sh(1) p0]) (use b Suc.prems(3) y in \<open>simp add: cols_in_def\<close>)
  then have l: "bg_line b n 0 (dot_pos b y) pix = Some (paint (line_dots b n y) v pix)" by (simp add: line_dots_def cols_in_def)
  have nx: "dot_pos b y + ssfn_s b = dot_pos b (y + 1)" by (simp add: dot_pos_def algebra_simps)
  have "bg_lines b n lim (dot_pos b (y + 1), y + 1, paint (line_dots b n y) v pix) =
    Some (dot_pos b (max (y + 1) (rows_in b lim)), max (y + 1) (rows_in b lim), paint (box b n (y + 1) (rows_in b lim)) v (paint (line_dots b n y) v pix))"
    by (rule Suc.hyps(1)) (use Suc.hyps(2) Suc.prems in simp_all)
  moreover have "max (y + 1) (rows_in b lim) = max y (rows_in b lim)" using y(3) by simp
  ultimately show ?case using y l by (subst bg_lines.simps) (simp add: nx paint_paint box_first Un_commute)
qed

section \<open>Bitmaps\<close>

text \<open>Bit \<open>n\<close> of the data at \<open>D\<close>, least significant bit first; where byte and mask stand after \<open>n\<close> dots.\<close>

definition data_bit :: "u8 list \<Rightarrow> int \<Rightarrow> nat \<Rightarrow> bool" where
  "data_bit f D n = bit (f ! nat (D + int (n div 8))) (n mod 8)"

definition after_dots :: "int \<Rightarrow> nat \<Rightarrow> int \<times> int" where
  "after_dots D n = (if n = 0 then (D, 1) else (D + int ((n - 1) div 8), 2 ^ ((n - 1) mod 8 + 1)))"

lemma after_dots_next:
  "(let (frg, m) = after_dots D n in if m > 0x80 then (frg + 1, 1) else (frg, m)) = (D + int (n div 8), 2 ^ (n mod 8))"
proof (cases n)
  case 0
  then show ?thesis by (simp add: after_dots_def)
next
  case (Suc k)
  show ?thesis
  proof (cases "k mod 8 = 7")
    case True
    then have "Suc k mod 8 = 0" "Suc k div 8 = Suc (k div 8)" by (simp_all add: mod_Suc div_Suc)
    then show ?thesis using Suc True by (simp add: after_dots_def)
  next
    case False
    then have "k mod 8 < 7" using mod_less_divisor [of 8 k] by linarith
    then have "(2 :: int) ^ (k mod 8 + 1) \<le> 2 ^ 7" by (intro power_increasing) simp_all
    moreover have "Suc k mod 8 = Suc (k mod 8)" "Suc k div 8 = k div 8" using False by (simp_all add: mod_Suc div_Suc)
    ultimately show ?thesis using Suc by (simp add: after_dots_def)
  qed
qed

lemma after_dots_Suc: "after_dots D (Suc n) = (D + int (n div 8), 2 * 2 ^ (n mod 8))"
  by (simp add: after_dots_def)

lemma byte_bit: "uint b AND 2 ^ k \<noteq> 0 \<longleftrightarrow> bit b k" for b :: u8
  using bit_imp_le_length [of b k] by (auto simp: and_exp_eq_0_iff_not_bit bit_uint_iff)

text \<open>One dot.\<close>

lemma bitmap_dot_paints:
  assumes "ssfn_ready b (length pix)" and "0 \<le> r" and "r < dst_h b - dst_y b" and "0 \<le> D" and "D + int (n div 8) < int (length f)"
    and "int l < dst_w b - dst_x b \<Longrightarrow> v (nat (dot_pos b r + int l)) = (if data_bit f D n then dst_fg b else dst_bg b)"
  shows "bitmap_dot f b (dot_pos b r) l (fst (after_dots D n), snd (after_dots D n), pix) =
    Some (fst (after_dots D (Suc n)), snd (after_dots D (Suc n)),
      paint (if int l < dst_w b - dst_x b then {nat (dot_pos b r) + l} else {}) v pix)"
proof -
  let ?p = "dot_pos b r + int l"
  have nx: "(if snd (after_dots D n) > 0x80 then (fst (after_dots D n) + 1, 1) else (fst (after_dots D n), snd (after_dots D n))) = (D + int (n div 8), 2 ^ (n mod 8))"
    using after_dots_next [of D n] by (simp only: case_prod_beta Let_def)
  let ?F = "D + int (n div 8)" and ?m = "2 ^ (n mod 8) :: int"
  have step: "bitmap_dot f b (dot_pos b r) l (fst (after_dots D n), snd (after_dots D n), pix) =
    (if 0 \<le> dst_x b + int l \<and> col_shown b (int l) then
       do { bits \<leftarrow> buf_get f ?F;
            pix \<leftarrow> (if uint bits AND ?m \<noteq> 0 then buf_set pix ?p (dst_fg b)
                    else if dst_bg b \<noteq> 0 then buf_set pix ?p (dst_bg b) else Some pix);
            Some (?F, 2 * ?m, pix) }
     else Some (?F, 2 * ?m, pix))"
    unfolding bitmap_dot_def Let_def prod.case nx ..
  have x: "0 \<le> dst_x b + int l" "dst_bg b \<noteq> 0" using assms(1) by (auto simp: ssfn_ready_def)
  show ?thesis
  proof (cases "int l < dst_w b - dst_x b")
    case False
    then have "\<not> col_shown b (int l)" using shown_iff(1) [OF assms(1)] by simp
    then show ?thesis using False by (simp add: step after_dots_Suc)
  next
    case True
    then have sh: "col_shown b (int l)" using shown_iff(1) [OF assms(1)] by simp
    have p: "0 \<le> ?p" "?p < int (length pix)" using glyph_dot_bounds(1,2) [OF assms(1-3), of "int l"] True by auto
    have np: "nat ?p = nat (dot_pos b r) + l" using glyph_dot_bounds(1) [OF assms(1-3), of 0] True by (simp add: nat_add_distrib)
    have get: "buf_get f (D + int (n div 8)) = Some (f ! nat (D + int (n div 8)))" using assms(4,5) by (simp add: buf_get_def)
    have set: "buf_set pix ?p z = Some (pix[nat (dot_pos b r) + l := z])" for z using p by (simp add: buf_set_def np)
    have "pix[nat (dot_pos b r) + l := v (nat ?p)] = paint {nat (dot_pos b r) + l} v pix"
      by (rule nth_equalityI) (auto simp: nth_list_update np)
    then show ?thesis
      using True x sh assms(6) [OF True] by (simp add: step after_dots_Suc get set byte_bit data_bit_def split: if_splits)
  qed
qed

text \<open>One line of \<open>k\<close> dots, after \<open>n\<close> dots of the lines before.\<close>

lemma bitmap_line_paints:
  assumes "ssfn_ready b (length pix)" and "0 \<le> r" and "r < dst_h b - dst_y b" and "0 \<le> D" and "D + int ((n + k) div 8) \<le> int (length f)"
    and "8 dvd n" "8 dvd k"
    and "\<And>l. l < k \<Longrightarrow> int l < dst_w b - dst_x b \<Longrightarrow> v (nat (dot_pos b r + int l)) = (if data_bit f D (n + l) then dst_fg b else dst_bg b)"
  shows "for_range (bitmap_dot f b (dot_pos b r)) 0 k (fst (after_dots D n), snd (after_dots D n), pix) =
    Some (fst (after_dots D (n + k)), snd (after_dots D (n + k)), paint (line_dots b (int k) r) v pix)"
proof -
  let ?A = "\<lambda>l. {nat (dot_pos b r) ..< nat (dot_pos b r) + nat (min (int l) (dst_w b - dst_x b))}"
  let ?P = "\<lambda>l st. st = (fst (after_dots D (n + l)), snd (after_dots D (n + l)), paint (?A l) v pix)"
  have "\<exists>st. for_range (bitmap_dot f b (dot_pos b r)) 0 k (fst (after_dots D n), snd (after_dots D n), pix) = Some st \<and> ?P k st"
  proof (rule for_range_total)
    fix l st assume l: "l < k" "?P l st"
    have "n + l < n + k" using l(1) by simp
    moreover obtain a where "n + k = 8 * a" using assms(6,7) by (metis dvd_add dvdE)
    ultimately have "(n + l) div 8 < (n + k) div 8" by auto
    then have d: "D + int ((n + l) div 8) < int (length f)" using assms(5) by linarith
    have "bitmap_dot f b (dot_pos b r) l (fst (after_dots D (n + l)), snd (after_dots D (n + l)), paint (?A l) v pix) =
        Some (fst (after_dots D (Suc (n + l))), snd (after_dots D (Suc (n + l))),
          paint (if int l < dst_w b - dst_x b then {nat (dot_pos b r) + l} else {}) v (paint (?A l) v pix))"
      by (rule bitmap_dot_paints) (use assms d l in simp_all)
    moreover have "?A l \<union> (if int l < dst_w b - dst_x b then {nat (dot_pos b r) + l} else {}) = ?A (Suc l)"
      by (auto simp: min_def)
    ultimately show "\<exists>st'. bitmap_dot f b (dot_pos b r) l st = Some st' \<and> ?P (Suc l) st'" using l(2) by (simp add: paint_paint)
  qed simp_all
  then show ?thesis by (simp add: line_dots_def cols_in_def)
qed

text \<open>All its lines, \<open>q\<close> of them drawn.\<close>

lemma after_lines_dvd: "8 dvd k \<Longrightarrow> (q * k) div 8 = q * (k div 8)" for k q :: nat
  by (metis div_mult_swap)

lemma bitmap_lines_paint:
  assumes "ssfn_ready b (length pix)" and "0 \<le> y" and "0 \<le> D" and "8 dvd k" and "D + int ((q + j) * (k div 8)) \<le> int (length f)"
    and "\<And>r c. y \<le> r \<Longrightarrow> r < rows_in b (y + int j) \<Longrightarrow> c < k \<Longrightarrow> int c < cols_in b (int k) \<Longrightarrow>
      v (nat (dot_pos b r + int c)) = (if data_bit f D ((q + nat (r - y)) * k + c) then dst_fg b else dst_bg b)"
  shows "bitmap_lines f b k j (after_dots D (q * k)) (dot_pos b y, y, pix) =
    Some (dot_pos b (max y (rows_in b (y + int j))), max y (rows_in b (y + int j)), paint (box b (int k) y (rows_in b (y + int j))) v pix)"
  using assms
proof (induction j arbitrary: q y pix)
  case 0
  have "rows_in b y \<le> y" by (simp add: rows_in_def)
  then show ?case by simp
next
  case (Suc j)
  obtain frg m where fm: "after_dots D (q * k) = (frg, m)" by force
  show ?case
  proof (cases "row_shown b y")
    case False
    then have "rows_in b (y + int (Suc j)) \<le> y" using shown_iff(2) [OF Suc.prems(1)] by (simp add: rows_in_def)
    then show ?thesis using False by (simp add: fm)
  next
    case True
    then have y: "y < dst_h b - dst_y b" using shown_iff(2) [OF Suc.prems(1)] by simp
    have yr: "y < rows_in b (y + int (Suc j))" using y by (simp add: rows_in_def)
    have e: "(q * k + k) div 8 = Suc q * (k div 8)" using after_lines_dvd [OF Suc.prems(4), of "Suc q"] by (simp add: add.commute)
    have "Suc q * (k div 8) \<le> (q + Suc j) * (k div 8)" by (intro mult_le_mono1) simp
    then have d: "D + int ((q * k + k) div 8) \<le> int (length f)" unfolding e using Suc.prems(5) by linarith
    have "for_range (bitmap_dot f b (dot_pos b y)) 0 k (fst (after_dots D (q * k)), snd (after_dots D (q * k)), pix) =
        Some (fst (after_dots D (q * k + k)), snd (after_dots D (q * k + k)), paint (line_dots b (int k) y) v pix)"
    proof (rule bitmap_line_paints [OF Suc.prems(1,2) y Suc.prems(3) d])
      fix l assume l: "l < k" "int l < dst_w b - dst_x b"
      then show "v (nat (dot_pos b y + int l)) = (if data_bit f D (q * k + l) then dst_fg b else dst_bg b)"
        using Suc.prems(6) [of y l] yr by (simp add: cols_in_def)
    qed (use Suc.prems(4) in simp_all)
    moreover have "q * k + k = Suc q * k" by simp
    moreover have nx: "dot_pos b y + ssfn_s b = dot_pos b (y + 1)" by (simp add: dot_pos_def algebra_simps)
    moreover have "bitmap_lines f b k j (after_dots D (Suc q * k)) (dot_pos b (y + 1), y + 1, paint (line_dots b (int k) y) v pix) =
        Some (dot_pos b (max (y + 1) (rows_in b (y + 1 + int j))), max (y + 1) (rows_in b (y + 1 + int j)),
          paint (box b (int k) (y + 1) (rows_in b (y + 1 + int j))) v (paint (line_dots b (int k) y) v pix))"
    proof (rule Suc.IH)
      fix r c assume r: "y + 1 \<le> r" "r < rows_in b (y + 1 + int j)" "c < k" "int c < cols_in b (int k)"
      have n: "Suc q + nat (r - (y + 1)) = q + nat (r - y)" using r(1) by simp
      show "v (nat (dot_pos b r + int c)) = (if data_bit f D ((Suc q + nat (r - (y + 1))) * k + c) then dst_fg b else dst_bg b)"
        unfolding n using Suc.prems(6) [of r c] r by (simp add: add.commute add.left_commute)
    qed (use Suc.prems in simp_all)
    moreover have "y + 1 + int j = y + int (Suc j)" by simp
    moreover have "max (y + 1) (rows_in b (y + int (Suc j))) = max y (rows_in b (y + int (Suc j)))" using yr by simp
    moreover note box_first [OF yr, of b "int k"]
    ultimately show ?thesis using True by (simp add: fm paint_paint Un_commute)
  qed
qed

section \<open>Fragments\<close>

text \<open>A fragment: its top line, its number of lines, its data; as wide as the glyph.\<close>

definition fragment_at :: "u8 list \<Rightarrow> nat \<Rightarrow> bool \<Rightarrow> int \<Rightarrow> (int \<times> nat \<times> int) option" where
  "fragment_at f w wide ptr =
     do { p0 \<leftarrow> buf_get f ptr; p1 \<leftarrow> buf_get f (ptr + 1);
          frg \<leftarrow> font_num f (if wide then 4 else 3) (ptr + 2);
          kind \<leftarrow> buf_get f frg; j \<leftarrow> buf_get f (frg + 1);
          if \<not> (p0 = 255 \<and> p1 = 255) \<and> kind AND 0xe0 = 0x80 \<and> 8 * (unat (kind AND 0x1f) + 1) = w \<and>
             frg + 2 + int ((unat j + 1) * (w div 8)) \<le> int (length f)
          then Some (uint p1, unat j + 1, frg + 2) else None }"

fun fragments_at :: "u8 list \<Rightarrow> nat \<Rightarrow> bool \<Rightarrow> nat \<Rightarrow> int \<Rightarrow> (int \<times> nat \<times> int) list option" where
  "fragments_at f w wide 0 ptr = Some []"
| "fragments_at f w wide (Suc n) ptr =
     do { x \<leftarrow> fragment_at f w wide ptr;
          xs \<leftarrow> fragments_at f w wide n (ptr + (if wide then 6 else 5));
          Some (x # xs) }"

text \<open>The fragments from top to bottom, inside a glyph of \<open>h\<close> lines, from line \<open>y\<close> on.\<close>

fun stacked :: "int \<Rightarrow> int \<Rightarrow> (int \<times> nat \<times> int) list \<Rightarrow> bool" where
  "stacked y h [] \<longleftrightarrow> y \<le> h"
| "stacked y h ((t, n, D) # fs) \<longleftrightarrow> y \<le> t \<and> stacked (t + int n) h fs"

definition ink :: "u8 list \<Rightarrow> nat \<Rightarrow> (int \<times> nat \<times> int) list \<Rightarrow> int \<Rightarrow> nat \<Rightarrow> bool" where
  "ink f w fs r c \<longleftrightarrow> (\<exists>(t, n, D) \<in> set fs. t \<le> r \<and> r < t + int n \<and> data_bit f D (nat (r - t) * w + c))"

lemma stacked_above: "stacked y h fs \<Longrightarrow> r < y \<Longrightarrow> \<not> ink f w fs r c"
proof (induction y h fs rule: stacked.induct)
  case (2 y h t n D fs)
  then have "\<not> ink f w fs r c" "r < t" by auto
  then show ?case by (auto simp: ink_def)
qed (simp add: ink_def)

lemma stacked_le: "stacked y h fs \<Longrightarrow> y \<le> h"
  by (induction y h fs rule: stacked.induct) auto

lemma fragment_at_Some:
  assumes "fragment_at f w wide ptr = Some (t, n, D)"
  shows "8 dvd w" and "2 \<le> D" and "D + int (n * (w div 8)) \<le> int (length f)" and "0 \<le> t"
    and "\<exists>p0 p1 kind j. buf_get f ptr = Some p0 \<and> buf_get f (ptr + 1) = Some p1 \<and> \<not> (p0 = 255 \<and> p1 = 255) \<and>
      font_num f (if wide then 4 else 3) (ptr + 2) = Some (D - 2) \<and> buf_get f (D - 2) = Some kind \<and> buf_get f (D - 1) = Some j \<and>
      kind AND 0xe0 = 0x80 \<and> 8 * (unat (kind AND 0x1f) + 1) = w \<and> t = uint p1 \<and> n = unat j + 1"
proof -
  let ?C = "\<lambda>p0 p1 frg kind j :: u8. \<not> (p0 = 255 \<and> p1 = 255) \<and> kind AND 0xe0 = 0x80 \<and> 8 * (unat (kind AND 0x1f) + 1) = w \<and>
    frg + 2 + int ((unat j + 1) * (w div 8)) \<le> int (length f)"
  from assms obtain p0 p1 frg kind j where
    g: "buf_get f ptr = Some p0" "buf_get f (ptr + 1) = Some p1" "font_num f (if wide then 4 else 3) (ptr + 2) = Some frg"
      "buf_get f frg = Some kind" "buf_get f (frg + 1) = Some j" and
    r: "(if ?C p0 p1 frg kind j then Some (uint p1, unat j + 1, frg + 2) else None) = Some (t, n, D)"
    unfolding fragment_at_def Option.bind_eq_Some_conv by blast
  have c: "?C p0 p1 frg kind j" using r by (metis option.distinct(1))
  have e: "t = uint p1" "n = unat j + 1" "D = frg + 2" using r unfolding if_P [OF c] by simp_all
  have "0 \<le> frg" using g(4) by (auto simp: buf_get_Some)
  then show "2 \<le> D" using e by simp
  show "8 dvd w" using c by (metis dvd_triv_left)
  show "D + int (n * (w div 8)) \<le> int (length f)" using c unfolding e by blast
  show "0 \<le> t" using e by simp
  have "frg = D - 2" "frg + 1 = D - 1" using e by simp_all
  then show "\<exists>p0 p1 kind j. buf_get f ptr = Some p0 \<and> buf_get f (ptr + 1) = Some p1 \<and> \<not> (p0 = 255 \<and> p1 = 255) \<and>
      font_num f (if wide then 4 else 3) (ptr + 2) = Some (D - 2) \<and> buf_get f (D - 2) = Some kind \<and> buf_get f (D - 1) = Some j \<and>
      kind AND 0xe0 = 0x80 \<and> 8 * (unat (kind AND 0x1f) + 1) = w \<and> t = uint p1 \<and> n = unat j + 1"
    using g c e by metis
qed

text \<open>The colours of the box of a glyph.\<close>

definition glyph_colour :: "u8 list \<Rightarrow> ssfn_buf \<Rightarrow> nat \<Rightarrow> (int \<times> nat \<times> int) list \<Rightarrow> nat \<Rightarrow> u32" where
  "glyph_colour f b w fs p =
     (if ink f w fs (int p div ssfn_s b - dst_y b) (nat (int p mod ssfn_s b - dst_x b)) then dst_fg b else dst_bg b)"

lemma glyph_colour_dot:
  assumes "ssfn_ready b L" and "0 \<le> r" and "r < dst_h b - dst_y b" and "0 \<le> c" and "c < dst_w b - dst_x b"
  shows "glyph_colour f b w fs (nat (dot_pos b r + c)) = (if ink f w fs r (nat c) then dst_fg b else dst_bg b)"
  using glyph_dot_bounds [OF assms] assms(4) by (simp add: glyph_colour_def)

text \<open>One fragment, down to its last line, with the pen anywhere above it.\<close>

lemma draw_fragment_paints:
  assumes "ssfn_ready b (length pix)" and "fragment_at f w wide ptr = Some (t, n, D)" and "buf_get f (chr + 2) = Some cw" and "unat cw = w"
    and "0 \<le> y" and "y \<le> t"
    and "\<And>r c. y \<le> r \<Longrightarrow> r < rows_in b (t + int n) \<Longrightarrow> c < w \<Longrightarrow> int c < cols_in b (int w) \<Longrightarrow>
      v (nat (dot_pos b r + int c)) = (if t \<le> r \<and> data_bit f D (nat (r - t) * w + c) then dst_fg b else dst_bg b)"
  defines "Y \<equiv> \<lambda>y. max 0 (rows_in b y)"
  shows "draw_fragment f b chr wide ptr (dot_pos b (Y y), Y y, pix) =
    Some (dot_pos b (Y (t + int n)), Y (t + int n), paint (box b (int w) (Y y) (Y (t + int n))) v pix)"
proof -
  note fr = fragment_at_Some [OF assms(2)]
  from fr(5) obtain p0 p1 kind j where p: "buf_get f ptr = Some p0" "buf_get f (ptr + 1) = Some p1" "\<not> (p0 = 255 \<and> p1 = 255)"
    "font_num f (if wide then 4 else 3) (ptr + 2) = Some (D - 2)" "buf_get f (D - 2) = Some kind" "buf_get f (D - 1) = Some j"
    "kind AND 0xe0 = 0x80" "8 * (unat (kind AND 0x1f) + 1) = w" "t = uint p1" "n = unat j + 1" by blast
  have u: "uint cw = int w" by (simp only: uint_nat assms(4))
  have bg: "dst_bg b \<noteq> 0" using assms(1) by (simp add: ssfn_ready_def)
  have y0: "0 \<le> Y y" by (simp add: Y_def)
  have v: "v (nat (dot_pos b r + c)) = dst_bg b" if "Y y \<le> r" "r < rows_in b t" "0 \<le> c" "c < cols_in b (int w)" for r c
  proof -
    have r: "y \<le> r" "r < t" "r < rows_in b (t + int n)" using that(1,2) by (auto simp: Y_def rows_in_def split: if_splits)
    show ?thesis using assms(7) [OF r(1,3), of "nat c"] r(2) that(3,4) by (simp add: cols_in_def nat_less_iff)
  qed
  have m: "max (Y y) (rows_in b t) = Y t" using assms(5,6) by (auto simp: Y_def rows_in_def)
  have A: "bg_lines b (uint cw) (uint p1) (dot_pos b (Y y), Y y, pix) =
      Some (dot_pos b (Y t), Y t, paint (box b (int w) (Y y) (rows_in b t)) v pix)"
    using bg_lines_paint [OF assms(1) y0, of t "int w" v] v by (simp add: u m flip: p(9))
  have m2: "max (Y t) (rows_in b (Y t + int n)) = Y (t + int n)" and fits: "Y t = t \<or> rows_in b (Y t + int n) \<le> Y t"
    using fr(4) by (auto simp: Y_def rows_in_def)
  let ?pix = "paint (box b (int w) (Y y) (rows_in b t)) v pix"
  have "bitmap_lines f b w n (after_dots D (0 * w)) (dot_pos b (Y t), Y t, ?pix) =
      Some (dot_pos b (max (Y t) (rows_in b (Y t + int n))), max (Y t) (rows_in b (Y t + int n)),
        paint (box b (int w) (Y t) (rows_in b (Y t + int n))) v ?pix)"
  proof (rule bitmap_lines_paint)
    fix r c assume r: "Y t \<le> r" "r < rows_in b (Y t + int n)" "c < w" "int c < cols_in b (int w)"
    then have "Y t = t" using fits by simp
    then show "v (nat (dot_pos b r + int c)) = (if data_bit f D ((0 + nat (r - Y t)) * w + c) then dst_fg b else dst_bg b)"
      using assms(7) [of r c] r assms(6) by simp
  qed (use assms(1) fr in \<open>simp_all add: Y_def\<close>)
  then have B: "bitmap_lines f b w n (D, 1) (dot_pos b (Y t), Y t, ?pix) =
      Some (dot_pos b (Y (t + int n)), Y (t + int n), paint (box b (int w) (Y t) (rows_in b (Y t + int n))) v ?pix)"
    by (simp add: m2 after_dots_def)
  have boxes: "box b (int w) (Y y) (rows_in b t) = box b (int w) (Y y) (Y t)"
    "box b (int w) (Y t) (rows_in b (Y t + int n)) = box b (int w) (Y t) (Y (t + int n))"
    "Y y \<le> Y t" "Y t \<le> Y (t + int n)"
    using box_max [of b "int w" "Y y" "rows_in b t"] box_max [of b "int w" "Y t" "rows_in b (Y t + int n)"]
      max.cobounded1 [of "Y y" "rows_in b t"] max.cobounded1 [of "Y t" "rows_in b (Y t + int n)"] unfolding m m2 by simp_all
  have "draw_fragment f b chr wide ptr (dot_pos b (Y y), Y y, pix) =
      bitmap_lines f b (8 * (unat (kind AND 0x1f) + 1)) (unat j + 1) (D, 1) (dot_pos b (Y t), Y t, ?pix)"
    using p(1,2,4-7) bg A assms(3) p(3)
    by (auto simp: draw_fragment_def simp del: bitmap_lines.simps mult_Suc_right add_Suc_right)
  also have "\<dots> = Some (dot_pos b (Y (t + int n)), Y (t + int n), paint (box b (int w) (Y t) (Y (t + int n))) v ?pix)"
    unfolding p(8) p(10) [symmetric] using B unfolding boxes .
  finally show ?thesis unfolding boxes(1) paint_paint box_join [OF boxes(3,4)] .
qed

lemma draw_fragments_paint:
  assumes "ssfn_ready b (length pix)" and "fragments_at f w wide n ptr = Some fs" and "buf_get f (chr + 2) = Some cw" and "unat cw = w"
    and "0 \<le> y" and "stacked y h fs"
    and "\<And>r c. y \<le> r \<Longrightarrow> r < rows_in b h \<Longrightarrow> c < w \<Longrightarrow> int c < cols_in b (int w) \<Longrightarrow>
      v (nat (dot_pos b r + int c)) = (if ink f w fs r c then dst_fg b else dst_bg b)"
  defines "Y \<equiv> \<lambda>y. max 0 (rows_in b y)"
  shows "\<exists>e pix'. draw_fragments f b chr wide n ptr (dot_pos b (Y y), Y y, pix) = Some (dot_pos b (Y e), Y e, pix') \<and>
    pix' = paint (box b (int w) (Y y) (Y e)) v pix \<and> y \<le> e \<and> e \<le> h \<and> (\<forall>r c. e \<le> r \<longrightarrow> \<not> ink f w fs r c)"
  using assms(1-7)
proof (induction n arbitrary: ptr fs y pix)
  case 0
  show ?case using 0(2,6) by (intro exI [of _ y] exI [of _ pix]) (simp add: ink_def)
next
  case (Suc n)
  let ?step = "if wide then 6 else 5 :: int"
  from Suc.prems(2) obtain x fs' where
    x: "fragment_at f w wide ptr = Some x" "fragments_at f w wide n (ptr + ?step) = Some fs'" "fs = x # fs'"
    by (auto simp: Option.bind_eq_Some_conv)
  obtain t k D where "x = (t, k, D)" by (rule prod_cases3)
  with x have fr: "fragment_at f w wide ptr = Some (t, k, D)" "fragments_at f w wide n (ptr + ?step) = Some fs'" "fs = (t, k, D) # fs'"
    by simp_all
  have st: "y \<le> t" "stacked (t + int k) h fs'" using Suc.prems(6) fr(3) by simp_all
  have lower: "\<not> ink f w fs' r c" if "r < t + int k" for r c using stacked_above [OF st(2) that] .
  have i1: "ink f w fs r c \<longleftrightarrow> t \<le> r \<and> data_bit f D (nat (r - t) * w + c)" if "r < t + int k" for r c
    using lower [OF that] that fr(3) by (auto simp: ink_def)
  have i2: "ink f w fs r c \<longleftrightarrow> ink f w fs' r c" if "t + int k \<le> r" for r c
    using that fr(3) by (auto simp: ink_def)
  have le: "rows_in b (t + int k) \<le> rows_in b h" using stacked_le [OF st(2)] by (simp add: rows_in_def)
  have "draw_fragment f b chr wide ptr (dot_pos b (Y y), Y y, pix) =
      Some (dot_pos b (Y (t + int k)), Y (t + int k), paint (box b (int w) (Y y) (Y (t + int k))) v pix)"
    unfolding Y_def
  proof (rule draw_fragment_paints [OF Suc.prems(1) fr(1) Suc.prems(3,4,5) st(1)])
    fix r c assume r: "y \<le> r" "r < rows_in b (t + int k)" "c < w" "int c < cols_in b (int w)"
    then have "r < t + int k" by (simp add: rows_in_def)
    then show "v (nat (dot_pos b r + int c)) = (if t \<le> r \<and> data_bit f D (nat (r - t) * w + c) then dst_fg b else dst_bg b)"
      using Suc.prems(7) [of r c] r le i1 [of r c] by simp
  qed
  moreover have "\<exists>e pix'. draw_fragments f b chr wide n (ptr + ?step)
        (dot_pos b (Y (t + int k)), Y (t + int k), paint (box b (int w) (Y y) (Y (t + int k))) v pix) =
      Some (dot_pos b (Y e), Y e, pix') \<and>
      pix' = paint (box b (int w) (Y (t + int k)) (Y e)) v (paint (box b (int w) (Y y) (Y (t + int k))) v pix) \<and>
      t + int k \<le> e \<and> e \<le> h \<and> (\<forall>r c. e \<le> r \<longrightarrow> \<not> ink f w fs' r c)"
  proof (rule Suc.IH [OF _ fr(2) Suc.prems(3,4) _ st(2)])
    show "0 \<le> t + int k" using st(1) Suc.prems(5) by simp
    fix r c assume r: "t + int k \<le> r" "r < rows_in b h" "c < w" "int c < cols_in b (int w)"
    then show "v (nat (dot_pos b r + int c)) = (if ink f w fs' r c then dst_fg b else dst_bg b)"
      using Suc.prems(7) [of r c] st(1) i2 [of r c] by simp
  qed (use Suc.prems(1) in simp)
  then obtain e where e: "draw_fragments f b chr wide n (ptr + ?step)
        (dot_pos b (Y (t + int k)), Y (t + int k), paint (box b (int w) (Y y) (Y (t + int k))) v pix) =
      Some (dot_pos b (Y e), Y e, paint (box b (int w) (Y y) (Y (t + int k)) \<union> box b (int w) (Y (t + int k)) (Y e)) v pix)"
    "t + int k \<le> e" "e \<le> h" "\<forall>r c. e \<le> r \<longrightarrow> \<not> ink f w fs' r c" unfolding paint_paint by blast
  have "Y y \<le> Y (t + int k)" "Y (t + int k) \<le> Y e" using st(1) e(2) by (auto simp: Y_def rows_in_def)
  moreover have "\<forall>r c. e \<le> r \<longrightarrow> \<not> ink f w fs r c" using e(2,4) i2 by auto
  ultimately show ?case using e st(1) by (intro exI [of _ e]) (simp add: box_join)
qed

section \<open>Characters\<close>

record glyph =
  g_width :: nat
  g_height :: int
  g_advance_x :: int
  g_advance_y :: int
  g_fragments :: "(int \<times> nat \<times> int) list"

text \<open>The glyph at an address of the font, if it is a bitmap with its fragments in order.\<close>

definition glyph_at :: "u8 list \<Rightarrow> int \<Rightarrow> glyph option" where
  "glyph_at f chr =
     do { kind \<leftarrow> buf_get f chr; n \<leftarrow> buf_get f (chr + 1); w \<leftarrow> buf_get f (chr + 2); h \<leftarrow> buf_get f (chr + 3);
          ax \<leftarrow> buf_get f (chr + 4); ay \<leftarrow> buf_get f (chr + 5);
          fs \<leftarrow> fragments_at f (unat w) (kind AND 0x40 \<noteq> 0) (unat n) (chr + 6);
          if stacked 0 (uint h) fs
          then Some \<lparr>g_width = unat w, g_height = uint h, g_advance_x = uint ax, g_advance_y = uint ay, g_fragments = fs\<rparr>
          else None }"

definition glyph_of :: "u8 list \<Rightarrow> u32 \<Rightarrow> glyph option" where
  "glyph_of f u =
     do { valid \<leftarrow> font_valid f; table \<leftarrow> font_num f 4 16; found \<leftarrow> find_chr f u table 0;
          if valid then Option.bind found (glyph_at f) else None }"

text \<open>The box of a glyph at the cursor, in the colours of its dots.\<close>

definition glyph_drawn :: "u8 list \<Rightarrow> ssfn_buf \<Rightarrow> glyph \<Rightarrow> u32 list \<Rightarrow> u32 list" where
  "glyph_drawn f b g = paint (box b (int (g_width g)) 0 (rows_in b (g_height g))) (glyph_colour f b (g_width g) (g_fragments g))"

definition advanced :: "glyph \<Rightarrow> ssfn_buf \<Rightarrow> ssfn_buf" where
  "advanced g b = b\<lparr>dst_x := dst_x b + g_advance_x g, dst_y := dst_y b + g_advance_y g\<rparr>"

lemma ssfn_ready_nonempty: "ssfn_ready b (length pix) \<Longrightarrow> pix \<noteq> [] \<and> dst_p b \<noteq> 0"
proof -
  assume r: "ssfn_ready b (length pix)"
  then have s: "0 < ssfn_s b" "0 < dst_h b" "dst_h b * ssfn_s b \<le> int (length pix)" by (auto simp: ssfn_ready_def)
  then have "0 < dst_h b * ssfn_s b" by simp
  with s(3) have "pix \<noteq> []" by auto
  moreover have "dst_p b \<noteq> 0" using s(1) by (auto simp: ssfn_s_def)
  ultimately show ?thesis ..
qed

lemma putc_draws:
  assumes "glyph_of f u = Some g" and "ssfn_ready b (length pix)"
  shows "ssfn_putc (Some f) u (b, pix) = Some (SSFN_OK, advanced g b, glyph_drawn f b g pix)"
proof -
  from assms(1) obtain table chr where g: "font_valid f = Some True" "font_num f 4 16 = Some table" "find_chr f u table 0 = Some (Some chr)"
    "glyph_at f chr = Some g" by (auto simp: glyph_of_def Option.bind_eq_Some_conv split: if_splits)
  from g(4) obtain kind n w h ax ay fs where
    c: "buf_get f chr = Some kind" "buf_get f (chr + 1) = Some n" "buf_get f (chr + 2) = Some w" "buf_get f (chr + 3) = Some h"
      "buf_get f (chr + 4) = Some ax" "buf_get f (chr + 5) = Some ay" and
    fs: "fragments_at f (unat w) (kind AND 0x40 \<noteq> 0) (unat n) (chr + 6) = Some fs" and
    st: "stacked 0 (uint h) fs" and
    ge: "g = \<lparr>g_width = unat w, g_height = uint h, g_advance_x = uint ax, g_advance_y = uint ay, g_fragments = fs\<rparr>"
    unfolding glyph_at_def Option.bind_eq_Some_conv by (metis option.distinct(1) option.inject)
  let ?v = "glyph_colour f b (unat w) fs"
  let ?Y = "\<lambda>y. max 0 (rows_in b y)"
  have v: "?v (nat (dot_pos b r + int k)) = (if ink f (unat w) fs r k then dst_fg b else dst_bg b)"
    if "0 \<le> r" "r < rows_in b (uint h)" "k < unat w" "int k < cols_in b (int (unat w))" for r k
    using glyph_colour_dot [OF assms(2) that(1), of "int k"] that(2-4) by (simp add: rows_in_def cols_in_def)
  have "\<exists>e pix'. draw_fragments f b chr (kind AND 0x40 \<noteq> 0) (unat n) (chr + 6) (dot_pos b (?Y 0), ?Y 0, pix) = Some (dot_pos b (?Y e), ?Y e, pix') \<and>
      pix' = paint (box b (int (unat w)) (?Y 0) (?Y e)) ?v pix \<and> 0 \<le> e \<and> e \<le> uint h \<and> (\<forall>r c. e \<le> r \<longrightarrow> \<not> ink f (unat w) fs r c)"
    by (rule draw_fragments_paint [OF assms(2) fs c(3) refl _ st v]) simp_all
  moreover have z: "?Y 0 = 0" by (simp add: rows_in_def)
  ultimately obtain e where e: "draw_fragments f b chr (kind AND 0x40 \<noteq> 0) (unat n) (chr + 6) (dot_pos b 0, 0, pix) =
      Some (dot_pos b (?Y e), ?Y e, paint (box b (int (unat w)) 0 (?Y e)) ?v pix)"
    "0 \<le> e" "e \<le> uint h" "\<And>r c. e \<le> r \<Longrightarrow> \<not> ink f (unat w) fs r c" by auto
  have "bg_lines b (int (unat w)) (uint h) (dot_pos b (?Y e), ?Y e, paint (box b (int (unat w)) 0 (?Y e)) ?v pix) =
      Some (dot_pos b (max (?Y e) (rows_in b (uint h))), max (?Y e) (rows_in b (uint h)),
        paint (box b (int (unat w)) (?Y e) (rows_in b (uint h))) ?v (paint (box b (int (unat w)) 0 (?Y e)) ?v pix))"
  proof (rule bg_lines_paint)
    fix r k assume r: "?Y e \<le> r" "r < rows_in b (uint h)" "0 \<le> k" "k < cols_in b (int (unat w))"
    then have "e \<le> r" "0 \<le> r" by (auto simp: rows_in_def)
    then show "?v (nat (dot_pos b r + k)) = dst_bg b"
      using v [of r "nat k"] e(4) [of r] r by (simp add: cols_in_def nat_less_iff)
  qed (use assms(2) in simp_all)
  moreover have "box b (int (unat w)) 0 (?Y e) \<union> box b (int (unat w)) (?Y e) (rows_in b (uint h)) = box b (int (unat w)) 0 (rows_in b (uint h))"
  proof (cases "?Y e \<le> rows_in b (uint h)")
    case True
    then show ?thesis by (intro box_join) simp_all
  next
    case False
    then have "rows_in b (uint h) \<le> 0" "?Y e = 0" using e(3) by (auto simp: rows_in_def)
    then show ?thesis by simp
  qed
  ultimately obtain pos y where bg: "bg_lines b (int (unat w)) (uint h) (dot_pos b (?Y e), ?Y e, paint (box b (int (unat w)) 0 (?Y e)) ?v pix) =
      Some (pos, y, glyph_drawn f b g pix)" by (auto simp: paint_paint glyph_drawn_def ge)
  have at: "dst_y b * uint (dst_p b) mod 4 = 0" "(dst_y b * uint (dst_p b) + dst_x b * 4) mod 4 = 0" "(dst_y b * uint (dst_p b) + dst_x b * 4) div 4 = dot_pos b 0"
  proof -
    have "uint (dst_p b) = 4 * ssfn_s b" using assms(2) by (auto simp: ssfn_ready_def ssfn_s_def)
    then have "dst_y b * uint (dst_p b) + dst_x b * 4 = 4 * dot_pos b 0" "dst_y b * uint (dst_p b) = 4 * (dst_y b * ssfn_s b)" by (simp_all add: dot_pos_def)
    note e = this
    show "dst_y b * uint (dst_p b) mod 4 = 0" unfolding e(2) by simp
    show "(dst_y b * uint (dst_p b) + dst_x b * 4) mod 4 = 0" "(dst_y b * uint (dst_p b) + dst_x b * 4) div 4 = dot_pos b 0"
      unfolding e(1) by simp_all
  qed
  have "dst_bg b \<noteq> 0" using assms(2) by (simp add: ssfn_ready_def)
  then show ?thesis
    using g c e(1) bg ssfn_ready_nonempty [OF assms(2)] by (simp add: ssfn_putc_def at Let_def advanced_def ge)
qed

end
