(* ===== verification/Console_Correct.thy ===== *)
theory Console_Correct
  imports Console Ssfn_Correct
begin

text \<open>
  The console in order (\<open>console_ok\<close>), the scroll, and what printing a character does: it scrolls
  if it must, draws the glyph at the cursor, and never leaves the frame buffer.
\<close>

section \<open>A console in order\<close>

definition scr_width :: "console_state \<Rightarrow> int" where
  "scr_width s = uint (framebuffer_width (gtx_buffer s))"

definition scr_height :: "console_state \<Rightarrow> int" where
  "scr_height s = uint (framebuffer_height (gtx_buffer s))"

definition scr_stride :: "console_state \<Rightarrow> nat" where
  "scr_stride s = unat (gtx_stride s)"

text \<open>At least one character wide and two high, lines of at most 16383 dots, a background that is
  not black, and the frame buffer as large as the geometry says.\<close>

definition screen_ok :: "console_state \<Rightarrow> bool" where
  "screen_ok s \<longleftrightarrow>
     gtx_glyph_width (gtx_buffer s) = 8 \<and> gtx_glyph_height (gtx_buffer s) = 16 \<and>
     8 \<le> scr_width s \<and> 32 \<le> scr_height s \<and> scr_height s < 2 ^ 31 - 256 \<and>
     gtx_pitch (gtx_buffer s) < 2 ^ 16 \<and> uint (gtx_pitch (gtx_buffer s)) mod 4 = 0 \<and> scr_width s \<le> int (scr_stride s) \<and>
     scr_height s * int (scr_stride s) \<le> int (length (dots s)) \<and>
     dst_w (ssfn_dst s) = scr_width s \<and> dst_h (ssfn_dst s) = scr_height s \<and> dst_p (ssfn_dst s) = ucast (gtx_pitch (gtx_buffer s)) \<and>
     dst_bg (ssfn_dst s) \<noteq> 0"

definition cursor_ok :: "console_state \<Rightarrow> bool" where
  "cursor_ok s \<longleftrightarrow> 0 \<le> dst_x (ssfn_dst s) \<and> dst_x (ssfn_dst s) \<le> scr_width s + 255 \<and>
     0 \<le> dst_y (ssfn_dst s) \<and> dst_y (ssfn_dst s) < scr_height s + 256"

definition console_ok :: "console_state \<Rightarrow> bool" where
  "console_ok s \<longleftrightarrow> screen_ok s \<and> cursor_ok s"

lemma stride_pitch: "scr_stride s = unat (gtx_pitch (gtx_buffer s)) div 4"
  by (simp add: scr_stride_def gtx_stride_def unat_div)

lemma screen_bounds:
  assumes "screen_ok s"
  shows "scr_stride s < 2 ^ 14" and "scr_width s < 2 ^ 14" and "0 < scr_stride s"
proof -
  have "unat (gtx_pitch (gtx_buffer s)) < 2 ^ 16" using assms by (simp add: screen_ok_def word_less_nat_alt)
  then show s: "scr_stride s < 2 ^ 14" by (simp add: stride_pitch)
  then show "scr_width s < 2 ^ 14" "0 < scr_stride s" using assms by (auto simp: screen_ok_def)
qed

lemma screen_ssfn_s:
  assumes "screen_ok s"
  shows "ssfn_s (ssfn_dst s) = int (scr_stride s)" and "uint (dst_p (ssfn_dst s)) mod 4 = 0"
proof -
  have "unat (gtx_pitch (gtx_buffer s)) < 2 ^ 16" using assms by (simp add: screen_ok_def word_less_nat_alt)
  then have "uint (dst_p (ssfn_dst s)) = int (unat (gtx_pitch (gtx_buffer s)))"
    using assms by (simp add: screen_ok_def unsigned_ucast_eq take_bit_int_eq_self word_less_def)
  then show "ssfn_s (ssfn_dst s) = int (scr_stride s)" "uint (dst_p (ssfn_dst s)) mod 4 = 0"
    using assms by (simp_all add: ssfn_s_def stride_pitch zdiv_int screen_ok_def flip: zmod_int)
qed

lemma console_ready: "console_ok s \<Longrightarrow> ssfn_ready (ssfn_dst s) (length (dots s))"
  using screen_ssfn_s [of s] by (auto simp: console_ok_def screen_ok_def cursor_ok_def ssfn_ready_def)

text \<open>The parts of the state the geometry is about.\<close>

lemma screen_ok_update:
  assumes "gtx_buffer s' = gtx_buffer s" and "length (dots s') = length (dots s)" and "dst_w (ssfn_dst s') = dst_w (ssfn_dst s)"
    and "dst_h (ssfn_dst s') = dst_h (ssfn_dst s)" and "dst_p (ssfn_dst s') = dst_p (ssfn_dst s)" and "dst_bg (ssfn_dst s') = dst_bg (ssfn_dst s)"
  shows "screen_ok s' = screen_ok s" and "scr_width s' = scr_width s" and "scr_height s' = scr_height s" and "scr_stride s' = scr_stride s"
  using assms by (simp_all add: screen_ok_def scr_width_def scr_height_def scr_stride_def gtx_stride_def)

section \<open>The scroll\<close>

lemma index_word:
  fixes st :: u64
  assumes "i < 2 ^ 31" and "unat st < 2 ^ 14" and "j < 2 ^ 14"
  shows "uint (of_nat i * st + of_nat j) = int (i * unat st + j)"
proof -
  have "i * unat st \<le> 2 ^ 31 * 2 ^ 14" using assms(1,2) by (intro mult_le_mono) simp_all
  then have "i * unat st + j < 2 ^ 64" using assms(3) by simp
  then have "uint (of_nat (i * unat st + j) :: u64) = int (i * unat st + j)" by (rule uint_of_nat64)
  then show ?thesis by simp
qed

text \<open>The picture while dot \<open>(i, j)\<close> is the next: dots before it in reading order are done, they are
  background unless the dot a glyph further down has come up.\<close>

definition visible :: "nat \<Rightarrow> nat \<Rightarrow> nat \<Rightarrow> nat \<Rightarrow> bool" where
  "visible w h st p \<longleftrightarrow> p div st < h \<and> p mod st < w"

definition part_scrolled :: "nat \<Rightarrow> nat \<Rightarrow> nat \<Rightarrow> u32 \<Rightarrow> nat \<Rightarrow> nat \<Rightarrow> u32 list \<Rightarrow> u32 list" where
  "part_scrolled w h st bg i j pix =
     (let done = (\<lambda>r c. r < i \<or> r = i \<and> c < j) in
      map (\<lambda>p. if visible w h st p \<and> done (p div st + 16) (p mod st) then pix ! (p + 16 * st)
               else if visible w h st p \<and> 16 \<le> p div st \<and> done (p div st) (p mod st) then bg
               else pix ! p) [0..<length pix])"

text \<open>The screen scrolled by one line of text.\<close>

definition screen_scrolled :: "nat \<Rightarrow> nat \<Rightarrow> nat \<Rightarrow> u32 \<Rightarrow> u32 list \<Rightarrow> u32 list" where
  "screen_scrolled w h st bg pix =
     map (\<lambda>p. if \<not> visible w h st p then pix ! p
              else if p div st + 16 < h then pix ! (p + 16 * st) else bg) [0..<length pix]"

lemma part_scrolled_start: "part_scrolled w h st bg 16 0 pix = pix"
  by (rule nth_equalityI) (auto simp: part_scrolled_def Let_def)

lemma part_scrolled_row: "part_scrolled w h st bg i w pix = part_scrolled w h st bg (Suc i) 0 pix"
  by (rule nth_equalityI) (auto simp: part_scrolled_def Let_def visible_def less_Suc_eq)

lemma part_scrolled_end: "32 \<le> h \<Longrightarrow> part_scrolled w h st bg h 0 pix = screen_scrolled w h st bg pix"
  by (rule nth_equalityI) (auto simp: part_scrolled_def screen_scrolled_def Let_def visible_def)

lemma part_scrolled_step:
  fixes bg :: u32
  assumes "w \<le> st" and "h * st \<le> length pix" and "16 \<le> i" and "i < h" and "j < w"
  defines "S \<equiv> \<lambda>j. part_scrolled w h st bg i j pix" and "q \<equiv> i * st + j"
  shows "S j ! q = pix ! q" and "((S j)[q := bg])[(i - 16) * st + j := pix ! q] = S (Suc j)" and "q < length pix"
proof -
  have q: "q div st = i" "q mod st = j" using assms(1,5) by (simp_all add: q_def)
  have "i * st + j < h * st" using assms(1,4,5) by (intro row_below) simp_all
  then show ql: "q < length pix" using assms(2) by (simp add: q_def)
  let ?r = "(i - 16) * st + j"
  have r: "?r div st = i - 16" "?r mod st = j" using assms(1,5) by simp_all
  have "(i - 16) * st + 16 * st = i * st" using assms(3) by (metis add_mult_distrib le_add_diff_inverse2)
  then have rq: "?r + 16 * st = q" by (simp add: q_def)
  show "S j ! q = pix ! q" using ql q assms(3) by (simp add: S_def part_scrolled_def Let_def)
  show "((S j)[q := bg])[?r := pix ! q] = S (Suc j)"
  proof (rule nth_equalityI)
    fix p assume "p < length (((S j)[q := bg])[?r := pix ! q])"
    then have p: "p < length pix" by (simp add: S_def part_scrolled_def Let_def)
    have eq: "p = a * st + b \<longleftrightarrow> p div st = a \<and> p mod st = b" if "b < st" for a b
      using that by auto
    have ih: "i - 16 < h" using assms(4) by simp
    consider "p = ?r" | "p = q" "p \<noteq> ?r" | "p \<noteq> q" "p \<noteq> ?r" by blast
    then show "((S j)[q := bg])[?r := pix ! q] ! p = S (Suc j) ! p"
    proof cases
      case 1
      then show ?thesis using p r assms(3-5) rq ih by (simp add: S_def part_scrolled_def Let_def visible_def)
    next
      case 2
      then show ?thesis using p q assms(3-5) by (simp add: S_def part_scrolled_def Let_def visible_def)
    next
      case 3
      have "\<not> (p div st + 16 = i \<and> p mod st = j)" "\<not> (p div st = i \<and> p mod st = j)"
        using 3 eq [of j "i - 16"] eq [of j i] assms(1,5) by (auto simp: q_def)
      then show ?thesis using 3 p by (auto simp: S_def part_scrolled_def Let_def less_Suc_eq)
    qed
  qed (simp add: S_def part_scrolled_def Let_def)
qed

lemma shift_dot_value:
  assumes "unat stride < 2 ^ 14" and "w \<le> unat stride" and "h * unat stride \<le> length pix" and "16 \<le> i" and "i < h" and "h < 2 ^ 31" and "j < w"
  shows "shift_dot bg stride 16 (of_nat i) (of_nat j) (part_scrolled w h (unat stride) bg i j pix) =
    Some (part_scrolled w h (unat stride) bg i (Suc j) pix)"
proof -
  note st = part_scrolled_step [OF assms(2-5,7)]
  have j: "j < 2 ^ 14" "i < 2 ^ 31" using assms by simp_all
  have a: "uint (of_nat i * stride + of_nat j) = int (i * unat stride + j)" using index_word [OF j(2) assms(1) j(1)] .
  have "(of_nat i - 16 :: u64) = of_nat (i - 16)" using assms(4) by (simp add: of_nat_diff)
  then have b: "uint ((of_nat i - 16) * stride + of_nat j) = int ((i - 16) * unat stride + j)"
    using index_word [of "i - 16" stride j] j assms(1) by simp
  have len: "length (part_scrolled w h (unat stride) bg i j pix) = length pix" by (simp add: part_scrolled_def Let_def)
  have "(i - 16) * unat stride + j \<le> i * unat stride + j" by (intro add_right_mono mult_le_mono1) simp
  with st(3) have "(i - 16) * unat stride + j < length pix" by (rule order.strict_trans1 [rotated])
  then have r: "(i - 16) * unat stride + j < length ((part_scrolled w h (unat stride) bg i j pix)[i * unat stride + j := bg])"
    using len by simp
  have q: "i * unat stride + j < length (part_scrolled w h (unat stride) bg i j pix)" using st(3) len by simp
  show ?thesis
    unfolding shift_dot_def a b buf_get_in [OF q] buf_set_in [OF q] Option.bind.bind_lunit st(1) buf_set_in [OF r] st(2) ..
qed

lemma shift_row_value:
  assumes "unat stride < 2 ^ 14" and "w \<le> unat stride" and "h * unat stride \<le> length pix" and "16 \<le> i" and "i < h" and "h < 2 ^ 31"
  shows "for_range (\<lambda>j. shift_dot bg stride 16 (of_nat i) (of_nat j)) 0 w (part_scrolled w h (unat stride) bg i 0 pix) =
    Some (part_scrolled w h (unat stride) bg (Suc i) 0 pix)"
proof -
  have "\<exists>s'. for_range (\<lambda>j. shift_dot bg stride 16 (of_nat i) (of_nat j)) 0 w (part_scrolled w h (unat stride) bg i 0 pix) = Some s' \<and>
      s' = part_scrolled w h (unat stride) bg i w pix"
    by (rule for_range_total) (use shift_dot_value [OF assms] in auto)
  then show ?thesis by (simp add: part_scrolled_row)
qed

abbreviation scrolled_dots :: "console_state \<Rightarrow> u32 list" where
  "scrolled_dots s \<equiv> screen_scrolled (nat (scr_width s)) (nat (scr_height s)) (scr_stride s) (dst_bg (ssfn_dst s)) (dots s)"

lemma line_shift_up:
  assumes "screen_ok s"
  shows "term_line_shift_up s = Some (s\<lparr>dots := scrolled_dots s\<rparr>)"
proof -
  let ?w = "nat (scr_width s)" and ?h = "nat (scr_height s)" and ?st = "gtx_stride s" and ?bg = "dst_bg (ssfn_dst s)"
  have g: "gtx_glyph_height (gtx_buffer s) = 16" "unat ?st < 2 ^ 14" "?w \<le> unat ?st" "32 \<le> ?h" "?h < 2 ^ 31"
    using assms screen_bounds [OF assms] by (auto simp: screen_ok_def scr_stride_def nat_le_iff)
  have L: "?h * unat ?st \<le> length (dots s)"
  proof -
    have "int ?h = scr_height s" using assms by (simp add: screen_ok_def)
    then have "int (?h * unat ?st) = scr_height s * int (scr_stride s)" unfolding of_nat_mult by (simp only: scr_stride_def)
    also have "\<dots> \<le> int (length (dots s))" using assms by (simp only: screen_ok_def)
    finally show ?thesis by (simp only: of_nat_le_iff)
  qed
  have "\<exists>p. for_range (\<lambda>i. for_range (\<lambda>j. shift_dot ?bg ?st 16 (of_nat i) (of_nat j)) 0 ?w) 16 ?h (dots s) = Some p \<and>
      p = part_scrolled ?w ?h (unat ?st) ?bg ?h 0 (dots s)"
    by (rule for_range_total) (use g(4) shift_row_value [OF g(2,3) L _ _ g(5)] in \<open>auto simp: part_scrolled_start\<close>)
  moreover have "unat (framebuffer_width (gtx_buffer s)) = ?w" "unat (framebuffer_height (gtx_buffer s)) = ?h"
    by (simp_all add: scr_width_def scr_height_def)
  ultimately show ?thesis using g(1,4) by (simp add: term_line_shift_up_def Let_def part_scrolled_end scr_stride_def)
qed

section \<open>The cursor\<close>

lemma to_int_small: "uint v < 2 ^ 31 \<Longrightarrow> to_int v = uint v"
proof -
  assume "uint v < 2 ^ 31"
  then have "int (unat v) < int (2 ^ 31)" by simp
  then have "unat v < 2 ^ 31" by (simp only: of_nat_less_iff)
  then have "sint (of_nat (unat v) :: s32) = int (unat v)" by (rule sint_of_nat32)
  then show ?thesis by (simp add: to_int_def)
qed

lemma uint_of_int64: "0 \<le> k \<Longrightarrow> k < 2 ^ 64 \<Longrightarrow> uint (of_int k :: u64) = k"
  by (simp add: uint_word_of_int)

text \<open>Where a character asked for at \<open>(x, y)\<close> goes, and the screen it finds there.\<close>

definition placed :: "int \<Rightarrow> int \<Rightarrow> u32 \<Rightarrow> console_state \<Rightarrow> console_state" where
  "placed x y color s =
     (let (x, y) = (if x + 8 > scr_width s then (0, y + 16) else (x, y)) in
      if y \<ge> scr_height s
      then s\<lparr>ssfn_dst := (ssfn_dst s)\<lparr>dst_x := 0, dst_y := scr_height s - 16, dst_fg := color\<rparr>, dots := scrolled_dots s\<rparr>
      else s\<lparr>ssfn_dst := (ssfn_dst s)\<lparr>dst_x := x, dst_y := y, dst_fg := color\<rparr>\<rparr>)"

lemma length_scrolled [simp]: "length (screen_scrolled w h st bg pix) = length pix"
  by (simp add: screen_scrolled_def)

lemma cursor_update_order: "b\<lparr>dst_fg := c, dst_x := x, dst_y := y\<rparr> = b\<lparr>dst_x := x, dst_y := y, dst_fg := c\<rparr>"
  by (cases b) simp

lemma cursor_move_order: "b\<lparr>dst_y := y, dst_fg := c, dst_x := x\<rparr> = b\<lparr>dst_x := x, dst_y := y, dst_fg := c\<rparr>"
  by (cases b) simp

lemma place_cursor_value:
  assumes "screen_ok s" and "0 \<le> x" and "x \<le> scr_width s + 255" and "0 \<le> y" and "y < scr_height s + 256"
  shows "place_cursor x y color s = Some (placed x y color s)"
proof -
  note b = screen_bounds [OF assms(1)]
  have g: "gtx_glyph_width (gtx_buffer s) = 8" "gtx_glyph_height (gtx_buffer s) = 16" "32 \<le> scr_height s" "scr_height s < 2 ^ 31 - 256"
    "8 \<le> scr_width s" using assms(1) by (simp_all add: screen_ok_def)
  have X: "of_int (x + 8) > framebuffer_width (gtx_buffer s) \<longleftrightarrow> x + 8 > scr_width s"
    using assms(2,3) b(2) uint_of_int64 [of "x + 8"] by (simp add: word_less_def scr_width_def)
  have Y: "of_int k \<ge> framebuffer_height (gtx_buffer s) \<longleftrightarrow> k \<ge> scr_height s" if "0 \<le> k" "k < 2 ^ 32" for k
    using that uint_of_int64 [of k] by (simp add: word_le_def scr_height_def)
  have H: "to_int (framebuffer_height (gtx_buffer s) - of_int 16) = scr_height s - 16"
  proof -
    have "uint (framebuffer_height (gtx_buffer s) - 16) = scr_height s - 16"
      using g(3) by (simp add: scr_height_def uint_sub_if')
    then show ?thesis using g(4) to_int_small [of "framebuffer_height (gtx_buffer s) - 16"] by simp
  qed
  have up: "term_line_shift_up (s\<lparr>ssfn_dst := (ssfn_dst s)\<lparr>dst_x := 0, dst_y := k, dst_fg := color\<rparr>\<rparr>) =
      Some (s\<lparr>ssfn_dst := (ssfn_dst s)\<lparr>dst_x := 0, dst_y := k, dst_fg := color\<rparr>, dots := scrolled_dots s\<rparr>)" for k
  proof -
    let ?s = "s\<lparr>ssfn_dst := (ssfn_dst s)\<lparr>dst_x := 0, dst_y := k, dst_fg := color\<rparr>\<rparr>"
    have "screen_ok ?s = screen_ok s" "scr_width ?s = scr_width s" "scr_height ?s = scr_height s" "scr_stride ?s = scr_stride s"
      by (rule screen_ok_update; simp)+
    then show ?thesis using line_shift_up [of ?s] assms(1) by simp
  qed
  show ?thesis
  proof (cases "x + 8 > scr_width s")
    case True
    have "of_int (y + 16) \<ge> framebuffer_height (gtx_buffer s) \<longleftrightarrow> y + 16 \<ge> scr_height s" using assms(4,5) g(4) by (intro Y) simp_all
    then show ?thesis using True X H up g(1,2) by (simp add: place_cursor_def placed_def Let_def cursor_update_order)
  next
    case False
    have "of_int y \<ge> framebuffer_height (gtx_buffer s) \<longleftrightarrow> y \<ge> scr_height s" using assms(4,5) g(4) by (intro Y) simp_all
    then show ?thesis using False X H up g(1,2) by (simp add: place_cursor_def placed_def Let_def cursor_update_order)
  qed
qed

definition cursor_placed :: "console_state \<Rightarrow> bool" where
  "cursor_placed s \<longleftrightarrow> 0 \<le> dst_x (ssfn_dst s) \<and> dst_x (ssfn_dst s) + 8 \<le> scr_width s \<and>
     0 \<le> dst_y (ssfn_dst s) \<and> dst_y (ssfn_dst s) < scr_height s"

lemma placed_ok:
  assumes "screen_ok s" and "0 \<le> x" and "0 \<le> y"
  shows "screen_ok (placed x y color s)" and "cursor_placed (placed x y color s)" and "ssfn_src (placed x y color s) = ssfn_src s"
    and "scr_width (placed x y color s) = scr_width s" and "scr_height (placed x y color s) = scr_height s"
proof -
  have u: "screen_ok (placed x y color s) = screen_ok s" "scr_width (placed x y color s) = scr_width s"
    "scr_height (placed x y color s) = scr_height s"
    by (rule screen_ok_update; simp add: placed_def Let_def split: prod.split)+
  then show "screen_ok (placed x y color s)" "scr_width (placed x y color s) = scr_width s"
    "scr_height (placed x y color s) = scr_height s" using assms(1) by simp_all
  show "ssfn_src (placed x y color s) = ssfn_src s" by (simp add: placed_def Let_def split: prod.split)
  show "cursor_placed (placed x y color s)"
    unfolding cursor_placed_def u using assms by (auto simp: placed_def Let_def screen_ok_def)
qed

section \<open>Characters\<close>

text \<open>A font whose table ends and whose glyphs are bitmaps inside it.\<close>

definition font_ok :: "u8 list \<Rightarrow> bool" where
  "font_ok f \<longleftrightarrow> font_valid f = Some True \<and>
     (\<exists>table. font_num f 4 16 = Some table \<and>
        (\<forall>u. \<exists>r. find_chr f u table 0 = Some r \<and> (\<forall>chr. r = Some chr \<longrightarrow> glyph_at f chr \<noteq> None)))"

definition put_glyph :: "u8 list \<Rightarrow> u32 \<Rightarrow> console_state \<Rightarrow> console_state" where
  "put_glyph f u s =
     (case glyph_of f u of None \<Rightarrow> s
      | Some g \<Rightarrow> s\<lparr>ssfn_dst := advanced g (ssfn_dst s), dots := glyph_drawn f (ssfn_dst s) g (dots s)\<rparr>)"

lemma advance_bounds:
  assumes "glyph_of f u = Some g"
  shows "0 \<le> g_advance_x g \<and> g_advance_x g \<le> 255 \<and> 0 \<le> g_advance_y g \<and> g_advance_y g \<le> 255"
proof -
  from assms obtain chr where "glyph_at f chr = Some g" by (auto simp: glyph_of_def Option.bind_eq_Some_conv split: if_splits)
  then obtain ax ay :: u8 where "g_advance_x g = uint ax" "g_advance_y g = uint ay"
    by (auto simp: glyph_at_def Option.bind_eq_Some_conv split: if_splits)
  moreover have "uint (b :: u8) \<le> 255" for b using uint_lt2p [of b] by simp
  ultimately show ?thesis by simp
qed

lemma console_putc_value:
  assumes "font_ok f" and "ssfn_src s = Some f" and "console_ok s"
  shows "console_putc u s = Some (put_glyph f u s)"
proof -
  note r = console_ready [OF assms(3)]
  from assms(1) obtain table r where t: "font_valid f = Some True" "font_num f 4 16 = Some table" "find_chr f u table 0 = Some r"
    "\<forall>chr. r = Some chr \<longrightarrow> glyph_at f chr \<noteq> None" unfolding font_ok_def by blast
  show ?thesis
  proof (cases r)
    case None
    then have "glyph_of f u = None" using t by (simp add: glyph_of_def)
    then show ?thesis
      using t None assms(2) ssfn_ready_nonempty [OF r] by (simp add: console_putc_def ssfn_putc_def put_glyph_def)
  next
    case (Some chr)
    with t obtain g where g: "glyph_of f u = Some g" by (auto simp: glyph_of_def)
    show ?thesis using putc_draws [OF g r] assms(2) g by (simp add: console_putc_def put_glyph_def)
  qed
qed

lemma put_glyph_ok:
  assumes "screen_ok s" and "cursor_placed s"
  shows "console_ok (put_glyph f u s)" and "ssfn_src (put_glyph f u s) = ssfn_src s"
proof -
  have u: "screen_ok (put_glyph f u s) = screen_ok s" "scr_width (put_glyph f u s) = scr_width s" "scr_height (put_glyph f u s) = scr_height s"
    by (rule screen_ok_update; simp add: put_glyph_def advanced_def glyph_drawn_def split: option.split)+
  show "ssfn_src (put_glyph f u s) = ssfn_src s" by (simp add: put_glyph_def split: option.split)
  have "cursor_ok (put_glyph f u s)"
    unfolding cursor_ok_def u using assms(2) advance_bounds [of f u]
    by (auto simp: put_glyph_def advanced_def cursor_placed_def split: option.split)
  then show "console_ok (put_glyph f u s)" using assms(1) by (simp add: console_ok_def u)
qed

lemma placed_console_ok: "screen_ok s \<Longrightarrow> cursor_placed s \<Longrightarrow> console_ok s"
  by (auto simp: console_ok_def cursor_ok_def cursor_placed_def)

text \<open>What printing a character other than a tab or a backspace comes to.\<close>

definition printed :: "u8 list \<Rightarrow> u32 \<Rightarrow> int \<Rightarrow> int \<Rightarrow> u32 \<Rightarrow> console_state \<Rightarrow> console_state" where
  "printed f u x y color s =
     (let s = placed x y color s in
      if u = 0 then s
      else if u = 0x0a then s\<lparr>ssfn_dst := (ssfn_dst s)\<lparr>dst_x := 0, dst_y := dst_y (ssfn_dst s) + 16\<rparr>\<rparr>
      else put_glyph f u s)"

lemma cursor_okD:
  assumes "console_ok s"
  shows "screen_ok s" "0 \<le> dst_x (ssfn_dst s)" "dst_x (ssfn_dst s) \<le> scr_width s + 255" "0 \<le> dst_y (ssfn_dst s)"
    "dst_y (ssfn_dst s) < scr_height s + 256"
  using assms by (simp_all add: console_ok_def cursor_ok_def)

lemma print_char_value:
  assumes "font_ok f" and "ssfn_src s = Some f" and "screen_ok s" and "u \<noteq> 0x08" and "u \<noteq> 0x09"
    and "0 \<le> x" and "x \<le> scr_width s + 255" and "0 \<le> y" and "y < scr_height s + 256"
  shows "term_print_char u x y color s = Some (printed f u x y color s)" and "console_ok (printed f u x y color s)"
    and "ssfn_src (printed f u x y color s) = Some f"
proof -
  let ?s = "placed x y color s"
  note p = placed_ok [OF assms(3,6,8), of color]
  note c = placed_console_ok [OF p(1,2)]
  have src: "ssfn_src ?s = Some f" using p(3) assms(2) by simp
  have gh: "gtx_glyph_height (gtx_buffer ?s) = 16" using p(1) by (simp add: screen_ok_def)
  show "term_print_char u x y color s = Some (printed f u x y color s)"
    using place_cursor_value [OF assms(3,6-9), of color] console_putc_value [OF assms(1) src c] assms(4,5) gh
    by (subst term_print_char.simps) (simp add: printed_def Let_def)
  let ?n = "?s\<lparr>ssfn_dst := (ssfn_dst ?s)\<lparr>dst_x := 0, dst_y := dst_y (ssfn_dst ?s) + 16\<rparr>\<rparr>"
  have u: "screen_ok ?n = screen_ok ?s" "scr_width ?n = scr_width ?s" "scr_height ?n = scr_height ?s"
    by (rule screen_ok_update; simp)+
  have "0 \<le> scr_width ?s" using p(1) by (simp add: screen_ok_def)
  then have "cursor_ok ?n" unfolding cursor_ok_def u using p(2) by (simp add: cursor_placed_def)
  then have "console_ok ?n" using p(1) u by (simp add: console_ok_def)
  then show "console_ok (printed f u x y color s)" "ssfn_src (printed f u x y color s) = Some f"
    using put_glyph_ok [OF p(1,2), of f u] c src by (simp_all add: printed_def Let_def)
qed

end
