(* ===== verification/Console_Text.thy ===== *)
theory Console_Text
  imports Console_Correct Utf8
begin

text \<open>
  Strings on the console: the decoder reads UTF-8 as the standard writes it, a string prints its
  characters in order, the start leaves the banner on a blank screen, and two backspaces after the
  first character of the screen draw outside of it.
\<close>

section \<open>UTF-8\<close>

lemma utf8_values:
  "ucast (utf8_tail x AND 0x3f) = (ucast x AND mask 6 :: u32)"
  "ucast ((0xc0 OR (ucast x AND 0x1f) :: u8) AND 0x1f) = (ucast x AND mask 5 :: u32)"
  "ucast ((0xe0 OR (ucast x AND 0x0f) :: u8) AND 0xf) = (ucast x AND mask 4 :: u32)"
  "ucast ((0xf0 OR (ucast x AND 0x07) :: u8) AND 0x7) = (ucast x AND mask 3 :: u32)"
  for x :: u64
proof -
  have n: "(0x3f :: u8) = mask 6" "(0x1f :: u8) = mask 5" "(0x0f :: u8) = mask 4" "(0x07 :: u8) = mask 3"
    by (simp_all add: mask_eq_exp_minus_1)
  have m: "ucast ((ucast x :: u8) AND mask k) = (ucast x AND mask k :: u32)" if "k \<le> 8" for k
    using that by (intro bit_word_eqI) (auto simp: bit_simps)
  show "ucast (utf8_tail x AND 0x3f) = (ucast x AND mask 6 :: u32)" unfolding tail_masks(2) unfolding n by (rule m) simp
  show "ucast ((0xc0 OR (ucast x AND 0x1f) :: u8) AND 0x1f) = (ucast x AND mask 5 :: u32)" unfolding lead_masks(1) unfolding n by (rule m) simp
  show "ucast ((0xe0 OR (ucast x AND 0x0f) :: u8) AND 0xf) = (ucast x AND mask 4 :: u32)" unfolding lead_masks(2) unfolding n by (rule m) simp
  show "ucast ((0xf0 OR (ucast x AND 0x07) :: u8) AND 0x7) = (ucast x AND mask 3 :: u32)" unfolding lead_masks(3) unfolding n by (rule m) simp
qed

lemma joins32:
  "cp < 2 ^ 11 \<Longrightarrow> push_bit 6 (ucast (drop_bit 6 cp) AND mask 5) OR (ucast cp AND mask 6) = (ucast cp :: u32)"
  "cp < 2 ^ 16 \<Longrightarrow> push_bit 12 (ucast (drop_bit 12 cp) AND mask 4) OR push_bit 6 (ucast (drop_bit 6 cp) AND mask 6) OR
     (ucast cp AND mask 6) = (ucast cp :: u32)"
  "cp < 2 ^ 21 \<Longrightarrow> push_bit 18 (ucast (drop_bit 18 cp) AND mask 3) OR push_bit 12 (ucast (drop_bit 12 cp) AND mask 6) OR
     push_bit 6 (ucast (drop_bit 6 cp) AND mask 6) OR (ucast cp AND mask 6) = (ucast cp :: u32)"
  for cp :: u64
proof -
  have u: "(ucast x :: u32) AND mask k = ucast (x AND mask k)" "push_bit k (ucast x :: u32) = ucast (push_bit k x)"
    "(ucast x :: u32) OR ucast y = ucast (x OR y)" for x y :: u64 and k
    by (rule bit_word_eqI, auto simp: bit_simps)+
  show "push_bit 6 (ucast (drop_bit 6 cp) AND mask 5) OR (ucast cp AND mask 6) = (ucast cp :: u32)" if "cp < 2 ^ 11"
    unfolding u joins(1) [OF that] ..
  show "push_bit 12 (ucast (drop_bit 12 cp) AND mask 4) OR push_bit 6 (ucast (drop_bit 6 cp) AND mask 6) OR
     (ucast cp AND mask 6) = (ucast cp :: u32)" if "cp < 2 ^ 16"
    unfolding u joins(2) [OF that] ..
  show "push_bit 18 (ucast (drop_bit 18 cp) AND mask 3) OR push_bit 12 (ucast (drop_bit 12 cp) AND mask 6) OR
     push_bit 6 (ucast (drop_bit 6 cp) AND mask 6) OR (ucast cp AND mask 6) = (ucast cp :: u32)" if "cp < 2 ^ 21"
    unfolding u joins(3) [OF that] ..
qed

definition utf8_char :: "u32 \<Rightarrow> u8 list" where
  "utf8_char u = (if u < 0x80 then [ucast u] else utf8_encode (ucast u))"

lemma lead_tests:
  "((0xc0 :: u8) OR (z AND 0x1f)) AND 128 \<noteq> 0" "((0xc0 :: u8) OR (z AND 0x1f)) AND 32 = 0"
  "((0xe0 :: u8) OR (z AND 0x0f)) AND 128 \<noteq> 0" "((0xe0 :: u8) OR (z AND 0x0f)) AND 32 \<noteq> 0" "((0xe0 :: u8) OR (z AND 0x0f)) AND 16 = 0"
  "((0xf0 :: u8) OR (z AND 0x07)) AND 128 \<noteq> 0" "((0xf0 :: u8) OR (z AND 0x07)) AND 32 \<noteq> 0"
  "((0xf0 :: u8) OR (z AND 0x07)) AND 16 \<noteq> 0" "((0xf0 :: u8) OR (z AND 0x07)) AND 8 = 0"
  by (simp_all add: bit.conj_disj_distrib2 and.assoc word_bw_lcs)

lemma ssfn_utf8_decodes:
  assumes "u < 0x110000"
  shows "ssfn_utf8 (utf8_char u @ rest) = Some (u, rest)"
proof (cases "u < 0x80")
  case True
  have "bit u n \<Longrightarrow> n < 7" for n using bit_bound [of u 7 n] True by simp
  then have "(ucast u :: u8) AND 2 ^ 7 = 0" unfolding and_exp_eq_0_iff_not_bit by (auto simp: bit_simps)
  moreover have "(ucast (ucast u :: u8) :: u32) = u"
    using bit_bound [of u 7] True by (intro bit_word_eqI) (fastforce simp: bit_simps)
  ultimately show ?thesis using True by (simp add: ssfn_utf8_def utf8_char_def buf_get_def)
next
  case False
  then have hi: "\<not> u < 0x80" .
  let ?cp = "ucast u :: u64"
  have cp: "(ucast ?cp :: u32) = u" by (rule bit_word_eqI) (auto simp: bit_simps)
  have "uint ?cp = uint u" by (rule uint_up_ucast) (simp add: is_up)
  then have up: "unat ?cp = unat u" by (simp only: unat_eq_nat_uint)
  have lt: "?cp < of_nat n \<longleftrightarrow> u < of_nat n" if "n < 2 ^ 32" for n
    using that by (simp add: word_less_nat_alt up unat_of_nat64 unat_of_nat)
  consider "?cp < 0x800" | "\<not> ?cp < 0x800" "?cp < 0x10000" | "\<not> ?cp < 0x10000" "\<not> ?cp < 0x800" by (auto simp: word_less_nat_alt)
  then show ?thesis
  proof cases
    case 1
    then show ?thesis using hi joins32(1) [of ?cp] cp by (simp add: ssfn_utf8_def utf8_char_def utf8_encode_def buf_get_def lead_tests utf8_values)
  next
    case 2
    then show ?thesis using hi joins32(2) [of ?cp] cp
      by (simp add: ssfn_utf8_def utf8_char_def utf8_encode_def buf_get_def lead_tests utf8_values numeral_2_eq_2 numeral_3_eq_3)
  next
    case 3
    have "?cp < 2 ^ 21" using lt [of "2 ^ 21"] assms by (simp add: word_less_nat_alt)
    then show ?thesis using 3 hi joins32(3) [of ?cp] cp
      by (simp add: ssfn_utf8_def utf8_char_def utf8_encode_def buf_get_def lead_tests utf8_values numeral_2_eq_2 numeral_3_eq_3)
  qed
qed

lemma utf8_char_nonzero:
  assumes "u \<noteq> 0"
  shows "utf8_char u \<noteq> [] \<and> hd (utf8_char u) \<noteq> 0"
proof (cases "u < 0x80")
  case True
  have "(ucast u :: u8) \<noteq> 0"
  proof
    assume z: "(ucast u :: u8) = 0"
    have "u = 0"
    proof (rule bit_word_eqI)
      fix n
      have "bit u n \<Longrightarrow> n < 7" using bit_bound [of u 7 n] True by simp
      moreover have "n < 8 \<Longrightarrow> bit u n = bit (ucast u :: u8) n" by (simp add: bit_simps)
      ultimately show "bit u n = bit (0 :: u32) n" using z by fastforce
    qed
    with assms show False ..
  qed
  then show ?thesis using True by (simp add: utf8_char_def)
next
  case False
  have "(0xc0 OR z :: u8) \<noteq> 0" "(0xe0 OR z :: u8) \<noteq> 0" "(0xf0 OR z :: u8) \<noteq> 0" for z
    by (auto simp: or_eq_0_iff)
  then show ?thesis using False by (simp add: utf8_char_def utf8_encode_def)
qed

section \<open>Strings\<close>

text \<open>A character at the cursor; a tab is four spaces.\<close>

definition put_char :: "u8 list \<Rightarrow> u32 \<Rightarrow> u32 \<Rightarrow> console_state \<Rightarrow> console_state" where
  "put_char f color u s = printed f u (dst_x (ssfn_dst s)) (dst_y (ssfn_dst s)) color s"

definition show_char :: "u8 list \<Rightarrow> u32 \<Rightarrow> u32 \<Rightarrow> console_state \<Rightarrow> console_state" where
  "show_char f color u s =
     (if u = 0x09 then (put_char f color 0x20 ^^ 4) (placed (dst_x (ssfn_dst s)) (dst_y (ssfn_dst s)) color s)
      else put_char f color u s)"

definition console_with :: "u8 list \<Rightarrow> console_state \<Rightarrow> bool" where
  "console_with f s \<longleftrightarrow> console_ok s \<and> ssfn_src s = Some f"

lemma put_char_value:
  assumes "font_ok f" and "console_with f s" and "u \<noteq> 0x08" and "u \<noteq> 0x09"
  shows "term_print_char u (dst_x (ssfn_dst s)) (dst_y (ssfn_dst s)) color s = Some (put_char f color u s)"
    and "console_with f (put_char f color u s)"
  using print_char_value [OF assms(1) _ _ assms(3,4), of s] cursor_okD [of s] assms(2) by (simp_all add: put_char_def console_with_def)

lemma show_char_value:
  assumes "font_ok f" and "console_with f s" and "u \<noteq> 0x08"
  shows "term_print_char u (dst_x (ssfn_dst s)) (dst_y (ssfn_dst s)) color s = Some (show_char f color u s)"
    and "console_with f (show_char f color u s)"
proof -
  let ?x = "dst_x (ssfn_dst s)" and ?y = "dst_y (ssfn_dst s)"
  let ?p = "placed ?x ?y color s"
  have ok: "console_ok s" "ssfn_src s = Some f" using assms(2) by (simp_all add: console_with_def)
  note c = cursor_okD [OF ok(1)]
  note p = placed_ok [OF c(1,2,4), of color]
  have p0: "console_with f ?p" using placed_console_ok [OF p(1,2)] p(3) ok(2) by (simp add: console_with_def)
  have "\<exists>t. for_range (\<lambda>_ s. term_print_char 0x20 (dst_x (ssfn_dst s)) (dst_y (ssfn_dst s)) color s) 0 4 ?p = Some t \<and>
      (t = (put_char f color 0x20 ^^ 4) ?p \<and> console_with f t)"
    by (rule for_range_total) (use p0 put_char_value [OF assms(1), of _ "0x20"] in auto)
  then have t: "for_range (\<lambda>_ s. term_print_char 0x20 (dst_x (ssfn_dst s)) (dst_y (ssfn_dst s)) color s) 0 4 ?p =
      Some ((put_char f color 0x20 ^^ 4) ?p)" "console_with f ((put_char f color 0x20 ^^ 4) ?p)" by blast+
  have "term_print_char u ?x ?y color s = Some (show_char f color u s) \<and> console_with f (show_char f color u s)"
  proof (cases "u = 0x09")
    case True
    then show ?thesis using place_cursor_value [OF c, of color] t by (subst term_print_char.simps) (simp add: show_char_def)
  next
    case False
    then show ?thesis using put_char_value [OF assms(1,2,3)] by (simp add: show_char_def)
  qed
  then show "term_print_char u ?x ?y color s = Some (show_char f color u s)" "console_with f (show_char f color u s)" by simp_all
qed

definition utf8_string :: "u32 list \<Rightarrow> u8 list" where
  "utf8_string us = concat (map utf8_char us) @ [0]"

definition no_backspace :: "u32 list \<Rightarrow> bool" where
  "no_backspace us \<longleftrightarrow> (\<forall>u \<in> set us. u \<noteq> 0 \<and> u \<noteq> 0x08 \<and> u < 0x110000)"

text \<open>What lies behind the terminator does not matter.\<close>

lemma print_string_prefix:
  assumes "font_ok f" and "console_with f s" and "no_backspace us"
  shows "term_print_string (concat (map utf8_char us) @ 0 # rest) color s = Some (fold (show_char f color) us s) \<and>
    console_with f (fold (show_char f color) us s)"
  using assms(2,3)
proof (induction us arbitrary: s)
  case Nil
  then show ?case by (subst term_print_string.simps) simp
next
  case (Cons u us)
  have u: "u \<noteq> 0" "u \<noteq> 0x08" "u < 0x110000" "no_backspace us" using Cons.prems(2) by (simp_all add: no_backspace_def)
  obtain a as where a: "utf8_char u = a # as" "a \<noteq> 0" using utf8_char_nonzero [OF u(1)] by (cases "utf8_char u") auto
  let ?r = "concat (map utf8_char us) @ 0 # rest"
  note sh = show_char_value [OF assms(1) Cons.prems(1) u(2), of color]
  have "term_print_string (utf8_char u @ ?r) color s = term_print_string ?r color (show_char f color u s)"
    using a sh(1) ssfn_utf8_decodes [OF u(3), of ?r] by (subst term_print_string.simps) simp
  then show ?case using Cons.IH [OF sh(2) u(4)] by simp
qed

lemma print_string_value:
  assumes "font_ok f" and "console_with f s" and "no_backspace us"
  shows "term_print_string (utf8_string us) color s = Some (fold (show_char f color) us s)"
    and "console_with f (fold (show_char f color) us s)"
  using print_string_prefix [OF assms, of "[]"] by (simp_all add: utf8_string_def)

text \<open>Strings of the source, which are ASCII.\<close>

definition code_points :: "string \<Rightarrow> u32 list" where
  "code_points str = map (\<lambda>c. of_nat (of_char c)) str"

lemma c_string_utf8:
  assumes "list_all (\<lambda>c. (of_char c :: nat) < 128) str"
  shows "c_string str = utf8_string (code_points str)"
proof -
  have "utf8_char (of_nat (of_char c)) = [of_nat (of_char c)]" if "(of_char c :: nat) < 128" for c
    using that by (simp add: utf8_char_def word_less_nat_alt unat_of_nat unsigned_of_nat take_bit_nat_eq_self)
  then show ?thesis using assms by (induction str) (simp_all add: c_string_def utf8_string_def code_points_def)
qed

section \<open>The start\<close>

definition screen_filled :: "nat \<Rightarrow> nat \<Rightarrow> nat \<Rightarrow> u32 \<Rightarrow> u32 list \<Rightarrow> u32 list" where
  "screen_filled w h st c pix = map (\<lambda>p. if visible w h st p then c else pix ! p) [0..<length pix]"

text \<open>The dots done before column \<open>i\<close>, row \<open>j\<close>.\<close>

definition part_filled :: "nat \<Rightarrow> nat \<Rightarrow> nat \<Rightarrow> u32 \<Rightarrow> nat \<Rightarrow> nat \<Rightarrow> u32 list \<Rightarrow> u32 list" where
  "part_filled w h st c i j pix =
     map (\<lambda>p. if visible w h st p \<and> (p mod st < i \<or> p mod st = i \<and> p div st < j) then c else pix ! p) [0..<length pix]"

lemma part_filled_simps:
  "part_filled w h st c 0 0 pix = pix" "part_filled w h st c i h pix = part_filled w h st c (Suc i) 0 pix"
  "part_filled w h st c w 0 pix = screen_filled w h st c pix" "length (part_filled w h st c i j pix) = length pix"
  by (auto simp: part_filled_def screen_filled_def visible_def less_Suc_eq intro!: nth_equalityI)

lemma part_filled_step:
  assumes "w \<le> st" and "h * st \<le> length pix" and "i < w" and "j < h"
  shows "(part_filled w h st c i j pix)[j * st + i := c] = part_filled w h st c i (Suc j) pix" and "j * st + i < length pix"
proof -
  have "j * st + i < h * st" using assms(1,3,4) by (intro row_below) simp_all
  then show "j * st + i < length pix" using assms(2) by simp
  show "(part_filled w h st c i j pix)[j * st + i := c] = part_filled w h st c i (Suc j) pix"
  proof (rule nth_equalityI)
    fix p assume "p < length ((part_filled w h st c i j pix)[j * st + i := c])"
    then have p: "p < length pix" by (simp add: part_filled_simps)
    have "p = j * st + i \<longleftrightarrow> p div st = j \<and> p mod st = i" using assms(1,3) by auto
    then show "(part_filled w h st c i j pix)[j * st + i := c] ! p = part_filled w h st c i (Suc j) pix ! p"
      using p assms(1,3,4) by (auto simp: part_filled_def nth_list_update visible_def less_Suc_eq)
  qed (simp add: part_filled_simps)
qed

lemma to_int_of_nat: "n < 2 ^ 31 \<Longrightarrow> to_int (of_nat n) = int n"
  using to_int_small [of "of_nat n"] by (simp add: uint_of_nat64)

abbreviation with_dots :: "console_state \<Rightarrow> u32 list \<Rightarrow> console_state" where
  "with_dots s pix \<equiv> s\<lparr>dots := pix\<rparr>"

lemma draw_pixel_value:
  assumes "i < 2 ^ 14" and "j < 2 ^ 31" and "scr_stride s < 2 ^ 14" and "j * scr_stride s + i < length (dots s)"
  shows "draw_pixel (to_int (of_nat i)) (to_int (of_nat j)) c s = Some (with_dots s ((dots s)[j * scr_stride s + i := c]))"
proof -
  have "uint (of_nat j * gtx_stride s + of_nat i) = int (j * scr_stride s + i)"
    unfolding scr_stride_def using assms(1-3) by (intro index_word) (simp_all add: scr_stride_def)
  then show ?thesis
    using assms buf_set_in [OF assms(4), of c] by (simp only: draw_pixel_def to_int_of_nat of_int_of_nat_eq Let_def) (simp add: to_int_of_nat)
qed

lemma set_bg_value:
  assumes "screen_ok s" and "dst_bg (ssfn_dst s) = c" and "map_dst (\<lambda>b. b\<lparr>dst_bg := c\<rparr>) s0 = s"
  shows "term_set_bg c s0 = Some (with_dots s (screen_filled (nat (scr_width s)) (nat (scr_height s)) (scr_stride s) c (dots s)))"
proof -
  let ?w = "nat (scr_width s)" and ?h = "nat (scr_height s)" and ?st = "scr_stride s"
  let ?S = "\<lambda>i j. with_dots s (part_filled ?w ?h ?st c i j (dots s))"
  note b = screen_bounds [OF assms(1)]
  have g: "?w \<le> ?st" "?w < 2 ^ 14" "?h < 2 ^ 31" and L: "?h * ?st \<le> length (dots s)"
  proof -
    have k: "0 \<le> scr_height s" "scr_width s \<le> int ?st" "scr_height s < 2 ^ 31 - 256" "scr_height s * int ?st \<le> int (length (dots s))"
      using assms(1) by (simp_all add: screen_ok_def)
    then show "?w \<le> ?st" "?w < 2 ^ 14" "?h < 2 ^ 31" using b(2) by (simp_all add: nat_le_iff nat_less_iff)
    have "int (?h * ?st) \<le> int (length (dots s))" using k(1,4) by (simp only: of_nat_mult int_nat_eq if_True)
    then show "?h * ?st \<le> length (dots s)" by (simp only: of_nat_le_iff)
  qed
  have dot: "draw_pixel (to_int (of_nat i)) (to_int (of_nat j)) (dst_bg (ssfn_dst (?S i j))) (?S i j) = Some (?S i (Suc j))" if "i < ?w" "j < ?h" for i j
  proof -
    have st: "scr_stride (?S i j) = ?st" by (simp add: scr_stride_def gtx_stride_def)
    note p = part_filled_step [OF g(1) L that]
    have "draw_pixel (to_int (of_nat i)) (to_int (of_nat j)) c (?S i j) = Some (with_dots (?S i j) ((dots (?S i j))[j * ?st + i := c]))"
      using draw_pixel_value [of i j "?S i j" c] st p(2) that g b(1) by (simp add: part_filled_simps)
    then show ?thesis using p(1) assms(2) by simp
  qed
  have col: "for_range (\<lambda>j s. draw_pixel (to_int (of_nat i)) (to_int (of_nat j)) (dst_bg (ssfn_dst s)) s) 0 ?h (?S i 0) = Some (?S (Suc i) 0)"
    if "i < ?w" for i
  proof -
    have "\<exists>t. for_range (\<lambda>j s. draw_pixel (to_int (of_nat i)) (to_int (of_nat j)) (dst_bg (ssfn_dst s)) s) 0 ?h (?S i 0) = Some t \<and> t = ?S i ?h"
      by (rule for_range_total) (use dot [OF that] in simp_all)
    then show ?thesis by (simp add: part_filled_simps(2))
  qed
  have "\<exists>t. for_range (\<lambda>i. for_range (\<lambda>j s. draw_pixel (to_int (of_nat i)) (to_int (of_nat j)) (dst_bg (ssfn_dst s)) s) 0 ?h) 0 ?w s = Some t \<and> t = ?S ?w 0"
    by (rule for_range_total) (use col in \<open>simp_all add: part_filled_simps(1)\<close>)
  moreover have "unat (framebuffer_width (gtx_buffer s)) = ?w" "unat (framebuffer_height (gtx_buffer s)) = ?h"
    by (simp_all add: scr_width_def scr_height_def)
  ultimately show ?thesis unfolding term_set_bg_def Let_def assms(3) by (simp add: part_filled_simps(3))
qed

text \<open>A screen the boot loader may answer with.\<close>

definition lf_ok :: "limine_framebuffer \<Rightarrow> bool" where
  "lf_ok lf \<longleftrightarrow>
     8 \<le> uint (lf_width lf) \<and> 32 \<le> uint (lf_height lf) \<and> uint (lf_height lf) < 2 ^ 31 - 256 \<and>
     lf_pitch lf < 2 ^ 16 \<and> uint (lf_pitch lf) mod 4 = 0 \<and> uint (lf_width lf) \<le> uint (lf_pitch lf) div 4 \<and>
     uint (lf_height lf) * (uint (lf_pitch lf) div 4) \<le> int (length (lf_address lf))"

text \<open>The blank screen the banner is printed on.\<close>

definition blank_console :: "limine_framebuffer \<Rightarrow> u8 list \<Rightarrow> console_state \<Rightarrow> console_state" where
  "blank_console lf f s =
     \<lparr>gtx_buffer = \<lparr>framebuffer_width = lf_width lf, framebuffer_height = lf_height lf, gtx_pitch = lf_pitch lf, gtx_bpp = lf_bpp lf,
                    gtx_glyph_width = 8, gtx_glyph_height = 16\<rparr>,
      ssfn_src = Some f,
      ssfn_dst = (ssfn_dst s)\<lparr>dst_w := uint (lf_width lf), dst_h := uint (lf_height lf), dst_p := ucast (lf_pitch lf),
                              dst_x := 0, dst_y := 0, dst_bg := DEFAULT_BG\<rparr>,
      dots = screen_filled (unat (lf_width lf)) (unat (lf_height lf)) (unat (lf_pitch lf) div 4) DEFAULT_BG (lf_address lf)\<rparr>"

definition banner :: "string list" where
  "banner = [banner_line, [CHR 0x0a], ''Kernel Booted -- Welcome to FrazzOS 64-bit!'' @ [CHR 0x0a], [CHR 0x0a], banner_line]"

lemma banner_ascii: "\<forall>str \<in> set banner. list_all (\<lambda>c. (of_char c :: nat) < 128) str \<and> no_backspace (code_points str)"
  by (simp add: banner_def banner_line_def no_backspace_def code_points_def list_all_iff of_char_def)

lemma print_c_string:
  assumes "font_ok f" and "console_with f s" and "str \<in> set banner"
  shows "term_print_string (c_string str) color s = Some (fold (show_char f color) (code_points str) s)"
    and "console_with f (fold (show_char f color) (code_points str) s)"
  using print_string_value [OF assms(1,2), of "code_points str" color] banner_ascii assms(3) by (auto simp: c_string_utf8)

lemma blank_screen:
  assumes "lf_ok lf"
  shows "console_with f (blank_console lf f s)"
    and "term_set_bg DEFAULT_BG \<lparr>gtx_buffer = gtx_buffer (blank_console lf f s), ssfn_src = Some f,
        ssfn_dst = (ssfn_dst s)\<lparr>dst_w := to_int (lf_width lf), dst_h := to_int (lf_height lf), dst_p := ucast (lf_pitch lf), dst_x := 0, dst_y := 0\<rparr>,
        dots = lf_address lf\<rparr> = Some (blank_console lf f s)"
proof -
  let ?init = "\<lparr>gtx_buffer = gtx_buffer (blank_console lf f s), ssfn_src = Some f,
      ssfn_dst = (ssfn_dst s)\<lparr>dst_w := to_int (lf_width lf), dst_h := to_int (lf_height lf), dst_p := ucast (lf_pitch lf), dst_x := 0, dst_y := 0\<rparr>,
      dots = lf_address lf\<rparr>"
  let ?s = "map_dst (\<lambda>b. b\<lparr>dst_bg := DEFAULT_BG\<rparr>) ?init"
  have p16: "uint (lf_pitch lf) < 2 ^ 16" using assms(1) by (simp add: lf_ok_def word_less_def)
  then have "uint (lf_pitch lf) div 4 < 2 ^ 14" by simp
  moreover have "uint (lf_width lf) \<le> uint (lf_pitch lf) div 4" using assms(1) by (simp add: lf_ok_def)
  ultimately have w14: "uint (lf_width lf) < 2 ^ 14" by linarith
  have dims: "to_int (lf_width lf) = uint (lf_width lf)" "to_int (lf_height lf) = uint (lf_height lf)"
    using assms(1) w14 by (simp_all add: lf_ok_def to_int_small)
  have sc: "scr_width ?s = uint (lf_width lf)" "scr_height ?s = uint (lf_height lf)" "scr_stride ?s = unat (lf_pitch lf) div 4"
    by (simp_all add: scr_width_def scr_height_def stride_pitch blank_console_def)
  have ok: "screen_ok ?s"
    using assms(1) unfolding screen_ok_def sc by (simp add: lf_ok_def dims blank_console_def DEFAULT_BG_def zdiv_int)
  show "term_set_bg DEFAULT_BG ?init = Some (blank_console lf f s)"
    using set_bg_value [OF ok, of DEFAULT_BG ?init] unfolding sc by (simp add: blank_console_def dims)
  have okb: "screen_ok (blank_console lf f s)" "scr_width (blank_console lf f s) = scr_width ?s" "scr_height (blank_console lf f s) = scr_height ?s"
    using screen_ok_update [of "blank_console lf f s" ?s] ok by (simp_all add: blank_console_def screen_filled_def dims)
  have "cursor_ok (blank_console lf f s)"
    unfolding cursor_ok_def okb(2,3) sc using assms(1) by (simp add: blank_console_def lf_ok_def)
  then show "console_with f (blank_console lf f s)" using okb(1) by (simp add: console_with_def console_ok_def) (simp add: blank_console_def)
qed

lemma framebuffer_init_value:
  assumes "lf_ok lf" and "font_ok f"
  shows "framebuffer_init lf f s = Some (fold (\<lambda>str. fold (show_char f PURPLE) (code_points str)) banner (blank_console lf f s))"
    and "console_with f (fold (\<lambda>str. fold (show_char f PURPLE) (code_points str)) banner (blank_console lf f s))"
proof -
  note b = blank_screen [OF assms(1), of f s]
  let ?P = "\<lambda>str. fold (show_char f PURPLE) (code_points str)"
  have pr: "term_print_string (c_string str) PURPLE t = Some (?P str t)" "console_with f (?P str t)"
    if "console_with f t" "str \<in> set banner" for str t using print_c_string [OF assms(2) that] by simp_all
  have m: "banner_line \<in> set banner" "[CHR 0x0a] \<in> set banner" "''Kernel Booted -- Welcome to FrazzOS 64-bit!'' @ [CHR 0x0a] \<in> set banner"
    by (simp_all add: banner_def)
  let ?b = "blank_console lf f s"
  let ?b1 = "?P banner_line ?b"
  let ?b2 = "?P [CHR 0x0a] ?b1"
  let ?b3 = "?P (''Kernel Booted -- Welcome to FrazzOS 64-bit!'' @ [CHR 0x0a]) ?b2"
  let ?b4 = "?P [CHR 0x0a] ?b3"
  note r1 = pr [OF b(1) m(1)] note r2 = pr [OF r1(2) m(2)] note r3 = pr [OF r2(2) m(3)] note r4 = pr [OF r3(2) m(2)] note r5 = pr [OF r4(2) m(1)]
  have f: "fold (\<lambda>str. ?P str) banner ?b = ?P banner_line ?b4" unfolding banner_def by (simp only: fold_simps)
  have g: "gtx_buffer ?b = \<lparr>framebuffer_width = lf_width lf, framebuffer_height = lf_height lf, gtx_pitch = lf_pitch lf, gtx_bpp = lf_bpp lf,
               gtx_glyph_width = 8, gtx_glyph_height = 16\<rparr>" by (simp add: blank_console_def)
  show "framebuffer_init lf f s = Some (fold (\<lambda>str. ?P str) banner ?b)"
    unfolding f framebuffer_init_def Let_def using b(2) r1(1) r2(1) r3(1) r4(1) r5(1) unfolding g by (simp only: Option.bind.bind_lunit)
  show "console_with f (fold (\<lambda>str. ?P str) banner ?b)" unfolding f by (rule r5(2))
qed

section \<open>Backspace\<close>

text \<open>A space as the font of the kernel has it: eight dots wide, no fragments, nine dots to the next.\<close>

definition space_glyph :: glyph where
  "space_glyph = \<lparr>g_width = 8, g_height = 16, g_advance_x = 9, g_advance_y = 0, g_fragments = []\<rparr>"

lemma fragments_none: "fragments_at f w wide n p = Some [] \<Longrightarrow> n = 0"
  by (cases n) (auto simp: Option.bind_eq_Some_conv)

text \<open>Left of the first line, the space starts before the frame buffer.\<close>

lemma space_left_of_screen:
  assumes "screen_ok s" and "ssfn_src s = Some f" and "glyph_of f 0x20 = Some space_glyph"
    and "dst_x (ssfn_dst s) < 0" and "dst_y (ssfn_dst s) = 0"
  shows "console_putc 0x20 s = None"
proof -
  let ?b = "ssfn_dst s"
  from assms(3) obtain table chr where g: "font_valid f = Some True" "font_num f 4 16 = Some table" "find_chr f 0x20 table 0 = Some (Some chr)"
    "glyph_at f chr = Some space_glyph" by (auto simp: glyph_of_def Option.bind_eq_Some_conv split: if_splits)
  from g(4) obtain kind n w h ax ay where
    c: "buf_get f chr = Some kind" "buf_get f (chr + 1) = Some n" "buf_get f (chr + 2) = Some w" "buf_get f (chr + 3) = Some h"
      "buf_get f (chr + 4) = Some ax" "buf_get f (chr + 5) = Some ay" and
    fs: "fragments_at f (unat w) (kind AND 0x40 \<noteq> 0) (unat n) (chr + 6) = Some []" and wh: "unat w = 8" "uint h = 16"
    by (auto simp: glyph_at_def Option.bind_eq_Some_conv space_glyph_def split: if_splits)
  have n: "unat n = 0" using fragments_none [OF fs] .
  have w: "uint w = 8" using wh(1) by (metis uint_nat of_nat_numeral)
  have d: "0 < dst_w ?b" "0 < dst_h ?b" "dst_bg ?b \<noteq> 0" using assms(1) by (simp_all add: screen_ok_def)
  have sh: "row_shown ?b 0" "col_shown ?b 0" using d assms(4,5) by (simp_all add: row_shown_def col_shown_def ssfn_w_def)
  have "buf_set (dots s) (dst_x ?b) v = None" for v using assms(4) by (simp add: buf_set_def)
  then have "bg_line ?b 8 0 (dst_x ?b) (dots s) = None" using sh by (subst bg_line.simps) simp
  then have l: "bg_lines ?b 8 16 (dst_x ?b, 0, dots s) = None" using sh by (subst bg_lines.simps) simp
  have "0 < scr_stride s" using screen_bounds(3) [OF assms(1)] .
  then have "dst_p ?b \<noteq> 0" using screen_ssfn_s(1) [OF assms(1)] by (auto simp: ssfn_s_def)
  moreover have "dots s \<noteq> []"
  proof
    assume e: "dots s = []"
    have "scr_height s * int (scr_stride s) \<le> 0" using assms(1) e by (simp add: screen_ok_def)
    moreover have "0 < scr_height s * int (scr_stride s)" using \<open>0 < scr_stride s\<close> assms(1) by (intro mult_pos_pos) (simp_all add: screen_ok_def)
    ultimately show False by simp
  qed
  ultimately show ?thesis
    using g c n w wh(2) d(3) l assms(2,5) by (simp add: console_putc_def ssfn_putc_def Let_def)
qed

text \<open>Two backspaces after the first character: the first moves to column 2, the second to column -6.\<close>

lemma placed_here:
  assumes "0 \<le> x" and "x + 8 \<le> scr_width s" and "y < scr_height s"
  shows "placed x y color s = s\<lparr>ssfn_dst := (ssfn_dst s)\<lparr>dst_x := x, dst_y := y, dst_fg := color\<rparr>\<rparr>"
  using assms by (simp add: placed_def)

lemma backspace_steps:
  assumes "font_ok f" and "console_with f s" and "glyph_of f 0x20 = Some space_glyph" and "dst_y (ssfn_dst s) = 0"
    and "dst_x (ssfn_dst s) + 8 \<le> scr_width s"
  shows "8 < dst_x (ssfn_dst s) \<Longrightarrow> \<exists>s'. term_print_char 0x08 (dst_x (ssfn_dst s)) 0 color s = Some s' \<and> console_with f s' \<and>
      dst_x (ssfn_dst s') = dst_x (ssfn_dst s) - 7 \<and> dst_y (ssfn_dst s') = 0 \<and> scr_width s' = scr_width s"
    and "0 < dst_x (ssfn_dst s) \<Longrightarrow> dst_x (ssfn_dst s) < 8 \<Longrightarrow> term_print_char 0x08 (dst_x (ssfn_dst s)) 0 color s = None"
proof -
  let ?x = "dst_x (ssfn_dst s)"
  have ok: "console_ok s" "ssfn_src s = Some f" using assms(2) by (simp_all add: console_with_def)
  note c = cursor_okD [OF ok(1)]
  have h: "0 < scr_height s" "gtx_glyph_width (gtx_buffer s) = 8" using c(1) by (simp_all add: screen_ok_def)
  let ?t = "\<lambda>x. s\<lparr>ssfn_dst := (ssfn_dst s)\<lparr>dst_x := x, dst_y := 0, dst_fg := color\<rparr>\<rparr>"
  have u: "screen_ok (?t x) = screen_ok s" "scr_width (?t x) = scr_width s" "scr_height (?t x) = scr_height s" for x
    by (rule screen_ok_update; simp)+
  have bs: "term_print_char 0x08 ?x 0 color s = map_option (map_dst (\<lambda>b. b\<lparr>dst_x := dst_x b - gtx_glyph_width (gtx_buffer s)\<rparr>)) (console_putc 0x20 (?t (?x - 8)))"
    if "0 < ?x"
    using place_cursor_value [OF c, of color] placed_here [OF c(2) assms(5), of 0 color] that assms(4) h
    by (subst term_print_char.simps) (simp add: backspace_def Let_def cursor_move_order)
  show "term_print_char 0x08 ?x 0 color s = None" if "0 < ?x" "?x < 8"
    using bs [OF that(1)] space_left_of_screen [of "?t (?x - 8)" f] that(2) u(1) c(1) ok(2) assms(3) by simp
  show "\<exists>s'. term_print_char 0x08 ?x 0 color s = Some s' \<and> console_with f s' \<and> dst_x (ssfn_dst s') = ?x - 7 \<and> dst_y (ssfn_dst s') = 0 \<and> scr_width s' = scr_width s"
    if x: "8 < ?x"
  proof -
    let ?r = "put_glyph f 0x20 (?t (?x - 8))"
    let ?s' = "?r\<lparr>ssfn_dst := (ssfn_dst ?r)\<lparr>dst_x := dst_x (ssfn_dst ?r) - 8\<rparr>\<rparr>"
    have k: "cursor_placed (?t (?x - 8))" unfolding cursor_placed_def u using x assms(5) h(1) by simp
    have sk: "screen_ok (?t (?x - 8))" using u(1) c(1) by simp
    have pv: "console_putc 0x20 (?t (?x - 8)) = Some ?r"
      using console_putc_value [OF assms(1) _ placed_console_ok [OF sk k]] ok(2) by simp
    have d: "dst_x (ssfn_dst ?s') = ?x - 7" "dst_y (ssfn_dst ?s') = 0" using assms(3) by (simp_all add: put_glyph_def advanced_def space_glyph_def)
    have v: "screen_ok ?s' = screen_ok s" "scr_width ?s' = scr_width s" "scr_height ?s' = scr_height s"
      by (rule screen_ok_update; simp add: put_glyph_def advanced_def glyph_drawn_def split: option.split)+
    have "cursor_ok ?s'" unfolding cursor_ok_def v d using x assms(5) h(1) by simp
    then have "console_with f ?s'" using v(1) c(1) put_glyph_ok(2) [OF sk k, of f "0x20"] ok(2) by (simp add: console_with_def console_ok_def)
    moreover have "term_print_char 0x08 ?x 0 color s = Some ?s'" using bs pv x h(2) by simp
    ultimately show ?thesis using d v(2) by blast
  qed
qed

lemma print_string_step:
  assumes "u \<noteq> 0" and "u < 0x110000"
  shows "term_print_string (utf8_char u @ rest) color s =
    Option.bind (term_print_char u (dst_x (ssfn_dst s)) (dst_y (ssfn_dst s)) color s) (term_print_string rest color)"
proof -
  obtain a as where "utf8_char u = a # as" "a \<noteq> 0" using utf8_char_nonzero [OF assms(1)] by (cases "utf8_char u") auto
  then show ?thesis using ssfn_utf8_decodes [OF assms(2), of rest] by (subst term_print_string.simps) simp
qed

lemma backspaces_fault:
  assumes "font_ok f" and "console_with f s" and "17 \<le> scr_width s" and "dst_x (ssfn_dst s) = 0" and "dst_y (ssfn_dst s) = 0"
    and "glyph_of f 0x20 = Some space_glyph" and "glyph_of f u = Some g" and "g_advance_x g = 9" and "g_advance_y g = 0"
    and "u \<notin> {0, 0x08, 0x09, 0x0a}" and "u < 0x110000"
  shows "term_print_string (utf8_char u @ [0x08, 0x08, 0]) color s = None"
proof -
  let ?s1 = "put_char f color u s"
  have u: "u \<noteq> 0" "u \<noteq> 0x08" "u \<noteq> 0x09" "u \<noteq> 0x0a" using assms(10) by simp_all
  have ok: "console_ok s" using assms(2) by (simp add: console_with_def)
  note c = cursor_okD [OF ok]
  have h: "0 < scr_height s" using c(1) by (simp add: screen_ok_def)
  note p1 = put_char_value [OF assms(1,2) u(2,3), of color]
  have pl: "placed 0 0 color s = s\<lparr>ssfn_dst := (ssfn_dst s)\<lparr>dst_x := 0, dst_y := 0, dst_fg := color\<rparr>\<rparr>"
    using placed_here [of 0 s 0 color] assms(3) h by simp
  have d1: "dst_x (ssfn_dst ?s1) = 9" "dst_y (ssfn_dst ?s1) = 0"
    using assms(4,5,7-9) u by (simp_all add: put_char_def printed_def pl put_glyph_def advanced_def)
  have w1: "scr_width ?s1 = scr_width s"
    using assms(4,5,7) u by (simp add: put_char_def printed_def pl put_glyph_def scr_width_def)
  from backspace_steps(1) [OF assms(1) p1(2) assms(6) d1(2), of color] d1 w1 assms(3) obtain s2 where
    s2: "term_print_char 0x08 9 0 color ?s1 = Some s2" "console_with f s2" "dst_x (ssfn_dst s2) = 2" "dst_y (ssfn_dst s2) = 0" "scr_width s2 = scr_width s"
    by auto
  have s3: "term_print_char 0x08 2 0 color s2 = None"
    using backspace_steps(2) [OF assms(1) s2(2) assms(6) s2(4), of color] s2(3,5) assms(3) by simp
  have b: "utf8_char 0x08 = [0x08]" by (simp add: utf8_char_def)
  have "term_print_string (utf8_char u @ [0x08, 0x08, 0]) color s = term_print_string (utf8_char 0x08 @ [0x08, 0]) color ?s1"
    using print_string_step [OF u(1) assms(11), of "[0x08, 0x08, 0]" color s] p1(1) by (simp add: b)
  also have "\<dots> = term_print_string (utf8_char 0x08 @ [0]) color s2"
    using print_string_step [of "0x08" "[0x08, 0]" color ?s1] s2(1) d1 by (simp add: b)
  also have "\<dots> = None" using print_string_step [of "0x08" "[0]" color s2] s3 s2(3,4) by simp
  finally show ?thesis .
qed

end
