(* ===== verification/Console_Picture.thy ===== *)
theory Console_Picture
  imports Console_Text
begin

text \<open>
  The picture of the console dot by dot: a glyph, the scroll, and a text that fits on its line.
\<close>

section \<open>Dots of a glyph\<close>

lemma box_iff:
  assumes "ssfn_ready b L" and "p < L"
  defines "X \<equiv> int p mod ssfn_s b" and "Y \<equiv> int p div ssfn_s b"
  shows "p \<in> box b (int w) 0 (rows_in b h) \<longleftrightarrow>
    dst_x b \<le> X \<and> X < dst_x b + int w \<and> X < dst_w b \<and> dst_y b \<le> Y \<and> Y < dst_y b + h \<and> Y < dst_h b" (is "?l \<longleftrightarrow> ?r")
proof
  assume ?l
  then obtain r k where r: "0 \<le> r" "r < rows_in b h" "p = nat (dot_pos b r) + k" "k < nat (cols_in b (int w))"
    by (auto simp: box_def line_dots_def le_iff_add)
  have k: "r < dst_h b - dst_y b" "r < h" "0 \<le> int k" "int k < dst_w b - dst_x b" "int k < int w"
    using r(2,4) by (auto simp: rows_in_def cols_in_def)
  note d = glyph_dot_bounds [OF assms(1) r(1) k(1,3,4)]
  have "int p = dot_pos b r + int k" using r(3) d(1) by simp
  then show ?r using d(3,4) r(1) k by (simp add: X_def Y_def)
next
  assume R: ?r
  let ?r = "Y - dst_y b" and ?c = "X - dst_x b"
  have s: "0 < ssfn_s b" using assms(1) by (auto simp: ssfn_ready_def)
  have "int p = Y * ssfn_s b + X" by (simp add: X_def Y_def)
  then have e: "int p = dot_pos b ?r + ?c" by (simp add: dot_pos_def)
  have "?r \<in> {0..<rows_in b h}" using R by (simp add: rows_in_def)
  moreover have "p \<in> line_dots b (int w) ?r"
  proof -
    have c: "0 \<le> ?c" "?c < cols_in b (int w)" using R by (auto simp: cols_in_def)
    have "0 \<le> dot_pos b ?r" using R by (intro glyph_dot_bounds(1) [OF assms(1), of _ 0]) simp_all
    then show ?thesis using e c unfolding line_dots_def by (simp add: nat_le_iff)
  qed
  ultimately show ?l unfolding box_def by blast
qed

lemma glyph_drawn_nth:
  assumes "ssfn_ready b (length pix)" and "p < length pix"
  defines "X \<equiv> int p mod ssfn_s b" and "Y \<equiv> int p div ssfn_s b"
  shows "glyph_drawn f b g pix ! p =
    (if dst_x b \<le> X \<and> X < dst_x b + int (g_width g) \<and> X < dst_w b \<and> dst_y b \<le> Y \<and> Y < dst_y b + g_height g \<and> Y < dst_h b
     then if ink f (g_width g) (g_fragments g) (Y - dst_y b) (nat (X - dst_x b)) then dst_fg b else dst_bg b
     else pix ! p)"
  using assms(2) box_iff [OF assms(1,2)] by (simp add: glyph_drawn_def glyph_colour_def X_def Y_def)

section \<open>Dots of the screen\<close>

definition dot_at :: "console_state \<Rightarrow> int \<Rightarrow> int \<Rightarrow> u32" where
  "dot_at s x y = dots s ! nat (y * int (scr_stride s) + x)"

definition on_screen :: "console_state \<Rightarrow> int \<Rightarrow> int \<Rightarrow> bool" where
  "on_screen s x y \<longleftrightarrow> 0 \<le> x \<and> x < scr_width s \<and> 0 \<le> y \<and> y < scr_height s"

lemma dot_position:
  assumes "screen_ok s" and "on_screen s x y"
  defines "p \<equiv> nat (y * int (scr_stride s) + x)"
  shows "p < length (dots s)" and "int p div int (scr_stride s) = y" and "int p mod int (scr_stride s) = x"
proof -
  let ?st = "int (scr_stride s)"
  have x: "0 \<le> x" "x < ?st" and y: "0 \<le> y" "y < scr_height s" and L: "scr_height s * ?st \<le> int (length (dots s))"
    using assms(1,2) by (auto simp: screen_ok_def on_screen_def)
  have "0 \<le> y * ?st" using y(1) by simp
  then have p: "int p = x + y * ?st" using x(1) by (simp add: p_def)
  show "int p div ?st = y" "int p mod ?st = x" unfolding p using x by (simp_all add: div_pos_pos_trivial)
  have "(y + 1) * ?st \<le> scr_height s * ?st" using y(2) by (intro mult_right_mono) simp_all
  then have "int p < int (length (dots s))" using L x(2) unfolding p by (simp add: algebra_simps)
  then show "p < length (dots s)" by simp
qed

lemma glyph_dot_at:
  assumes "console_ok s" and "on_screen s x y" and "gtx_buffer t = gtx_buffer s" and "dots t = glyph_drawn f (ssfn_dst s) g (dots s)"
  defines "b \<equiv> ssfn_dst s"
  shows "dot_at t x y =
    (if dst_x b \<le> x \<and> x < dst_x b + int (g_width g) \<and> dst_y b \<le> y \<and> y < dst_y b + g_height g
     then if ink f (g_width g) (g_fragments g) (y - dst_y b) (nat (x - dst_x b)) then dst_fg b else dst_bg b
     else dot_at s x y)"
proof -
  have ok: "screen_ok s" using assms(1) by (simp add: console_ok_def)
  note d = dot_position [OF ok assms(2)]
  have st: "scr_stride t = scr_stride s" "ssfn_s b = int (scr_stride s)" using assms(3) screen_ssfn_s(1) [OF ok]
    by (simp_all add: scr_stride_def gtx_stride_def b_def)
  have "x < dst_w b" "y < dst_h b" using assms(2) ok by (simp_all add: on_screen_def screen_ok_def b_def)
  then show ?thesis
    using glyph_drawn_nth [OF console_ready [OF assms(1)] d(1)] d(2,3) assms(4) st by (simp add: dot_at_def b_def)
qed

lemma scrolled_dot_at:
  assumes "screen_ok s" and "on_screen s x y" and "gtx_buffer t = gtx_buffer s" and "dots t = scrolled_dots s"
  shows "dot_at t x y = (if y + 16 < scr_height s then dot_at s x (y + 16) else dst_bg (ssfn_dst s))"
proof -
  let ?p = "nat (y * int (scr_stride s) + x)" and ?st = "scr_stride s"
  note d = dot_position [OF assms(1,2)]
  have b: "0 \<le> x" "x < scr_width s" "0 \<le> y" "y < scr_height s" using assms(2) by (simp_all add: on_screen_def)
  have dm: "?p div ?st = nat y" "?p mod ?st = nat x"
    using d(2,3) b by (metis nat_int zdiv_int) (metis d(3) nat_int zmod_int)
  have "int (?p + 16 * ?st) = (y + 16) * int ?st + x" using b by (simp add: algebra_simps)
  then have q: "?p + 16 * ?st = nat ((y + 16) * int ?st + x)" by (metis nat_int)
  have st: "scr_stride t = ?st" using assms(3) by (simp add: scr_stride_def gtx_stride_def)
  have "dot_at t x y = (if nat y + 16 < nat (scr_height s) then dots s ! (?p + 16 * ?st) else dst_bg (ssfn_dst s))"
    using d(1) b dm assms(4) st by (simp add: dot_at_def screen_scrolled_def visible_def)
  moreover have "nat y + 16 < nat (scr_height s) \<longleftrightarrow> y + 16 < scr_height s" using b by linarith
  ultimately show ?thesis by (simp add: dot_at_def q)
qed


lemma blank_dot:
  assumes "screen_ok (blank_console lf f s)" and "on_screen (blank_console lf f s) x y"
  shows "dot_at (blank_console lf f s) x y = DEFAULT_BG"
proof -
  let ?b = "blank_console lf f s" and ?p = "nat (y * int (scr_stride (blank_console lf f s)) + x)"
  note d = dot_position [OF assms]
  have b: "0 \<le> x" "x < scr_width ?b" "0 \<le> y" "y < scr_height ?b" using assms(2) by (simp_all add: on_screen_def)
  have dm: "?p div scr_stride ?b = nat y" "?p mod scr_stride ?b = nat x"
    using d(2,3) by (metis nat_int zdiv_int) (metis d(3) nat_int zmod_int)
  have "scr_stride ?b = unat (lf_pitch lf) div 4" "scr_width ?b = uint (lf_width lf)" "scr_height ?b = uint (lf_height lf)"
    by (simp_all add: stride_pitch blank_console_def scr_width_def scr_height_def)
  note g = this
  have "visible (unat (lf_width lf)) (unat (lf_height lf)) (unat (lf_pitch lf) div 4) ?p"
    using b dm unfolding visible_def g by (simp add: nat_less_iff)
  moreover have "?p < length (lf_address lf)" using d(1) by (simp add: blank_console_def screen_filled_def)
  ultimately show ?thesis by (simp add: dot_at_def) (simp add: blank_console_def screen_filled_def)
qed

section \<open>A text on its line\<close>

text \<open>Glyphs as the font has them: sixteen lines, at least eight dots to the next.\<close>

definition line_glyph :: "glyph \<Rightarrow> bool" where
  "line_glyph g \<longleftrightarrow> g_height g = 16 \<and> 8 \<le> g_advance_x g \<and> int (g_width g) \<le> g_advance_x g \<and> g_advance_y g = 0"

definition drawn_glyph :: "u8 list \<Rightarrow> u32 \<Rightarrow> glyph" where
  "drawn_glyph f u = the (glyph_of f u)"

definition line_text :: "u8 list \<Rightarrow> u32 list \<Rightarrow> bool" where
  "line_text f us \<longleftrightarrow> (\<forall>u \<in> set us. u \<notin> {0, 0x08, 0x09, 0x0a} \<and> u < 0x110000 \<and> glyph_of f u \<noteq> None \<and> line_glyph (drawn_glyph f u))"

definition text_width :: "u8 list \<Rightarrow> u32 list \<Rightarrow> int" where
  "text_width f us = (\<Sum>u\<leftarrow>us. g_advance_x (drawn_glyph f u))"

lemma text_width_simps [simp]: "text_width f [] = 0" "text_width f (u # us) = g_advance_x (drawn_glyph f u) + text_width f us"
  by (simp_all add: text_width_def)

lemma text_width_nonneg: "line_text f us \<Longrightarrow> 0 \<le> text_width f us"
  by (induction us) (auto simp: line_text_def line_glyph_def)

lemma text_width_take: "line_text f us \<Longrightarrow> k < length us \<Longrightarrow> text_width f (take k us) + g_advance_x (drawn_glyph f (us ! k)) \<le> text_width f us"
proof (induction us arbitrary: k)
  case (Cons u us)
  have "line_text f us" using Cons.prems(1) by (simp add: line_text_def)
  then show ?case using Cons text_width_nonneg by (cases k) (auto simp: line_text_def)
qed simp

text \<open>The dots of the frame buffer that are on the screen: the lines are longer than the screen is wide.  A glyph does not
  reach the others.\<close>

definition seen :: "console_state \<Rightarrow> nat \<Rightarrow> bool" where
  "seen s p \<longleftrightarrow> visible (nat (scr_width s)) (nat (scr_height s)) (scr_stride s) p"

lemma unseen_dot:
  assumes "console_ok s" and "p < length (dots s)" and "\<not> seen s p"
  shows "glyph_drawn f (ssfn_dst s) g (dots s) ! p = dots s ! p"
proof -
  have ok: "screen_ok s" using assms(1) by (simp add: console_ok_def)
  have "ssfn_s (ssfn_dst s) = int (scr_stride s)" "dst_w (ssfn_dst s) = scr_width s" "dst_h (ssfn_dst s) = scr_height s"
    using screen_ssfn_s(1) [OF ok] ok by (simp_all add: screen_ok_def)
  moreover have "\<not> (int (p mod scr_stride s) < scr_width s \<and> int (p div scr_stride s) < scr_height s)"
    using assms(3) by (simp add: seen_def visible_def) linarith
  ultimately show ?thesis
    using glyph_drawn_nth [OF console_ready [OF assms(1)] assms(2)] by (auto simp: zmod_int zdiv_int)
qed

text \<open>One character of such a text.\<close>

lemma show_glyph:
  fixes s :: console_state and color :: u32
  assumes "console_with f s" and "line_text f [u]" and "dst_x (ssfn_dst s) + g_advance_x (drawn_glyph f u) \<le> scr_width s"
    and "dst_y (ssfn_dst s) + 16 \<le> scr_height s"
  defines "t \<equiv> show_char f color u s" and "b \<equiv> ssfn_dst s" and "g \<equiv> drawn_glyph f u"
  shows "ssfn_dst t = b\<lparr>dst_x := dst_x b + g_advance_x g, dst_fg := color\<rparr>" and "gtx_buffer t = gtx_buffer s"
    and "\<And>x y. on_screen s x y \<Longrightarrow> dot_at t x y =
      (if dst_x b \<le> x \<and> x < dst_x b + int (g_width g) \<and> dst_y b \<le> y \<and> y < dst_y b + 16
       then if ink f (g_width g) (g_fragments g) (y - dst_y b) (nat (x - dst_x b)) then color else dst_bg b
       else dot_at s x y)"
    and "length (dots t) = length (dots s)"
    and "\<And>p. p < length (dots s) \<Longrightarrow> \<not> seen s p \<Longrightarrow> dots t ! p = dots s ! p"
proof -
  have u: "u \<noteq> 0" "u \<noteq> 0x09" "u \<noteq> 0x0a" and g: "glyph_of f u = Some g" "g_height g = 16" "8 \<le> g_advance_x g" "g_advance_y g = 0"
    using assms(2) by (auto simp: line_text_def line_glyph_def g_def drawn_glyph_def)
  have ok: "console_ok s" using assms(1) by (simp add: console_with_def)
  note c = cursor_okD [OF ok]
  let ?p = "s\<lparr>ssfn_dst := b\<lparr>dst_x := dst_x b, dst_y := dst_y b, dst_fg := color\<rparr>\<rparr>"
  have x8: "dst_x b + 8 \<le> scr_width s" "dst_y b < scr_height s" using assms(3,4) g(3) by (simp_all add: g_def b_def)
  have "placed (dst_x b) (dst_y b) color s = ?p"
    using placed_here [of "dst_x b" s "dst_y b" color] c(2) x8 by (simp only: b_def)
  then have t: "t = put_glyph f u ?p" using u by (simp add: t_def show_char_def put_char_def printed_def b_def)
  have v: "screen_ok ?p = screen_ok s" "scr_width ?p = scr_width s" "scr_height ?p = scr_height s" "scr_stride ?p = scr_stride s"
    by (rule screen_ok_update; simp add: b_def)+
  have kp: "console_ok ?p" unfolding console_ok_def cursor_ok_def v using ok c by (simp add: console_ok_def b_def)
  show "ssfn_dst t = b\<lparr>dst_x := dst_x b + g_advance_x g, dst_fg := color\<rparr>" "gtx_buffer t = gtx_buffer s"
    using g by (cases b, simp add: t put_glyph_def advanced_def)+
  have dt: "dots t = glyph_drawn f (ssfn_dst ?p) g (dots s)" using g(1) by (simp add: t put_glyph_def)
  show "length (dots t) = length (dots s)" by (simp add: dt glyph_drawn_def)
  show "dots t ! p = dots s ! p" if "p < length (dots s)" "\<not> seen s p" for p
    using unseen_dot [OF kp, of p f g] that v(2-4) by (simp add: dt seen_def)
  fix x y assume o: "on_screen s x y"
  have op: "on_screen ?p x y" using o by (simp only: on_screen_def v)
  have "dots t = glyph_drawn f (ssfn_dst ?p) g (dots ?p)" "gtx_buffer t = gtx_buffer ?p" using g(1) by (simp_all add: t put_glyph_def)
  from glyph_dot_at [OF kp op this(2,1)] show "dot_at t x y =
      (if dst_x b \<le> x \<and> x < dst_x b + int (g_width g) \<and> dst_y b \<le> y \<and> y < dst_y b + 16
       then if ink f (g_width g) (g_fragments g) (y - dst_y b) (nat (x - dst_x b)) then color else dst_bg b
       else dot_at s x y)"
    using g(2) v(4) by (simp add: dot_at_def)
qed

text \<open>The boxes of the glyphs of a text from \<open>(x0, y0)\<close> on.  Between two of them there can be dots of neither, since
  the advance of a glyph can be more than its width.\<close>

definition in_text :: "u8 list \<Rightarrow> u32 list \<Rightarrow> int \<Rightarrow> int \<Rightarrow> int \<Rightarrow> int \<Rightarrow> bool" where
  "in_text f us x0 y0 x y \<longleftrightarrow>
     (\<exists>k < length us. x0 + text_width f (take k us) \<le> x \<and> x < x0 + text_width f (take k us) + int (g_width (drawn_glyph f (us ! k))) \<and>
        y0 \<le> y \<and> y < y0 + 16)"

lemma in_text_simps [simp]:
  "\<not> in_text f [] x0 y0 x y"
  "in_text f (u # us) x0 y0 x y \<longleftrightarrow> x0 \<le> x \<and> x < x0 + int (g_width (drawn_glyph f u)) \<and> y0 \<le> y \<and> y < y0 + 16 \<or>
     in_text f us (x0 + g_advance_x (drawn_glyph f u)) y0 x y"
  by (simp_all add: in_text_def Ex_less_Suc2 add.assoc)

lemma in_text_right:
  assumes "line_text f us" and "in_text f us x0 y0 x y"
  shows "x0 \<le> x"
proof -
  obtain k where "k < length us" "x0 + text_width f (take k us) \<le> x" using assms(2) by (auto simp: in_text_def)
  moreover have "line_text f (take k us)" using assms(1) set_take_subset [of k us] by (auto simp: line_text_def)
  ultimately show ?thesis using text_width_nonneg [of f "take k us"] by simp
qed

text \<open>A text that fits: every glyph is where the widths before it say, every other dot of the screen is as it was, and
  so is every dot of the frame buffer beside the screen.\<close>

definition text_shown :: "u8 list \<Rightarrow> u32 \<Rightarrow> u32 list \<Rightarrow> console_state \<Rightarrow> console_state \<Rightarrow> bool" where
  "text_shown f color us s t \<longleftrightarrow>
     (let x0 = dst_x (ssfn_dst s); y0 = dst_y (ssfn_dst s); bg = dst_bg (ssfn_dst s) in
      (\<forall>k < length us. \<forall>c < g_width (drawn_glyph f (us ! k)). \<forall>r \<in> {0..<16}.
         dot_at t (x0 + text_width f (take k us) + int c) (y0 + r) =
           (if ink f (g_width (drawn_glyph f (us ! k))) (g_fragments (drawn_glyph f (us ! k))) r c then color else bg)) \<and>
      (\<forall>x y. on_screen s x y \<and> \<not> in_text f us x0 y0 x y \<longrightarrow> dot_at t x y = dot_at s x y) \<and>
      length (dots t) = length (dots s) \<and> (\<forall>p < length (dots s). \<not> seen s p \<longrightarrow> dots t ! p = dots s ! p))"

lemma text_shown_at:
  assumes "text_shown f color us s t" and "k < length us" and "drawn_glyph f (us ! k) = g" and "c < g_width g" and "0 \<le> r" and "r < 16"
  shows "dot_at t (dst_x (ssfn_dst s) + text_width f (take k us) + int c) (dst_y (ssfn_dst s) + r) =
    (if ink f (g_width g) (g_fragments g) r c then color else dst_bg (ssfn_dst s))"
proof -
  have "r \<in> {0..<16}" using assms(5,6) by simp
  with assms show ?thesis unfolding text_shown_def Let_def by blast
qed

lemma text_shown_cons:
  assumes "console_with f s" and "line_text f (u # us)" and "dst_x (ssfn_dst s) + text_width f (u # us) \<le> scr_width s"
    and "dst_y (ssfn_dst s) + 16 \<le> scr_height s"
    and "text_shown f color us (show_char f color u s) t"
  shows "text_shown f color (u # us) s t"
proof -
  let ?b = "ssfn_dst s" and ?s = "show_char f color u s" and ?g = "drawn_glyph f u"
  have l: "line_text f [u]" "line_text f us" using assms(2) by (simp_all add: line_text_def)
  have g: "int (g_width ?g) \<le> g_advance_x ?g" "8 \<le> g_advance_x ?g" using l(1) by (simp_all add: line_text_def line_glyph_def)
  have w: "0 \<le> text_width f us" using text_width_nonneg [OF l(2)] .
  have adv: "dst_x ?b + g_advance_x ?g \<le> scr_width s" using assms(3) w by simp
  note sh = show_glyph [OF assms(1) l(1) adv assms(4), where color = color]
  have on: "on_screen ?s x y = on_screen s x y" for x y by (simp add: on_screen_def scr_width_def scr_height_def sh(2))
  have xy: "dst_x (ssfn_dst ?s) = dst_x ?b + g_advance_x ?g" "dst_y (ssfn_dst ?s) = dst_y ?b" "dst_bg (ssfn_dst ?s) = dst_bg ?b"
    by (simp_all add: sh(1))
  have c0: "0 \<le> dst_x ?b" "0 \<le> dst_y ?b" using cursor_okD [of s] assms(1) by (simp_all add: console_with_def)
  have IH: "dot_at t (dst_x ?b + g_advance_x ?g + text_width f (take k us) + int c) (dst_y ?b + r) =
      (if ink f (g_width (drawn_glyph f (us ! k))) (g_fragments (drawn_glyph f (us ! k))) r c then color else dst_bg ?b)"
    if "k < length us" "c < g_width (drawn_glyph f (us ! k))" "r \<in> {0..<16}" for k c r
    using assms(5) that unfolding text_shown_def Let_def xy by blast
  have fr: "dot_at t x y = dot_at ?s x y"
    if "on_screen s x y" "\<not> in_text f us (dst_x ?b + g_advance_x ?g) (dst_y ?b) x y" for x y
    using assms(5) that unfolding text_shown_def Let_def xy on by blast
  have se: "seen ?s p = seen s p" for p using sh(2) by (simp add: seen_def scr_width_def scr_height_def scr_stride_def gtx_stride_def)
  have hid: "length (dots t) = length (dots ?s)" "\<And>p. p < length (dots ?s) \<Longrightarrow> \<not> seen s p \<Longrightarrow> dots t ! p = dots ?s ! p"
    using assms(5) unfolding text_shown_def Let_def se by blast+
  show ?thesis unfolding text_shown_def Let_def
  proof (intro conjI allI impI ballI)
    show "length (dots t) = length (dots s)" using hid(1) sh(4) by simp
    fix p assume "p < length (dots s)" "\<not> seen s p"
    then show "dots t ! p = dots s ! p" using hid(2) sh(4,5) by simp
  next
    fix k c r assume k: "k < length (u # us)" "c < g_width (drawn_glyph f ((u # us) ! k))" "(r :: int) \<in> {0..<16}"
    show "dot_at t (dst_x ?b + text_width f (take k (u # us)) + int c) (dst_y ?b + r) =
      (if ink f (g_width (drawn_glyph f ((u # us) ! k))) (g_fragments (drawn_glyph f ((u # us) ! k))) r c then color else dst_bg ?b)"
    proof (cases k)
      case 0
      have c: "int c < int (g_width ?g)" using k(2) 0 by simp
      have o: "on_screen s (dst_x ?b + int c) (dst_y ?b + r)" using c c0 g adv k(3) assms(4) by (simp add: on_screen_def)
      then have "dot_at t (dst_x ?b + int c) (dst_y ?b + r) = dot_at ?s (dst_x ?b + int c) (dst_y ?b + r)"
        using c g in_text_right [OF l(2)] by (intro fr) force+
      then show ?thesis using sh(3) [OF o] c k(3) 0 by simp
    next
      case (Suc j)
      then show ?thesis using IH [of j c r] k by (simp add: add.assoc)
    qed
  next
    fix x y assume a: "on_screen s x y \<and> \<not> in_text f (u # us) (dst_x ?b) (dst_y ?b) x y"
    then have "dot_at t x y = dot_at ?s x y" by (intro fr) auto
    moreover have "\<not> (dst_x ?b \<le> x \<and> x < dst_x ?b + int (g_width ?g) \<and> dst_y ?b \<le> y \<and> y < dst_y ?b + 16)" using a by simp
    ultimately show "dot_at t x y = dot_at s x y" using sh(3) [of x y] a by simp
  qed
qed

lemma text_on_line:
  fixes color :: u32
  assumes "font_ok f" and "console_with f s" and "line_text f us" and "dst_x (ssfn_dst s) + text_width f us \<le> scr_width s"
    and "dst_y (ssfn_dst s) + 16 \<le> scr_height s"
  defines "t \<equiv> fold (show_char f color) us s"
  shows "text_shown f color us s t \<and> gtx_buffer t = gtx_buffer s \<and> dst_x (ssfn_dst t) = dst_x (ssfn_dst s) + text_width f us \<and>
    dst_y (ssfn_dst t) = dst_y (ssfn_dst s)"
  unfolding t_def using assms(2-5)
proof (induction us arbitrary: s)
  case Nil
  then show ?case by (simp add: text_shown_def)
next
  case (Cons u us)
  let ?s = "show_char f color u s"
  have l: "line_text f [u]" "line_text f us" "u \<noteq> 0x08" using Cons.prems(2) by (simp_all add: line_text_def)
  have adv: "dst_x (ssfn_dst s) + g_advance_x (drawn_glyph f u) \<le> scr_width s"
    using Cons.prems(3) text_width_nonneg [OF l(2)] by simp
  note sh = show_glyph(1,2) [OF Cons.prems(1) l(1) adv Cons.prems(4), of color]
  have "scr_width ?s = scr_width s" "scr_height ?s = scr_height s" by (simp_all add: scr_width_def scr_height_def sh(2))
  then have "text_shown f color us ?s (fold (show_char f color) us ?s) \<and> gtx_buffer (fold (show_char f color) us ?s) = gtx_buffer ?s \<and>
      dst_x (ssfn_dst (fold (show_char f color) us ?s)) = dst_x (ssfn_dst ?s) + text_width f us \<and>
      dst_y (ssfn_dst (fold (show_char f color) us ?s)) = dst_y (ssfn_dst ?s)"
    using Cons.prems(3,4) sh by (intro Cons.IH show_char_value(2) [OF assms(1) Cons.prems(1) l(3)] l(2)) simp_all
  then show ?case using text_shown_cons [OF Cons.prems] sh by simp
qed

end
