(* ===== verification/Kprint.thy ===== *)
theory Kprint
  imports Console_Text Lock
begin

text \<open>
  \<open>kprint\<close> on the console: what a printer of strings promises (\<open>printer\<close>), the console as one, and
  the strings of a run of the lock printed one after the other.
\<close>

fun in_turn :: "('a \<Rightarrow> 's \<Rightarrow> 's option) \<Rightarrow> 'a list \<Rightarrow> 's \<Rightarrow> 's option" where
  "in_turn f [] s = Some s"
| "in_turn f (x # xs) s = Option.bind (f x s) (in_turn f xs)"

text \<open>A string prints its characters in order and leaves the printer ready.\<close>

locale printer =
  fixes ready :: "'s \<Rightarrow> bool" and printable :: "char \<Rightarrow> bool"
    and put :: "char \<Rightarrow> 's \<Rightarrow> 's" and print :: "string \<Rightarrow> 's \<Rightarrow> 's option"
  assumes print_chars: "ready s \<Longrightarrow> list_all printable str \<Longrightarrow> print str s = Some (fold put str s) \<and> ready (fold put str s)"
begin

lemma in_turn_chars:
  "ready s \<Longrightarrow> list_all (list_all printable) strs \<Longrightarrow>
    in_turn print strs s = Some (fold put (concat strs) s) \<and> ready (fold put (concat strs) s)"
  by (induction strs arbitrary: s) (simp_all add: print_chars)

text \<open>The strings of a run of the lock: the characters it let through.\<close>

lemma run_chars:
  assumes "runs strs k" and "\<And>c. \<not> holds k c" and "ready s" and "list_all (list_all printable) strs"
  shows "in_turn print strs s = Some (fold put (out k) s) \<and> ready (fold put (out k) s)"
proof -
  obtain rest where "out k @ rest = concat strs" "rest_of k rest" using out_runs [OF assms(1)] by blast
  then have "out k = concat strs" using assms(2) by (auto simp: rest_of_def)
  then show ?thesis using in_turn_chars [OF assms(3,4)] by simp
qed

end

text \<open>ASCII but for the terminator and the backspace.\<close>

definition console_char :: "char \<Rightarrow> bool" where
  "console_char c \<longleftrightarrow> (of_char c :: nat) < 128 \<and> (of_char c :: nat) \<noteq> 0 \<and> (of_char c :: nat) \<noteq> 8"

definition shown :: "u8 list \<Rightarrow> char \<Rightarrow> console_state \<Rightarrow> console_state" where
  "shown f c = show_char f PURPLE (of_nat (of_char c))"

lemma console_chars: "list_all console_char str \<Longrightarrow> list_all (\<lambda>c. (of_char c :: nat) < 128) str \<and> no_backspace (code_points str)"
proof (induction str)
  case (Cons c str)
  let ?n = "of_char c :: nat"
  have c: "?n < 128" "?n \<noteq> 0" "?n \<noteq> 8" using Cons.prems by (simp_all add: console_char_def)
  then have "unat (of_nat ?n :: u32) = ?n" by (simp add: unat_of_nat)
  then have "(of_nat ?n :: u32) \<noteq> 0" "(of_nat ?n :: u32) \<noteq> 8" "(of_nat ?n :: u32) < 0x110000"
    using c by (auto simp: word_less_nat_alt dest: arg_cong [of _ _ unat])
  then show ?case using Cons c(1) by (simp add: no_backspace_def code_points_def)
qed (simp add: no_backspace_def code_points_def)

lemma fold_shown: "fold (shown f) str s = fold (show_char f PURPLE) (code_points str) s"
  by (simp add: code_points_def shown_def [abs_def] fold_map o_def)

interpretation kernel_console: printer "\<lambda>s. font_ok f \<and> console_with f s" console_char "shown f"
    "\<lambda>str. term_print_string (c_string str) PURPLE" for f
proof unfold_locales
  fix s str assume a: "font_ok f \<and> console_with f s" "list_all console_char str"
  note c = console_chars [OF a(2)]
  show "term_print_string (c_string str) PURPLE s = Some (fold (shown f) str s) \<and> font_ok f \<and> console_with f (fold (shown f) str s)"
    using print_string_value [of f s "code_points str" PURPLE] a(1) c c_string_utf8 [of str] by (simp add: fold_shown)
qed

text \<open>A run with one string, printed and done.\<close>

lemma runs_one: "\<exists>k :: bool console. runs [''A''] k \<and> (\<forall>c. \<not> holds k c)"
proof -
  define s1 :: "bool console" where "s1 = boot\<lparr>iflag := (iflag boot)(True := False), pc := (pc boot)(True := Locking ''A'')\<rparr>"
  define s2 where "s2 = s1\<lparr>spinlock := True, pc := (pc s1)(True := Printing ''A'')\<rparr>"
  define s3 where "s3 = s2\<lparr>out := out s2 @ ''A'', pc := (pc s2)(True := Printing [])\<rparr>"
  define s4 where "s4 = s3\<lparr>spinlock := unlock (spinlock s3), pc := (pc s3)(True := Unlocked)\<rparr>"
  have "kprint_step boot None s1" unfolding s1_def by (rule cli) (simp add: boot_def)
  with runs.boot have "runs ([] @ (case None of None \<Rightarrow> [] | Some str \<Rightarrow> [str])) s1" by (rule step)
  moreover have "kprint_step s1 (Some ''A'') s2" unfolding s2_def by (rule acquire) (simp_all add: s1_def boot_def)
  ultimately have "runs [''A''] s2" using step by fastforce
  moreover have "kprint_step s2 None s3" unfolding s3_def by (rule put) (simp add: s2_def)
  ultimately have "runs [''A''] s3" using step by fastforce
  moreover have "kprint_step s3 None s4" unfolding s4_def by (rule release) (simp add: s3_def)
  ultimately have "runs [''A''] s4" using step by fastforce
  moreover have "\<forall>c. \<not> holds s4 c" by (simp add: s4_def s3_def s2_def s1_def holds_def boot_def)
  ultimately show ?thesis by blast
qed

end
