(* ===== verification/Console_Properties.thy ===== *)
theory Console_Properties
  imports Console_Picture Kprint
begin

text \<open>
  What the kernel's console promises: the dots of a glyph, a text on its line, any string, the
  scroll, the start, and the strings of several processors.
\<close>

section \<open>A small font and a small screen\<close>

definition demo_font :: "u8 list" where
  "demo_font = [0x53, 0x46, 0x4e, 0x32] @ replicate 12 0 @ [50, 0, 0, 0] @ replicate 12 0 @
     [0x80, 15, 0, 0, 0, 0, 0x18, 0x24, 0x24, 0x42, 0x42, 0x7e, 0x42, 0x42, 0x42, 0x42, 0, 0] @
     [0x9f, 0, 0, 8, 16, 9, 0, 0x9f, 0, 1, 8, 16, 9, 0, 0, 0, 32, 0, 0] @ replicate 17 0xff"

lemma demo_font_list:
  "demo_font = [0x53, 0x46, 0x4e, 0x32, 0, 0, 0, 0, 0, 0, 0, 0, 0, 0, 0, 0, 50, 0, 0, 0, 0, 0, 0, 0, 0, 0, 0, 0, 0, 0, 0, 0,
     0x80, 15, 0, 0, 0, 0, 0x18, 0x24, 0x24, 0x42, 0x42, 0x7e, 0x42, 0x42, 0x42, 0x42, 0, 0,
     0x9f, 0, 0, 8, 16, 9, 0, 0x9f, 0, 1, 8, 16, 9, 0, 0, 0, 32, 0, 0,
     0xff, 0xff, 0xff, 0xff, 0xff, 0xff, 0xff, 0xff, 0xff, 0xff, 0xff, 0xff, 0xff, 0xff, 0xff, 0xff, 0xff]"
  by (simp add: demo_font_def numeral_eq_Suc)

lemma demo_bytes:
  "buf_get demo_font 0 = Some 83" "buf_get demo_font 1 = Some 70" "buf_get demo_font 2 = Some 78" "buf_get demo_font 3 = Some 50"
  "buf_get demo_font 16 = Some 50" "buf_get demo_font 17 = Some 0" "buf_get demo_font 18 = Some 0" "buf_get demo_font 19 = Some 0"
  "buf_get demo_font 32 = Some 128" "buf_get demo_font 33 = Some 15" "buf_get demo_font 50 = Some 159" "buf_get demo_font 51 = Some 0"
  "buf_get demo_font 52 = Some 0" "buf_get demo_font 53 = Some 8" "buf_get demo_font 54 = Some 16" "buf_get demo_font 55 = Some 9"
  "buf_get demo_font 56 = Some 0" "buf_get demo_font 57 = Some 159" "buf_get demo_font 58 = Some 0" "buf_get demo_font 59 = Some 1"
  "buf_get demo_font 60 = Some 8" "buf_get demo_font 61 = Some 16" "buf_get demo_font 62 = Some 9" "buf_get demo_font 63 = Some 0"
  "buf_get demo_font 64 = Some 0" "buf_get demo_font 65 = Some 0" "buf_get demo_font 66 = Some 32" "buf_get demo_font 67 = Some 0"
  "buf_get demo_font 68 = Some 0" "buf_get demo_font 69 = Some 255" "buf_get demo_font 70 = Some 255" "buf_get demo_font 71 = Some 255"
  "buf_get demo_font 72 = Some 255" "buf_get demo_font 73 = Some 255" "buf_get demo_font 74 = Some 255" "buf_get demo_font 75 = Some 255"
  "buf_get demo_font 76 = Some 255" "buf_get demo_font 77 = Some 255" "buf_get demo_font 78 = Some 255" "buf_get demo_font 79 = Some 255"
  "buf_get demo_font 80 = Some 255" "buf_get demo_font 81 = Some 255" "buf_get demo_font 82 = Some 255" "buf_get demo_font 83 = Some 255"
  "buf_get demo_font 84 = Some 255" "buf_get demo_font 85 = Some 255"
  by (simp_all add: buf_get_def demo_font_list)

lemma demo_num: "font_num demo_font 4 16 = Some 50" "font_num demo_font 3 66 = Some 32"
  by (simp_all add: font_num_def demo_font_list lessThan_nat_numeral lessThan_Suc)

lemma demo_valid: "font_valid demo_font = Some True"
  by (simp add: font_valid_def demo_bytes)

lemma demo_tail: "find_chr demo_font u 69 66 = Some None"
  by (simp add: find_chr.simps demo_bytes)

lemma demo_chr: "find_chr demo_font u 50 0 = Some (if u = 0x20 then Some 51 else if u = 0x41 then Some 58 else None)"
proof -
  consider "u = 0x20" | "u = 0x41" | "u \<noteq> 0x20" "u \<noteq> 0x41" by blast
  then show ?thesis by cases (simp_all add: find_chr.simps demo_bytes demo_tail)
qed

definition glyph_A :: glyph where
  "glyph_A = \<lparr>g_width = 8, g_height = 16, g_advance_x = 9, g_advance_y = 0, g_fragments = [(0, 16, 34)]\<rparr>"

lemma demo_length: "length demo_font = 86"
  by (simp add: demo_font_def)

lemma demo_fragment: "fragment_at demo_font 8 False 64 = Some (0, 16, 34)"
  by (simp add: fragment_at_def demo_bytes demo_num demo_length)

lemma demo_glyphs: "glyph_at demo_font 51 = Some space_glyph" "glyph_at demo_font 58 = Some glyph_A"
  by (simp_all add: glyph_at_def space_glyph_def glyph_A_def demo_bytes demo_fragment)

lemma demo_glyph_of: "glyph_of demo_font 0x20 = Some space_glyph" "glyph_of demo_font 0x41 = Some glyph_A"
  by (simp_all add: glyph_of_def demo_valid demo_num demo_chr demo_glyphs)

lemma demo_font_ok: "font_ok demo_font"
  by (simp add: font_ok_def demo_valid demo_num demo_chr demo_glyphs)

definition demo_lf :: limine_framebuffer where
  "demo_lf = \<lparr>lf_address = replicate 1024 0, lf_width = 32, lf_height = 32, lf_pitch = 128, lf_bpp = 32\<rparr>"

definition demo_boot :: console_state where
  "demo_boot = \<lparr>gtx_buffer = \<lparr>framebuffer_width = 0, framebuffer_height = 0, gtx_pitch = 0, gtx_bpp = 0, gtx_glyph_width = 0, gtx_glyph_height = 0\<rparr>,
     ssfn_src = None, ssfn_dst = \<lparr>dst_w = 0, dst_h = 0, dst_p = 0, dst_x = 0, dst_y = 0, dst_fg = 0, dst_bg = 0\<rparr>, dots = []\<rparr>"

definition demo_console :: console_state where
  "demo_console = blank_console demo_lf demo_font demo_boot"

lemma demo_lf_ok: "lf_ok demo_lf"
  by (simp add: lf_ok_def demo_lf_def word_less_def)

lemma demo_console_ready: "console_with demo_font demo_console" "console_ok demo_console" "screen_ok demo_console"
  using blank_screen(1) [OF demo_lf_ok, of demo_font demo_boot] by (simp_all add: demo_console_def console_with_def console_ok_def)

lemma demo_geometry: "scr_width demo_console = 32" "scr_height demo_console = 32" "scr_stride demo_console = 32" "length (dots demo_console) = 1024"
    "dst_x (ssfn_dst demo_console) = 0" "dst_y (ssfn_dst demo_console) = 0" "dst_bg (ssfn_dst demo_console) = DEFAULT_BG"
  by (simp_all add: demo_console_def blank_console_def scr_width_def scr_height_def stride_pitch demo_lf_def screen_filled_def)

lemma demo_text: "line_text demo_font [0x41, 0x20, 0x41]" "text_width demo_font [0x41, 0x20, 0x41] = 27"
  by (simp_all add: line_text_def drawn_glyph_def demo_glyph_of line_glyph_def space_glyph_def glyph_A_def)

lemma demo_ink: "ink demo_font 8 [(0, 16, 34)] 4 3" "\<not> ink demo_font 8 [(0, 16, 34)] 4 5"
  by (simp_all add: ink_def data_bit_def demo_font_list bit_numeral_rec(1,2))

lemma demo_stride: "ssfn_s (ssfn_dst demo_console) = 32"
  using screen_ssfn_s(1) [OF demo_console_ready(3)] by (simp add: demo_geometry)

section \<open>Drawing\<close>

text \<open>C9 \<open>ssfn_putc\<close> changes exactly the dots of the box of the glyph at the cursor that lie on the screen, to the
  foreground where a fragment of the font has a bit and to the background elsewhere, and moves the cursor by the advance.\<close>

theorem ssfn_putc_draws:
  assumes "glyph_of f u = Some g" and "ssfn_ready b (length pix)"
  shows "\<exists>pix'. ssfn_putc (Some f) u (b, pix) =
      Some (SSFN_OK, b\<lparr>dst_x := dst_x b + g_advance_x g, dst_y := dst_y b + g_advance_y g\<rparr>, pix') \<and> length pix' = length pix \<and>
    (\<forall>p < length pix.
       let x = int p mod ssfn_s b; y = int p div ssfn_s b in
       pix' ! p =
         (if dst_x b \<le> x \<and> x < dst_x b + int (g_width g) \<and> x < dst_w b \<and> dst_y b \<le> y \<and> y < dst_y b + g_height g \<and> y < dst_h b
          then if ink f (g_width g) (g_fragments g) (y - dst_y b) (nat (x - dst_x b)) then dst_fg b else dst_bg b
          else pix ! p))"
  using putc_draws [OF assms] glyph_drawn_nth [OF assms(2), of _ f g]
  by (intro exI [of _ "glyph_drawn f b g pix"]) (simp add: advanced_def Let_def glyph_drawn_def)

theorem ssfn_putc_draws_witness:
  "\<exists>pix'. ssfn_putc (Some demo_font) 0x41 (ssfn_dst demo_console, dots demo_console) =
     Some (SSFN_OK, (ssfn_dst demo_console)\<lparr>dst_x := 9, dst_y := 0\<rparr>, pix') \<and> length pix' = 1024 \<and>
     pix' ! 131 = dst_fg (ssfn_dst demo_console) \<and> pix' ! 133 = DEFAULT_BG"
proof -
  have w: "dst_w (ssfn_dst demo_console) = 32" "dst_h (ssfn_dst demo_console) = 32"
    using demo_console_ready(3) demo_geometry by (simp_all add: screen_ok_def)
  let ?b = "ssfn_dst demo_console"
  from ssfn_putc_draws [OF demo_glyph_of(2) console_ready [OF demo_console_ready(2)]] obtain pix' where
    p: "ssfn_putc (Some demo_font) 0x41 (?b, dots demo_console) =
      Some (SSFN_OK, ?b\<lparr>dst_x := dst_x ?b + g_advance_x glyph_A, dst_y := dst_y ?b + g_advance_y glyph_A\<rparr>, pix')"
      "length pix' = length (dots demo_console)"
    and d: "\<And>p. p < length (dots demo_console) \<Longrightarrow> let x = int p mod ssfn_s ?b; y = int p div ssfn_s ?b in pix' ! p =
      (if dst_x ?b \<le> x \<and> x < dst_x ?b + int (g_width glyph_A) \<and> x < dst_w ?b \<and> dst_y ?b \<le> y \<and> y < dst_y ?b + g_height glyph_A \<and> y < dst_h ?b
       then if ink demo_font (g_width glyph_A) (g_fragments glyph_A) (y - dst_y ?b) (nat (x - dst_x ?b)) then dst_fg ?b else dst_bg ?b
       else dots demo_console ! p)" by blast
  have "pix' ! (128 + c) = (if ink demo_font 8 [(0, 16, 34)] 4 c then dst_fg ?b else DEFAULT_BG)" if "c < 8" for c
  proof -
    have e: "int (128 + c) = int c + 4 * 32" by simp
    have c: "int (128 + c) mod 32 = int c" "int (128 + c) div 32 = 4" unfolding e mod_mult_self1 using that by (simp, subst div_mult_self1) simp_all
    have l: "128 + c < length (dots demo_console)" using that by (simp add: demo_geometry)
    show ?thesis using d [OF l] that unfolding demo_stride c demo_geometry w Let_def by (simp add: glyph_A_def)
  qed
  note this [of 3] this [of 5]
  moreover have "ssfn_putc (Some demo_font) 0x41 (?b, dots demo_console) = Some (SSFN_OK, ?b\<lparr>dst_x := 9, dst_y := 0\<rparr>, pix')"
    using p(1) by (simp add: demo_geometry glyph_A_def)
  moreover have "length pix' = 1024" using p(2) by (simp add: demo_geometry)
  ultimately show ?thesis using demo_ink by (intro exI [of _ pix']) simp
qed

text \<open>C8 A text that fits on the line of the cursor is on the frame buffer afterwards: every glyph where the widths of the
  ones before it say, ink in the colour asked for and the rest of its box in the background.  Every other dot of the
  screen, those between two glyphs included, is as it was, and so are the dots beside the screen.\<close>

theorem console_shows_text:
  assumes "font_ok f" and "console_with f s" and "line_text f us" and "dst_x (ssfn_dst s) + text_width f us \<le> scr_width s"
    and "dst_y (ssfn_dst s) + 16 \<le> scr_height s"
  shows "\<exists>t. term_print_string (utf8_string us) color s = Some t \<and> text_shown f color us s t \<and>
    dst_x (ssfn_dst t) = dst_x (ssfn_dst s) + text_width f us \<and> dst_y (ssfn_dst t) = dst_y (ssfn_dst s)"
proof -
  have "no_backspace us" using assms(3) by (auto simp: line_text_def no_backspace_def)
  then show ?thesis using print_string_value(1) [OF assms(1,2)] text_on_line [OF assms] by blast
qed

theorem console_shows_text_witness:
  "\<exists>t. term_print_string [0x41, 0x20, 0x41, 0] PURPLE demo_console = Some t \<and> dot_at t 21 4 = PURPLE \<and> dot_at t 23 4 = DEFAULT_BG \<and>
     dst_x (ssfn_dst t) = 27"
proof -
  have str: "utf8_string [0x41, 0x20, 0x41] = [0x41, 0x20, 0x41, 0]" by (simp add: utf8_string_def utf8_char_def)
  obtain t where t: "term_print_string [0x41, 0x20, 0x41, 0] PURPLE demo_console = Some t"
      "text_shown demo_font PURPLE [0x41, 0x20, 0x41] demo_console t" "dst_x (ssfn_dst t) = 27"
    using console_shows_text [OF demo_font_ok demo_console_ready(1) demo_text(1), of PURPLE] by (auto simp: demo_geometry demo_text(2) str simp del: text_width_simps)
  have g: "drawn_glyph demo_font 0x41 = glyph_A" by (simp add: drawn_glyph_def demo_glyph_of)
  have w: "text_width demo_font (take 2 [0x41, 0x20, 0x41]) = 18"
    by (simp add: drawn_glyph_def demo_glyph_of space_glyph_def glyph_A_def)
  have "dot_at t (18 + int c) 4 = (if ink demo_font 8 [(0, 16, 34)] 4 c then PURPLE else DEFAULT_BG)" if "c < 8" for c
    using text_shown_at [OF t(2), of 2 glyph_A c 4] g that unfolding w by (simp add: demo_geometry glyph_A_def)
  from this [of 3] this [of 5] show ?thesis using t(1,3) demo_ink by auto
qed

section \<open>Strings\<close>

text \<open>C10 Any string of UTF-8 without a backspace prints: no access outside the frame buffer or the font, lines wrap and the
  screen scrolls as the characters demand, and the console is in order afterwards.\<close>

theorem console_string_prints:
  assumes "font_ok f" and "console_with f s" and "no_backspace us"
  shows "term_print_string (utf8_string us) color s = Some (fold (show_char f color) us s) \<and>
    console_with f (fold (show_char f color) us s)"
  using print_string_value [OF assms] by simp

theorem console_string_prints_witness:
  "\<exists>t. term_print_string [0x41, 0x0a, 0x41, 0x0a, 0x41, 0x09, 0x41, 0] PURPLE demo_console = Some t \<and> console_with demo_font t"
proof -
  have "utf8_string [0x41, 0x0a, 0x41, 0x0a, 0x41, 0x09, 0x41] = [0x41, 0x0a, 0x41, 0x0a, 0x41, 0x09, 0x41, 0]"
    by (simp add: utf8_string_def utf8_char_def)
  moreover have "no_backspace [0x41, 0x0a, 0x41, 0x0a, 0x41, 0x09, 0x41]" by (simp add: no_backspace_def)
  ultimately show ?thesis using console_string_prints [OF demo_font_ok demo_console_ready(1)] by fastforce
qed

text \<open>C24 The scroll moves the picture up by the sixteen lines of a character, fills what comes free with the background,
  and touches nothing outside of the screen.\<close>

theorem console_scrolls:
  assumes "screen_ok s"
  shows "\<exists>pix. term_line_shift_up s = Some (s\<lparr>dots := pix\<rparr>) \<and> length pix = length (dots s) \<and>
    (\<forall>p < length pix. \<not> visible (nat (scr_width s)) (nat (scr_height s)) (scr_stride s) p \<longrightarrow> pix ! p = dots s ! p) \<and>
    (\<forall>x y. on_screen s x y \<longrightarrow>
       dot_at (s\<lparr>dots := pix\<rparr>) x y = (if y + 16 < scr_height s then dot_at s x (y + 16) else dst_bg (ssfn_dst s)))"
proof -
  have "dot_at (s\<lparr>dots := scrolled_dots s\<rparr>) x y = (if y + 16 < scr_height s then dot_at s x (y + 16) else dst_bg (ssfn_dst s))"
    if "on_screen s x y" for x y by (rule scrolled_dot_at [OF assms that]) simp_all
  then show ?thesis using line_shift_up [OF assms] by (intro exI [of _ "scrolled_dots s"]) (simp add: screen_scrolled_def)
qed

theorem console_scrolls_witness:
  "\<exists>pix. term_line_shift_up demo_console = Some (demo_console\<lparr>dots := pix\<rparr>) \<and> length pix = 1024"
  using console_scrolls [OF demo_console_ready(3)] by (auto simp: demo_geometry)

section \<open>The start\<close>

text \<open>C22 \<open>framebuffer_init\<close> fills the screen with the background and prints the banner, its five strings in order,
  from the first line on.\<close>

theorem framebuffer_init_banner:
  assumes "lf_ok lf" and "font_ok f"
  shows "\<exists>t. framebuffer_init lf f s = Some t \<and> t = fold (show_char f PURPLE) (concat (map code_points banner)) (blank_console lf f s) \<and>
    console_with f t \<and> dst_x (ssfn_dst (blank_console lf f s)) = 0 \<and> dst_y (ssfn_dst (blank_console lf f s)) = 0 \<and>
    (\<forall>x y. on_screen (blank_console lf f s) x y \<longrightarrow> dot_at (blank_console lf f s) x y = DEFAULT_BG)"
proof -
  let ?b = "blank_console lf f s"
  have ok: "screen_ok ?b" using blank_screen(1) [OF assms(1)] by (simp add: console_with_def console_ok_def)
  have "dot_at ?b x y = DEFAULT_BG" if "on_screen ?b x y" for x y
    using blank_dot [OF ok that] by simp
  moreover have "fold (\<lambda>str. fold (show_char f PURPLE) (code_points str)) strs t = fold (show_char f PURPLE) (concat (map code_points strs)) t" for strs t
    by (induction strs arbitrary: t) simp_all
  ultimately show ?thesis using framebuffer_init_value [OF assms, of s] by (simp add: blank_console_def)
qed

theorem framebuffer_init_banner_witness:
  "\<exists>t. framebuffer_init demo_lf demo_font demo_boot = Some t \<and> console_with demo_font t"
  using framebuffer_init_banner [OF demo_lf_ok demo_font_ok, of demo_boot] by blast

section \<open>Several processors\<close>

text \<open>C14 What the processors print with \<open>kprint\<close>: when none is inside, the strings printed one after the other in the order of
  the lock leave the console in order, with the characters the lock let through on it, in their order.\<close>

theorem kprint_console:
  assumes "runs strs k" and "\<forall>c. \<not> holds k c" and "\<forall>str \<in> set strs. list_all console_char str"
    and "font_ok f" and "console_with f s"
  shows "in_turn (\<lambda>str. term_print_string (c_string str) PURPLE) strs s = Some (fold (show_char f PURPLE) (code_points (out k)) s) \<and>
    console_with f (fold (show_char f PURPLE) (code_points (out k)) s)"
  using kernel_console.run_chars [OF assms(1), of f s] assms(2-5) by (simp add: fold_shown list_all_iff)

theorem kprint_console_witness:
  "\<exists>t. term_print_string (c_string ''A'') PURPLE demo_console = Some t \<and> console_with demo_font t"
proof -
  obtain k :: "bool console" where k: "runs [''A''] k" "\<forall>c. \<not> holds k c" using runs_one by blast
  have "\<forall>str \<in> set [''A'']. list_all console_char str" by (simp add: console_char_def of_char_def)
  from kprint_console [OF k this demo_font_ok demo_console_ready(1)] show ?thesis by (auto simp: Option.bind_eq_Some_conv)
qed

section \<open>Where it goes wrong\<close>

text \<open>A character and two backspaces on a blank screen.\<close>

lemma demo_backspaces: "term_print_string [0x41, 0x08, 0x08, 0] PURPLE demo_console = None"
  using backspaces_fault [OF demo_font_ok demo_console_ready(1) _ _ _ demo_glyph_of, of PURPLE]
  by (simp add: demo_geometry glyph_A_def utf8_char_def)

text \<open>A sequence cut off by the end of the string takes the terminator for its last byte: the string goes on behind it.\<close>

lemma cut_sequence_skips_terminator: "ssfn_utf8 (0xc3 # 0 # rest) = Some (0xc0, rest)"
  by (simp add: ssfn_utf8_def buf_get_def)

end
