(* ===== verification/Interrupts.thy ===== *)
theory Interrupts
  imports Sched Ps2 Timer Console_Properties
begin

text \<open>
  The interrupt entry stubs (idt/idt.asm), the segment registers (gdt/gdt.asm) and the handlers of
  idt/isr.c.  The processor pushes a frame and jumps to the stub, the stub calls the handler and
  returns with \<open>iretq\<close>; the handler is a parameter with the calling convention as its contract.
  The handlers of exceptions print under the lock they share with the other processors, which are a parameter.
\<close>

section \<open>Processor and stubs\<close>

text \<open>Stack cells are addressed by their first byte; \<open>asleep\<close> is the processor after \<open>hlt\<close>.\<close>

record 'w interrupted =
  ip :: u64
  sp :: u64
  flags :: u64
  cs_reg :: u64
  ss_reg :: u64
  stack :: "u64 \<Rightarrow> u64"
  gpr :: "reg \<Rightarrow> u64"
  asleep :: bool
  world :: 'w

definition IF_FLAG :: u64 where "IF_FLAG = 0x200"

definition clear_if :: "'w interrupted \<Rightarrow> 'w interrupted" where
  "clear_if st = st\<lparr>flags := flags st AND NOT IF_FLAG\<rparr>"

definition set_if :: "'w interrupted \<Rightarrow> 'w interrupted" where
  "set_if st = st\<lparr>flags := flags st OR IF_FLAG\<rparr>"

text \<open>What the processor does on an interrupt through a gate: it aligns the stack and pushes the
  frame, and the error code for the exceptions that have one.\<close>

definition push_cell :: "u64 \<Rightarrow> 'w interrupted \<Rightarrow> 'w interrupted" where
  "push_cell v st = st\<lparr>sp := sp st - 8, stack := (stack st)(sp st - 8 := v)\<rparr>"

definition deliver :: "u64 \<Rightarrow> u64 option \<Rightarrow> 'w interrupted \<Rightarrow> 'w interrupted" where
  "deliver stub code st =
     (let st' = st\<lparr>sp := sp st AND NOT 15\<rparr>;
          st' = push_cell (ip st) (push_cell (cs_reg st) (push_cell (flags st) (push_cell (sp st) (push_cell (ss_reg st) st'))));
          st' = (case code of None \<Rightarrow> st' | Some e \<Rightarrow> push_cell e st')
      in (clear_if st')\<lparr>ip := stub\<rparr>)"

definition iretq :: "'w interrupted \<Rightarrow> 'w interrupted" where
  "iretq st =
     (let m = (\<lambda>k. stack st (sp st + k)) in
      st\<lparr>ip := m 0, cs_reg := m 8, flags := m 16, sp := m 24, ss_reg := m 32\<rparr>)"

text \<open>The stubs \<open>timer_irq\<close>, \<open>keyboard_irq\<close>, \<open>divide_zero_exception\<close> and both macros for the
  exceptions are the same but for the handler.  One that sleeps for ever does not return.\<close>

definition isr_stub :: "('w interrupted \<Rightarrow> 'w interrupted option) \<Rightarrow> 'w interrupted \<Rightarrow> 'w interrupted option" where
  "isr_stub handler st =
     Option.bind (handler (clear_if st)) (\<lambda>st. if asleep st then Some st else Some (iretq (set_if st)))"

definition load_idt :: "u64 \<Rightarrow> s32 \<Rightarrow> 'w interrupted \<Rightarrow> (u16 \<times> u64) \<times> 'w interrupted" where
  "load_idt idt_entry n st = ((ucast n, idt_entry), set_if st)"

section \<open>Segment registers (gdt.asm)\<close>

record segments =
  seg_cs :: u16
  seg_ds :: u16
  seg_es :: u16
  seg_fs :: u16
  seg_gs :: u16
  seg_ss :: u16
  reg_dx :: u16

text \<open>The limit and the base that \<open>lgdt\<close> takes.\<close>

definition load_gdt :: "u64 \<Rightarrow> u64 \<Rightarrow> u16 \<times> u64" where
  "load_gdt gdt n = (ucast (n - 1), gdt)"

definition load_segment_registers :: "segments \<Rightarrow> segments" where
  "load_segment_registers s =
     (let s = s\<lparr>seg_cs := 0x08\<rparr>; ax = 0x10 in
      s\<lparr>reg_dx := ax, seg_es := ax, seg_fs := ax, seg_gs := ax, seg_ss := ax\<rparr>)"

section \<open>Handlers (isr.c)\<close>

text \<open>The world of an exception is the console and the flag of the lock around \<open>kprint\<close>.  The other processors share
  both: \<open>others k\<close> is what they have done to them when the flag is looked at for the time number \<open>k\<close>.\<close>

record kernel_view =
  klock :: bool
  screen_of :: console_state

text \<open>The loop of \<open>lock\<close>: it waits as long as the flag is found set.\<close>

partial_function (option) lock_wait :: "(nat \<Rightarrow> kernel_view \<Rightarrow> kernel_view) \<Rightarrow> nat \<Rightarrow> kernel_view \<Rightarrow> kernel_view option" where
  "lock_wait others k w =
     (let w = others k w; (flag, taken) = try_lock (klock w)
      in if taken then Some (w\<lparr>klock := flag\<rparr>) else lock_wait others (Suc k) (w\<lparr>klock := flag\<rparr>))"

declare lock_wait.simps [code]

text \<open>With the lock taken no other processor prints (see \<open>kprint_mutual_exclusion\<close>).\<close>

definition kprint_here ::
  "(nat \<Rightarrow> kernel_view \<Rightarrow> kernel_view) \<Rightarrow> string \<Rightarrow> kernel_view interrupted \<Rightarrow> kernel_view interrupted option" where
  "kprint_here others str st =
     (let st = clear_if st in
      Option.bind (lock_wait others 0 (world st)) (\<lambda>w.
        map_option (\<lambda>scr. set_if (st\<lparr>world := \<lparr>klock = unlock (klock w), screen_of = scr\<rparr>\<rparr>))
          (term_print_string (c_string str) PURPLE (screen_of w))))"

definition halt_cpu :: "'w interrupted \<Rightarrow> 'w interrupted" where
  "halt_cpu st = (clear_if st)\<lparr>asleep := True\<rparr>"

definition exception_message :: string where
  "exception_message = ''No exception handler implemented!'' @ [CHR 0x0a]"

definition general_exception_handler ::
  "(nat \<Rightarrow> kernel_view \<Rightarrow> kernel_view) \<Rightarrow> kernel_view interrupted \<Rightarrow> kernel_view interrupted option" where
  "general_exception_handler others st = map_option halt_cpu (kprint_here others exception_message st)"

definition divide_message :: string where
  "divide_message = ''Divide by zero exception!'' @ [CHR 0x0a]"

definition divide_by_zero_exception_handler ::
  "(nat \<Rightarrow> kernel_view \<Rightarrow> kernel_view) \<Rightarrow> kernel_view interrupted \<Rightarrow> kernel_view interrupted option" where
  "divide_by_zero_exception_handler others st = map_option halt_cpu (kprint_here others divide_message st)"

definition APIC_EOI_REG :: u32 where "APIC_EOI_REG = 0xb0"

definition keyboard_irq_handler :: "'d device \<Rightarrow> 'd mmio \<Rightarrow> apic \<Rightarrow> kbd \<times> 'd \<Rightarrow> (u8 list \<times> kbd \<times> 'd) option" where
  "keyboard_irq_handler dev mm a s =
     map_option (\<lambda>(typed, k, st). (typed, k, lapic_write_reg mm a APIC_EOI_REG 0 st)) (keyboard_handler dev s)"

section \<open>What a stub gives back\<close>

text \<open>A handler that is compiled code: it leaves the stack above it, the stack pointer and the registers the
  calling convention has a function save.\<close>

definition callee_saved :: "reg set" where
  "callee_saved = {RBX, RBP, R12, R13, R14, R15}"

definition compiled :: "('w interrupted \<Rightarrow> 'w interrupted option) \<Rightarrow> bool" where
  "compiled h \<longleftrightarrow> (\<forall>st st'. h st = Some st' \<longrightarrow> \<not> asleep st' \<and> sp st' = sp st \<and>
     (\<forall>k \<in> {0, 8, 16, 24, 32, 40}. stack st' (sp st + k) = stack st (sp st + k)) \<and>
     (\<forall>r \<in> callee_saved. gpr st' r = gpr st r))"

lemma deliver_frame:
  fixes st :: "'w interrupted"
  defines "t \<equiv> sp st AND NOT 15"
  shows "sp (deliver stub None st) = t - 40" and "gpr (deliver stub code st) = gpr st" and "asleep (deliver stub code st) = asleep st"
    and "world (deliver stub code st) = world st"
    and "stack (deliver stub None st) (t - 40) = ip st" and "stack (deliver stub None st) (t - 32) = cs_reg st"
    and "stack (deliver stub None st) (t - 24) = flags st" and "stack (deliver stub None st) (t - 16) = sp st"
    and "stack (deliver stub None st) (t - 8) = ss_reg st"
  by (simp_all add: deliver_def push_cell_def clear_if_def t_def Let_def split: option.split)

lemma deliver_code_frame:
  fixes st :: "'w interrupted"
  defines "t \<equiv> sp st AND NOT 15"
  shows "sp (deliver stub (Some e) st) = t - 48" and "stack (deliver stub (Some e) st) (t - 48) = e"
    and "stack (deliver stub (Some e) st) (t - 40) = ip st"
  by (simp_all add: deliver_def push_cell_def clear_if_def t_def Let_def)

text \<open>Where the code goes on after the stub: at the interrupted instruction, with its stack, flags and segments, and
  the registers a compiled function saves.\<close>

lemma stub_value:
  assumes "compiled h" and "isr_stub h st = Some st'"
  shows "ip st' = stack st (sp st)" and "cs_reg st' = stack st (sp st + 8)" and "flags st' = stack st (sp st + 16)"
    and "sp st' = stack st (sp st + 24)" and "ss_reg st' = stack st (sp st + 32)" and "\<forall>r \<in> callee_saved. gpr st' r = gpr st r"
proof -
  obtain u where u: "h (clear_if st) = Some u" "st' = (if asleep u then u else iretq (set_if u))"
    using assms(2) by (cases "h (clear_if st)") (auto simp: isr_stub_def split: if_splits)
  have c: "\<not> asleep u" "sp u = sp st" "\<forall>k \<in> {0, 8, 16, 24, 32, 40}. stack u (sp st + k) = stack st (sp st + k)"
    "\<forall>r \<in> callee_saved. gpr u r = gpr st r"
    using assms(1) u(1) unfolding compiled_def clear_if_def by fastforce+
  have st': "st' = iretq (set_if u)" using u(2) c(1) by simp
  show "ip st' = stack st (sp st)" "cs_reg st' = stack st (sp st + 8)" "flags st' = stack st (sp st + 16)"
    "sp st' = stack st (sp st + 24)" "ss_reg st' = stack st (sp st + 32)" "\<forall>r \<in> callee_saved. gpr st' r = gpr st r"
    using c(2-4) by (simp_all add: st' iretq_def set_if_def)
qed

lemma interrupt_returns:
  assumes "compiled h" and "isr_stub h (deliver stub None st) = Some st'"
  shows "ip st' = ip st \<and> sp st' = sp st \<and> flags st' = flags st \<and> cs_reg st' = cs_reg st \<and> ss_reg st' = ss_reg st \<and>
    (\<forall>r \<in> callee_saved. gpr st' r = gpr st r)"
proof -
  note v = stub_value [OF assms]
  let ?t = "sp st AND NOT 15"
  have a: "?t - 40 + 8 = ?t - 32" "?t - 40 + 16 = ?t - 24" "?t - 40 + 24 = ?t - 16" "?t - 40 + 32 = ?t - 8" by simp_all
  show ?thesis using v by (simp only: deliver_frame a)
qed

text \<open>The other registers are the handler's: the stub does not save them, so a handler that uses one changes it
  under the interrupted code.\<close>

lemma interrupt_clobbers:
  assumes "\<not> asleep st"
  shows "\<exists>h st'. compiled h \<and> isr_stub h (deliver stub None st) = Some st' \<and> gpr st' RAX \<noteq> gpr st RAX"
proof -
  let ?h = "\<lambda>st. if asleep st then None else Some (st\<lparr>gpr := (gpr st)(RAX := gpr st RAX + 1)\<rparr>)"
  have "compiled ?h" by (simp add: compiled_def callee_saved_def)
  moreover have "\<exists>st'. isr_stub ?h (deliver stub None st) = Some st' \<and> gpr st' RAX = gpr st RAX + 1"
    using assms by (simp add: isr_stub_def clear_if_def set_if_def iretq_def deliver_frame)
  ultimately show ?thesis by fastforce
qed

text \<open>An exception with an error code has it on top of the frame.  No stub takes it off: if its handler returned, the
  code would go on at the address that is the error code.\<close>

lemma error_code_is_return_address:
  assumes "compiled h" and "isr_stub h (deliver stub (Some e) st) = Some st'"
  shows "ip st' = e" and "cs_reg st' = ip st"
proof -
  note v = stub_value [OF assms]
  let ?t = "sp st AND NOT 15"
  have a: "?t - 48 + 8 = ?t - 40" by simp
  show "ip st' = e" "cs_reg st' = ip st" using v(1,2) by (simp_all only: deliver_code_frame a)
qed

text \<open>The data segment is not loaded: \<open>dx\<close> is, in its place.\<close>

lemma data_segment_not_loaded:
  "seg_ds (load_segment_registers s) = seg_ds s" "reg_dx (load_segment_registers s) = 0x10"
  by (simp_all add: load_segment_registers_def Let_def)

section \<open>The keyboard\<close>

text \<open>A reference board: the keyboard controller and a local interrupt controller that counts acknowledgements.\<close>

definition board_dev :: "(i8042 \<times> nat) device" where
  "board_dev = \<lparr>port_in = (\<lambda>p (k, n). let (v, k) = port_in i8042_hw p k in (v, k, n)),
     port_inw = (\<lambda>p (k, n). let (v, k) = port_inw i8042_hw p k in (v, k, n)),
     port_out = (\<lambda>p v (k, n). (port_out i8042_hw p v k, n))\<rparr>"

definition board_mm :: "u64 \<Rightarrow> (i8042 \<times> nat) mmio" where
  "board_mm eoi = \<lparr>rd32 = (\<lambda>a s. (0, s)), wr32 = (\<lambda>a v (k, n). (k, if a = eoi then Suc n else n)),
     rd64 = (\<lambda>a s. (0, s)), wr64 = (\<lambda>a v s. s)\<rparr>"

lemma board_inb: "inb board_dev p s = (fst (inb i8042_hw p (fst s)), snd (inb i8042_hw p (fst s)), snd s)"
  by (cases s) (simp add: inb_def board_dev_def split_beta)

lemma board_eoi: "wr32 (board_mm eoi) eoi v s = (fst s, Suc (snd s))"
  by (cases s) (simp add: board_mm_def)

text \<open>One interrupt for each byte, as \<open>irqs\<close>, with the handler of the interrupt.\<close>

fun key_interrupts :: "'d device \<Rightarrow> 'd mmio \<Rightarrow> apic \<Rightarrow> nat \<Rightarrow> kbd \<times> 'd \<Rightarrow> (u8 list \<times> kbd \<times> 'd) option" where
  "key_interrupts dev mm a 0 s = Some ([], s)"
| "key_interrupts dev mm a (Suc n) s =
     Option.bind (keyboard_irq_handler dev mm a s) (\<lambda>(typed, s).
       map_option (\<lambda>(rest, s). (typed @ rest, s)) (key_interrupts dev mm a n s))"

lemma key_interrupts_text:
  assumes "follows view dev board_dev" and "mm_follows view mm (board_mm (lapic_base a + 0xb0))"
    and "outq (fst (view st)) = scs @ rest" and "type_codes scs k = Some (typed, k')"
  shows "\<exists>st'. key_interrupts dev mm a (length scs) (k, st) = Some (typed, k', st') \<and> outq (fst (view st')) = rest \<and>
    snd (view st') = snd (view st) + length scs"
  using assms(3,4)
proof (induction scs arbitrary: k st typed)
  case Nil
  then show ?case by simp
next
  case (Cons sc scs)
  from Cons.prems(2) obtain o1 k1 o2 where h: "handle_scancode sc k = Some (o1, k1)"
    "type_codes scs k1 = Some (o2, k')" "typed = o1 @ o2" by (auto split: option.splits)
  let ?s = "snd (inb dev 0x60 st)" and ?t = "lapic_write_reg mm a APIC_EOI_REG 0 (snd (inb dev 0x60 st))"
  have i: "fst (inb dev 0x60 st) = sc" "outq (fst (view ?s)) = scs @ rest" "snd (view ?s) = snd (view st)"
    using Cons.prems(1) by (simp_all add: follows_inb [OF assms(1)] board_inb i8042_simps)
  have t: "outq (fst (view ?t)) = scs @ rest" "snd (view ?t) = Suc (snd (view st))"
    using i(2,3) by (simp_all add: lapic_write_reg_def mm_follows_simps [OF assms(2)] board_eoi APIC_EOI_REG_def)
  have "keyboard_irq_handler dev mm a (k, st) = Some (o1, k1, ?t)"
    using i(1) h(1) by (simp add: keyboard_irq_handler_def keyboard_handler_def PS2_DATA_PORT_def split_beta)
  moreover obtain st' where "key_interrupts dev mm a (length scs) (k1, ?t) = Some (o2, k', st')" "outq (fst (view st')) = rest"
      "snd (view st') = snd (view ?t) + length scs"
    using Cons.IH [OF t(1) h(2)] by blast
  ultimately show ?case using h(3) t(2) by simp
qed

section \<open>Properties\<close>

text \<open>C25 Whatever compiled handler an interrupt without an error code has, the interrupted code goes on where it was, with its
  stack, its flags (and so with interrupts on again), its segments and the registers a function saves.\<close>

theorem interrupt_round_trip:
  assumes "compiled h" and "isr_stub h (deliver stub None st) = Some st'"
  shows "ip st' = ip st \<and> sp st' = sp st \<and> flags st' = flags st \<and> cs_reg st' = cs_reg st \<and> ss_reg st' = ss_reg st \<and>
    (\<forall>r \<in> callee_saved. gpr st' r = gpr st r)"
  by (rule interrupt_returns [OF assms])

definition idle_cpu :: "unit interrupted" where
  "idle_cpu = \<lparr>ip = 0x1000, sp = 0x8004, flags = 0x202, cs_reg = 8, ss_reg = 0x10, stack = (\<lambda>a. 0), gpr = (\<lambda>r. 7), asleep = False, world = ()\<rparr>"

theorem interrupt_round_trip_witness:
  "\<exists>st'. isr_stub (\<lambda>st. if asleep st then None else Some st) (deliver 0x2000 None idle_cpu) = Some st' \<and> ip st' = 0x1000 \<and>
    sp st' = 0x8004 \<and> flags st' = 0x202"
proof -
  have c: "compiled (\<lambda>st. if asleep st then None else Some (st :: unit interrupted))" by (simp add: compiled_def)
  have "\<exists>st'. isr_stub (\<lambda>st. if asleep st then None else Some st) (deliver 0x2000 None idle_cpu) = Some st'"
    by (simp add: isr_stub_def clear_if_def deliver_frame idle_cpu_def)
  then show ?thesis using interrupt_round_trip [OF c] by (fastforce simp: idle_cpu_def)
qed

lemma message_chars: "list_all console_char exception_message" "list_all console_char divide_message"
  by (simp_all add: exception_message_def divide_message_def console_char_def of_char_def)

lemma flags_back: "(w AND NOT IF_FLAG OR IF_FLAG) AND NOT IF_FLAG = w AND NOT IF_FLAG"
  by (simp add: bit.conj_disj_distrib2 and.assoc)

text \<open>The world as the waiting processor finds it when it looks at the flag for the time \<open>n\<close> after \<open>k\<close>, having set it each
  time before.\<close>

fun polled :: "(nat \<Rightarrow> kernel_view \<Rightarrow> kernel_view) \<Rightarrow> nat \<Rightarrow> kernel_view \<Rightarrow> nat \<Rightarrow> kernel_view" where
  "polled others k w 0 = others k w"
| "polled others k w (Suc n) = polled others (Suc k) ((others k w)\<lparr>klock := True\<rparr>) n"

lemma lock_wait_taken:
  "\<not> klock (polled others k w n) \<Longrightarrow> \<forall>i < n. klock (polled others k w i) \<Longrightarrow>
    lock_wait others k w = Some ((polled others k w n)\<lparr>klock := True\<rparr>)"
proof (induction n arbitrary: k w)
  case 0
  then show ?case by (subst lock_wait.simps) (simp add: Let_def)
next
  case (Suc n)
  have "klock (others k w)" using Suc.prems(2) by (auto dest: spec [of _ 0])
  moreover have "\<forall>i < n. klock (polled others (Suc k) ((others k w)\<lparr>klock := True\<rparr>) i)"
    using Suc.prems(2) by (auto dest: spec [of _ "Suc _"])
  ultimately show ?case using Suc.IH [of "Suc k"] Suc.prems(1)
    by (subst lock_wait.simps) (simp add: Let_def)
qed

lemma lock_wait_free:
  assumes "lock_wait others k w = Some w'"
  shows "\<exists>n. \<not> klock (polled others k w n)"
proof (rule lock_wait.raw_induct [where P = "\<lambda>others k w w'. \<exists>n. \<not> klock (polled others k w n)", OF _ assms], goal_cases)
  case step: (1 wait others k w w')
  show ?case
  proof (cases "klock (others k w)")
    case True
    then have "wait others (Suc k) ((others k w)\<lparr>klock := True\<rparr>) = Some w'" using step(2) by (simp add: Let_def)
    from step(1) [OF this] obtain n where "\<not> klock (polled others (Suc k) ((others k w)\<lparr>klock := True\<rparr>) n)" by blast
    then have "\<not> klock (polled others k w (Suc n))" by simp
    then show ?thesis by blast
  next
    case False
    then have "\<not> klock (polled others k w 0)" by simp
    then show ?thesis by blast
  qed
qed

text \<open>What the other processors do leaves the console in order.\<close>

definition console_kept :: "u8 list \<Rightarrow> (nat \<Rightarrow> kernel_view \<Rightarrow> kernel_view) \<Rightarrow> bool" where
  "console_kept f others \<longleftrightarrow> (\<forall>k w. console_with f (screen_of w) \<longrightarrow> console_with f (screen_of (others k w)))"

lemma polled_console: "console_kept f others \<Longrightarrow> console_with f (screen_of w) \<Longrightarrow> console_with f (screen_of (polled others k w n))"
  by (induction n arbitrary: k w) (simp_all add: console_kept_def)

lemma polled_held: "\<forall>k w. klock w \<longrightarrow> klock (others k w) \<Longrightarrow> klock w \<Longrightarrow> klock (polled others k w n)"
  by (induction n arbitrary: k w) simp_all

lemma handler_value:
  assumes "font_ok f" and "console_with f (screen_of (world st))" and "console_kept f others" and "list_all console_char str"
    and "\<not> klock (polled others 0 (world st) n)" and "\<forall>i < n. klock (polled others 0 (world st) i)"
  shows "isr_stub (\<lambda>st. map_option halt_cpu (kprint_here others str st)) (deliver stub code st) =
     Some ((halt_cpu (deliver stub code st))\<lparr>world :=
       \<lparr>klock = False, screen_of = fold (shown f) str (screen_of (polled others 0 (world st) n))\<rparr>\<rparr>)"
proof -
  let ?w = "polled others 0 (world st) n"
  have w: "world (clear_if s) = world s" for s :: "kernel_view interrupted" by (simp add: clear_if_def)
  have "term_print_string (c_string str) PURPLE (screen_of ?w) = Some (fold (shown f) str (screen_of ?w))"
    using kernel_console.print_chars [of f "screen_of ?w" str] assms(1,4) polled_console [OF assms(3,2)] by simp
  then show ?thesis
    by (simp add: isr_stub_def kprint_here_def Let_def w deliver_frame lock_wait_taken [OF assms(5,6)])
       (simp add: halt_cpu_def clear_if_def set_if_def unlock_def flags_back and.assoc)
qed

lemma handler_waits:
  assumes "\<forall>n. klock (polled others 0 (world st) n)"
  shows "isr_stub (\<lambda>st. map_option halt_cpu (kprint_here others str st)) (deliver stub code st) = None"
proof -
  have w: "world (clear_if s) = world s" for s :: "kernel_view interrupted" by (simp add: clear_if_def)
  have "lock_wait others 0 (world st) = None" using lock_wait_free assms by (metis option.exhaust)
  then show ?thesis by (simp add: isr_stub_def kprint_here_def Let_def w deliver_frame)
qed

text \<open>C26 An exception ends the processor.  If its handler finds the lock of the console free at some time, however long another
  processor has held it, the message is on the console as it was then, the lock is free again and the processor sleeps
  with interrupts off, for an exception with an error code and for one without.  If the lock is never found free, the handler waits
  for ever; so it does if the code that failed holds the lock, which no other processor gives back.\<close>

theorem exceptions_halt:
  assumes "font_ok f" and "console_with f (screen_of (world st))" and "console_kept f others"
    and "handler = (general_exception_handler others, exception_message) \<or>
      handler = (divide_by_zero_exception_handler others, divide_message)"
  shows "(\<forall>n. \<not> klock (polled others 0 (world st) n) \<and> (\<forall>i < n. klock (polled others 0 (world st) i)) \<longrightarrow>
       (\<exists>st'. isr_stub (fst handler) (deliver stub code st) = Some st' \<and> asleep st' \<and> flags st' AND IF_FLAG = 0 \<and>
         screen_of (world st') = fold (shown f) (snd handler) (screen_of (polled others 0 (world st) n)) \<and> \<not> klock (world st'))) \<and>
    ((\<forall>n. klock (polled others 0 (world st) n)) \<longrightarrow> isr_stub (fst handler) (deliver stub code st) = None) \<and>
    (klock (world st) \<and> (\<forall>k w. klock w \<longrightarrow> klock (others k w)) \<longrightarrow> isr_stub (fst handler) (deliver stub code st) = None)"
proof -
  have h: "fst handler = (\<lambda>st. map_option halt_cpu (kprint_here others (snd handler) st))" "list_all console_char (snd handler)"
    using assms(4) message_chars by (auto simp: general_exception_handler_def [abs_def] divide_by_zero_exception_handler_def [abs_def])
  note hv = handler_value [OF assms(1-3) h(2)]
  show ?thesis unfolding h(1)
  proof (intro conjI allI impI, goal_cases)
    case (1 n)
    then have "isr_stub (\<lambda>st. map_option halt_cpu (kprint_here others (snd handler) st)) (deliver stub code st) =
       Some ((halt_cpu (deliver stub code st))\<lparr>world :=
         \<lparr>klock = False, screen_of = fold (shown f) (snd handler) (screen_of (polled others 0 (world st) n))\<rparr>\<rparr>)"
      by (intro hv) auto
    then show ?case by (simp add: halt_cpu_def clear_if_def and.assoc)
  next
    case 2
    then show ?case by (rule handler_waits)
  next
    case 3
    then show ?case using polled_held by (intro handler_waits) blast
  qed
qed

text \<open>Another processor holds the lock, and gives it back after the handler has looked twice.\<close>

definition failed_cpu :: "kernel_view interrupted" where
  "failed_cpu = \<lparr>ip = 0x1000, sp = 0x8000, flags = 0x202, cs_reg = 8, ss_reg = 0x10, stack = (\<lambda>a. 0), gpr = (\<lambda>r. 7), asleep = False,
     world = \<lparr>klock = True, screen_of = demo_console\<rparr>\<rparr>"

definition slow_other :: "nat \<Rightarrow> kernel_view \<Rightarrow> kernel_view" where
  "slow_other k w = (if k = 2 then w\<lparr>klock := False\<rparr> else w)"

theorem exceptions_halt_witness:
  "(\<exists>st'. isr_stub (general_exception_handler slow_other) (deliver 0x2000 (Some 5) failed_cpu) = Some st' \<and> asleep st' \<and>
      flags st' AND IF_FLAG = 0 \<and> \<not> klock (world st')) \<and>
   isr_stub (general_exception_handler (\<lambda>k w. w)) (deliver 0x2000 (Some 5) failed_cpu) = None"
proof -
  have kept: "console_kept demo_font slow_other" "console_kept demo_font (\<lambda>k w. w)"
    by (simp_all add: console_kept_def slow_other_def)
  have c: "console_with demo_font (screen_of (world failed_cpu))" using demo_console_ready(1) by (simp add: failed_cpu_def)
  have "\<not> klock (polled slow_other 0 (world failed_cpu) 2)" "\<forall>i < 2. klock (polled slow_other 0 (world failed_cpu) i)"
    by (auto simp: slow_other_def failed_cpu_def numeral_2_eq_2 less_Suc_eq)
  then have "\<exists>st'. isr_stub (general_exception_handler slow_other) (deliver 0x2000 (Some 5) failed_cpu) = Some st' \<and> asleep st' \<and>
      flags st' AND IF_FLAG = 0 \<and> \<not> klock (world st')"
    using exceptions_halt [OF demo_font_ok c kept(1), of "(general_exception_handler slow_other, exception_message)" "0x2000" "Some 5"]
    by auto
  moreover have "klock (world failed_cpu)" by (simp add: failed_cpu_def)
  then have "isr_stub (general_exception_handler (\<lambda>k w. w)) (deliver 0x2000 (Some 5) failed_cpu) = None"
    using exceptions_halt [OF demo_font_ok c kept(2), of "(general_exception_handler (\<lambda>k w. w), exception_message)" "0x2000" "Some 5"]
    by auto
  ultimately show ?thesis by blast
qed

text \<open>C23 What is typed is printed through the interrupts, and every interrupt is acknowledged exactly once.\<close>

theorem keyboard_irqs_acknowledged:
  assumes "follows view dev board_dev" and "mm_follows view mm (board_mm (lapic_base a + 0xb0))"
    and "\<forall>c \<in> set cs. typable c" and "\<not> shift k" and "outq (fst (view st)) = concat (map (type_char (capslock k)) cs) @ rest"
  shows "\<exists>st'. key_interrupts dev mm a (length (concat (map (type_char (capslock k)) cs))) (k, st) = Some (cs, k, st') \<and>
    outq (fst (view st')) = rest \<and> snd (view st') = snd (view st) + length (concat (map (type_char (capslock k)) cs))"
  by (rule key_interrupts_text [OF assms(1,2,5) type_text [OF assms(3,4)]])

theorem keyboard_irqs_acknowledged_witness:
  "\<exists>st'. key_interrupts board_dev (board_mm 0xfee000b0) \<lparr>lapic_id = 0, lapic_base = 0xfee00000\<rparr> 2
     (kbd_with False False, \<lparr>outq = [0x23, 0xa3], inbusy = 0, written = []\<rparr>, 0) = Some ([0x68], kbd_with False False, st') \<and> snd st' = 2"
proof -
  have t: "concat (map (type_char False) [0x68]) = [0x23, 0xa3]" by code_simp
  have ty: "typable 0x68" unfolding typable_def by code_simp
  have k: "capslock (kbd_with False False) = False" "\<not> shift (kbd_with False False)" by (simp_all add: kbd_with_def)
  let ?a = "\<lparr>lapic_id = 0, lapic_base = 0xfee00000\<rparr>"
  have m: "mm_follows id (board_mm 0xfee000b0) (board_mm (lapic_base ?a + 0xb0))" by (simp add: mm_follows_self)
  from keyboard_irqs_acknowledged [OF follows_self m, of "[0x68]" "kbd_with False False"
      "(\<lparr>outq = [0x23, 0xa3], inbusy = 0, written = []\<rparr>, 0)" "[]"]
  show ?thesis using ty k t by (simp del: key_interrupts.simps add: numeral_2_eq_2) blast
qed

end
