(* ===== verification/Pmm_Report.thy ===== *)
theory Pmm_Report
  imports Pmm Kstring Console_Properties
begin

text \<open>
  What mm/pmm.c prints when it starts: the memory map, the numbers and the addresses of the kernel.  A
  number is converted in an array on the stack, which is here the array with what lies behind it, since
  the conversions write one byte further than the array is long.
\<close>

section \<open>Printing\<close>

type_synonym printing = "u8 list \<times> console_state"

text \<open>\<open>kprint\<close> of a literal, and of a pointer into the array.\<close>

definition say :: "string \<Rightarrow> printing \<Rightarrow> printing option" where
  "say str = (\<lambda>(buf, s). map_option (Pair buf) (term_print_string (c_string str) PURPLE s))"

definition say_at :: "u8 list \<times> int \<Rightarrow> console_state \<Rightarrow> printing option" where
  "say_at = (\<lambda>(buf, p) s. if 0 \<le> p \<and> p < int (length buf) then map_option (Pair buf) (term_print_string (drop (nat p) buf) PURPLE s) else None)"

definition say_hex :: "u64 \<Rightarrow> printing \<Rightarrow> printing option" where
  "say_hex num = (\<lambda>(buf, s). Option.bind (ull_to_hex buf num) (\<lambda>r. say_at r s))"

definition say_dec :: "u64 \<Rightarrow> printing \<Rightarrow> printing option" where
  "say_dec num = (\<lambda>(buf, s). Option.bind (itoa buf num) (\<lambda>r. say_at r s))"

text \<open>Statements one after the other.\<close>

definition statements :: "('s \<Rightarrow> 's option) list \<Rightarrow> 's \<Rightarrow> 's option" where
  "statements = in_turn (\<lambda>op. op)"

section \<open>The report\<close>

text \<open>A type that limine.h does not have prints nothing.\<close>

definition region_type :: "u64 \<Rightarrow> string option" where
  "region_type ty =
     (if ty = LIMINE_MEMMAP_USABLE then Some ''0 (Usable)''
      else if ty = 1 then Some ''1 (Reserved)''
      else if ty = 2 then Some ''2 (ACPI Reclaimable)''
      else if ty = 3 then Some ''3 (ACPI NVS)''
      else if ty = 4 then Some ''4 (Bad Memory)''
      else if ty = 5 then Some ''5 (Bootloader Reclaimable)''
      else if ty = 6 then Some ''6 (Kernel and Modules)''
      else if ty = 7 then Some ''7 (Framebuffer)''
      else None)"

definition print_region :: "memmap_entry \<Rightarrow> printing \<Rightarrow> printing option" where
  "print_region e =
     statements [say ''Memory region base: '', say_hex (base e), say '' -- Length: '', say_hex (len e), say '' -- Type: '',
       (case region_type (mtype e) of None \<Rightarrow> Some | Some str \<Rightarrow> say (str @ [CHR 0x0a]))]"

definition print_mem_map :: "memmap_entry list \<Rightarrow> printing \<Rightarrow> printing option" where
  "print_mem_map entries =
     statements [say ([CHR 0x0a] @ ''Physical Memory Regions:'' @ [CHR 0x0a, CHR 0x0a]), in_turn print_region entries]"

definition print_kernel_base_addresses :: "u64 \<Rightarrow> u64 \<Rightarrow> printing \<Rightarrow> printing option" where
  "print_kernel_base_addresses physical virtual =
     statements [say ''The physical base address of the kernel is: '', say_hex physical,
       say ([CHR 0x0a] @ ''The virtual base address of the kernel is:  ''), say_hex virtual]"

text \<open>A call with an array of its own: the caller's is left alone.\<close>

definition with_array :: "u8 list \<Rightarrow> (printing \<Rightarrow> printing option) \<Rightarrow> printing \<Rightarrow> printing option" where
  "with_array own op = (\<lambda>(buf, s). map_option (\<lambda>(_, s). (buf, s)) (op (own, s)))"

text \<open>\<open>map_array\<close> and \<open>base_array\<close> are the arrays of the two functions called.\<close>

definition print_memory_report ::
  "memmap_entry list \<Rightarrow> u64 \<Rightarrow> u64 \<Rightarrow> u64 \<Rightarrow> u8 list \<Rightarrow> u8 list \<Rightarrow> printing \<Rightarrow> printing option" where
  "print_memory_report entries physical virtual hhdm map_array base_array =
     (let inf = print_memory_stats entries; nl = (\<lambda>str. [CHR 0x0a] @ str) in
      statements [with_array map_array (print_mem_map entries),
        say (nl ''''), say ''Total Amount of Memory: '', say_dec (total_memory inf),
        say (nl ''Total 4KB Pages: ''), say_dec (total_pages inf),
        say (nl ''Total Reserved Pages: ''), say_dec (used_pages inf),
        say (nl ''Total Available Pages: ''), say_dec (available_pages inf),
        say (nl (nl '''')), with_array base_array (print_kernel_base_addresses physical virtual),
        say (nl ''Higher half base offset: ''), say_hex hhdm, say (nl '''')])"

section \<open>What comes out\<close>

text \<open>\<open>prints I f op us\<close>: with an array in which \<open>I\<close> holds, \<open>op\<close> shows \<open>us\<close>.\<close>

definition prints :: "(u8 list \<Rightarrow> bool) \<Rightarrow> u8 list \<Rightarrow> (printing \<Rightarrow> printing option) \<Rightarrow> u32 list \<Rightarrow> bool" where
  "prints I f op us \<longleftrightarrow> (\<forall>buf s. I buf \<longrightarrow> console_with f s \<longrightarrow>
     (\<exists>buf'. op (buf, s) = Some (buf', fold (show_char f PURPLE) us s) \<and> I buf') \<and> console_with f (fold (show_char f PURPLE) us s))"

lemma prints_none: "prints I f Some []"
  by (simp add: prints_def)

lemma prints_statements: "list_all2 (prints I f) ops uss \<Longrightarrow> prints I f (statements ops) (concat uss)"
proof (induction ops uss rule: list_all2_induct)
  case Nil
  then show ?case by (simp add: prints_def statements_def)
next
  case (Cons op ops us uss)
  then show ?case unfolding prints_def statements_def by (fastforce simp: fold_append)
qed

lemma prints_in_turn: "\<forall>x \<in> set xs. prints I f (op x) (us x) \<Longrightarrow> prints I f (in_turn op xs) (concat (map us xs))"
proof (induction xs)
  case Nil
  then show ?case by (simp add: prints_def)
next
  case (Cons x xs)
  then have "prints I f (op x) (us x)" "prints I f (in_turn op xs) (concat (map us xs))" by simp_all
  then show ?case unfolding prints_def by (fastforce simp: fold_append)
qed

lemma prints_say:
  assumes "font_ok f" and "list_all console_char str"
  shows "prints I f (say str) (code_points str)"
  using kernel_console.print_chars [of f _ str] assms by (auto simp: prints_def say_def fold_shown)

lemma prints_with_array:
  assumes "prints I f op us" and "I own"
  shows "prints J f (with_array own op) us"
  using assms by (fastforce simp: prints_def with_array_def)

text \<open>Digits are ASCII.\<close>

definition text_points :: "u8 list \<Rightarrow> u32 list" where
  "text_points bs = map ucast bs"

lemma bytes_shown:
  assumes "font_ok f" and "console_with f s" and "\<forall>b \<in> set bs. b < 0x80 \<and> b \<noteq> 0 \<and> b \<noteq> 8"
  shows "term_print_string (bs @ 0 # rest) PURPLE s = Some (fold (show_char f PURPLE) (text_points bs) s) \<and>
    console_with f (fold (show_char f PURPLE) (text_points bs) s)"
proof -
  have u: "utf8_char (ucast b) = [b]" "(ucast b :: u32) \<noteq> 0" "(ucast b :: u32) \<noteq> 8" "(ucast b :: u32) < 0x110000"
    if "b < 0x80" "b \<noteq> 0" "b \<noteq> 8" for b :: u8
  proof -
    have "uint (ucast b :: u32) = uint b" by (rule uint_up_ucast) (simp add: is_up)
    then have n: "unat (ucast b :: u32) = unat b" by (simp only: unat_eq_nat_uint)
    then have "unat (ucast b :: u32) < 0x80" using that(1) by (simp add: word_less_nat_alt)
    then show "(ucast b :: u32) < 0x110000" by (simp add: word_less_nat_alt)
    have "ucast (ucast b :: u32) = b" by (rule bit_word_eqI) (auto simp: bit_simps)
    then show "utf8_char (ucast b) = [b]" using n that(1) by (simp add: utf8_char_def word_less_nat_alt)
    have "unat b \<noteq> unat (0 :: u8)" "unat b \<noteq> unat (8 :: u8)" using that(2,3) by (simp_all only: word_unat_eq_iff [symmetric] not_False_eq_True)
    then show "(ucast b :: u32) \<noteq> 0" "(ucast b :: u32) \<noteq> 8" using n by auto
  qed
  have "concat (map utf8_char (text_points bs)) = bs" using assms(3) u(1) by (induction bs) (simp_all add: text_points_def)
  moreover have "no_backspace (text_points bs)" using assms(3) u(2-4) by (auto simp: no_backspace_def text_points_def)
  ultimately show ?thesis using print_string_prefix [OF assms(1,2), of "text_points bs" rest PURPLE] by simp
qed

lemma number_digit_bytes: "d < 36 \<Longrightarrow> alpha_numeric d < 0x80 \<and> alpha_numeric d \<noteq> 0 \<and> alpha_numeric d \<noteq> 8"
proof -
  assume "d < 36"
  then have "unat (alpha_numeric d) = (if d < 10 then 48 + d else 87 + d)" by (simp add: alpha_numeric_def unat_of_nat)
  then have "unat (alpha_numeric d) < 128" "unat (alpha_numeric d) \<noteq> 0" "unat (alpha_numeric d) \<noteq> 8" using \<open>d < 36\<close> by auto
  then show ?thesis by (auto simp: word_less_nat_alt)
qed

lemma number_bytes:
  "\<forall>b \<in> set (hex_text num). b < 0x80 \<and> b \<noteq> 0 \<and> b \<noteq> 8" "\<forall>b \<in> set (dec_text num). b < 0x80 \<and> b \<noteq> 0 \<and> b \<noteq> 8"
proof -
  have d: "d \<in> set (digits 16 (unat num)) \<Longrightarrow> d < 36" "d \<in> set (digits 10 (unat num)) \<Longrightarrow> d < 36" for d
    using digits_less [of 16 d "unat num"] digits_less [of 10 d "unat num"] by simp_all
  show "\<forall>b \<in> set (hex_text num). b < 0x80 \<and> b \<noteq> 0 \<and> b \<noteq> 8" using d(1) number_digit_bytes by (auto simp: hex_text_def)
  show "\<forall>b \<in> set (dec_text num). b < 0x80 \<and> b \<noteq> 0 \<and> b \<noteq> 8" using d(2) number_digit_bytes by (auto simp: dec_text_def)
qed

text \<open>The arrays: a hexadecimal number needs 19 bytes; a decimal one 51, of which it leaves number 49 alone, which has to be zero.\<close>

definition hex_array :: "u8 list \<Rightarrow> bool" where
  "hex_array buf \<longleftrightarrow> 19 \<le> length buf"

definition dec_array :: "u8 list \<Rightarrow> bool" where
  "dec_array buf \<longleftrightarrow> 51 \<le> length buf \<and> buf ! 49 = 0"

lemma say_hex_value:
  assumes "font_ok f" and "19 \<le> length buf" and "console_with f s"
  shows "say_hex num (buf, s) = Some (hex_text num @ 0 # drop 19 buf, fold (show_char f PURPLE) (text_points (hex_text num)) s)"
    and "console_with f (fold (show_char f PURPLE) (text_points (hex_text num)) s)"
  using bytes_shown [OF assms(1,3) number_bytes(1), of num "drop 19 buf"] ull_to_hex_value [OF assms(2), of num]
  by (simp_all add: say_hex_def say_at_def)

lemma prints_hex:
  assumes "font_ok f"
  shows "prints hex_array f (say_hex num) (text_points (hex_text num))" and "prints dec_array f (say_hex num) (text_points (hex_text num))"
proof -
  show "prints hex_array f (say_hex num) (text_points (hex_text num))"
    unfolding prints_def hex_array_def using say_hex_value [OF assms] by (auto simp: length_hex_text)
  have "(hex_text num @ 0 # drop 19 buf) ! 49 = buf ! 49" if "51 \<le> length buf" for buf :: "u8 list"
    using that by (simp add: nth_append length_hex_text)
  note k = this
  show "prints dec_array f (say_hex num) (text_points (hex_text num))"
    unfolding prints_def dec_array_def
  proof (intro allI impI)
    fix buf s assume b: "51 \<le> length buf \<and> buf ! 49 = (0 :: u8)" and c: "console_with f s"
    then have "19 \<le> length buf" by simp
    from say_hex_value [OF assms this c, of num] show "(\<exists>buf'. say_hex num (buf, s) = Some (buf', fold (show_char f PURPLE) (text_points (hex_text num)) s) \<and>
        51 \<le> length buf' \<and> buf' ! 49 = 0) \<and> console_with f (fold (show_char f PURPLE) (text_points (hex_text num)) s)"
      using k [of buf] b by (auto simp: length_hex_text)
  qed
qed

lemma prints_dec:
  assumes "font_ok f"
  shows "prints dec_array f (say_dec num) (text_points (dec_text num))"
  unfolding prints_def dec_array_def
proof (intro allI impI)
  fix buf s assume b: "51 \<le> length buf \<and> buf ! 49 = (0 :: u8)" and c: "console_with f s"
  let ?n = "49 - length (dec_text num)"
  let ?b = "take ?n buf @ dec_text num @ 0 # 0 # drop 51 buf"
  have n: "length (dec_text num) \<le> 20" using dec_digits_fit [of num] by (simp add: dec_text_def)
  have "?n \<le> length buf" using b by linarith
  then have l: "length (take ?n buf) = ?n" by simp
  have v: "itoa buf num = Some (?b, int ?n)" using itoa_value [of buf num] b by simp
  have d: "drop ?n ?b = dec_text num @ 0 # 0 # drop 51 buf" using l by simp
  note p = bytes_shown [OF assms c number_bytes(2), of num "0 # drop 51 buf"]
  have "?n < length ?b" using l by simp
  then have "say_dec num (buf, s) = Some (?b, fold (show_char f PURPLE) (text_points (dec_text num)) s)"
    using v p d by (simp add: say_dec_def say_at_def)
  moreover have "51 \<le> length ?b" using b l n by (simp add: le_diff_conv2)
  moreover have "\<not> 49 < ?n" by arith
  then have "?b ! 49 = 0" using l n by (simp add: nth_append)
  ultimately show "(\<exists>buf'. say_dec num (buf, s) = Some (buf', fold (show_char f PURPLE) (text_points (dec_text num)) s) \<and>
      51 \<le> length buf' \<and> buf' ! 49 = 0) \<and> console_with f (fold (show_char f PURPLE) (text_points (dec_text num)) s)"
    using p by blast
qed

section \<open>Properties\<close>

definition region_text :: "memmap_entry \<Rightarrow> u32 list" where
  "region_text e = code_points ''Memory region base: '' @ text_points (hex_text (base e)) @ code_points '' -- Length: '' @
     text_points (hex_text (len e)) @ code_points '' -- Type: '' @
     (case region_type (mtype e) of None \<Rightarrow> [] | Some str \<Rightarrow> code_points (str @ [CHR 0x0a]))"

definition map_text :: "memmap_entry list \<Rightarrow> u32 list" where
  "map_text entries = code_points ([CHR 0x0a] @ ''Physical Memory Regions:'' @ [CHR 0x0a, CHR 0x0a]) @ concat (map region_text entries)"

definition kernel_text :: "u64 \<Rightarrow> u64 \<Rightarrow> u32 list" where
  "kernel_text physical virtual = code_points ''The physical base address of the kernel is: '' @ text_points (hex_text physical) @
     code_points ([CHR 0x0a] @ ''The virtual base address of the kernel is:  '') @ text_points (hex_text virtual)"

definition report_text :: "memmap_entry list \<Rightarrow> u64 \<Rightarrow> u64 \<Rightarrow> u64 \<Rightarrow> u32 list" where
  "report_text entries physical virtual hhdm =
     (let inf = print_memory_stats entries; nl = (\<lambda>str. code_points ([CHR 0x0a] @ str)); number = (\<lambda>n. text_points (dec_text n)) in
      map_text entries @ nl '''' @ code_points ''Total Amount of Memory: '' @ number (total_memory inf) @
      nl ''Total 4KB Pages: '' @ number (total_pages inf) @ nl ''Total Reserved Pages: '' @ number (used_pages inf) @
      nl ''Total Available Pages: '' @ number (available_pages inf) @ nl [CHR 0x0a] @ kernel_text physical virtual @
      nl ''Higher half base offset: '' @ text_points (hex_text hhdm) @ nl '''')"

lemmas console_literals = console_char_def of_char_def

lemma prints_region_type:
  assumes "font_ok f"
  shows "prints I f (case region_type ty of None \<Rightarrow> Some | Some str \<Rightarrow> say (str @ [CHR 0x0a]))
    (case region_type ty of None \<Rightarrow> [] | Some str \<Rightarrow> code_points (str @ [CHR 0x0a]))"
proof (cases "region_type ty")
  case None
  then show ?thesis by (simp add: prints_none)
next
  case (Some str)
  then have "list_all console_char (str @ [CHR 0x0a])"
    by (auto simp: region_type_def console_literals split: if_splits)
  then show ?thesis using Some prints_say [OF assms] by simp
qed

lemma prints_map:
  assumes "font_ok f"
  shows "prints hex_array f (print_mem_map entries) (map_text entries)"
proof -
  have "prints hex_array f (print_region e) (region_text e)" for e
  proof -
    have "prints hex_array f (print_region e) (concat [code_points ''Memory region base: '', text_points (hex_text (base e)),
        code_points '' -- Length: '', text_points (hex_text (len e)), code_points '' -- Type: '',
        (case region_type (mtype e) of None \<Rightarrow> [] | Some str \<Rightarrow> code_points (str @ [CHR 0x0a]))])"
      unfolding print_region_def
      by (rule prints_statements)
        (simp only: list_all2_Cons list_all2_Nil, intro conjI TrueI prints_say prints_hex prints_region_type assms; simp add: console_literals)
    then show ?thesis by (simp add: region_text_def)
  qed
  then have r: "prints hex_array f (in_turn print_region entries) (concat (map region_text entries))" by (intro prints_in_turn) simp
  have "prints hex_array f (print_mem_map entries)
      (concat [code_points ([CHR 0x0a] @ ''Physical Memory Regions:'' @ [CHR 0x0a, CHR 0x0a]), concat (map region_text entries)])"
    unfolding print_mem_map_def
    by (rule prints_statements)
      (simp only: list_all2_Cons list_all2_Nil, intro conjI TrueI prints_say assms r; simp add: console_literals)
  then show ?thesis by (simp add: map_text_def)
qed

lemma prints_kernel:
  assumes "font_ok f"
  shows "prints hex_array f (print_kernel_base_addresses physical virtual) (kernel_text physical virtual)"
proof -
  have "prints hex_array f (print_kernel_base_addresses physical virtual) (concat [code_points ''The physical base address of the kernel is: '',
      text_points (hex_text physical), code_points ([CHR 0x0a] @ ''The virtual base address of the kernel is:  ''), text_points (hex_text virtual)])"
    unfolding print_kernel_base_addresses_def
    by (rule prints_statements)
      (simp only: list_all2_Cons list_all2_Nil, intro conjI TrueI prints_say prints_hex assms; simp add: console_literals)
  then show ?thesis by (simp add: kernel_text_def)
qed

text \<open>The report of \<open>pmm_init\<close> is on the console: the regions of the memory map with base, length and type, the totals in decimal
  and the addresses of the kernel, when every array has the byte more that the conversions write, and byte 49 of the decimal one is zero.\<close>

theorem memory_report_prints:
  assumes "font_ok f" and "console_with f s" and "dec_array num_buf" and "hex_array map_array" and "hex_array base_array"
  shows "\<exists>num_buf'. print_memory_report entries physical virtual hhdm map_array base_array (num_buf, s) =
      Some (num_buf', fold (show_char f PURPLE) (report_text entries physical virtual hhdm) s)"
proof -
  let ?inf = "print_memory_stats entries"
  let ?nl = "\<lambda>str. code_points ([CHR 0x0a] @ str)" and ?num = "\<lambda>n. text_points (dec_text n)"
  have "prints dec_array f (print_memory_report entries physical virtual hhdm map_array base_array)
      (concat [map_text entries, ?nl '''', code_points ''Total Amount of Memory: '', ?num (total_memory ?inf), ?nl ''Total 4KB Pages: '', ?num (total_pages ?inf),
        ?nl ''Total Reserved Pages: '', ?num (used_pages ?inf), ?nl ''Total Available Pages: '', ?num (available_pages ?inf), ?nl ([CHR 0x0a] @ ''''),
        kernel_text physical virtual, ?nl ''Higher half base offset: '', text_points (hex_text hhdm), ?nl ''''])"
    unfolding print_memory_report_def Let_def
    by (rule prints_statements)
      (simp only: list_all2_Cons list_all2_Nil,
       intro conjI TrueI prints_say prints_hex prints_dec prints_with_array [OF prints_map] prints_with_array [OF prints_kernel] assms; simp add: console_literals)
  then show ?thesis using assms(2,3) by (simp add: prints_def report_text_def Let_def) blast
qed

theorem memory_report_prints_witness:
  "\<exists>num_buf' s'. print_memory_report [\<lparr>base = 0, len = 0x100000, mtype = 0\<rparr>] 0x200000 0xffffffff80000000 0xffff800000000000
      (replicate 24 7) (replicate 24 7) (replicate 64 0, demo_console) = Some (num_buf', s')"
  using memory_report_prints [OF demo_font_ok demo_console_ready(1), of "replicate 64 0" "replicate 24 7" "replicate 24 7"]
  by (fastforce simp: dec_array_def hex_array_def)

text \<open>In the arrays as they are declared, of 18 bytes, the first number is already written outside.\<close>

lemma declared_array_faults:
  assumes "font_ok f" and "console_with f s" and "length buf = HEX_STRING_MAX"
  shows "print_region e (buf, s) = None"
proof -
  have "say ''Memory region base: '' (buf, s) = Some (buf, fold (shown f) ''Memory region base: '' s)"
    using kernel_console.print_chars [of f s "''Memory region base: ''"] assms(1,2) by (simp add: say_def console_literals)
  moreover have "say_hex n (buf, t) = None" for n t
    using conversion_buffer_overrun [of buf n] assms(3) by (simp add: say_hex_def)
  ultimately show ?thesis by (simp add: print_region_def statements_def)
qed

end
