(* ===== verification/Spec2Isabelle.thy ===== *)
theory Spec2Isabelle
  imports Vmm_Correct Sched_Correct Lock Kstring Descriptors Ioapic Disk Ps2 Cpu_Local Smp Fb_Properties
    Console_Properties Interrupts Pmm_Report
begin

text \<open>
  FrazzOS, an x86-64 kernel in C (kernel/src), modelled function by function.

  The parts and how they interact.  \<open>_start\<close> (main.c) calls one initialiser after another:
  descriptor tables, disk, physical memory, virtual memory, heap, ACPI, the interrupt controllers,
  keyboard, timers, the other processors and the scheduler.  The page allocator (mm/pmm.c) keeps a
  bitmap of frames; the virtual memory manager (mm/vmm.c) takes page tables from it; the heap
  (mm/heap.c, klibc/alloc.c) takes one region from it and keeps a bitmap of blocks of its own; ACPI
  and the processes allocate from the heap; the drivers take their addresses from the tables ACPI
  finds; the timer interrupt drives the scheduler (proc/).  \<open>kprint\<close> is used everywhere, is guarded by
  the spin lock, and draws its characters with the font library (ssfn.h) on the frame buffer
  (drivers/graphics/framebuffer.c).  The terminal emulator (flanterm.c) parses what is written to it and
  draws through the function pointers of a back end, the frame buffer one (backends/fb.c).

  The theories.
    \<^item> Prelude: C integers as words, arrays with checked access (\<open>buf_get\<close>, \<open>buf_set\<close>), the two
      loop shapes \<open>for_range\<close> and \<open>for_find\<close>, word lemmas.
    \<^item> First_Fit: the locale of a bitmap with a first-fit search; Allocator: the locale of an
      allocator whose results are disjoint.  Bitmap, Pmm and Heap interpret them with their own
      definitions, and their properties rest on the interpretations.
    \<^item> Bitmap (klibc/bitmap.c), Mm (mm/mm.h, mm.c), Pmm (mm/pmm.c), Heap (mm/heap.c, \<open>malloc\<close>):
      allocation.  The searches may not end, so they are partial functions; the properties say when
      they return and what.
    \<^item> Memory (klibc/memory.c), Kstring (klibc/string.c): bytes and strings.
    \<^item> Vmm, Vmm_Correct (mm/vmm.c, \<open>mmap\<close>): page tables in a byte memory, the tree of tables in them
      (\<open>tables_ok\<close>), the translation the hardware computes (\<open>walk\<close>) and the refinement of updates of it.  The code does not clear a new table: what mapping a page
      does is stated with the words the frame of the table held (\<open>vmm_map_page_refines\<close>), and the theorem
      on \<open>vmm_init\<close>, which needs at most 5134 tables, has as its hypothesis that the allocator has them below
      some frame \<open>B\<close> below which the free frames hold zeros.
    \<^item> Sched, Sched_Correct (proc/, the timer handler of idt/isr.c): the ring of tasks, the
      registers and stacks, the context switch of switch.asm instruction by instruction; a time
      slice is six ticks.
    \<^item> Lock (klibc/lock.c, io.c): \<open>kprint\<close> on any number of processors as a step relation.
    \<^item> Paint, Utf8: painting a list of dots, and UTF-8, shared by the console and the terminal.
    \<^item> Ssfn, Ssfn_Correct (ssfn.h): \<open>ssfn_utf8\<close> and \<open>ssfn_putc\<close> on the bytes of a font, and what is drawn:
      a glyph as its fragments say (\<open>glyph_of\<close>, \<open>ink\<close>).
    \<^item> Console (drivers/graphics/framebuffer.c): one definition per function on the dots of the screen.
      Console_Correct: a console in order (\<open>console_ok\<close>), the scroll, a character.  Console_Text:
      strings and the start.  Console_Picture: the screen dot by dot (\<open>dot_at\<close>).
      A screen in order is at least one character wide and two high, has lines of less than 65536
      bytes (the pitch is cut to 16 bits) and less than \<open>2^31 - 256\<close> lines (coordinates are \<open>int\<close>), and a
      background other than black (black is no background for the font library).
    \<^item> Kprint: the locale of a printer of strings, interpreted on the console, and the strings of a run
      of Lock printed there.  Console_Properties: the properties of the console.
    \<^item> Interrupts (idt/idt.asm, idt/isr.c, gdt/gdt.asm): the frame the processor pushes, the stubs, the
      handlers of exceptions on the console, the keyboard handler with its acknowledgement, the
      segment registers.  \<open>kprint\<close> in an exception polls the lock (\<open>lock_wait\<close>); what the other processors
      do to the flag and the console between two polls is a parameter.  Pmm_Report (mm/pmm.c): what \<open>pmm_init\<close> prints.
    \<^item> Descriptors (gdt/, idt/, tss/), Ioapic (devices/ioapic.c): tables and redirection entries.
    \<^item> Ports (devices/cpu.h, pic.c), Disk (disk/disk.c), Ps2 (devices/ps2.c): devices behind ports.
      The device is a parameter, a record of what reading and writing a port does; the properties
      name a reference device (8259 pair, ATA drive, 8042) that it follows.  \<open>inw\<close> is assembly that
      does not load its port: what the register holds is a parameter of the disk driver, and its theorem
      says what is read when it is the data port and when it is another.  The keyboard handler is
      specified on every scancode (\<open>key_spec\<close>), from the positions of the keys.
    \<^item> Acpi (firmware/acpi.c): tables in a byte memory; the seven tables of the MADT parser hold 32
      pointers each, and the theorem assumes no more records of a type.
    \<^item> Timer (devices/apic.c, hpet.c, timer.c), Cpu_Local (smp/smp.c, part of proc/process.c):
      memory-mapped registers as a parameter, with a reference board whose counter gains a bounded
      number of ticks per poll.
    \<^item> Smp (smp/smp.c): starting the other processors as a step relation; invariant, the order of
      the control points, in which no processor goes back, and a measure that some step always
      decreases.
    \<^item> Unicode, Flanterm (flanterm.c): the character tables; the context of the terminal as a
      record, the parser, and the function that takes a byte.  Flanterm_Safe: the invariant of the
      context under every byte, and the palette; Flanterm_Text: what sequences of bytes do.
      Flanterm_Backend: the locale of the contract between the terminal and any back end.
    \<^item> Fb (backends/fb.c, fb.h): the back end, one definition per function; a fault is an access
      outside one of its arrays.  Fb_Draw: the dots of a character on the frame buffer.  Fb_Screen:
      the invariant of queue, map and grid, and the screen (\<open>screen\<close>, the characters of the cells)
      they stand for, on which every operation acts.  Fb_Flush, Fb_Refresh: drawing what is pending,
      and everything.  Fb_Font, Fb_Init, Fb_Init_Correct: the built-in font, the initialisation as a
      chain of seven allocations, and its end.  Fb_Terminal interprets Flanterm_Backend on it;
      Fb_Properties: the picture after a write, safety, refinement, initialisation, and the faults.
      The pool of 64 MiB is enough for 15 000 000 pixels (\<open>simple_ok\<close>): four bytes a pixel for the
      canvas, 52 bytes for every 144 pixels, and the font.

  Conventions.  \<open>None\<close> is a fault, a panic that halts, or a loop that does not end; a parameter
  stands for what is not under kernel/src (devices, the boot loader's answers, the processor's
  identification).  Interrupts and processors interleave where the code is written for it (Lock,
  Smp); elsewhere a function runs to its end.

  What the lemmas show.  Allocation is first fit and its results are disjoint; freeing undoes it;
  mapping a page updates one page of the translation; ready tasks run in ring order, and a task
  resumes as it stopped; \<open>kprint\<close> is exclusive; the processors all check in; drivers do to the
  reference devices what they should; no byte but one drives the terminal out of its arrays, and
  text, colours and cursor positions come out as the standards have them, and the dots of the
  text on the frame buffer; strings of \<open>kprint\<close> draw the glyphs of the font, wrap, scroll and stay on the
  screen; an interrupt goes back to where it was; an exception halts.  Where the code does not
  do what it means to, a theorem states what it does instead.

  Not modelled.  main.c calls the initialisers one after the other; each is modelled on the memory it
  needs (bytes, words, records, ports), and these are not put together to one machine.  Of ssfn.h the
  renderer of SSFN_IMPLEMENTATION and the C++ wrapper are not compiled; drivers/terminal.c is commented
  out; \<open>load_tss\<close> has no caller.  The messages the initialisers other than \<open>pmm_init\<close> print are left
  out of their models.  The non-maskable interrupt, which would wake a processor that halted, is not
  considered.
\<close>

end
